(* ===== verification/Prelude.thy ===== *)
theory Prelude
  imports Main "HOL-Library.Word" "HOL-Library.Signed_Division"
begin

text \<open>
  Shared vocabulary of the development: the machine integers of the Rust sources, the
  vector and slot-map operations they use, and the generic lemmas about both.

  Signed integers (\<open>i32\<close>, \<open>i64\<close>) are mathematical integers. Where the source uses a plain
  \<open>+\<close>, \<open>-\<close> or \<open>*\<close> on \<open>i32\<close> the model applies \<open>wrap32\<close>, the two's complement wrap-around of a
  release build; where it says \<open>saturating_*\<close> the model applies \<open>sat32\<close>. Values the source
  widens to \<open>i64\<close> are sums of at most four \<open>i32\<close> values and products of two differences of them,
  which stay inside \<open>i64\<close>, so they are plain integers. \<open>u32\<close> values that are bit sets or
  cursors are \<open>32 word\<close>; \<open>usize\<close> is \<open>nat\<close>.
\<close>

named_theorems machine_simps "exactness of machine arithmetic inside its range"
named_theorems vec_simps "lookups, lengths and members of updated vectors"
named_theorems slot_simps "lookups in updated slot maps"

section \<open>Machine integers\<close>

abbreviation i32_min :: int where "i32_min \<equiv> - 2147483648"
abbreviation i32_max :: int where "i32_max \<equiv> 2147483647"

definition in_i32 :: "int \<Rightarrow> bool" where
  "in_i32 v \<longleftrightarrow> i32_min \<le> v \<and> v \<le> i32_max"

text \<open>The result of an unchecked \<open>i32\<close> operation in a release build.\<close>

definition wrap32 :: "int \<Rightarrow> int" where
  "wrap32 v = (v + 2147483648) mod 4294967296 - 2147483648"

text \<open>The result of a \<open>saturating_*\<close> operation on \<open>i32\<close>, and on \<open>i64\<close>.\<close>

definition sat32 :: "int \<Rightarrow> int" where
  "sat32 v = max i32_min (min i32_max v)"

definition sat64 :: "int \<Rightarrow> int" where
  "sat64 v = max (- 9223372036854775808) (min 9223372036854775807 v)"

text \<open>\<open>Ord::clamp\<close>: the source asserts \<open>lo \<le> hi\<close>, and so does every caller modelled here.\<close>

definition clamp :: "int \<Rightarrow> int \<Rightarrow> int \<Rightarrow> int" where
  "clamp v lo hi = (if v < lo then lo else if v > hi then hi else v)"

lemma wrap32_id [machine_simps]: "i32_min \<le> v \<Longrightarrow> v \<le> i32_max \<Longrightarrow> wrap32 v = v"
  by (simp add: wrap32_def)

lemma wrap32_0 [simp]: "wrap32 0 = 0"
  by (simp add: wrap32_id)

lemma wrap32_range: "in_i32 (wrap32 v)"
proof -
  have "0 \<le> (v + 2147483648) mod 4294967296" and "(v + 2147483648) mod 4294967296 < 4294967296"
    by simp_all
  then show ?thesis by (simp add: in_i32_def wrap32_def)
qed

lemma sat32_id [machine_simps]: "i32_min \<le> v \<Longrightarrow> v \<le> i32_max \<Longrightarrow> sat32 v = v"
  by (simp add: sat32_def)

lemma sat32_range: "in_i32 (sat32 v)"
  by (simp add: in_i32_def sat32_def)

lemma sat32_mono: "a \<le> b \<Longrightarrow> sat32 a \<le> sat32 b"
  by (simp add: sat32_def)

lemma sat32_le: "i32_min \<le> v \<Longrightarrow> sat32 v \<le> v"
  by (simp add: sat32_def)

lemma clamp_bounds: "lo \<le> hi \<Longrightarrow> lo \<le> clamp v lo hi \<and> clamp v lo hi \<le> hi"
  by (simp add: clamp_def)

lemma clamp_id [machine_simps]: "lo \<le> v \<Longrightarrow> v \<le> hi \<Longrightarrow> clamp v lo hi = v"
  by (simp add: clamp_def)

lemma clamp_as_max_min: "lo \<le> hi \<Longrightarrow> clamp v lo hi = max lo (min hi v)"
  by (auto simp: clamp_def)

text \<open>Rust's \<open>/\<close> truncates; on non-negative operands it is \<open>div\<close>.\<close>

lemma sdiv_nonneg [machine_simps]: "0 \<le> a \<Longrightarrow> 0 < b \<Longrightarrow> (a::int) sdiv b = a div b"
  by (cases "a = 0") (simp_all add: signed_divide_int_def)

lemma sdiv_half_bounds: "0 \<le> a \<Longrightarrow> 0 \<le> (a::int) sdiv 2 \<and> 2 * (a sdiv 2) \<le> a \<and> a \<le> 2 * (a sdiv 2) + 1"
  by (simp add: sdiv_nonneg) presburger

lemma div_mult_bounds: "0 < (b::int) \<Longrightarrow> b * (a div b) \<le> a \<and> a < b * (a div b) + b"
  by (metis add.commute add_strict_left_mono div_mult_mod_eq mult.commute pos_mod_bound
      pos_mod_sign le_add_same_cancel1)

section \<open>Bit sets\<close>

text \<open>\<open>u32::trailing_zeros\<close>: the index of the lowest set bit, 32 for zero.\<close>

definition trailing_zeros :: "32 word \<Rightarrow> nat" where
  "trailing_zeros m = length (takeWhile (\<lambda>i. \<not> bit m i) [0..<32])"

section \<open>Vectors\<close>

text \<open>\<open>iter().position\<close>, \<open>Vec::insert\<close>, \<open>Vec::remove\<close> and \<open>Vec::resize\<close>.\<close>

fun position :: "('a \<Rightarrow> bool) \<Rightarrow> 'a list \<Rightarrow> nat option" where
  "position p [] = None"
| "position p (x # xs) = (if p x then Some 0 else map_option Suc (position p xs))"

definition vec_insert :: "nat \<Rightarrow> 'a \<Rightarrow> 'a list \<Rightarrow> 'a list" where
  "vec_insert i x xs = take i xs @ x # drop i xs"

definition vec_remove :: "nat \<Rightarrow> 'a list \<Rightarrow> 'a list" where
  "vec_remove i xs = take i xs @ drop (Suc i) xs"

definition vec_resize :: "nat \<Rightarrow> 'a \<Rightarrow> 'a list \<Rightarrow> 'a list" where
  "vec_resize n v xs = take n xs @ replicate (n - length xs) v"

definition vec_get :: "'a list \<Rightarrow> nat \<Rightarrow> 'a option" where
  "vec_get xs i = (if i < length xs then Some (xs ! i) else None)"

text \<open>A filter that keeps the first occurrence of each element: \<open>seen.insert(key)\<close>.\<close>

fun first_seen :: "'a list \<Rightarrow> 'a list \<Rightarrow> 'a list" where
  "first_seen seen [] = []"
| "first_seen seen (x # xs) =
     (if x \<in> set seen then first_seen seen xs else x # first_seen (x # seen) xs)"

lemma position_None_iff: "position p xs = None \<longleftrightarrow> (\<forall>x \<in> set xs. \<not> p x)"
  by (induction xs) auto

lemma position_SomeD:
  "position p xs = Some i \<Longrightarrow> i < length xs \<and> p (xs ! i) \<and> (\<forall>j < i. \<not> p (xs ! j))"
proof (induction xs arbitrary: i)
  case Nil
  then show ?case by simp
next
  case (Cons x xs)
  show ?case
  proof (cases "p x")
    case True
    with Cons.prems show ?thesis by simp
  next
    case False
    with Cons.prems obtain j where j: "position p xs = Some j" "i = Suc j" by auto
    with Cons.IH [OF j(1)] False show ?thesis
      by (auto simp: less_Suc_eq_0_disj)
  qed
qed

lemma position_ex: "x \<in> set xs \<Longrightarrow> p x \<Longrightarrow> \<exists>i. position p xs = Some i"
  by (metis not_None_eq position_None_iff)

lemma length_vec_insert [vec_simps]: "length (vec_insert i x xs) = Suc (length xs)"
  by (simp add: vec_insert_def)

lemma set_vec_insert [vec_simps]: "set (vec_insert i x xs) = insert x (set xs)"
  by (metis (no_types, lifting) Un_insert_right append_take_drop_id list.set(2) set_append
      vec_insert_def)

lemma distinct_vec_insert: "distinct (vec_insert i x xs) \<longleftrightarrow> x \<notin> set xs \<and> distinct xs"
proof -
  have "distinct (take i xs @ x # drop i xs) \<longleftrightarrow> distinct (x # take i xs @ drop i xs)"
    by (simp del: append_take_drop_id) blast
  then show ?thesis by (simp add: vec_insert_def)
qed

lemma filter_vec_insert: "filter p (vec_insert i x xs) =
    filter p (take i xs) @ (if p x then [x] else []) @ filter p (drop i xs)"
  by (simp add: vec_insert_def)

lemma filter_neq_vec_insert:
  "x \<notin> set xs \<Longrightarrow> filter (\<lambda>y. y \<noteq> x) (vec_insert i x xs) = xs"
proof -
  assume "x \<notin> set xs"
  then have "filter (\<lambda>y. y \<noteq> x) (take i xs @ drop i xs) = xs"
    by (simp only: append_take_drop_id) (auto simp: filter_id_conv)
  then show ?thesis by (simp add: vec_insert_def del: append_take_drop_id)
qed

lemma length_vec_resize [vec_simps]: "length (vec_resize n v xs) = n"
  by (simp add: vec_resize_def)

lemma nth_vec_resize [vec_simps]:
  "i < n \<Longrightarrow> vec_resize n v xs ! i = (if i < length xs then xs ! i else v)"
  by (auto simp: vec_resize_def nth_append)

lemma vec_resize_same [vec_simps]: "vec_resize (length xs) v xs = xs"
  by (simp add: vec_resize_def)

lemma vec_get_Some_iff: "vec_get xs i = Some x \<longleftrightarrow> i < length xs \<and> xs ! i = x"
  by (auto simp: vec_get_def)

lemma set_first_seen: "set (first_seen seen xs) = set xs - set seen"
  by (induction seen xs rule: first_seen.induct) auto

lemma distinct_first_seen: "distinct (first_seen seen xs)"
  by (induction seen xs rule: first_seen.induct) (auto simp: set_first_seen)

lemma first_seen_distinct:
  "distinct xs \<Longrightarrow> set xs \<inter> set seen = {} \<Longrightarrow> first_seen seen xs = xs"
  by (induction seen xs rule: first_seen.induct) auto

lemma first_seen_append:
  "first_seen seen (xs @ ys) = first_seen seen xs @ first_seen (seen @ xs) ys"
proof (induction seen xs rule: first_seen.induct)
  case (1 seen)
  then show ?case by simp
next
  case (2 seen x xs)
  have perm: "first_seen s ys = first_seen t ys" if "set s = set t" for s t
    using that
  proof (induction s ys arbitrary: t rule: first_seen.induct)
    case (2 seen x xs)
    show ?case
    proof (cases "x \<in> set seen")
      case True
      with "2.prems" "2.IH"(1) [of t] show ?thesis by simp
    next
      case False
      with "2.prems" "2.IH"(2) [of "x # t"] show ?thesis by simp
    qed
  qed simp
  show ?case
  proof (cases "x \<in> set seen")
    case True
    with "2.IH"(1) perm [of "seen @ xs" "seen @ x # xs"] show ?thesis by (auto simp: insert_absorb)
  next
    case False
    with "2.IH"(2) perm [of "(x # seen) @ xs" "seen @ x # xs"] show ?thesis by simp
  qed
qed

section \<open>Slot maps\<close>

text \<open>
  A slot map is the list of its live entries in iteration order. The order is data of the
  model: nothing is assumed about how the container chooses it.
\<close>

type_synonym ('k, 'v) slotmap = "('k \<times> 'v) list"

definition slot_get :: "('k, 'v) slotmap \<Rightarrow> 'k \<Rightarrow> 'v option" where
  "slot_get m k = map_of m k"

definition slot_update :: "'k \<Rightarrow> ('v \<Rightarrow> 'v) \<Rightarrow> ('k, 'v) slotmap \<Rightarrow> ('k, 'v) slotmap" where
  "slot_update k f m = map (\<lambda>(k', v). (k', if k' = k then f v else v)) m"

lemma slot_get_update [slot_simps]:
  "slot_get (slot_update k f m) k' =
     (if k' = k then map_option f (slot_get m k) else slot_get m k')"
  by (induction m) (auto simp: slot_get_def slot_update_def)

lemma slot_keys_update [slot_simps]: "map fst (slot_update k f m) = map fst m"
  by (induction m) (auto simp: slot_update_def)

lemma slot_get_Some_in: "slot_get m k = Some v \<Longrightarrow> k \<in> fst ` set m"
  by (auto simp: slot_get_def dest: map_of_SomeD intro: rev_image_eqI)

lemma slot_get_None_iff: "slot_get m k = None \<longleftrightarrow> k \<notin> fst ` set m"
  by (simp add: slot_get_def map_of_eq_None_iff)

text \<open>Hash maps are kept the same way: entries in the order the map iterates them.\<close>

definition hash_insert :: "'k \<Rightarrow> 'v \<Rightarrow> ('k, 'v) slotmap \<Rightarrow> ('k, 'v) slotmap" where
  "hash_insert k v m = (if slot_get m k = None then m @ [(k, v)] else slot_update k (\<lambda>_. v) m)"

definition hash_remove :: "'k \<Rightarrow> ('k, 'v) slotmap \<Rightarrow> ('k, 'v) slotmap" where
  "hash_remove k m = filter (\<lambda>(k', _). k' \<noteq> k) m"

lemma hash_get_insert [slot_simps]: "slot_get (hash_insert k v m) k' = (if k' = k then Some v else slot_get m k')"
proof (cases "slot_get m k")
  case None
  then show ?thesis by (auto simp: hash_insert_def slot_get_def map_add_def split: option.splits)
qed (auto simp: hash_insert_def slot_simps)

lemma hash_get_remove [slot_simps]: "slot_get (hash_remove k m) k' = (if k' = k then None else slot_get m k')"
  by (induction m) (auto simp: hash_remove_def slot_get_def)

end
