(* ===== verification/Rects.thy ===== *)
theory Rects
  imports Prelude
begin

text \<open>
  \<open>src/core/types.rs\<close>: the rectangle every component passes around, with the geometric
  relations (containment, disjointness) the theorems are stated in. A rectangle is half open:
  it covers \<open>rect_x .. rect_x + rect_w\<close> and \<open>rect_y .. rect_y + rect_h\<close>.
\<close>

record rect =
  rect_x :: int
  rect_y :: int
  rect_w :: int
  rect_h :: int

definition rect_new :: "int \<Rightarrow> int \<Rightarrow> int \<Rightarrow> int \<Rightarrow> rect" where
  "rect_new x y w h = \<lparr>rect_x = x, rect_y = y, rect_w = w, rect_h = h\<rparr>"

text \<open>\<open>inside outer r\<close>: the rectangle \<open>r\<close> lies in \<open>outer\<close>.\<close>

definition inside :: "rect \<Rightarrow> rect \<Rightarrow> bool" where
  "inside outer r \<longleftrightarrow>
     rect_x outer \<le> rect_x r \<and> rect_x r + rect_w r \<le> rect_x outer + rect_w outer \<and>
     rect_y outer \<le> rect_y r \<and> rect_y r + rect_h r \<le> rect_y outer + rect_h outer"

definition overlap :: "rect \<Rightarrow> rect \<Rightarrow> bool" where
  "overlap a b \<longleftrightarrow>
     rect_x a < rect_x b + rect_w b \<and> rect_x b < rect_x a + rect_w a \<and>
     rect_y a < rect_y b + rect_h b \<and> rect_y b < rect_y a + rect_h a"

definition in_rect :: "int \<Rightarrow> int \<Rightarrow> rect \<Rightarrow> bool" where
  "in_rect px py r \<longleftrightarrow> rect_x r \<le> px \<and> px < rect_x r + rect_w r \<and> rect_y r \<le> py \<and> py < rect_y r + rect_h r"

text \<open>No two rectangles of the list overlap.\<close>

fun disjoint_rects :: "rect list \<Rightarrow> bool" where
  "disjoint_rects [] = True"
| "disjoint_rects (r # rs) = ((\<forall>s \<in> set rs. \<not> overlap r s) \<and> disjoint_rects rs)"

lemma rect_new_simps [simp]:
  "rect_x (rect_new x y w h) = x" "rect_y (rect_new x y w h) = y"
  "rect_w (rect_new x y w h) = w" "rect_h (rect_new x y w h) = h"
  by (simp_all add: rect_new_def)

lemma overlap_sym: "overlap a b \<longleftrightarrow> overlap b a"
  by (auto simp: overlap_def)

text \<open>Overlap is what it says: the rectangles share a pixel.\<close>

lemma overlap_iff_pixel:
  assumes "0 < rect_w a" "0 < rect_h a" "0 < rect_w b" "0 < rect_h b"
  shows "overlap a b \<longleftrightarrow> (\<exists>px py. in_rect px py a \<and> in_rect px py b)"
proof
  assume "overlap a b"
  with assms have "in_rect (max (rect_x a) (rect_x b)) (max (rect_y a) (rect_y b)) a \<and>
      in_rect (max (rect_x a) (rect_x b)) (max (rect_y a) (rect_y b)) b"
    by (auto simp: overlap_def in_rect_def)
  then show "\<exists>px py. in_rect px py a \<and> in_rect px py b" by blast
qed (auto simp: overlap_def in_rect_def)

lemma inside_trans: "inside a b \<Longrightarrow> inside b c \<Longrightarrow> inside a c"
  by (auto simp: inside_def)

lemma inside_overlap_mono: "inside a b \<Longrightarrow> inside c d \<Longrightarrow> overlap b d \<Longrightarrow> overlap a c"
  by (auto simp: inside_def overlap_def)

lemma disjoint_rects_append:
  "disjoint_rects (xs @ ys) \<longleftrightarrow>
     disjoint_rects xs \<and> disjoint_rects ys \<and> (\<forall>a \<in> set xs. \<forall>b \<in> set ys. \<not> overlap a b)"
  by (induction xs) auto

lemma disjoint_rects_nth:
  "disjoint_rects rs \<longleftrightarrow> (\<forall>j < length rs. \<forall>i < j. \<not> overlap (rs ! i) (rs ! j))"
proof (induction rs)
  case (Cons r rs)
  have shift: "(\<forall>i < Suc n. P i) \<longleftrightarrow> P 0 \<and> (\<forall>i < n. P (Suc i))" for P :: "nat \<Rightarrow> bool" and n
    by (rule All_less_Suc2)
  have "(\<forall>j < length (r # rs). \<forall>i < j. \<not> overlap ((r # rs) ! i) ((r # rs) ! j)) \<longleftrightarrow>
      (\<forall>j < length rs. \<not> overlap r (rs ! j)) \<and> (\<forall>j < length rs. \<forall>i < j. \<not> overlap (rs ! i) (rs ! j))"
    by (simp only: list.size(4) add_Suc_right add_0_right shift nth_Cons_0 nth_Cons_Suc) auto
  with Cons show ?case by (simp add: all_set_conv_all_nth)
qed simp

text \<open>Shrinking every rectangle of a disjoint family inside its own cell keeps it disjoint.\<close>

lemma disjoint_rects_shrink:
  "list_all2 inside cells rs \<Longrightarrow> disjoint_rects cells \<Longrightarrow> disjoint_rects rs"
proof (induction cells rs rule: list_all2_induct)
  case Nil
  then show ?case by simp
next
  case (Cons c cs r rs)
  have "\<not> overlap r s" if s: "s \<in> set rs" for s
  proof -
    from Cons.hyps(2) s obtain d where "d \<in> set cs" "inside d s"
      by (metis in_set_conv_nth list_all2_conv_all_nth)
    with Cons.hyps(1) Cons.prems show ?thesis
      using inside_overlap_mono by (metis disjoint_rects.simps(2))
  qed
  with Cons show ?case by simp
qed

end
