(* ===== verification/Maximize.thy ===== *)
theory Maximize
  imports Rects
begin

text \<open>
  \<open>src/core/maximize.rs\<close> with the axis algebra of \<open>src/backend/api.rs\<close>: which axes a request
  asks for, whether a client may have them, and which rectangles a transition commits. The
  theorems follow the restore rectangle through arbitrary sequences of transitions.
\<close>

unbundle bit_operations_syntax

section \<open>Axes\<close>

record maximize_axes =
  ax_vert :: bool
  ax_horz :: bool

definition axes_new :: "bool \<Rightarrow> bool \<Rightarrow> maximize_axes" where
  "axes_new v h = \<lparr>ax_vert = v, ax_horz = h\<rparr>"

definition AXES_NONE :: maximize_axes where "AXES_NONE = axes_new False False"
definition AXES_VERT :: maximize_axes where "AXES_VERT = axes_new True False"
definition AXES_HORZ :: maximize_axes where "AXES_HORZ = axes_new False True"
definition AXES_BOTH :: maximize_axes where "AXES_BOTH = axes_new True True"

definition axes_any :: "maximize_axes \<Rightarrow> bool" where "axes_any a \<longleftrightarrow> ax_vert a \<or> ax_horz a"
definition axes_both :: "maximize_axes \<Rightarrow> bool" where "axes_both a \<longleftrightarrow> ax_vert a \<and> ax_horz a"

definition axes_union :: "maximize_axes \<Rightarrow> maximize_axes \<Rightarrow> maximize_axes" where
  "axes_union a b = axes_new (ax_vert a \<or> ax_vert b) (ax_horz a \<or> ax_horz b)"

definition axes_without :: "maximize_axes \<Rightarrow> maximize_axes \<Rightarrow> maximize_axes" where
  "axes_without a b = axes_new (ax_vert a \<and> \<not> ax_vert b) (ax_horz a \<and> \<not> ax_horz b)"

definition axes_gains_over :: "maximize_axes \<Rightarrow> maximize_axes \<Rightarrow> bool" where
  "axes_gains_over a current \<longleftrightarrow> (ax_vert a \<and> \<not> ax_vert current) \<or> (ax_horz a \<and> \<not> ax_horz current)"

datatype net_wm_state = NetFullscreen | NetMaximizedVert | NetMaximizedHorz | NetHidden | NetAbove | NetBelow
  | NetDemandsAttention | NetSticky | NetSkipTaskbar | NetSkipPager

definition axes_from_net_wm_state :: "net_wm_state \<Rightarrow> maximize_axes option" where
  "axes_from_net_wm_state s = (case s of NetMaximizedVert \<Rightarrow> Some AXES_VERT | NetMaximizedHorz \<Rightarrow> Some AXES_HORZ | _ \<Rightarrow> None)"

definition axes_with_net_wm_state :: "maximize_axes \<Rightarrow> net_wm_state \<Rightarrow> bool \<Rightarrow> maximize_axes" where
  "axes_with_net_wm_state a s on = (case s of
     NetMaximizedVert \<Rightarrow> axes_new on (ax_horz a)
   | NetMaximizedHorz \<Rightarrow> axes_new (ax_vert a) on
   | _ \<Rightarrow> a)"

section \<open>Requests\<close>

datatype net_wm_action = NetAdd | NetRemove | NetToggle
datatype ewmh_source_indication = SourceUnspecified | SourceApplication | SourcePager
datatype maximize_origin = OriginClient | OriginUser | OriginAdopt
datatype maximize_admission = AdmitApply | AdmitPromote | AdmitReject

definition ewmh_source_from_raw :: "nat \<Rightarrow> ewmh_source_indication" where
  "ewmh_source_from_raw v = (if v = 1 then SourceApplication else if v = 2 then SourcePager else SourceUnspecified)"

fun maximize_origin_from_ewmh_source :: "ewmh_source_indication \<Rightarrow> maximize_origin" where
  "maximize_origin_from_ewmh_source SourcePager = OriginUser"
| "maximize_origin_from_ewmh_source SourceUnspecified = OriginClient"
| "maximize_origin_from_ewmh_source SourceApplication = OriginClient"

record maximize_facts =
  resting_floating :: bool
  float_layout :: bool
  mf_suspended :: bool
  mf_is_fixed :: bool
  mf_is_dock :: bool
  has_work_area :: bool

definition requested_axes :: "maximize_axes \<Rightarrow> net_wm_action \<Rightarrow> maximize_axes \<Rightarrow> maximize_axes" where
  "requested_axes current action named =
     (if \<not> axes_any named then current
      else case action of
        NetAdd \<Rightarrow> axes_union current named
      | NetRemove \<Rightarrow> axes_without current named
      | NetToggle \<Rightarrow>
          if axes_both named then (if axes_both current then AXES_NONE else AXES_BOTH)
          else axes_new (ax_vert current \<noteq> ax_vert named) (ax_horz current \<noteq> ax_horz named))"

definition admit_maximize :: "maximize_axes \<Rightarrow> maximize_axes \<Rightarrow> maximize_facts \<Rightarrow> maximize_origin \<Rightarrow> maximize_admission" where
  "admit_maximize current next_axes facts origin =
     (if \<not> axes_gains_over next_axes current then AdmitApply
      else if \<not> has_work_area facts \<or> mf_is_dock facts \<or> mf_is_fixed facts then AdmitReject
      else if resting_floating facts then AdmitApply
      else if mf_suspended facts then AdmitReject
      else if float_layout facts \<or> origin = OriginUser then AdmitPromote
      else AdmitReject)"

datatype resting_slot = SlotLive | SlotHiddenRestore | SlotFullscreenReturn | SlotPipReturn

definition resting_slot_of :: "bool \<Rightarrow> bool \<Rightarrow> bool \<Rightarrow> resting_slot" where
  "resting_slot_of is_fullscreen is_pip parked =
     (if is_fullscreen then SlotFullscreenReturn else if is_pip then SlotPipReturn
      else if parked then SlotHiddenRestore else SlotLive)"

section \<open>Rectangles\<close>

definition inner_extent :: "int \<Rightarrow> int \<Rightarrow> int" where
  "inner_extent extent border_w = max (sat32 (extent - sat32 (border_w * 2))) 1"

definition maximize_target :: "rect \<Rightarrow> rect \<Rightarrow> maximize_axes \<Rightarrow> int \<Rightarrow> rect" where
  "maximize_target restore area axes border_w =
     (let r1 = (if ax_horz axes then restore\<lparr>rect_x := rect_x area, rect_w := inner_extent (rect_w area) border_w\<rparr> else restore)
      in if ax_vert axes then r1\<lparr>rect_y := rect_y area, rect_h := inner_extent (rect_h area) border_w\<rparr> else r1)"

definition mirror_free_axes :: "rect \<Rightarrow> rect \<Rightarrow> maximize_axes \<Rightarrow> rect" where
  "mirror_free_axes restore live axes =
     (let r1 = (if \<not> ax_horz axes then restore\<lparr>rect_x := rect_x live, rect_w := rect_w live\<rparr> else restore)
      in if \<not> ax_vert axes then r1\<lparr>rect_y := rect_y live, rect_h := rect_h live\<rparr> else r1)"

definition covers_nine_tenths :: "int \<Rightarrow> int \<Rightarrow> bool" where
  "covers_nine_tenths outer available \<longleftrightarrow> outer * 10 \<ge> available * 9"

definition two_thirds :: "int \<Rightarrow> int" where
  "two_thirds extent = (let v = extent * 2 sdiv 3 in if in_i32 v then v else extent)"

definition initial_restore_rect :: "rect \<Rightarrow> rect \<Rightarrow> int \<Rightarrow> rect" where
  "initial_restore_rect resting area border_w =
     (let border = sat32 (border_w * 2);
          near_full = (covers_nine_tenths (sat32 (rect_w resting + border)) (rect_w area) \<and>
                       covers_nine_tenths (sat32 (rect_h resting + border)) (rect_h area))
      in if \<not> near_full then resting
         else let w = max (sat32 (two_thirds (rect_w area) - border)) 1;
                  h = max (sat32 (two_thirds (rect_h area) - border)) 1
              in rect_new (sat32 (rect_x area + sat32 (rect_w area - sat32 (w + border)) sdiv 2))
                   (sat32 (rect_y area + sat32 (rect_h area - sat32 (h + border)) sdiv 2)) w h)"

record maximize_input =
  mi_current :: maximize_axes
  mi_restore :: "rect option"
  mi_restore_hint :: "rect option"
  mi_resting :: rect
  mi_area :: rect
  mi_border_w :: int

record maximize_plan =
  mp_axes :: maximize_axes
  mp_restore_rect :: "rect option"
  mp_resting_rect :: rect

record maximize_snapshot =
  ms_axes :: maximize_axes
  ms_restore_rect :: "rect option"
  ms_restore_tiled :: bool
  ms_floating_rect :: rect

definition plan_maximize :: "maximize_input \<Rightarrow> maximize_axes \<Rightarrow> maximize_plan" where
  "plan_maximize i next_axes =
     (if next_axes = mi_current i
      then \<lparr>mp_axes = mi_current i, mp_restore_rect = mi_restore i, mp_resting_rect = mi_resting i\<rparr>
      else let fallback = initial_restore_rect (mi_resting i) (mi_area i) (mi_border_w i);
               base = (if axes_any (mi_current i)
                       then (case mi_restore i of
                               Some restore \<Rightarrow> mirror_free_axes restore (mi_resting i) (mi_current i)
                             | None \<Rightarrow> fallback)
                       else (case mi_restore_hint i of Some hint \<Rightarrow> hint | None \<Rightarrow> fallback))
           in if axes_any next_axes
              then \<lparr>mp_axes = next_axes, mp_restore_rect = Some base,
                    mp_resting_rect = maximize_target base (mi_area i) next_axes (mi_border_w i)\<rparr>
              else \<lparr>mp_axes = AXES_NONE, mp_restore_rect = None, mp_resting_rect = base\<rparr>)"

section \<open>Configure masks\<close>

abbreviation CONFIG_X :: "16 word" where "CONFIG_X \<equiv> 1"
abbreviation CONFIG_Y :: "16 word" where "CONFIG_Y \<equiv> 2"
abbreviation CONFIG_WIDTH :: "16 word" where "CONFIG_WIDTH \<equiv> 4"
abbreviation CONFIG_HEIGHT :: "16 word" where "CONFIG_HEIGHT \<equiv> 8"

definition strip_maximized_configure_bits :: "16 word \<Rightarrow> maximize_axes \<Rightarrow> 16 word" where
  "strip_maximized_configure_bits mask_bits axes =
     (let owned1 = (if ax_horz axes then 0 OR CONFIG_X OR CONFIG_WIDTH else 0);
          owned2 = (if ax_vert axes then owned1 OR CONFIG_Y OR CONFIG_HEIGHT else owned1)
      in mask_bits AND NOT owned2)"

definition has_configure_geometry_bits :: "16 word \<Rightarrow> bool" where
  "has_configure_geometry_bits mask_bits \<longleftrightarrow> mask_bits AND (CONFIG_X OR CONFIG_Y OR CONFIG_WIDTH OR CONFIG_HEIGHT) \<noteq> 0"

section \<open>Sequences of transitions\<close>

text \<open>The part of a client that maximize owns: axes, restore rectangle and resting rectangle.\<close>

record maximize_state =
  mx_axes :: maximize_axes
  mx_restore :: "rect option"
  mx_resting :: rect

definition apply_plan :: "rect \<Rightarrow> int \<Rightarrow> maximize_axes \<Rightarrow> maximize_state \<Rightarrow> maximize_state" where
  "apply_plan area bw next_axes s =
     (let p = plan_maximize \<lparr>mi_current = mx_axes s, mi_restore = mx_restore s, mi_restore_hint = None,
            mi_resting = mx_resting s, mi_area = area, mi_border_w = bw\<rparr> next_axes
      in \<lparr>mx_axes = mp_axes p, mx_restore = mp_restore_rect p, mx_resting = mp_resting_rect p\<rparr>)"

text \<open>The states a window resting at \<open>r\<close> can be in while only maximize moves it.\<close>

inductive maximize_reach :: "rect \<Rightarrow> int \<Rightarrow> rect \<Rightarrow> maximize_state \<Rightarrow> bool" for area bw r where
  start: "maximize_reach area bw r \<lparr>mx_axes = AXES_NONE, mx_restore = None, mx_resting = r\<rparr>"
| step: "maximize_reach area bw r s \<Longrightarrow>
    maximize_reach area bw r (apply_plan area bw (requested_axes (mx_axes s) action named) s)"

inductive_simps maximize_reach_simps: "maximize_reach area bw r s"

lemma axes_none_iff: "\<not> axes_any a \<longleftrightarrow> a = AXES_NONE"
  by (cases a) (auto simp: axes_any_def AXES_NONE_def axes_new_def)

lemma axes_any_NONE [simp]: "\<not> axes_any AXES_NONE"
  by (simp add: axes_none_iff)

lemma mirror_target: "mirror_free_axes r (maximize_target r area a bw) a = r"
  by (cases r) (auto simp: mirror_free_axes_def maximize_target_def Let_def)

text \<open>Whatever was requested in between, the restore rectangle is the original one.\<close>

lemma maximize_reach_inv:
  assumes "maximize_reach area bw r s" "initial_restore_rect r area bw = r"
  shows "if axes_any (mx_axes s)
    then mx_restore s = Some r \<and> mx_resting s = maximize_target r area (mx_axes s) bw
    else mx_restore s = None \<and> mx_resting s = r"
  using assms(1)
proof induction
  case start
  then show ?case by (simp add: axes_any_def AXES_NONE_def axes_new_def)
next
  case (step s action named)
  then show ?case
    using assms(2)
    by (auto simp: apply_plan_def plan_maximize_def Let_def mirror_target axes_none_iff split: if_splits)
qed



section \<open>Admission and geometry\<close>



lemma two_thirds_exact: "0 \<le> e \<Longrightarrow> e \<le> i32_max \<Longrightarrow> two_thirds e = e * 2 div 3"
proof -
  assume e: "0 \<le> e" "e \<le> i32_max"
  have "0 \<le> e * 2 div 3 \<and> e * 2 div 3 \<le> e" using e(1) by presburger
  with e show ?thesis by (simp add: two_thirds_def Let_def sdiv_nonneg in_i32_def)
qed

lemma centered_two_thirds:
  assumes "0 \<le> bw" "6 * bw + 3 \<le> W * 2" "W \<le> 1073741824" "\<bar>X\<bar> \<le> 1073741823" "0 < W"
    and w: "w = max (sat32 (two_thirds W - sat32 (bw * 2))) 1"
  shows "1 \<le> w" "w + 2 * bw \<le> W"
    "X \<le> sat32 (X + sat32 (W - sat32 (w + sat32 (bw * 2))) sdiv 2)"
    "sat32 (X + sat32 (W - sat32 (w + sat32 (bw * 2))) sdiv 2) + w + 2 * bw \<le> X + W"
proof -
  have t: "two_thirds W = W * 2 div 3" using assms by (intro two_thirds_exact) auto
  have b: "sat32 (bw * 2) = 2 * bw" using assms by (simp add: sat32_id)
  have q: "1 \<le> W * 2 div 3 - 2 * bw" using assms(2) by presburger
  moreover have "W * 2 div 3 \<le> W" using assms(5) by presburger
  ultimately have w': "w = W * 2 div 3 - 2 * bw" using assms by (simp add: w t b sat32_def)
  show g: "1 \<le> w" "w + 2 * bw \<le> W" using q w' \<open>W * 2 div 3 \<le> W\<close> by auto
  let ?s = "W - (w + 2 * bw)"
  have e: "sat32 (W - sat32 (w + sat32 (bw * 2))) = ?s" using g assms b by (simp add: sat32_def)
  have h: "0 \<le> ?s sdiv 2" "2 * (?s sdiv 2) \<le> ?s" using sdiv_half_bounds [of ?s] g by auto
  have "sat32 (X + ?s sdiv 2) = X + ?s sdiv 2" using h g assms by (intro sat32_id) linarith+
  with e h g show "X \<le> sat32 (X + sat32 (W - sat32 (w + sat32 (bw * 2))) sdiv 2)"
    "sat32 (X + sat32 (W - sat32 (w + sat32 (bw * 2))) sdiv 2) + w + 2 * bw \<le> X + W"
    by simp_all
qed

text \<open>
  A window that fills its area gets a usable restore slot: the rectangle is either the one the
  window rests at, or (border included) lies inside the area; and maximizing an axis makes the
  bordered window span exactly that axis of the area.
\<close>

theorem maximize_geometry_fits:
  assumes "0 \<le> bw" "6 * bw + 3 \<le> rect_w area * 2" "6 * bw + 3 \<le> rect_h area * 2"
    "rect_w area \<le> 1073741824" "rect_h area \<le> 1073741824"
    "\<bar>rect_x area\<bar> \<le> 1073741823" "\<bar>rect_y area\<bar> \<le> 1073741823"
  shows "(let r = initial_restore_rect rest area bw in r = rest \<or>
      (1 \<le> rect_w r \<and> 1 \<le> rect_h r \<and>
       inside area (rect_new (rect_x r) (rect_y r) (rect_w r + 2 * bw) (rect_h r + 2 * bw)))) \<and>
    (ax_horz a \<longrightarrow> rect_x (maximize_target r area a bw) = rect_x area \<and>
       rect_w (maximize_target r area a bw) + 2 * bw = rect_w area) \<and>
    (ax_vert a \<longrightarrow> rect_y (maximize_target r area a bw) = rect_y area \<and>
       rect_h (maximize_target r area a bw) + 2 * bw = rect_h area)"
proof -
  have p: "0 < rect_w area" "0 < rect_h area" using assms by linarith+
  note cw = centered_two_thirds [OF assms(1,2,4,6) p(1) refl] and ch = centered_two_thirds [OF assms(1,3,5,7) p(2) refl]
  have "let r = initial_restore_rect rest area bw in r = rest \<or>
      (1 \<le> rect_w r \<and> 1 \<le> rect_h r \<and>
       inside area (rect_new (rect_x r) (rect_y r) (rect_w r + 2 * bw) (rect_h r + 2 * bw)))"
    using cw ch by (auto simp: initial_restore_rect_def Let_def inside_def)
  moreover have "2 * bw < rect_w area" "2 * bw < rect_h area" using assms by linarith+
  then have "inner_extent (rect_w area) bw = rect_w area - 2 * bw" "inner_extent (rect_h area) bw = rect_h area - 2 * bw"
    using assms p by (auto simp: inner_extent_def sat32_def)
  ultimately show ?thesis by (auto simp: maximize_target_def Let_def)
qed

theorem maximize_geometry_fits_witness:
  "inside (rect_new 0 0 1920 1080) (rect_new 320 180 1280 720) \<and>
   initial_restore_rect (rect_new 0 0 1916 1076) (rect_new 0 0 1920 1080) 2 = rect_new 320 180 1276 716"
proof -
  have e: "initial_restore_rect (rect_new 0 0 1916 1076) (rect_new 0 0 1920 1080) 2 = rect_new 320 180 1276 716"
    by code_simp
  show ?thesis
    using maximize_geometry_fits [of 2 "rect_new 0 0 1920 1080" "rect_new 0 0 1916 1076" AXES_BOTH "rect_new 0 0 1 1"]
    by (simp add: e Let_def) (simp add: rect_new_def)
qed

text \<open>
  The configure mask loses exactly the bits the maximized axes own: other bits are kept, and
  under a full maximize no geometry bit is left.
\<close>

theorem strip_configure_bits_owned:
  "(bit (strip_maximized_configure_bits m a) n \<longleftrightarrow>
      bit m n \<and> \<not> (ax_horz a \<and> (n = 0 \<or> n = 2)) \<and> \<not> (ax_vert a \<and> (n = 1 \<or> n = 3))) \<and>
   \<not> has_configure_geometry_bits (strip_maximized_configure_bits m AXES_BOTH)"
proof -
  have c: "bit (1::16 word) n \<longleftrightarrow> n = 0" "bit (2::16 word) n \<longleftrightarrow> n = 1" "bit (4::16 word) n \<longleftrightarrow> n = 2" "bit (8::16 word) n \<longleftrightarrow> n = 3"
    for n
    using bit_exp_iff [of 1 n, where 'a = "16 word"] bit_exp_iff [of 2 n, where 'a = "16 word"]
      bit_exp_iff [of 3 n, where 'a = "16 word"] by (auto simp: bit_1_iff)
  have d: "bit (5::16 word) n \<longleftrightarrow> n = 0 \<or> n = 2" "bit (10::16 word) n \<longleftrightarrow> n = 1 \<or> n = 3"
    "bit (15::16 word) n \<longleftrightarrow> n < 4" for n
  proof -
    have "5 = (1 OR 4 :: 16 word)" "10 = (2 OR 8 :: 16 word)" "15 = (1 OR 2 OR 4 OR 8 :: 16 word)" by simp_all
    then show "bit (5::16 word) n \<longleftrightarrow> n = 0 \<or> n = 2" "bit (10::16 word) n \<longleftrightarrow> n = 1 \<or> n = 3"
      "bit (15::16 word) n \<longleftrightarrow> n < 4"
      by (simp_all only: bit_or_iff c) auto
  qed
  have b: "bit (strip_maximized_configure_bits m a) n \<longleftrightarrow>
      bit m n \<and> \<not> (ax_horz a \<and> (n = 0 \<or> n = 2)) \<and> \<not> (ax_vert a \<and> (n = 1 \<or> n = 3))" for a n
    using bit_imp_le_length [of m n]
    by (auto simp: strip_maximized_configure_bits_def Let_def bit_and_iff bit_not_iff d
        simp del: bit_numeral_word_iff)
  moreover have "strip_maximized_configure_bits m AXES_BOTH AND 15 = 0"
    by (rule bit_word_eqI) (auto simp: bit_and_iff b d AXES_BOTH_def axes_new_def simp del: bit_numeral_word_iff)
  ultimately show ?thesis by (simp add: has_configure_geometry_bits_def)
qed

end
