(* ===== verification/Floats.thy ===== *)
theory Floats
  imports Complex_Main Prelude
begin

text \<open>
  The \<open>f32\<close> and \<open>f64\<close> arithmetic of the Rust sources, as an executable model over the
  rationals. A float is a NaN, an infinity or an exact rational; every operation computes the
  exact result and rounds it to the nearest representable value, ties to even. Comparisons
  with a NaN are false, \<open>max\<close> and \<open>min\<close> ignore a NaN operand, \<open>clamp\<close> propagates it, and the
  \<open>as i32\<close> cast truncates, saturates and sends a NaN to 0. The sign of a zero is not
  represented: the modelled code never divides by a zero and never inspects a sign bit.
\<close>

datatype flt = NaN | Infty bool | Fin rat

section \<open>Rounding\<close>

text \<open>Round half to even, to an integer.\<close>

definition rhe :: "rat \<Rightarrow> int" where
  "rhe x = (let f = \<lfloor>x\<rfloor>; d = x - of_int f in
     if d < 1 / 2 then f else if d > 1 / 2 then f + 1 else if even f then f else f + 1)"

text \<open>Bit length of a positive integer.\<close>

function blen :: "int \<Rightarrow> int" where
  "blen n = (if n \<le> 0 then 0 else 1 + blen (n div 2))"
  by pat_completeness auto
termination
  by (relation "measure nat") auto

declare blen.simps [simp del]

text \<open>\<open>\<lfloor>log\<^sub>2 r\<rfloor>\<close> of a positive rational, from the bit lengths of its numerator and denominator.\<close>

definition flog2 :: "rat \<Rightarrow> int" where
  "flog2 r = (let (n, d) = quotient_of r; f = blen n - blen d
              in if 2 powi f \<le> r then f else f - 1)"

text \<open>The exponent of the unit in the last place, for precision \<open>p\<close> and least exponent \<open>q\<close>.\<close>

definition ulp_exp :: "nat \<Rightarrow> int \<Rightarrow> rat \<Rightarrow> int" where
  "ulp_exp p q r = max (flog2 \<bar>r\<bar> - int p + 1) q"

definition round_abs :: "nat \<Rightarrow> int \<Rightarrow> rat \<Rightarrow> rat" where
  "round_abs p q r = of_int (rhe (r / 2 powi ulp_exp p q r)) * 2 powi ulp_exp p q r"

definition round_rat :: "nat \<Rightarrow> int \<Rightarrow> rat \<Rightarrow> rat" where
  "round_rat p q r = (if r = 0 then 0 else if 0 < r then round_abs p q r else - round_abs p q (- r))"

definition round_fmt :: "nat \<Rightarrow> int \<Rightarrow> int \<Rightarrow> rat \<Rightarrow> flt" where
  "round_fmt p q emax r = (let v = round_rat p q r in
     if 2 powi (emax + 1) \<le> \<bar>v\<bar> then Infty (0 < v) else Fin v)"

definition rnd32 :: "rat \<Rightarrow> flt" where "rnd32 = round_fmt 24 (- 149) 127"
definition rnd64 :: "rat \<Rightarrow> flt" where "rnd64 = round_fmt 53 (- 1074) 1023"

section \<open>Operations\<close>

fun fneg :: "flt \<Rightarrow> flt" where
  "fneg NaN = NaN" | "fneg (Infty s) = Infty (\<not> s)" | "fneg (Fin x) = Fin (- x)"

fun fadd :: "(rat \<Rightarrow> flt) \<Rightarrow> flt \<Rightarrow> flt \<Rightarrow> flt" where
  "fadd rd NaN _ = NaN"
| "fadd rd _ NaN = NaN"
| "fadd rd (Infty s) (Infty t) = (if s = t then Infty s else NaN)"
| "fadd rd (Infty s) (Fin _) = Infty s"
| "fadd rd (Fin _) (Infty t) = Infty t"
| "fadd rd (Fin x) (Fin y) = rd (x + y)"

definition fsub :: "(rat \<Rightarrow> flt) \<Rightarrow> flt \<Rightarrow> flt \<Rightarrow> flt" where
  "fsub rd a b = fadd rd a (fneg b)"

fun fmul :: "(rat \<Rightarrow> flt) \<Rightarrow> flt \<Rightarrow> flt \<Rightarrow> flt" where
  "fmul rd NaN _ = NaN"
| "fmul rd _ NaN = NaN"
| "fmul rd (Infty s) (Infty t) = Infty (s = t)"
| "fmul rd (Infty s) (Fin y) = (if y = 0 then NaN else Infty (s = (0 < y)))"
| "fmul rd (Fin x) (Infty t) = (if x = 0 then NaN else Infty (t = (0 < x)))"
| "fmul rd (Fin x) (Fin y) = rd (x * y)"

fun fdiv :: "(rat \<Rightarrow> flt) \<Rightarrow> flt \<Rightarrow> flt \<Rightarrow> flt" where
  "fdiv rd NaN _ = NaN"
| "fdiv rd _ NaN = NaN"
| "fdiv rd (Infty s) (Infty t) = NaN"
| "fdiv rd (Infty s) (Fin y) = Infty (s = (0 \<le> y))"
| "fdiv rd (Fin x) (Infty t) = Fin 0"
| "fdiv rd (Fin x) (Fin y) = (if y = 0 then (if x = 0 then NaN else Infty (0 < x)) else rd (x / y))"

fun flt_less :: "flt \<Rightarrow> flt \<Rightarrow> bool" where
  "flt_less NaN _ = False"
| "flt_less _ NaN = False"
| "flt_less (Infty s) (Infty t) = (\<not> s \<and> t)"
| "flt_less (Infty s) (Fin _) = (\<not> s)"
| "flt_less (Fin _) (Infty t) = t"
| "flt_less (Fin x) (Fin y) = (x < y)"

fun flt_leq :: "flt \<Rightarrow> flt \<Rightarrow> bool" where
  "flt_leq NaN _ = False"
| "flt_leq _ NaN = False"
| "flt_leq (Infty s) (Infty t) = (s \<longrightarrow> t)"
| "flt_leq (Infty s) (Fin _) = (\<not> s)"
| "flt_leq (Fin _) (Infty t) = t"
| "flt_leq (Fin x) (Fin y) = (x \<le> y)"

definition flt_eq :: "flt \<Rightarrow> flt \<Rightarrow> bool" where
  "flt_eq a b \<longleftrightarrow> a \<noteq> NaN \<and> a = b"

definition fmax :: "flt \<Rightarrow> flt \<Rightarrow> flt" where
  "fmax a b = (if a = NaN then b else if b = NaN then a else if flt_less a b then b else a)"

definition fmin :: "flt \<Rightarrow> flt \<Rightarrow> flt" where
  "fmin a b = (if a = NaN then b else if b = NaN then a else if flt_less b a then b else a)"

definition fclamp :: "flt \<Rightarrow> flt \<Rightarrow> flt \<Rightarrow> flt" where
  "fclamp v lo hi = (let v' = if flt_less v lo then lo else v in
     if flt_less hi v' then hi else v')"

fun fabs :: "flt \<Rightarrow> flt" where
  "fabs NaN = NaN" | "fabs (Infty _) = Infty True" | "fabs (Fin x) = Fin \<bar>x\<bar>"

fun is_finite :: "flt \<Rightarrow> bool" where
  "is_finite (Fin _) = True" | "is_finite _ = False"

text \<open>Truncation toward zero, and the saturating cast \<open>as i32\<close>.\<close>

definition trunc_rat :: "rat \<Rightarrow> int" where
  "trunc_rat x = (if 0 \<le> x then \<lfloor>x\<rfloor> else - \<lfloor>- x\<rfloor>)"

fun to_i32 :: "flt \<Rightarrow> int" where
  "to_i32 NaN = 0"
| "to_i32 (Infty s) = (if s then i32_max else i32_min)"
| "to_i32 (Fin x) = sat32 (trunc_rat x)"

definition f32_of :: "int \<Rightarrow> flt" where "f32_of k = rnd32 (of_int k)"
definition f64_of :: "int \<Rightarrow> flt" where "f64_of k = rnd64 (of_int k)"

text \<open>The operations at the two widths; a literal of the source is its decimal value rounded.\<close>

abbreviation "add32 \<equiv> fadd rnd32"
abbreviation "sub32 \<equiv> fsub rnd32"
abbreviation "mul32 \<equiv> fmul rnd32"
abbreviation "div32 \<equiv> fdiv rnd32"
abbreviation "add64 \<equiv> fadd rnd64"
abbreviation "sub64 \<equiv> fsub rnd64"
abbreviation "mul64 \<equiv> fmul rnd64"
abbreviation "div64 \<equiv> fdiv rnd64"

text \<open>\<open>f32::sqrt\<close>: the correctly rounded square root, by integer square root at the target scale.\<close>

function isqrt :: "int \<Rightarrow> int" where
  "isqrt n = (if n \<le> 0 then 0 else
     let s = 2 * isqrt (n div 4) in if (s + 1) * (s + 1) \<le> n then s + 1 else s)"
  by pat_completeness auto
termination
  by (relation "measure nat") auto

declare isqrt.simps [simp del]

definition sqrt_rat :: "nat \<Rightarrow> int \<Rightarrow> rat \<Rightarrow> rat" where
  "sqrt_rat p q r = (if r \<le> 0 then 0 else
     let e = max (flog2 r div 2 - int p + 1) q;
         x = r / (2 powi e * 2 powi e);
         s = isqrt \<lfloor>x\<rfloor>;
         h = of_int s + 1 / 2
     in of_int (if x < h * h then s else if h * h < x then s + 1 else if even s then s else s + 1)
        * 2 powi e)"

fun sqrt32 :: "flt \<Rightarrow> flt" where
  "sqrt32 NaN = NaN"
| "sqrt32 (Infty s) = (if s then Infty True else NaN)"
| "sqrt32 (Fin x) = (if x < 0 then NaN else Fin (sqrt_rat 24 (- 149) x))"

text \<open>A scaling factor that cannot enlarge: a NaN (which scales to 0) or a value of the unit interval.\<close>

definition unit_factor :: "flt \<Rightarrow> bool" where
  "unit_factor m \<longleftrightarrow> (case m of NaN \<Rightarrow> True | Fin c \<Rightarrow> 0 \<le> c \<and> c \<le> 1 | Infty _ \<Rightarrow> False)"

section \<open>Correctness of rounding\<close>

text \<open>
  Rounding is monotone and exact on the integers a mantissa can hold; both give that scaling an
  extent by a unit factor and truncating stays inside the extent.
\<close>

lemma blen_bounds: "0 < n \<Longrightarrow> 0 < blen n \<and> 2 ^ nat (blen n - 1) \<le> n \<and> n < 2 ^ nat (blen n)"
proof (induction n rule: blen.induct)
  case (1 n)
  show ?case
  proof (cases "n = 1")
    case True
    then show ?thesis by (simp add: blen.simps)
  next
    case False
    with "1.prems" have pos: "0 < n div 2" by presburger
    with "1.IH" "1.prems" have IH: "0 < blen (n div 2)" "2 ^ nat (blen (n div 2) - 1) \<le> n div 2"
      "n div 2 < 2 ^ nat (blen (n div 2))" by auto
    have eq: "blen n = 1 + blen (n div 2)" using "1.prems" by (subst blen.simps) simp
    have p: "(2::int) ^ nat (blen (n div 2)) = 2 * 2 ^ nat (blen (n div 2) - 1)"
      using IH(1) by (simp flip: power_Suc add: Suc_nat_eq_nat_zadd1)
    have q: "(2::int) ^ nat (blen n) = 2 * 2 ^ nat (blen (n div 2))"
      using IH(1) by (simp add: eq nat_add_distrib)
    show ?thesis using IH p q eq by (simp add: nat_add_distrib) presburger
  qed
qed

lemma powi2_nonneg: "0 \<le> k \<Longrightarrow> (2::rat) powi k = of_int (2 ^ nat k)"
  by (simp add: power_int_def)

lemma powi2_pos [simp]: "0 < (2::rat) powi k"
  by (simp add: zero_less_power_int)

lemma powi2_le_iff [simp]: "(2::rat) powi a \<le> 2 powi b \<longleftrightarrow> a \<le> b"
  by (meson linorder_not_less numeral_le_one_iff one_less_numeral_iff power_int_increasing power_int_strict_increasing semiring_norm(76) order.strict_iff_not)

lemma powi2_less_iff [simp]: "(2::rat) powi a < 2 powi b \<longleftrightarrow> a < b"
  by (meson linorder_not_less powi2_le_iff)

lemma powi2_add: "(2::rat) powi (a + b) = 2 powi a * 2 powi b"
  by (simp add: power_int_add)

lemma powi2_diff: "(2::rat) powi (a - b) = 2 powi a / 2 powi b"
  by (simp add: power_int_diff)

lemma blen_powi:
  assumes "0 < n" shows "2 powi (blen n - 1) \<le> (of_int n :: rat)" "(of_int n :: rat) < 2 powi blen n"
proof -
  from blen_bounds [OF assms] have b: "0 < blen n" "2 ^ nat (blen n - 1) \<le> n" "n < 2 ^ nat (blen n)" by auto
  from b show "2 powi (blen n - 1) \<le> (of_int n :: rat)"
    by (simp only: powi2_nonneg of_int_le_iff)
  from b show "(of_int n :: rat) < 2 powi blen n"
    by (simp only: powi2_nonneg of_int_less_iff)
qed

lemma flog2_bounds:
  assumes "0 < r" shows "2 powi flog2 r \<le> r" and "r < 2 powi (flog2 r + 1)"
proof -
  obtain n d where q: "quotient_of r = (n, d)" by force
  have d: "0 < d" using quotient_of_denom_pos [OF q] .
  have r: "r = of_int n / of_int d" using quotient_of_div [OF q] .
  with assms d have n: "0 < n" by (simp add: zero_less_divide_iff)
  define f where "f = blen n - blen d"
  have up: "r < 2 powi (f + 1)"
  proof -
    have "r < 2 powi blen n / of_int d" using blen_powi(2) [OF n] d by (simp add: r divide_strict_right_mono)
    also have "\<dots> \<le> 2 powi blen n / 2 powi (blen d - 1)"
      using blen_powi(1) [OF d] by (intro divide_left_mono) (auto simp: d)
    also have "\<dots> = 2 powi (f + 1)" by (simp add: f_def algebra_simps flip: powi2_diff)
    finally show ?thesis .
  qed
  have lo: "2 powi (f - 1) \<le> r"
  proof -
    have "2 powi (f - 1) = (2::rat) powi (blen n - 1) / 2 powi blen d" by (simp add: f_def algebra_simps flip: powi2_diff)
    also have "\<dots> \<le> of_int n / 2 powi blen d" using blen_powi(1) [OF n] by (simp add: divide_right_mono)
    also have "\<dots> \<le> of_int n / of_int d"
      using blen_powi(2) [OF d] n d by (intro divide_left_mono) (auto simp: less_imp_le)
    finally show ?thesis by (simp add: r)
  qed
  have eq: "flog2 r = (if 2 powi f \<le> r then f else f - 1)" by (simp add: flog2_def q f_def)
  show "2 powi flog2 r \<le> r" using lo by (simp add: eq)
  show "r < 2 powi (flog2 r + 1)" using up by (simp add: eq)
qed

lemma flog2_mono: "0 < r \<Longrightarrow> r \<le> s \<Longrightarrow> flog2 r \<le> flog2 s"
proof -
  assume a: "0 < r" "r \<le> s"
  then have "2 powi flog2 r < (2::rat) powi (flog2 s + 1)"
    using flog2_bounds(1) [of r] flog2_bounds(2) [of s] by linarith
  then show ?thesis by simp
qed

lemma rhe_of_int [simp]: "rhe (of_int k) = k"
  by (simp add: rhe_def)

lemma rhe_floor: "\<lfloor>x\<rfloor> \<le> rhe x" "rhe x \<le> \<lfloor>x\<rfloor> + 1"
  by (simp_all add: rhe_def Let_def)

lemma rhe_mono: "x \<le> y \<Longrightarrow> rhe x \<le> rhe y"
proof -
  assume xy: "x \<le> y"
  show ?thesis
  proof (cases "\<lfloor>x\<rfloor> = \<lfloor>y\<rfloor>")
    case True
    with xy show ?thesis by (auto simp: rhe_def Let_def)
  next
    case False
    with xy have "\<lfloor>x\<rfloor> + 1 \<le> \<lfloor>y\<rfloor>" using floor_mono [OF xy] by linarith
    then show ?thesis using rhe_floor [of x] rhe_floor [of y] by linarith
  qed
qed

lemma round_abs_le_powi:
  assumes "r \<le> 2 powi k" and "ulp_exp p q r \<le> k"
  shows "round_abs p q r \<le> 2 powi k"
proof -
  let ?e = "ulp_exp p q r"
  have "r / 2 powi ?e \<le> of_int (2 ^ nat (k - ?e))"
    using assms powi2_nonneg [of "k - ?e"] by (metis diff_ge_0_iff_ge divide_right_mono less_imp_le powi2_diff powi2_pos)
  then have "rhe (r / 2 powi ?e) \<le> 2 ^ nat (k - ?e)" by (metis rhe_mono rhe_of_int)
  then have "of_int (rhe (r / 2 powi ?e)) \<le> (2::rat) powi (k - ?e)"
    using assms(2) by (simp only: powi2_nonneg of_int_le_iff)
  then show ?thesis by (simp add: round_abs_def powi2_diff field_simps)
qed

lemma round_abs_ge_powi:
  assumes "2 powi k \<le> r" and "ulp_exp p q r \<le> k"
  shows "2 powi k \<le> round_abs p q r"
proof -
  let ?e = "ulp_exp p q r"
  have "of_int (2 ^ nat (k - ?e)) \<le> r / 2 powi ?e"
    using assms powi2_nonneg [of "k - ?e"] by (metis diff_ge_0_iff_ge divide_right_mono less_imp_le powi2_diff powi2_pos)
  then have "2 ^ nat (k - ?e) \<le> rhe (r / 2 powi ?e)" by (metis rhe_mono rhe_of_int)
  then have "(2::rat) powi (k - ?e) \<le> of_int (rhe (r / 2 powi ?e))"
    using assms(2) by (simp only: powi2_nonneg of_int_le_iff)
  then show ?thesis by (simp add: round_abs_def powi2_diff field_simps)
qed

lemma round_abs_mono:
  assumes "0 < r" "r \<le> s" "1 \<le> p"
  shows "round_abs p q r \<le> round_abs p q s"
proof (cases "ulp_exp p q r = ulp_exp p q s")
  case True
  then show ?thesis using assms
    by (simp add: round_abs_def divide_right_mono rhe_mono mult_right_mono)
next
  case False
  have fl: "flog2 r \<le> flog2 s" using assms flog2_mono by blast
  with False assms have e: "ulp_exp p q r < flog2 s" "ulp_exp p q s \<le> flog2 s" "flog2 r < flog2 s"
    by (auto simp: ulp_exp_def max_def split: if_splits)
  have "r \<le> 2 powi flog2 s"
    using flog2_bounds(2) [OF assms(1)] e(3) powi2_le_iff [of "flog2 r + 1" "flog2 s"] by linarith
  then have "round_abs p q r \<le> 2 powi flog2 s" using e by (intro round_abs_le_powi) auto
  also have "\<dots> \<le> round_abs p q s" using e assms by (intro round_abs_ge_powi flog2_bounds) auto
  finally show ?thesis .
qed

lemma round_abs_nonneg: "0 < r \<Longrightarrow> 0 \<le> round_abs p q r"
proof -
  assume "0 < r"
  then have "0 \<le> rhe (r / 2 powi ulp_exp p q r)"
    using rhe_mono [of 0 "r / 2 powi ulp_exp p q r"] rhe_of_int [of 0] by simp
  then show ?thesis by (simp add: round_abs_def)
qed

lemma round_abs_exact:
  assumes "0 < k" "k < 2 ^ p" "q \<le> 0"
  shows "round_abs p q (of_int k) = of_int k"
proof -
  have "(2::rat) powi flog2 (of_int k) \<le> of_int k" using assms flog2_bounds by simp
  also have "(of_int k :: rat) < 2 powi int p" using assms
    by (simp add: powi2_nonneg)
  finally have "flog2 (of_int k) < int p" by (simp only: powi2_less_iff)
  then have e: "ulp_exp p q (of_int k) \<le> 0" using assms by (simp add: ulp_exp_def)
  have "(of_int k :: rat) / 2 powi ulp_exp p q (of_int k)
      = of_int (k * 2 ^ nat (- ulp_exp p q (of_int k)))"
    using e powi2_nonneg [of "- ulp_exp p q (of_int k)"] by (simp add: power_int_minus divide_inverse)
  then show ?thesis unfolding round_abs_def by (metis divide_eq_eq less_irrefl powi2_pos rhe_of_int)
qed

lemma round_rat_mono: "r \<le> s \<Longrightarrow> 1 \<le> p \<Longrightarrow> round_rat p q r \<le> round_rat p q s"
proof -
  assume a: "r \<le> s" "1 \<le> p"
  consider "0 < r" | "r \<le> 0" "0 \<le> s" | "s < 0" by linarith
  then show ?thesis
  proof cases
    case 1
    with a show ?thesis by (simp add: round_rat_def round_abs_mono)
  next
    case 2
    have "round_rat p q r \<le> 0" using 2 round_abs_nonneg [of "- r"] by (simp add: round_rat_def)
    moreover have "0 \<le> round_rat p q s" using 2 round_abs_nonneg [of s] by (simp add: round_rat_def)
    ultimately show ?thesis by simp
  next
    case 3
    with a round_abs_mono [of "- s" "- r" p q] show ?thesis by (simp add: round_rat_def)
  qed
qed

lemma round_rat_of_int: "\<bar>k\<bar> < 2 ^ p \<Longrightarrow> q \<le> 0 \<Longrightarrow> round_rat p q (of_int k) = of_int k"
proof -
  assume a: "\<bar>k\<bar> < 2 ^ p" "q \<le> 0"
  have "round_abs p q (- of_int k) = - of_int k" if "k < 0"
    using round_abs_exact [of "- k" p q] a that by simp
  with a round_abs_exact [of k p q] show ?thesis by (auto simp: round_rat_def)
qed

lemma two31: "(2147483648::rat) = 2 powi 31" and two24: "(16777216::rat) = 2 powi 24"
  by simp_all

lemma f32_of_exact: "\<bar>k\<bar> < 16777216 \<Longrightarrow> f32_of k = Fin (of_int k)"
proof -
  assume k: "\<bar>k\<bar> < 16777216"
  have "\<bar>of_int k :: rat\<bar> < 16777216" using k by linarith
  also have "(16777216::rat) < 2 powi (127 + 1)" by (simp only: two24 powi2_less_iff)
  finally show ?thesis using k
    by (simp add: f32_of_def rnd32_def round_fmt_def round_rat_of_int Let_def)
qed

lemma f64_of_exact: "in_i32 k \<Longrightarrow> f64_of k = Fin (of_int k)"
proof -
  assume k: "in_i32 k"
  have "\<bar>of_int k :: rat\<bar> \<le> 2147483648" using k by (simp add: in_i32_def) linarith
  also have "(2147483648::rat) < 2 powi (1023 + 1)" by (simp only: two31 powi2_less_iff)
  finally have "\<bar>of_int k :: rat\<bar> < 2 powi (1023 + 1)" .
  moreover have "round_rat 53 (- 1074) (of_int k) = of_int k"
    using k by (intro round_rat_of_int) (auto simp: in_i32_def)
  ultimately show ?thesis by (simp add: f64_of_def rnd64_def round_fmt_def Let_def)
qed

lemma rnd32_between:
  assumes "0 \<le> r" "r \<le> of_int k" "0 \<le> k" "k < 16777216"
  shows "\<exists>v. rnd32 r = Fin v \<and> 0 \<le> v \<and> v \<le> of_int k"
proof -
  have lo: "0 \<le> round_rat 24 (- 149) r"
    using round_rat_mono [OF assms(1), of 24 "- 149"] by (simp add: round_rat_def)
  have hi: "round_rat 24 (- 149) r \<le> of_int k"
    using round_rat_mono [OF assms(2), of 24 "- 149"] assms(3,4) by (simp add: round_rat_of_int)
  have "of_int k < (16777216::rat)" using assms(4) by linarith
  also have "(16777216::rat) < 2 powi (127 + 1)" by (simp only: two24 powi2_less_iff)
  finally show ?thesis using lo hi by (simp add: rnd32_def round_fmt_def Let_def)
qed

lemma scale_to_i32:
  assumes "0 \<le> k" "k < 16777216" "unit_factor m"
  shows "0 \<le> to_i32 (mul32 (f32_of k) m)" and "to_i32 (mul32 (f32_of k) m) \<le> k"
proof -
  have "0 \<le> to_i32 (mul32 (f32_of k) m) \<and> to_i32 (mul32 (f32_of k) m) \<le> k"
  proof (cases m)
    case (Fin c)
    with assms have c: "0 \<le> c" "c \<le> 1" by (auto simp: unit_factor_def)
    have "of_int k * c \<le> of_int k" using assms(1) c by (simp add: mult_left_le)
    with c assms obtain v where v: "rnd32 (of_int k * c) = Fin v" "0 \<le> v" "v \<le> of_int k"
      using rnd32_between [of "of_int k * c" k] by auto
    then have "0 \<le> \<lfloor>v\<rfloor>" "\<lfloor>v\<rfloor> \<le> k" by (simp_all add: floor_le_iff)
    with v assms Fin show ?thesis by (simp add: f32_of_exact trunc_rat_def sat32_def)
  qed (use assms in \<open>auto simp: unit_factor_def f32_of_exact\<close>)
  then show "0 \<le> to_i32 (mul32 (f32_of k) m)" and "to_i32 (mul32 (f32_of k) m) \<le> k" by auto
qed

text \<open>Scaling is as accurate as integer bounds on the exact product: rounding cannot cross them.\<close>

lemma scale_to_i32_bounds:
  assumes "0 \<le> lo" "of_int lo \<le> of_int k * c" "of_int k * c \<le> (of_int hi :: rat)" "hi < 16777216" "\<bar>k\<bar> < 16777216"
  shows "lo \<le> to_i32 (mul32 (f32_of k) (Fin c))" and "to_i32 (mul32 (f32_of k) (Fin c)) \<le> hi"
proof -
  let ?v = "round_rat 24 (- 149) (of_int k * c)"
  have lh: "lo \<le> hi" using assms(2,3) by linarith
  have b: "of_int lo \<le> ?v" "?v \<le> of_int hi"
    using round_rat_mono [OF assms(2), of 24 "- 149"] round_rat_mono [OF assms(3), of 24 "- 149"] assms(1,4) lh
    by (simp_all add: round_rat_of_int)
  have "of_int hi < (16777216::rat)" using assms(4) by linarith
  also have "(16777216::rat) < 2 powi (127 + 1)" by (simp only: two24 powi2_less_iff)
  finally have "rnd32 (of_int k * c) = Fin ?v"
    using b assms(1) by (simp add: rnd32_def round_fmt_def Let_def)
  moreover have "lo \<le> \<lfloor>?v\<rfloor>" "\<lfloor>?v\<rfloor> \<le> hi" "0 \<le> ?v" using b assms(1) by (simp_all add: le_floor_iff floor_le_iff)
  ultimately show "lo \<le> to_i32 (mul32 (f32_of k) (Fin c))" and "to_i32 (mul32 (f32_of k) (Fin c)) \<le> hi"
    using assms by (simp_all add: f32_of_exact trunc_rat_def sat32_def)
qed

lemma fclamp_Fin:
  "a \<le> b \<Longrightarrow> m \<noteq> NaN \<Longrightarrow> \<exists>c. fclamp m (Fin a) (Fin b) = Fin c \<and> a \<le> c \<and> c \<le> b"
  by (cases m) (auto simp: fclamp_def Let_def)

lemma unit_factor_fclamp:
  assumes "0 \<le> a" "a \<le> b" "b \<le> 1"
  shows "unit_factor (fclamp m (Fin a) (Fin b))"
  using assms by (cases m) (auto simp: unit_factor_def fclamp_def Let_def)

lemma to_i32_range: "in_i32 (to_i32 v)"
  by (cases v) (auto simp: sat32_range, auto simp: in_i32_def)

section \<open>Evaluation\<close>

text \<open>Powers of two by squaring, and the overflow test by exponents: the equations the evaluator uses.\<close>

definition pow2 :: "nat \<Rightarrow> int" where "pow2 n = 2 ^ n"

lemma pow2_code [code]: "pow2 n = (if n = 0 then 1 else if even n then (let h = pow2 (n div 2) in h * h) else 2 * pow2 (n - 1))"
proof -
  have "2 ^ n = (2 ^ (n div 2) * 2 ^ (n div 2) :: int)" if "even n"
    using that by (simp flip: power_add mult_2)
  moreover have "2 ^ n = (2 * 2 ^ (n - 1) :: int)" if "0 < n" using that by (simp add: power_eq_if)
  ultimately show ?thesis by (auto simp: pow2_def Let_def)
qed

definition rpow2 :: "int \<Rightarrow> rat" where "rpow2 k = 2 powi k"

lemma rpow2_code [code]: "rpow2 k = (if 0 \<le> k then of_int (pow2 (nat k)) else 1 / of_int (pow2 (nat (- k))))"
  by (simp add: rpow2_def pow2_def power_int_def field_simps)

lemma round_abs_code [code]:
  "round_abs p q r = (let u = rpow2 (ulp_exp p q r) in of_int (rhe (r / u)) * u)"
  by (simp add: round_abs_def rpow2_def Let_def)

lemma flog2_code [code]:
  "flog2 r = (let (n, d) = quotient_of r; f = blen n - blen d in if rpow2 f \<le> r then f else f - 1)"
  by (simp add: flog2_def rpow2_def)

lemma round_fmt_code [code]:
  "round_fmt p q emax r = (let v = round_rat p q r in
     if v \<noteq> 0 \<and> emax + 1 \<le> flog2 \<bar>v\<bar> then Infty (0 < v) else Fin v)"
proof -
  have "2 powi (emax + 1) \<le> \<bar>v\<bar> \<longleftrightarrow> emax + 1 \<le> flog2 \<bar>v\<bar>" if "v \<noteq> 0" for v :: rat
  proof -
    have b: "2 powi flog2 \<bar>v\<bar> \<le> \<bar>v\<bar> \<and> \<bar>v\<bar> < 2 powi (flog2 \<bar>v\<bar> + 1)" using flog2_bounds [of "\<bar>v\<bar>"] that by simp
    show ?thesis
    proof
      assume "2 powi (emax + 1) \<le> \<bar>v\<bar>"
      with b have "(2::rat) powi (emax + 1) < 2 powi (flog2 \<bar>v\<bar> + 1)" by linarith
      then show "emax + 1 \<le> flog2 \<bar>v\<bar>" by (simp only: powi2_less_iff)
    next
      assume "emax + 1 \<le> flog2 \<bar>v\<bar>"
      then have "(2::rat) powi (emax + 1) \<le> 2 powi flog2 \<bar>v\<bar>" by (simp only: powi2_le_iff)
      with b show "2 powi (emax + 1) \<le> \<bar>v\<bar>" by linarith
    qed
  qed
  moreover have "\<not> (2::rat) powi (emax + 1) \<le> \<bar>0\<bar>" by (simp add: not_le)
  ultimately show ?thesis by (cases "round_rat p q r = 0") (simp_all add: round_fmt_def Let_def)
qed

end
