(* ===== verification/Master_Resize.thy ===== *)
theory Master_Resize
  imports Floats Rects
begin

text \<open>
  \<open>src/core/master_resize.rs\<close>: resizing one tiled client. An intent is a size as a fraction of the
  usable output; a plan maps the native rectangles of all clients through one coordinate map per
  axis (in \<open>f64\<close>), offers every client its box through the size-hint policy \<open>fit\<close>, and refuses the
  whole plan when a box is out of range or a pair of frames would start to overlap. The theorems
  are about what a returned plan guarantees: the order of clients, the sizes, the separation of
  frames, and the consistency of the bisection with the exact planner.
\<close>

section \<open>Data\<close>

record 'k resize_intent =
  ri_client :: 'k
  ri_width :: flt
  ri_height :: flt

record 'k resize_frame =
  rf_client :: 'k
  rf_rect :: rect
  rf_border :: int

record 'k resize_context =
  rc_topology :: "'k list"
  rc_groups :: "'k list list"
  rc_intent :: "'k resize_intent option"
  rc_area :: rect
  rc_gap :: int
  rc_frames :: "'k resize_frame list"
  rc_drag_snapshot :: "'k resize_intent option option"
  rc_preparing :: bool

definition resize_context_default :: "'k resize_context" where
  "resize_context_default = \<lparr>rc_topology = [], rc_groups = [], rc_intent = None, rc_area = rect_new 0 0 0 0,
     rc_gap = 0, rc_frames = [], rc_drag_snapshot = None, rc_preparing = False\<rparr>"

section \<open>The context follows the layout\<close>

definition cancel_drag :: "'k resize_context \<Rightarrow> 'k resize_context" where
  "cancel_drag c = (case rc_drag_snapshot c of
     None \<Rightarrow> c
   | Some original \<Rightarrow> c\<lparr>rc_drag_snapshot := None, rc_intent := original\<rparr>)"

definition sync_groups :: "'k list list \<Rightarrow> 'k resize_context \<Rightarrow> 'k resize_context" where
  "sync_groups groups c =
     (let c1 = (if rc_groups c \<noteq> groups then cancel_drag c else c) in c1\<lparr>rc_groups := groups\<rparr>)"

definition resize_sync :: "'k list \<Rightarrow> rect \<Rightarrow> int \<Rightarrow> 'k resize_frame list \<Rightarrow> 'k resize_context \<Rightarrow> 'k resize_context" where
  "resize_sync topology area gap frames c =
     (let c1 = (if rc_topology c \<noteq> topology then cancel_drag c else c);
          drop_intent = ((length (rc_topology c1) > 1 \<and> length topology = 1) \<or>
             (case rc_intent c1 of None \<Rightarrow> False | Some i \<Rightarrow> ri_client i \<notin> set topology));
          c2 = (if drop_intent then c1\<lparr>rc_intent := None\<rparr> else c1)
      in c2\<lparr>rc_topology := topology, rc_area := area, rc_gap := max gap 0, rc_frames := frames\<rparr>)"

section \<open>Intents\<close>

definition usable_content :: "rect \<Rightarrow> int \<Rightarrow> int \<Rightarrow> flt \<times> flt" where
  "usable_content area gap0 border =
     (let gap = clamp gap0 0 (min (max (rect_w area) 0) (max (rect_h area) 0) sdiv 2);
          padding = add64 (mul64 (Fin 2) (f64_of gap)) (mul64 (Fin 2) (f64_of (max border 0)))
      in (fmax (sub64 (f64_of (rect_w area)) padding) (Fin 1),
          fmax (sub64 (f64_of (rect_h area)) padding) (Fin 1)))"

definition intent_from_rect :: "'k \<Rightarrow> rect \<Rightarrow> rect \<Rightarrow> int \<Rightarrow> int \<Rightarrow> 'k resize_intent" where
  "intent_from_rect client r area gap border =
     (let (w, h) = usable_content area gap border
      in \<lparr>ri_client = client,
          ri_width = fclamp (div64 (f64_of (max (rect_w r) 1)) w) (Fin 0) (Fin 1),
          ri_height = fclamp (div64 (f64_of (max (rect_h r) 1)) h) (Fin 0) (Fin 1)\<rparr>)"

definition adjust_intent :: "'k resize_intent \<Rightarrow> bool \<Rightarrow> flt \<Rightarrow> 'k resize_intent option" where
  "adjust_intent intent horizontal delta =
     (if \<not> is_finite delta then None
      else if horizontal
      then Some (intent\<lparr>ri_width := fclamp (add64 (ri_width intent) delta) (Fin 0) (Fin 1)\<rparr>)
      else Some (intent\<lparr>ri_height := fclamp (add64 (ri_height intent) delta) (Fin 0) (Fin 1)\<rparr>))"

section \<open>The coordinate map of one axis\<close>

record axis_map =
  am_lo :: flt
  am_hi :: flt
  am_start :: flt
  am_end :: flt
  am_new_start :: flt
  am_new_end :: flt
  am_full :: bool

definition axis_map_new :: "flt \<Rightarrow> flt \<Rightarrow> flt \<Rightarrow> flt \<Rightarrow> flt \<Rightarrow> axis_map" where
  "axis_map_new lo hi start fin desired0 =
     (let extent = fmax (sub64 hi lo) (Fin 1);
          desired = fclamp desired0 (Fin 1) extent;
          before = fmax (sub64 start lo) (Fin 0);
          after = fmax (sub64 hi fin) (Fin 0);
          full = flt_less (add64 before after) (rnd64 (1 / 1000));
          new_start = (if full then add64 lo (div64 (sub64 extent desired) (Fin 2))
                       else add64 lo (div64 (mul64 (sub64 extent desired) before) (add64 before after)))
      in \<lparr>am_lo = lo, am_hi = hi, am_start = start, am_end = fin, am_new_start = new_start,
          am_new_end = add64 new_start desired, am_full = full\<rparr>)"

definition axis_map_map :: "axis_map \<Rightarrow> flt \<Rightarrow> flt" where
  "axis_map_map m v =
     (if am_full m then v
      else if flt_less v (am_start m) \<and> flt_less (am_lo m) (am_start m)
      then add64 (am_lo m) (div64 (mul64 (sub64 v (am_lo m)) (sub64 (am_new_start m) (am_lo m)))
                              (sub64 (am_start m) (am_lo m)))
      else if flt_less (am_end m) v \<and> flt_less (am_end m) (am_hi m)
      then add64 (am_new_end m) (div64 (mul64 (sub64 v (am_end m)) (sub64 (am_hi m) (am_new_end m)))
                                  (sub64 (am_hi m) (am_end m)))
      else add64 (am_new_start m) (div64 (mul64 (sub64 v (am_start m)) (sub64 (am_new_end m) (am_new_start m)))
                                    (fmax (sub64 (am_end m) (am_start m)) (Fin 1))))"

definition axis_map_interval :: "axis_map \<Rightarrow> flt \<Rightarrow> flt \<Rightarrow> bool \<Rightarrow> flt \<times> flt" where
  "axis_map_interval m lo hi anchor =
     (if am_full m \<and> anchor then (am_new_start m, am_new_end m)
      else (axis_map_map m lo, axis_map_map m hi))"

section \<open>Plans\<close>

text \<open>\<open>f64::round\<close>: to the nearest integer, halves away from zero.\<close>

fun fround :: "flt \<Rightarrow> flt" where
  "fround (Fin x) = Fin (of_int (if 0 \<le> x then \<lfloor>x + 1 / 2\<rfloor> else - \<lfloor>1 / 2 - x\<rfloor>))"
| "fround v = v"

definition allocation :: "flt \<Rightarrow> 'k resize_frame \<Rightarrow> flt \<times> flt \<times> flt \<times> flt" where
  "allocation half f =
     (let border = mul64 (Fin 2) (f64_of (max (rf_border f) 0)); r = rf_rect f
      in (sub64 (f64_of (rect_x r)) half, sub64 (f64_of (rect_y r)) half,
          add64 (add64 (add64 (f64_of (rect_x r)) (f64_of (rect_w r))) border) half,
          add64 (add64 (add64 (f64_of (rect_y r)) (f64_of (rect_h r))) border) half))"

definition outer_overlap :: "'k resize_frame \<Rightarrow> 'k resize_frame \<Rightarrow> bool" where
  "outer_overlap a b =
     (let ax = rect_x (rf_rect a); ay = rect_y (rf_rect a); bx = rect_x (rf_rect b); by = rect_y (rf_rect b);
          aw = rect_w (rf_rect a) + 2 * max (rf_border a) 0;
          ah = rect_h (rf_rect a) + 2 * max (rf_border a) 0;
          bw = rect_w (rf_rect b) + 2 * max (rf_border b) 0;
          bh = rect_h (rf_rect b) + 2 * max (rf_border b) 0
      in ax < bx + bw \<and> bx < ax + aw \<and> ay < by + bh \<and> by < ay + ah)"

text \<open>The body of the \<open>for f in frames\<close> loop: \<open>None\<close> is its \<open>return None\<close>.\<close>

definition plan_frame :: "axis_map \<Rightarrow> axis_map \<Rightarrow> flt \<Rightarrow> 'k \<Rightarrow> ('k \<Rightarrow> int \<Rightarrow> int \<Rightarrow> int \<times> int) \<Rightarrow>
    'k resize_frame \<Rightarrow> 'k resize_frame option" where
  "plan_frame xmap ymap half anchor_client fit f =
     (let is_anchor = (rf_client f = anchor_client);
          (ax1, ay1, ax2, ay2) = allocation half f;
          (x1, x2) = axis_map_interval xmap ax1 ax2 is_anchor;
          (y1, y2) = axis_map_interval ymap ay1 ay2 is_anchor;
          x = fround (add64 x1 half);
          y = fround (add64 y1 half);
          border = mul64 (Fin 2) (f64_of (max (rf_border f) 0));
          w = sub64 (sub64 (fround (sub64 x2 half)) x) border;
          h = sub64 (sub64 (fround (sub64 y2 half)) y) border
      in if flt_less w (Fin 1) \<or> flt_less h (Fin 1) \<or> flt_less (Fin 65535) w \<or> flt_less (Fin 65535) h \<or>
            flt_less x (f64_of i32_min) \<or> flt_less (f64_of i32_max) x \<or>
            flt_less y (f64_of i32_min) \<or> flt_less (f64_of i32_max) y
         then None
         else let wi = to_i32 w; hi = to_i32 h; (fw, fh) = fit (rf_client f) wi hi
              in if fw < 1 \<or> fh < 1 \<or> fw > wi \<or> fh > hi then None
                 else Some \<lparr>rf_client = rf_client f,
                       rf_rect = rect_new (sat32 (to_i32 x + wrap32 (wi - fw) sdiv 2))
                         (sat32 (to_i32 y + wrap32 (hi - fh) sdiv 2)) fw fh,
                       rf_border = rf_border f\<rparr>)"

primrec plan_frames :: "('k resize_frame \<Rightarrow> 'k resize_frame option) \<Rightarrow> 'k resize_frame list \<Rightarrow> 'k resize_frame list option" where
  "plan_frames step [] = Some []"
| "plan_frames step (f # fs) = (case step f of None \<Rightarrow> None
     | Some g \<Rightarrow> map_option (Cons g) (plan_frames step fs))"

text \<open>The nested validation loops over the pairs \<open>i < j\<close>.\<close>

definition separation_lost :: "'k resize_frame list \<Rightarrow> 'k resize_frame list \<Rightarrow> bool" where
  "separation_lost frames out \<longleftrightarrow>
     (\<exists>i \<in> set [0..<length frames]. \<exists>j \<in> set [i + 1..<length frames].
        \<not> outer_overlap (frames ! i) (frames ! j) \<and> outer_overlap (out ! i) (out ! j))"

definition exact_plan :: "rect \<Rightarrow> int \<Rightarrow> 'k resize_frame list \<Rightarrow> 'k resize_intent \<Rightarrow>
    ('k \<Rightarrow> int \<Rightarrow> int \<Rightarrow> int \<times> int) \<Rightarrow> 'k resize_frame list option" where
  "exact_plan area gap0 frames intent fit =
     (if rect_w area \<le> 0 \<or> rect_h area \<le> 0 \<or> \<not> is_finite (ri_width intent) \<or> \<not> is_finite (ri_height intent) \<or>
         \<not> (flt_leq (Fin 0) (ri_width intent) \<and> flt_leq (ri_width intent) (Fin 1)) \<or>
         \<not> (flt_leq (Fin 0) (ri_height intent) \<and> flt_leq (ri_height intent) (Fin 1))
      then None
      else case find (\<lambda>f. rf_client f = ri_client intent) frames of
        None \<Rightarrow> None
      | Some anchor \<Rightarrow>
          let gap = clamp gap0 0 (min (rect_w area) (rect_h area) sdiv 2);
              half = div64 (f64_of gap) (Fin 2);
              left0 = add64 (f64_of (rect_x area)) half;
              top0 = add64 (f64_of (rect_y area)) half;
              right0 = sub64 (add64 (f64_of (rect_x area)) (f64_of (rect_w area))) half;
              bottom0 = sub64 (add64 (f64_of (rect_y area)) (f64_of (rect_h area))) half;
              many = length frames > 1;
              (left, upper, right, lower) =
                (if many then fold (\<lambda>f (l, t, r, b). let (x1, y1, x2, y2) = allocation half f
                                    in (fmin l x1, fmin t y1, fmax r x2, fmax b y2))
                                frames (left0, top0, right0, bottom0)
                 else (left0, top0, right0, bottom0));
              (ax, ay, bx, by) = (if many then allocation half anchor else (left, upper, right, lower));
              (cw, ch) = usable_content area gap (rf_border anchor);
              border_gap = add64 (mul64 (Fin 2) (f64_of (max (rf_border anchor) 0))) (f64_of gap);
              xmap = axis_map_new left right ax bx (add64 (mul64 cw (ri_width intent)) border_gap);
              ymap = axis_map_new upper lower ay by (add64 (mul64 ch (ri_height intent)) border_gap)
          in case plan_frames (plan_frame xmap ymap half (ri_client intent) fit) frames of
               None \<Rightarrow> None
             | Some out \<Rightarrow> if separation_lost frames out then None else Some out)"

text \<open>The 32 bisection steps; \<open>best\<close> is always a feasible intent with its plan.\<close>

primrec bisect_plan :: "(flt \<Rightarrow> 'k resize_intent) \<Rightarrow> ('k resize_intent \<Rightarrow> 'k resize_frame list option) \<Rightarrow> nat \<Rightarrow>
    flt \<Rightarrow> flt \<Rightarrow> 'k resize_intent \<times> 'k resize_frame list \<Rightarrow> 'k resize_intent \<times> 'k resize_frame list" where
  "bisect_plan intent_at plan 0 low high best = best"
| "bisect_plan intent_at plan (Suc n) low high best =
     (let t = div64 (add64 low high) (Fin 2)
      in case plan (intent_at t) of
           Some p \<Rightarrow> bisect_plan intent_at plan n t high (intent_at t, p)
         | None \<Rightarrow> bisect_plan intent_at plan n low t best)"

definition bounded_plan :: "rect \<Rightarrow> int \<Rightarrow> 'k resize_frame list \<Rightarrow> 'k resize_intent \<Rightarrow> 'k resize_intent \<Rightarrow>
    ('k \<Rightarrow> int \<Rightarrow> int \<Rightarrow> int \<times> int) \<Rightarrow> ('k resize_intent \<times> 'k resize_frame list) option" where
  "bounded_plan area gap frames start wanted fit =
     (if ri_client start \<noteq> ri_client wanted \<or> \<not> is_finite (ri_width wanted) \<or> \<not> is_finite (ri_height wanted) then None
      else case exact_plan area gap frames wanted fit of
        Some plan \<Rightarrow> Some (wanted, plan)
      | None \<Rightarrow> (case exact_plan area gap frames start fit of
          None \<Rightarrow> None
        | Some p0 \<Rightarrow> Some (bisect_plan
            (\<lambda>t. \<lparr>ri_client = ri_client wanted,
                  ri_width = add64 (ri_width start) (mul64 (sub64 (ri_width wanted) (ri_width start)) t),
                  ri_height = add64 (ri_height start) (mul64 (sub64 (ri_height wanted) (ri_height start)) t)\<rparr>)
            (\<lambda>i. exact_plan area gap frames i fit) 32 (Fin 0) (Fin 1) (start, p0))))"

section \<open>Centering a column\<close>

definition group_bounds :: "'k list \<Rightarrow> 'k resize_frame list \<Rightarrow> int \<times> int" where
  "group_bounds grp frames =
     fold (\<lambda>f (left, right). (min left (rect_x (rf_rect f)),
         max right (rect_x (rf_rect f) + rect_w (rf_rect f) + 2 * max (rf_border f) 0)))
       (filter (\<lambda>f. rf_client f \<in> set grp) frames) (9223372036854775807, - 9223372036854775808)"

text \<open>The result pairs the returned flag with the frames the caller sees afterwards.\<close>

definition center_group :: "rect \<Rightarrow> int \<Rightarrow> 'k resize_frame list \<Rightarrow> 'k list \<Rightarrow> bool \<times> 'k resize_frame list" where
  "center_group area gap0 frames grp =
     (let (left, right) = group_bounds grp frames
      in if left = 9223372036854775807 then (False, frames)
         else let gap = clamp gap0 0 (min (max (rect_w area) 0) (max (rect_h area) 0) sdiv 2);
                  available = rect_w area - 2 * gap
              in if right - left > available \<or> available < 1 then (False, frames)
                 else let target = rect_x area + gap + (available - (right - left)) sdiv 2;
                          delta = target - left
                      in if \<exists>f \<in> set frames. \<not> in_i32 (rect_x (rf_rect f) + delta) then (False, frames)
                         else (True, map (\<lambda>f. f\<lparr>rf_rect := (rf_rect f)\<lparr>rect_x := rect_x (rf_rect f) + delta\<rparr>\<rparr>) frames))"

section \<open>Pointer travel\<close>

definition resize_gain :: "rect \<Rightarrow> flt \<Rightarrow> 'k resize_frame list \<Rightarrow> 'k resize_frame \<Rightarrow> bool \<Rightarrow> bool \<Rightarrow> flt" where
  "resize_gain area half frames anchor horizontal low_edge =
     (let lo0 = add64 (if horizontal then f64_of (rect_x area) else f64_of (rect_y area)) half;
          hi0 = sub64 (if horizontal then add64 (f64_of (rect_x area)) (f64_of (rect_w area))
                       else add64 (f64_of (rect_y area)) (f64_of (rect_h area))) half;
          interval = (\<lambda>f. let start = (if horizontal then f64_of (rect_x (rf_rect f)) else f64_of (rect_y (rf_rect f)));
                              size = (if horizontal then f64_of (rect_w (rf_rect f)) else f64_of (rect_h (rf_rect f)))
                          in (sub64 start half,
                              add64 (add64 (add64 start size) (mul64 (Fin 2) (f64_of (max (rf_border f) 0)))) half));
          (lo, hi) = fold (\<lambda>f (lo, hi). let (a, b) = interval f in (fmin lo a, fmax hi b)) frames (lo0, hi0);
          (a, b) = interval anchor;
          before = fmax (sub64 a lo) (Fin 0);
          after = fmax (sub64 hi b) (Fin 0)
      in if flt_less (add64 before after) (rnd64 (1 / 1000)) then Fin 2
         else let rate = (if low_edge then div64 before (add64 before after) else div64 after (add64 before after))
              in if flt_less rate (rnd64 (1 / 1000)) then Fin 1 else div64 (Fin 1) rate)"

definition pointer_resize_gains :: "rect \<Rightarrow> int \<Rightarrow> 'k resize_frame list \<Rightarrow> 'k \<Rightarrow> bool \<Rightarrow> bool \<Rightarrow> flt \<times> flt" where
  "pointer_resize_gains area gap frames key left_edge top_edge =
     (if length frames \<le> 1 then (Fin 2, Fin 2)
      else case find (\<lambda>f. rf_client f = key) frames of
        None \<Rightarrow> (Fin 1, Fin 1)
      | Some anchor \<Rightarrow>
          let half = div64 (f64_of (clamp gap 0 (min (max (rect_w area) 0) (max (rect_h area) 0) sdiv 2))) (Fin 2)
          in (resize_gain area half frames anchor True left_edge, resize_gain area half frames anchor False top_edge))"

definition pointer_resize_delta :: "bool \<Rightarrow> bool \<Rightarrow> bool \<Rightarrow> bool \<Rightarrow> flt \<Rightarrow> flt \<Rightarrow> flt \<times> flt" where
  "pointer_resize_delta left right upper lower dx dy =
     (if left then fneg dx else if right then dx else Fin 0,
      if upper then fneg dy else if lower then dy else Fin 0)"

section \<open>What a plan guarantees\<close>

lemma trunc_rat_le: "x \<le> of_int k \<Longrightarrow> 0 \<le> k \<Longrightarrow> trunc_rat x \<le> k"
proof (cases "0 \<le> x")
  case True
  then show "x \<le> of_int k \<Longrightarrow> 0 \<le> k \<Longrightarrow> trunc_rat x \<le> k" by (simp add: trunc_rat_def floor_le_iff)
next
  case False
  then have "0 \<le> \<lfloor>- x\<rfloor>" by (subst zero_le_floor) simp
  then show "x \<le> of_int k \<Longrightarrow> 0 \<le> k \<Longrightarrow> trunc_rat x \<le> k"
    using False unfolding trunc_rat_def by (simp only: if_False)
qed

lemma to_i32_le: "\<not> flt_less (Fin 65535) w \<Longrightarrow> to_i32 w \<le> 65535"
  using trunc_rat_le [of _ 65535] by (cases w) (auto simp: sat32_def not_less min.coboundedI2)

lemma plan_frame_box:
  assumes "plan_frame xm ym half k fit f = Some g"
  shows "rf_client g = rf_client f \<and> rf_border g = rf_border f \<and>
    1 \<le> rect_w (rf_rect g) \<and> rect_w (rf_rect g) \<le> 65535 \<and> 1 \<le> rect_h (rf_rect g) \<and> rect_h (rf_rect g) \<le> 65535 \<and>
    in_i32 (rect_x (rf_rect g)) \<and> in_i32 (rect_y (rf_rect g))"
proof -
  have split: "(if A \<or> B \<or> C \<or> D \<or> E then None else if F then None else Some G) = Some g \<Longrightarrow> \<not> C \<and> \<not> D \<and> \<not> F \<and> g = G"
    for A B C D E F and G :: "'a resize_frame" by (auto split: if_splits)
  from split [OF assms [unfolded plan_frame_def Let_def case_prod_unfold]] show ?thesis
    using order_trans [OF _ to_i32_le] by (auto simp: not_less sat32_range)
qed

lemma plan_frames_step:
  "plan_frames step fs = Some gs \<Longrightarrow> list_all2 (\<lambda>f g. step f = Some g) fs gs"
  by (induction fs arbitrary: gs) (auto split: option.splits)

text \<open>Everything the planner checked before it returned a plan.\<close>

lemma exact_planE:
  assumes "exact_plan area gap frames intent fit = Some out"
  obtains xm ym half where "plan_frames (plan_frame xm ym half (ri_client intent) fit) frames = Some out"
    "\<not> separation_lost frames out" "\<exists>f \<in> set frames. rf_client f = ri_client intent"
proof -
  from assms obtain anchor where "find (\<lambda>f. rf_client f = ri_client intent) frames = Some anchor"
    by (auto simp: exact_plan_def split: if_splits option.splits)
  then have "\<exists>f \<in> set frames. rf_client f = ri_client intent" by (auto simp: find_Some_iff)
  moreover from assms obtain xm ym half where "plan_frames (plan_frame xm ym half (ri_client intent) fit) frames = Some out"
    "\<not> separation_lost frames out"
    unfolding exact_plan_def Let_def case_prod_unfold by (auto split: if_splits option.splits)
  ultimately show thesis using that by blast
qed

lemma separation_lost_iff:
  "separation_lost frames out \<longleftrightarrow> (\<exists>i j. i < j \<and> j < length frames \<and>
     \<not> outer_overlap (frames ! i) (frames ! j) \<and> outer_overlap (out ! i) (out ! j))"
  by (fastforce simp: separation_lost_def Suc_le_eq)

lemma exact_plan_safe:
  assumes "exact_plan area gap frames intent fit = Some out"
  shows "map rf_client out = map rf_client frames \<and> map rf_border out = map rf_border frames \<and>
    (\<forall>g \<in> set out. 1 \<le> rect_w (rf_rect g) \<and> rect_w (rf_rect g) \<le> 65535 \<and>
       1 \<le> rect_h (rf_rect g) \<and> rect_h (rf_rect g) \<le> 65535) \<and>
    (\<forall>j < length out. \<forall>i < j. outer_overlap (out ! i) (out ! j) \<longrightarrow> outer_overlap (frames ! i) (frames ! j))"
proof -
  from assms obtain xm ym half where p: "plan_frames (plan_frame xm ym half (ri_client intent) fit) frames = Some out"
    and s: "\<not> separation_lost frames out" by (rule exact_planE)
  from plan_frames_step [OF p] have l: "length out = length frames"
    and n: "\<And>i. i < length frames \<Longrightarrow> plan_frame xm ym half (ri_client intent) fit (frames ! i) = Some (out ! i)"
    by (auto simp: list_all2_conv_all_nth)
  have "map rf_client out = map rf_client frames" "map rf_border out = map rf_border frames"
    using plan_frame_box [OF n] l by (auto intro!: nth_equalityI)
  moreover have "1 \<le> rect_w (rf_rect g) \<and> rect_w (rf_rect g) \<le> 65535 \<and> 1 \<le> rect_h (rf_rect g) \<and> rect_h (rf_rect g) \<le> 65535"
    if "g \<in> set out" for g
    using that plan_frame_box [OF n] l by (auto simp: in_set_conv_nth)
  ultimately show ?thesis using s l by (auto simp: separation_lost_iff)
qed

lemma bisect_plan_feasible:
  assumes "plan (fst best) = Some (snd best)" "P (fst best)" "\<And>t. P (intent_at t)"
  shows "plan (fst (bisect_plan intent_at plan n low high best)) = Some (snd (bisect_plan intent_at plan n low high best)) \<and>
    P (fst (bisect_plan intent_at plan n low high best))"
  using assms(1,2)
proof (induction n arbitrary: low high best)
  case (Suc n)
  then show ?case using assms(3) by (auto simp: Let_def split: option.splits)
qed simp

section \<open>Centering\<close>

lemma group_bounds_fold:
  fixes l :: int
  assumes "fold (\<lambda>f (left, right). (min left (a f), max right (b f))) fs (l0, r0) = (l, r :: int)"
  shows "l \<le> l0" "r0 \<le> r" "f \<in> set fs \<Longrightarrow> l \<le> a f \<and> b f \<le> (r :: int)" "fs \<noteq> [] \<Longrightarrow> (l = l0 \<or> (\<exists>f \<in> set fs. l = a f))"
  using assms
proof (induction fs arbitrary: l0 r0)
  case (Cons g fs)
  { case 1 then show ?case using Cons.IH(1) [of "min l0 (a g)" "max r0 (b g)"] by simp }
  { case 2 then show ?case using Cons.IH(2) [of "min l0 (a g)" "max r0 (b g)"] by simp }
  { case 3 then show ?case using Cons.IH(1,2,3) [of "min l0 (a g)" "max r0 (b g)"] by auto }
  { case 4 then show ?case using Cons.IH(4) [of "min l0 (a g)" "max r0 (b g)"]
      by (cases "fs = []") (auto simp: min_def split: if_splits) }
qed simp_all

definition shift_frame :: "int \<Rightarrow> 'k resize_frame \<Rightarrow> 'k resize_frame" where
  "shift_frame d f = f\<lparr>rf_rect := (rf_rect f)\<lparr>rect_x := rect_x (rf_rect f) + d\<rparr>\<rparr>"

definition frame_right :: "'k resize_frame \<Rightarrow> int" where
  "frame_right f = rect_x (rf_rect f) + rect_w (rf_rect f) + 2 * max (rf_border f) 0"

lemma center_group_cases:
  obtains "center_group area gap frames grp = (False, frames)"
  | d l r where "center_group area gap frames grp = (True, map (shift_frame d) frames)"
      "group_bounds grp frames = (l, r)"
      "r - l \<le> rect_w area - 2 * clamp gap 0 (min (max (rect_w area) 0) (max (rect_h area) 0) sdiv 2)"
      "l + d = rect_x area + clamp gap 0 (min (max (rect_w area) 0) (max (rect_h area) 0) sdiv 2) +
         (rect_w area - 2 * clamp gap 0 (min (max (rect_w area) 0) (max (rect_h area) 0) sdiv 2) - (r - l)) sdiv 2"
proof -
  obtain l r where b: "group_bounds grp frames = (l, r)" by fastforce
  let ?d = "rect_x area + clamp gap 0 (min (max (rect_w area) 0) (max (rect_h area) 0) sdiv 2) +
         (rect_w area - 2 * clamp gap 0 (min (max (rect_w area) 0) (max (rect_h area) 0) sdiv 2) - (r - l)) sdiv 2 - l"
  show thesis
  proof (cases "fst (center_group area gap frames grp)")
    case True
    then have "center_group area gap frames grp = (True, map (shift_frame ?d) frames)"
      "r - l \<le> rect_w area - 2 * clamp gap 0 (min (max (rect_w area) 0) (max (rect_h area) 0) sdiv 2)"
      unfolding center_group_def b Let_def shift_frame_def by (auto split: if_splits)
    then show ?thesis using that(2) [of ?d l r] b by simp
  next
    case False
    then have "center_group area gap frames grp = (False, frames)"
      unfolding center_group_def b Let_def by (auto split: if_splits)
    then show ?thesis by (rule that(1))
  qed
qed

lemma shift_frame_overlap: "outer_overlap (shift_frame d a) (shift_frame d b) \<longleftrightarrow> outer_overlap a b"
  by (auto simp: outer_overlap_def shift_frame_def Let_def)

lemma shift_frame_x:
  "rect_x (rf_rect (shift_frame d f)) = rect_x (rf_rect f) + d" "frame_right (shift_frame d f) = frame_right f + d"
  by (simp_all add: shift_frame_def frame_right_def)

text \<open>
  C12. A plan the exact planner returns covers the same clients in the same order with the same
  borders, gives each a content size between 1 and 65535 pixels, and never makes two frames overlap
  that did not overlap in the native layout, whatever the rounding of the coordinate maps and
  whatever the size-hint policy answers.
\<close>

theorem exact_plan_never_creates_overlap:
  assumes "exact_plan area gap frames intent fit = Some out"
  shows "map rf_client out = map rf_client frames \<and> map rf_border out = map rf_border frames \<and>
    (\<forall>g \<in> set out. 1 \<le> rect_w (rf_rect g) \<and> rect_w (rf_rect g) \<le> 65535 \<and>
       1 \<le> rect_h (rf_rect g) \<and> rect_h (rf_rect g) \<le> 65535) \<and>
    (\<forall>j < length out. \<forall>i < j. outer_overlap (out ! i) (out ! j) \<longrightarrow> outer_overlap (frames ! i) (frames ! j))"
  using assms by (rule exact_plan_safe)

definition sample_frames :: "nat resize_frame list" where
  "sample_frames = [\<lparr>rf_client = 5, rf_rect = rect_new 0 0 500 1000, rf_border = 0\<rparr>,
     \<lparr>rf_client = 6, rf_rect = rect_new 500 0 500 1000, rf_border = 0\<rparr>]"

definition sample_intent :: "flt \<Rightarrow> nat resize_intent" where
  "sample_intent w = \<lparr>ri_client = 5, ri_width = w, ri_height = Fin 1\<rparr>"

lemma rnd64_numeral: "numeral n < (9007199254740992::int) \<Longrightarrow> rnd64 (numeral n) = Fin (numeral n)"
proof -
  assume n: "numeral n < (9007199254740992::int)"
  then have "(numeral n :: rat) < 9007199254740992" by (metis of_int_less_iff of_int_numeral)
  also have "(9007199254740992::rat) = 2 powi 53" by simp
  also have "\<dots> < 2 powi (1023 + 1)" by (simp only: powi2_less_iff)
  finally have "\<bar>numeral n :: rat\<bar> < 2 powi (1023 + 1)" by simp
  moreover have "round_rat 53 (- 1074) (of_int (numeral n)) = of_int (numeral n)"
    using n by (intro round_rat_of_int) auto
  ultimately show ?thesis by (simp add: rnd64_def round_fmt_def Let_def)
qed

lemma fround_int: "fround (Fin (of_int k)) = Fin (of_int k)"
  by (auto simp: floor_unique)

lemma fround_numeral: "fround (Fin (numeral n)) = Fin (numeral n)" "fround (Fin 0) = Fin 0"
  using fround_int [of "numeral n"] fround_int [of 0] by (simp_all del: fround.simps)

lemma rnd64_0: "rnd64 0 = Fin 0"
  by code_simp

lemma rnd64_milli: "rnd64 (1 / 1000) = Fin (1152921504606847 / 1152921504606846976)"
  by code_simp

lemmas exact_doubles = rnd64_numeral rnd64_0 rnd64_milli f64_of_exact in_i32_def fsub_def fmax_def fmin_def fclamp_def

lemma sample_maps:
  "axis_map_new (Fin 0) (Fin 1000) (Fin 0) (Fin 500) (Fin 750) =
     \<lparr>am_lo = Fin 0, am_hi = Fin 1000, am_start = Fin 0, am_end = Fin 500, am_new_start = Fin 0,
      am_new_end = Fin 750, am_full = False\<rparr>"
  "axis_map_new (Fin 0) (Fin 1000) (Fin 0) (Fin 1000) (Fin 1000) =
     \<lparr>am_lo = Fin 0, am_hi = Fin 1000, am_start = Fin 0, am_end = Fin 1000, am_new_start = Fin 0,
      am_new_end = Fin 1000, am_full = True\<rparr>"
  by (simp_all add: axis_map_new_def Let_def exact_doubles)

lemma sample_boxes:
  "plan_frames (plan_frame
      \<lparr>am_lo = Fin 0, am_hi = Fin 1000, am_start = Fin 0, am_end = Fin 500, am_new_start = Fin 0,
       am_new_end = Fin 750, am_full = False\<rparr>
      \<lparr>am_lo = Fin 0, am_hi = Fin 1000, am_start = Fin 0, am_end = Fin 1000, am_new_start = Fin 0,
       am_new_end = Fin 1000, am_full = True\<rparr> (Fin 0) 5 (\<lambda>k w h. (w, h))) sample_frames =
    Some [\<lparr>rf_client = 5, rf_rect = rect_new 0 0 750 1000, rf_border = 0\<rparr>,
       \<lparr>rf_client = 6, rf_rect = rect_new 750 0 250 1000, rf_border = 0\<rparr>]"
  by (simp add: sample_frames_def plan_frame_def allocation_def axis_map_map_def axis_map_interval_def
      trunc_rat_def sat32_id wrap32_id signed_divide_int_def Let_def fround_numeral exact_doubles
      del: fround.simps)

lemma sample_plan:
  "exact_plan (rect_new 0 0 1000 1000) 0 sample_frames (sample_intent (Fin (3 / 4))) (\<lambda>k w h. (w, h)) =
     Some [\<lparr>rf_client = 5, rf_rect = rect_new 0 0 750 1000, rf_border = 0\<rparr>,
       \<lparr>rf_client = 6, rf_rect = rect_new 750 0 250 1000, rf_border = 0\<rparr>]"
proof -
  have al: "allocation (Fin 0) (sample_frames ! 0) = (Fin 0, Fin 0, Fin 500, Fin 1000)"
    "allocation (Fin 0) (sample_frames ! Suc 0) = (Fin 500, Fin 0, Fin 1000, Fin 1000)"
    by (simp_all add: allocation_def sample_frames_def Let_def exact_doubles)
  have sf: "sample_frames = [sample_frames ! 0, sample_frames ! Suc 0]" by (simp add: sample_frames_def)
  have sep: "\<not> separation_lost sample_frames [\<lparr>rf_client = 5, rf_rect = rect_new 0 0 750 1000, rf_border = 0\<rparr>,
       \<lparr>rf_client = 6, rf_rect = rect_new 750 0 250 1000, rf_border = 0\<rparr>]"
    by code_simp
  have fd: "find (\<lambda>f. rf_client f = 5) sample_frames = Some (sample_frames ! 0)"  "rf_border (sample_frames ! 0) = 0"
    "length sample_frames = 2"
    by (simp_all add: sample_frames_def)
  have uc: "usable_content (rect_new 0 0 1000 1000) 0 0 = (Fin 1000, Fin 1000)"
    by (simp add: usable_content_def clamp_def sdiv_nonneg exact_doubles)
  have fo: "fold (\<lambda>f (l, t, r, b). case allocation (Fin 0) f of (x1, y1, x2, y2) \<Rightarrow>
        (fmin l x1, fmin t y1, fmax r x2, fmax b y2)) sample_frames (Fin 0, Fin 0, Fin 1000, Fin 1000) =
      (Fin 0, Fin 0, Fin 1000, Fin 1000)"
    by (subst sf) (simp add: al fmin_def fmax_def)
  have cl: "clamp 0 0 500 = 0" by (simp add: clamp_def)
  show ?thesis
    unfolding exact_plan_def sample_intent_def
    by (simp add: Let_def fd cl uc fo al sample_maps sample_boxes sep f64_of_exact in_i32_def fsub_def rnd64_numeral rnd64_0)
qed

theorem exact_plan_never_creates_overlap_witness:
  "\<not> outer_overlap \<lparr>rf_client = 5::nat, rf_rect = rect_new 0 0 750 1000, rf_border = 0\<rparr>
       \<lparr>rf_client = 6, rf_rect = rect_new 750 0 250 1000, rf_border = 0\<rparr>"
  using exact_plan_never_creates_overlap [OF sample_plan]
  by (simp add: outer_overlap_def sample_frames_def)

text \<open>
  The bisection answers with a feasible plan: the intent it returns belongs to the wanted
  client and the frames are exactly the exact plan of that intent; a feasible wanted intent is
  returned as it is; and a feasible start always gives an answer.
\<close>

theorem bounded_plan_is_exact:
  assumes "ri_client start = ri_client wanted" "is_finite (ri_width wanted)" "is_finite (ri_height wanted)"
    "exact_plan area gap frames start fit \<noteq> None"
  shows "\<exists>i p. bounded_plan area gap frames start wanted fit = Some (i, p) \<and>
    exact_plan area gap frames i fit = Some p \<and> ri_client i = ri_client wanted \<and>
    (exact_plan area gap frames wanted fit \<noteq> None \<longrightarrow> i = wanted)"
proof (cases "exact_plan area gap frames wanted fit")
  case (Some p)
  then show ?thesis using assms by (simp add: bounded_plan_def)
next
  case None
  obtain p0 where p0: "exact_plan area gap frames start fit = Some p0" using assms(4) by blast
  let ?at = "\<lambda>t. \<lparr>ri_client = ri_client wanted,
    ri_width = add64 (ri_width start) (mul64 (sub64 (ri_width wanted) (ri_width start)) t),
    ri_height = add64 (ri_height start) (mul64 (sub64 (ri_height wanted) (ri_height start)) t)\<rparr>"
  let ?r = "bisect_plan ?at (\<lambda>i. exact_plan area gap frames i fit) 32 (Fin 0) (Fin 1) (start, p0)"
  have "exact_plan area gap frames (fst ?r) fit = Some (snd ?r) \<and> ri_client (fst ?r) = ri_client wanted"
    using bisect_plan_feasible [of "\<lambda>i. exact_plan area gap frames i fit" "(start, p0)"
        "\<lambda>i. ri_client i = ri_client wanted" ?at 32 "Fin 0" "Fin 1"] p0 assms(1) by simp
  moreover have "bounded_plan area gap frames start wanted fit = Some ?r"
    using assms p0 None by (simp add: bounded_plan_def)
  ultimately show ?thesis using None by (intro exI [of _ "fst ?r"] exI [of _ "snd ?r"]) simp
qed

theorem bounded_plan_is_exact_witness:
  "\<exists>i p. bounded_plan (rect_new 0 0 1000 1000) 0 sample_frames (sample_intent (Fin (3 / 4))) (sample_intent (Fin 2)) (\<lambda>k w h. (w, h)) = Some (i, p)
     \<and> exact_plan (rect_new 0 0 1000 1000) 0 sample_frames i (\<lambda>k w h. (w, h)) = Some p"
  using bounded_plan_is_exact [of "sample_intent (Fin (3 / 4))" "sample_intent (Fin 2)"
      "rect_new 0 0 1000 1000" 0 sample_frames "\<lambda>k w h. (w, h)"] sample_plan
  by (auto simp: sample_intent_def)

text \<open>
  Centering a column either leaves every frame alone or moves all of them by the same distance,
  after which every frame of the group lies between the gaps of the output; overlaps between frames
  do not change.
\<close>

theorem center_group_translates:
  "center_group area gap frames grp = (False, frames) \<or>
   (\<exists>d. center_group area gap frames grp = (True, map (shift_frame d) frames) \<and>
     (\<forall>f \<in> set frames. rf_client f \<in> set grp \<longrightarrow>
        rect_x area + clamp gap 0 (min (max (rect_w area) 0) (max (rect_h area) 0) sdiv 2) \<le> rect_x (rf_rect (shift_frame d f)) \<and>
        frame_right (shift_frame d f) \<le>
          rect_x area + rect_w area - clamp gap 0 (min (max (rect_w area) 0) (max (rect_h area) 0) sdiv 2)) \<and>
     (\<forall>f \<in> set frames. \<forall>g \<in> set frames.
        outer_overlap (shift_frame d f) (shift_frame d g) \<longleftrightarrow> outer_overlap f g))"
proof (cases rule: center_group_cases [of area gap frames grp])
  case (2 d l r)
  let ?g = "clamp gap 0 (min (max (rect_w area) 0) (max (rect_h area) 0) sdiv 2)"
  let ?s = "rect_w area - 2 * ?g - (r - l)"
  have s: "0 \<le> ?s sdiv 2" "2 * (?s sdiv 2) \<le> ?s" using sdiv_half_bounds [of ?s] 2(3) by auto
  have b: "l \<le> rect_x (rf_rect f)" "frame_right f \<le> r" if "f \<in> set frames" "rf_client f \<in> set grp" for f
    using group_bounds_fold(3) [OF 2(2) [unfolded group_bounds_def]] that by (auto simp: frame_right_def)
  have "rect_x area + ?g \<le> rect_x (rf_rect f) + d \<and> frame_right f + d \<le> rect_x area + rect_w area - ?g"
    if "f \<in> set frames" "rf_client f \<in> set grp" for f
    using b [OF that] 2(4) s by linarith
  then show ?thesis
    using 2(1) by (intro disjI2 exI [of _ d]) (simp add: shift_frame_overlap shift_frame_x)
qed simp

lemma sample_center: "fst (center_group (rect_new 0 0 1000 800) 10 sample_frames [6])"
  by code_simp

theorem center_group_translates_witness:
  "\<exists>d. snd (center_group (rect_new 0 0 1000 800) 10 sample_frames [6]) = map (shift_frame d) sample_frames"
proof -
  from center_group_translates [of "rect_new 0 0 1000 800" 10 sample_frames "[6]"] sample_center
  show ?thesis by (elim disjE exE conjE) (simp, metis snd_conv)
qed

text \<open>
  After a layout pass the stored intent, if any, belongs to a client of the new topology, the
  gap is not negative, and a changed topology has ended any resize grab.
\<close>

theorem resize_sync_keeps_intent_live:
  assumes "c' = resize_sync topology area gap frames c"
  shows "(\<forall>i. rc_intent c' = Some i \<longrightarrow> ri_client i \<in> set topology) \<and> 0 \<le> rc_gap c' \<and>
    rc_topology c' = topology \<and> (rc_topology c \<noteq> topology \<longrightarrow> rc_drag_snapshot c' = None) \<and>
    (length (rc_topology c) > 1 \<and> length topology = 1 \<longrightarrow> rc_intent c' = None)"
  using assms by (auto simp: resize_sync_def cancel_drag_def Let_def split: option.splits)

theorem resize_sync_keeps_intent_live_witness:
  "rc_intent (resize_sync [6] (rect_new 0 0 10 10) 0 []
     (resize_context_default\<lparr>rc_topology := [5, 6::nat], rc_intent := Some (sample_intent (Fin 1))\<rparr>)) = None"
  using resize_sync_keeps_intent_live [OF refl, of "[6]" "rect_new 0 0 10 10" 0 "[]"
     "resize_context_default\<lparr>rc_topology := [5, 6::nat], rc_intent := Some (sample_intent (Fin 1))\<rparr>"]
  by (simp add: resize_context_default_def)

end
