(* ===== verification/Layout_Catalog.thy ===== *)
theory Layout_Catalog
  imports Prelude
begin

text \<open>
  \<open>crates/xbar_core/src/display.rs\<close> and \<open>LayoutEnum\<close> of \<open>src/core/layout.rs\<close>: the catalog of
  layouts shared by the window manager and its status bars, the wire identifiers, the names a
  configuration uses and the cycle order. A \<open>LayoutEnum\<close> is its name.
\<close>

record canonical_layout_row =
  row_id :: nat
  row_name :: string
  row_symbol :: string
  row_label :: string

definition canonical_row :: "nat \<Rightarrow> string \<Rightarrow> string \<Rightarrow> string \<Rightarrow> canonical_layout_row" where
  "canonical_row i n s l = \<lparr>row_id = i, row_name = n, row_symbol = s, row_label = l\<rparr>"

definition canonical_layouts :: "canonical_layout_row list" where
  "canonical_layouts =
    [canonical_row 0 ''tile'' ''[]='' ''Tile'',
     canonical_row 3 ''fibonacci'' ''[@]'' ''Fibonacci'',
     canonical_row 4 ''centeredmaster'' ''|M|'' ''Centered Master'',
     canonical_row 5 ''bstack'' ''TTT'' ''Bottom Stack'',
     canonical_row 6 ''grid'' ''HHH'' ''Grid'',
     canonical_row 7 ''deck'' ''[D]'' ''Deck'',
     canonical_row 8 ''threecol'' ''|||'' ''Three Column'',
     canonical_row 9 ''tatami'' ''[+]'' ''Tatami'',
     canonical_row 2 ''monocle'' ''[M]'' ''Monocle'',
     canonical_row 10 ''fullscreen'' ''[ ]'' ''Fullscreen'',
     canonical_row 11 ''scrolling'' ''[S]'' ''Scrolling'',
     canonical_row 12 ''vstack'' ''V[]'' ''V-Stack'',
     canonical_row 1 ''float'' ''><>'' ''Float'']"

text \<open>\<open>str::trim\<close> and ASCII lower case, on the ASCII strings of the catalog and the configuration.\<close>

definition is_space :: "char \<Rightarrow> bool" where
  "is_space c \<longleftrightarrow> c \<in> set [CHR '' '', CHR 0x09, CHR 0x0A, CHR 0x0B, CHR 0x0C, CHR 0x0D]"

definition trim :: "string \<Rightarrow> string" where
  "trim s = rev (dropWhile is_space (rev (dropWhile is_space s)))"

definition lower_char :: "char \<Rightarrow> char" where
  "lower_char c = (if 65 \<le> (of_char c :: nat) \<and> (of_char c :: nat) \<le> 90 then char_of ((of_char c :: nat) + 32) else c)"

definition to_ascii_lowercase :: "string \<Rightarrow> string" where
  "to_ascii_lowercase s = map lower_char s"

definition eq_ignore_ascii_case :: "string \<Rightarrow> string \<Rightarrow> bool" where
  "eq_ignore_ascii_case a b \<longleftrightarrow> to_ascii_lowercase a = to_ascii_lowercase b"

definition canonical_layout :: "nat \<Rightarrow> canonical_layout_row option" where
  "canonical_layout i = find (\<lambda>row. row_id row = i) canonical_layouts"

definition canonical_layout_by_name :: "string \<Rightarrow> canonical_layout_row option" where
  "canonical_layout_by_name name =
     (let name = trim name in find (\<lambda>row. eq_ignore_ascii_case (row_name row) name) canonical_layouts)"

definition canonical_layout_id :: "string \<Rightarrow> nat option" where
  "canonical_layout_id symbol =
     (let symbol = trim symbol in map_option row_id (find (\<lambda>row. row_symbol row = symbol) canonical_layouts))"

definition canonical_layout_symbol :: "nat \<Rightarrow> string option" where
  "canonical_layout_symbol i = map_option row_symbol (canonical_layout i)"

definition canonical_layout_count :: nat where
  "canonical_layout_count = length canonical_layouts"

definition max_layout_choices :: nat where "max_layout_choices = 256"

definition layout_is_offered :: "nat \<Rightarrow> nat option \<Rightarrow> bool" where
  "layout_is_offered i offered = (case offered of None \<Rightarrow> True | Some count \<Rightarrow> i < count)"

text \<open>The half-open range \<open>first_unknown .. last\<close>.\<close>

definition unknown_layout_ids :: "nat option \<Rightarrow> nat list" where
  "unknown_layout_ids offered =
     (let first_unknown = canonical_layout_count;
          last = min (case offered of None \<Rightarrow> canonical_layout_count | Some c \<Rightarrow> c) max_layout_choices
      in [first_unknown..<max last first_unknown])"

section \<open>LayoutEnum\<close>

datatype layout_enum = Layout_Enum (layout_name: string)

definition LAYOUT_TILE :: layout_enum where "LAYOUT_TILE = Layout_Enum ''tile''"
definition LAYOUT_FLOAT :: layout_enum where "LAYOUT_FLOAT = Layout_Enum ''float''"
definition LAYOUT_FIBONACCI :: layout_enum where "LAYOUT_FIBONACCI = Layout_Enum ''fibonacci''"
definition LAYOUT_ANY :: layout_enum where "LAYOUT_ANY = Layout_Enum []"

definition layout_canonical :: "layout_enum \<Rightarrow> canonical_layout_row option" where
  "layout_canonical l = canonical_layout_by_name (layout_name l)"

definition layout_symbol :: "layout_enum \<Rightarrow> string" where
  "layout_symbol l = (case layout_canonical l of None \<Rightarrow> [] | Some row \<Rightarrow> row_symbol row)"

definition layout_protocol_id :: "layout_enum \<Rightarrow> nat option" where
  "layout_protocol_id l = map_option row_id (layout_canonical l)"

definition layout_is_tile :: "layout_enum \<Rightarrow> bool" where
  "layout_is_tile l \<longleftrightarrow> layout_name l \<in> set [''tile'', ''fibonacci'', ''centeredmaster'', ''bstack'',
     ''grid'', ''deck'', ''threecol'', ''tatami'', ''fullscreen'', ''scrolling'', ''vstack'']"

definition layout_is_float :: "layout_enum \<Rightarrow> bool" where
  "layout_is_float l \<longleftrightarrow> layout_name l = ''float''"

definition layout_is_monocle :: "layout_enum \<Rightarrow> bool" where
  "layout_is_monocle l \<longleftrightarrow> layout_name l = ''monocle'' \<or> layout_name l = ''fullscreen''"

definition layout_is_fullscreen :: "layout_enum \<Rightarrow> bool" where
  "layout_is_fullscreen l \<longleftrightarrow> layout_name l = ''fullscreen''"

definition layout_cycle :: "layout_enum list" where
  "layout_cycle = map (\<lambda>row. Layout_Enum (row_name row)) canonical_layouts"

definition cycle_index :: "layout_enum \<Rightarrow> nat" where
  "cycle_index l = (case position (\<lambda>m. m = l) layout_cycle of None \<Rightarrow> 0 | Some i \<Rightarrow> i)"

definition cycle_next :: "layout_enum \<Rightarrow> layout_enum" where
  "cycle_next l = (let idx = (case position (\<lambda>m. m = l) layout_cycle of None \<Rightarrow> 0 | Some i \<Rightarrow> i)
     in layout_cycle ! ((idx + 1) mod length layout_cycle))"

definition cycle_prev :: "layout_enum \<Rightarrow> layout_enum" where
  "cycle_prev l = (let idx = (case position (\<lambda>m. m = l) layout_cycle of None \<Rightarrow> 0 | Some i \<Rightarrow> i)
     in layout_cycle ! ((idx + length layout_cycle - 1) mod length layout_cycle))"

definition layout_from_name :: "string \<Rightarrow> layout_enum option" where
  "layout_from_name name = (let name = to_ascii_lowercase (trim name)
     in find (\<lambda>l. layout_name l = name) layout_cycle)"

definition layout_label :: "layout_enum \<Rightarrow> string" where
  "layout_label l = (case layout_canonical l of None \<Rightarrow> ''Layout'' | Some row \<Rightarrow> row_label row)"

definition layout_from_id :: "nat \<Rightarrow> layout_enum" where
  "layout_from_id v = (case canonical_layout v of None \<Rightarrow> LAYOUT_ANY | Some row \<Rightarrow> Layout_Enum (row_name row))"

section \<open>The catalog is a bijection\<close>

text \<open>The catalog is closed data: its global facts are evaluated once, row by row.\<close>

lemma catalog_ids: "distinct (map row_id canonical_layouts)"
  by code_simp

lemma catalog_names: "distinct (map row_name canonical_layouts)"
  by code_simp

lemma catalog_rows_by_name:
  "list_all (\<lambda>row. canonical_layout_by_name (row_name row) = Some row) canonical_layouts"
  by code_simp

lemma catalog_rows_by_id:
  "list_all (\<lambda>row. canonical_layout (row_id row) = Some row) canonical_layouts"
  by code_simp

lemma cycle_steps:
  "list_all (\<lambda>l. cycle_prev (cycle_next l) = l \<and> cycle_next (cycle_prev l) = l \<and>
     layout_from_name (layout_name l) = Some l) layout_cycle"
  by code_simp

end
