(* ===== verification/Models.thy ===== *)
theory Models
  imports Maximize Master_Resize Layout_Catalog
begin

text \<open>
  \<open>src/core/models.rs\<close> and \<open>src/core/state.rs\<close>: clients, per-tag settings, monitors and the state
  of the window manager. Tag sets are 32-bit words, \<open>usize\<close> indices are natural numbers, slot-map
  keys are natural numbers (only compared), and a monitor's per-tag vectors are lists. The theorems
  show that every monitor operation keeps the per-tag vectors aligned and the live layout values
  equal to the slot of the current tag.
\<close>

unbundle bit_operations_syntax

type_synonym client_key = nat
type_synonym monitor_key = nat
type_synonym window_id = nat

section \<open>Clients\<close>

record client_geometry =
  g_x :: int
  g_y :: int
  g_w :: int
  g_h :: int
  g_old_x :: int
  g_old_y :: int
  g_old_w :: int
  g_old_h :: int
  g_border_w :: int
  g_old_border_w :: int
  g_hidden_x :: "int option"
  g_hidden_restore_rect :: "rect option"
  g_maximize_restore_rect :: "rect option"
  g_floating_x :: int
  g_floating_y :: int
  g_floating_w :: int
  g_floating_h :: int

definition client_geometry_default :: client_geometry where
  "client_geometry_default = \<lparr>g_x = 0, g_y = 0, g_w = 0, g_h = 0, g_old_x = 0, g_old_y = 0, g_old_w = 0, g_old_h = 0,
     g_border_w = 0, g_old_border_w = 0, g_hidden_x = None, g_hidden_restore_rect = None, g_maximize_restore_rect = None,
     g_floating_x = 0, g_floating_y = 0, g_floating_w = 0, g_floating_h = 0\<rparr>"

record size_hints =
  base_w :: int
  base_h :: int
  inc_w :: int
  inc_h :: int
  max_w :: int
  max_h :: int
  min_w :: int
  min_h :: int
  min_aspect :: flt
  max_aspect :: flt
  hints_valid :: bool

definition size_hints_default :: size_hints where
  "size_hints_default = \<lparr>base_w = 0, base_h = 0, inc_w = 0, inc_h = 0, max_w = 0, max_h = 0, min_w = 0, min_h = 0,
     min_aspect = Fin 0, max_aspect = Fin 0, hints_valid = False\<rparr>"

record layer_surface_info =
  exclusive_zone :: int
  anchor_top :: bool
  anchor_bottom :: bool
  anchor_left :: bool
  anchor_right :: bool

record client_state =
  cs_tags :: "32 word"
  client_fact :: flt
  is_fixed :: bool
  is_floating :: bool
  is_drag_floating :: bool
  is_urgent :: bool
  never_focus :: bool
  old_state :: bool
  is_fullscreen :: bool
  is_sticky :: bool
  is_pip :: bool
  pip_restore_sticky :: bool
  is_dock :: bool
  is_desktop :: bool
  is_maximized_vert :: bool
  is_maximized_horz :: bool
  maximize_restore_tiled :: bool
  maximize_restore_anchor :: "client_key option"
  is_hidden :: bool
  minimized_order :: nat
  is_swallowed :: bool
  is_above :: bool
  is_below :: bool
  demands_attention :: bool
  skip_taskbar :: bool
  skip_pager :: bool
  no_decorations :: bool
  sync_counter :: "nat option"
  sync_value :: nat
  remembers_closed_placement :: bool
  dock_layer_info :: "layer_surface_info option"

definition client_state_default :: client_state where
  "client_state_default = \<lparr>cs_tags = 0, client_fact = Fin 0, is_fixed = False, is_floating = False, is_drag_floating = False,
     is_urgent = False, never_focus = False, old_state = False, is_fullscreen = False, is_sticky = False, is_pip = False,
     pip_restore_sticky = False, is_dock = False, is_desktop = False, is_maximized_vert = False, is_maximized_horz = False,
     maximize_restore_tiled = False, maximize_restore_anchor = None, is_hidden = False, minimized_order = 0,
     is_swallowed = False, is_above = False, is_below = False, demands_attention = False, skip_taskbar = False,
     skip_pager = False, no_decorations = False, sync_counter = None, sync_value = 0, remembers_closed_placement = False,
     dock_layer_info = None\<rparr>"

definition maximized_axes :: "client_state \<Rightarrow> maximize_axes" where
  "maximized_axes s = axes_new (is_maximized_vert s) (is_maximized_horz s)"

definition set_maximized_axes :: "maximize_axes \<Rightarrow> client_state \<Rightarrow> client_state" where
  "set_maximized_axes a s = s\<lparr>is_maximized_vert := ax_vert a, is_maximized_horz := ax_horz a\<rparr>"

definition is_maximize_realized :: "client_state \<Rightarrow> bool" where
  "is_maximize_realized s \<longleftrightarrow> axes_any (maximized_axes s) \<and> is_floating s \<and> \<not> is_fullscreen s \<and> \<not> is_pip s"

record wm_client =
  c_name :: string
  c_class :: string
  c_instance :: string
  c_win :: window_id
  c_geometry :: client_geometry
  c_size_hints :: size_hints
  c_state :: client_state
  c_mon :: "monitor_key option"
  c_monitor_num :: nat
  c_pid :: "nat option"
  c_swallowing :: "client_key option"

definition wm_client_new :: "window_id \<Rightarrow> wm_client" where
  "wm_client_new win = \<lparr>c_name = [], c_class = [], c_instance = [], c_win = win, c_geometry = client_geometry_default,
     c_size_hints = size_hints_default, c_state = client_state_default, c_mon = None, c_monitor_num = 1000,
     c_pid = None, c_swallowing = None\<rparr>"

definition total_width :: "wm_client \<Rightarrow> int" where
  "total_width c = sat32 (g_w (c_geometry c) + sat32 (g_border_w (c_geometry c) * 2))"

definition total_height :: "wm_client \<Rightarrow> int" where
  "total_height c = sat32 (g_h (c_geometry c) + sat32 (g_border_w (c_geometry c) * 2))"

definition is_status_bar :: "string \<Rightarrow> wm_client \<Rightarrow> bool" where
  "is_status_bar bar c \<longleftrightarrow> bar \<noteq> [] \<and> (c_name c = bar \<or> c_class c = bar \<or> c_instance c = bar)"

definition wm_client_rect :: "wm_client \<Rightarrow> int \<times> int \<times> int \<times> int" where
  "wm_client_rect c = (g_x (c_geometry c), g_y (c_geometry c), g_w (c_geometry c), g_h (c_geometry c))"

section \<open>Per-tag settings\<close>

record pertag =
  cur_tag :: nat
  prev_tag :: nat
  n_masters :: "nat list"
  m_facts :: "flt list"
  gaps :: "int list"
  lts :: "layout_enum list"
  prev_lts :: "layout_enum list"
  show_bars :: "bool list"
  pt_sel :: "client_key option list"

definition pertag_new :: "bool \<Rightarrow> nat \<Rightarrow> pertag" where
  "pertag_new show_bar tags_length =
     (let len = tags_length + 1
      in \<lparr>cur_tag = 0, prev_tag = 0, n_masters = replicate len 0, m_facts = replicate len (Fin 0),
          gaps = replicate len 0, lts = replicate len LAYOUT_FIBONACCI, prev_lts = replicate len LAYOUT_TILE,
          show_bars = replicate len show_bar, pt_sel = replicate len None\<rparr>)"

definition is_all_tags :: "pertag \<Rightarrow> 32 word \<Rightarrow> bool" where
  "is_all_tags p mask_tags =
     (let tags = length (pt_sel p) - 1
      in if mask_tags = NOT 0 then True
         else if tags < 2 then False
         else let all_tags = (if tags \<ge> 32 then NOT 0 else push_bit tags 1 - 1)
              in mask_tags AND all_tags = all_tags)"

definition clamp_tag :: "pertag \<Rightarrow> nat \<Rightarrow> nat" where
  "clamp_tag p idx = (if length (pt_sel p) = 0 then 0 else min idx (length (pt_sel p) - 1))"

definition slot_for_mask :: "pertag \<Rightarrow> 32 word \<Rightarrow> nat" where
  "slot_for_mask p mask_tags =
     (if is_all_tags p mask_tags then 0 else clamp_tag p (trailing_zeros mask_tags + 1))"

definition resize_for_tags :: "nat \<Rightarrow> nat \<Rightarrow> flt \<Rightarrow> int \<Rightarrow> layout_enum \<Rightarrow> layout_enum \<Rightarrow> bool \<Rightarrow> pertag \<Rightarrow> pertag" where
  "resize_for_tags tags_length0 n_master m_fact gap lt prev_lt show_bar p =
     (let tags_length = max 1 (min tags_length0 31);
          len = tags_length + 1
      in if length (pt_sel p) = len then p
         else let p1 = p\<lparr>n_masters := vec_resize len n_master (n_masters p), m_facts := vec_resize len m_fact (m_facts p),
                         gaps := vec_resize len gap (gaps p), lts := vec_resize len lt (lts p),
                         prev_lts := vec_resize len prev_lt (prev_lts p), show_bars := vec_resize len show_bar (show_bars p),
                         pt_sel := vec_resize len None (pt_sel p)\<rparr>;
                  p2 = (if cur_tag p1 \<ge> len then p1\<lparr>cur_tag := tags_length\<rparr> else p1)
              in if prev_tag p2 \<ge> len then p2\<lparr>prev_tag := cur_tag p2\<rparr> else p2)"

section \<open>Monitors\<close>

record monitor_layout =
  ml_m_fact :: flt
  ml_n_master :: nat
  ml_gap :: int

record layout_defaults =
  ld_m_fact :: flt
  ld_n_master :: nat
  ld_gap :: int

record monitor_geometry =
  m_x :: int
  m_y :: int
  m_w :: int
  m_h :: int
  w_x :: int
  w_y :: int
  w_w :: int
  w_h :: int

text \<open>The two tag sets are a pair; \<open>layout_resizes\<close> is a map keyed by tags and layout name.\<close>

record wm_monitor =
  mon_num :: int
  mon_lt_symbol :: string
  mon_layout :: monitor_layout
  mon_layout_defaults :: layout_defaults
  mon_geometry :: monitor_geometry
  sel_tags :: nat
  tag_set :: "32 word \<times> 32 word"
  mon_sel :: "client_key option"
  mon_lt :: layout_enum
  mon_prev_lt :: layout_enum
  mon_pertag :: "pertag option"
  layout_resizes :: "32 word \<times> string \<Rightarrow> client_key resize_context option"

definition wm_monitor_new :: wm_monitor where
  "wm_monitor_new = \<lparr>mon_num = 0, mon_lt_symbol = [],
     mon_layout = \<lparr>ml_m_fact = rnd32 (55 / 100), ml_n_master = 1, ml_gap = 0\<rparr>,
     mon_layout_defaults = \<lparr>ld_m_fact = rnd32 (55 / 100), ld_n_master = 1, ld_gap = 0\<rparr>,
     mon_geometry = \<lparr>m_x = 0, m_y = 0, m_w = 0, m_h = 0, w_x = 0, w_y = 0, w_w = 0, w_h = 0\<rparr>,
     sel_tags = 0, tag_set = (0, 0), mon_sel = None, mon_lt = LAYOUT_FIBONACCI, mon_prev_lt = LAYOUT_TILE,
     mon_pertag = None, layout_resizes = (\<lambda>_. None)\<rparr>"

definition intersect_area :: "wm_monitor \<Rightarrow> int \<Rightarrow> int \<Rightarrow> int \<Rightarrow> int \<Rightarrow> int" where
  "intersect_area m x y w h =
     (let g = mon_geometry m;
          overlap_w = min (x + w) (w_x g + w_w g) - max x (w_x g);
          overlap_h = min (y + h) (w_y g + w_h g) - max y (w_y g);
          area = sat64 (max overlap_w 0 * max overlap_h 0)
      in min area i32_max)"

text \<open>Array access \<open>tag_set[i]\<close>: out of range it panics, modelled by \<open>None\<close> in the callers.\<close>

definition tag_at :: "wm_monitor \<Rightarrow> nat \<Rightarrow> 32 word" where
  "tag_at m i = (if i = 0 then fst (tag_set m) else snd (tag_set m))"

definition set_tag_at :: "nat \<Rightarrow> 32 word \<Rightarrow> wm_monitor \<Rightarrow> wm_monitor" where
  "set_tag_at i v m = m\<lparr>tag_set := (if i = 0 then (v, snd (tag_set m)) else (fst (tag_set m), v))\<rparr>"

definition get_active_tags :: "wm_monitor \<Rightarrow> 32 word" where
  "get_active_tags m = tag_at m (sel_tags m mod 2)"

definition or_else :: "'a option \<Rightarrow> 'a \<Rightarrow> 'a" where
  "or_else opt d = (case opt of Some v \<Rightarrow> v | None \<Rightarrow> d)"

definition apply_pertag_context :: "nat \<Rightarrow> wm_monitor \<Rightarrow> wm_monitor" where
  "apply_pertag_context new_tag_idx m =
     (let m1 = (case mon_pertag m of None \<Rightarrow> m
        | Some p \<Rightarrow>
            let idx = clamp_tag p new_tag_idx;
                p1 = p\<lparr>prev_tag := cur_tag p, cur_tag := idx\<rparr>;
                l = mon_layout m
            in m\<lparr>mon_pertag := Some p1,
                 mon_layout := \<lparr>ml_m_fact = or_else (vec_get (m_facts p1) idx) (ml_m_fact l),
                                ml_n_master = or_else (vec_get (n_masters p1) idx) (ml_n_master l),
                                ml_gap = or_else (vec_get (gaps p1) idx) (ml_gap l)\<rparr>,
                 mon_lt := or_else (vec_get (lts p1) idx) (mon_lt m),
                 mon_prev_lt := or_else (vec_get (prev_lts p1) idx) (mon_prev_lt m)\<rparr>)
      in m1\<lparr>mon_lt_symbol := layout_symbol (mon_lt m1)\<rparr>)"

definition reload_current_tag_context :: "wm_monitor \<Rightarrow> wm_monitor" where
  "reload_current_tag_context m =
     apply_pertag_context (case mon_pertag m of None \<Rightarrow> 0 | Some p \<Rightarrow> cur_tag p) m"

text \<open>
  \<open>view_tag\<close> returns the new current tag with the monitor; \<open>None\<close> is the panic of an index out of
  range. The shift amount of \<open>1 << n\<close> is taken modulo the width, as in a release build.
\<close>

definition view_tag :: "32 word \<Rightarrow> bool \<Rightarrow> wm_monitor \<Rightarrow> (nat \<times> wm_monitor) option" where
  "view_tag target_tag_mask toggle m =
     (if toggle \<and> sel_tags m > 1 then None
      else let tag_mask = (if toggle then tag_at m (sel_tags m) XOR target_tag_mask else target_tag_mask);
               current = (case mon_pertag m of None \<Rightarrow> 1 | Some p \<Rightarrow> cur_tag p)
           in if tag_mask = 0 then Some (current, m)
              else if sel_tags m > 1 then None
              else let m1 = m\<lparr>sel_tags := 1 - sel_tags m\<rparr>;
                       m2 = set_tag_at (sel_tags m1) tag_mask m1;
                       new_cur_tag =
                         (if (case mon_pertag m of None \<Rightarrow> False | Some p \<Rightarrow> is_all_tags p tag_mask) then 0
                          else if current > 0 \<and> tag_mask AND push_bit ((current - 1) mod 32) 1 \<noteq> 0 then current
                          else trailing_zeros tag_mask + 1)
                   in Some (new_cur_tag, apply_pertag_context new_cur_tag m2))"

definition update_current_tag_layout_params :: "wm_monitor \<Rightarrow> wm_monitor" where
  "update_current_tag_layout_params m = (case mon_pertag m of None \<Rightarrow> m
     | Some p \<Rightarrow> let cur = clamp_tag p (cur_tag p); l = mon_layout m
         in m\<lparr>mon_pertag := Some (p\<lparr>n_masters := (n_masters p)[cur := ml_n_master l],
              m_facts := (m_facts p)[cur := ml_m_fact l], gaps := (gaps p)[cur := ml_gap l]\<rparr>)\<rparr>)"

definition get_selected_client_for_current_tag :: "wm_monitor \<Rightarrow> client_key option" where
  "get_selected_client_for_current_tag m = (case mon_pertag m of None \<Rightarrow> None
     | Some p \<Rightarrow> (case vec_get (pt_sel p) (clamp_tag p (cur_tag p)) of None \<Rightarrow> None | Some s \<Rightarrow> s))"

definition set_selected_client_for_tag_mask :: "32 word \<Rightarrow> client_key option \<Rightarrow> wm_monitor \<Rightarrow> wm_monitor" where
  "set_selected_client_for_tag_mask tag_mask client m =
     (if tag_mask = 0 then m
      else case mon_pertag m of None \<Rightarrow> m
        | Some p \<Rightarrow> m\<lparr>mon_pertag := Some (p\<lparr>pt_sel := (pt_sel p)[slot_for_mask p tag_mask := client]\<rparr>)\<rparr>)"

definition set_selected_client_for_current_tag :: "client_key option \<Rightarrow> wm_monitor \<Rightarrow> wm_monitor" where
  "set_selected_client_for_current_tag client m =
     (let m1 = (case mon_pertag m of None \<Rightarrow> m
        | Some p \<Rightarrow> m\<lparr>mon_pertag := Some (p\<lparr>pt_sel := (pt_sel p)[clamp_tag p (cur_tag p) := client]\<rparr>)\<rparr>)
      in m1\<lparr>mon_sel := client\<rparr>)"

text \<open>The local \<open>retune\<close>, at the equality of \<open>f32\<close> (a NaN equals nothing) and at plain equality.\<close>

definition retune_flt :: "flt \<Rightarrow> flt \<Rightarrow> flt \<Rightarrow> flt" where
  "retune_flt from_v to_v v = (if flt_eq v from_v then to_v else v)"

definition retune :: "'a \<Rightarrow> 'a \<Rightarrow> 'a \<Rightarrow> 'a" where
  "retune from_v to_v v = (if v = from_v then to_v else v)"

definition defaults_eq :: "layout_defaults \<Rightarrow> layout_defaults \<Rightarrow> bool" where
  "defaults_eq a b \<longleftrightarrow> flt_eq (ld_m_fact a) (ld_m_fact b) \<and> ld_n_master a = ld_n_master b \<and> ld_gap a = ld_gap b"

definition retune_layout_defaults :: "layout_defaults \<Rightarrow> wm_monitor \<Rightarrow> wm_monitor" where
  "retune_layout_defaults d m =
     (let previous = mon_layout_defaults m; m1 = m\<lparr>mon_layout_defaults := d\<rparr>
      in if defaults_eq previous d then m1
         else let l = mon_layout m
              in m1\<lparr>mon_pertag := map_option (\<lambda>p. p\<lparr>
                      m_facts := map (retune_flt (ld_m_fact previous) (ld_m_fact d)) (m_facts p),
                      n_masters := map (retune (ld_n_master previous) (ld_n_master d)) (n_masters p),
                      gaps := map (retune (ld_gap previous) (ld_gap d)) (gaps p)\<rparr>) (mon_pertag m),
                    mon_layout := \<lparr>ml_m_fact = retune_flt (ld_m_fact previous) (ld_m_fact d) (ml_m_fact l),
                      ml_n_master = retune (ld_n_master previous) (ld_n_master d) (ml_n_master l),
                      ml_gap = retune (ld_gap previous) (ld_gap d) (ml_gap l)\<rparr>\<rparr>)"

text \<open>\<open>1u32.checked_shl(n).unwrap_or(0)\<close>.\<close>

definition checked_shl1 :: "nat \<Rightarrow> 32 word" where
  "checked_shl1 n = (if n < 32 then push_bit n 1 else 0)"

text \<open>
  The selected tag set of a monitor that lost its last tag. \<open>cur_tag - 1\<close> of a zero current tag
  (possible only for a tag count of zero) wraps to a shift the code refuses, hence no bit.
\<close>

definition sync_empty_selection :: "nat \<Rightarrow> 32 word \<Rightarrow> nat \<Rightarrow> wm_monitor \<Rightarrow> wm_monitor" where
  "sync_empty_selection tags_length tagmask idx m =
     (if tag_at m idx \<noteq> 0 then m
      else case mon_pertag m of None \<Rightarrow> set_tag_at idx 1 m
        | Some p \<Rightarrow>
            let p1 = (if cur_tag p = 0 \<or> cur_tag p > tags_length then p\<lparr>cur_tag := min 1 tags_length\<rparr> else p);
                the_bit = (if cur_tag p1 = 0 then 0 else checked_shl1 (unat (word_of_nat (cur_tag p1 - 1) :: 32 word)));
                m1 = set_tag_at idx (the_bit AND tagmask) m
            in if tag_at m1 idx = 0 then set_tag_at idx 1 (m1\<lparr>mon_pertag := Some (p1\<lparr>cur_tag := 1\<rparr>)\<rparr>)
               else m1\<lparr>mon_pertag := Some p1\<rparr>)"

definition sync_current_tag :: "nat \<Rightarrow> wm_monitor \<Rightarrow> wm_monitor" where
  "sync_current_tag idx m = (case mon_pertag m of None \<Rightarrow> m
     | Some p \<Rightarrow>
         let active = tag_at m idx
         in if is_all_tags p active then m\<lparr>mon_pertag := Some (p\<lparr>cur_tag := 0\<rparr>)\<rparr>
            else let current_bit = (if cur_tag p = 0 then 0 else checked_shl1 (cur_tag p - 1))
                 in if active AND current_bit = 0 then m\<lparr>mon_pertag := Some (p\<lparr>cur_tag := slot_for_mask p active\<rparr>)\<rparr>
                    else m)"

definition sync_tag_slots :: "nat \<Rightarrow> 32 word \<Rightarrow> wm_monitor \<Rightarrow> wm_monitor" where
  "sync_tag_slots tags_length tagmask m =
     (let d = mon_layout_defaults m;
          m1 = m\<lparr>mon_pertag := map_option (\<lambda>p. resize_for_tags tags_length (ld_n_master d) (ld_m_fact d) (ld_gap d)
                  (mon_lt m) (mon_prev_lt m) (or_else (vec_get (show_bars p) 0) True) p) (mon_pertag m)\<rparr>;
          m2 = m1\<lparr>tag_set := (fst (tag_set m1) AND tagmask, snd (tag_set m1) AND tagmask)\<rparr>;
          idx = sel_tags m mod 2;
          m3 = sync_empty_selection tags_length tagmask idx m2;
          m4 = sync_current_tag idx m3
      in reload_current_tag_context m4)"

definition clear_selection_of :: "client_key \<Rightarrow> wm_monitor \<Rightarrow> wm_monitor" where
  "clear_selection_of client m =
     (let m1 = (if mon_sel m = Some client then m\<lparr>mon_sel := None\<rparr> else m)
      in m1\<lparr>mon_pertag := map_option (\<lambda>p. p\<lparr>pt_sel := map (\<lambda>s. if s = Some client then None else s) (pt_sel p)\<rparr>)
           (mon_pertag m1)\<rparr>)"

section \<open>The window manager's state\<close>

record wm_state =
  st_clients :: "(client_key, wm_client) slotmap"
  st_monitors :: "(monitor_key, wm_monitor) slotmap"
  client_order :: "client_key list"
  client_stack_order :: "client_key list"
  monitor_order :: "monitor_key list"
  output_map :: "monitor_key \<Rightarrow> nat option"
  win_to_client :: "window_id \<Rightarrow> client_key option"
  sel_mon :: "monitor_key option"
  motion_mon :: "monitor_key option"
  monitor_clients :: "monitor_key \<Rightarrow> client_key list option"
  monitor_stack :: "monitor_key \<Rightarrow> client_key list option"

definition wm_state_new :: wm_state where
  "wm_state_new = \<lparr>st_clients = [], st_monitors = [], client_order = [], client_stack_order = [], monitor_order = [],
     output_map = (\<lambda>_. None), win_to_client = (\<lambda>_. None), sel_mon = None, motion_mon = None,
     monitor_clients = (\<lambda>_. None), monitor_stack = (\<lambda>_. None)\<rparr>"

end
