(* ===== verification/Client_Stack.thy ===== *)
theory Client_Stack
  imports Models
begin

text \<open>
  The per-monitor client list and focus stack: \<open>src/jwm/client_stack.rs\<close>, the list operations of
  \<open>src/jwm/maximize.rs\<close> (anchors of promoted windows, \<open>move_to_front\<close>, \<open>retile_before_anchor\<close>) and the
  visibility queries of \<open>src/jwm.rs\<close>. The list keeps tiled windows ahead of floating ones, and a
  window that maximize took out of the tiles remembers the window it stood in front of.
\<close>

section \<open>Queries\<close>

definition is_client_floating :: "wm_state \<Rightarrow> client_key \<Rightarrow> bool" where
  "is_client_floating s k = (case slot_get (st_clients s) k of None \<Rightarrow> False | Some c \<Rightarrow> is_floating (c_state c))"

definition client_mon :: "wm_state \<Rightarrow> client_key \<Rightarrow> monitor_key option" where
  "client_mon s k = (case slot_get (st_clients s) k of None \<Rightarrow> None | Some c \<Rightarrow> c_mon c)"

definition get_monitor_stack :: "wm_state \<Rightarrow> monitor_key \<Rightarrow> client_key list" where
  "get_monitor_stack s m = or_else (monitor_stack s m) []"

definition is_client_visible_on_monitor :: "wm_state \<Rightarrow> client_key \<Rightarrow> monitor_key \<Rightarrow> bool" where
  "is_client_visible_on_monitor s k m =
     (case (slot_get (st_clients s) k, slot_get (st_monitors s) m) of
        (Some c, Some mon) \<Rightarrow>
          if is_swallowed (c_state c) \<or> is_hidden (c_state c) then False
          else is_sticky (c_state c) \<or> cs_tags (c_state c) AND get_active_tags mon > 0
      | _ \<Rightarrow> False)"

definition is_client_visible_by_key :: "wm_state \<Rightarrow> client_key \<Rightarrow> bool" where
  "is_client_visible_by_key s k =
     (case slot_get (st_clients s) k of
        None \<Rightarrow> False
      | Some c \<Rightarrow>
          if is_swallowed (c_state c) \<or> is_hidden (c_state c) then False
          else (case c_mon c of
                  None \<Rightarrow> False
                | Some m \<Rightarrow> (case slot_get (st_monitors s) m of
                      None \<Rightarrow> False
                    | Some mon \<Rightarrow> is_sticky (c_state c) \<or> cs_tags (c_state c) AND get_active_tags mon > 0)))"

definition find_next_visible_client_by_mon :: "wm_state \<Rightarrow> monitor_key \<Rightarrow> client_key option" where
  "find_next_visible_client_by_mon s m =
     (case monitor_stack s m of
        None \<Rightarrow> None
      | Some stack \<Rightarrow> List.find (\<lambda>k. slot_get (st_clients s) k \<noteq> None \<and> is_client_visible_on_monitor s k m) stack)"

section \<open>The chain of anchors\<close>

text \<open>
  \<open>resting_anchor\<close> follows the anchors for at most as many steps as the list is long; the first
  argument counts the steps left.
\<close>

primrec resting_anchor_loop :: "nat \<Rightarrow> wm_state \<Rightarrow> client_key list \<Rightarrow> client_key \<Rightarrow> client_key option \<Rightarrow> client_key option" where
  "resting_anchor_loop 0 s list k anchor = None"
| "resting_anchor_loop (Suc n) s list k anchor =
     (case anchor of
        None \<Rightarrow> None
      | Some a \<Rightarrow>
          if a = k \<or> a \<notin> set list then None
          else (case slot_get (st_clients s) a of
                  None \<Rightarrow> None
                | Some c \<Rightarrow>
                    if \<not> is_floating (c_state c) then Some a
                    else if \<not> maximize_restore_tiled (c_state c) then None
                    else resting_anchor_loop n s list k (maximize_restore_anchor (c_state c))))"

definition resting_anchor :: "wm_state \<Rightarrow> client_key list \<Rightarrow> client_key \<Rightarrow> client_key option \<Rightarrow> client_key option" where
  "resting_anchor s list k anchor = resting_anchor_loop (length list) s list k anchor"

text \<open>The closure \<open>promoted_anchor\<close>: the recorded anchor of a window maximize promoted.\<close>

definition promoted_anchor :: "wm_state \<Rightarrow> client_key \<Rightarrow> client_key option option" where
  "promoted_anchor s k =
     (case slot_get (st_clients s) k of
        None \<Rightarrow> None
      | Some c \<Rightarrow> if maximize_restore_tiled (c_state c) \<and> is_floating (c_state c)
                  then Some (maximize_restore_anchor (c_state c)) else None)"

definition restore_anchor_after :: "wm_state \<Rightarrow> monitor_key \<Rightarrow> client_key \<Rightarrow> client_key option" where
  "restore_anchor_after s m k =
     (case monitor_clients s m of
        None \<Rightarrow> None
      | Some clients \<Rightarrow>
          (case position (\<lambda>x. x = k) clients of
             None \<Rightarrow> None
           | Some pos \<Rightarrow>
               let tile = List.find (\<lambda>x. case slot_get (st_clients s) x of None \<Rightarrow> False | Some c \<Rightarrow> \<not> is_floating (c_state c))
                            (drop (pos + 1) clients);
                   resting_before_tile =
                     filter (\<lambda>x. x \<noteq> k \<and> (case promoted_anchor s x of None \<Rightarrow> False
                                             | Some a \<Rightarrow> resting_anchor s clients x a = tile)) clients;
                   first = List.find (\<lambda>x. \<not> (\<exists>y \<in> set resting_before_tile. promoted_anchor s y = Some (Some x)))
                             resting_before_tile
               in case first of Some x \<Rightarrow> Some x | None \<Rightarrow> tile))"

definition client_state_update :: "client_key \<Rightarrow> (client_state \<Rightarrow> client_state) \<Rightarrow> wm_state \<Rightarrow> wm_state" where
  "client_state_update k f s = s\<lparr>st_clients := slot_update k (\<lambda>c. c\<lparr>c_state := f (c_state c)\<rparr>) (st_clients s)\<rparr>"

definition splice_restore_anchors :: "monitor_key \<Rightarrow> client_key \<Rightarrow> wm_state \<Rightarrow> wm_state" where
  "splice_restore_anchors m k s =
     (case slot_get (st_clients s) k of
        None \<Rightarrow> s
      | Some departing \<Rightarrow>
          let floating = is_floating (c_state departing);
              promoted = (maximize_restore_tiled (c_state departing) \<and> floating);
              own_anchor = maximize_restore_anchor (c_state departing);
              anchored = filter (\<lambda>x. x \<noteq> k \<and> (case slot_get (st_clients s) x of None \<Rightarrow> False
                                      | Some c \<Rightarrow> maximize_restore_anchor (c_state c) = Some k))
                           (or_else (monitor_clients s m) [])
          in if anchored = [] then s
             else let successor = (if promoted then own_anchor else if floating then None
                                   else restore_anchor_after s m k)
                  in fold (\<lambda>x. client_state_update x (\<lambda>st. st\<lparr>maximize_restore_anchor :=
                        (case successor of None \<Rightarrow> None | Some a \<Rightarrow> if a \<noteq> x then Some a else None)\<rparr>))
                      anchored s)"

section \<open>The client list\<close>

datatype new_client_position = Master | Tail | AfterFocused

definition new_client_insert_index :: "new_client_position \<Rightarrow> nat \<Rightarrow> nat \<Rightarrow> bool \<Rightarrow> nat option \<Rightarrow> nat" where
  "new_client_insert_index policy len first_floating floats sel_index =
     (let ff = min first_floating len;
          (group_start, group_end) = (if floats then (ff, len) else (0, ff))
      in case policy of
           AfterFocused \<Rightarrow> (case sel_index of
               Some idx \<Rightarrow> if group_start \<le> idx \<and> idx < group_end then idx + 1 else group_start
             | None \<Rightarrow> group_start)
         | _ \<Rightarrow> group_start)"

definition set_clients :: "monitor_key \<Rightarrow> client_key list \<Rightarrow> wm_state \<Rightarrow> wm_state" where
  "set_clients m l s = s\<lparr>monitor_clients := (monitor_clients s)(m \<mapsto> l)\<rparr>"

definition set_stack :: "monitor_key \<Rightarrow> client_key list \<Rightarrow> wm_state \<Rightarrow> wm_state" where
  "set_stack m l s = s\<lparr>monitor_stack := (monitor_stack s)(m \<mapsto> l)\<rparr>"

text \<open>\<open>if let Some(pos) = list.iter().position(|&key| key == k) { list.remove(pos); }\<close>.\<close>

definition remove_first :: "client_key \<Rightarrow> client_key list \<Rightarrow> client_key list" where
  "remove_first k l = (case position (\<lambda>x. x = k) l of None \<Rightarrow> l | Some pos \<Rightarrow> vec_remove pos l)"

definition reorder_client_in_monitor_groups :: "client_key \<Rightarrow> wm_state \<Rightarrow> wm_state" where
  "reorder_client_in_monitor_groups k s =
     (case client_mon s k of
        None \<Rightarrow> s
      | Some m \<Rightarrow>
          (case monitor_clients s m of
             None \<Rightarrow> s
           | Some l \<Rightarrow>
               (case position (\<lambda>x. x = k) l of
                  None \<Rightarrow> s
                | Some pos \<Rightarrow>
                    let l1 = vec_remove pos l
                    in if is_client_floating s k then set_clients m (l1 @ [k]) s
                       else set_clients m (vec_insert (or_else (position (is_client_floating s) l1) (length l1)) k l1) s)))"

definition attach_back :: "client_key \<Rightarrow> wm_state \<Rightarrow> wm_state" where
  "attach_back k s =
     reorder_client_in_monitor_groups k
       (case client_mon s k of
          None \<Rightarrow> s
        | Some m \<Rightarrow> (case monitor_clients s m of None \<Rightarrow> s | Some l \<Rightarrow> set_clients m (l @ [k]) s))"

definition attach_new_client :: "new_client_position \<Rightarrow> client_key \<Rightarrow> wm_state \<Rightarrow> wm_state" where
  "attach_new_client pos k s =
     (if pos = Tail then attach_back k s
      else case client_mon s k of
             None \<Rightarrow> s
           | Some m \<Rightarrow>
               let floating = is_client_floating s k
               in case monitor_clients s m of
                    None \<Rightarrow> s
                  | Some l \<Rightarrow>
                      let first_floating = or_else (position (is_client_floating s) l) (length l);
                          sel = (case slot_get (st_monitors s) m of None \<Rightarrow> None | Some mon \<Rightarrow> mon_sel mon);
                          sel_index = (case sel of
                             None \<Rightarrow> None
                           | Some x \<Rightarrow> if x \<noteq> k \<and> is_client_floating s x = floating
                                       then position (\<lambda>y. y = x) l else None)
                      in set_clients m (vec_insert (new_client_insert_index pos (length l) first_floating floating sel_index) k l) s)"

definition detach :: "client_key \<Rightarrow> wm_state \<Rightarrow> wm_state" where
  "detach k s =
     (case client_mon s k of
        None \<Rightarrow> s
      | Some m \<Rightarrow>
          let s1 = splice_restore_anchors m k s
          in case monitor_clients s1 m of None \<Rightarrow> s1 | Some l \<Rightarrow> set_clients m (remove_first k l) s1)"

definition attachstack :: "client_key \<Rightarrow> wm_state \<Rightarrow> wm_state" where
  "attachstack k s =
     (case client_mon s k of
        None \<Rightarrow> s
      | Some m \<Rightarrow> (case monitor_stack s m of None \<Rightarrow> s | Some l \<Rightarrow> set_stack m (vec_insert 0 k l) s))"

definition detach_from_monitor :: "client_key \<Rightarrow> monitor_key \<Rightarrow> wm_state \<Rightarrow> wm_state" where
  "detach_from_monitor k m s =
     (let s1 = splice_restore_anchors m k s;
          s2 = (case monitor_clients s1 m of None \<Rightarrow> s1 | Some l \<Rightarrow> set_clients m (filter (\<lambda>x. x \<noteq> k) l) s1)
      in case monitor_stack s2 m of None \<Rightarrow> s2 | Some l \<Rightarrow> set_stack m (filter (\<lambda>x. x \<noteq> k) l) s2)"

definition attach_to_monitor :: "client_key \<Rightarrow> monitor_key \<Rightarrow> wm_state \<Rightarrow> wm_state" where
  "attach_to_monitor k m s =
     (let s1 = (case monitor_clients s m of None \<Rightarrow> s | Some l \<Rightarrow> set_clients m (l @ [k]) s);
          s2 = (case monitor_stack s1 m of None \<Rightarrow> s1 | Some l \<Rightarrow> set_stack m (vec_insert 0 k l) s1)
      in reorder_client_in_monitor_groups k s2)"

definition detachstack :: "client_key \<Rightarrow> wm_state \<Rightarrow> wm_state" where
  "detachstack k s =
     (case client_mon s k of
        None \<Rightarrow> s
      | Some m \<Rightarrow>
          let s1 = (case monitor_stack s m of None \<Rightarrow> s | Some l \<Rightarrow> set_stack m (remove_first k l) s);
              next_visible_client = find_next_visible_client_by_mon s1 m
          in s1\<lparr>st_monitors := slot_update m (\<lambda>mon. if mon_sel mon = Some k then mon\<lparr>mon_sel := next_visible_client\<rparr> else mon)
                  (st_monitors s1)\<rparr>)"

definition move_to_front :: "client_key \<Rightarrow> wm_state \<Rightarrow> wm_state" where
  "move_to_front k s =
     (case client_mon s k of
        None \<Rightarrow> s
      | Some m \<Rightarrow>
          let floating = is_client_floating s k;
              s1 = (if floating then s else splice_restore_anchors m k s)
          in case monitor_clients s1 m of
               None \<Rightarrow> s1
             | Some l \<Rightarrow>
                 let l1 = remove_first k l;
                     index = (if floating then or_else (position (is_client_floating s1) l1) (length l1) else 0)
                 in set_clients m (vec_insert index k l1) s1)"

definition retile_before_anchor :: "monitor_key \<Rightarrow> client_key \<Rightarrow> client_key option \<Rightarrow> wm_state \<Rightarrow> bool \<times> wm_state" where
  "retile_before_anchor m k anchor s =
     (case monitor_clients s m of
        None \<Rightarrow> (False, s)
      | Some l \<Rightarrow>
          (case resting_anchor s l k anchor of
             None \<Rightarrow> (False, s)
           | Some target \<Rightarrow>
               (case (position (\<lambda>x. x = k) l, position (\<lambda>x. x = target) l) of
                  (Some from, Some to) \<Rightarrow>
                    (True, set_clients m (vec_insert (if from < to then to - 1 else to) (l ! from) (vec_remove from l)) s)
                | _ \<Rightarrow> (False, s))))"

end
