(* ===== verification/Client_Lists.thy ===== *)
theory Client_Lists
  imports Client_Stack
begin

text \<open>
  The invariant of the client lists and focus stacks of \<open>Client_Stack\<close>: tiled windows first, every
  window listed once and on its own monitor, kept by every combination of the list operations.
\<close>

section \<open>Tiled windows first\<close>

definition tiled_first :: "(client_key \<Rightarrow> bool) \<Rightarrow> client_key list \<Rightarrow> bool" where
  "tiled_first fl l \<longleftrightarrow> sorted_wrt (\<lambda>a b. fl a \<longrightarrow> fl b) l"

text \<open>The boundary between the groups: \<open>position(is_floating).unwrap_or(len)\<close>.\<close>

definition boundary :: "(client_key \<Rightarrow> bool) \<Rightarrow> client_key list \<Rightarrow> nat" where
  "boundary fl l = or_else (position fl l) (length l)"

lemma boundary_le: "boundary fl l \<le> length l"
  using position_SomeD [of fl l] by (cases "position fl l") (auto simp: boundary_def or_else_def)

lemma boundary_take: "x \<in> set (take (boundary fl l) l) \<Longrightarrow> \<not> fl x"
  using position_SomeD [of fl l] position_None_iff [of fl l]
  by (cases "position fl l") (auto simp: boundary_def or_else_def in_set_conv_nth)

lemma boundary_drop: "tiled_first fl l \<Longrightarrow> x \<in> set (drop (boundary fl l) l) \<Longrightarrow> fl x"
proof (cases "position fl l")
  case (Some i)
  assume a: "tiled_first fl l" "x \<in> set (drop (boundary fl l) l)"
  from a(2) Some obtain j where "j < length l - i" and j2: "x = l ! (i + j)"
    by (auto simp: boundary_def or_else_def in_set_conv_nth)
  then have j: "i + j < length l" "x = l ! (i + j)" by simp_all
  then show ?thesis using position_SomeD [OF Some] a(1) sorted_wrt_nth_less [of "\<lambda>a b. fl a \<longrightarrow> fl b" l i "i + j"]
    by (cases "j = 0") (simp_all add: tiled_first_def)
qed (simp add: boundary_def or_else_def)

lemma tiled_first_insert:
  assumes "tiled_first fl l" "if fl k then boundary fl l \<le> i else i \<le> boundary fl l"
  shows "tiled_first fl (vec_insert i k l)"
proof -
  have "sorted_wrt (\<lambda>a b. fl a \<longrightarrow> fl b) (take i l @ drop i l)"
    using assms(1) by (simp add: tiled_first_def)
  then have s: "sorted_wrt (\<lambda>a b. fl a \<longrightarrow> fl b) (take i l)" "sorted_wrt (\<lambda>a b. fl a \<longrightarrow> fl b) (drop i l)"
    "\<forall>x \<in> set (take i l). \<forall>y \<in> set (drop i l). fl x \<longrightarrow> fl y" unfolding sorted_wrt_append by blast+
  have "fl x" if "fl k" "x \<in> set (drop i l)" for x
    using boundary_drop [OF assms(1)] that assms(2) set_drop_subset_set_drop [of "boundary fl l" i l] by auto
  moreover have "\<not> fl x" if "\<not> fl k" "x \<in> set (take i l)" for x
    using boundary_take that assms(2) set_take_subset_set_take [of i "boundary fl l" l] by auto
  ultimately show ?thesis
    using s unfolding tiled_first_def vec_insert_def sorted_wrt_append sorted_wrt.simps set_simps by blast
qed

lemma tiled_first_append_floating: "tiled_first fl l \<Longrightarrow> fl k \<Longrightarrow> tiled_first fl (l @ [k])"
  by (simp add: tiled_first_def sorted_wrt_append)

lemma tiled_first_filter: "tiled_first fl l \<Longrightarrow> tiled_first fl (filter p l)"
  by (simp add: tiled_first_def sorted_wrt_filter)

lemma tiled_first_cong: "(\<And>x. x \<in> set l \<Longrightarrow> fl x = fl' x) \<Longrightarrow> tiled_first fl l = tiled_first fl' l"
  unfolding tiled_first_def by (metis (mono_tags, lifting) sorted_wrt_mono_rel)

lemma remove_first_remove1: "remove_first k l = remove1 k l"
proof (induction l)
  case (Cons x l)
  then show ?case by (auto simp: remove_first_def vec_remove_def split: option.splits)
qed (simp add: remove_first_def)

lemma remove_first_filter: "distinct l \<Longrightarrow> remove_first k l = filter (\<lambda>x. x \<noteq> k) l"
  by (simp add: remove_first_remove1 distinct_remove1_removeAll removeAll_filter_not_eq) (rule filter_cong, auto)

lemma set_remove_first: "distinct l \<Longrightarrow> set (remove_first k l) = set l - {k} \<and> distinct (remove_first k l)"
  by (simp add: remove_first_remove1)

lemma filter_remove_first: "filter (\<lambda>x. x \<noteq> k) (remove_first k l) = filter (\<lambda>x. x \<noteq> k) l"
  unfolding remove_first_remove1 by (induction l) auto

lemma vec_remove_position: "position (\<lambda>x. x = k) l = Some pos \<Longrightarrow> vec_remove pos l = remove_first k l"
  by (simp add: remove_first_def)

lemma position_in_set: "position (\<lambda>x. x = k) l = Some pos \<Longrightarrow> k \<in> set l"
  using position_SomeD [of "\<lambda>x. x = k" l pos] by auto

section \<open>What an operation leaves alone\<close>

lemma client_state_update_simps [simp]:
  "monitor_clients (client_state_update k f s) = monitor_clients s"
  "monitor_stack (client_state_update k f s) = monitor_stack s"
  "st_monitors (client_state_update k f s) = st_monitors s"
  by (simp_all add: client_state_update_def)

lemma slot_get_client_state_update:
  "slot_get (st_clients (client_state_update k f s)) x =
     (if x = k then map_option (\<lambda>c. c\<lparr>c_state := f (c_state c)\<rparr>) (slot_get (st_clients s) k) else slot_get (st_clients s) x)"
  by (simp add: client_state_update_def slot_simps)

text \<open>Two states agree up to the recorded anchors.\<close>

definition same_but_anchors :: "wm_state \<Rightarrow> wm_state \<Rightarrow> bool" where
  "same_but_anchors s t \<longleftrightarrow> monitor_clients t = monitor_clients s \<and> monitor_stack t = monitor_stack s \<and>
     st_monitors t = st_monitors s \<and>
     (\<forall>k. map_option (\<lambda>c. c\<lparr>c_state := (c_state c)\<lparr>maximize_restore_anchor := None\<rparr>\<rparr>) (slot_get (st_clients t) k) =
          map_option (\<lambda>c. c\<lparr>c_state := (c_state c)\<lparr>maximize_restore_anchor := None\<rparr>\<rparr>) (slot_get (st_clients s) k))"

lemma same_but_anchors_refl: "same_but_anchors s s"
  by (simp add: same_but_anchors_def)

lemma same_but_anchors_trans: "same_but_anchors s t \<Longrightarrow> same_but_anchors t u \<Longrightarrow> same_but_anchors s u"
  by (simp add: same_but_anchors_def)

lemma same_but_anchors_update:
  "same_but_anchors s (client_state_update k (\<lambda>st. st\<lparr>maximize_restore_anchor := v\<rparr>) s)"
  by (auto simp: same_but_anchors_def slot_get_client_state_update option.map_comp comp_def)

lemma same_but_anchors_fold:
  "same_but_anchors s (fold (\<lambda>x. client_state_update x (\<lambda>st. st\<lparr>maximize_restore_anchor := v x\<rparr>)) ks s)"
proof (induction ks arbitrary: s)
  case (Cons x ks)
  show ?case using same_but_anchors_trans [OF same_but_anchors_update Cons.IH] by simp
qed (simp add: same_but_anchors_refl)

lemma splice_same: "same_but_anchors s (splice_restore_anchors m k s)"
  by (auto simp: splice_restore_anchors_def Let_def same_but_anchors_refl same_but_anchors_fold split: option.splits)

lemma same_but_anchorsD:
  assumes "same_but_anchors s t"
  shows "monitor_clients t = monitor_clients s" "monitor_stack t = monitor_stack s" "st_monitors t = st_monitors s"
    "is_client_floating t = is_client_floating s" "client_mon t = client_mon s"
proof -
  have e: "map_option (\<lambda>c. (is_floating (c_state c), c_mon c)) (slot_get (st_clients t) k) =
      map_option (\<lambda>c. (is_floating (c_state c), c_mon c)) (slot_get (st_clients s) k)" for k
  proof -
    have "map_option (\<lambda>c. c\<lparr>c_state := (c_state c)\<lparr>maximize_restore_anchor := None\<rparr>\<rparr>) (slot_get (st_clients t) k) =
          map_option (\<lambda>c. c\<lparr>c_state := (c_state c)\<lparr>maximize_restore_anchor := None\<rparr>\<rparr>) (slot_get (st_clients s) k)"
      using assms by (simp add: same_but_anchors_def)
    from arg_cong [OF this, of "map_option (\<lambda>c. (is_floating (c_state c), c_mon c))"] show ?thesis
      by (simp add: option.map_comp comp_def)
  qed
  show "is_client_floating t = is_client_floating s"
  proof
    fix k show "is_client_floating t k = is_client_floating s k"
      using e [of k] by (cases "slot_get (st_clients t) k"; cases "slot_get (st_clients s) k") (auto simp: is_client_floating_def)
  qed
  show "client_mon t = client_mon s"
  proof
    fix k show "client_mon t k = client_mon s k"
      using e [of k] by (cases "slot_get (st_clients t) k"; cases "slot_get (st_clients s) k") (auto simp: client_mon_def)
  qed
qed (use assms in \<open>simp_all add: same_but_anchors_def\<close>)

lemma set_lists_simps [simp]:
  "is_client_floating (set_clients m l s) = is_client_floating s"
  "is_client_floating (set_stack m l s) = is_client_floating s"
  "client_mon (set_clients m l s) = client_mon s"
  "client_mon (set_stack m l s) = client_mon s"
  "monitor_clients (set_clients m l s) = (monitor_clients s)(m \<mapsto> l)"
  "monitor_clients (set_stack m l s) = monitor_clients s"
  "monitor_stack (set_clients m l s) = monitor_stack s"
  "monitor_stack (set_stack m l s) = (monitor_stack s)(m \<mapsto> l)"
  by (auto simp: is_client_floating_def client_mon_def set_clients_def set_stack_def fun_eq_iff)

section \<open>The invariant of the lists\<close>

definition group_ok :: "wm_state \<Rightarrow> monitor_key \<Rightarrow> client_key list \<Rightarrow> bool" where
  "group_ok s m l \<longleftrightarrow> distinct l \<and> tiled_first (is_client_floating s) l \<and> (\<forall>k \<in> set l. client_mon s k = Some m)"

definition wf_lists :: "wm_state \<Rightarrow> bool" where
  "wf_lists s \<longleftrightarrow> (\<forall>m l. monitor_clients s m = Some l \<longrightarrow> group_ok s m l) \<and>
     (\<forall>m l. monitor_stack s m = Some l \<longrightarrow> distinct l \<and> (\<forall>k \<in> set l. client_mon s k = Some m))"

definition listed :: "wm_state \<Rightarrow> client_key \<Rightarrow> bool" where
  "listed s k \<longleftrightarrow> (\<exists>m l. monitor_clients s m = Some l \<and> k \<in> set l)"

definition stacked :: "wm_state \<Rightarrow> client_key \<Rightarrow> bool" where
  "stacked s k \<longleftrightarrow> (\<exists>m l. monitor_stack s m = Some l \<and> k \<in> set l)"

lemma wf_lists_set_clients:
  "wf_lists s \<Longrightarrow> group_ok s m l \<Longrightarrow> wf_lists (set_clients m l s)"
  by (auto simp: wf_lists_def group_ok_def split: if_splits)

lemma wf_lists_set_stack:
  "wf_lists s \<Longrightarrow> distinct l \<Longrightarrow> (\<And>k. k \<in> set l \<Longrightarrow> client_mon s k = Some m) \<Longrightarrow> wf_lists (set_stack m l s)"
  by (auto simp: wf_lists_def group_ok_def split: if_splits)

lemma wf_lists_same: "same_but_anchors s t \<Longrightarrow> wf_lists s \<Longrightarrow> wf_lists t"
  using same_but_anchorsD [of s t] by (simp add: wf_lists_def group_ok_def)

text \<open>All but one window grouped: the state between flipping a window's floating flag and regrouping it.\<close>

definition wf_lists_but :: "client_key \<Rightarrow> wm_state \<Rightarrow> bool" where
  "wf_lists_but k s \<longleftrightarrow> (\<forall>m l. monitor_clients s m = Some l \<longrightarrow> distinct l \<and>
       tiled_first (is_client_floating s) (remove_first k l) \<and> (\<forall>x \<in> set l. client_mon s x = Some m)) \<and>
     (\<forall>m l. monitor_stack s m = Some l \<longrightarrow> distinct l \<and> (\<forall>x \<in> set l. client_mon s x = Some m))"

lemma wf_lists_but_ok: "wf_lists s \<Longrightarrow> wf_lists_but k s"
  by (auto simp: wf_lists_def wf_lists_but_def group_ok_def remove_first_filter tiled_first_filter)

lemma group_ok_insert:
  assumes "group_ok s m l" "k \<notin> set l" "client_mon s k = Some m"
    "if is_client_floating s k then boundary (is_client_floating s) l \<le> i else i \<le> boundary (is_client_floating s) l"
  shows "group_ok s m (vec_insert i k l)"
  using assms tiled_first_insert [OF _ assms(4)]
  by (auto simp: group_ok_def distinct_vec_insert vec_simps)

lemma group_ok_but:
  assumes "wf_lists_but k s" "monitor_clients s m = Some l"
  shows "group_ok s m (remove_first k l)" "k \<notin> set (remove_first k l)"
  using assms by (auto simp: wf_lists_but_def group_ok_def set_remove_first)

lemma group_ok_append:
  assumes "group_ok s m l" "k \<notin> set l" "client_mon s k = Some m" "is_client_floating s k"
  shows "group_ok s m (l @ [k])"
  using assms tiled_first_append_floating [of "is_client_floating s" l k] by (auto simp: group_ok_def)

lemma wf_lists_but_others:
  assumes "wf_lists_but k s" "client_mon s k = Some m" "monitor_clients s m = Some l" "group_ok s m l'"
  shows "wf_lists (set_clients m l' s)"
proof -
  have "group_ok s m' l2" if "monitor_clients s m' = Some l2" "m' \<noteq> m" for m' l2
  proof -
    have "k \<notin> set l2" using assms(1,2) that by (auto simp: wf_lists_but_def)
    then show ?thesis using group_ok_but(1) [OF assms(1) that(1)]
      by (simp add: remove_first_remove1 remove1_idem)
  qed
  with assms(1,4) show ?thesis by (auto simp: wf_lists_def wf_lists_but_def group_ok_def split: if_splits)
qed

lemma reorder_wf:
  assumes "wf_lists_but k s"
  shows "wf_lists_but k s \<and> (client_mon s k = None \<or> \<not> listed s k \<or> wf_lists (reorder_client_in_monitor_groups k s))"
proof -
  have "wf_lists (reorder_client_in_monitor_groups k s)" if m: "client_mon s k = Some m" and ls: "listed s k" for m
  proof -
    from ls obtain m' l where l: "monitor_clients s m' = Some l" "k \<in> set l" by (auto simp: listed_def)
    have mm: "m' = m" using assms l m by (auto simp: wf_lists_but_def)
    then have l': "monitor_clients s m = Some l" using l by simp
    obtain pos where pos: "position (\<lambda>x. x = k) l = Some pos" using position_ex [OF l(2), of "\<lambda>x. x = k"] by auto
    let ?l = "remove_first k l"
    note g = group_ok_but [OF assms l']
    have "wf_lists (set_clients m (if is_client_floating s k then ?l @ [k]
          else vec_insert (boundary (is_client_floating s) ?l) k ?l) s)"
    proof (rule wf_lists_but_others [OF assms m l'])
      show "group_ok s m (if is_client_floating s k then ?l @ [k] else vec_insert (boundary (is_client_floating s) ?l) k ?l)"
        using group_ok_append [OF g m] group_ok_insert [OF g m] by simp
    qed
    then show ?thesis
      by (simp add: reorder_client_in_monitor_groups_def m l' pos Let_def vec_remove_position [OF pos] boundary_def split: if_splits)
  qed
  then show ?thesis using assms by fastforce
qed

lemma reorder_wf_listed:
  "wf_lists_but k s \<Longrightarrow> listed s k \<Longrightarrow> wf_lists (reorder_client_in_monitor_groups k s)"
  using reorder_wf [of k s] by (auto simp: wf_lists_but_def listed_def)

lemma append_then_but:
  assumes "wf_lists s" "client_mon s k = Some m" "\<not> listed s k" "monitor_clients s m = Some l"
  shows "wf_lists_but k (set_clients m (l @ [k]) s)" "listed (set_clients m (l @ [k]) s) k"
proof -
  have n: "k \<notin> set l'" if "monitor_clients s m' = Some l'" for m' l' using assms(3) that by (auto simp: listed_def)
  then have r: "remove_first k (l @ [k]) = l" using assms(4) by (simp add: remove_first_remove1 remove1_append)
  show "wf_lists_but k (set_clients m (l @ [k]) s)"
    using wf_lists_but_ok [OF assms(1), of k] assms n r
    by (auto simp: wf_lists_but_def wf_lists_def group_ok_def split: if_splits)
  show "listed (set_clients m (l @ [k]) s) k" by (auto simp: listed_def)
qed

lemma reorder_unlisted: "\<not> listed s k \<Longrightarrow> reorder_client_in_monitor_groups k s = s"
proof -
  assume a: "\<not> listed s k"
  then have "position (\<lambda>x. x = k) l = None" if "monitor_clients s m = Some l" for m l
    using that by (auto simp: position_None_iff listed_def)
  then show ?thesis by (auto simp: reorder_client_in_monitor_groups_def split: option.splits)
qed

lemma attach_back_wf:
  assumes "wf_lists s" "\<not> listed s k"
  shows "wf_lists (attach_back k s)"
proof (cases "\<exists>m l. client_mon s k = Some m \<and> monitor_clients s m = Some l")
  case True
  then obtain m l where m: "client_mon s k = Some m" "monitor_clients s m = Some l" by blast
  show ?thesis using reorder_wf_listed [OF append_then_but [OF assms(1) m(1) assms(2) m(2)]]
    by (simp add: attach_back_def m)
next
  case False
  then have "attach_back k s = s"
    using reorder_unlisted [OF assms(2)] by (auto simp: attach_back_def split: option.splits)
  with assms show ?thesis by simp
qed

text \<open>The index of a newcomer lies inside its own group, for every policy.\<close>

lemma new_client_index_in_group:
  assumes "ff \<le> len"
  shows "if floats then ff \<le> new_client_insert_index p len ff floats sel \<and> new_client_insert_index p len ff floats sel \<le> len
         else new_client_insert_index p len ff floats sel \<le> ff"
  using assms by (auto simp: new_client_insert_index_def split: new_client_position.splits option.splits)

lemma attach_new_client_wf:
  assumes "wf_lists s" "\<not> listed s k"
  shows "wf_lists (attach_new_client p k s)"
proof (cases "p \<noteq> Tail \<and> (\<exists>m l. client_mon s k = Some m \<and> monitor_clients s m = Some l)")
  case True
  then obtain m l where m: "client_mon s k = Some m" "monitor_clients s m = Some l" and p: "p \<noteq> Tail" by blast
  have g: "group_ok s m l" using assms(1) m by (simp add: wf_lists_def)
  have k: "k \<notin> set l" using assms(2) m by (auto simp: listed_def)
  have "group_ok s m (vec_insert (new_client_insert_index p (length l) (boundary (is_client_floating s) l) (is_client_floating s k) sel) k l)" for sel
    using group_ok_insert [OF g k m(1)]
      new_client_index_in_group [OF boundary_le [of "is_client_floating s" l], of "is_client_floating s k" p sel] by (simp split: if_splits)
  then show ?thesis using p wf_lists_set_clients [OF assms(1)]
    by (simp add: attach_new_client_def m Let_def boundary_def)
next
  case False
  with assms attach_back_wf show ?thesis
    by (auto simp: attach_new_client_def Let_def split: option.splits)
qed

lemma detach_wf: "wf_lists s \<Longrightarrow> wf_lists (detach k s)"
proof -
  assume a: "wf_lists s"
  have "wf_lists (set_clients m (remove_first k l) t)" if "wf_lists t" "monitor_clients t m = Some l" for m l t
    using that group_ok_but(1) [OF wf_lists_but_ok [OF that(1)] that(2)] by (simp add: wf_lists_set_clients)
  then show ?thesis using a wf_lists_same [OF splice_same a]
    by (auto simp: detach_def Let_def split: option.splits)
qed

lemma group_ok_filter: "group_ok s m l \<Longrightarrow> group_ok s m (filter p l)"
  by (auto simp: group_ok_def tiled_first_filter)

lemma attach_stack_front_wf:
  assumes "wf_lists s" "client_mon s k = Some m" "\<not> stacked s k" "monitor_stack s m = Some l"
  shows "wf_lists (set_stack m (vec_insert 0 k l) s)"
  using assms by (intro wf_lists_set_stack) (auto simp: wf_lists_def stacked_def distinct_vec_insert vec_simps)

lemma detach_from_monitor_wf: "wf_lists s \<Longrightarrow> wf_lists (detach_from_monitor k m s)"
proof -
  assume "wf_lists s"
  then have w: "wf_lists (splice_restore_anchors m k s)" by (rule wf_lists_same [OF splice_same])
  have 1: "wf_lists (set_clients m (filter p l) t)" if "wf_lists t" "monitor_clients t m = Some l" for l t p
    using that by (intro wf_lists_set_clients group_ok_filter) (simp_all add: wf_lists_def)
  have 2: "wf_lists (set_stack m (filter p l) t)" if "wf_lists t" "monitor_stack t m = Some l" for l t p
    using that by (intro wf_lists_set_stack) (auto simp: wf_lists_def)
  show ?thesis using w
    by (auto simp: detach_from_monitor_def Let_def intro: 1 2 split: option.splits)
qed

lemma attachstack_wf: "wf_lists s \<Longrightarrow> \<not> stacked s k \<Longrightarrow> wf_lists (attachstack k s)"
  using attach_stack_front_wf [of s k] by (auto simp: attachstack_def split: option.splits)

lemma monitors_update_simps [simp]:
  "is_client_floating (s\<lparr>st_monitors := x\<rparr>) = is_client_floating s" "client_mon (s\<lparr>st_monitors := x\<rparr>) = client_mon s"
  by (simp_all add: is_client_floating_def client_mon_def fun_eq_iff)

lemma wf_lists_monitors: "wf_lists (s\<lparr>st_monitors := x\<rparr>) = wf_lists s"
  by (simp add: wf_lists_def group_ok_def)

lemma detachstack_wf: "wf_lists s \<Longrightarrow> wf_lists (detachstack k s)"
proof -
  assume a: "wf_lists s"
  have "wf_lists (set_stack m (remove_first k l) s)" if "monitor_stack s m = Some l" for m l
    using a that by (intro wf_lists_set_stack) (auto simp: wf_lists_def set_remove_first)
  with a show ?thesis by (auto simp: detachstack_def Let_def wf_lists_monitors split: option.splits)
qed

lemma set_clients_stack: "set_stack m x (set_clients m y s) = set_clients m y (set_stack m x s)"
  by (simp add: set_stack_def set_clients_def)

lemma attach_to_monitor_wf:
  assumes "wf_lists s" "client_mon s k = Some m" "\<not> listed s k" "\<not> stacked s k"
  shows "wf_lists (attach_to_monitor k m s)"
proof -
  define s2 where "s2 = (case monitor_stack s m of None \<Rightarrow> s | Some l \<Rightarrow> set_stack m (vec_insert 0 k l) s)"
  have w: "wf_lists s2" using assms attach_stack_front_wf by (auto simp: s2_def split: option.splits)
  have f: "monitor_clients s2 = monitor_clients s" "client_mon s2 = client_mon s"
    by (auto simp: s2_def split: option.splits)
  have n: "\<not> listed s2 k" using assms(3) by (simp add: listed_def f)
  have "attach_to_monitor k m s = attach_back k s2"
    by (auto simp: attach_to_monitor_def attach_back_def Let_def assms(2) s2_def set_clients_stack split: option.splits)
  with attach_back_wf [OF w n] show ?thesis by simp
qed

lemma move_to_front_wf:
  assumes "wf_lists s"
  shows "wf_lists (move_to_front k s)"
proof (cases "client_mon s k")
  case None
  with assms show ?thesis by (simp add: move_to_front_def)
next
  case (Some m)
  define s1 where "s1 = (if is_client_floating s k then s else splice_restore_anchors m k s)"
  have sb: "same_but_anchors s s1" by (simp add: s1_def splice_same same_but_anchors_refl)
  note f = same_but_anchorsD [OF sb]
  have w: "wf_lists s1" using wf_lists_same [OF sb assms] .
  show ?thesis
  proof (cases "monitor_clients s1 m")
    case None
    with w show ?thesis by (simp add: move_to_front_def Some Let_def s1_def [symmetric])
  next
    case (Some l)
    let ?l = "remove_first k l"
    note g = group_ok_but [OF wf_lists_but_ok [OF w] Some]
    have "group_ok s1 m (vec_insert (if is_client_floating s k then boundary (is_client_floating s1) ?l else 0) k ?l)"
      using \<open>client_mon s k = Some m\<close> by (intro group_ok_insert [OF g]) (simp_all add: f)
    from wf_lists_set_clients [OF w this] show ?thesis
      by (simp add: move_to_front_def \<open>client_mon s k = Some m\<close> Some Let_def s1_def [symmetric] boundary_def f(4) split: if_splits)
  qed
qed

lemma resting_anchor_tile:
  "resting_anchor s l k a = Some t \<Longrightarrow> t \<in> set l \<and> t \<noteq> k \<and> \<not> is_client_floating s t"
proof -
  have "resting_anchor_loop n s l k a = Some t \<Longrightarrow> t \<in> set l \<and> t \<noteq> k \<and> \<not> is_client_floating s t" for n
    by (induction n arbitrary: a) (auto simp: is_client_floating_def split: option.splits if_splits)
  then show "resting_anchor s l k a = Some t \<Longrightarrow> ?thesis" by (simp add: resting_anchor_def)
qed

text \<open>\<open>position\<close> after a removal in front of it: the index the code computes is that of the target in the shorter list.\<close>

lemma position_remove_first:
  assumes "position (\<lambda>x. x = k) l = Some from" "position (\<lambda>x. x = t) l = Some to" "t \<noteq> k" "distinct l"
  shows "position (\<lambda>x. x = t) (vec_remove from l) = Some (if from < to then to - 1 else to)"
  using assms
proof (induction l arbitrary: "from" to)
  case (Cons x l)
  show ?case
  proof (cases "x = k")
    case True
    with Cons.prems show ?thesis by (auto simp: vec_remove_def)
  next
    case False
    with Cons.prems obtain f where f: "position (\<lambda>x. x = k) l = Some f" "from = Suc f" by auto
    show ?thesis
    proof (cases "x = t")
      case True
      with Cons.prems f show ?thesis by (simp add: vec_remove_def)
    next
      case xt: False
      with Cons.prems obtain u where u: "position (\<lambda>x. x = t) l = Some u" "to = Suc u" by auto
      have "f \<noteq> u" using position_SomeD [OF f(1)] position_SomeD [OF u(1)] Cons.prems(3) by auto
      with Cons.IH [OF f(1) u(1) Cons.prems(3)] Cons.prems(4) f u xt show ?thesis
        by (auto simp: vec_remove_def)
    qed
  qed
qed simp

lemma tile_before_boundary:
  assumes "tiled_first fl l" "position (\<lambda>x. x = t) l = Some i" "\<not> fl t"
  shows "i \<le> boundary fl l"
proof (rule ccontr)
  assume "\<not> i \<le> boundary fl l"
  then have "t \<in> set (drop (boundary fl l) l)"
    using position_SomeD [OF assms(2)] by (auto simp: in_set_conv_nth intro!: exI [of _ "i - boundary fl l"])
  with boundary_drop [OF assms(1)] assms(3) show False by blast
qed

lemma retile_wf:
  assumes "wf_lists_but k s" "client_mon s k = Some m" "\<not> is_client_floating s k" "retile_before_anchor m k a s = (True, s')"
  shows "wf_lists s'"
proof -
  from assms(4) obtain l t "from" to where l: "monitor_clients s m = Some l" "resting_anchor s l k a = Some t"
    "position (\<lambda>x. x = k) l = Some from" "position (\<lambda>x. x = t) l = Some to"
    and s': "s' = set_clients m (vec_insert (if from < to then to - 1 else to) (l ! from) (vec_remove from l)) s"
    by (auto simp: retile_before_anchor_def split: option.splits prod.splits)
  have t: "t \<noteq> k" "\<not> is_client_floating s t" using resting_anchor_tile [OF l(2)] by auto
  have d: "distinct l" using assms(1) l(1) by (auto simp: wf_lists_but_def)
  note g = group_ok_but [OF assms(1) l(1), folded vec_remove_position [OF l(3)]]
  have "group_ok s m (vec_insert (if from < to then to - 1 else to) k (vec_remove from l))"
    using tile_before_boundary [where fl = "is_client_floating s", OF _ position_remove_first [OF l(3,4) t(1) d] t(2)] g(1) assms(3)
    by (intro group_ok_insert [OF g assms(2)]) (auto simp: group_ok_def)
  then show ?thesis using wf_lists_but_others [OF assms(1,2) l(1)] position_SomeD [OF l(3)] by (simp add: s')
qed

section \<open>Runs of list operations\<close>

text \<open>
  The commit of \<open>set_client_maximized\<close> as far as the list is concerned: promotion records the anchor,
  floats the window and regroups it; leaving maximize tiles it again, in front of its anchor when
  the chain still resolves.
\<close>

definition promote_client :: "monitor_key \<Rightarrow> client_key \<Rightarrow> wm_state \<Rightarrow> wm_state" where
  "promote_client m k s =
     (let anchor = restore_anchor_after s m k
      in reorder_client_in_monitor_groups k
           (client_state_update k (\<lambda>st. st\<lparr>maximize_restore_tiled := True, maximize_restore_anchor := anchor,
              is_floating := True, is_drag_floating := False\<rparr>) s))"

definition retile_client :: "monitor_key \<Rightarrow> client_key \<Rightarrow> wm_state \<Rightarrow> wm_state" where
  "retile_client m k s =
     (let restore_anchor = (case slot_get (st_clients s) k of None \<Rightarrow> None | Some c \<Rightarrow> maximize_restore_anchor (c_state c));
          s1 = client_state_update k (\<lambda>st. st\<lparr>is_floating := False, is_drag_floating := False,
                 maximize_restore_tiled := False, maximize_restore_anchor := None\<rparr>) s;
          (back_in_slot, s2) = retile_before_anchor m k restore_anchor s1
      in if back_in_slot then s2 else reorder_client_in_monitor_groups k s2)"

definition set_client_mon :: "client_key \<Rightarrow> monitor_key \<Rightarrow> wm_state \<Rightarrow> wm_state" where
  "set_client_mon k m s = s\<lparr>st_clients := slot_update k (\<lambda>c. c\<lparr>c_mon := Some m\<rparr>) (st_clients s)\<rparr>"

text \<open>
  Every way the list operations are combined: managing and unmanaging a window, floating or tiling
  it, moving it to the front, sending it to another monitor, and a maximize round trip.
\<close>

inductive list_step :: "wm_state \<Rightarrow> wm_state \<Rightarrow> bool" where
  manage: "\<not> listed s k \<Longrightarrow> \<not> stacked s k \<Longrightarrow> list_step s (attachstack k (attach_new_client p k s))"
| unmanage: "list_step s (detachstack k (detach k s))"
| refloat: "listed s k \<Longrightarrow> list_step s (reorder_client_in_monitor_groups k (client_state_update k (\<lambda>st. st\<lparr>is_floating := b\<rparr>) s))"
| front: "list_step s (move_to_front k s)"
| send: "client_mon s k = Some m \<Longrightarrow> list_step s (attach_to_monitor k m' (set_client_mon k m' (detach_from_monitor k m s)))"
| promote: "listed s k \<Longrightarrow> client_mon s k = Some m \<Longrightarrow> list_step s (promote_client m k s)"
| retile: "listed s k \<Longrightarrow> client_mon s k = Some m \<Longrightarrow> list_step s (retile_client m k s)"

lemma client_state_update_mon [simp]: "client_mon (client_state_update k f s) = client_mon s"
  by (auto simp: client_mon_def slot_get_client_state_update fun_eq_iff split: option.splits)

lemma client_state_update_floating: "x \<noteq> k \<Longrightarrow> is_client_floating (client_state_update k f s) x = is_client_floating s x"
  by (simp add: is_client_floating_def slot_get_client_state_update)

lemma listed_client_state_update [simp]: "listed (client_state_update k f s) = listed s"
  by (simp add: listed_def fun_eq_iff)

text \<open>Changing a client's flags disturbs the grouping of that client only.\<close>

lemma wf_but_state_update: "wf_lists s \<Longrightarrow> wf_lists_but k (client_state_update k f s)"
proof -
  assume w: "wf_lists s"
  have "tiled_first (is_client_floating (client_state_update k f s)) (remove_first k l)"
    if l: "monitor_clients s m = Some l" for m l
  proof -
    note g = group_ok_but [OF wf_lists_but_ok [OF w] l]
    have "is_client_floating (client_state_update k f s) x = is_client_floating s x" if "x \<in> set (remove_first k l)" for x
      using g(2) that client_state_update_floating by metis
    with g(1) tiled_first_cong [of "remove_first k l" "is_client_floating (client_state_update k f s)" "is_client_floating s"]
    show ?thesis by (simp add: group_ok_def)
  qed
  then show ?thesis using w by (auto simp: wf_lists_but_def wf_lists_def group_ok_def)
qed

lemma promote_wf: "wf_lists s \<Longrightarrow> listed s k \<Longrightarrow> wf_lists (promote_client m k s)"
  unfolding promote_client_def Let_def by (rule reorder_wf_listed) (simp_all add: wf_but_state_update)

lemma retile_before_anchor_fail: "retile_before_anchor m k a s = (False, s') \<Longrightarrow> s' = s"
  by (auto simp: retile_before_anchor_def split: option.splits prod.splits)

lemma retile_client_wf:
  assumes "wf_lists s" "listed s k" "client_mon s k = Some m"
  shows "wf_lists (retile_client m k s)"
proof -
  define anchor where "anchor = (case slot_get (st_clients s) k of None \<Rightarrow> None | Some c \<Rightarrow> maximize_restore_anchor (c_state c))"
  define s1 where "s1 = client_state_update k (\<lambda>st. st\<lparr>is_floating := False, is_drag_floating := False,
                 maximize_restore_tiled := False, maximize_restore_anchor := None\<rparr>) s"
  have b: "wf_lists_but k s1" unfolding s1_def using assms(1) by (rule wf_but_state_update)
  have f: "\<not> is_client_floating s1 k" "client_mon s1 k = Some m" "listed s1 k"
    using assms by (auto simp: s1_def is_client_floating_def slot_get_client_state_update split: option.splits)
  obtain ok s2 where r: "retile_before_anchor m k anchor s1 = (ok, s2)" by fastforce
  have "retile_client m k s = (if ok then s2 else reorder_client_in_monitor_groups k s2)"
    by (simp add: retile_client_def Let_def anchor_def [symmetric] s1_def [symmetric] r)
  moreover have "wf_lists s2" if ok using retile_wf [OF b f(2,1)] r that by simp
  moreover have "wf_lists (reorder_client_in_monitor_groups k s2)" if "\<not> ok"
    using retile_before_anchor_fail [of m k anchor s1 s2] r that reorder_wf_listed [OF b f(3)] by simp
  ultimately show ?thesis by simp
qed

lemma client_mon_set [simp]: "x \<noteq> k \<Longrightarrow> client_mon (set_client_mon k m s) x = client_mon s x"
  by (simp add: client_mon_def set_client_mon_def slot_simps)

lemma set_client_mon_simps [simp]:
  "monitor_clients (set_client_mon k m s) = monitor_clients s" "monitor_stack (set_client_mon k m s) = monitor_stack s"
  "is_client_floating (set_client_mon k m s) = is_client_floating s"
  by (auto simp: set_client_mon_def is_client_floating_def slot_simps fun_eq_iff split: option.splits)

lemma set_client_mon_wf:
  assumes "wf_lists s" "\<not> listed s k" "\<not> stacked s k"
  shows "wf_lists (set_client_mon k m s)"
proof -
  have "client_mon (set_client_mon k m s) x = client_mon s x" if "monitor_clients s m' = Some l \<or> monitor_stack s m' = Some l" "x \<in> set l" for m' l x
  proof -
    have "x \<noteq> k" using assms(2,3) that by (auto simp: listed_def stacked_def)
    then show ?thesis by simp
  qed
  then show ?thesis using assms(1) unfolding wf_lists_def group_ok_def by simp metis
qed

lemma detach_from_monitor_gone:
  assumes "wf_lists s" "client_mon s k = Some m"
  shows "\<not> listed (detach_from_monitor k m s) k" "\<not> stacked (detach_from_monitor k m s) k" "client_mon (detach_from_monitor k m s) = client_mon s"
proof -
  note f = same_but_anchorsD [OF splice_same [of s m k]]
  have 1: "monitor_clients s m' = Some l \<Longrightarrow> k \<in> set l \<Longrightarrow> m' = m \<and> monitor_clients s m = Some l" "monitor_stack s m' = Some l \<Longrightarrow> k \<in> set l \<Longrightarrow> m' = m \<and> monitor_stack s m = Some l" for m' l
    using assms by (auto simp: wf_lists_def group_ok_def)
  show "\<not> listed (detach_from_monitor k m s) k" "\<not> stacked (detach_from_monitor k m s) k" "client_mon (detach_from_monitor k m s) = client_mon s"
    by (auto dest: 1 simp: listed_def stacked_def detach_from_monitor_def Let_def f split: option.splits if_splits)
qed

lemma slot_exists_mon: "client_mon s k = Some m \<Longrightarrow> client_mon (set_client_mon k m' s) k = Some m'"
  by (auto simp: client_mon_def set_client_mon_def slot_simps split: option.splits)

lemma send_wf:
  assumes "wf_lists s" "client_mon s k = Some m"
  shows "wf_lists (attach_to_monitor k m' (set_client_mon k m' (detach_from_monitor k m s)))"
proof -
  note g = detach_from_monitor_gone [OF assms]
  let ?t = "detach_from_monitor k m s"
  have "wf_lists (set_client_mon k m' ?t)" using set_client_mon_wf [OF detach_from_monitor_wf [OF assms(1)] g(1,2)] .
  then show ?thesis using g assms(2) slot_exists_mon [of ?t k m m']
    by (intro attach_to_monitor_wf) (simp_all add: listed_def stacked_def)
qed

lemma attach_new_client_stacked: "stacked (attach_new_client p k s) = stacked s"
  by (auto simp: attach_new_client_def attach_back_def reorder_client_in_monitor_groups_def stacked_def Let_def fun_eq_iff
      split: option.splits)

lemma list_step_wf: "list_step s t \<Longrightarrow> wf_lists s \<Longrightarrow> wf_lists t"
proof (induction rule: list_step.induct)
  case (manage s k p)
  then show ?case by (simp add: attachstack_wf attach_new_client_wf attach_new_client_stacked)
next
  case (refloat s k b)
  then show ?case by (simp add: reorder_wf_listed wf_but_state_update)
qed (simp_all add: detachstack_wf detach_wf move_to_front_wf send_wf promote_wf retile_client_wf)

text \<open>
  C17. Client lists under every sequence of managing, unmanaging, floating, tiling, moving to the
  front, sending to another monitor and maximizing: each window stays listed at most once and only
  on its own monitor, in the focus stack too, and all tiled windows stay ahead of all floating
  ones, which is what the layout pass and the insertion policies rely on.
\<close>

theorem client_lists_stay_grouped:
  assumes "list_step\<^sup>*\<^sup>* s t" "wf_lists s"
  shows "wf_lists t"
  using assms by (induction rule: rtranclp_induct) (auto intro: list_step_wf)

definition sample_client :: "bool \<Rightarrow> wm_client" where
  "sample_client b = (wm_client_new 7)\<lparr>c_mon := Some 1, c_state := client_state_default\<lparr>is_floating := b, cs_tags := 1\<rparr>\<rparr>"

definition sample_state :: wm_state where
  "sample_state = wm_state_new\<lparr>st_clients := [(1, sample_client False), (2, sample_client True), (3, sample_client False)],
     monitor_clients := [1 \<mapsto> [1, 2]], monitor_stack := [1 \<mapsto> [2, 1]]\<rparr>"

lemma sample_state_wf: "wf_lists sample_state"
proof -
  have m: "client_mon sample_state 1 = Some 1" "client_mon sample_state 2 = Some 1" by code_simp+
  have "tiled_first (is_client_floating sample_state) [1, 2]" by code_simp
  with m show ?thesis by (auto simp: wf_lists_def group_ok_def sample_state_def split: if_splits)
qed

theorem client_lists_stay_grouped_witness:
  "wf_lists (attachstack 3 (attach_new_client AfterFocused 3 sample_state)) \<and>
   monitor_clients (attachstack 3 (attach_new_client AfterFocused 3 sample_state)) 1 = Some [3, 1, 2]"
proof
  have "list_step sample_state (attachstack 3 (attach_new_client AfterFocused 3 sample_state))"
    by (rule list_step.manage) (auto simp: listed_def stacked_def sample_state_def split: if_splits)
  then show "wf_lists (attachstack 3 (attach_new_client AfterFocused 3 sample_state))"
    using client_lists_stay_grouped [OF r_into_rtranclp sample_state_wf] by blast
  show "monitor_clients (attachstack 3 (attach_new_client AfterFocused 3 sample_state)) 1 = Some [3, 1, 2]"
    by code_simp
qed

end
