(* ===== verification/Anchors.thy ===== *)
theory Anchors
  imports Client_Lists "HOL-Library.Multiset"
begin

text \<open>
  The anchors of promoted windows. The bounded loop of \<open>resting_anchor\<close> is shown to follow the chain
  of anchors to its end, whatever the anchors are; on top of that, a window that leaves the list
  hands its place in the chain on, and a maximize round trip puts a tile back into its slot.
\<close>

section \<open>The chain without a bound\<close>

inductive rests :: "wm_state \<Rightarrow> client_key list \<Rightarrow> client_key \<Rightarrow> client_key option \<Rightarrow> client_key \<Rightarrow> bool"
  for s list k where
  at_tile: "a \<noteq> k \<Longrightarrow> a \<in> set list \<Longrightarrow> slot_get (st_clients s) a = Some c \<Longrightarrow> \<not> is_floating (c_state c) \<Longrightarrow>
     rests s list k (Some a) a"
| through: "a \<noteq> k \<Longrightarrow> a \<in> set list \<Longrightarrow> slot_get (st_clients s) a = Some c \<Longrightarrow> is_floating (c_state c) \<Longrightarrow>
     maximize_restore_tiled (c_state c) \<Longrightarrow> rests s list k (maximize_restore_anchor (c_state c)) t \<Longrightarrow>
     rests s list k (Some a) t"

inductive_cases rests_NoneE: "rests s list k None t"
inductive_cases rests_SomeE: "rests s list k (Some a) t"

lemma rests_tile: "rests s list k a t \<Longrightarrow> t \<noteq> k \<and> t \<in> set list \<and> (\<exists>c. slot_get (st_clients s) t = Some c \<and> \<not> is_floating (c_state c))"
  by (induction rule: rests.induct) auto

lemma rests_unique: "rests s list k a t \<Longrightarrow> rests s list k a t' \<Longrightarrow> t = t'"
  by (induction rule: rests.induct) (auto elim: rests_SomeE)

section \<open>The bound is enough\<close>

lemma loop_Some_iff:
  "resting_anchor_loop (Suc n) s l k a = Some t \<longleftrightarrow>
     (\<exists>b c. a = Some b \<and> b \<noteq> k \<and> b \<in> set l \<and> slot_get (st_clients s) b = Some c \<and>
        (\<not> is_floating (c_state c) \<and> t = b \<or>
         is_floating (c_state c) \<and> maximize_restore_tiled (c_state c) \<and>
         resting_anchor_loop n s l k (maximize_restore_anchor (c_state c)) = Some t))"
  by (auto split: option.splits if_splits)

lemma loop_mono: "resting_anchor_loop n s l k a = Some t \<Longrightarrow> n \<le> n' \<Longrightarrow> resting_anchor_loop n' s l k a = Some t"
proof (induction n arbitrary: a n')
  case (Suc n)
  then obtain m where m: "n' = Suc m" "n \<le> m" by (cases n') auto
  from Suc.prems(1) Suc.IH [OF _ m(2)] show ?case unfolding m(1) loop_Some_iff by blast
qed simp

lemma loop_superset:
  "resting_anchor_loop n s l k a = Some t \<Longrightarrow> set l \<subseteq> set l' \<Longrightarrow> resting_anchor_loop n s l' k a = Some t"
  by (induction n arbitrary: a) (auto simp: loop_Some_iff simp del: resting_anchor_loop.simps(2))

text \<open>A resolved chain either avoids a given window or passes it with no more steps left.\<close>

lemma loop_avoids:
  "resting_anchor_loop n s l k b = Some t \<Longrightarrow>
   resting_anchor_loop n s (removeAll a l) k b = Some t \<or> (\<exists>m \<le> n. resting_anchor_loop m s l k (Some a) = Some t)"
proof (induction n arbitrary: b)
  case (Suc n)
  show ?case
  proof (cases "b = Some a")
    case True
    with Suc.prems show ?thesis by blast
  next
    case False
    have n: "resting_anchor_loop n s (removeAll a l) k b' = Some t \<or> (\<exists>m \<le> Suc n. resting_anchor_loop m s l k (Some a) = Some t)"
      if "resting_anchor_loop n s l k b' = Some t" for b' using Suc.IH [OF that] le_SucI by blast
    from Suc.prems False n show ?thesis unfolding loop_Some_iff by auto
  qed
qed simp

lemma loop_enough:
  "resting_anchor_loop n s l k a = Some t \<Longrightarrow> resting_anchor_loop (length l) s l k a = Some t"
proof (induction "length l" arbitrary: l a n rule: less_induct)
  case less
  define N where "N = (LEAST i. resting_anchor_loop i s l k a = Some t)"
  have N: "resting_anchor_loop N s l k a = Some t" unfolding N_def using less.prems by (rule LeastI)
  then obtain N' where N': "N = Suc N'" by (cases N) auto
  from N [unfolded N'] obtain b c where b: "a = Some b" "b \<noteq> k" "b \<in> set l" "slot_get (st_clients s) b = Some c"
    by (auto split: option.splits if_splits)
  then obtain n1 where n1: "length l = Suc n1" by (cases l) auto
  show ?case
  proof (cases "is_floating (c_state c)")
    case False
    with N N' b n1 show ?thesis by simp
  next
    case True
    with N N' b have r: "maximize_restore_tiled (c_state c)"
      "resting_anchor_loop N' s l k (maximize_restore_anchor (c_state c)) = Some t" by (auto split: if_splits)
    have no: "\<not> (\<exists>m \<le> N'. resting_anchor_loop m s l k (Some b) = Some t)"
      using not_less_Least [of _ "\<lambda>i. resting_anchor_loop i s l k a = Some t"] N' b(1) unfolding N_def [symmetric] by auto
    have sh: "length (removeAll b l) < length l" using b(3) by (simp add: length_removeAll_less)
    have "resting_anchor_loop (length (removeAll b l)) s (removeAll b l) k (maximize_restore_anchor (c_state c)) = Some t"
      using less.hyps [OF sh] loop_avoids [OF r(2), of b] no by blast
    then have "resting_anchor_loop n1 s l k (maximize_restore_anchor (c_state c)) = Some t"
      by (rule loop_mono [OF loop_superset]) (use sh n1 in auto)
    with b True r n1 show ?thesis by simp
  qed
qed

lemma rests_loop: "rests s l k a t \<Longrightarrow> \<exists>n. resting_anchor_loop n s l k a = Some t"
proof (induction rule: rests.induct)
  case (at_tile a c)
  then show ?case by (intro exI [of _ "Suc 0"]) simp
next
  case (through a c t)
  then obtain n where "resting_anchor_loop n s l k (maximize_restore_anchor (c_state c)) = Some t" by blast
  with through show ?case by (intro exI [of _ "Suc n"]) simp
qed

lemma loop_rests: "resting_anchor_loop n s l k a = Some t \<Longrightarrow> rests s l k a t"
  by (induction n arbitrary: a) (auto split: option.splits if_splits intro: rests.intros)

lemma resting_anchor_iff: "resting_anchor s l k a = Some t \<longleftrightarrow> rests s l k a t"
  unfolding resting_anchor_def using loop_rests rests_loop loop_enough by blast

text \<open>
  C18. Following the anchors for as many steps as the list is long is enough: \<open>resting_anchor\<close>
  returns a tile exactly when the unbounded chain of anchors reaches it, on every list and for
  every assignment of anchors, cyclic ones included.
\<close>

theorem resting_anchor_follows_chain:
  "resting_anchor s l k a = Some t \<longleftrightarrow> rests s l k a t"
  by (rule resting_anchor_iff)

section \<open>Handing an anchor on\<close>

definition anchor_of :: "wm_state \<Rightarrow> client_key \<Rightarrow> client_key option" where
  "anchor_of s k = (case slot_get (st_clients s) k of None \<Rightarrow> None | Some c \<Rightarrow> maximize_restore_anchor (c_state c))"

definition promoted :: "wm_state \<Rightarrow> client_key \<Rightarrow> bool" where
  "promoted s k = (case slot_get (st_clients s) k of None \<Rightarrow> False
     | Some c \<Rightarrow> maximize_restore_tiled (c_state c) \<and> is_floating (c_state c))"

lemma slot_get_anchor_fold:
  "slot_get (st_clients (fold (\<lambda>x. client_state_update x (\<lambda>st. st\<lparr>maximize_restore_anchor := v x\<rparr>)) ks s)) y =
     (if y \<in> set ks then map_option (\<lambda>c. c\<lparr>c_state := (c_state c)\<lparr>maximize_restore_anchor := v y\<rparr>\<rparr>) (slot_get (st_clients s) y)
      else slot_get (st_clients s) y)"
proof (induction ks arbitrary: s)
  case (Cons x ks)
  show ?case by (auto simp: Cons.IH slot_get_client_state_update option.map_comp comp_def)
qed simp

text \<open>The anchors after a splice: those that named the departing window name its successor.\<close>

lemma splice_slot:
  assumes k: "slot_get (st_clients s) k = Some ck" "promoted s k" and l: "monitor_clients s m = Some l" and y: "y \<in> set l"
  shows "slot_get (st_clients (splice_restore_anchors m k s)) y =
     map_option (\<lambda>c. c\<lparr>c_state := (c_state c)\<lparr>maximize_restore_anchor :=
        (if y \<noteq> k \<and> maximize_restore_anchor (c_state c) = Some k
         then (case anchor_of s k of None \<Rightarrow> None | Some a \<Rightarrow> if a \<noteq> y then Some a else None)
         else maximize_restore_anchor (c_state c))\<rparr>\<rparr>) (slot_get (st_clients s) y)"
proof -
  have p: "maximize_restore_tiled (c_state ck)" "is_floating (c_state ck)" using k by (auto simp: promoted_def)
  define anchored where "anchored = filter (\<lambda>x. x \<noteq> k \<and> (case slot_get (st_clients s) x of None \<Rightarrow> False
                                      | Some c \<Rightarrow> maximize_restore_anchor (c_state c) = Some k)) l"
  have "splice_restore_anchors m k s = fold (\<lambda>x. client_state_update x (\<lambda>st. st\<lparr>maximize_restore_anchor :=
                        (case anchor_of s k of None \<Rightarrow> None | Some a \<Rightarrow> if a \<noteq> x then Some a else None)\<rparr>)) anchored s"
    unfolding splice_restore_anchors_def k(1) l option.case Let_def or_else_def anchored_def [symmetric] by (simp add: p anchor_of_def k(1))
  then show ?thesis using y
    by (auto simp: slot_get_anchor_fold anchored_def split: option.splits)
qed

lemma rests_after_splice:
  assumes k: "promoted s k" "k \<in> set l" "x \<noteq> k" and l: "monitor_clients s m = Some l" and s': "s' = splice_restore_anchors m k s"
    and l': "l' = filter (\<lambda>y. y \<noteq> k) l"
  shows "rests s l x a t \<Longrightarrow> rests s' l' x (if a = Some k then anchor_of s k else a) t"
    and "rests s' l' x a t \<Longrightarrow> rests s l x a t"
proof -
  from k(1) obtain ck where ck: "slot_get (st_clients s) k = Some ck" "is_floating (c_state ck)" "maximize_restore_tiled (c_state ck)"
    by (auto simp: promoted_def split: option.splits)
  note sl = splice_slot [OF ck(1) k(1) l, folded s']
  have own: "anchor_of s k = maximize_restore_anchor (c_state ck)" by (simp add: anchor_of_def ck(1))
  show "rests s' l' x (if a = Some k then anchor_of s k else a) t" if "rests s l x a t"
    using that
  proof (induction rule: rests.induct)
    case (at_tile a c)
    then have "a \<noteq> k" using ck by auto
    with at_tile sl [OF at_tile(2)] show ?case by (auto simp: l' intro: rests.at_tile)
  next
    case (through a c t)
    show ?case
    proof (cases "a = k")
      case True
      with through ck own show ?thesis by (auto split: if_splits)
    next
      case False
      obtain c' where c': "slot_get (st_clients s') a = Some c'" "is_floating (c_state c')" "maximize_restore_tiled (c_state c')"
        "maximize_restore_anchor (c_state c') = (if maximize_restore_anchor (c_state c) = Some k
           then (case anchor_of s k of None \<Rightarrow> None | Some b \<Rightarrow> if b \<noteq> a then Some b else None)
           else maximize_restore_anchor (c_state c))"
        using sl [OF through(2)] through(3-5) False by auto
      have "rests s' l' x (maximize_restore_anchor (c_state c')) t"
      proof (cases "maximize_restore_anchor (c_state c) = Some k \<and> anchor_of s k = Some a")
        case True
        with through.IH have "rests s' l' x (Some a) t" by simp
        moreover have "maximize_restore_anchor (c_state c') = None" using c'(4) True by simp
        ultimately show ?thesis using c'(1-3) by (auto elim: rests_SomeE rests_NoneE)
      next
        case no: False
        with through.IH c'(4) show ?thesis by (auto split: option.splits if_splits)
      qed
      with through(1,2) False c'(1-3) show ?thesis by (auto simp: l' intro: rests.through)
    qed
  qed
  show "rests s l x a t" if "rests s' l' x a t"
    using that
  proof (induction rule: rests.induct)
    case (at_tile a c)
    then have a: "a \<in> set l" "a \<noteq> k" by (simp_all add: l')
    then show ?case using at_tile(1,3,4) sl [OF a(1)] by (auto intro: rests.at_tile)
  next
    case (through a c t)
    then have a: "a \<in> set l" "a \<noteq> k" by (simp_all add: l')
    from through(3) sl [OF a(1)] obtain c0 where c0: "slot_get (st_clients s) a = Some c0" by auto
    with through(3-5) sl [OF a(1)] a(2) have f: "is_floating (c_state c0)" "maximize_restore_tiled (c_state c0)"
      "maximize_restore_anchor (c_state c) = (if maximize_restore_anchor (c_state c0) = Some k
           then (case anchor_of s k of None \<Rightarrow> None | Some b \<Rightarrow> if b \<noteq> a then Some b else None)
           else maximize_restore_anchor (c_state c0))" by auto
    have "rests s l x (maximize_restore_anchor (c_state c0)) t"
    proof (cases "maximize_restore_anchor (c_state c0) = Some k")
      case True
      then have "maximize_restore_anchor (c_state c) = None \<or> maximize_restore_anchor (c_state c) = anchor_of s k"
        using f(3) by (auto split: option.splits)
      then have "rests s l x (anchor_of s k) t" using through.IH by (auto elim: rests_NoneE)
      then show ?thesis using True rests.through [OF k(3) [symmetric] k(2) ck] own by simp
    next
      case False
      with through.IH f(3) show ?thesis by simp
    qed
    then show ?case using rests.through [OF through(1) a(1) c0 f(1,2)] by simp
  qed
qed

lemma splice_anchor_of:
  assumes "promoted s k" "monitor_clients s m = Some l" "x \<in> set l" "x \<noteq> k"
  shows "anchor_of (splice_restore_anchors m k s) x = (if anchor_of s x = Some k
     then (case anchor_of s k of None \<Rightarrow> None | Some a \<Rightarrow> if a \<noteq> x then Some a else None) else anchor_of s x)"
proof -
  from assms(1) obtain ck where "slot_get (st_clients s) k = Some ck" by (auto simp: promoted_def split: option.splits)
  from splice_slot [OF this assms(1-3)] assms(4) show ?thesis by (auto simp: anchor_of_def split: option.splits)
qed

text \<open>
  A promoted window that closes or leaves the monitor does not cost the others their slots:
  after \<open>splice_restore_anchors\<close>, every remaining window of the list resolves its anchor, in the list
  without the departed window, to exactly the tile it resolved to before.
\<close>

theorem splice_keeps_resting_places:
  assumes "promoted s k" "monitor_clients s m = Some l" "k \<in> set l" "x \<in> set l" "x \<noteq> k"
  shows "resting_anchor (splice_restore_anchors m k s) (filter (\<lambda>y. y \<noteq> k) l) x (anchor_of (splice_restore_anchors m k s) x) =
         resting_anchor s l x (anchor_of s x)"
proof -
  let ?s = "splice_restore_anchors m k s" and ?l = "filter (\<lambda>y. y \<noteq> k) l"
  note r = rests_after_splice [OF assms(1,3,5,2) refl refl]
  have to: "rests ?s ?l x (anchor_of ?s x) t" if "rests s l x (anchor_of s x) t" for t
    using r(1) [OF that] splice_anchor_of [OF assms(1,2,4,5)]
    by (auto elim: rests_SomeE split: option.splits if_splits)
  have from_k: "rests s l x (Some k) t" if "rests s l x (anchor_of s k) t" for t
    using assms(1,3,5) that by (auto simp: promoted_def anchor_of_def split: option.splits intro: rests.through)
  have fro: "rests s l x (anchor_of s x) t" if "rests ?s ?l x (anchor_of ?s x) t" for t
    using r(2) [OF that] splice_anchor_of [OF assms(1,2,4,5)] from_k
    by (auto elim: rests_NoneE split: option.splits if_splits)
  have "(resting_anchor ?s ?l x (anchor_of ?s x) = Some t) = (resting_anchor s l x (anchor_of s x) = Some t)" for t
    unfolding resting_anchor_iff using to fro by blast
  then show ?thesis by (cases "resting_anchor s l x (anchor_of s x)"; cases "resting_anchor ?s ?l x (anchor_of ?s x)") auto
qed

definition promoted_sample :: wm_state where
  "promoted_sample = sample_state\<lparr>st_clients := [(1, sample_client False),
     (2, (sample_client True)\<lparr>c_state := (c_state (sample_client True))\<lparr>maximize_restore_tiled := True, maximize_restore_anchor := Some 1\<rparr>\<rparr>),
     (3, (sample_client True)\<lparr>c_state := (c_state (sample_client True))\<lparr>maximize_restore_tiled := True, maximize_restore_anchor := Some 2\<rparr>\<rparr>)],
     monitor_clients := [1 \<mapsto> [1, 2, 3]]\<rparr>"

theorem splice_keeps_resting_places_witness:
  "resting_anchor (splice_restore_anchors 1 2 promoted_sample) [1, 3] 3 (anchor_of (splice_restore_anchors 1 2 promoted_sample) 3) = Some 1"
proof -
  have p: "promoted promoted_sample 2" by code_simp
  have l: "monitor_clients promoted_sample 1 = Some [1, 2, 3]" by code_simp
  have "resting_anchor promoted_sample [1, 2, 3] 3 (anchor_of promoted_sample 3) = Some 1" by code_simp
  with splice_keeps_resting_places [OF p l, of 3] show ?thesis by simp
qed

section \<open>The maximize round trip\<close>

lemma rests_skip:
  assumes "rests s l k (Some x) t" "slot_get (st_clients s) x = Some c" "is_floating (c_state c)"
  shows "rests s l x (maximize_restore_anchor (c_state c)) t"
proof -
  define N where "N = (LEAST i. resting_anchor_loop i s l k (Some x) = Some t)"
  have N: "resting_anchor_loop N s l k (Some x) = Some t" unfolding N_def using rests_loop [OF assms(1)] by (rule LeastI_ex)
  then obtain n where n: "N = Suc n" by (cases N) auto
  with N assms(2,3) have "resting_anchor_loop n s l k (maximize_restore_anchor (c_state c)) = Some t"
    by (auto simp: loop_Some_iff simp del: resting_anchor_loop.simps(2))
  from loop_avoids [OF this, of x] have "resting_anchor_loop n s (removeAll x l) k (maximize_restore_anchor (c_state c)) = Some t"
    using not_less_Least [of _ "\<lambda>i. resting_anchor_loop i s l k (Some x) = Some t"] n unfolding N_def [symmetric] by auto
  then have "rests s (removeAll x l) k (maximize_restore_anchor (c_state c)) t" by (rule loop_rests)
  then show ?thesis by (induction rule: rests.induct) (auto intro: rests.intros)
qed

lemma rests_other_flags:
  assumes "\<And>y. y \<noteq> k \<Longrightarrow> slot_get (st_clients s2) y = slot_get (st_clients s) y" "set lp = set l"
  shows "rests s2 lp k b t \<Longrightarrow> rests s l k b t"
    and "rests s l x b t \<Longrightarrow> t \<noteq> k \<Longrightarrow> \<not> is_client_floating s k \<Longrightarrow> rests s2 lp k b t"
proof -
  show "rests s2 lp k b t \<Longrightarrow> rests s l k b t"
    by (induction rule: rests.induct) (auto simp: assms intro: rests.intros)
  show "rests s l x b t \<Longrightarrow> t \<noteq> k \<Longrightarrow> \<not> is_client_floating s k \<Longrightarrow> rests s2 lp k b t"
  proof (induction rule: rests.induct)
    case (at_tile a c)
    then show ?case by (auto simp: assms intro: rests.at_tile)
  next
    case (through a c t)
    then have "a \<noteq> k" by (auto simp: is_client_floating_def)
    with through show ?case by (auto simp: assms intro: rests.through)
  qed
qed

text \<open>The recorded anchor resolves, once the window is out of the tiles, to the tile that followed it.\<close>

lemma recorded_anchor_resolves:
  assumes l: "monitor_clients s m = Some l" "position (\<lambda>x. x = k) l = Some pos" "distinct l" and k: "\<not> is_client_floating s k"
    and same: "\<And>y. y \<noteq> k \<Longrightarrow> slot_get (st_clients s2) y = slot_get (st_clients s) y" "set lp = set l"
    and tile: "tile = List.find (\<lambda>x. case slot_get (st_clients s) x of None \<Rightarrow> False | Some c \<Rightarrow> \<not> is_floating (c_state c)) (drop (pos + 1) l)"
  shows "resting_anchor s2 lp k (restore_anchor_after s m k) = tile"
proof -
  define R where "R = filter (\<lambda>x. x \<noteq> k \<and> (case promoted_anchor s x of None \<Rightarrow> False | Some a \<Rightarrow> resting_anchor s l x a = tile)) l"
  define first where "first = List.find (\<lambda>x. \<not> (\<exists>y \<in> set R. promoted_anchor s y = Some (Some x))) R"
  have A: "restore_anchor_after s m k = (case first of Some x \<Rightarrow> Some x | None \<Rightarrow> tile)"
    unfolding restore_anchor_after_def l option.case Let_def tile [symmetric] R_def [symmetric] first_def [symmetric] ..
  have tk: "t \<noteq> k \<and> t \<in> set l \<and> (\<exists>c. slot_get (st_clients s) t = Some c \<and> \<not> is_floating (c_state c))" if "tile = Some t" for t
  proof -
    from that obtain i where i: "i < length (drop (pos + 1) l)" "t = drop (pos + 1) l ! i"
      "case slot_get (st_clients s) t of None \<Rightarrow> False | Some c \<Rightarrow> \<not> is_floating (c_state c)"
      unfolding tile find_Some_iff by blast
    have k': "l ! pos = k" "pos < length l" using position_SomeD [OF l(2)] by auto
    have "t = l ! (pos + 1 + i)" "pos + 1 + i < length l" using i by simp_all
    then have "t \<noteq> k" "t \<in> set l" using k' l(3) nth_eq_iff_index_eq [of l "pos + 1 + i" pos] by auto
    then show ?thesis using i(3) by (auto split: option.splits)
  qed
  have flags: "rests s2 lp k b t \<Longrightarrow> rests s l k b t" "rests s l x b t \<Longrightarrow> t \<noteq> k \<Longrightarrow> rests s2 lp k b t" for x b t
    using rests_other_flags [of k s2 s lp l] same k by blast+
  have "(resting_anchor s2 lp k (restore_anchor_after s m k) = Some t) = (tile = Some t)" for t
  proof (cases first)
    case None
    show ?thesis
    proof (cases tile)
      case (Some u)
      with tk same have "rests s2 lp k (Some u) u" by (auto intro: rests.at_tile)
      with None Some show ?thesis unfolding A resting_anchor_iff by (auto dest: rests_unique)
    qed (simp add: A None resting_anchor_iff, blast elim: rests_NoneE)
  next
    case (Some x)
    then have "x \<in> set R" unfolding first_def by (auto simp: find_Some_iff)
    then obtain a c where x: "x \<noteq> k" "x \<in> set l" "slot_get (st_clients s) x = Some c" "is_floating (c_state c)"
      "maximize_restore_tiled (c_state c)" "resting_anchor s l x (maximize_restore_anchor (c_state c)) = tile"
      by (auto simp: R_def promoted_anchor_def split: option.splits if_splits)
    have "rests s2 lp k (Some x) t" if "tile = Some t"
    proof (rule rests.through)
      show "rests s2 lp k (maximize_restore_anchor (c_state c)) t"
        using flags(2) [where x = x and b = "maximize_restore_anchor (c_state c)" and t = t] x(6) that tk [OF that] k by (simp add: resting_anchor_iff)
    qed (use x same in auto)
    moreover have "tile = Some t" if "rests s2 lp k (Some x) t"
      using rests_skip [OF flags(1) [OF that] x(3,4)] x(6) by (simp add: resting_anchor_iff [symmetric])
    ultimately show ?thesis unfolding A Some by (auto simp: resting_anchor_iff)
  qed
  then show ?thesis by (cases tile; cases "resting_anchor s2 lp k (restore_anchor_after s m k)") auto
qed

lemma vec_insert_removed:
  "position (\<lambda>x. x = k) l = Some pos \<Longrightarrow> vec_insert pos k (vec_remove pos l) = l"
  using position_SomeD [of "\<lambda>x. x = k" l pos] by (auto simp: vec_insert_def vec_remove_def id_take_nth_drop [symmetric])

text \<open>In a grouped list, the tiles after position \<open>pos\<close> start right behind it, or there are none.\<close>

lemma tile_after:
  assumes g: "group_ok s m l" and p: "position (\<lambda>x. x = k) l = Some pos" and k: "\<not> is_client_floating s k"
  shows "(case List.find (\<lambda>x. case slot_get (st_clients s) x of None \<Rightarrow> False | Some c \<Rightarrow> \<not> is_floating (c_state c)) (drop (pos + 1) l) of
      Some t \<Rightarrow> position (\<lambda>x. x = t) (vec_remove pos l) = Some pos
    | None \<Rightarrow> boundary (is_client_floating s) (vec_remove pos l) = pos)"
proof -
  have pos: "pos < length l" "l ! pos = k" using position_SomeD [OF p] by auto
  have d: "distinct l" and tf: "tiled_first (is_client_floating s) l" using g by (auto simp: group_ok_def)
  have ex: "(case slot_get (st_clients s) x of None \<Rightarrow> False | Some c \<Rightarrow> \<not> is_floating (c_state c)) = (\<not> is_client_floating s x)"
    if "x \<in> set l" for x using g that by (auto simp: group_ok_def client_mon_def is_client_floating_def split: option.splits)
  have before: "\<not> is_client_floating s x" if "x \<in> set (take pos l)" for x
    using that tf k pos by (auto simp: in_set_conv_nth tiled_first_def sorted_wrt_iff_nth_less)
  show ?thesis
  proof (cases "drop (pos + 1) l")
    case Nil
    then have "vec_remove pos l = take pos l" "length (take pos l) = pos" using pos by (simp_all add: vec_remove_def)
    moreover have "position (is_client_floating s) (take pos l) = None" using before by (auto simp: position_None_iff)
    ultimately show ?thesis using Nil by (simp add: boundary_def or_else_def)
  next
    case (Cons y ys)
    have v: "vec_remove pos l = take pos l @ y # ys" using Cons by (simp add: vec_remove_def)
    have lt: "length (take pos l) = pos" using pos by simp
    have yl: "y \<in> set l" using Cons by (metis in_set_dropD list.set_intros(1))
    have notin: "y \<notin> set (take pos l)"
    proof -
      have "distinct (take (pos + 1) l @ drop (pos + 1) l)" using d by simp
      then show ?thesis using Cons set_take_subset_set_take [of pos "pos + 1" l] by (auto simp del: append_take_drop_id)
    qed
    have posapp: "position P (take pos l @ y # ys) = Some pos" if "P y" "\<And>x. x \<in> set (take pos l) \<Longrightarrow> \<not> P x" for P
    proof -
      have "position P (xs @ y # ys) = Some (length xs)" if "\<And>x. x \<in> set xs \<Longrightarrow> \<not> P x" for xs
        using that \<open>P y\<close> by (induction xs) auto
      from this [of "take pos l"] that(2) lt show ?thesis by simp
    qed
    show ?thesis
    proof (cases "is_client_floating s y")
      case False
      moreover have "position (\<lambda>x. x = y) (take pos l @ y # ys) = Some pos" by (rule posapp) (use notin in auto)
      ultimately show ?thesis unfolding Cons v by (simp add: ex [OF yl])
    next
      case True
      have all: "is_client_floating s x" if "x \<in> set (y # ys)" for x
      proof -
        have "sorted_wrt (\<lambda>a b. is_client_floating s a \<longrightarrow> is_client_floating s b) (y # ys)"
          using tf Cons unfolding tiled_first_def by (metis sorted_wrt_drop)
        with True that show ?thesis by auto
      qed
      have "List.find (\<lambda>x. case slot_get (st_clients s) x of None \<Rightarrow> False | Some c \<Rightarrow> \<not> is_floating (c_state c)) (y # ys) = None"
        unfolding find_None_iff using all ex Cons by (metis in_set_dropD)
      with posapp [of "is_client_floating s"] True before show ?thesis unfolding Cons v by (simp add: boundary_def or_else_def)
    qed
  qed
qed

lemma promote_client_list:
  assumes "wf_lists s" "client_mon s k = Some m" "monitor_clients s m = Some l" "k \<in> set l"
  shows "promote_client m k s = set_clients m (remove_first k l @ [k])
     (client_state_update k (\<lambda>st. st\<lparr>maximize_restore_tiled := True, maximize_restore_anchor := restore_anchor_after s m k,
              is_floating := True, is_drag_floating := False\<rparr>) s)" (is "_ = set_clients m _ ?s1")
proof -
  obtain pos where p: "position (\<lambda>x. x = k) l = Some pos" using position_ex [OF assms(4), of "\<lambda>x. x = k"] by auto
  from assms(2) have "is_client_floating ?s1 k"
    by (auto simp: is_client_floating_def slot_get_client_state_update client_mon_def split: option.splits)
  then show ?thesis
    by (simp add: promote_client_def reorder_client_in_monitor_groups_def assms(2,3) p vec_remove_position [OF p])
qed

lemma slot_get_set_clients [simp]: "st_clients (set_clients m l s) = st_clients s"
  by (simp add: set_clients_def)

lemma client_state_update_set_clients: "client_state_update k f (set_clients m l s) = set_clients m l (client_state_update k f s)"
  by (simp add: client_state_update_def set_clients_def)

text \<open>
  C19. Maximizing a tile and leaving maximize again puts it back into its own slot: the client list
  is what it was before, with any number of other windows promoted at the time.
\<close>

theorem maximize_round_trip_keeps_slot:
  assumes "wf_lists s" "client_mon s k = Some m" "monitor_clients s m = Some l" "k \<in> set l" "\<not> is_client_floating s k"
  shows "monitor_clients (retile_client m k (promote_client m k s)) = monitor_clients s"
proof -
  let ?A = "restore_anchor_after s m k" and ?l = "remove_first k l @ [k]"
  define s2 where "s2 = client_state_update k (\<lambda>st. st\<lparr>is_floating := False, is_drag_floating := False,
                 maximize_restore_tiled := False, maximize_restore_anchor := None\<rparr>) (promote_client m k s)"
  obtain pos where p: "position (\<lambda>x. x = k) l = Some pos" using position_ex [OF assms(4), of "\<lambda>x. x = k"] by auto
  have g: "group_ok s m l" using assms(1,3) by (simp add: wf_lists_def)
  then have d: "distinct l" by (simp add: group_ok_def)
  note P = promote_client_list [OF assms(1-4)]
  have A: "(case slot_get (st_clients (promote_client m k s)) k of None \<Rightarrow> None | Some c \<Rightarrow> maximize_restore_anchor (c_state c)) = ?A"
    using assms(2) unfolding P by (auto simp: slot_get_client_state_update client_mon_def split: option.splits)
  have m2: "monitor_clients s2 = (monitor_clients s)(m \<mapsto> ?l)" "client_mon s2 = client_mon s"
    by (simp_all add: s2_def P)
  have same: "slot_get (st_clients s2) y = slot_get (st_clients s) y" if "y \<noteq> k" for y
    using that by (simp add: s2_def P slot_get_client_state_update)
  have kf: "\<not> is_client_floating s2 k"
    by (auto simp: s2_def is_client_floating_def slot_get_client_state_update split: option.splits)
  have ff: "is_client_floating s2 = is_client_floating s"
  proof
    fix x show "is_client_floating s2 x = is_client_floating s x"
      using kf assms(5) same [of x] by (cases "x = k") (simp_all add: is_client_floating_def)
  qed
  have sl: "set ?l = set l" using assms(4) set_remove_first [OF d, of k] by auto
  have kl: "k \<notin> set (remove_first k l)" using set_remove_first [OF d, of k] by auto
  have pk: "position (\<lambda>x. x = k) ?l = Some (length (remove_first k l))"
  proof -
    have "k \<notin> set xs \<Longrightarrow> position (\<lambda>x. x = k) (xs @ [k]) = Some (length xs)" for xs by (induction xs) auto
    then show ?thesis using kl by blast
  qed
  have bk: "vec_insert pos k (remove_first k l) = l" using vec_insert_removed [OF p] vec_remove_position [OF p] by simp
  define tile where "tile = List.find (\<lambda>x. case slot_get (st_clients s) x of None \<Rightarrow> False | Some c \<Rightarrow> \<not> is_floating (c_state c)) (drop (pos + 1) l)"
  have R: "resting_anchor s2 ?l k ?A = tile"
    using recorded_anchor_resolves [OF assms(3) p d assms(5) same sl tile_def] by simp
  note T = tile_after [OF g p assms(5), folded tile_def, unfolded vec_remove_position [OF p]]
  have rm: "vec_remove (length (remove_first k l)) ?l = remove_first k l" by (simp add: vec_remove_def)
  have "monitor_clients (retile_client m k (promote_client m k s)) = (monitor_clients s)(m \<mapsto> l)"
  proof (cases tile)
    case (Some t)
    with T have pt: "position (\<lambda>x. x = t) (remove_first k l) = Some pos" by simp
    have pl: "position (\<lambda>x. x = t) ?l = Some pos"
    proof -
      have "position Q xs = Some i \<Longrightarrow> position Q (xs @ ys) = Some i" for Q xs ys i
        by (induction xs arbitrary: i) auto
      then show ?thesis using pt by blast
    qed
    have lt: "pos < length (remove_first k l)" using position_SomeD [OF pt] by simp
    have "retile_before_anchor m k ?A s2 = (True, set_clients m l s2)"
      using lt bk by (simp add: retile_before_anchor_def m2 R Some pk pl rm nth_append)
    then show ?thesis unfolding retile_client_def A Let_def s2_def [symmetric] by (simp add: m2)
  next
    case None
    with T have b: "boundary (is_client_floating s) (remove_first k l) = pos" by simp
    have "retile_before_anchor m k ?A s2 = (False, s2)" by (simp add: retile_before_anchor_def m2 R None)
    moreover have "reorder_client_in_monitor_groups k s2 = set_clients m l s2"
      using b bk kf by (simp add: reorder_client_in_monitor_groups_def m2 assms(2) pk rm ff boundary_def Let_def)
    ultimately show ?thesis unfolding retile_client_def A Let_def s2_def [symmetric] by (simp add: m2)
  qed
  then show ?thesis using assms(3) by (simp add: fun_upd_idem)
qed

theorem maximize_round_trip_keeps_slot_witness:
  "monitor_clients (retile_client 1 1 (promote_client 1 1 sample_state)) 1 = Some [1, 2]"
proof -
  have "client_mon sample_state 1 = Some 1" "monitor_clients sample_state 1 = Some [1, 2]" "\<not> is_client_floating sample_state 1"
    by code_simp+
  with maximize_round_trip_keeps_slot [OF sample_state_wf, of 1 1 "[1, 2]"] show ?thesis by simp
qed

section \<open>The resting order\<close>

text \<open>
  \<open>resting_order\<close>: the list as it would be once nothing is maximized. One call of \<open>resting_pass\<close> is the
  inner loop over the pending windows, which places a window or leaves it for the next round; the
  outer loop stops when a round places nothing.
\<close>

definition rest_promoted :: "wm_state \<Rightarrow> client_key \<Rightarrow> bool" where
  "rest_promoted s k = (case slot_get (st_clients s) k of None \<Rightarrow> False
     | Some c \<Rightarrow> maximize_restore_tiled (c_state c) \<and> is_floating (c_state c) \<and> axes_any (maximized_axes (c_state c)))"

definition rest_place :: "wm_state \<Rightarrow> client_key list \<Rightarrow> client_key list \<Rightarrow> client_key \<Rightarrow> client_key option \<Rightarrow> client_key list" where
  "rest_place s promoted_keys order key before =
     (let found = (case before of None \<Rightarrow> None | Some b \<Rightarrow> position (\<lambda>x. x = b) order);
          end_of_tiles = position (\<lambda>x. x \<notin> set promoted_keys \<and> is_client_floating s x) order;
          index = or_else (case found of Some i \<Rightarrow> Some i | None \<Rightarrow> end_of_tiles) (length order)
      in vec_insert index key order)"

primrec resting_pass :: "wm_state \<Rightarrow> client_key list \<Rightarrow> client_key list \<Rightarrow> client_key list \<Rightarrow> client_key list \<Rightarrow>
    client_key list \<times> client_key list" where
  "resting_pass s list promoted_keys [] order = ([], order)"
| "resting_pass s list promoted_keys (key # pending) order =
     (let anchor = (case slot_get (st_clients s) key of None \<Rightarrow> None | Some c \<Rightarrow> maximize_restore_anchor (c_state c));
          promoted_anchor = (case anchor of None \<Rightarrow> None
             | Some a \<Rightarrow> if a \<noteq> key \<and> a \<in> set promoted_keys then Some a else None)
      in case promoted_anchor of
           Some a \<Rightarrow>
             if a \<notin> set order
             then (let (rest, order') = resting_pass s list promoted_keys pending order in (key # rest, order'))
             else resting_pass s list promoted_keys pending (rest_place s promoted_keys order key (Some a))
         | None \<Rightarrow> resting_pass s list promoted_keys pending
                     (rest_place s promoted_keys order key (resting_anchor s list key anchor)))"

lemma resting_pass_length: "length (fst (resting_pass s list pk pending order)) \<le> length pending"
proof (induction pending arbitrary: order)
  case (Cons key pending)
  show ?case using Cons.IH by (auto simp: Let_def case_prod_beta le_SucI split: option.splits)
qed simp

function resting_loop :: "wm_state \<Rightarrow> client_key list \<Rightarrow> client_key list \<Rightarrow> client_key list \<Rightarrow> client_key list \<Rightarrow> client_key list" where
  "resting_loop s list pk pending order =
     (if pending = [] then order
      else let (pending', order') = resting_pass s list pk pending order
           in if length pending' = length pending
              then fold (\<lambda>key order. rest_place s pk order key None) pending' order'
              else resting_loop s list pk pending' order')"
  by pat_completeness auto
termination
proof (relation "measure (\<lambda>(s, list, pk, pending, order). length pending)", simp)
  fix s list pk pending order x pending' order'
  assume "x = resting_pass s list pk pending order" "(pending', order') = x" "length pending' \<noteq> length pending"
  then show "((s, list, pk, pending', order'), (s, list, pk, pending, order)) \<in> measure (\<lambda>(s, list, pk, pending, order). length pending)"
    using resting_pass_length [of s list pk pending order] by (metis (no_types, lifting) case_prod_conv fst_conv in_measure le_neq_implies_less)
qed

declare resting_loop.simps [simp del]

definition resting_order :: "wm_state \<Rightarrow> client_key list \<Rightarrow> client_key list" where
  "resting_order s list =
     (let promoted_keys = filter (rest_promoted s) list;
          order = filter (\<lambda>k. \<not> rest_promoted s k) list
      in resting_loop s list promoted_keys promoted_keys order)"

text \<open>What one placement keeps, as a relation between the lists before and after a round.\<close>

definition rest_ok :: "wm_state \<Rightarrow> client_key list \<Rightarrow> client_key list \<Rightarrow> client_key list \<Rightarrow> bool" where
  "rest_ok s pk tiles order \<longleftrightarrow> filter (\<lambda>x. x \<notin> set pk) order = tiles \<and>
     tiled_first (\<lambda>x. x \<notin> set pk \<and> is_client_floating s x) order"

lemma mset_vec_insert: "mset (vec_insert i x xs) = add_mset x (mset xs)"
proof -
  have "mset (take i xs) + mset (drop i xs) = mset xs" by (metis append_take_drop_id mset_append)
  then show ?thesis by (simp add: vec_insert_def)
qed

lemma mset_rest_place: "mset (rest_place s pk order key b) = add_mset key (mset order)"
  by (simp add: rest_place_def Let_def mset_vec_insert)

lemma rest_place_ok:
  assumes "rest_ok s pk tiles order" "key \<in> set pk"
    "\<And>b. before = Some b \<Longrightarrow> \<not> (b \<notin> set pk \<and> is_client_floating s b)"
  shows "rest_ok s pk tiles (rest_place s pk order key before)"
proof -
  let ?fl = "\<lambda>x. x \<notin> set pk \<and> is_client_floating s x"
  define i where "i = or_else (case (case before of None \<Rightarrow> None | Some b \<Rightarrow> position (\<lambda>x. x = b) order) of
      Some i \<Rightarrow> Some i | None \<Rightarrow> position ?fl order) (length order)"
  have p: "rest_place s pk order key before = vec_insert i key order" unfolding rest_place_def Let_def i_def ..
  have tf: "tiled_first ?fl order" using assms(1) by (simp add: rest_ok_def)
  have "i \<le> boundary ?fl order"
  proof (cases "\<exists>b j. before = Some b \<and> position (\<lambda>x. x = b) order = Some j")
    case True
    then obtain b j where b: "before = Some b" "position (\<lambda>x. x = b) order = Some j" by blast
    with tile_before_boundary [OF tf b(2) assms(3) [OF b(1)]] show ?thesis by (simp add: i_def or_else_def)
  next
    case False
    then show ?thesis by (auto simp: i_def boundary_def or_else_def split: option.splits)
  qed
  then have "tiled_first ?fl (vec_insert i key order)" using tiled_first_insert [OF tf, of key i] assms(2) by simp
  moreover have "filter (\<lambda>x. x \<notin> set pk) (vec_insert i key order) = filter (\<lambda>x. x \<notin> set pk) order"
  proof -
    have "filter (\<lambda>x. x \<notin> set pk) (take i order) @ filter (\<lambda>x. x \<notin> set pk) (drop i order) = filter (\<lambda>x. x \<notin> set pk) order"
      by (metis append_take_drop_id filter_append)
    then show ?thesis using assms(2) by (simp add: filter_vec_insert)
  qed
  ultimately show ?thesis using assms(1) unfolding p rest_ok_def by simp
qed

lemma resting_pass_ok:
  assumes "resting_pass s list pk pending order = (pending', order')" "set pending \<subseteq> set pk" "rest_ok s pk tiles order"
  shows "rest_ok s pk tiles order' \<and> set pending' \<subseteq> set pk \<and> mset pending' + mset order' = mset pending + mset order"
  using assms
proof (induction pending arbitrary: order pending' order')
  case (Cons key pending)
  define anchor where "anchor = (case slot_get (st_clients s) key of None \<Rightarrow> None | Some c \<Rightarrow> maximize_restore_anchor (c_state c))"
  define pa where "pa = (case anchor of None \<Rightarrow> None | Some a \<Rightarrow> if a \<noteq> key \<and> a \<in> set pk then Some a else None)"
  have key: "key \<in> set pk" "set pending \<subseteq> set pk" using Cons.prems(2) by auto
  have pl: "rest_ok s pk tiles (rest_place s pk order key before)" if "\<And>b. before = Some b \<Longrightarrow> \<not> (b \<notin> set pk \<and> is_client_floating s b)" for before
    using rest_place_ok [OF Cons.prems(3) key(1) that] .
  have placed: ?case if "resting_pass s list pk pending (rest_place s pk order key before) = (pending', order')"
    "\<And>b. before = Some b \<Longrightarrow> \<not> (b \<notin> set pk \<and> is_client_floating s b)" for before
    using Cons.IH [OF that(1) key(2) pl [OF that(2)]] by (simp add: mset_rest_place)
  show ?case
  proof (cases pa)
    case None
    have "resting_pass s list pk pending (rest_place s pk order key (resting_anchor s list key anchor)) = (pending', order')"
      using Cons.prems(1) None by (simp add: Let_def anchor_def [symmetric] pa_def [symmetric])
    then show ?thesis by (rule placed) (auto dest: resting_anchor_tile)
  next
    case (Some a)
    then have a: "a \<in> set pk" by (auto simp: pa_def split: option.splits if_splits)
    show ?thesis
    proof (cases "a \<in> set order")
      case True
      have "resting_pass s list pk pending (rest_place s pk order key (Some a)) = (pending', order')"
        using Cons.prems(1) Some True by (simp add: Let_def anchor_def [symmetric] pa_def [symmetric])
      then show ?thesis by (rule placed) (use a in auto)
    next
      case False
      obtain r o' where r: "resting_pass s list pk pending order = (r, o')" by fastforce
      have "pending' = key # r" "order' = o'"
        using Cons.prems(1) Some False r by (simp_all add: Let_def anchor_def [symmetric] pa_def [symmetric])
      with Cons.IH [OF r key(2) Cons.prems(3)] key(1) show ?thesis by simp
    qed
  qed
qed simp

lemma rest_fold_ok:
  assumes "set pending \<subseteq> set pk" "rest_ok s pk tiles order"
  shows "rest_ok s pk tiles (fold (\<lambda>key order. rest_place s pk order key None) pending order) \<and>
    mset (fold (\<lambda>key order. rest_place s pk order key None) pending order) = mset pending + mset order"
  using assms
proof (induction pending arbitrary: order)
  case (Cons key pending)
  then have "rest_ok s pk tiles (rest_place s pk order key None)" by (intro rest_place_ok) auto
  with Cons.IH [OF _ this] Cons.prems(1) show ?case by (simp add: mset_rest_place)
qed simp

lemma resting_loop_ok:
  assumes "set pending \<subseteq> set pk" "rest_ok s pk tiles order"
  shows "rest_ok s pk tiles (resting_loop s list pk pending order) \<and>
    mset (resting_loop s list pk pending order) = mset pending + mset order"
  using assms
proof (induction s list pk pending order rule: resting_loop.induct)
  case (1 s list pk pending order)
  obtain p' o' where r: "resting_pass s list pk pending order = (p', o')" by fastforce
  note ok = resting_pass_ok [OF r "1.prems"]
  show ?case
  proof (cases "pending = []")
    case True
    with "1.prems" show ?thesis by (simp add: resting_loop.simps [of s list pk "[]" order])
  next
    case ne: False
    show ?thesis
    proof (cases "length p' = length pending")
      case True
      with rest_fold_ok [of p' pk s tiles o'] ok ne r show ?thesis by (simp add: resting_loop.simps [of s list pk pending order])
    next
      case False
      with "1.IH" [OF ne refl r [symmetric] False] ok ne r show ?thesis by (simp add: resting_loop.simps [of s list pk pending order])
    qed
  qed
qed

text \<open>
  C20. The saved resting order: \<open>resting_order\<close> terminates on every assignment of anchors and returns a
  permutation of the list; the windows maximize did not promote keep their relative order, and
  every promoted window is put back among the tiles, ahead of the floating windows.
\<close>

theorem resting_order_puts_tiles_back:
  assumes "group_ok s m l"
  shows "mset (resting_order s l) = mset l \<and>
    filter (\<lambda>k. \<not> rest_promoted s k) (resting_order s l) = filter (\<lambda>k. \<not> rest_promoted s k) l \<and>
    tiled_first (\<lambda>k. is_client_floating s k \<and> \<not> rest_promoted s k) (resting_order s l)"
proof -
  let ?pk = "filter (rest_promoted s) l" and ?ts = "filter (\<lambda>k. \<not> rest_promoted s k) l"
  have "tiled_first (\<lambda>x. x \<notin> set ?pk \<and> is_client_floating s x) ?ts = tiled_first (is_client_floating s) ?ts"
    by (rule tiled_first_cong) auto
  then have "rest_ok s ?pk ?ts ?ts" using assms by (auto simp: rest_ok_def group_ok_def tiled_first_filter intro!: filter_cong)
  from resting_loop_ok [OF _ this, of ?pk l]
  have r: "rest_ok s ?pk ?ts (resting_order s l)" "mset (resting_order s l) = mset ?pk + mset ?ts"
    by (simp_all add: resting_order_def Let_def)
  have m: "mset (resting_order s l) = mset l" using r(2) by (simp add: mset_filter multiset_partition [symmetric])
  have e: "x \<notin> set ?pk \<longleftrightarrow> \<not> rest_promoted s x" if "x \<in> set (resting_order s l)" for x
    using that mset_eq_setD [OF m] by auto
  have "filter (\<lambda>k. \<not> rest_promoted s k) (resting_order s l) = filter (\<lambda>x. x \<notin> set ?pk) (resting_order s l)"
    by (rule filter_cong) (use e in auto)
  moreover have "tiled_first (\<lambda>k. is_client_floating s k \<and> \<not> rest_promoted s k) (resting_order s l) =
      tiled_first (\<lambda>x. x \<notin> set ?pk \<and> is_client_floating s x) (resting_order s l)"
    by (rule tiled_first_cong) (use e in auto)
  ultimately show ?thesis using r(1) m by (simp add: rest_ok_def)
qed

theorem resting_order_puts_tiles_back_witness:
  "mset (resting_order promoted_sample [1, 2, 3]) = mset [1, 2, 3]"
proof -
  have "tiled_first (is_client_floating promoted_sample) [1, 2, 3]" "client_mon promoted_sample 1 = Some 1"
    "client_mon promoted_sample 2 = Some 1" "client_mon promoted_sample 3 = Some 1" by code_simp+
  then have "group_ok promoted_sample 1 [1, 2, 3]" by (simp add: group_ok_def)
  from resting_order_puts_tiles_back [OF this] show ?thesis by simp
qed

end
