(* ===== verification/Scrolling_Strip.thy ===== *)
theory Scrolling_Strip
  imports Models "HOL-Library.Multiset"
begin

text \<open>
  \<open>ScrollingState\<close> of \<open>src/core/models.rs\<close>: the columns of the scrolling layout with their parallel
  metadata vectors. The in-place compaction of \<open>retain_non_empty_columns\<close> is modelled as the loop the
  code runs, with reads and writes into the same vectors, and proved equal to the obvious filter.
\<close>

record scrolling_state =
  sc_columns :: "client_key list list"
  sc_width_factors :: "flt list"
  sc_focused_clients :: "client_key option list"
  sc_focused_column :: "nat option"
  attach_to_focused :: bool
  sc_viewport_x :: flt

definition scrolling_new :: scrolling_state where
  "scrolling_new = \<lparr>sc_columns = [], sc_width_factors = [], sc_focused_clients = [], sc_focused_column = None,
     attach_to_focused = False, sc_viewport_x = Fin 0\<rparr>"

definition ensure_column_metadata :: "scrolling_state \<Rightarrow> scrolling_state" where
  "ensure_column_metadata s =
     (let n = length (sc_columns s)
      in s\<lparr>sc_width_factors := take n (vec_resize n (Fin 1) (sc_width_factors s)),
           sc_focused_clients := take n (vec_resize n None (sc_focused_clients s))\<rparr>)"

definition remember_focus :: "client_key \<Rightarrow> scrolling_state \<Rightarrow> scrolling_state" where
  "remember_focus k s0 =
     (let s = ensure_column_metadata s0
      in case position (\<lambda>col. k \<in> set col) (sc_columns s) of
           None \<Rightarrow> s
         | Some i \<Rightarrow> s\<lparr>sc_focused_clients := (sc_focused_clients s)[i := Some k], sc_focused_column := Some i\<rparr>)"

definition focused_column_index :: "scrolling_state \<Rightarrow> nat option" where
  "focused_column_index s = (case sc_focused_column s of
     None \<Rightarrow> None | Some i \<Rightarrow> if i < length (sc_columns s) then Some i else None)"

definition set_focused_column :: "nat \<Rightarrow> scrolling_state \<Rightarrow> scrolling_state" where
  "set_focused_column i s = (if i < length (sc_columns s) then s\<lparr>sc_focused_column := Some i\<rparr> else s)"

definition first_of :: "'a list \<Rightarrow> 'a option" where
  "first_of xs = (case xs of [] \<Rightarrow> None | x # _ \<Rightarrow> Some x)"

text \<open>\<open>focus.filter(|key| col.contains(key)).or_else(|| col.first())\<close>.\<close>

definition column_focus :: "client_key list \<Rightarrow> client_key option \<Rightarrow> client_key option" where
  "column_focus col f = (case f of Some k \<Rightarrow> if k \<in> set col then Some k else first_of col | None \<Rightarrow> first_of col)"

definition target_for_column :: "nat \<Rightarrow> scrolling_state \<Rightarrow> client_key option" where
  "target_for_column i s = (case vec_get (sc_columns s) i of
     None \<Rightarrow> None
   | Some col \<Rightarrow> (case vec_get (sc_focused_clients s) i of
        None \<Rightarrow> first_of col | Some f \<Rightarrow> column_focus col f))"

text \<open>
  The closure of \<open>columns.retain\<close> over the columns left to visit: \<open>old_idx\<close> reads, \<open>retained_len\<close>
  writes, into the same two vectors. The result is the kept columns, the vectors, the number of
  kept columns and the new focused column.
\<close>

primrec compact_columns :: "nat option \<Rightarrow> client_key list list \<Rightarrow> nat \<Rightarrow> nat \<Rightarrow> flt list \<Rightarrow> client_key option list \<Rightarrow> nat option \<Rightarrow>
    client_key list list \<times> flt list \<times> client_key option list \<times> nat \<times> nat option" where
  "compact_columns old_focused [] old_idx retained_len widths focuses focused = ([], widths, focuses, retained_len, focused)"
| "compact_columns old_focused (col # cols) old_idx retained_len widths focuses focused =
     (if col = [] then compact_columns old_focused cols (old_idx + 1) retained_len widths focuses focused
      else let width = widths ! old_idx;
               focus = column_focus col (focuses ! old_idx);
               focused' = (if old_focused = Some old_idx then Some retained_len else focused);
               (kept, rest) = compact_columns old_focused cols (old_idx + 1) (retained_len + 1)
                   (widths[retained_len := width]) (focuses[retained_len := focus]) focused'
           in (col # kept, rest))"

definition retain_non_empty_columns :: "scrolling_state \<Rightarrow> scrolling_state" where
  "retain_non_empty_columns s0 =
     (let s = ensure_column_metadata s0;
          (kept, widths, focuses, retained_len, focused) =
             compact_columns (sc_focused_column s) (sc_columns s) 0 0 (sc_width_factors s) (sc_focused_clients s) None;
          focuses' = take retained_len focuses;
          chosen = (case focused of Some i \<Rightarrow> Some i | None \<Rightarrow> position (\<lambda>f. f \<noteq> None) focuses')
      in s\<lparr>sc_columns := kept, sc_width_factors := take retained_len widths, sc_focused_clients := focuses',
           sc_focused_column := (case chosen of None \<Rightarrow> None | Some i \<Rightarrow> if i < length kept then Some i else None)\<rparr>)"

definition insert_new_client :: "client_key \<Rightarrow> scrolling_state \<Rightarrow> scrolling_state" where
  "insert_new_client k s0 =
     (if \<exists>col \<in> set (sc_columns s0). k \<in> set col then s0
      else let s = ensure_column_metadata s0;
               fresh = s\<lparr>sc_columns := sc_columns s @ [[k]], sc_width_factors := sc_width_factors s @ [Fin 1],
                         sc_focused_clients := sc_focused_clients s @ [Some k],
                         sc_focused_column := Some (length (sc_columns s))\<rparr>
           in if attach_to_focused s
              then (case focused_column_index s of
                      Some i \<Rightarrow> s\<lparr>sc_columns := (sc_columns s)[i := sc_columns s ! i @ [k]],
                                  sc_focused_clients := (sc_focused_clients s)[i := Some k], sc_focused_column := Some i\<rparr>
                    | None \<Rightarrow> fresh)
              else fresh)"

definition ordered_visible_clients :: "client_key list \<Rightarrow> scrolling_state \<Rightarrow> client_key list" where
  "ordered_visible_clients visible s =
     (let strip = first_seen [] (filter (\<lambda>k. k \<in> set visible) (concat (sc_columns s)))
      in strip @ first_seen strip visible)"

record overview_geometry =
  ov_client :: client_key
  ov_column_index :: nat
  ov_x_ratio :: flt
  ov_width_ratio :: flt
  ov_y_ratio :: flt
  ov_height_ratio :: flt
  ov_focused_column :: bool

definition column_weight :: "scrolling_state \<Rightarrow> nat \<Rightarrow> flt" where
  "column_weight s i = fmax (case vec_get (sc_width_factors s) i of None \<Rightarrow> Fin 1 | Some f \<Rightarrow> f) (rnd32 (1 / 10))"

primrec overview_columns :: "scrolling_state \<Rightarrow> client_key list \<Rightarrow> flt \<Rightarrow> nat \<Rightarrow> flt \<Rightarrow> client_key list list \<Rightarrow>
    overview_geometry list \<times> flt" where
  "overview_columns s visible total_weight i cursor [] = ([], cursor)"
| "overview_columns s visible total_weight i cursor (col # cols) =
     (let weight = column_weight s i;
          column_x = div32 cursor total_weight;
          column_width = div32 weight total_weight;
          shown = filter (\<lambda>k. k \<in> set visible) col;
          row_height = (if shown = [] then Fin 1 else div32 (Fin 1) (f32_of (int (length shown))));
          here = map (\<lambda>(row, k). \<lparr>ov_client = k, ov_column_index = i, ov_x_ratio = column_x, ov_width_ratio = column_width,
                     ov_y_ratio = mul32 (f32_of (int row)) row_height, ov_height_ratio = row_height,
                     ov_focused_column = (focused_column_index s = Some i)\<rparr>) (enumerate 0 shown);
          (rest, cursor') = overview_columns s visible total_weight (i + 1) (add32 cursor weight) cols
      in (here @ rest, cursor'))"

primrec overview_orphans :: "flt \<Rightarrow> nat \<Rightarrow> flt \<Rightarrow> client_key list \<Rightarrow> overview_geometry list" where
  "overview_orphans total_weight i cursor [] = []"
| "overview_orphans total_weight i cursor (k # ks) =
     \<lparr>ov_client = k, ov_column_index = i, ov_x_ratio = div32 cursor total_weight, ov_width_ratio = div32 (Fin 1) total_weight,
      ov_y_ratio = Fin 0, ov_height_ratio = Fin 1, ov_focused_column = False\<rparr>
     # overview_orphans total_weight (i + 1) (add32 cursor (Fin 1)) ks"

definition overview_strip_geometry :: "client_key list \<Rightarrow> scrolling_state \<Rightarrow> overview_geometry list" where
  "overview_strip_geometry visible s =
     (let column_clients = concat (sc_columns s);
          orphan_count = length (filter (\<lambda>k. k \<notin> set column_clients) visible);
          weights = map (\<lambda>i. column_weight s i) [0..<length (sc_columns s)];
          total_weight = add32 (fold (\<lambda>w acc. add32 acc w) weights (Fin 0)) (f32_of (int orphan_count))
      in if flt_leq total_weight (Fin 0) then []
         else let (geometry, cursor) = overview_columns s visible total_weight 0 (Fin 0) (sc_columns s);
                  seen = map ov_client geometry
              in geometry @ overview_orphans total_weight (length (sc_columns s)) cursor (first_seen seen visible))"

section \<open>Compaction is filtering\<close>

definition kept_widths :: "client_key list list \<Rightarrow> flt list \<Rightarrow> flt list" where
  "kept_widths cols ws = map snd (filter (\<lambda>(col, w). col \<noteq> []) (zip cols ws))"

definition kept_focuses :: "client_key list list \<Rightarrow> client_key option list \<Rightarrow> client_key option list" where
  "kept_focuses cols fs = map (\<lambda>(col, f). column_focus col f) (filter (\<lambda>(col, f). col \<noteq> []) (zip cols fs))"

text \<open>Where the old focused column went: the number of non-empty columns before it.\<close>

definition kept_focus_index :: "nat option \<Rightarrow> client_key list list \<Rightarrow> nat option" where
  "kept_focus_index old cols = (case old of None \<Rightarrow> None
     | Some i \<Rightarrow> if i < length cols \<and> cols ! i \<noteq> [] then Some (length (filter (\<lambda>c. c \<noteq> []) (take i cols))) else None)"

lemma drop_Suc_update: "r \<le> i \<Longrightarrow> drop (Suc i) (xs[r := v]) = drop (Suc i) xs"
  by (simp add: drop_update_cancel)

lemma take_Suc_update: "r < length xs \<Longrightarrow> take (Suc r) (xs[r := v]) = take r xs @ [v]"
  by (simp add: take_Suc_conv_app_nth)

lemma zip_drop_nth: "i < length xs \<Longrightarrow> zip (c # cols) (drop i xs) = (c, xs ! i) # zip cols (drop (Suc i) xs)"
  by (simp flip: Cons_nth_drop_Suc)

lemma compact_columns_vectors:
  assumes "r \<le> idx" "length widths = idx + length cols" "length focuses = idx + length cols"
    "compact_columns old cols idx r widths focuses foc = (kept, widths', focuses', r', foc')"
  shows "kept = filter (\<lambda>c. c \<noteq> []) cols \<and> r' = r + length kept \<and>
    take r' widths' = take r widths @ kept_widths cols (drop idx widths) \<and>
    take r' focuses' = take r focuses @ kept_focuses cols (drop idx focuses)"
  using assms
proof (induction cols arbitrary: idx r widths focuses foc kept)
  case Nil
  then show ?case by (auto simp: kept_widths_def kept_focuses_def)
next
  case (Cons c cols)
  have z: "zip (c # cols) (drop idx widths) = (c, widths ! idx) # zip cols (drop (Suc idx) widths)"
    "zip (c # cols) (drop idx focuses) = (c, focuses ! idx) # zip cols (drop (Suc idx) focuses)"
    using Cons.prems(2,3) by (simp_all add: zip_drop_nth)
  show ?case
  proof (cases "c = []")
    case True
    then show ?thesis
      using Cons.IH [of r "idx + 1" widths focuses foc kept] Cons.prems z
      by (auto simp: kept_widths_def kept_focuses_def)
  next
    case False
    let ?w = "widths[r := widths ! idx]" and ?f = "focuses[r := column_focus c (focuses ! idx)]"
    from False Cons.prems(4) obtain kept1 where k: "kept = c # kept1"
      "compact_columns old cols (idx + 1) (r + 1) ?w ?f (if old = Some idx then Some r else foc) = (kept1, widths', focuses', r', foc')"
      by (auto simp: Let_def split: prod.splits)
    have l: "r < length widths" "r < length focuses" using Cons.prems(1,2,3) by auto
    from Cons.IH [OF _ _ _ k(2)] Cons.prems(1,2,3) False k(1) l z show ?thesis
      by (auto simp: kept_widths_def kept_focuses_def take_Suc_update drop_Suc_update)
  qed
qed

lemma compact_columns_focus:
  "snd (snd (snd (snd (compact_columns old cols idx r widths focuses foc)))) =
     (case old of None \<Rightarrow> foc
      | Some i \<Rightarrow> if idx \<le> i \<and> i < idx + length cols \<and> cols ! (i - idx) \<noteq> []
          then Some (r + length (filter (\<lambda>c. c \<noteq> []) (take (i - idx) cols))) else foc)"
proof (induction cols arbitrary: idx r widths focuses foc)
  case Nil
  then show ?case by (auto split: option.splits)
next
  case (Cons c cols)
  show ?case
  proof (cases old)
    case None
    then show ?thesis using Cons.IH by (simp add: Let_def split: prod.splits) (metis option.case(1) snd_conv)
  next
    case (Some i)
    have step: "i - idx = Suc (i - Suc idx)" if "Suc idx \<le> i" using that by simp
    show ?thesis
    proof (cases "c = []")
      case True
      then show ?thesis using Some Cons.IH [of "idx + 1" r widths focuses foc] step
        by (cases "i = idx") (auto simp: le_Suc_eq)
    next
      case False
      let ?w = "widths[r := widths ! idx]" and ?f = "focuses[r := column_focus c (focuses ! idx)]"
      obtain kept1 rest where k: "compact_columns old cols (idx + 1) (r + 1) ?w ?f (if old = Some idx then Some r else foc) = (kept1, rest)"
        by (meson surj_pair)
      show ?thesis using False k Some Cons.IH [of "idx + 1" "r + 1" ?w ?f "if old = Some idx then Some r else foc"] step
        by (cases "i = idx") (auto simp: Let_def)
    qed
  qed
qed

lemma kept_focuses_some:
  "length fs = length cols \<Longrightarrow> (\<forall>f \<in> set (kept_focuses cols fs). f \<noteq> None) \<and>
     length (kept_focuses cols fs) = length (filter (\<lambda>c. c \<noteq> []) cols)"
  by (induction fs cols rule: list_induct2)
    (auto simp: kept_focuses_def column_focus_def first_of_def split: option.splits list.splits)

lemma ensure_metadata_simps:
  "sc_columns (ensure_column_metadata s) = sc_columns s"
  "sc_focused_column (ensure_column_metadata s) = sc_focused_column s"
  "attach_to_focused (ensure_column_metadata s) = attach_to_focused s"
  "length (sc_width_factors (ensure_column_metadata s)) = length (sc_columns s)"
  "length (sc_focused_clients (ensure_column_metadata s)) = length (sc_columns s)"
  by (simp_all add: ensure_column_metadata_def Let_def length_vec_resize)

lemma retain_columns_filter:
  assumes "s = ensure_column_metadata s0" and "s' = retain_non_empty_columns s0"
  shows "sc_columns s' = filter (\<lambda>c. c \<noteq> []) (sc_columns s0) \<and>
    sc_width_factors s' = kept_widths (sc_columns s0) (sc_width_factors s) \<and>
    sc_focused_clients s' = kept_focuses (sc_columns s0) (sc_focused_clients s) \<and>
    sc_focused_column s' = (case kept_focus_index (sc_focused_column s0) (sc_columns s0) of
        Some i \<Rightarrow> Some i | None \<Rightarrow> if sc_columns s' = [] then None else Some 0)"
proof -
  obtain kept widths focuses r foc where c: "compact_columns (sc_focused_column s) (sc_columns s) 0 0
      (sc_width_factors s) (sc_focused_clients s) None = (kept, widths, focuses, r, foc)" by (metis prod_cases5)
  have e: "sc_columns s = sc_columns s0" "sc_focused_column s = sc_focused_column s0"
    using assms(1) by (simp_all add: ensure_metadata_simps)
  have v: "kept = filter (\<lambda>c. c \<noteq> []) (sc_columns s0)" "r = length kept"
    "take r widths = kept_widths (sc_columns s0) (sc_width_factors s)"
    "take r focuses = kept_focuses (sc_columns s0) (sc_focused_clients s)"
    using compact_columns_vectors [OF _ _ _ c] assms(1) e by (auto simp: ensure_metadata_simps)
  have f: "foc = kept_focus_index (sc_focused_column s0) (sc_columns s0)"
    using compact_columns_focus [of "sc_focused_column s" "sc_columns s" 0 0 "sc_width_factors s" "sc_focused_clients s" None] c e
    by (simp add: kept_focus_index_def split: option.splits)
  have p: "position (\<lambda>f. f \<noteq> None) (take r focuses) = (if kept = [] then None else Some 0)"
  proof (cases kept)
    case (Cons k ks)
    have "length (sc_focused_clients s) = length (sc_columns s0)" using assms(1) by (simp add: ensure_metadata_simps)
    from kept_focuses_some [OF this] Cons have "take r focuses \<noteq> []" "\<forall>f \<in> set (take r focuses). f \<noteq> None"
      unfolding v(4) v(1) by auto
    with Cons show ?thesis by (cases "take r focuses") auto
  qed (simp add: v(2))
  have lt: "i < length kept" if "foc = Some i" for i
  proof -
    from that f obtain j where j: "j < length (sc_columns s0)" "sc_columns s0 ! j \<noteq> []" "i = length (filter (\<lambda>c. c \<noteq> []) (take j (sc_columns s0)))"
      by (auto simp: kept_focus_index_def split: option.splits if_splits)
    have "kept = filter (\<lambda>c. c \<noteq> []) (take j (sc_columns s0)) @ filter (\<lambda>c. c \<noteq> []) (drop j (sc_columns s0))"
      unfolding v(1) by (simp flip: filter_append)
    moreover have "filter (\<lambda>c. c \<noteq> []) (drop j (sc_columns s0)) \<noteq> []"
      using j(1,2) by (simp flip: Cons_nth_drop_Suc)
    ultimately show ?thesis using j(3) by simp
  qed
  show ?thesis
    unfolding assms(2) retain_non_empty_columns_def Let_def assms(1) [symmetric] c prod.case
    using v f p lt by (auto split: option.splits)
qed

text \<open>
  The in-place compaction of the columns is a filter: the kept columns are the non-empty ones in
  order, each with its own width and with its remembered client (or its first one), and the focused
  column is the old one under its new index, or the first column when the old one was dropped.
\<close>

theorem retain_non_empty_columns_is_filter:
  "sc_columns (retain_non_empty_columns s) = filter (\<lambda>c. c \<noteq> []) (sc_columns s) \<and>
   sc_width_factors (retain_non_empty_columns s) = kept_widths (sc_columns s) (sc_width_factors (ensure_column_metadata s)) \<and>
   sc_focused_clients (retain_non_empty_columns s) = kept_focuses (sc_columns s) (sc_focused_clients (ensure_column_metadata s)) \<and>
   sc_focused_column (retain_non_empty_columns s) = (case kept_focus_index (sc_focused_column s) (sc_columns s) of
        Some i \<Rightarrow> Some i | None \<Rightarrow> if sc_columns (retain_non_empty_columns s) = [] then None else Some 0)"
  using retain_columns_filter [OF refl refl, of s] by simp

section \<open>The strip invariant\<close>

definition wf_scrolling :: "scrolling_state \<Rightarrow> bool" where
  "wf_scrolling s \<longleftrightarrow> distinct (concat (sc_columns s)) \<and> length (sc_width_factors s) = length (sc_columns s) \<and>
     length (sc_focused_clients s) = length (sc_columns s) \<and>
     (\<forall>i. sc_focused_column s = Some i \<longrightarrow> i < length (sc_columns s))"

lemma ensure_metadata_id: "wf_scrolling s \<Longrightarrow> ensure_column_metadata s = s"
  by (simp add: wf_scrolling_def ensure_column_metadata_def Let_def vec_resize_def)

lemma scrolling_new_wf: "wf_scrolling scrolling_new"
  by (simp add: scrolling_new_def wf_scrolling_def)

lemma mset_concat_update:
  "i < length xss \<Longrightarrow> mset (concat (xss[i := xss ! i @ [k]])) = add_mset k (mset (concat xss))"
proof (induction xss arbitrary: i)
  case (Cons xs xss)
  then show ?case by (cases i) (simp_all add: ac_simps)
qed simp

lemma insert_new_client_members:
  assumes "wf_scrolling s" "k \<notin> set (concat (sc_columns s))"
  shows "mset (concat (sc_columns (insert_new_client k s))) = add_mset k (mset (concat (sc_columns s)))"
    "length (sc_width_factors (insert_new_client k s)) = length (sc_columns (insert_new_client k s))"
    "length (sc_focused_clients (insert_new_client k s)) = length (sc_columns (insert_new_client k s))"
    "\<exists>i < length (sc_columns (insert_new_client k s)). sc_focused_column (insert_new_client k s) = Some i \<and>
       target_for_column i (insert_new_client k s) = Some k"
proof -
  have n: "\<not> (\<exists>col \<in> set (sc_columns s). k \<in> set col)" using assms(2) by auto
  have e: "ensure_column_metadata s = s" using assms(1) by (rule ensure_metadata_id)
  have l: "length (sc_width_factors s) = length (sc_columns s)" "length (sc_focused_clients s) = length (sc_columns s)"
    using assms(1) by (auto simp: wf_scrolling_def)
  note d = insert_new_client_def [of k s, unfolded e Let_def if_not_P [OF n]]
  consider i where "attach_to_focused s" "focused_column_index s = Some i" | "\<not> attach_to_focused s \<or> focused_column_index s = None"
    by fastforce
  then have "mset (concat (sc_columns (insert_new_client k s))) = add_mset k (mset (concat (sc_columns s))) \<and>
    length (sc_width_factors (insert_new_client k s)) = length (sc_columns (insert_new_client k s)) \<and>
    length (sc_focused_clients (insert_new_client k s)) = length (sc_columns (insert_new_client k s)) \<and>
    (\<exists>i < length (sc_columns (insert_new_client k s)). sc_focused_column (insert_new_client k s) = Some i \<and>
       target_for_column i (insert_new_client k s) = Some k)"
  proof cases
    case (1 i)
    then have i: "i < length (sc_columns s)" by (auto simp: focused_column_index_def split: option.splits if_splits)
    with 1 l show ?thesis unfolding d
      by (simp add: mset_concat_update target_for_column_def vec_get_def column_focus_def)
  next
    case 2
    then show ?thesis unfolding d using l
      by (auto simp: target_for_column_def vec_get_def column_focus_def nth_append split: option.splits)
  qed
  then show "mset (concat (sc_columns (insert_new_client k s))) = add_mset k (mset (concat (sc_columns s)))"
    "length (sc_width_factors (insert_new_client k s)) = length (sc_columns (insert_new_client k s))"
    "length (sc_focused_clients (insert_new_client k s)) = length (sc_columns (insert_new_client k s))"
    "\<exists>i < length (sc_columns (insert_new_client k s)). sc_focused_column (insert_new_client k s) = Some i \<and>
       target_for_column i (insert_new_client k s) = Some k" by blast+
qed

lemma insert_existing: "k \<in> set (concat (sc_columns s)) \<Longrightarrow> insert_new_client k s = s"
  by (auto simp: insert_new_client_def)

text \<open>
  C16. Admission to the strip: the invariant (every client in one column, parallel vectors of one
  length, a valid focused column) is kept; a new client is added once and becomes the focus target
  of the focused column; a client already present changes nothing.
\<close>

theorem insert_new_client_correct:
  assumes "wf_scrolling s"
  shows "wf_scrolling (insert_new_client k s) \<and>
    set (concat (sc_columns (insert_new_client k s))) = insert k (set (concat (sc_columns s))) \<and>
    insert_new_client k (insert_new_client k s) = insert_new_client k s \<and>
    (k \<notin> set (concat (sc_columns s)) \<longrightarrow> (\<exists>i. sc_focused_column (insert_new_client k s) = Some i \<and>
       target_for_column i (insert_new_client k s) = Some k))"
proof (cases "k \<in> set (concat (sc_columns s))")
  case True
  then show ?thesis using assms by (simp add: insert_existing insert_absorb)
next
  case False
  note m = insert_new_client_members [OF assms False]
  have s: "set (concat (sc_columns (insert_new_client k s))) = insert k (set (concat (sc_columns s)))"
    using arg_cong [OF m(1), of set_mset] by (simp only: set_mset_mset set_mset_add_mset_insert)
  have "distinct (k # concat (sc_columns s))" using assms False by (simp add: wf_scrolling_def)
  then have "distinct (concat (sc_columns (insert_new_client k s)))"
    using mset_eq_imp_distinct_iff [of "concat (sc_columns (insert_new_client k s))" "k # concat (sc_columns s)"] m(1) by simp
  with m(2,3,4) have "wf_scrolling (insert_new_client k s)" by (auto simp: wf_scrolling_def)
  moreover have "insert_new_client k (insert_new_client k s) = insert_new_client k s"
    by (rule insert_existing) (simp only: s insert_iff simp_thms)
  ultimately show ?thesis using s m(4) by blast
qed

theorem insert_new_client_correct_witness:
  "wf_scrolling (insert_new_client 3 (insert_new_client 5 scrolling_new))"
  using insert_new_client_correct [of "insert_new_client 5 scrolling_new" 3]
    insert_new_client_correct [OF scrolling_new_wf, of 5] by blast

lemma remember_focus_wf: "wf_scrolling s \<Longrightarrow> wf_scrolling (remember_focus k s)"
  using position_SomeD [of "\<lambda>col. k \<in> set col" "sc_columns s"]
  by (auto simp: remember_focus_def ensure_metadata_id wf_scrolling_def Let_def split: option.splits)

lemma set_focused_column_wf: "wf_scrolling s \<Longrightarrow> wf_scrolling (set_focused_column i s)"
  by (auto simp: set_focused_column_def wf_scrolling_def)

section \<open>Projections of the strip\<close>

lemma first_seen_filter: "distinct (concat cols) \<Longrightarrow> first_seen [] (filter p (concat cols)) = filter p (concat cols)"
  by (rule first_seen_distinct) (simp_all add: distinct_filter)

text \<open>At least a sixteenth: the sums of column weights never get lost in rounding.\<close>

fun weighty :: "flt \<Rightarrow> bool" where
  "weighty NaN = False" | "weighty (Infty s) = s" | "weighty (Fin r) = (1 / 16 \<le> r)"

lemma rnd32_weighty: "1 / 16 \<le> r \<Longrightarrow> weighty (rnd32 r)"
proof -
  assume r: "1 / 16 \<le> r"
  have s: "(2::rat) powi (- 4) = 1 / 16" by (simp add: power_int_minus)
  have "flog2 (1 / 16) = - 4" by code_simp
  then have "2 powi (- 4) \<le> round_abs 24 (- 149) (1 / 16)"
    by (intro round_abs_ge_powi) (simp_all add: power_int_minus ulp_exp_def)
  also have "\<dots> \<le> round_abs 24 (- 149) r" using r by (intro round_abs_mono) simp_all
  finally have "1 / 16 \<le> round_abs 24 (- 149) r" by (simp only: s)
  then have "1 / 16 \<le> round_rat 24 (- 149) r" using r by (simp add: round_rat_def)
  then show ?thesis by (auto simp: rnd32_def round_fmt_def Let_def)
qed

fun nonneg_flt :: "flt \<Rightarrow> bool" where
  "nonneg_flt NaN = False" | "nonneg_flt (Infty s) = s" | "nonneg_flt (Fin r) = (0 \<le> r)"

lemma weighty_nonneg: "weighty a \<Longrightarrow> nonneg_flt a"
  by (cases a) auto

lemma add32_weighty: "nonneg_flt a \<Longrightarrow> weighty b \<Longrightarrow> weighty (add32 a b)" "weighty a \<Longrightarrow> nonneg_flt b \<Longrightarrow> weighty (add32 a b)"
  by (cases a; cases b; auto intro: rnd32_weighty)+

lemma column_weight_weighty: "weighty (column_weight s i)"
proof -
  have "weighty (rnd32 (1 / 10))" by (rule rnd32_weighty) simp
  then show ?thesis
    by (cases "case vec_get (sc_width_factors s) i of None \<Rightarrow> Fin 1 | Some f \<Rightarrow> f"; cases "rnd32 (1 / 10)")
      (auto simp: column_weight_def fmax_def)
qed

lemma f32_of_nat_nonneg: "nonneg_flt (f32_of (int n))" "0 < n \<Longrightarrow> weighty (f32_of (int n))"
proof -
  have "0 < n \<Longrightarrow> weighty (f32_of (int n))" unfolding f32_of_def by (rule rnd32_weighty) simp
  then show "0 < n \<Longrightarrow> weighty (f32_of (int n))" .
  then show "nonneg_flt (f32_of (int n))"
    by (cases "n = 0") (auto simp: f32_of_exact [of 0, simplified] intro: weighty_nonneg)
qed

lemma sum_weights_nonneg:
  "nonneg_flt a \<Longrightarrow> nonneg_flt (fold (\<lambda>w acc. add32 acc w) (map (column_weight s) is) a)"
  "is \<noteq> [] \<Longrightarrow> nonneg_flt a \<Longrightarrow> weighty (fold (\<lambda>w acc. add32 acc w) (map (column_weight s) is) a)"
proof (induction "is" arbitrary: a)
  case (Cons i "is")
  { case 1 then show ?case using Cons.IH(1) add32_weighty(1) column_weight_weighty weighty_nonneg by simp }
  { case 2
    then have w: "weighty (add32 a (column_weight s i))" using add32_weighty(1) column_weight_weighty by blast
    show ?case
    proof (cases "is = []")
      case True with w show ?thesis by simp
    next
      case False with w Cons.IH(2) show ?thesis by (simp add: weighty_nonneg) 
    qed }
qed simp_all

lemma overview_columns_clients:
  "map ov_client (fst (overview_columns s vis tw i cur cols)) = filter (\<lambda>k. k \<in> set vis) (concat cols)"
proof (induction cols arbitrary: i cur)
  case (Cons col cols)
  then show ?case by (simp add: Let_def case_prod_beta enumerate_eq_zip comp_def)
qed simp

lemma overview_orphans_clients: "map ov_client (overview_orphans tw i cur ks) = ks"
  by (induction ks arbitrary: i cur) simp_all

text \<open>
  The two projections of the strip agree: the ordered list holds every visible client exactly
  once, strip members first and in strip order, and the overview shows exactly those clients in
  that order whenever there is anything to show, whatever the stored width factors are (NaN and
  infinite ones included).
\<close>

theorem overview_follows_strip_order:
  assumes "wf_scrolling s"
  shows "distinct (ordered_visible_clients visible s) \<and> set (ordered_visible_clients visible s) = set visible \<and>
    (\<exists>rest. ordered_visible_clients visible s = filter (\<lambda>k. k \<in> set visible) (concat (sc_columns s)) @ rest) \<and>
    map ov_client (overview_strip_geometry visible s) = ordered_visible_clients visible s"
proof -
  let ?strip = "filter (\<lambda>k. k \<in> set visible) (concat (sc_columns s))"
  have d: "distinct (concat (sc_columns s))" using assms by (simp add: wf_scrolling_def)
  have o: "ordered_visible_clients visible s = ?strip @ first_seen ?strip visible"
    unfolding ordered_visible_clients_def Let_def first_seen_filter [OF d] ..
  define w where "w = fold (\<lambda>w acc. add32 acc w) (map (\<lambda>i. column_weight s i) [0..<length (sc_columns s)]) (Fin 0)"
  define n where "n = length (filter (\<lambda>k. k \<notin> set (concat (sc_columns s))) visible)"
  have p: "weighty (add32 w (f32_of (int n)))" if "sc_columns s \<noteq> [] \<or> visible \<noteq> []"
  proof (cases "sc_columns s = []")
    case True
    with that have "weighty (f32_of (int n))" "nonneg_flt w"
      by (auto simp: n_def w_def intro!: f32_of_nat_nonneg(2))
    then show ?thesis by (intro add32_weighty(1))
  next
    case False
    then have "weighty w" unfolding w_def by (intro sum_weights_nonneg(2)) simp_all
    then show ?thesis by (intro add32_weighty(2) f32_of_nat_nonneg(1))
  qed
  have g: "map ov_client (overview_strip_geometry visible s) = ordered_visible_clients visible s"
  proof (cases "sc_columns s \<noteq> [] \<or> visible \<noteq> []")
    case True
    then have "\<not> flt_leq (add32 w (f32_of (int n))) (Fin 0)"
      using p by (cases "add32 w (f32_of (int n))") auto
    then show ?thesis
      unfolding overview_strip_geometry_def Let_def w_def [symmetric] n_def [symmetric] o
      by (simp add: case_prod_beta overview_columns_clients overview_orphans_clients)
  next
    case False
    then have e: "sc_columns s = []" "visible = []" by simp_all
    have "flt_leq (add32 (Fin 0) (f32_of 0)) (Fin 0)" by code_simp
    then show ?thesis unfolding o unfolding overview_strip_geometry_def Let_def e by simp
  qed
  show ?thesis using d by (auto simp: g) (auto simp: o distinct_first_seen set_first_seen distinct_filter)
qed

theorem overview_follows_strip_order_witness:
  "map ov_client (overview_strip_geometry [7, 3, 5] (insert_new_client 3 (insert_new_client 5 scrolling_new))) = [5, 3, 7]"
proof -
  have "wf_scrolling (insert_new_client 3 (insert_new_client 5 scrolling_new))"
    by (simp add: wf_scrolling_def insert_new_client_def scrolling_new_def ensure_column_metadata_def vec_resize_def Let_def)
  from overview_follows_strip_order [OF this, of "[7, 3, 5]"] show ?thesis
    by (simp add: ordered_visible_clients_def insert_new_client_def scrolling_new_def ensure_column_metadata_def vec_resize_def Let_def)
qed

end
