(* ===== verification/Workspace.thy ===== *)
theory Workspace
  imports Client_Lists Scrolling_Strip
begin

text \<open>
  Exchanging the workspaces of two monitors: \<open>WorkspaceManager\<close> of \<open>src/core/workspace.rs\<close>. The windows,
  tags, layouts and scrolling strips change places; the outputs keep their number, geometry and the
  windows that belong to the physical screen (bars, docks, desktops).
\<close>

section \<open>The exchange\<close>

type_synonym strips = "monitor_key \<times> 32 word \<Rightarrow> scrolling_state option"

text \<open>The closure \<open>owned\<close>, the map over \<open>stacks\<close> and the rehoming loop.\<close>

definition owned :: "wm_state \<Rightarrow> monitor_key \<Rightarrow> client_key list" where
  "owned s m = first_seen [] (filter (\<lambda>k. client_mon s k = Some m)
     (or_else (monitor_clients s m) [] @ map fst (filter (\<lambda>(_, c). c_mon c = Some m) (st_clients s))))"

definition owned_stack :: "wm_state \<Rightarrow> monitor_key \<Rightarrow> client_key list" where
  "owned_stack s m = first_seen [] (filter (\<lambda>k. client_mon s k = Some m) (or_else (monitor_stack s m) [] @ owned s m))"

definition rehome :: "client_key list \<Rightarrow> monitor_key \<Rightarrow> wm_state \<Rightarrow> wm_state" where
  "rehome ks target s = fold (\<lambda>k. set_client_mon k target) ks s"

definition swap_strips :: "monitor_key \<Rightarrow> monitor_key \<Rightarrow> strips \<Rightarrow> strips" where
  "swap_strips left right scrolling =
     (\<lambda>(m, tags). if m = left then scrolling (right, tags) else if m = right then scrolling (left, tags) else scrolling (m, tags))"

definition swap_monitor_contents :: "monitor_key \<Rightarrow> monitor_key \<Rightarrow> client_key set \<Rightarrow> wm_state \<Rightarrow> strips \<Rightarrow>
    ((client_key list \<times> client_key list) \<times> wm_state \<times> strips) option" where
  "swap_monitor_contents left right physical s scrolling =
     (if left = right then None
      else case (slot_get (st_monitors s) left, slot_get (st_monitors s) right) of
        (Some a, Some b) \<Rightarrow>
          let owners_l = owned s left; owners_r = owned s right;
              moved_l = filter (\<lambda>k. k \<notin> physical) owners_l; moved_r = filter (\<lambda>k. k \<notin> physical) owners_r;
              stack_l = owned_stack s left; stack_r = owned_stack s right;
              s1 = s\<lparr>st_monitors := slot_update right (\<lambda>_. a\<lparr>mon_num := mon_num b, mon_geometry := mon_geometry b\<rparr>)
                        (slot_update left (\<lambda>_. b\<lparr>mon_num := mon_num a, mon_geometry := mon_geometry a\<rparr>) (st_monitors s))\<rparr>;
              s2 = rehome moved_r left (rehome moved_l right s1);
              s3 = set_stack left (filter (\<lambda>k. k \<notin> physical) stack_r @ filter (\<lambda>k. k \<in> physical) stack_l)
                     (set_clients left (moved_r @ filter (\<lambda>k. k \<in> physical) owners_l) s2);
              s4 = set_stack right (filter (\<lambda>k. k \<notin> physical) stack_l @ filter (\<lambda>k. k \<in> physical) stack_r)
                     (set_clients right (moved_l @ filter (\<lambda>k. k \<in> physical) owners_r) s3)
          in Some ((moved_l, moved_r), s4, swap_strips left right scrolling)
      | _ \<Rightarrow> None)"

definition calculate_new_tags :: "32 word \<Rightarrow> 32 word \<Rightarrow> bool \<Rightarrow> 32 word" where
  "calculate_new_tags current_tags tag_mask toggle = (if toggle then current_tags XOR tag_mask else tag_mask)"

text \<open>\<open>None\<close> is the panic of an index out of range.\<close>

definition is_same_tag :: "wm_monitor \<Rightarrow> 32 word \<Rightarrow> bool option" where
  "is_same_tag m target = (if sel_tags m > 1 then None else Some (tag_at m (sel_tags m) = target))"

section \<open>Complete lists\<close>

text \<open>Every client of a monitor is in its client list and in its stack.\<close>

definition all_listed :: "wm_state \<Rightarrow> bool" where
  "all_listed s \<longleftrightarrow> distinct (map fst (st_clients s)) \<and>
     (\<forall>m. slot_get (st_monitors s) m \<noteq> None \<longrightarrow> monitor_clients s m \<noteq> None \<and> monitor_stack s m \<noteq> None) \<and>
     (\<forall>m l k. monitor_clients s m = Some l \<longrightarrow> client_mon s k = Some m \<longrightarrow> k \<in> set l) \<and>
     (\<forall>m l k. monitor_stack s m = Some l \<longrightarrow> client_mon s k = Some m \<longrightarrow> k \<in> set l)"

lemma first_seen_extra: "distinct xs \<Longrightarrow> set ys \<subseteq> set xs \<Longrightarrow> first_seen [] (xs @ ys) = xs"
  by (simp add: first_seen_append first_seen_distinct set_first_seen flip: set_empty2)

lemma owned_listed:
  assumes "wf_lists s" "all_listed s" "monitor_clients s m = Some l"
  shows "owned s m = l"
proof -
  have on: "client_mon s k = Some m" if "k \<in> set l" for k using assms that by (auto simp: wf_lists_def group_ok_def)
  have "distinct l" using assms by (auto simp: wf_lists_def group_ok_def)
  moreover have "filter (\<lambda>k. client_mon s k = Some m) l = l" using on by (simp add: filter_id_conv)
  moreover have "set (filter (\<lambda>k. client_mon s k = Some m) xs) \<subseteq> set l" for xs
    using assms(2,3) by (auto simp: all_listed_def)
  ultimately show ?thesis using assms(3) by (simp add: owned_def or_else_def first_seen_extra del: set_filter)
qed

lemma owned_stack_listed:
  assumes "wf_lists s" "all_listed s" "monitor_stack s m = Some l"
  shows "owned_stack s m = l"
proof -
  have on: "client_mon s k = Some m" if "k \<in> set l" for k using assms that by (auto simp: wf_lists_def)
  have "distinct l" using assms by (auto simp: wf_lists_def)
  moreover have "filter (\<lambda>k. client_mon s k = Some m) l = l" using on by (simp add: filter_id_conv)
  moreover have "set (filter (\<lambda>k. client_mon s k = Some m) xs) \<subseteq> set l" for xs
    using assms(2,3) by (auto simp: all_listed_def)
  ultimately show ?thesis using assms(3) by (simp add: owned_stack_def or_else_def first_seen_extra del: set_filter)
qed

lemma rehome_eq:
  "rehome ks m s = s\<lparr>st_clients := map (\<lambda>(k, c). (k, if k \<in> set ks then c\<lparr>c_mon := Some m\<rparr> else c)) (st_clients s)\<rparr>"
proof (induction ks arbitrary: s)
  case Nil
  then show ?case by (simp add: rehome_def)
next
  case (Cons k ks)
  have "map (\<lambda>(k, c). (k, if k \<in> set ks then c\<lparr>c_mon := Some m\<rparr> else c)) (map (\<lambda>(k', v). (k', if k' = k then v\<lparr>c_mon := Some m\<rparr> else v)) cs) =
      map (\<lambda>(k', c). (k', if k' \<in> set (k # ks) then c\<lparr>c_mon := Some m\<rparr> else c)) cs" for cs by (induction cs) auto
  note this [of "st_clients s"]
  with Cons show ?case by (simp add: rehome_def set_client_mon_def slot_update_def del: map_map)
qed

text \<open>Where the exchange puts a window.\<close>

definition rehomed :: "monitor_key \<Rightarrow> monitor_key \<Rightarrow> client_key set \<Rightarrow> client_key \<Rightarrow> monitor_key option \<Rightarrow> monitor_key option" where
  "rehomed left right physical k m =
     (if k \<in> physical then m else if m = Some left then Some right else if m = Some right then Some left else m)"

definition swapped_clients :: "monitor_key \<Rightarrow> monitor_key \<Rightarrow> client_key set \<Rightarrow> (client_key, wm_client) slotmap \<Rightarrow> (client_key, wm_client) slotmap" where
  "swapped_clients left right physical cs = map (\<lambda>(k, c). (k, c\<lparr>c_mon := rehomed left right physical k (c_mon c)\<rparr>)) cs"

definition rest_last :: "client_key set \<Rightarrow> client_key list \<Rightarrow> client_key list \<Rightarrow> client_key list" where
  "rest_last physical xs ys = filter (\<lambda>k. k \<notin> physical) xs @ filter (\<lambda>k. k \<in> physical) ys"

definition swapped_monitors :: "monitor_key \<Rightarrow> monitor_key \<Rightarrow> wm_monitor \<Rightarrow> wm_monitor \<Rightarrow> (monitor_key, wm_monitor) slotmap \<Rightarrow> (monitor_key, wm_monitor) slotmap" where
  "swapped_monitors left right a b ms = slot_update right (\<lambda>_. a\<lparr>mon_num := mon_num b, mon_geometry := mon_geometry b\<rparr>)
                        (slot_update left (\<lambda>_. b\<lparr>mon_num := mon_num a, mon_geometry := mon_geometry a\<rparr>) ms)"

lemma client_mon_entry: "distinct (map fst (st_clients s)) \<Longrightarrow> (k, c) \<in> set (st_clients s) \<Longrightarrow> client_mon s k = c_mon c"
  by (simp add: client_mon_def slot_get_def)

lemma swap_eq:
  assumes "wf_lists s" "all_listed s" "left \<noteq> right" "slot_get (st_monitors s) left = Some a" "slot_get (st_monitors s) right = Some b"
    "monitor_clients s left = Some L" "monitor_clients s right = Some R" "monitor_stack s left = Some SL" "monitor_stack s right = Some SR"
  shows "swap_monitor_contents left right P s scr =
    Some ((filter (\<lambda>k. k \<notin> P) L, filter (\<lambda>k. k \<notin> P) R),
      s\<lparr>st_monitors := swapped_monitors left right a b (st_monitors s), st_clients := swapped_clients left right P (st_clients s),
        monitor_clients := (monitor_clients s)(left \<mapsto> rest_last P R L, right \<mapsto> rest_last P L R),
        monitor_stack := (monitor_stack s)(left \<mapsto> rest_last P SR SL, right \<mapsto> rest_last P SL SR)\<rparr>, swap_strips left right scr)"
proof -
  have d: "distinct (map fst (st_clients s))" using assms(2) by (simp add: all_listed_def)
  have l: "k \<in> set L \<longleftrightarrow> client_mon s k = Some left" and r: "k \<in> set R \<longleftrightarrow> client_mon s k = Some right" for k
    using assms(1,2,6,7) by (meson wf_lists_def group_ok_def all_listed_def)+
  have "map (\<lambda>(k, c). (k, if k \<in> set (filter (\<lambda>k. k \<notin> P) R) then c\<lparr>c_mon := Some left\<rparr> else c))
          (map (\<lambda>(k, c). (k, if k \<in> set (filter (\<lambda>k. k \<notin> P) L) then c\<lparr>c_mon := Some right\<rparr> else c)) (st_clients s)) =
        swapped_clients left right P (st_clients s)"
    unfolding swapped_clients_def map_map comp_def
  proof (rule map_cong [OF refl], goal_cases)
    case (1 x)
    have e: "client_mon s (fst x) = c_mon (snd x)" using client_mon_entry [OF d, of "fst x" "snd x"] 1 by simp
    show ?case using assms(3) e by (cases x) (simp add: l r rehomed_def)
  qed
  then show ?thesis
    using assms(3-9) by (simp add: swap_monitor_contents_def owned_listed [OF assms(1,2)] owned_stack_listed [OF assms(1,2)] rehome_eq Let_def
      set_clients_def set_stack_def rest_last_def swapped_monitors_def)
qed

section \<open>What the exchange keeps\<close>

lemma swapped_get: "slot_get (swapped_clients left right P cs) k = map_option (\<lambda>c. c\<lparr>c_mon := rehomed left right P k (c_mon c)\<rparr>) (slot_get cs k)"
  by (induction cs) (auto simp: swapped_clients_def slot_get_def)

lemma swapped_keys: "map fst (swapped_clients left right P cs) = map fst cs"
  by (induction cs) (auto simp: swapped_clients_def)

lemma rehomed_twice: "left \<noteq> right \<Longrightarrow> rehomed left right P k (rehomed left right P k m) = m"
  by (simp add: rehomed_def)

lemma swapped_twice: "left \<noteq> right \<Longrightarrow> swapped_clients left right P (swapped_clients left right P cs) = cs"
  by (induction cs) (auto simp: swapped_clients_def rehomed_twice)

lemma swapped_monitors_get:
  "left \<noteq> right \<Longrightarrow> slot_get ms left = Some a \<Longrightarrow> slot_get ms right = Some b \<Longrightarrow>
   slot_get (swapped_monitors left right a b ms) m =
     (if m = left then Some (b\<lparr>mon_num := mon_num a, mon_geometry := mon_geometry a\<rparr>)
      else if m = right then Some (a\<lparr>mon_num := mon_num b, mon_geometry := mon_geometry b\<rparr>) else slot_get ms m)"
  by (simp add: swapped_monitors_def slot_simps)

lemma slot_update_id: "distinct (map fst ms) \<Longrightarrow> slot_get ms m = Some a \<Longrightarrow> slot_update m (\<lambda>_. a) ms = ms"
  unfolding slot_update_def slot_get_def by (rule map_idI) (auto dest: map_of_SomeD eq_key_imp_eq_value)

lemma slot_update_comp: "slot_update m f (slot_update m g ms) = slot_update m (f \<circ> g) ms"
  by (induction ms) (auto simp: slot_update_def)

lemma slot_update_swap: "m \<noteq> n \<Longrightarrow> slot_update m f (slot_update n g ms) = slot_update n g (slot_update m f ms)"
  by (induction ms) (auto simp: slot_update_def)

lemma swapped_monitors_twice:
  assumes "left \<noteq> right" "distinct (map fst ms)" "slot_get ms left = Some a" "slot_get ms right = Some b"
  shows "swapped_monitors left right (b\<lparr>mon_num := mon_num a, mon_geometry := mon_geometry a\<rparr>)
     (a\<lparr>mon_num := mon_num b, mon_geometry := mon_geometry b\<rparr>) (swapped_monitors left right a b ms) = ms"
  using assms
  by (simp add: swapped_monitors_def slot_update_comp slot_update_swap [of left right] comp_def slot_update_id slot_simps)

lemma swap_strips_twice: "left \<noteq> right \<Longrightarrow> swap_strips left right (swap_strips left right scr) = scr"
  by (auto simp: swap_strips_def fun_eq_iff)

lemma rest_last_rest: "rest_last P (rest_last P xs ys) (rest_last P ys xs) = rest_last P xs xs"
  by (simp add: rest_last_def)

lemma set_rest_last: "k \<in> set (rest_last P xs ys) \<longleftrightarrow> (if k \<in> P then k \<in> set ys else k \<in> set xs)"
  by (auto simp: rest_last_def)

lemma distinct_rest_last: "distinct xs \<Longrightarrow> distinct ys \<Longrightarrow> distinct (rest_last P xs ys)"
  by (auto simp: rest_last_def)

lemma tiled_first_rest_last:
  "tiled_first f xs \<Longrightarrow> (\<And>k. k \<in> set ys \<Longrightarrow> k \<in> P \<Longrightarrow> f k) \<Longrightarrow> tiled_first f (rest_last P xs ys)"
  by (auto simp: tiled_first_def rest_last_def sorted_wrt_append sorted_wrt_filter intro: sorted_wrt_mono_rel [of _ "\<lambda>_ _. True"])

text \<open>The state after an exchange, for the lists \<open>L\<close>, \<open>R\<close> and the stacks \<open>SL\<close>, \<open>SR\<close> before it.\<close>

definition exchanged :: "monitor_key \<Rightarrow> monitor_key \<Rightarrow> client_key set \<Rightarrow> wm_state \<Rightarrow> wm_state" where
  "exchanged left right P s =
     s\<lparr>st_monitors := swapped_monitors left right (the (slot_get (st_monitors s) left)) (the (slot_get (st_monitors s) right)) (st_monitors s),
       st_clients := swapped_clients left right P (st_clients s),
       monitor_clients := (monitor_clients s)
         (left \<mapsto> rest_last P (the (monitor_clients s right)) (the (monitor_clients s left)), right \<mapsto> rest_last P (the (monitor_clients s left)) (the (monitor_clients s right))),
       monitor_stack := (monitor_stack s)
         (left \<mapsto> rest_last P (the (monitor_stack s right)) (the (monitor_stack s left)), right \<mapsto> rest_last P (the (monitor_stack s left)) (the (monitor_stack s right)))\<rparr>"

definition both_live :: "monitor_key \<Rightarrow> monitor_key \<Rightarrow> wm_state \<Rightarrow> bool" where
  "both_live left right s \<longleftrightarrow> left \<noteq> right \<and> slot_get (st_monitors s) left \<noteq> None \<and> slot_get (st_monitors s) right \<noteq> None"

lemma live_lists:
  assumes "all_listed s" "both_live left right s"
  obtains a b L R SL SR where "slot_get (st_monitors s) left = Some a" "slot_get (st_monitors s) right = Some b"
    "monitor_clients s left = Some L" "monitor_clients s right = Some R" "monitor_stack s left = Some SL" "monitor_stack s right = Some SR"
proof -
  have "monitor_clients s m \<noteq> None \<and> monitor_stack s m \<noteq> None" if "m \<in> {left, right}" for m
    using assms that by (auto simp: all_listed_def both_live_def)
  from this [of left] this [of right] assms(2) that show ?thesis
    unfolding both_live_def insert_iff by (metis option.exhaust)
qed

lemma swap_exchanged:
  assumes "wf_lists s" "all_listed s" "both_live left right s"
  shows "swap_monitor_contents left right P s scr =
    Some ((filter (\<lambda>k. k \<notin> P) (the (monitor_clients s left)), filter (\<lambda>k. k \<notin> P) (the (monitor_clients s right))),
      exchanged left right P s, swap_strips left right scr)"
proof -
  obtain a b L R SL SR where "slot_get (st_monitors s) left = Some a" "slot_get (st_monitors s) right = Some b"
    "monitor_clients s left = Some L" "monitor_clients s right = Some R" "monitor_stack s left = Some SL" "monitor_stack s right = Some SR"
    by (rule live_lists [OF assms(2,3)])
  with assms show ?thesis by (subst swap_eq) (simp_all add: both_live_def exchanged_def)
qed

lemma exchanged_client [simp]:
  "client_mon (exchanged left right P s) k = (case slot_get (st_clients s) k of None \<Rightarrow> None | Some c \<Rightarrow> rehomed left right P k (c_mon c))"
  "is_client_floating (exchanged left right P s) = is_client_floating s"
  by (auto simp: client_mon_def is_client_floating_def exchanged_def swapped_get fun_eq_iff split: option.splits)

lemma exchanged_mon_iff:
  assumes "both_live left right s"
  shows "client_mon (exchanged left right P s) k = Some m \<longleftrightarrow>
    client_mon s k = rehomed left right P k (Some m)"
  using assms by (cases "slot_get (st_clients s) k") (auto simp: client_mon_def [of s] rehomed_def both_live_def split: if_splits)

lemma exchanged_wf:
  assumes "wf_lists s" "all_listed s" "both_live left right s"
    "\<And>k. k \<in> P \<Longrightarrow> client_mon s k \<in> {Some left, Some right} \<Longrightarrow> is_client_floating s k"
  shows "wf_lists (exchanged left right P s)" "all_listed (exchanged left right P s)" "both_live left right (exchanged left right P s)"
proof -
  let ?t = "exchanged left right P s"
  obtain a b L R SL SR where e: "slot_get (st_monitors s) left = Some a" "slot_get (st_monitors s) right = Some b"
    "monitor_clients s left = Some L" "monitor_clients s right = Some R" "monitor_stack s left = Some SL" "monitor_stack s right = Some SR"
    by (rule live_lists [OF assms(2,3)])
  have ne: "left \<noteq> right" using assms(3) by (simp add: both_live_def)
  have mc: "monitor_clients ?t = (monitor_clients s)(left \<mapsto> rest_last P R L, right \<mapsto> rest_last P L R)"
    "monitor_stack ?t = (monitor_stack s)(left \<mapsto> rest_last P SR SL, right \<mapsto> rest_last P SL SR)"
    using e by (simp_all add: exchanged_def)
  have in_list: "k \<in> set l \<longleftrightarrow> client_mon s k = Some m" if "monitor_clients s m = Some l \<or> monitor_stack s m = Some l" for k m l
    using assms(1,2) that by (meson wf_lists_def group_ok_def all_listed_def)
  note sets = in_list [of left L] in_list [of right R] in_list [of left SL] in_list [of right SR]
  have ok: "distinct L" "distinct R" "distinct SL" "distinct SR" "tiled_first (is_client_floating s) L" "tiled_first (is_client_floating s) R"
    using assms(1) e unfolding wf_lists_def group_ok_def by blast+
  have fl: "is_client_floating s k" if "k \<in> set L \<or> k \<in> set R" "k \<in> P" for k using assms(4) that e sets by auto
  have members: "k \<in> set l \<longleftrightarrow> client_mon ?t k = Some m" if "monitor_clients ?t m = Some l \<or> monitor_stack ?t m = Some l" for k m l
    using that ne e sets in_list [of m l k]
    by (auto simp: mc exchanged_mon_iff [OF assms(3)] rehomed_def set_rest_last simp del: exchanged_client split: if_splits)
  show "wf_lists ?t"
    unfolding wf_lists_def group_ok_def
  proof (intro conjI allI impI ballI)
    fix m l assume l: "monitor_clients ?t m = Some l"
    show "distinct l" using l ok assms(1) by (auto simp: mc distinct_rest_last wf_lists_def group_ok_def split: if_splits)
    show "tiled_first (is_client_floating ?t) l"
      using l ok assms(1) fl by (auto simp: mc wf_lists_def group_ok_def intro!: tiled_first_rest_last split: if_splits)
    show "client_mon ?t k = Some m" if "k \<in> set l" for k using members l that by blast
  next
    fix m l assume l: "monitor_stack ?t m = Some l"
    show "distinct l" using l ok assms(1) by (auto simp: mc distinct_rest_last wf_lists_def split: if_splits)
    show "client_mon ?t k = Some m" if "k \<in> set l" for k using members l that by blast
  qed
  have ms: "(slot_get (st_monitors ?t) m = None) = (slot_get (st_monitors s) m = None)" for m
    using e ne by (auto simp: exchanged_def swapped_monitors_get)
  show "both_live left right ?t" using assms(3) ms by (simp add: both_live_def)
  show "all_listed ?t"
    unfolding all_listed_def
  proof (intro conjI allI impI)
    show "distinct (map fst (st_clients ?t))" using assms(2) by (simp add: exchanged_def swapped_keys all_listed_def)
    fix m assume m: "slot_get (st_monitors ?t) m \<noteq> None"
    show "monitor_clients ?t m \<noteq> None" "monitor_stack ?t m \<noteq> None"
      using m ms assms(2) by (auto simp: mc all_listed_def)
  qed (use members in blast)+
qed

lemma exchanged_twice:
  assumes "wf_lists s" "all_listed s" "both_live left right s" "distinct (map fst (st_monitors s))"
  shows "exchanged left right P (exchanged left right P s) =
    s\<lparr>monitor_clients := (monitor_clients s)(left \<mapsto> rest_last P (the (monitor_clients s left)) (the (monitor_clients s left)),
                                             right \<mapsto> rest_last P (the (monitor_clients s right)) (the (monitor_clients s right))),
      monitor_stack := (monitor_stack s)(left \<mapsto> rest_last P (the (monitor_stack s left)) (the (monitor_stack s left)),
                                          right \<mapsto> rest_last P (the (monitor_stack s right)) (the (monitor_stack s right)))\<rparr>"
proof -
  obtain a b where e: "left \<noteq> right" "slot_get (st_monitors s) left = Some a" "slot_get (st_monitors s) right = Some b"
    using assms(3) by (auto simp: both_live_def)
  have cancel: "f(l \<mapsto> x, r \<mapsto> y, l \<mapsto> u, r \<mapsto> v) = f(l \<mapsto> u, r \<mapsto> v)" for f :: "monitor_key \<Rightarrow> client_key list option" and l r x y u v
    by (simp add: fun_upd_twist)
  show ?thesis using e assms(4)
    by (simp add: exchanged_def [of left right P "exchanged left right P s"]) 
      (simp add: exchanged_def swapped_monitors_get swapped_monitors_twice swapped_twice rest_last_rest cancel fun_upd_twist)
qed

lemma exchanged_identity:
  assumes "both_live left right s"
  shows "map_option (\<lambda>m. (mon_num m, mon_geometry m)) (slot_get (st_monitors (exchanged left right P s)) m) =
    map_option (\<lambda>m. (mon_num m, mon_geometry m)) (slot_get (st_monitors s) m)"
  using assms by (auto simp: both_live_def exchanged_def swapped_monitors_get)

text \<open>
  C34. Exchanging two live monitors succeeds, moves exactly the windows that do not belong to the
  physical screen to the other monitor, leaves every other monitor's windows where they are, keeps
  number and geometry of every output, takes the tags along, and keeps the lists well formed and
  complete. Physical windows are assumed to float, which docks, desktops and bars do.
\<close>

theorem workspace_exchange_moves_windows:
  assumes "wf_lists s" "all_listed s" "both_live left right s"
    "\<And>k. k \<in> P \<Longrightarrow> client_mon s k \<in> {Some left, Some right} \<Longrightarrow> is_client_floating s k"
  shows "\<exists>moved s' scr'. swap_monitor_contents left right P s scr = Some (moved, s', scr') \<and>
    wf_lists s' \<and> all_listed s' \<and>
    (\<forall>k. client_mon s' k =
       (if k \<in> P then client_mon s k
        else if client_mon s k = Some left then Some right else if client_mon s k = Some right then Some left else client_mon s k)) \<and>
    (\<forall>m. map_option (\<lambda>m. (mon_num m, mon_geometry m)) (slot_get (st_monitors s') m) =
         map_option (\<lambda>m. (mon_num m, mon_geometry m)) (slot_get (st_monitors s) m)) \<and>
    map_option get_active_tags (slot_get (st_monitors s') right) = map_option get_active_tags (slot_get (st_monitors s) left)"
proof -
  have m: "client_mon (exchanged left right P s) k = rehomed left right P k (client_mon s k)" for k
    by (auto simp: client_mon_def [of s] rehomed_def split: option.splits)
  have t: "map_option get_active_tags (slot_get (st_monitors (exchanged left right P s)) right) = map_option get_active_tags (slot_get (st_monitors s) left)"
    using assms(3) by (auto simp: both_live_def exchanged_def swapped_monitors_get get_active_tags_def tag_at_def)
  show ?thesis
    unfolding swap_exchanged [OF assms(1-3)]
    using exchanged_wf [OF assms] exchanged_identity [OF assms(3)] m t by (auto simp: rehomed_def simp del: exchanged_client)
qed

definition two_monitors :: wm_state where
  "two_monitors = wm_state_new\<lparr>st_clients := [(1, sample_client False), (2, sample_client True), (3, (sample_client False)\<lparr>c_mon := Some 2\<rparr>)],
     st_monitors := [(1, wm_monitor_new\<lparr>tag_set := (1, 1)\<rparr>), (2, wm_monitor_new\<lparr>mon_num := 1, tag_set := (4, 4)\<rparr>)],
     monitor_clients := [1 \<mapsto> [1, 2], 2 \<mapsto> [3]], monitor_stack := [1 \<mapsto> [2, 1], 2 \<mapsto> [3]]\<rparr>"

lemma two_monitors_ok: "wf_lists two_monitors" "all_listed two_monitors" "both_live 1 2 two_monitors"
  "client_mon two_monitors k = Some m \<Longrightarrow> k \<in> {2} \<Longrightarrow> is_client_floating two_monitors k"
proof -
  have m: "client_mon two_monitors k = (if k \<in> {1, 2} then Some 1 else if k = 3 then Some 2 else None)" for k
    by (auto simp: two_monitors_def client_mon_def slot_get_def sample_client_def)
  have "tiled_first (is_client_floating two_monitors) [1, 2]" "is_client_floating two_monitors 2" by code_simp+
  then show "wf_lists two_monitors" "client_mon two_monitors k = Some m \<Longrightarrow> k \<in> {2} \<Longrightarrow> is_client_floating two_monitors k"
    by (auto simp: wf_lists_def group_ok_def m tiled_first_def) (auto simp: two_monitors_def m split: if_splits)
  show "all_listed two_monitors" "both_live 1 2 two_monitors"
    using m by (auto simp: all_listed_def both_live_def two_monitors_def slot_get_def split: if_splits)
qed

theorem workspace_exchange_moves_windows_witness:
  "\<exists>moved s' scr'. swap_monitor_contents 1 2 {2} two_monitors (\<lambda>_. None) = Some (moved, s', scr') \<and> wf_lists s' \<and>
     client_mon s' 1 = Some 2 \<and> client_mon s' 2 = Some 1 \<and> client_mon s' 3 = Some 1"
proof -
  have m: "client_mon two_monitors 1 = Some 1" "client_mon two_monitors 2 = Some 1" "client_mon two_monitors 3 = Some 2" by code_simp+
  have "\<And>k. k \<in> {2} \<Longrightarrow> client_mon two_monitors k \<in> {Some 1, Some 2} \<Longrightarrow> is_client_floating two_monitors k"
    using two_monitors_ok(4) by blast
  then show ?thesis using workspace_exchange_moves_windows [of two_monitors 1 2 "{2}" "\<lambda>_. None", OF two_monitors_ok(1-3)] m by fastforce
qed



end
