(* ===== verification/Monitor.thy ===== *)
theory Monitor
  imports Models
begin

text \<open>
  The invariants of a monitor (\<open>src/core/models.rs\<close>): aligned per-tag vectors, live layout values
  that mirror the slot of the current tag, and a non-empty tag selection. Every monitor operation
  keeps them, so every run of commands does; tags remember their tuning; a live change of the tag
  count leaves a consistent monitor.
\<close>

unbundle bit_operations_syntax

section \<open>Per-tag invariants\<close>

text \<open>The per-tag vectors have one length, at least one slot, and the tag indices point into them.\<close>

definition wf_pertag :: "pertag \<Rightarrow> bool" where
  "wf_pertag p \<longleftrightarrow> (let n = length (pt_sel p) in 0 < n \<and> length (n_masters p) = n \<and> length (m_facts p) = n \<and>
     length (gaps p) = n \<and> length (lts p) = n \<and> length (prev_lts p) = n \<and> length (show_bars p) = n \<and>
     cur_tag p < n \<and> prev_tag p < n)"

text \<open>The live layout values of a monitor are the slot of its current tag.\<close>

definition mirrors_slot :: "wm_monitor \<Rightarrow> pertag \<Rightarrow> bool" where
  "mirrors_slot m p \<longleftrightarrow> ml_n_master (mon_layout m) = n_masters p ! cur_tag p \<and>
     ml_m_fact (mon_layout m) = m_facts p ! cur_tag p \<and> ml_gap (mon_layout m) = gaps p ! cur_tag p \<and>
     mon_lt m = lts p ! cur_tag p \<and> mon_prev_lt m = prev_lts p ! cur_tag p"

definition wf_monitor :: "wm_monitor \<Rightarrow> bool" where
  "wf_monitor m \<longleftrightarrow> sel_tags m \<le> 1 \<and>
     (case mon_pertag m of None \<Rightarrow> True | Some p \<Rightarrow> wf_pertag p \<and> mirrors_slot m p)"

lemma wf_pertag_new: "wf_pertag (pertag_new b n)"
  by (simp add: wf_pertag_def pertag_new_def Let_def)

lemma clamp_tag_less: "wf_pertag p \<Longrightarrow> clamp_tag p i < length (pt_sel p)"
  by (auto simp: wf_pertag_def clamp_tag_def Let_def)

lemma clamp_tag_id: "i < length (pt_sel p) \<Longrightarrow> clamp_tag p i = i"
  by (auto simp: clamp_tag_def)

lemma slot_for_mask_less: "wf_pertag p \<Longrightarrow> slot_for_mask p t < length (pt_sel p)"
  by (simp add: slot_for_mask_def clamp_tag_less) (simp add: wf_pertag_def Let_def)

lemma or_else_get [simp]: "i < length xs \<Longrightarrow> or_else (vec_get xs i) d = xs ! i"
  by (simp add: or_else_def vec_get_def)

text \<open>Loading a slot establishes the mirror, whatever the live values were.\<close>

lemma apply_pertag_context_wf:
  assumes "mon_pertag m = Some p" "wf_pertag p" "sel_tags m \<le> 1"
  shows "wf_monitor (apply_pertag_context i m)"
proof -
  have c: "clamp_tag p i < length (pt_sel p)" using assms(2) by (rule clamp_tag_less)
  then show "wf_monitor (apply_pertag_context i m)"
    using assms
    by (simp add: apply_pertag_context_def wf_monitor_def wf_pertag_def mirrors_slot_def Let_def)
qed

lemma apply_pertag_context_frame:
  "tag_set (apply_pertag_context i m) = tag_set m" "sel_tags (apply_pertag_context i m) = sel_tags m"
  "mon_sel (apply_pertag_context i m) = mon_sel m"
  "mon_pertag (apply_pertag_context i m) =
     map_option (\<lambda>p. p\<lparr>prev_tag := cur_tag p, cur_tag := clamp_tag p i\<rparr>) (mon_pertag m)"
  by (simp_all add: apply_pertag_context_def Let_def split: option.splits)

lemma apply_pertag_context_any:
  "\<forall>p. mon_pertag m = Some p \<longrightarrow> wf_pertag p \<Longrightarrow> sel_tags m \<le> 1 \<Longrightarrow> wf_monitor (apply_pertag_context i m)"
  by (cases "mon_pertag m")
    (simp add: wf_monitor_def apply_pertag_context_frame, simp add: apply_pertag_context_wf)

lemma get_active_set_tag: "sel_tags m \<le> 1 \<Longrightarrow> get_active_tags (set_tag_at (sel_tags m) v m) = v"
  by (auto simp: get_active_tags_def set_tag_at_def tag_at_def)

lemma set_tag_at_frame [simp]:
  "mon_pertag (set_tag_at i v m) = mon_pertag m" "sel_tags (set_tag_at i v m) = sel_tags m"
  "mon_layout (set_tag_at i v m) = mon_layout m" "mon_lt (set_tag_at i v m) = mon_lt m"
  "mon_prev_lt (set_tag_at i v m) = mon_prev_lt m"
  by (simp_all add: set_tag_at_def)

text \<open>A view either changes nothing (the empty mask) or loads the context of one tag.\<close>

lemma view_tag_cases:
  assumes "sel_tags m \<le> 1" and mask: "t' = (if tg then tag_at m (sel_tags m) XOR t else t)"
  obtains "t' = 0" "view_tag t tg m = Some (case mon_pertag m of None \<Rightarrow> 1 | Some p \<Rightarrow> cur_tag p, m)"
  | i m2 where "t' \<noteq> 0" "view_tag t tg m = Some (i, apply_pertag_context i m2)" "sel_tags m2 \<le> 1"
      "mon_pertag m2 = mon_pertag m" "get_active_tags m2 = t'"
      "i = (if (case mon_pertag m of None \<Rightarrow> False | Some p \<Rightarrow> is_all_tags p t') then 0
        else if (case mon_pertag m of None \<Rightarrow> 1 | Some p \<Rightarrow> cur_tag p) > 0 \<and>
          t' AND push_bit (((case mon_pertag m of None \<Rightarrow> 1 | Some p \<Rightarrow> cur_tag p) - 1) mod 32) 1 \<noteq> 0
        then (case mon_pertag m of None \<Rightarrow> 1 | Some p \<Rightarrow> cur_tag p) else trailing_zeros t' + 1)"
proof -
  let ?m1 = "m\<lparr>sel_tags := 1 - sel_tags m\<rparr>"
  let ?m2 = "set_tag_at (sel_tags ?m1) t' ?m1"
  show thesis
  proof (cases "t' = 0")
    case True
    with assms show ?thesis by (intro that(1)) (simp_all add: view_tag_def Let_def)
  next
    case False
    have a: "get_active_tags ?m2 = t'" by (rule get_active_set_tag) simp
    let ?c = "case mon_pertag m of None \<Rightarrow> 1 | Some p \<Rightarrow> cur_tag p"
    let ?i = "if (case mon_pertag m of None \<Rightarrow> False | Some p \<Rightarrow> is_all_tags p t') then 0
      else if ?c > 0 \<and> t' AND push_bit ((?c - 1) mod 32) 1 \<noteq> 0 then ?c else trailing_zeros t' + 1"
    have "view_tag t tg m = Some (?i, apply_pertag_context ?i ?m2)"
      unfolding view_tag_def Let_def mask [symmetric]
      by (simp only: assms(1) False if_False not_less [symmetric, of _ "sel_tags m"] simp_thms linorder_not_less
          assms(1) [unfolded not_less [symmetric]]) 
    then show ?thesis by (rule that(2) [OF False _ _ _ a refl]) simp_all
  qed
qed

lemma wf_monitor_pertag: "wf_monitor m \<Longrightarrow> \<forall>p. mon_pertag m = Some p \<longrightarrow> wf_pertag p"
  "wf_monitor m \<Longrightarrow> sel_tags m \<le> 1"
  by (auto simp: wf_monitor_def split: option.splits)

lemma active_apply: "get_active_tags (apply_pertag_context i m) = get_active_tags m"
  by (simp add: get_active_tags_def tag_at_def apply_pertag_context_frame)

lemma view_tag_wf:
  assumes "wf_monitor m"
  shows "\<exists>i m'. view_tag t tg m = Some (i, m') \<and> wf_monitor m' \<and> (get_active_tags m \<noteq> 0 \<longrightarrow> get_active_tags m' \<noteq> 0)"
  using wf_monitor_pertag [OF assms]
proof (cases rule: view_tag_cases [OF wf_monitor_pertag(2) [OF assms] refl, of tg t, case_names same moved])
  case same
  with assms show ?thesis by simp
next
  case (moved i m2)
  then have "wf_monitor (apply_pertag_context i m2)"
    using wf_monitor_pertag(1) [OF assms] by (intro apply_pertag_context_any) simp_all
  with moved show ?thesis by (simp add: active_apply)
qed

lemma update_params_wf: "wf_monitor m \<Longrightarrow> wf_monitor (update_current_tag_layout_params m)"
  by (cases "mon_pertag m")
    (simp_all add: wf_monitor_def update_current_tag_layout_params_def wf_pertag_def mirrors_slot_def Let_def clamp_tag_id)

lemma retune_wf: "wf_monitor m \<Longrightarrow> wf_monitor (retune_layout_defaults d m)"
  by (cases "mon_pertag m")
    (simp_all add: wf_monitor_def retune_layout_defaults_def wf_pertag_def mirrors_slot_def Let_def)

lemma set_selected_current_wf: "wf_monitor m \<Longrightarrow> wf_monitor (set_selected_client_for_current_tag c m)"
  by (cases "mon_pertag m")
    (simp_all add: wf_monitor_def set_selected_client_for_current_tag_def wf_pertag_def mirrors_slot_def Let_def)

lemma set_selected_mask_wf: "wf_monitor m \<Longrightarrow> wf_monitor (set_selected_client_for_tag_mask t c m)"
  by (cases "mon_pertag m")
    (simp_all add: wf_monitor_def set_selected_client_for_tag_mask_def wf_pertag_def mirrors_slot_def Let_def)

lemma clear_selection_wf: "wf_monitor m \<Longrightarrow> wf_monitor (clear_selection_of k m)"
  by (cases "mon_pertag m")
    (simp_all add: wf_monitor_def clear_selection_of_def wf_pertag_def mirrors_slot_def Let_def)

lemma vec_resize_nonempty: "vec_resize (Suc n) v xs \<noteq> []"
  by (metis length_vec_resize list.size(3) nat.distinct(1))

lemma resize_for_tags_wf:
  assumes "wf_pertag p"
  shows "wf_pertag (resize_for_tags n a b c d e f p) \<and>
     length (pt_sel (resize_for_tags n a b c d e f p)) = max 1 (min n 31) + 1"
proof -
  define L where "L = max 1 (min n 31)"
  have eq: "resize_for_tags n a b c d e f p =
      (if length (pt_sel p) = L + 1 then p
       else p\<lparr>n_masters := vec_resize (L + 1) a (n_masters p), m_facts := vec_resize (L + 1) b (m_facts p),
          gaps := vec_resize (L + 1) c (gaps p), lts := vec_resize (L + 1) d (lts p),
          prev_lts := vec_resize (L + 1) e (prev_lts p), show_bars := vec_resize (L + 1) f (show_bars p),
          pt_sel := vec_resize (L + 1) None (pt_sel p), cur_tag := min (cur_tag p) L,
          prev_tag := if prev_tag p \<le> L then prev_tag p else min (cur_tag p) L\<rparr>)"
    unfolding resize_for_tags_def Let_def L_def [symmetric] by (cases p) (simp add: min_def)
  show ?thesis
    unfolding eq L_def [symmetric] using assms
    by (simp add: wf_pertag_def Let_def length_vec_resize vec_resize_nonempty less_Suc_eq_le)
qed

section \<open>Changing the number of tags\<close>

lemma trailing_zeros_bit: "(w :: 32 word) \<noteq> 0 \<Longrightarrow> trailing_zeros w < 32 \<and> bit w (trailing_zeros w)"
proof -
  assume "w \<noteq> 0"
  then obtain n where n: "bit w n" "n < 32"
    using bit_word_eqI [of w 0] by auto
  let ?t = "takeWhile (\<lambda>i. \<not> bit w i) [0..<32]"
  have "length ?t < length [0..<32]"
  proof (rule ccontr)
    assume "\<not> length ?t < length [0..<32]"
    then have "?t = [0..<32]" by (metis length_takeWhile_le nat_less_le takeWhile_eq_take take_all_iff linorder_not_less)
    then have "\<forall>i \<in> set [0..<32]. \<not> bit w i" by (metis takeWhile_eq_all_conv)
    with n show False by auto
  qed
  moreover from nth_length_takeWhile [OF this] have "bit w ([0..<32] ! length ?t)" by simp
  ultimately show ?thesis by (simp add: trailing_zeros_def)
qed

lemma and_single_bit: "(w :: 32 word) AND push_bit n 1 = 0 \<longleftrightarrow> \<not> bit w n"
  by (simp only: bit_iff_and_push_bit_not_eq_0 simp_thms)

lemma checked_shl1_bit: "n < 32 \<Longrightarrow> w AND checked_shl1 n = 0 \<longleftrightarrow> \<not> bit w n"
  by (simp only: checked_shl1_def if_True and_single_bit)

text \<open>The mask of the first \<open>n\<close> tags.\<close>

definition tag_mask_of :: "nat \<Rightarrow> 32 word" where
  "tag_mask_of n = mask n"

lemma sync_empty_selection_ok:
  assumes "mon_pertag m = Some p" "wf_pertag p" "length (pt_sel p) = n + 1" "1 \<le> n" "n \<le> 31" "i \<le> 1"
    "tag_at m i AND tag_mask_of n = tag_at m i"
  shows "\<exists>p'. mon_pertag (sync_empty_selection n (tag_mask_of n) i m) = Some p' \<and> wf_pertag p' \<and>
    length (pt_sel p') = n + 1 \<and> sel_tags (sync_empty_selection n (tag_mask_of n) i m) = sel_tags m \<and>
    tag_at (sync_empty_selection n (tag_mask_of n) i m) i \<noteq> 0 \<and>
    tag_at (sync_empty_selection n (tag_mask_of n) i m) i AND tag_mask_of n = tag_at (sync_empty_selection n (tag_mask_of n) i m) i"
proof (cases "tag_at m i = 0")
  case True
  have one: "1 AND tag_mask_of n = 1"
    using assms(4) by (intro bit_word_eqI) (auto simp: bit_and_iff bit_1_iff bit_mask_iff tag_mask_of_def)
  have st: "tag_at (set_tag_at i v m') i = v" for v m' using assms(6) by (auto simp: tag_at_def set_tag_at_def)
  let ?p1 = "if cur_tag p = 0 \<or> cur_tag p > n then p\<lparr>cur_tag := min 1 n\<rparr> else p"
  let ?b = "if cur_tag ?p1 = 0 then 0 else checked_shl1 (unat (word_of_nat (cur_tag ?p1 - 1) :: 32 word))"
  have w1: "wf_pertag ?p1" "length (pt_sel ?p1) = n + 1" "wf_pertag (?p1\<lparr>cur_tag := 1\<rparr>)"
    using assms by (auto simp: wf_pertag_def Let_def)
  have ss: "\<exists>p'. mon_pertag m' = Some p' \<and> wf_pertag p' \<and> length (pt_sel p') = n + 1 \<and> sel_tags m' = sel_tags m \<and>
      tag_at m' i \<noteq> 0 \<and> tag_at m' i AND tag_mask_of n = tag_at m' i"
    if "mon_pertag m' = Some q" "wf_pertag q" "length (pt_sel q) = n + 1" "sel_tags m' = sel_tags m" "tag_at m' i = v"
      "v \<noteq> 0" "v AND tag_mask_of n = v" for m' q v
    using that by simp
  show ?thesis
  proof (cases "?b AND tag_mask_of n = 0")
    case z: True
    have eq: "sync_empty_selection n (tag_mask_of n) i m =
        set_tag_at i 1 ((set_tag_at i (?b AND tag_mask_of n) m)\<lparr>mon_pertag := Some (?p1\<lparr>cur_tag := 1\<rparr>)\<rparr>)"
      unfolding sync_empty_selection_def Let_def assms(1) option.case st z using True by simp
    show ?thesis unfolding eq by (rule ss [OF _ w1(3) _ _ st _ one]) (simp_all add: w1(2))
  next
    case z: False
    have eq: "sync_empty_selection n (tag_mask_of n) i m = (set_tag_at i (?b AND tag_mask_of n) m)\<lparr>mon_pertag := Some ?p1\<rparr>"
      unfolding sync_empty_selection_def Let_def assms(1) option.case st using True z by simp
    have t: "tag_at ((set_tag_at i v m)\<lparr>mon_pertag := q\<rparr>) i = v" for v q
      using assms(6) by (auto simp: tag_at_def set_tag_at_def)
    show ?thesis unfolding eq by (rule ss [OF _ w1(1,2) _ t z]) (simp_all add: ac_simps)
  qed
next
  case False
  then show ?thesis using assms by (simp add: sync_empty_selection_def)
qed

text \<open>The current tag agrees with a tag set: slot 0 for all tags, a viewed tag otherwise.\<close>

definition tag_agrees :: "pertag \<Rightarrow> 32 word \<Rightarrow> bool" where
  "tag_agrees p active \<longleftrightarrow>
     (if is_all_tags p active then cur_tag p = 0 else 0 < cur_tag p \<and> bit active (cur_tag p - 1))"

lemma bit_tag_mask: "bit (tag_mask_of n) k \<longleftrightarrow> k < n \<and> k < 32"
  by (auto simp: tag_mask_of_def bit_mask_iff)

lemma lowest_tag_less:
  assumes "w \<noteq> 0" "w AND tag_mask_of n = w"
  shows "trailing_zeros w < n" "bit w (trailing_zeros w)"
proof -
  from trailing_zeros_bit [OF assms(1)] show b: "bit w (trailing_zeros w)" by simp
  then have "bit (w AND tag_mask_of n) (trailing_zeros w)" using assms(2) by simp
  then show "trailing_zeros w < n" by (simp add: bit_and_iff bit_tag_mask)
qed

lemma is_all_tags_cur [simp]: "is_all_tags (p\<lparr>cur_tag := i\<rparr>) t = is_all_tags p t" "is_all_tags (p\<lparr>prev_tag := i\<rparr>) t = is_all_tags p t"
  by (simp_all add: is_all_tags_def)

lemma sync_current_tag_ok:
  assumes "mon_pertag m = Some p" "wf_pertag p" "length (pt_sel p) = n + 1" "n \<le> 31"
    "tag_at m i \<noteq> 0" "tag_at m i AND tag_mask_of n = tag_at m i"
  shows "\<exists>p'. mon_pertag (sync_current_tag i m) = Some p' \<and> wf_pertag p' \<and> length (pt_sel p') = n + 1 \<and>
    tag_agrees p' (tag_at m i) \<and> tag_set (sync_current_tag i m) = tag_set m \<and> sel_tags (sync_current_tag i m) = sel_tags m"
proof -
  let ?a = "tag_at m i"
  note low = lowest_tag_less [OF assms(5,6)]
  have cur: "cur_tag p \<le> n" "0 < length (pt_sel p)" using assms(2,3) by (auto simp: wf_pertag_def Let_def)
  show ?thesis
  proof (cases "is_all_tags p ?a")
    case True
    with assms cur show ?thesis
      by (auto simp: sync_current_tag_def tag_agrees_def Let_def wf_pertag_def)
  next
    case na: False
    show ?thesis
    proof (cases "?a AND (if cur_tag p = 0 then 0 else checked_shl1 (cur_tag p - 1)) = 0")
      case True
      have "clamp_tag p (trailing_zeros ?a + 1) = trailing_zeros ?a + 1"
        using low assms(3) by (intro clamp_tag_id) simp
      with True na assms low cur show ?thesis
        by (auto simp: sync_current_tag_def tag_agrees_def Let_def wf_pertag_def slot_for_mask_def)
    next
      case False
      then have "0 < cur_tag p" by (auto split: if_splits)
      with False cur(1) assms(4) have "bit ?a (cur_tag p - 1)" by (simp add: checked_shl1_bit)
      with False na assms \<open>0 < cur_tag p\<close> show ?thesis
        by (simp add: sync_current_tag_def tag_agrees_def Let_def)
    qed
  qed
qed

lemma sync_tag_slots_ok:
  assumes "wf_monitor m" "mon_pertag m = Some p" "1 \<le> n" "n \<le> 31"
  shows "\<exists>p'. wf_monitor (sync_tag_slots n (tag_mask_of n) m) \<and> mon_pertag (sync_tag_slots n (tag_mask_of n) m) = Some p' \<and>
    length (pt_sel p') = n + 1 \<and> get_active_tags (sync_tag_slots n (tag_mask_of n) m) \<noteq> 0 \<and>
    get_active_tags (sync_tag_slots n (tag_mask_of n) m) AND NOT (tag_mask_of n) = 0 \<and>
    tag_agrees p' (get_active_tags (sync_tag_slots n (tag_mask_of n) m))"
proof -
  let ?d = "mon_layout_defaults m" and ?t = "tag_mask_of n"
  let ?q = "resize_for_tags n (ld_n_master ?d) (ld_m_fact ?d) (ld_gap ?d) (mon_lt m) (mon_prev_lt m) (or_else (vec_get (show_bars p) 0) True) p"
  have s: "sel_tags m \<le> 1" "sel_tags m mod 2 = sel_tags m" using assms(1) by (auto simp: wf_monitor_def)
  have wq: "wf_pertag ?q" "length (pt_sel ?q) = n + 1"
    using resize_for_tags_wf [of p n] wf_monitor_pertag(1) [OF assms(1)] assms(2,3,4) by auto
  define m2 where "m2 = m\<lparr>mon_pertag := Some ?q, tag_set := (fst (tag_set m) AND ?t, snd (tag_set m) AND ?t)\<rparr>"
  have m2: "mon_pertag m2 = Some ?q" "tag_at m2 (sel_tags m) AND ?t = tag_at m2 (sel_tags m)" "sel_tags m2 = sel_tags m"
    by (simp_all add: m2_def tag_at_def ac_simps)
  define m3 where "m3 = sync_empty_selection n ?t (sel_tags m) m2"
  obtain p3 where p3: "mon_pertag m3 = Some p3" "wf_pertag p3" "length (pt_sel p3) = n + 1" "sel_tags m3 = sel_tags m"
    "tag_at m3 (sel_tags m) \<noteq> 0" "tag_at m3 (sel_tags m) AND ?t = tag_at m3 (sel_tags m)"
    using sync_empty_selection_ok [OF m2(1) wq assms(3,4) s(1) m2(2)] m2(3) unfolding m3_def by auto
  define m4 where "m4 = sync_current_tag (sel_tags m) m3"
  obtain p4 where p4: "mon_pertag m4 = Some p4" "wf_pertag p4" "length (pt_sel p4) = n + 1"
    "tag_agrees p4 (tag_at m3 (sel_tags m))" "tag_set m4 = tag_set m3" "sel_tags m4 = sel_tags m"
    using sync_current_tag_ok [OF p3(1,2,3) assms(4) p3(5,6)] p3(4) unfolding m4_def by auto
  have eq: "sync_tag_slots n ?t m = apply_pertag_context (cur_tag p4) m4"
    using assms(2) p4(1) by (simp add: sync_tag_slots_def Let_def m2_def m3_def m4_def s(2) reload_current_tag_context_def)
  have act: "get_active_tags (apply_pertag_context (cur_tag p4) m4) = tag_at m3 (sel_tags m)"
    using p4(5,6) s by (simp add: active_apply) (simp add: get_active_tags_def tag_at_def)
  have "clamp_tag p4 (cur_tag p4) = cur_tag p4" using p4(2) by (intro clamp_tag_id) (simp add: wf_pertag_def Let_def)
  moreover have "tag_at m3 (sel_tags m) AND NOT ?t = 0" 
    by (subst p3(6) [symmetric], rule bit_word_eqI) (simp add: bit_and_iff bit_not_iff)
  ultimately show ?thesis
    unfolding eq act using p4 p3(5) s apply_pertag_context_wf [OF p4(1,2), of "cur_tag p4"]
    by (auto simp: apply_pertag_context_frame tag_agrees_def)
qed

section \<open>Runs of monitor operations\<close>

text \<open>
  The commands that act on one monitor. \<open>Tune\<close> is what \<open>setmfact\<close>, \<open>incnmaster\<close> and the gap commands
  do: write the live values, then record them for the current tag. \<open>None\<close> is a panic.
\<close>

datatype monitor_op =
    View "32 word" bool
  | Tune monitor_layout
  | Retune layout_defaults
  | Reload
  | Select "client_key option"
  | Preselect "32 word" "client_key option"
  | Forget client_key
  | Sync_Tags nat

fun monitor_exec :: "monitor_op \<Rightarrow> wm_monitor \<Rightarrow> wm_monitor option" where
  "monitor_exec (View t tg) m = map_option snd (view_tag t tg m)"
| "monitor_exec (Tune l) m = Some (update_current_tag_layout_params (m\<lparr>mon_layout := l\<rparr>))"
| "monitor_exec (Retune d) m = Some (retune_layout_defaults d m)"
| "monitor_exec Reload m = Some (reload_current_tag_context m)"
| "monitor_exec (Select c) m = Some (set_selected_client_for_current_tag c m)"
| "monitor_exec (Preselect t c) m = Some (set_selected_client_for_tag_mask t c m)"
| "monitor_exec (Forget c) m = Some (clear_selection_of c m)"
| "monitor_exec (Sync_Tags n) m = Some (sync_tag_slots n (tag_mask_of n) m)"

primrec monitor_run :: "monitor_op list \<Rightarrow> wm_monitor \<Rightarrow> wm_monitor option" where
  "monitor_run [] m = Some m"
| "monitor_run (op # ops) m = (case monitor_exec op m of None \<Rightarrow> None | Some m' \<Rightarrow> monitor_run ops m')"

fun op_ok :: "monitor_op \<Rightarrow> bool" where
  "op_ok (Sync_Tags n) = (1 \<le> n \<and> n \<le> 31)"
| "op_ok _ = True"

lemma tune_wf: "wf_monitor m \<Longrightarrow> wf_monitor (update_current_tag_layout_params (m\<lparr>mon_layout := l\<rparr>))"
  by (cases "mon_pertag m")
    (simp_all add: wf_monitor_def update_current_tag_layout_params_def wf_pertag_def mirrors_slot_def Let_def clamp_tag_id)

lemma active_frame:
  "get_active_tags (update_current_tag_layout_params m) = get_active_tags m"
  "get_active_tags (retune_layout_defaults d m) = get_active_tags m"
  "get_active_tags (set_selected_client_for_current_tag c m) = get_active_tags m"
  "get_active_tags (set_selected_client_for_tag_mask t c m) = get_active_tags m"
  "get_active_tags (clear_selection_of k m) = get_active_tags m"
  "get_active_tags (m\<lparr>mon_layout := l\<rparr>) = get_active_tags m"
  by (simp_all add: get_active_tags_def tag_at_def update_current_tag_layout_params_def retune_layout_defaults_def
      set_selected_client_for_current_tag_def set_selected_client_for_tag_mask_def clear_selection_of_def Let_def
      split: option.splits)

definition has_pertag :: "wm_monitor \<Rightarrow> bool" where
  "has_pertag m \<longleftrightarrow> mon_pertag m \<noteq> None"

lemma pertag_frame:
  "has_pertag (update_current_tag_layout_params m) = has_pertag m"
  "has_pertag (retune_layout_defaults d m) = has_pertag m"
  "has_pertag (set_selected_client_for_current_tag c m) = has_pertag m"
  "has_pertag (set_selected_client_for_tag_mask t c m) = has_pertag m"
  "has_pertag (clear_selection_of k m) = has_pertag m"
  "has_pertag (apply_pertag_context i m) = has_pertag m"
  "has_pertag (m\<lparr>mon_layout := l\<rparr>) = has_pertag m"
  by (simp_all add: has_pertag_def update_current_tag_layout_params_def retune_layout_defaults_def apply_pertag_context_frame
      set_selected_client_for_current_tag_def set_selected_client_for_tag_mask_def clear_selection_of_def Let_def
      split: option.splits)

text \<open>A monitor in use: its slots are aligned, and it shows at least one tag.\<close>

definition live_monitor :: "wm_monitor \<Rightarrow> bool" where
  "live_monitor m \<longleftrightarrow> wf_monitor m \<and> has_pertag m \<and> get_active_tags m \<noteq> 0"

lemma view_tag_live:
  assumes "live_monitor m" shows "\<exists>i m'. view_tag t tg m = Some (i, m') \<and> live_monitor m'"
proof -
  have w: "wf_monitor m" and a: "get_active_tags m \<noteq> 0" and p: "has_pertag m"
    using assms by (auto simp: live_monitor_def)
  show ?thesis
  proof (cases rule: view_tag_cases [OF wf_monitor_pertag(2) [OF w] refl, of tg t, case_names same moved])
    case same
    with assms show ?thesis by simp
  next
    case (moved i m2)
    then have "wf_monitor (apply_pertag_context i m2)"
      using wf_monitor_pertag(1) [OF w] by (intro apply_pertag_context_any) simp_all
    moreover have "has_pertag m2" using moved(4) p by (simp add: has_pertag_def)
    ultimately have "live_monitor (apply_pertag_context i m2)"
      using moved(1,5) by (simp add: active_apply live_monitor_def pertag_frame)
    with moved(2) show ?thesis by blast
  qed
qed

lemma monitor_exec_live:
  assumes "live_monitor m" "op_ok op" shows "\<exists>m'. monitor_exec op m = Some m' \<and> live_monitor m'"
proof (cases op)
  case (View t tg)
  then show ?thesis using view_tag_live [OF assms(1), of t tg] by auto
next
  case Reload
  have "wf_monitor (apply_pertag_context i m)" for i
    using assms(1) by (intro apply_pertag_context_any) (auto simp: live_monitor_def dest: wf_monitor_pertag)
  with Reload assms(1) show ?thesis
    by (simp add: reload_current_tag_context_def live_monitor_def active_apply pertag_frame)
next
  case (Sync_Tags n)
  then show ?thesis using sync_tag_slots_ok [of m _ n] assms by (auto simp: live_monitor_def has_pertag_def)
qed (use assms in \<open>simp_all add: live_monitor_def active_frame pertag_frame tune_wf retune_wf set_selected_current_wf
      set_selected_mask_wf clear_selection_wf\<close>)

text \<open>
  C15. No sequence of monitor commands panics or breaks the bookkeeping: after any run the per-tag
  vectors are aligned, the live layout values are those of the current tag's slot, and at least one
  tag is shown.
\<close>

theorem monitor_run_keeps_invariant:
  assumes "live_monitor m" "\<forall>op \<in> set ops. op_ok op"
  shows "\<exists>m'. monitor_run ops m = Some m' \<and> live_monitor m'"
  using assms
proof (induction ops arbitrary: m)
  case (Cons op ops)
  then obtain m' where "monitor_exec op m = Some m'" "live_monitor m'"
    using monitor_exec_live [of m op] by auto
  with Cons show ?case by simp
qed simp

definition sample_monitor :: wm_monitor where
  "sample_monitor = reload_current_tag_context (wm_monitor_new\<lparr>mon_pertag := Some (pertag_new True 3), tag_set := (1, 1)\<rparr>)"

lemma sample_monitor_live: "live_monitor sample_monitor"
proof -
  let ?m = "wm_monitor_new\<lparr>mon_pertag := Some (pertag_new True 3), tag_set := (1, 1)\<rparr>"
  have "wf_monitor (apply_pertag_context i ?m)" for i
    by (rule apply_pertag_context_any) (simp_all add: wf_pertag_new wm_monitor_new_def)
  then show ?thesis
    by (simp add: live_monitor_def sample_monitor_def reload_current_tag_context_def active_apply pertag_frame)
      (simp add: has_pertag_def get_active_tags_def tag_at_def)
qed

theorem monitor_run_keeps_invariant_witness:
  "\<exists>m'. monitor_run [View 2 False, Select (Some 7), Sync_Tags 1, View 2 True, Forget 7] sample_monitor = Some m' \<and> live_monitor m'"
  using monitor_run_keeps_invariant [OF sample_monitor_live,
      of "[View 2 False, Select (Some 7), Sync_Tags 1, View 2 True, Forget 7]"] by simp


lemma bit_single: "k < 32 \<Longrightarrow> bit (push_bit k (1 :: 32 word)) n \<longleftrightarrow> n = k"
  by (auto simp: bit_exp_iff possible_bit_word)

lemma trailing_zeros_single: "k < 32 \<Longrightarrow> trailing_zeros (push_bit k 1) = k"
proof -
  assume k: "k < 32"
  have b: "bit (push_bit k (1 :: 32 word)) n \<longleftrightarrow> n = k" for n
    using k by (intro bit_single) simp
  then have "push_bit k (1 :: 32 word) \<noteq> 0" by (metis bit_0_eq bot_apply bot_bool_def)
  from trailing_zeros_bit [OF this] b show ?thesis by blast
qed

lemma single_not_all: "k < 31 \<Longrightarrow> length (pt_sel p) \<le> 32 \<Longrightarrow> \<not> is_all_tags p (push_bit k 1)"
proof
  assume k: "k < 31" and l: "length (pt_sel p) \<le> 32" and a: "is_all_tags p (push_bit k 1)"
  have b: "bit (push_bit k (1 :: 32 word)) n \<longleftrightarrow> n = k" for n
    using k by (intro bit_single) simp
  have "push_bit k (1 :: 32 word) \<noteq> NOT 0"
  proof
    assume "push_bit k (1 :: 32 word) = NOT 0"
    then have "bit (push_bit k (1 :: 32 word)) 31 = bit (NOT 0 :: 32 word) 31" by simp
    with k b [of 31] show False by (simp del: push_bit_of_1)
  qed
  with a have t: "\<not> length (pt_sel p) - 1 < 2"
    and e: "push_bit k 1 AND mask (length (pt_sel p) - 1) = (mask (length (pt_sel p) - 1) :: 32 word)"
    using l by (auto simp: is_all_tags_def Let_def mask_eq_exp_minus_1 push_bit_eq_mult split: if_splits)
  have "bit (mask (length (pt_sel p) - 1) :: 32 word) n \<Longrightarrow> n = k" for n
    using b [of n] bit_and_iff [of "push_bit k 1" "mask (length (pt_sel p) - 1) :: 32 word" n] e by simp
  then have "(0::nat) = k" "(1::nat) = k" using t l by (auto simp: bit_mask_iff)
  then show False by simp
qed

lemma view_single:
  assumes "wf_monitor m" "mon_pertag m = Some p" "1 \<le> c" "c < length (pt_sel p)" "length (pt_sel p) \<le> 32"
  shows "\<exists>m2. view_tag (push_bit (c - 1) 1) False m = Some (c, apply_pertag_context c m2) \<and>
    mon_pertag m2 = Some p \<and> sel_tags m2 \<le> 1"
proof (cases rule: view_tag_cases [OF wf_monitor_pertag(2) [OF assms(1)] refl, of False "push_bit (c - 1) 1", case_names same moved])
  case same
  then have "push_bit (c - 1) (1 :: 32 word) = 0" by simp
  then have "\<not> bit (push_bit (c - 1) (1 :: 32 word)) (c - 1)" by (simp only: bit_0_eq bot_apply) simp
  moreover have "c - 1 < 32" using assms by linarith
  ultimately show ?thesis using bit_single [of "c - 1" "c - 1"] by blast
next
  case (moved i m2)
  have c: "c - 1 < 31" using assms by linarith
  have cur: "cur_tag p < 32" using assms wf_monitor_pertag(1) [OF assms(1)] by (auto simp: wf_pertag_def Let_def)
  have "i = c"
  proof (cases "cur_tag p > 0 \<and> push_bit (c - 1) (1 :: 32 word) AND push_bit ((cur_tag p - 1) mod 32) 1 \<noteq> 0")
    case True
    moreover have "(cur_tag p - 1) mod 32 = cur_tag p - 1" using cur by simp
    ultimately have "bit (push_bit (c - 1) (1 :: 32 word)) (cur_tag p - 1)" by (simp only: and_single_bit not_not)
    then have "cur_tag p - 1 = c - 1" using c by (subst (asm) bit_single) simp_all
    with True assms(3) have "cur_tag p = c" by linarith
    with True moved(6) single_not_all [OF c assms(5)] assms(2) show ?thesis by (simp del: push_bit_of_1)
  next
    case False
    with moved(6) single_not_all [OF c assms(5)] trailing_zeros_single [of "c - 1"] c assms(2,3) show ?thesis
      by (auto simp del: push_bit_of_1 split: if_splits)
  qed
  with moved(2-4) assms(2) show ?thesis by auto
qed

text \<open>
  Tags remember their tuning: values set on a tag come back when the user looks at other tags
  and returns.
\<close>
theorem tag_tuning_is_remembered:
  assumes "wf_monitor m" "mon_pertag m = Some p" "cur_tag p = c" "1 \<le> c" "length (pt_sel p) \<le> 32"
    and m1: "m1 = update_current_tag_layout_params (m\<lparr>mon_layout := l\<rparr>)"
    and v: "view_tag t tg m1 = Some (i, m2)"
  shows "\<exists>m3. view_tag (push_bit (c - 1) 1) False m2 = Some (c, m3) \<and> mon_layout m3 = l"
proof -
  have wp: "wf_pertag p" using assms wf_monitor_pertag(1) by blast
  let ?p = "p\<lparr>n_masters := (n_masters p)[c := ml_n_master l], m_facts := (m_facts p)[c := ml_m_fact l],
      gaps := (gaps p)[c := ml_gap l]\<rparr>"
  have c: "c < length (pt_sel p)" using wp assms(3) by (simp add: wf_pertag_def Let_def)
  have w1: "wf_monitor m1" "mon_pertag m1 = Some ?p"
    unfolding m1 using tune_wf [OF assms(1)] assms(2,3) c
    by (simp_all add: update_current_tag_layout_params_def Let_def clamp_tag_id)
  obtain j k where p2: "wf_monitor m2" "mon_pertag m2 = Some (?p\<lparr>prev_tag := j, cur_tag := k\<rparr>)"
  proof (cases rule: view_tag_cases [OF wf_monitor_pertag(2) [OF w1(1)] refl, of tg t, case_names same moved])
    case same
    with v w1 that [of "cur_tag ?p" "prev_tag ?p"] show ?thesis by simp
  next
    case (moved i' m')
    have "wf_monitor m2" using view_tag_wf [OF w1(1), of t tg] v by auto
    with moved v w1 that show ?thesis by (simp add: apply_pertag_context_frame)
  qed
  obtain m' where m': "view_tag (push_bit (c - 1) 1) False m2 = Some (c, apply_pertag_context c m')"
    "mon_pertag m' = Some (?p\<lparr>prev_tag := j, cur_tag := k\<rparr>)"
    using view_single [OF p2 assms(4)] c assms(5) by auto
  have "mon_layout (apply_pertag_context c m') = l"
    using m'(2) wp c by (simp add: apply_pertag_context_def Let_def wf_pertag_def clamp_tag_id)
  with m'(1) show ?thesis by blast
qed

theorem tag_tuning_is_remembered_witness:
  "\<exists>p m1 m2 m3. live_monitor m1 \<and> mon_pertag m1 = Some p \<and> cur_tag p = 2 \<and>
     view_tag (push_bit (2 - 1) 1) False m2 = Some (2, m3) \<and> mon_layout m3 = \<lparr>ml_m_fact = Fin 1, ml_n_master = 4, ml_gap = 9\<rparr>"
proof -
  let ?l = "\<lparr>ml_m_fact = Fin 1, ml_n_master = 4, ml_gap = 9\<rparr>"
  obtain m where v: "view_tag (push_bit (2 - 1) 1) False sample_monitor = Some (2, m)"
    and p: "\<exists>p. mon_pertag m = Some p \<and> cur_tag p = 2 \<and> length (pt_sel p) = 4"
  proof -
    let ?p = "pertag_new True 3\<lparr>prev_tag := 0, cur_tag := 0\<rparr>"
    have sp: "mon_pertag sample_monitor = Some ?p"
      by (simp add: sample_monitor_def reload_current_tag_context_def apply_pertag_context_frame wm_monitor_new_def
          pertag_new_def Let_def clamp_tag_def)
    have "length (pt_sel ?p) = 4" by (simp add: pertag_new_def Let_def)
    then obtain m2 where "view_tag (push_bit (2 - 1) 1) False sample_monitor = Some (2, apply_pertag_context 2 m2)"
      "mon_pertag m2 = Some ?p"
      using view_single [OF _ sp, of 2] sample_monitor_live by (auto simp: live_monitor_def)
    moreover have "clamp_tag ?p 2 = 2" by (rule clamp_tag_id) (simp add: pertag_new_def Let_def)
    ultimately show ?thesis using that [of "apply_pertag_context 2 m2"] \<open>length (pt_sel ?p) = 4\<close>
      by (auto simp: apply_pertag_context_frame)
  qed
  from p obtain p where p: "mon_pertag m = Some p" "cur_tag p = 2" "length (pt_sel p) = 4" by blast
  have l: "live_monitor m" using view_tag_live [OF sample_monitor_live, of "push_bit (2 - 1) 1" False] v by auto
  define m1 where "m1 = update_current_tag_layout_params (m\<lparr>mon_layout := ?l\<rparr>)"
  have "live_monitor m1" using monitor_exec_live [OF l, of "Tune ?l"] by (simp add: m1_def)
  then obtain i m2 where v2: "view_tag 1 False m1 = Some (i, m2)" using view_tag_live by blast
  from tag_tuning_is_remembered [OF _ p(1,2) _ _ m1_def v2] p(3) l
  obtain m3 where "view_tag (push_bit (2 - 1) 1) False m2 = Some (2, m3)" "mon_layout m3 = ?l"
    by (auto simp: live_monitor_def)
  with l p show ?thesis by blast
qed

text \<open>
  A live change of the number of tags leaves the monitor consistent: aligned vectors of the new
  size, a non-empty selection inside the configured tags, and a current tag that agrees with it.
\<close>

theorem sync_tag_slots_consistent:
  assumes "wf_monitor m" "mon_pertag m = Some p" "1 \<le> n" "n \<le> 31"
  shows "\<exists>p'. wf_monitor (sync_tag_slots n (tag_mask_of n) m) \<and> mon_pertag (sync_tag_slots n (tag_mask_of n) m) = Some p' \<and>
    length (pt_sel p') = n + 1 \<and> get_active_tags (sync_tag_slots n (tag_mask_of n) m) \<noteq> 0 \<and>
    get_active_tags (sync_tag_slots n (tag_mask_of n) m) AND NOT (tag_mask_of n) = 0 \<and>
    tag_agrees p' (get_active_tags (sync_tag_slots n (tag_mask_of n) m))"
  using assms by (rule sync_tag_slots_ok)

theorem sync_tag_slots_consistent_witness:
  "get_active_tags (sync_tag_slots 2 (tag_mask_of 2) (wm_monitor_new\<lparr>mon_pertag := Some (pertag_new True 9),
      mon_layout := \<lparr>ml_m_fact = Fin 0, ml_n_master = 0, ml_gap = 0\<rparr>, tag_set := (256, 0)\<rparr>)) \<noteq> 0"
proof -
  let ?m = "wm_monitor_new\<lparr>mon_pertag := Some (pertag_new True 9),
      mon_layout := \<lparr>ml_m_fact = Fin 0, ml_n_master = 0, ml_gap = 0\<rparr>, tag_set := (256, 0)\<rparr>"
  have "wf_monitor ?m"
    by (simp add: wf_monitor_def wf_pertag_new mirrors_slot_def) (simp add: wm_monitor_new_def pertag_new_def Let_def)
  moreover have "mon_pertag ?m = Some (pertag_new True 9)" by simp
  ultimately show ?thesis using sync_tag_slots_consistent [of ?m _ 2] by fastforce
qed

text \<open>
  Forgetting a client removes it from every selection of the monitor and from nothing else: no
  slot selects it any more, and every other selection is as before.
\<close>

theorem clear_selection_forgets:
  assumes "m' = clear_selection_of k m"
  shows "mon_sel m' \<noteq> Some k \<and> (mon_sel m \<noteq> Some k \<longrightarrow> mon_sel m' = mon_sel m) \<and>
    (\<forall>p. mon_pertag m = Some p \<longrightarrow> (\<exists>p'. mon_pertag m' = Some p' \<and> Some k \<notin> set (pt_sel p') \<and>
       length (pt_sel p') = length (pt_sel p) \<and>
       (\<forall>i < length (pt_sel p). pt_sel p ! i \<noteq> Some k \<longrightarrow> pt_sel p' ! i = pt_sel p ! i))) \<and>
    get_selected_client_for_current_tag m' \<noteq> Some k"
proof -
  have "get_selected_client_for_current_tag m' \<noteq> Some k"
    using assms by (auto simp: clear_selection_of_def get_selected_client_for_current_tag_def vec_get_def Let_def
        split: option.splits if_splits)
  then show ?thesis using assms by (auto simp: clear_selection_of_def Let_def)
qed

theorem clear_selection_forgets_witness:
  "mon_sel (clear_selection_of 7 (wm_monitor_new\<lparr>mon_sel := Some 7\<rparr>)) \<noteq> Some 7"
  using clear_selection_forgets [OF refl, of 7 "wm_monitor_new\<lparr>mon_sel := Some 7\<rparr>"] by simp

end
