(* ===== verification/Layout_Commands.thy ===== *)
theory Layout_Commands
  imports Workspace Monitor
begin

text \<open>
  The layout commands a key binding or an IPC request runs: \<open>src/jwm/layout/scrolling.rs\<close>, the
  tuning commands and layout bookkeeping of \<open>src/jwm/layout/state.rs\<close>, and the accessors they use in
  \<open>src/jwm.rs\<close> and \<open>src/jwm/layout/resize.rs\<close>. A command works on the state of the window manager, the
  strips of the scrolling layout and the persistence mark. What it asks of the rest of the program
  (focusing a window, arranging a monitor, telling the bars) is the last thing it does; those calls
  are its result, in order, and one that fails skips the ones after it.
\<close>

section \<open>Arguments, context and results\<close>

datatype wm_arg = Arg_Int int | Arg_UInt "32 word" | Arg_UInt64 "64 word" | Arg_Float flt
  | Arg_String_Vec "string list" | Arg_Layout layout_enum

record layout_ctx =
  cx_state :: wm_state
  cx_strips :: strips
  layout_persist_dirty :: "nat option"
  cx_persist_tags :: bool
  cx_now :: nat

datatype follow_up = Focus_Client client_key | Arrange monitor_key | Broadcast_Windows monitor_key
  | Broadcast_Bar monitor_key | Broadcast_Attach_Mode bool

type_synonym command_result = "(string + follow_up list) \<times> layout_ctx"

abbreviation done_quietly :: "layout_ctx \<Rightarrow> command_result" where
  "done_quietly cx \<equiv> (Inr [], cx)"

abbreviation refresh :: "monitor_key \<Rightarrow> follow_up list" where
  "refresh mon \<equiv> [Arrange mon, Broadcast_Windows mon, Broadcast_Bar mon]"

abbreviation monitor_of :: "layout_ctx \<Rightarrow> monitor_key \<Rightarrow> wm_monitor option" where
  "monitor_of cx mon \<equiv> slot_get (st_monitors (cx_state cx)) mon"

definition update_monitor :: "monitor_key \<Rightarrow> (wm_monitor \<Rightarrow> wm_monitor) \<Rightarrow> layout_ctx \<Rightarrow> layout_ctx" where
  "update_monitor mon f cx = cx\<lparr>cx_state := (cx_state cx)\<lparr>st_monitors := slot_update mon f (st_monitors (cx_state cx))\<rparr>\<rparr>"

text \<open>\<open>self.state.monitors.get(mon_key).and_then(|m| m.sel)\<close>.\<close>

definition selected_on :: "monitor_key \<Rightarrow> layout_ctx \<Rightarrow> client_key option" where
  "selected_on mon cx = Option.bind (monitor_of cx mon) mon_sel"

definition mark_layout_dirty :: "layout_ctx \<Rightarrow> layout_ctx" where
  "mark_layout_dirty cx = (if cx_persist_tags cx then cx\<lparr>layout_persist_dirty := Some (cx_now cx)\<rparr> else cx)"

section \<open>Strips of a monitor\<close>

definition scrolling_state_key :: "monitor_key \<Rightarrow> layout_ctx \<Rightarrow> (monitor_key \<times> 32 word) option" where
  "scrolling_state_key mon cx = map_option (\<lambda>m. (mon, get_active_tags m)) (monitor_of cx mon)"

definition scrolling_state_for_monitor :: "monitor_key \<Rightarrow> layout_ctx \<Rightarrow> scrolling_state option" where
  "scrolling_state_for_monitor mon cx = Option.bind (scrolling_state_key mon cx) (cx_strips cx)"

text \<open>The write through the reference that \<open>scrolling_state_for_monitor_mut\<close> hands out.\<close>

definition put_strip :: "monitor_key \<Rightarrow> scrolling_state \<Rightarrow> layout_ctx \<Rightarrow> layout_ctx" where
  "put_strip mon s cx = (case scrolling_state_key mon cx of
     None \<Rightarrow> cx | Some key \<Rightarrow> cx\<lparr>cx_strips := (cx_strips cx)(key \<mapsto> s)\<rparr>)"

definition scrolling_state_or_default :: "monitor_key \<Rightarrow> layout_ctx \<Rightarrow> scrolling_state option" where
  "scrolling_state_or_default mon cx = map_option (\<lambda>key. or_else (cx_strips cx key) scrolling_new) (scrolling_state_key mon cx)"

definition LAYOUT_SCROLLING :: layout_enum where "LAYOUT_SCROLLING = Layout_Enum ''scrolling''"
definition LAYOUT_VSTACK :: layout_enum where "LAYOUT_VSTACK = Layout_Enum ''vstack''"

definition is_scrolling_layout :: "layout_ctx \<Rightarrow> bool" where
  "is_scrolling_layout cx = or_else (Option.bind (sel_mon (cx_state cx))
     (\<lambda>mk. map_option (\<lambda>m. mon_lt m = LAYOUT_SCROLLING) (monitor_of cx mk))) False"

definition is_vstack_layout :: "layout_ctx \<Rightarrow> bool" where
  "is_vstack_layout cx = or_else (Option.bind (sel_mon (cx_state cx))
     (\<lambda>mk. map_option (\<lambda>m. mon_lt m = LAYOUT_VSTACK) (monitor_of cx mk))) False"

definition get_scrolling_state_for_sel_mon :: "layout_ctx \<Rightarrow> (monitor_key \<times> scrolling_state) option" where
  "get_scrolling_state_for_sel_mon cx = (case sel_mon (cx_state cx) of None \<Rightarrow> None
     | Some mon \<Rightarrow> (case monitor_of cx mon of None \<Rightarrow> None
        | Some m \<Rightarrow> if mon_lt m \<noteq> LAYOUT_SCROLLING then None
            else map_option (\<lambda>s. (mon, s)) (scrolling_state_for_monitor mon cx)))"

text \<open>\<open>WMArgEnum::Int(i) if i != 0 => i\<close>.\<close>

definition arg_direction :: "wm_arg \<Rightarrow> int option" where
  "arg_direction arg = (case arg of Arg_Int i \<Rightarrow> if i \<noteq> 0 then Some i else None | _ \<Rightarrow> None)"

definition column_of :: "client_key option \<Rightarrow> scrolling_state \<Rightarrow> nat option" where
  "column_of sel s = Option.bind sel (\<lambda>k. position (\<lambda>col. k \<in> set col) (sc_columns s))"

text \<open>The \<open>find_map\<close> over the columns: column and position inside it.\<close>

fun find_in_columns :: "client_key \<Rightarrow> nat \<Rightarrow> client_key list list \<Rightarrow> (nat \<times> nat) option" where
  "find_in_columns k ci [] = None"
| "find_in_columns k ci (col # cols) = (case position (\<lambda>x. x = k) col of
     Some pos \<Rightarrow> Some (ci, pos) | None \<Rightarrow> find_in_columns k (ci + 1) cols)"

text \<open>The column next to \<open>cur\<close>, or the early return at the edge.\<close>

definition next_column :: "int \<Rightarrow> nat \<Rightarrow> nat \<Rightarrow> nat option" where
  "next_column dir n cur = (if dir > 0 then if cur + 1 \<ge> n then None else Some (cur + 1)
     else if cur = 0 then None else Some (cur - 1))"

text \<open>\<open>Vec::swap\<close>.\<close>

definition vec_swap :: "nat \<Rightarrow> nat \<Rightarrow> 'a list \<Rightarrow> 'a list" where
  "vec_swap i j xs = xs[i := xs ! j, j := xs ! i]"

section \<open>What a command does to the strip\<close>

definition strip_focus_column :: "client_key option \<Rightarrow> int \<Rightarrow> scrolling_state \<Rightarrow> scrolling_state \<times> client_key option" where
  "strip_focus_column sel dir s =
     (let s1 = (case sel of Some k \<Rightarrow> remember_focus k s | None \<Rightarrow> s);
          cur_col = or_else (column_of sel s1) 0;
          n_cols = length (sc_columns s1)
      in if n_cols = 0 then (s1, None)
         else let new_col = (if dir > 0 then min (cur_col + 1) (n_cols - 1) else cur_col - 1)
              in (s1, if new_col = cur_col then None else target_for_column new_col s1))"

definition strip_move_column :: "client_key option \<Rightarrow> int \<Rightarrow> scrolling_state \<Rightarrow> scrolling_state option" where
  "strip_move_column sel dir s = (case column_of sel s of None \<Rightarrow> None
     | Some cur_col \<Rightarrow> (case next_column dir (length (sc_columns s)) cur_col of None \<Rightarrow> None
        | Some new_col \<Rightarrow>
            let s1 = ensure_column_metadata s
            in Some (set_focused_column new_col (s1\<lparr>sc_columns := vec_swap cur_col new_col (sc_columns s1),
                 sc_width_factors := vec_swap cur_col new_col (sc_width_factors s1),
                 sc_focused_clients := vec_swap cur_col new_col (sc_focused_clients s1)\<rparr>))))"

definition adjusted_column_width :: "flt \<Rightarrow> flt \<Rightarrow> flt" where
  "adjusted_column_width current delta =
     (if flt_less (fabs delta) (rnd32 (1 / 10000)) then Fin 1
      else fclamp (add32 current delta) (rnd32 (1 / 4)) (rnd32 (5 / 2)))"

text \<open>The flag says whether the factor moved; the metadata is filled in even when it did not.\<close>

definition strip_set_column_width :: "client_key option \<Rightarrow> flt \<Rightarrow> scrolling_state \<Rightarrow> (scrolling_state \<times> bool) option" where
  "strip_set_column_width sel delta s = (case column_of sel s of None \<Rightarrow> None
     | Some cur_col \<Rightarrow>
         let s1 = ensure_column_metadata s;
             current = sc_width_factors s1 ! cur_col;
             new_factor = adjusted_column_width current delta
         in if flt_less (rnd32 (1 / 10000)) (fabs (sub32 new_factor current))
            then Some (s1\<lparr>sc_width_factors := (sc_width_factors s1)[cur_col := new_factor]\<rparr>, True)
            else Some (s1, False))"

definition strip_consume :: "client_key \<Rightarrow> int \<Rightarrow> scrolling_state \<Rightarrow> scrolling_state \<times> bool" where
  "strip_consume k dir s =
     (let s1 = remember_focus k s
      in case find_in_columns k 0 (sc_columns s1) of None \<Rightarrow> (s1, False)
         | Some (cur_col, cur_pos) \<Rightarrow> (case next_column dir (length (sc_columns s1)) cur_col of None \<Rightarrow> (s1, False)
            | Some target_col \<Rightarrow>
                let removed = (sc_columns s1)[cur_col := vec_remove cur_pos (sc_columns s1 ! cur_col)];
                    pushed = removed[target_col := removed ! target_col @ [k]]
                in (retain_non_empty_columns (remember_focus k (s1\<lparr>sc_columns := pushed\<rparr>)), True)))"

definition strip_expel :: "client_key \<Rightarrow> int \<Rightarrow> scrolling_state \<Rightarrow> scrolling_state option" where
  "strip_expel k dir s =
     (case find_in_columns k 0 (sc_columns s) of None \<Rightarrow> None
      | Some (cur_col, cur_pos) \<Rightarrow>
          if length (sc_columns s ! cur_col) \<le> 1 then None
          else let s1 = ensure_column_metadata s;
                   removed = (sc_columns s1)[cur_col := vec_remove cur_pos (sc_columns s1 ! cur_col)];
                   cur_width = or_else (vec_get (sc_width_factors s1) cur_col) (Fin 1);
                   insert_idx = (if dir > 0 then cur_col + 1 else cur_col)
               in Some (set_focused_column insert_idx (s1\<lparr>sc_columns := vec_insert insert_idx [k] removed,
                    sc_width_factors := vec_insert insert_idx cur_width (sc_width_factors s1),
                    sc_focused_clients := vec_insert insert_idx (Some k) (sc_focused_clients s1)\<rparr>)))"

definition strip_focus_window :: "client_key \<Rightarrow> int \<Rightarrow> scrolling_state \<Rightarrow> client_key option" where
  "strip_focus_window k dir s =
     (case find_in_columns k 0 (sc_columns s) of None \<Rightarrow> None
      | Some (col_idx, pos) \<Rightarrow>
          let col = sc_columns s ! col_idx; n = length col
          in if n \<le> 1 then None
             else let new_pos = (if dir > 0 then min (pos + 1) (n - 1) else pos - 1)
                  in if new_pos \<noteq> pos then Some (col ! new_pos) else None)"

section \<open>Manual sizes\<close>

text \<open>\<open>m.tag_set[m.sel_tags]\<close>: the index is 0 or 1 in every well-formed monitor.\<close>

definition layout_resize_scope :: "monitor_key \<Rightarrow> layout_ctx \<Rightarrow> (32 word \<times> string) option" where
  "layout_resize_scope mon cx = map_option (\<lambda>m. (tag_at m (sel_tags m), layout_name (mon_lt m))) (monitor_of cx mon)"

definition clear_current_layout_resize :: "layout_ctx \<Rightarrow> layout_ctx" where
  "clear_current_layout_resize cx = (case sel_mon (cx_state cx) of None \<Rightarrow> cx
     | Some mon \<Rightarrow> (case layout_resize_scope mon cx of None \<Rightarrow> cx
        | Some scope \<Rightarrow> update_monitor mon (\<lambda>m. m\<lparr>layout_resizes := (layout_resizes m)(scope := None)\<rparr>) cx))"

section \<open>Strip commands\<close>

definition scrolling_focus_column :: "wm_arg \<Rightarrow> layout_ctx \<Rightarrow> command_result" where
  "scrolling_focus_column arg cx =
     (if \<not> is_scrolling_layout cx then done_quietly cx
      else case arg_direction arg of None \<Rightarrow> done_quietly cx
      | Some dir \<Rightarrow> (case sel_mon (cx_state cx) of None \<Rightarrow> done_quietly cx
      | Some mon \<Rightarrow> (case scrolling_state_for_monitor mon cx of None \<Rightarrow> done_quietly cx
      | Some s \<Rightarrow>
          let (s1, target) = strip_focus_column (selected_on mon cx) dir s
          in case target of None \<Rightarrow> done_quietly (put_strip mon s1 cx)
             | Some t \<Rightarrow> (Inr (Focus_Client t # refresh mon), put_strip mon (remember_focus t s1) (put_strip mon s1 cx)))))"

definition scrolling_move_column :: "wm_arg \<Rightarrow> layout_ctx \<Rightarrow> command_result" where
  "scrolling_move_column arg cx =
     (if \<not> is_scrolling_layout cx then done_quietly cx
      else case arg_direction arg of None \<Rightarrow> done_quietly cx
      | Some dir \<Rightarrow> (case sel_mon (cx_state cx) of None \<Rightarrow> done_quietly cx
      | Some mon \<Rightarrow> (case scrolling_state_for_monitor mon cx of None \<Rightarrow> done_quietly cx
      | Some s \<Rightarrow> (case strip_move_column (selected_on mon cx) dir s of None \<Rightarrow> done_quietly cx
         | Some s1 \<Rightarrow> (Inr (refresh mon), put_strip mon s1 cx)))))"

definition scrolling_set_column_width :: "wm_arg \<Rightarrow> layout_ctx \<Rightarrow> command_result" where
  "scrolling_set_column_width arg cx =
     (if \<not> is_scrolling_layout cx then done_quietly cx
      else case (case arg of Arg_Float f \<Rightarrow> if is_finite f then Some f else None | _ \<Rightarrow> None) of None \<Rightarrow> done_quietly cx
      | Some delta \<Rightarrow> (case sel_mon (cx_state cx) of None \<Rightarrow> done_quietly cx
      | Some mon \<Rightarrow> (case scrolling_state_for_monitor mon cx of None \<Rightarrow> done_quietly cx
      | Some s \<Rightarrow> (case strip_set_column_width (selected_on mon cx) delta s of None \<Rightarrow> done_quietly cx
         | Some (s1, changed) \<Rightarrow>
             if changed then (Inr (refresh mon), clear_current_layout_resize (put_strip mon s1 cx))
             else done_quietly (put_strip mon s1 cx)))))"

definition scrolling_toggle_attach_mode :: "wm_arg \<Rightarrow> layout_ctx \<Rightarrow> command_result" where
  "scrolling_toggle_attach_mode arg cx =
     (case sel_mon (cx_state cx) of None \<Rightarrow> done_quietly cx
      | Some mon \<Rightarrow> (case scrolling_state_or_default mon cx of None \<Rightarrow> done_quietly cx
      | Some s \<Rightarrow>
          let s1 = (case selected_on mon cx of Some k \<Rightarrow> remember_focus k s | None \<Rightarrow> s);
              s2 = s1\<lparr>attach_to_focused := \<not> attach_to_focused s1\<rparr>
          in (Inr [Broadcast_Attach_Mode (attach_to_focused s2)], put_strip mon s2 cx)))"

definition scrolling_consume :: "wm_arg \<Rightarrow> layout_ctx \<Rightarrow> command_result" where
  "scrolling_consume arg cx =
     (if \<not> is_scrolling_layout cx then done_quietly cx
      else case arg_direction arg of None \<Rightarrow> done_quietly cx
      | Some dir \<Rightarrow> (case sel_mon (cx_state cx) of None \<Rightarrow> done_quietly cx
      | Some mon \<Rightarrow> (case selected_on mon cx of None \<Rightarrow> done_quietly cx
      | Some k \<Rightarrow> (case scrolling_state_for_monitor mon cx of None \<Rightarrow> done_quietly cx
      | Some s \<Rightarrow>
          let (s1, moved) = strip_consume k dir s
          in (Inr (if moved then refresh mon else []), put_strip mon s1 cx)))))"

definition scrolling_expel :: "wm_arg \<Rightarrow> layout_ctx \<Rightarrow> command_result" where
  "scrolling_expel arg cx =
     (if \<not> is_scrolling_layout cx then done_quietly cx
      else case arg_direction arg of None \<Rightarrow> done_quietly cx
      | Some dir \<Rightarrow> (case sel_mon (cx_state cx) of None \<Rightarrow> done_quietly cx
      | Some mon \<Rightarrow> (case selected_on mon cx of None \<Rightarrow> done_quietly cx
      | Some k \<Rightarrow> (case scrolling_state_for_monitor mon cx of None \<Rightarrow> done_quietly cx
      | Some s \<Rightarrow> (case strip_expel k dir s of None \<Rightarrow> done_quietly cx
         | Some s1 \<Rightarrow> (Inr (refresh mon), put_strip mon s1 cx))))))"

definition scrolling_focus_window :: "wm_arg \<Rightarrow> layout_ctx \<Rightarrow> command_result" where
  "scrolling_focus_window arg cx =
     (case arg_direction arg of None \<Rightarrow> done_quietly cx
      | Some dir \<Rightarrow> (case get_scrolling_state_for_sel_mon cx of None \<Rightarrow> done_quietly cx
      | Some (mon, s) \<Rightarrow> (case selected_on mon cx of None \<Rightarrow> done_quietly cx
      | Some k \<Rightarrow> (case strip_focus_window k dir s of None \<Rightarrow> done_quietly cx
         | Some t \<Rightarrow> (Inr (Focus_Client t # refresh mon), put_strip mon (remember_focus t s) cx)))))"

text \<open>
  The width a rule gives a window: the first rule \<open>factor:pattern\<close> that parses and matches.
  \<open>parse_f32\<close> is \<open>str::parse::<f32>\<close>.
\<close>

definition split_once :: "char \<Rightarrow> string \<Rightarrow> (string \<times> string) option" where
  "split_once c s = (case position (\<lambda>x. x = c) s of None \<Rightarrow> None | Some i \<Rightarrow> Some (take i s, drop (i + 1) s))"

fun str_contains :: "string \<Rightarrow> string \<Rightarrow> bool" where
  "str_contains [] pat = (pat = [])"
| "str_contains (c # s) pat = (take (length pat) (c # s) = pat \<or> str_contains s pat)"

definition width_of_rule :: "(string \<Rightarrow> flt option) \<Rightarrow> string \<Rightarrow> string \<Rightarrow> string \<Rightarrow> string \<Rightarrow> flt option" where
  "width_of_rule parse_f32 name class inst rule =
     (case split_once (CHR '':'') rule of None \<Rightarrow> None
      | Some (factor, pattern) \<Rightarrow> (case parse_f32 (trim factor) of None \<Rightarrow> None
         | Some f \<Rightarrow>
             if \<not> is_finite f then None
             else let pattern = trim pattern
                  in if pattern = [] then None
                     else if str_contains name pattern \<or> str_contains class pattern \<or> str_contains inst pattern
                     then Some (fclamp f (rnd32 (1 / 4)) (rnd32 (5 / 2))) else None))"

fun scrolling_column_width_rule_for_window :: "(string \<Rightarrow> flt option) \<Rightarrow> string \<Rightarrow> string \<Rightarrow> string \<Rightarrow> string list \<Rightarrow> flt option" where
  "scrolling_column_width_rule_for_window parse_f32 name class inst [] = None"
| "scrolling_column_width_rule_for_window parse_f32 name class inst (rule # rules) =
     (case width_of_rule parse_f32 name class inst rule of
        Some w \<Rightarrow> Some w | None \<Rightarrow> scrolling_column_width_rule_for_window parse_f32 name class inst rules)"

definition scrolling_default_column_width_for_client :: "(string \<Rightarrow> flt option) \<Rightarrow> string list \<Rightarrow> client_key \<Rightarrow> layout_ctx \<Rightarrow> flt option" where
  "scrolling_default_column_width_for_client parse_f32 rules k cx =
     Option.bind (slot_get (st_clients (cx_state cx)) k)
       (\<lambda>c. scrolling_column_width_rule_for_window parse_f32 (c_name c) (c_class c) (c_instance c) rules)"

section \<open>Tuning commands\<close>

definition MAX_N_MASTER :: nat where "MAX_N_MASTER = 32"
definition MAX_LAYOUT_GAP_PX :: int where "MAX_LAYOUT_GAP_PX = 100"

definition adjusted_n_master :: "nat \<Rightarrow> int \<Rightarrow> nat" where
  "adjusted_n_master current delta =
     min (nat (clamp (int (min current MAX_N_MASTER) + delta) 0 (2 ^ 32 - 1))) MAX_N_MASTER"

definition adjusted_gap :: "int \<Rightarrow> int \<Rightarrow> int" where
  "adjusted_gap current delta = clamp (sat32 (current + delta)) 0 MAX_LAYOUT_GAP_PX"

text \<open>Store the tuned layout values and their slot, then arm persistence and refresh.\<close>

definition tune_monitor :: "monitor_key \<Rightarrow> (monitor_layout \<Rightarrow> monitor_layout) \<Rightarrow> layout_ctx \<Rightarrow> command_result" where
  "tune_monitor mon f cx = (Inr (refresh mon), mark_layout_dirty
     (update_monitor mon (\<lambda>m. update_current_tag_layout_params (m\<lparr>mon_layout := f (mon_layout m)\<rparr>)) cx))"

definition incnmaster :: "wm_arg \<Rightarrow> layout_ctx \<Rightarrow> command_result" where
  "incnmaster arg cx = (case arg of
     Arg_Int i \<Rightarrow> (case sel_mon (cx_state cx) of None \<Rightarrow> (Inl ''No monitor selected'', cx)
       | Some mon \<Rightarrow> (case monitor_of cx mon of None \<Rightarrow> done_quietly cx
          | Some m \<Rightarrow>
              let new_n = adjusted_n_master (ml_n_master (mon_layout m)) i
              in if new_n = ml_n_master (mon_layout m) then done_quietly cx
                 else tune_monitor mon (\<lambda>l. l\<lparr>ml_n_master := new_n\<rparr>) (clear_current_layout_resize cx)))
   | _ \<Rightarrow> done_quietly cx)"

definition setnmaster :: "wm_arg \<Rightarrow> layout_ctx \<Rightarrow> command_result" where
  "setnmaster arg cx = (case arg of
     Arg_Int i \<Rightarrow> (case sel_mon (cx_state cx) of None \<Rightarrow> (Inl ''No monitor selected'', cx)
       | Some mon \<Rightarrow>
           let new_n = adjusted_n_master 0 i
           in case monitor_of cx mon of None \<Rightarrow> done_quietly cx
              | Some m \<Rightarrow>
                  if new_n = ml_n_master (mon_layout m) then done_quietly cx
                  else tune_monitor mon (\<lambda>l. l\<lparr>ml_n_master := new_n\<rparr>) (clear_current_layout_resize cx))
   | _ \<Rightarrow> done_quietly cx)"

definition setmfact :: "wm_arg \<Rightarrow> layout_ctx \<Rightarrow> command_result" where
  "setmfact arg cx =
     (if is_scrolling_layout cx then scrolling_set_column_width arg cx
      else case arg of
        Arg_Float f \<Rightarrow> (case sel_mon (cx_state cx) of None \<Rightarrow> (Inl ''No monitor selected'', cx)
          | Some mon \<Rightarrow> (case monitor_of cx mon of None \<Rightarrow> done_quietly cx
             | Some m \<Rightarrow>
                 let new_mfact = (if flt_less f (Fin 1) then add32 f (ml_m_fact (mon_layout m)) else sub32 f (Fin 1))
                 in if \<not> (flt_leq (rnd32 (5 / 100)) new_mfact \<and> flt_leq new_mfact (rnd32 (95 / 100))) \<or>
                       flt_eq new_mfact (ml_m_fact (mon_layout m)) then done_quietly cx
                    else tune_monitor mon (\<lambda>l. l\<lparr>ml_m_fact := new_mfact\<rparr>) (clear_current_layout_resize cx)))
      | _ \<Rightarrow> done_quietly cx)"

definition setgaps :: "wm_arg \<Rightarrow> layout_ctx \<Rightarrow> command_result" where
  "setgaps arg cx = (case arg of
     Arg_Int delta \<Rightarrow> (case sel_mon (cx_state cx) of None \<Rightarrow> (Inl ''No monitor selected'', cx)
       | Some mon \<Rightarrow> (case monitor_of cx mon of None \<Rightarrow> done_quietly cx
          | Some m \<Rightarrow>
              let new_gap = adjusted_gap (ml_gap (mon_layout m)) delta
              in if new_gap = ml_gap (mon_layout m) then done_quietly cx
                 else tune_monitor mon (\<lambda>l. l\<lparr>ml_gap := new_gap\<rparr>) cx))
   | _ \<Rightarrow> done_quietly cx)"

section \<open>The layout of a tag\<close>

definition promote_focused_to_master :: "monitor_key \<Rightarrow> layout_ctx \<Rightarrow> layout_ctx" where
  "promote_focused_to_master mon cx = (case selected_on mon cx of None \<Rightarrow> cx
     | Some k \<Rightarrow> cx\<lparr>cx_state := move_to_front k (cx_state cx)\<rparr>)"

definition current_selected_layout :: "monitor_key \<Rightarrow> layout_ctx \<Rightarrow> string + layout_enum" where
  "current_selected_layout mon cx = (case monitor_of cx mon of None \<Rightarrow> Inl ''No monitor'' | Some m \<Rightarrow> Inr (mon_lt m))"

definition pertag_current_tag :: "monitor_key \<Rightarrow> layout_ctx \<Rightarrow> string + nat" where
  "pertag_current_tag mon cx = (case Option.bind (monitor_of cx mon) mon_pertag of
     None \<Rightarrow> Inl ''No pertag'' | Some p \<Rightarrow> Inr (cur_tag p))"

text \<open>The change of one monitor, and its lookup.\<close>

definition monitor_new_layout :: "layout_enum \<Rightarrow> nat \<Rightarrow> wm_monitor \<Rightarrow> wm_monitor" where
  "monitor_new_layout layout cur m =
     (if mon_lt m = layout then m
      else m\<lparr>mon_prev_lt := mon_lt m, mon_lt := layout,
             mon_pertag := map_option (\<lambda>p. if cur < length (lts p)
               then p\<lparr>prev_lts := (prev_lts p)[cur := lts p ! cur], lts := (lts p)[cur := layout]\<rparr> else p) (mon_pertag m)\<rparr>)"

definition set_new_layout :: "monitor_key \<Rightarrow> layout_enum \<Rightarrow> nat \<Rightarrow> layout_ctx \<Rightarrow> layout_ctx" where
  "set_new_layout mon layout cur cx = update_monitor mon (monitor_new_layout layout cur) cx"

definition finalize_layout_update :: "monitor_key \<Rightarrow> layout_ctx \<Rightarrow> (bool \<times> int option) \<times> layout_ctx" where
  "finalize_layout_update mon cx = (case monitor_of cx mon of
     None \<Rightarrow> ((False, None), cx)
   | Some m \<Rightarrow> ((mon_sel m \<noteq> None, Some (mon_num m)),
       update_monitor mon (\<lambda>m. m\<lparr>mon_lt_symbol := layout_symbol (mon_lt m)\<rparr>) cx))"


section \<open>Strips keep their windows\<close>

lemma find_in_columns_Some:
  "find_in_columns k ci cols = Some (c, p) \<Longrightarrow>
     ci \<le> c \<and> c - ci < length cols \<and> p < length (cols ! (c - ci)) \<and> cols ! (c - ci) ! p = k \<and>
     position (\<lambda>x. x = k) (cols ! (c - ci)) = Some p \<and> position (\<lambda>col. k \<in> set col) cols = Some (c - ci)"
proof (induction cols arbitrary: ci)
  case (Cons col cols)
  show ?case
  proof (cases "position (\<lambda>x. x = k) col")
    case None
    then have "k \<notin> set col" by (auto simp: position_None_iff)
    with None Cons.prems Cons.IH [of "ci + 1"] show ?thesis by (auto simp: Suc_diff_le Suc_le_eq nth_Cons')
  next
    case (Some p')
    with Cons.prems position_SomeD [OF Some] show ?thesis by auto
  qed
qed simp

lemmas find_in_columns_0 = find_in_columns_Some [where ci = 0, simplified]

lemma column_of_Some: "column_of sel s = Some i \<Longrightarrow> i < length (sc_columns s)"
  by (auto simp: column_of_def dest: position_SomeD split: bind_splits)

lemma next_column_Some: "next_column dir n cur = Some j \<Longrightarrow> cur < n \<Longrightarrow> j < n \<and> j \<noteq> cur"
  by (auto simp: next_column_def split: if_splits)

lemma mset_concat_sum: "mset (concat xss) = sum_mset (image_mset mset (mset xss))"
  by (induction xss) simp_all

lemma mset_concat_replace:
  "i < length xss \<Longrightarrow> mset (concat (xss[i := ys])) + mset (xss ! i) = mset (concat xss) + mset ys"
proof (induction xss arbitrary: i)
  case (Cons xs xss)
  then show ?case by (cases i) (auto simp: ac_simps)
qed simp

lemma length_vec_swap [vec_simps]: "length (vec_swap i j xs) = length xs"
  by (simp add: vec_swap_def)

lemma mset_vec_swap: "i < length xs \<Longrightarrow> j < length xs \<Longrightarrow> mset (vec_swap i j xs) = mset xs"
  using mset_swap [of j xs i] by (simp add: vec_swap_def)

lemma vec_swap_back: "i < length xs \<Longrightarrow> j < length xs \<Longrightarrow> vec_swap j i (vec_swap i j xs) = xs"
  by (rule nth_equalityI) (auto simp: vec_swap_def nth_list_update)

lemma mset_vec_remove: "p < length xs \<Longrightarrow> add_mset (xs ! p) (mset (vec_remove p xs)) = mset xs"
  by (simp add: vec_remove_def) (metis (no_types, lifting) Cons_nth_drop_Suc append_take_drop_id mset.simps(2) mset_append union_mset_add_mset_right)

lemma mset_concat_vec_insert: "mset (concat (vec_insert i xs xss)) = mset xs + mset (concat xss)"
  by (simp add: vec_insert_def) (metis append_take_drop_id concat_append mset_append union_assoc union_commute)

lemma taken_out:
  "find_in_columns k 0 cols = Some (c, p) \<Longrightarrow> add_mset k (mset (concat (cols[c := vec_remove p (cols ! c)]))) = mset (concat cols)"
  using mset_concat_replace [of c cols "vec_remove p (cols ! c)"] find_in_columns_0 [of k cols c p] mset_vec_remove [of p "cols ! c"]
  by (metis add_left_cancel union_commute union_mset_add_mset_right)

text \<open>The strip after a command: still well formed, with the same windows.\<close>

definition keeps_strip :: "scrolling_state \<Rightarrow> scrolling_state \<Rightarrow> bool" where
  "keeps_strip s t \<longleftrightarrow> wf_scrolling t \<and> mset (concat (sc_columns t)) = mset (concat (sc_columns s))"

lemma keeps_stripI:
  assumes "wf_scrolling s" "mset (concat (sc_columns t)) = mset (concat (sc_columns s))"
    "length (sc_width_factors t) = length (sc_columns t)" "length (sc_focused_clients t) = length (sc_columns t)"
    "\<And>i. sc_focused_column t = Some i \<Longrightarrow> i < length (sc_columns t)"
  shows "keeps_strip s t"
  using assms mset_eq_imp_distinct_iff [OF assms(2)] by (auto simp: keeps_strip_def wf_scrolling_def)

lemma keeps_strip_trans: "keeps_strip s t \<Longrightarrow> keeps_strip t u \<Longrightarrow> keeps_strip s u"
  by (simp add: keeps_strip_def)

lemma keeps_strip_refl: "wf_scrolling s \<Longrightarrow> keeps_strip s s"
  by (simp add: keeps_strip_def)

lemma remember_focus_frame:
  "sc_columns (remember_focus k s) = sc_columns s" "attach_to_focused (remember_focus k s) = attach_to_focused s"
  "sc_width_factors (remember_focus k s) = sc_width_factors (ensure_column_metadata s)"
  by (auto simp: remember_focus_def Let_def ensure_metadata_simps split: option.splits)

lemma keeps_remember_focus: "wf_scrolling s \<Longrightarrow> keeps_strip s (remember_focus k s)"
  by (simp add: keeps_strip_def remember_focus_wf remember_focus_frame)

lemma concat_nonempty: "concat (filter (\<lambda>c. c \<noteq> []) xss) = concat xss"
  by (induction xss) auto

lemma kept_focus_index_less: "kept_focus_index old cols = Some i \<Longrightarrow> i < length (filter (\<lambda>c. c \<noteq> []) cols)"
proof -
  assume "kept_focus_index old cols = Some i"
  then obtain j where j: "j < length cols" "cols ! j \<noteq> []" "i = length (filter (\<lambda>c. c \<noteq> []) (take j cols))"
    by (auto simp: kept_focus_index_def split: option.splits if_splits)
  have "filter (\<lambda>c. c \<noteq> []) cols = filter (\<lambda>c. c \<noteq> []) (take j cols) @ filter (\<lambda>c. c \<noteq> []) (drop j cols)"
    by (simp flip: filter_append)
  moreover have "filter (\<lambda>c. c \<noteq> []) (drop j cols) \<noteq> []" using j(1,2) by (simp flip: Cons_nth_drop_Suc)
  ultimately show ?thesis using j(3) by simp
qed

lemma length_kept_widths: "length ws = length cols \<Longrightarrow> length (kept_widths cols ws) = length (filter (\<lambda>c. c \<noteq> []) cols)"
  by (induction ws cols rule: list_induct2) (auto simp: kept_widths_def)

lemma keeps_retain: "wf_scrolling s \<Longrightarrow> keeps_strip s (retain_non_empty_columns s)"
proof (rule keeps_stripI)
  assume w: "wf_scrolling s"
  note r = retain_columns_filter [OF refl refl, of s, unfolded ensure_metadata_id [OF w]]
  have l: "length (sc_width_factors s) = length (sc_columns s)" "length (sc_focused_clients s) = length (sc_columns s)"
    using w by (simp_all add: wf_scrolling_def)
  show "mset (concat (sc_columns (retain_non_empty_columns s))) = mset (concat (sc_columns s))" using r by (simp add: concat_nonempty)
  show "length (sc_width_factors (retain_non_empty_columns s)) = length (sc_columns (retain_non_empty_columns s))"
    using r l by (simp add: length_kept_widths)
  show "length (sc_focused_clients (retain_non_empty_columns s)) = length (sc_columns (retain_non_empty_columns s))"
    using r l kept_focuses_some [OF l(2)] by simp
  show "i < length (sc_columns (retain_non_empty_columns s))" if "sc_focused_column (retain_non_empty_columns s) = Some i" for i
    using that r kept_focus_index_less by (fastforce split: option.splits if_splits)
qed

lemma strip_focus_column_keeps:
  "wf_scrolling s \<Longrightarrow> strip_focus_column sel dir s = (s1, t) \<Longrightarrow> keeps_strip s s1 \<and> sc_columns s1 = sc_columns s \<and>
     sc_width_factors s1 = sc_width_factors s \<and> attach_to_focused s1 = attach_to_focused s"
  by (auto simp: strip_focus_column_def Let_def keeps_remember_focus keeps_strip_refl remember_focus_frame ensure_metadata_id split: option.splits if_splits)

lemma strip_move_column_keeps:
  assumes "wf_scrolling s" "strip_move_column sel dir s = Some s1"
  shows "keeps_strip s s1"
proof -
  obtain i j where c: "column_of sel s = Some i" "next_column dir (length (sc_columns s)) i = Some j"
    using assms(2) by (auto simp: strip_move_column_def split: option.splits)
  have l: "i < length (sc_columns s)" "j < length (sc_columns s)"
    using column_of_Some [OF c(1)] next_column_Some [OF c(2)] by auto
  have m: "mset (concat (vec_swap i j (sc_columns s))) = mset (concat (sc_columns s))"
    using l by (simp add: mset_concat_sum mset_vec_swap)
  show ?thesis using assms c l m
    by (intro keeps_stripI)
      (auto simp: strip_move_column_def ensure_metadata_id set_focused_column_def Let_def vec_simps, simp_all add: wf_scrolling_def)
qed

lemma strip_set_column_width_keeps:
  "wf_scrolling s \<Longrightarrow> strip_set_column_width sel delta s = Some (s1, changed) \<Longrightarrow> keeps_strip s s1 \<and>
     (\<not> changed \<longrightarrow> s1 = s)"
  by (auto simp: strip_set_column_width_def ensure_metadata_id Let_def keeps_strip_refl keeps_strip_def wf_scrolling_def
      split: option.splits if_splits)

lemma strip_consume_keeps:
  assumes "wf_scrolling s" "strip_consume k dir s = (s1, moved)"
  shows "keeps_strip s s1 \<and> (\<not> moved \<longrightarrow> s1 = remember_focus k s)"
proof (cases "find_in_columns k 0 (sc_columns s)")
  case None
  then show ?thesis using assms by (auto simp: strip_consume_def remember_focus_frame keeps_remember_focus Let_def)
next
  case (Some cp)
  obtain c p where f: "find_in_columns k 0 (sc_columns s) = Some (c, p)" using Some by (cases cp) auto
  show ?thesis
  proof (cases "next_column dir (length (sc_columns s)) c")
    case None
    then show ?thesis using assms f by (auto simp: strip_consume_def remember_focus_frame keeps_remember_focus Let_def)
  next
    case (Some t)
    note c = find_in_columns_0 [OF f]
    have t: "t < length (sc_columns s)" "t \<noteq> c" using next_column_Some [OF Some] c by auto
    let ?r = "(sc_columns s)[c := vec_remove p (sc_columns s ! c)]" and ?s = "remember_focus k s"
    let ?p = "?r[t := ?r ! t @ [k]]"
    have w: "wf_scrolling ?s" using assms(1) by (rule remember_focus_wf)
    have "add_mset k (mset (concat ?r)) = mset (concat (sc_columns s))" using f by (rule taken_out)
    then have m: "mset (concat ?p) = mset (concat (sc_columns s))"
      using mset_concat_update [of t ?r k] t by simp
    have k: "keeps_strip ?s (?s\<lparr>sc_columns := ?p\<rparr>)"
      using w m by (intro keeps_stripI) (auto simp: remember_focus_frame wf_scrolling_def)
    have e: "s1 = retain_non_empty_columns (remember_focus k (?s\<lparr>sc_columns := ?p\<rparr>))" "moved"
      using assms(2) f Some by (auto simp: strip_consume_def remember_focus_frame Let_def)
    show ?thesis unfolding e(1) using k e(2)
      by (meson keeps_remember_focus keeps_retain keeps_strip_def keeps_strip_trans assms(1))
  qed
qed

lemma strip_expel_keeps:
  assumes "wf_scrolling s" "strip_expel k dir s = Some s1"
  shows "keeps_strip s s1"
proof -
  obtain c p where f: "find_in_columns k 0 (sc_columns s) = Some (c, p)" using assms(2) by (auto simp: strip_expel_def split: option.splits)
  note c = find_in_columns_0 [OF f]
  let ?r = "(sc_columns s)[c := vec_remove p (sc_columns s ! c)]"
  have "add_mset k (mset (concat ?r)) = mset (concat (sc_columns s))" using f by (rule taken_out)
  then have m: "mset (concat (vec_insert i [k] ?r)) = mset (concat (sc_columns s))" for i
    by (simp add: mset_concat_vec_insert)
  show ?thesis using assms f m c
    by (intro keeps_stripI)
      (auto simp: strip_expel_def ensure_metadata_id set_focused_column_def Let_def vec_simps wf_scrolling_def split: if_splits)
qed

section \<open>Commands keep the context\<close>

datatype layout_cmd = Focus_Column | Move_Column | Set_Column_Width | Toggle_Attach_Mode | Consume | Expel | Focus_Window
  | Inc_N_Master | Set_N_Master | Set_M_Fact | Set_Gaps

primrec run_command :: "layout_cmd \<Rightarrow> wm_arg \<Rightarrow> layout_ctx \<Rightarrow> command_result" where
  "run_command Focus_Column = scrolling_focus_column"
| "run_command Move_Column = scrolling_move_column"
| "run_command Set_Column_Width = scrolling_set_column_width"
| "run_command Toggle_Attach_Mode = scrolling_toggle_attach_mode"
| "run_command Consume = scrolling_consume"
| "run_command Expel = scrolling_expel"
| "run_command Focus_Window = scrolling_focus_window"
| "run_command Inc_N_Master = incnmaster"
| "run_command Set_N_Master = setnmaster"
| "run_command Set_M_Fact = setmfact"
| "run_command Set_Gaps = setgaps"

definition in_bounds :: "monitor_layout \<Rightarrow> bool" where
  "in_bounds l \<longleftrightarrow> ml_n_master l \<le> MAX_N_MASTER \<and> 0 \<le> ml_gap l \<and> ml_gap l \<le> MAX_LAYOUT_GAP_PX \<and>
     flt_leq (rnd32 (5 / 100)) (ml_m_fact l) \<and> flt_leq (ml_m_fact l) (rnd32 (95 / 100))"

definition ctx_ok :: "layout_ctx \<Rightarrow> bool" where
  "ctx_ok cx \<longleftrightarrow> (\<forall>key s. cx_strips cx key = Some s \<longrightarrow> wf_scrolling s) \<and>
     (\<forall>mon m. monitor_of cx mon = Some m \<longrightarrow> wf_monitor m \<and> in_bounds (mon_layout m))"

definition strip_at :: "layout_ctx \<Rightarrow> monitor_key \<times> 32 word \<Rightarrow> scrolling_state" where
  "strip_at cx key = or_else (cx_strips cx key) scrolling_new"

definition keeps_ctx :: "layout_ctx \<Rightarrow> layout_ctx \<Rightarrow> bool" where
  "keeps_ctx cx cx' \<longleftrightarrow> ctx_ok cx' \<and> (\<forall>key. keeps_strip (strip_at cx key) (strip_at cx' key))"

lemma strip_at_wf: "ctx_ok cx \<Longrightarrow> wf_scrolling (strip_at cx key)"
  by (cases "cx_strips cx key") (auto simp: ctx_ok_def strip_at_def or_else_def scrolling_new_wf simp del: split_paired_All)

lemma keeps_ctx_refl: "ctx_ok cx \<Longrightarrow> keeps_ctx cx cx"
  by (simp add: keeps_ctx_def keeps_strip_refl strip_at_wf)

lemma keeps_ctx_trans: "keeps_ctx a b \<Longrightarrow> keeps_ctx b c \<Longrightarrow> keeps_ctx a c"
  unfolding keeps_ctx_def by (meson keeps_strip_trans)

lemma put_strip_simps [simp]:
  "cx_state (put_strip mon s cx) = cx_state cx" "layout_persist_dirty (put_strip mon s cx) = layout_persist_dirty cx"
  by (auto simp: put_strip_def split: option.splits)

lemma strip_of_monitor_default:
  "scrolling_state_for_monitor mon cx = Some s \<Longrightarrow> scrolling_state_or_default mon cx = Some s"
  by (auto simp: scrolling_state_for_monitor_def scrolling_state_or_default_def or_else_def split: bind_splits)

lemma put_strip_keeps:
  assumes "ctx_ok cx" "scrolling_state_or_default mon cx = Some s" "keeps_strip s t"
  shows "keeps_ctx cx (put_strip mon t cx)"
  using assms
  by (auto simp: keeps_ctx_def ctx_ok_def strip_at_def put_strip_def scrolling_state_or_default_def or_else_def
      keeps_strip_refl keeps_strip_def scrolling_new_wf split: option.splits)

lemma strip_default_wf: "ctx_ok cx \<Longrightarrow> scrolling_state_or_default mon cx = Some s \<Longrightarrow> wf_scrolling s"
  by (auto simp: scrolling_state_or_default_def ctx_ok_def or_else_def scrolling_new_wf split: option.splits)

lemma strip_default_put: "scrolling_state_or_default mon (put_strip mon t cx) = (if scrolling_state_or_default mon cx = None then None else Some t)"
  by (auto simp: put_strip_def scrolling_state_or_default_def scrolling_state_key_def or_else_def)

lemma update_monitor_keeps:
  assumes "ctx_ok cx" "\<And>m. monitor_of cx mon = Some m \<Longrightarrow> wf_monitor (f m) \<and> in_bounds (mon_layout (f m))"
  shows "keeps_ctx cx (update_monitor mon f cx)"
  using assms strip_at_wf [OF assms(1)]
  by (auto simp: keeps_ctx_def ctx_ok_def update_monitor_def strip_at_def keeps_strip_refl slot_simps)

lemma clear_resize_keeps: "ctx_ok cx \<Longrightarrow> keeps_ctx cx (clear_current_layout_resize cx)"
  by (auto simp: clear_current_layout_resize_def keeps_ctx_refl intro!: update_monitor_keeps split: option.splits)
    (auto simp: ctx_ok_def wf_monitor_def mirrors_slot_def split: option.splits)

lemma mark_dirty_keeps: "ctx_ok cx \<Longrightarrow> keeps_ctx cx (mark_layout_dirty cx)"
  by (auto simp: mark_layout_dirty_def keeps_ctx_refl keeps_ctx_def ctx_ok_def strip_at_def intro!: keeps_strip_refl)
    (auto simp: or_else_def scrolling_new_wf split: option.splits)

lemma tuned_monitor_wf: "wf_monitor m \<Longrightarrow> wf_monitor (update_current_tag_layout_params (m\<lparr>mon_layout := l\<rparr>)) \<and>
    mon_layout (update_current_tag_layout_params (m\<lparr>mon_layout := l\<rparr>)) = l"
  by (cases "mon_pertag m")
    (simp_all add: wf_monitor_def update_current_tag_layout_params_def wf_pertag_def mirrors_slot_def Let_def clamp_tag_id)

lemma clear_resize_monitor:
  "monitor_of (clear_current_layout_resize cx) mon = Some m \<Longrightarrow> \<exists>m0. monitor_of cx mon = Some m0 \<and> mon_layout m = mon_layout m0"
  by (auto simp: clear_current_layout_resize_def update_monitor_def slot_simps split: option.splits if_splits)

lemma tune_keeps:
  assumes "ctx_ok cx" "\<And>m. monitor_of cx mon = Some m \<Longrightarrow> in_bounds (f (mon_layout m))"
  shows "keeps_ctx cx (snd (tune_monitor mon f cx))"
proof -
  let ?u = "update_monitor mon (\<lambda>m. update_current_tag_layout_params (m\<lparr>mon_layout := f (mon_layout m)\<rparr>)) cx"
  have "keeps_ctx cx ?u"
    using assms by (intro update_monitor_keeps) (auto simp: tuned_monitor_wf ctx_ok_def)
  moreover from this have "keeps_ctx ?u (mark_layout_dirty ?u)" by (intro mark_dirty_keeps) (simp add: keeps_ctx_def)
  ultimately show ?thesis unfolding tune_monitor_def snd_conv by (rule keeps_ctx_trans)
qed

lemma tune_cleared_keeps:
  assumes "ctx_ok cx" "\<And>m. monitor_of cx mon = Some m \<Longrightarrow> in_bounds (f (mon_layout m))"
  shows "keeps_ctx cx (snd (tune_monitor mon f (clear_current_layout_resize cx)))"
proof -
  have c: "keeps_ctx cx (clear_current_layout_resize cx)" using assms(1) by (rule clear_resize_keeps)
  have "keeps_ctx (clear_current_layout_resize cx) (snd (tune_monitor mon f (clear_current_layout_resize cx)))"
    by (rule tune_keeps) (use c assms(2) clear_resize_monitor in \<open>force simp: keeps_ctx_def\<close>)+
  with c show ?thesis by (rule keeps_ctx_trans)
qed

lemma adjusted_n_master_le: "adjusted_n_master n i \<le> MAX_N_MASTER"
  by (simp add: adjusted_n_master_def)

lemma adjusted_gap_bounds: "0 \<le> adjusted_gap g d \<and> adjusted_gap g d \<le> MAX_LAYOUT_GAP_PX"
  using clamp_bounds [of 0 MAX_LAYOUT_GAP_PX] by (simp add: adjusted_gap_def MAX_LAYOUT_GAP_PX_def)

lemma inc_set_n_master_keeps:
  assumes "ctx_ok cx"
  shows "keeps_ctx cx (snd (incnmaster arg cx))" "keeps_ctx cx (snd (setnmaster arg cx))"
  using assms unfolding incnmaster_def setnmaster_def
  by (auto simp: keeps_ctx_refl Let_def in_bounds_def adjusted_n_master_le intro!: tune_cleared_keeps
      split: wm_arg.splits option.splits) (auto simp: ctx_ok_def in_bounds_def)

lemma setgaps_keeps: "ctx_ok cx \<Longrightarrow> keeps_ctx cx (snd (setgaps arg cx))"
  unfolding setgaps_def
  by (auto simp: keeps_ctx_refl Let_def in_bounds_def adjusted_gap_bounds intro!: tune_keeps split: wm_arg.splits option.splits)
    (auto simp: ctx_ok_def in_bounds_def)

lemma set_column_width_keeps: "ctx_ok cx \<Longrightarrow> keeps_ctx cx (snd (scrolling_set_column_width arg cx))"
proof -
  assume ok: "ctx_ok cx"
  have *: "keeps_ctx cx (put_strip mon t cx) \<and> keeps_ctx cx (clear_current_layout_resize (put_strip mon t cx))"
    if "scrolling_state_for_monitor mon cx = Some s" "strip_set_column_width sel d s = Some (t, b)" for mon s t sel d b
  proof -
    note d = strip_of_monitor_default [OF that(1)]
    have "keeps_ctx cx (put_strip mon t cx)"
      by (rule put_strip_keeps [OF ok d]) (use strip_set_column_width_keeps [OF strip_default_wf [OF ok d] that(2)] in blast)
    then show ?thesis using clear_resize_keeps keeps_ctx_trans keeps_ctx_def by blast
  qed
  show ?thesis unfolding scrolling_set_column_width_def
    by (auto simp: ok keeps_ctx_refl * split: wm_arg.splits option.splits)
qed

lemma setmfact_keeps: "ctx_ok cx \<Longrightarrow> keeps_ctx cx (snd (setmfact arg cx))"
  unfolding setmfact_def
  by (auto simp: keeps_ctx_refl Let_def in_bounds_def set_column_width_keeps intro!: tune_cleared_keeps split: wm_arg.splits option.splits)
    (auto simp: ctx_ok_def in_bounds_def)

text \<open>The strip commands share a shape: they write one strip that keeps its windows.\<close>

lemma put_current_keeps:
  assumes "ctx_ok cx" "scrolling_state_for_monitor mon cx = Some s" "wf_scrolling s \<Longrightarrow> keeps_strip s t"
  shows "keeps_ctx cx (put_strip mon t cx)"
  using put_strip_keeps [OF assms(1) strip_of_monitor_default [OF assms(2)] assms(3)]
    strip_default_wf [OF assms(1) strip_of_monitor_default [OF assms(2)]] by blast

lemma focus_column_keeps: "ctx_ok cx \<Longrightarrow> keeps_ctx cx (snd (scrolling_focus_column arg cx))"
proof -
  assume ok: "ctx_ok cx"
  have *: "keeps_ctx cx (put_strip mon t cx) \<and> keeps_ctx cx (put_strip mon (remember_focus k t) (put_strip mon t cx))"
    if "scrolling_state_for_monitor mon cx = Some s" "strip_focus_column sel d s = (t, b)" for mon s t sel d b k
  proof -
    have k: "wf_scrolling s \<Longrightarrow> keeps_strip s t" using strip_focus_column_keeps that(2) by blast
    have p: "put_strip mon (remember_focus k t) (put_strip mon t cx) = put_strip mon (remember_focus k t) cx"
      by (auto simp: put_strip_def scrolling_state_key_def split: option.splits)
    have "wf_scrolling s \<Longrightarrow> keeps_strip s (remember_focus k t)"
      using k keeps_remember_focus keeps_strip_def keeps_strip_trans by blast
    then show ?thesis unfolding p using put_current_keeps [OF ok that(1)] k by blast
  qed
  show ?thesis unfolding scrolling_focus_column_def by (auto simp: ok keeps_ctx_refl * split: prod.splits option.splits)
qed

lemma move_column_keeps: "ctx_ok cx \<Longrightarrow> keeps_ctx cx (snd (scrolling_move_column arg cx))"
  unfolding scrolling_move_column_def
  by (auto simp: keeps_ctx_refl intro!: put_current_keeps strip_move_column_keeps split: option.splits)

lemma consume_keeps: "ctx_ok cx \<Longrightarrow> keeps_ctx cx (snd (scrolling_consume arg cx))"
  unfolding scrolling_consume_def
  by (auto simp: keeps_ctx_refl intro!: put_current_keeps strip_consume_keeps [THEN conjunct1] split: option.splits prod.splits)

lemma expel_keeps: "ctx_ok cx \<Longrightarrow> keeps_ctx cx (snd (scrolling_expel arg cx))"
  unfolding scrolling_expel_def
  by (auto simp: keeps_ctx_refl intro!: put_current_keeps strip_expel_keeps split: option.splits)

lemma focus_window_keeps: "ctx_ok cx \<Longrightarrow> keeps_ctx cx (snd (scrolling_focus_window arg cx))"
  unfolding scrolling_focus_window_def get_scrolling_state_for_sel_mon_def
  by (auto simp: keeps_ctx_refl intro!: put_current_keeps keeps_remember_focus split: option.splits)

lemma toggle_attach_keeps: "ctx_ok cx \<Longrightarrow> keeps_ctx cx (snd (scrolling_toggle_attach_mode arg cx))"
proof -
  assume ok: "ctx_ok cx"
  have *: "keeps_strip s (t\<lparr>attach_to_focused := b\<rparr>)" if "keeps_strip s t" for s t b
    using that by (simp add: keeps_strip_def wf_scrolling_def)
  then have "keeps_strip s (s\<lparr>attach_to_focused := b\<rparr>)" "keeps_strip s ((remember_focus k s)\<lparr>attach_to_focused := b\<rparr>)"
    if "scrolling_state_or_default mon cx = Some s" for s mon k b
    using strip_default_wf [OF ok that] by (auto simp: keeps_strip_refl keeps_remember_focus)
  with ok show ?thesis unfolding scrolling_toggle_attach_mode_def
    by (auto simp: keeps_ctx_refl Let_def intro!: put_strip_keeps split: option.splits)
qed

lemma run_command_keeps: "ctx_ok cx \<Longrightarrow> keeps_ctx cx (snd (run_command c arg cx))"
  by (cases c) (simp_all add: focus_column_keeps move_column_keeps set_column_width_keeps toggle_attach_keeps consume_keeps
      expel_keeps focus_window_keeps inc_set_n_master_keeps setmfact_keeps setgaps_keeps)

lemma new_layout_wf:
  assumes "wf_monitor m" "mon_pertag m = Some p"
  shows "wf_monitor (monitor_new_layout l (cur_tag p) m) \<and> mon_layout (monitor_new_layout l (cur_tag p) m) = mon_layout m"
  using assms by (auto simp: monitor_new_layout_def wf_monitor_def wf_pertag_def mirrors_slot_def Let_def)

lemma set_new_layout_keeps:
  assumes "ctx_ok cx" "pertag_current_tag mon cx = Inr cur"
  shows "keeps_ctx cx (set_new_layout mon l cur cx)"
  unfolding set_new_layout_def using assms
  by (intro update_monitor_keeps) (auto simp: pertag_current_tag_def ctx_ok_def new_layout_wf split: bind_splits option.splits)

text \<open>
  A session: layout commands, the layout changes of a tag, and the changes of selection and monitor
  that focusing brings, in any order.
\<close>

inductive layout_step :: "layout_ctx \<Rightarrow> layout_ctx \<Rightarrow> bool" where
  step_command: "run_command c arg cx = (r, cx') \<Longrightarrow> layout_step cx cx'"
| step_layout: "pertag_current_tag mon cx = Inr cur \<Longrightarrow> layout_step cx (set_new_layout mon l cur cx)"
| step_finalize: "finalize_layout_update mon cx = (r, cx') \<Longrightarrow> layout_step cx cx'"
| step_select: "layout_step cx (update_monitor mon (set_selected_client_for_current_tag k) cx)"
| step_monitor: "layout_step cx (cx\<lparr>cx_state := (cx_state cx)\<lparr>sel_mon := mon\<rparr>\<rparr>)"

lemma select_keeps: "ctx_ok cx \<Longrightarrow> keeps_ctx cx (update_monitor mon (set_selected_client_for_current_tag k) cx)"
proof (rule update_monitor_keeps)
  fix m assume "ctx_ok cx" "monitor_of cx mon = Some m"
  then have "wf_monitor m" "in_bounds (mon_layout m)" by (simp_all add: ctx_ok_def)
  moreover have "mon_layout (set_selected_client_for_current_tag k m) = mon_layout m"
    by (simp add: set_selected_client_for_current_tag_def Let_def split: option.splits)
  ultimately show "wf_monitor (set_selected_client_for_current_tag k m) \<and> in_bounds (mon_layout (set_selected_client_for_current_tag k m))"
    by (simp add: set_selected_current_wf)
qed

lemma finalize_keeps: "ctx_ok cx \<Longrightarrow> finalize_layout_update mon cx = (r, cx') \<Longrightarrow> keeps_ctx cx cx'"
  by (auto simp: finalize_layout_update_def keeps_ctx_refl intro!: update_monitor_keeps split: option.splits)
    (auto simp: ctx_ok_def wf_monitor_def mirrors_slot_def split: option.splits)

lemma other_monitor_keeps: "ctx_ok cx \<Longrightarrow> keeps_ctx cx (cx\<lparr>cx_state := (cx_state cx)\<lparr>sel_mon := mon\<rparr>\<rparr>)"
  using strip_at_wf [of cx] by (auto simp: keeps_ctx_def ctx_ok_def strip_at_def intro!: keeps_strip_refl)

lemma layout_step_keeps: "layout_step cx cx' \<Longrightarrow> ctx_ok cx \<Longrightarrow> keeps_ctx cx cx'"
proof (induction rule: layout_step.induct)
  case (step_command c arg cx r cx')
  then show ?case using run_command_keeps [of cx c arg] by simp
qed (simp_all add: set_new_layout_keeps finalize_keeps select_keeps other_monitor_keeps)

text \<open>
  C24. However layout commands, layout changes and changes of focus follow each other, every strip
  stays well formed and keeps exactly its windows, every monitor keeps its live layout values in
  step with the slot of its current tag, and every master count, gap and master factor stays in
  its range.
\<close>

theorem layout_session_keeps_windows:
  assumes "layout_step\<^sup>*\<^sup>* cx cx'" "ctx_ok cx"
  shows "ctx_ok cx' \<and> (\<forall>key. mset (concat (sc_columns (strip_at cx' key))) = mset (concat (sc_columns (strip_at cx key))))"
proof -
  have "keeps_ctx cx cx'" using assms
  proof (induction rule: rtranclp_induct)
    case base
    then show ?case by (rule keeps_ctx_refl)
  next
    case (step y z)
    then show ?case using layout_step_keeps keeps_ctx_trans keeps_ctx_def by blast
  qed
  then show ?thesis by (simp add: keeps_ctx_def keeps_strip_def)
qed

definition tuned_monitor :: wm_monitor where
  "tuned_monitor = wm_monitor_new\<lparr>tag_set := (1, 1), mon_lt := LAYOUT_SCROLLING, mon_sel := Some 3\<rparr>"

definition sample_strip :: scrolling_state where
  "sample_strip = \<lparr>sc_columns = [[1], [2, 3]], sc_width_factors = [Fin 1, Fin 1], sc_focused_clients = [Some 1, Some 3],
     sc_focused_column = Some 1, attach_to_focused = False, sc_viewport_x = Fin 0\<rparr>"

definition sample_ctx :: layout_ctx where
  "sample_ctx = \<lparr>cx_state = wm_state_new\<lparr>st_monitors := [(7, tuned_monitor)], sel_mon := Some 7\<rparr>,
     cx_strips = [(7, 1) \<mapsto> sample_strip], layout_persist_dirty = None, cx_persist_tags = True, cx_now = 5\<rparr>"

lemma sample_ctx_ok: "ctx_ok sample_ctx"
proof -
  have "in_bounds (mon_layout tuned_monitor)" by code_simp
  moreover have "wf_monitor tuned_monitor" by (simp add: tuned_monitor_def wf_monitor_def wm_monitor_new_def)
  moreover have "wf_scrolling sample_strip" by (simp add: sample_strip_def wf_scrolling_def)
  ultimately show ?thesis by (auto simp: sample_ctx_def ctx_ok_def slot_get_def split: if_splits)
qed

theorem layout_session_keeps_windows_witness:
  "ctx_ok (snd (run_command Expel (Arg_Int 1) (snd (run_command Consume (Arg_Int (- 1)) sample_ctx))))"
proof -
  have "layout_step cx (snd (run_command c arg cx))" for c arg cx
    by (rule step_command [where r = "fst (run_command c arg cx)"]) simp
  then have "layout_step\<^sup>*\<^sup>* sample_ctx (snd (run_command Expel (Arg_Int 1) (snd (run_command Consume (Arg_Int (- 1)) sample_ctx))))"
    by (meson r_into_rtranclp rtranclp.rtrancl_into_rtrancl)
  then show ?thesis using layout_session_keeps_windows sample_ctx_ok by blast
qed

section \<open>Commands that change nothing\<close>

definition strip_shape :: "scrolling_state \<Rightarrow> client_key list list \<times> flt list \<times> bool" where
  "strip_shape s = (sc_columns s, sc_width_factors s, attach_to_focused s)"

definition same_layout :: "layout_ctx \<Rightarrow> layout_ctx \<Rightarrow> bool" where
  "same_layout cx cx' \<longleftrightarrow> cx_state cx' = cx_state cx \<and> layout_persist_dirty cx' = layout_persist_dirty cx \<and>
     (\<forall>key. map_option strip_shape (cx_strips cx' key) = map_option strip_shape (cx_strips cx key))"

lemma same_layout_refl [simp]: "same_layout cx cx"
  by (simp add: same_layout_def)

lemma same_layout_put:
  assumes "scrolling_state_for_monitor mon cx = Some s" "strip_shape t = strip_shape s"
  shows "same_layout cx (put_strip mon t cx)"
  using assms by (auto simp: same_layout_def put_strip_def scrolling_state_for_monitor_def split: bind_splits option.splits)

lemma strip_for_monitor_wf: "ctx_ok cx \<Longrightarrow> scrolling_state_for_monitor mon cx = Some s \<Longrightarrow> wf_scrolling s"
  using strip_of_monitor_default strip_default_wf by blast

lemma set_column_width_quiet:
  assumes "ctx_ok cx" "scrolling_set_column_width arg cx = (r, cx')" "r = Inr [] \<or> isl r"
  shows "same_layout cx cx'"
proof -
  have *: "same_layout cx (put_strip mon t cx)"
    if "scrolling_state_for_monitor mon cx = Some s" "strip_set_column_width sel d s = Some (t, False)" for mon s t sel d
    using same_layout_put [OF that(1)] strip_set_column_width_keeps [OF strip_for_monitor_wf [OF assms(1) that(1)] that(2)] by simp
  show ?thesis using assms(2,3) *
    by (auto simp: scrolling_set_column_width_def split: if_splits wm_arg.splits option.splits)
qed

lemma focus_column_quiet:
  assumes "ctx_ok cx" "scrolling_focus_column arg cx = (r, cx')" "r = Inr [] \<or> isl r"
  shows "same_layout cx cx'"
proof -
  have *: "same_layout cx (put_strip mon t cx)"
    if "scrolling_state_for_monitor mon cx = Some s" "strip_focus_column sel d s = (t, b)" for mon s t sel d b
    using same_layout_put [OF that(1)] strip_focus_column_keeps [OF strip_for_monitor_wf [OF assms(1) that(1)] that(2)] by (simp add: strip_shape_def)
  show ?thesis using assms(2,3) *
    by (auto simp: scrolling_focus_column_def split: if_splits prod.splits option.splits)
qed

lemma consume_quiet:
  assumes "ctx_ok cx" "scrolling_consume arg cx = (r, cx')" "r = Inr [] \<or> isl r"
  shows "same_layout cx cx'"
proof -
  have *: "same_layout cx (put_strip mon t cx)"
    if "scrolling_state_for_monitor mon cx = Some s" "strip_consume k d s = (t, False)" for mon s t k d
  proof -
    note w = strip_for_monitor_wf [OF assms(1) that(1)]
    show ?thesis using same_layout_put [OF that(1)] strip_consume_keeps [OF w that(2)]
      by (simp add: strip_shape_def remember_focus_frame ensure_metadata_id [OF w])
  qed
  show ?thesis using assms(2,3) * by (auto simp: scrolling_consume_def split: if_splits prod.splits option.splits)
qed



section \<open>Round trips\<close>

lemma vec_swap_nth: "i < length xs \<Longrightarrow> j < length xs \<Longrightarrow> vec_swap i j xs ! j = xs ! i"
  by (cases "i = j") (simp_all add: vec_swap_def)

lemma position_distinct:
  assumes "distinct (concat xss)" "i < length xss" "k \<in> set (xss ! i)"
  shows "position (\<lambda>col. k \<in> set col) xss = Some i"
proof -
  obtain j where j: "position (\<lambda>col. k \<in> set col) xss = Some j" using position_ex [of "xss ! i" xss] assms(2,3) by force
  have "j = i"
  proof (rule ccontr)
    assume n: "j \<noteq> i"
    note p = position_SomeD [OF j]
    let ?a = "min i j" and ?b = "max i j"
    have b: "?b < length xss" using p assms(2) by auto
    have "concat xss = concat (take ?b xss) @ concat (drop ?b xss)" by (simp flip: concat_append)
    with assms(1) have d: "set (concat (take ?b xss)) \<inter> set (concat (drop ?b xss)) = {}" by (metis distinct_append)
    have "?a < ?b" using n by auto
    with b have "take ?b xss ! ?a \<in> set (take ?b xss)" by (intro nth_mem) simp
    then have "xss ! ?a \<in> set (take ?b xss)" using \<open>?a < ?b\<close> by simp
    moreover have "xss ! ?b \<in> set (drop ?b xss)" using b by (simp flip: Cons_nth_drop_Suc)
    moreover have "k \<in> set (xss ! ?a)" "k \<in> set (xss ! ?b)" using p assms(3) by (auto simp: min_def max_def)
    ultimately show False using d by auto
  qed
  with j show ?thesis by simp
qed

text \<open>
  Moving a column and moving it back restores the strip, with the moved column focused:
  whatever the window, wherever the column, as long as the first move happens.
\<close>

theorem move_column_round_trip:
  assumes "wf_scrolling s" "strip_move_column (Some k) d s = Some s1" "(0 < d) \<noteq> (0 < d')" "d' \<noteq> 0"
  shows "strip_move_column (Some k) d' s1 = Some (s\<lparr>sc_focused_column := position (\<lambda>col. k \<in> set col) (sc_columns s)\<rparr>)"
proof -
  obtain i j where c: "position (\<lambda>col. k \<in> set col) (sc_columns s) = Some i" "next_column d (length (sc_columns s)) i = Some j"
    using assms(2) by (auto simp: strip_move_column_def column_of_def split: option.splits)
  note p = position_SomeD [OF c(1)]
  have l: "i < length (sc_columns s)" "j < length (sc_columns s)" using p next_column_Some [OF c(2)] by auto
  have s1: "s1 = s\<lparr>sc_columns := vec_swap i j (sc_columns s), sc_width_factors := vec_swap i j (sc_width_factors s),
      sc_focused_clients := vec_swap i j (sc_focused_clients s), sc_focused_column := Some j\<rparr>"
    using assms(1,2) c l by (auto simp: strip_move_column_def column_of_def ensure_metadata_id set_focused_column_def Let_def vec_simps)
  have w: "wf_scrolling s1" using strip_move_column_keeps [OF assms(1,2)] by (simp add: keeps_strip_def)
  have "position (\<lambda>col. k \<in> set col) (sc_columns s1) = Some j"
    by (rule position_distinct) (use w s1 l p in \<open>auto simp: wf_scrolling_def vec_simps vec_swap_nth\<close>)
  moreover have "next_column d' (length (sc_columns s1)) j = Some i"
    using c(2) l assms(3,4) by (auto simp: s1 next_column_def vec_simps split: if_splits)
  ultimately show ?thesis using w l assms(1) c
    by (simp add: strip_move_column_def column_of_def ensure_metadata_id set_focused_column_def Let_def)
      (simp add: s1 vec_simps vec_swap_back wf_scrolling_def)
qed

theorem move_column_round_trip_witness:
  "\<exists>s1. strip_move_column (Some 3) (- 1) sample_strip = Some s1 \<and> strip_move_column (Some 3) 1 s1 = Some sample_strip"
proof -
  have w: "wf_scrolling sample_strip" by (simp add: sample_strip_def wf_scrolling_def)
  have "strip_move_column (Some 3) (- 1) sample_strip \<noteq> None" by code_simp
  then obtain s1 where s1: "strip_move_column (Some 3) (- 1) sample_strip = Some s1" by blast
  have "sample_strip\<lparr>sc_focused_column := position (\<lambda>col. 3 \<in> set col) (sc_columns sample_strip)\<rparr> = sample_strip"
    by (simp add: sample_strip_def)
  with move_column_round_trip [OF w s1, of 1] s1 show ?thesis by auto
qed

lemma find_in_columns_None: "find_in_columns k ci cols = None \<longleftrightarrow> (\<forall>col \<in> set cols. k \<notin> set col)"
  by (induction cols arbitrary: ci) (auto simp: position_None_iff split: option.splits dest: position_in_set)

lemma find_in_columns_distinct:
  assumes "distinct (concat cols)" "i < length cols" "position (\<lambda>x. x = k) (cols ! i) = Some p"
  shows "find_in_columns k 0 cols = Some (i, p)"
proof -
  have k: "k \<in> set (cols ! i)" using assms(3) by (rule position_in_set)
  then have "find_in_columns k 0 cols \<noteq> None" using assms(2) by (auto simp: find_in_columns_None)
  then obtain j q where f: "find_in_columns k 0 cols = Some (j, q)" by auto
  note f' = find_in_columns_0 [OF f]
  have "j = i" using f' position_distinct [OF assms(1,2) k] by simp
  with f f' assms(3) show ?thesis by simp
qed

text \<open>Taking the last window of a column out into a column of its own, at \<open>i\<close>.\<close>

lemma vec_insert_swap_out:
  assumes "c < length cols" "i = c \<or> i = c + 1" "j = (if i = c then c + 1 else c)"
  shows "(vec_insert i [k] (cols[c := rest]))[i := [], j := rest @ [k]] = vec_insert i [] (cols[c := rest @ [k]])"
    "vec_insert i [k] (cols[c := rest]) ! i = [k]" "vec_insert i [k] (cols[c := rest]) ! j = rest"
  using assms by (auto simp: vec_insert_def list_update_append nth_append upd_conv_take_nth_drop take_update_cancel min_def
      simp flip: Cons_nth_drop_Suc)

lemma kept_insert_empty:
  assumes "i \<le> length cols" "length ws = length cols" "[] \<notin> set cols"
  shows "filter (\<lambda>c. c \<noteq> []) (vec_insert i [] cols) = cols" "kept_widths (vec_insert i [] cols) (vec_insert i w ws) = ws"
proof -
  have f: "filter (\<lambda>c. c \<noteq> []) xs = xs" if "[] \<notin> set xs" for xs :: "client_key list list" using that by (induction xs) auto
  have s: "[] \<notin> set (take i cols)" "[] \<notin> set (drop i cols)" using assms(3) by (auto dest: in_set_takeD in_set_dropD)
  show "filter (\<lambda>c. c \<noteq> []) (vec_insert i [] cols) = cols" by (simp add: vec_insert_def f s)
  have k: "kept_widths cs vs = vs" if "length vs = length cs" "[] \<notin> set cs" for cs vs
    using that by (induction vs cs rule: list_induct2) (auto simp: kept_widths_def)
  have z: "zip (take i cols @ [] # drop i cols) (take i ws @ w # drop i ws) =
      zip (take i cols) (take i ws) @ ([], w) # zip (drop i cols) (drop i ws)"
    using assms(1,2) by (subst zip_append) simp_all
  have "kept_widths (vec_insert i [] cols) (vec_insert i w ws) = kept_widths (take i cols) (take i ws) @ kept_widths (drop i cols) (drop i ws)"
    unfolding kept_widths_def vec_insert_def z by simp
  then show "kept_widths (vec_insert i [] cols) (vec_insert i w ws) = ws" using k assms(2) s by simp
qed

lemma kept_focuses_insert:
  assumes "i \<le> length cols" "[] \<notin> set cols" "length fs = Suc (length cols)"
  shows "kept_focuses (vec_insert i [] cols) fs = map2 column_focus cols (take i fs @ drop (Suc i) fs)"
proof -
  have k: "kept_focuses cs vs = map2 column_focus cs vs" if "[] \<notin> set cs" for cs vs
    using that unfolding kept_focuses_def by (subst filter_True) (auto dest: set_zip_leftD)
  have s: "[] \<notin> set (take i cols)" "[] \<notin> set (drop i cols)" using assms(2) by (auto dest: in_set_takeD in_set_dropD)
  have fs: "fs = take i fs @ fs ! i # drop (Suc i) fs" using assms(1,3) by (intro id_take_nth_drop) simp
  have "zip (take i cols @ [] # drop i cols) (take i fs @ fs ! i # drop (Suc i) fs) =
      zip (take i cols) (take i fs) @ ([], fs ! i) # zip (drop i cols) (drop (Suc i) fs)"
    using assms(1,3) by (subst zip_append) simp_all
  then have "kept_focuses (vec_insert i [] cols) fs = kept_focuses (take i cols) (take i fs) @ kept_focuses (drop i cols) (drop (Suc i) fs)"
    using fs unfolding kept_focuses_def vec_insert_def by simp
  also have "\<dots> = map2 column_focus (take i cols @ drop i cols) (take i fs @ drop (Suc i) fs)"
    using assms(1,3) by (simp only: k [OF s(1)] k [OF s(2)]) (subst zip_append, simp_all)
  finally show ?thesis by simp
qed

lemma position_last: "distinct xs \<Longrightarrow> xs \<noteq> [] \<Longrightarrow> position (\<lambda>x. x = last xs) xs = Some (length xs - 1)"
  by (induction xs) (auto split: if_splits)

lemma strip_expel_last:
  assumes "wf_scrolling s" "c < length (sc_columns s)" "sc_columns s ! c = rest @ [k]" "rest \<noteq> []"
  shows "strip_expel k d s = Some (let i = (if 0 < d then c + 1 else c) in
    s\<lparr>sc_columns := vec_insert i [k] ((sc_columns s)[c := rest]), sc_width_factors := vec_insert i (sc_width_factors s ! c) (sc_width_factors s),
      sc_focused_clients := vec_insert i (Some k) (sc_focused_clients s), sc_focused_column := Some i\<rparr>)"
proof -
  have "concat (sc_columns s) = concat (take c (sc_columns s)) @ sc_columns s ! c @ concat (drop (Suc c) (sc_columns s))"
    using id_take_nth_drop [OF assms(2)] by (metis concat.simps(2) concat_append)
  then have d: "distinct (concat (sc_columns s))" "distinct (rest @ [k])" using assms(1,3) by (metis distinct_append wf_scrolling_def)+
  have "find_in_columns k 0 (sc_columns s) = Some (c, length rest)"
    by (rule find_in_columns_distinct) (use d assms(2,3) position_last [OF d(2)] in simp_all)
  then show ?thesis using assms
    by (simp add: strip_expel_def ensure_metadata_id Let_def set_focused_column_def vec_simps vec_remove_def vec_get_def or_else_def wf_scrolling_def)
qed

lemma concat_insert_empty: "concat (vec_insert i [] xss) = concat xss"
  by (simp add: vec_insert_def) (simp flip: concat_append)

text \<open>Closing the gap an empty column leaves at \<open>i\<close>, with the window of column \<open>c\<close> focused.\<close>

lemma close_gap:
  assumes "wf_scrolling u" "sc_columns u = vec_insert i [] cols" "sc_width_factors u = vec_insert i w ws"
    "length ws = length cols" "[] \<notin> set cols" "c < length cols" "i = c \<or> i = c + 1" "k \<in> set (cols ! c)"
    "t = retain_non_empty_columns (remember_focus k u)"
  shows "sc_columns t = cols \<and> sc_width_factors t = ws \<and> sc_focused_column t = Some c \<and> target_for_column c t = Some k"
proof -
  define j where "j = (if i = c then c + 1 else c)"
  let ?cs = "vec_insert i [] cols"
  note r = retain_columns_filter [OF refl assms(9), unfolded ensure_metadata_id [OF remember_focus_wf [OF assms(1)]]]
  have i: "i \<le> length cols" using assms(6,7) by auto
  have cu: "sc_columns (remember_focus k u) = ?cs" "sc_width_factors (remember_focus k u) = vec_insert i w ws"
    using assms(1-3) by (simp_all add: remember_focus_frame ensure_metadata_id)
  have cw: "sc_columns t = cols" "sc_width_factors t = ws" using r kept_insert_empty [OF i assms(4,5)] cu by simp_all
  have j: "j < length ?cs" "?cs ! j = cols ! c" "take j ?cs = (if i = c then take c cols @ [[]] else take c cols)"
    using assms(6,7) by (auto simp: j_def vec_insert_def nth_append)
  have pos: "position (\<lambda>col. k \<in> set col) ?cs = Some j"
    by (rule position_distinct) (use j assms(1,2,8) in \<open>simp_all add: wf_scrolling_def\<close>)
  have ru: "remember_focus k u = u\<lparr>sc_focused_clients := (sc_focused_clients u)[j := Some k], sc_focused_column := Some j\<rparr>"
    using pos assms(1,2) by (simp add: remember_focus_def ensure_metadata_id Let_def)
  have lu: "length (sc_focused_clients u) = Suc (length cols)" using assms(1,2) by (simp add: wf_scrolling_def vec_simps)
  have "[] \<notin> set (take c cols)" using assms(5) by (auto dest: in_set_takeD)
  then have "length (filter (\<lambda>c. c \<noteq> []) (take c cols)) = c" using assms(6) by (subst filter_True) auto
  moreover have "cols ! c \<noteq> []" using assms(8) by auto
  ultimately have "kept_focus_index (Some j) ?cs = Some c" using j by (simp add: kept_focus_index_def)
  then have fc: "sc_focused_column t = Some c" using r cu ru by simp
  have "((take i fs @ drop (Suc i) fs) ! c) = fs ! j" if "length fs = Suc (length cols)" for fs :: "client_key option list"
    using that assms(6,7) by (auto simp: j_def nth_append)
  then have "sc_focused_clients t ! c = column_focus (cols ! c) (Some k)" "c < length (sc_focused_clients t)"
    using r cu ru lu j kept_focuses_insert [OF i assms(5), of "sc_focused_clients (remember_focus k u)"] assms(6) i
    by (simp_all add: vec_simps)
  then have "target_for_column c t = Some k"
    using cw assms(6,8) by (simp add: target_for_column_def vec_get_def column_focus_def)
  with cw fc show ?thesis by blast
qed

text \<open>
  Expelling the last window of a column and consuming it back restores the columns and their
  widths, with the window focused, in either direction.
\<close>

theorem expel_consume_round_trip:
  assumes "wf_scrolling s" "[] \<notin> set (sc_columns s)" "c < length (sc_columns s)" "sc_columns s ! c = rest @ [k]" "rest \<noteq> []"
    "(0 < d) \<noteq> (0 < d')"
  shows "\<exists>s1 t. strip_expel k d s = Some s1 \<and> strip_consume k d' s1 = (t, True) \<and> sc_columns t = sc_columns s \<and>
    sc_width_factors t = sc_width_factors s \<and> sc_focused_column t = Some c \<and> target_for_column c t = Some k"
proof -
  define i where "i = (if 0 < d then c + 1 else c)"
  define j where "j = (if i = c then c + 1 else c)"
  let ?cols = "vec_insert i [k] ((sc_columns s)[c := rest])"
  define s1 where "s1 = s\<lparr>sc_columns := ?cols, sc_width_factors := vec_insert i (sc_width_factors s ! c) (sc_width_factors s),
      sc_focused_clients := vec_insert i (Some k) (sc_focused_clients s), sc_focused_column := Some i\<rparr>"
  have e: "strip_expel k d s = Some s1" using strip_expel_last [OF assms(1,3-5)] by (simp add: s1_def i_def)
  have w1: "wf_scrolling s1" using strip_expel_keeps [OF assms(1) e] by (simp add: keeps_strip_def)
  have i: "i = c \<or> i = c + 1" "i < length ?cols" using assms(3) by (auto simp: i_def vec_simps)
  note v = vec_insert_swap_out [OF assms(3) i(1) j_def, of k rest]
  have f: "find_in_columns k 0 ?cols = Some (i, 0)"
    by (rule find_in_columns_distinct) (use w1 i v(2) in \<open>simp_all add: s1_def wf_scrolling_def\<close>)
  have ij: "i \<noteq> j" by (auto simp: j_def)
  have n: "next_column d' (length ?cols) i = Some j" using assms(3,6) by (auto simp: next_column_def i_def j_def vec_simps)
  have c1: "sc_columns (remember_focus k s1) = ?cols" by (simp add: remember_focus_frame s1_def)
  have pushed: "(let removed = ?cols[i := vec_remove 0 (?cols ! i)] in removed[j := removed ! j @ [k]]) = vec_insert i [] (sc_columns s)"
    using v ij assms(4) by (simp add: vec_remove_def Let_def) (metis assms(3) list_update_id)
  define u where "u = (remember_focus k s1)\<lparr>sc_columns := vec_insert i [] (sc_columns s)\<rparr>"
  have kt: "strip_consume k d' s1 = (retain_non_empty_columns (remember_focus k u), True)"
    using f n pushed by (simp add: strip_consume_def u_def c1 Let_def)
  have wu: "wf_scrolling u" using remember_focus_wf [OF w1, of k] assms(1) c1
    by (auto simp: u_def wf_scrolling_def concat_insert_empty vec_simps)
  have "sc_width_factors u = vec_insert i (sc_width_factors s ! c) (sc_width_factors s)" "sc_columns u = vec_insert i [] (sc_columns s)"
    using w1 by (simp_all add: u_def remember_focus_frame ensure_metadata_id) (simp add: s1_def)
  from close_gap [OF wu this(2,1) _ assms(2,3) i(1) _ refl, of k] assms(1,4) e kt show ?thesis by (simp add: wf_scrolling_def)
qed

theorem expel_consume_round_trip_witness:
  "\<exists>s1 t. strip_expel 3 1 sample_strip = Some s1 \<and> strip_consume 3 (- 1) s1 = (t, True) \<and> sc_columns t = [[1], [2, 3]]"
proof -
  have "wf_scrolling sample_strip" "[] \<notin> set (sc_columns sample_strip)" "1 < length (sc_columns sample_strip)"
    "sc_columns sample_strip ! 1 = [2] @ [3]" by (simp_all add: sample_strip_def wf_scrolling_def)
  from expel_consume_round_trip [OF this, of 1 "- 1"] show ?thesis by (auto simp: sample_strip_def)
qed

text \<open>
  \<open>lastlayout\<close> toggles: on a monitor whose slots are in order, a change of layout followed by the
  change back to the remembered layout restores the layout of the tag, and remembers the other one.
\<close>

theorem last_layout_toggles:
  assumes "wf_monitor m" "mon_pertag m = Some p" "l \<noteq> mon_lt m" "m1 = monitor_new_layout l (cur_tag p) m"
  shows "monitor_new_layout (mon_prev_lt m1) (cur_tag p) m1 =
    m\<lparr>mon_prev_lt := l, mon_pertag := Some (p\<lparr>prev_lts := (prev_lts p)[cur_tag p := l]\<rparr>)\<rparr>"
  using assms
  by (simp add: monitor_new_layout_def wf_monitor_def wf_pertag_def mirrors_slot_def Let_def)

theorem last_layout_toggles_witness:
  "mon_lt (monitor_new_layout (mon_prev_lt (monitor_new_layout LAYOUT_TILE 0 (wm_monitor_new\<lparr>mon_pertag := Some (pertag_new True 9),
      mon_layout := \<lparr>ml_m_fact = Fin 0, ml_n_master = 0, ml_gap = 0\<rparr>\<rparr>))) 0
    (monitor_new_layout LAYOUT_TILE 0 (wm_monitor_new\<lparr>mon_pertag := Some (pertag_new True 9),
      mon_layout := \<lparr>ml_m_fact = Fin 0, ml_n_master = 0, ml_gap = 0\<rparr>\<rparr>))) = LAYOUT_FIBONACCI"
proof -
  let ?m = "wm_monitor_new\<lparr>mon_pertag := Some (pertag_new True 9), mon_layout := \<lparr>ml_m_fact = Fin 0, ml_n_master = 0, ml_gap = 0\<rparr>\<rparr>"
  have w: "wf_monitor ?m"
    by (simp add: wf_monitor_def wf_pertag_new mirrors_slot_def) (simp add: pertag_new_def wm_monitor_new_def)
  have n: "LAYOUT_TILE \<noteq> mon_lt ?m" "cur_tag (pertag_new True 9) = 0" "mon_lt ?m = LAYOUT_FIBONACCI"
    by (simp_all add: wm_monitor_new_def pertag_new_def LAYOUT_TILE_def LAYOUT_FIBONACCI_def)
  have p: "mon_pertag ?m = Some (pertag_new True 9)" by simp
  show ?thesis using last_layout_toggles [OF w p n(1) refl] n(2,3) by simp
qed

end
