(* ===== verification/Stacking.thy ===== *)
theory Stacking
  imports Client_Lists "HOL-Library.Multiset"
begin

text \<open>
  Window stacking, \<open>src/jwm/stacking.rs\<close>: the plan from bottom to top over the layers below, normal,
  above, focused fullscreen and picture-in-picture, the plan of a monitor, and \<open>restack\<close>, which hands
  the plan to the backend when it changed. The plan is shown to be a stable sort of the visible
  windows by one rank.
\<close>

section \<open>Layers\<close>

record stacking_client =
  sc_window :: window_id
  sc_visible :: bool
  sc_floating :: bool
  sc_pip :: bool
  sc_fullscreen :: bool
  sc_above :: bool
  sc_below :: bool
  sc_selected :: bool

record stacking_layer =
  ly_tiled :: "window_id list"
  ly_floating :: "window_id list"
  ly_selected_tiled :: "window_id option"
  ly_selected_floating :: "window_id option"

definition layer_new :: stacking_layer where
  "layer_new = \<lparr>ly_tiled = [], ly_floating = [], ly_selected_tiled = None, ly_selected_floating = None\<rparr>"

definition layer_push :: "stacking_client \<Rightarrow> stacking_layer \<Rightarrow> stacking_layer" where
  "layer_push c l =
     (if sc_floating c
      then (if sc_selected c then l\<lparr>ly_selected_floating := Some (sc_window c)\<rparr>
            else l\<lparr>ly_floating := ly_floating l @ [sc_window c]\<rparr>)
      else if sc_selected c then l\<lparr>ly_selected_tiled := Some (sc_window c)\<rparr>
      else l\<lparr>ly_tiled := ly_tiled l @ [sc_window c]\<rparr>)"

definition opt_list :: "'a option \<Rightarrow> 'a list" where
  "opt_list x = (case x of None \<Rightarrow> [] | Some v \<Rightarrow> [v])"

definition layer_append_to :: "stacking_layer \<Rightarrow> window_id list \<Rightarrow> window_id list" where
  "layer_append_to l output = output @ ly_tiled l @ ly_floating l @ opt_list (ly_selected_tiled l) @ opt_list (ly_selected_floating l)"

record priority_layer =
  pl_windows :: "window_id list"
  pl_selected :: "window_id option"

definition priority_new :: priority_layer where
  "priority_new = \<lparr>pl_windows = [], pl_selected = None\<rparr>"

definition priority_push :: "stacking_client \<Rightarrow> priority_layer \<Rightarrow> priority_layer" where
  "priority_push c l = (if sc_selected c then l\<lparr>pl_selected := Some (sc_window c)\<rparr> else l\<lparr>pl_windows := pl_windows l @ [sc_window c]\<rparr>)"

definition priority_append_to :: "priority_layer \<Rightarrow> window_id list \<Rightarrow> window_id list" where
  "priority_append_to l output = output @ pl_windows l @ opt_list (pl_selected l)"

record stacking_plan =
  sp_below :: stacking_layer
  sp_normal :: stacking_layer
  sp_above :: stacking_layer
  sp_fullscreen :: priority_layer
  sp_pip :: priority_layer

definition plan_push :: "stacking_client \<Rightarrow> stacking_plan \<Rightarrow> stacking_plan" where
  "plan_push c p =
     (if \<not> sc_visible c then p
      else if sc_pip c then p\<lparr>sp_pip := priority_push c (sp_pip p)\<rparr>
      else if sc_selected c \<and> sc_fullscreen c then p\<lparr>sp_fullscreen := priority_push c (sp_fullscreen p)\<rparr>
      else if sc_above c then p\<lparr>sp_above := layer_push c (sp_above p)\<rparr>
      else if sc_below c then p\<lparr>sp_below := layer_push c (sp_below p)\<rparr>
      else p\<lparr>sp_normal := layer_push c (sp_normal p)\<rparr>)"

definition plan_stacking :: "stacking_client list \<Rightarrow> window_id list" where
  "plan_stacking clients_bottom_to_top =
     (let p = fold plan_push clients_bottom_to_top
                \<lparr>sp_below = layer_new, sp_normal = layer_new, sp_above = layer_new, sp_fullscreen = priority_new, sp_pip = priority_new\<rparr>
      in priority_append_to (sp_pip p) (priority_append_to (sp_fullscreen p) (layer_append_to (sp_above p)
           (layer_append_to (sp_normal p) (layer_append_to (sp_below p) [])))))"

section \<open>Monitors\<close>

definition stacking_client_of :: "wm_state \<Rightarrow> monitor_key \<Rightarrow> (client_key \<Rightarrow> bool) \<Rightarrow> client_key \<Rightarrow> stacking_client option" where
  "stacking_client_of s m include_visual key =
     (case slot_get (st_clients s) key of
        None \<Rightarrow> None
      | Some c \<Rightarrow> Some \<lparr>sc_window = c_win c,
          sc_visible = (is_client_visible_on_monitor s key m \<or> include_visual key),
          sc_floating = is_floating (c_state c), sc_pip = is_pip (c_state c), sc_fullscreen = is_fullscreen (c_state c),
          sc_above = is_above (c_state c), sc_below = is_below (c_state c),
          sc_selected = ((case slot_get (st_monitors s) m of None \<Rightarrow> None | Some mon \<Rightarrow> mon_sel mon) = Some key)\<rparr>)"

definition monitor_stacking_order :: "wm_state \<Rightarrow> monitor_key \<Rightarrow> (client_key \<Rightarrow> bool) \<Rightarrow> window_id list" where
  "monitor_stacking_order s m include_visual =
     plan_stacking (List.map_filter (stacking_client_of s m include_visual) (rev (get_monitor_stack s m)))"

section \<open>Bar visibility\<close>

definition get_monitor_by_id :: "wm_state \<Rightarrow> int \<Rightarrow> monitor_key option" where
  "get_monitor_by_id s monitor_id = map_option fst (List.find (\<lambda>(_, m). mon_num m = monitor_id) (st_monitors s))"

definition monitor_owns_output_count :: "wm_state \<Rightarrow> monitor_key \<Rightarrow> nat" where
  "monitor_owns_output_count s m =
     length (filter (\<lambda>k. (case slot_get (st_clients s) k of None \<Rightarrow> False | Some c \<Rightarrow> is_fullscreen (c_state c)) \<and>
                         is_client_visible_on_monitor s k m) (or_else (monitor_clients s m) []))"

definition monitor_has_visible_fullscreen :: "wm_state \<Rightarrow> monitor_key \<Rightarrow> bool" where
  "monitor_has_visible_fullscreen s m \<longleftrightarrow> monitor_owns_output_count s m > 0"

definition monitor_shows_status_bar :: "wm_state \<Rightarrow> monitor_key \<Rightarrow> bool" where
  "monitor_shows_status_bar s m =
     (case slot_get (st_monitors s) m of
        None \<Rightarrow> True
      | Some mon \<Rightarrow>
          or_else (case mon_pertag mon of None \<Rightarrow> None | Some p \<Rightarrow> vec_get (show_bars p) (cur_tag p)) True \<and>
          \<not> monitor_has_visible_fullscreen s m)"

definition mark_bar_update_needed_if_visible :: "wm_state \<Rightarrow> int option \<Rightarrow> int set \<Rightarrow> int set" where
  "mark_bar_update_needed_if_visible s monitor_id pending =
     (case monitor_id of
        Some i \<Rightarrow>
          (case get_monitor_by_id s i of
             None \<Rightarrow> pending
           | Some key \<Rightarrow> if monitor_shows_status_bar s key then insert i pending else pending)
      | None \<Rightarrow> fold (\<lambda>(key, m) pending. if monitor_shows_status_bar s key then insert (mon_num m) pending else pending)
                  (st_monitors s) pending)"

section \<open>Restacking\<close>

text \<open>
  The fields of \<open>Jwm\<close> that \<open>restack\<close> writes. \<open>restack_windows\<close> is the backend's answer to an order; the last
  component of the result is the order it was given, if it was called.
\<close>

record stacking_state =
  last_stacking :: "monitor_key \<Rightarrow> window_id list option"
  pending_bar_updates :: "int set"

datatype restack_error = Monitor_Required | Monitor_Not_Found | Backend_Failed

definition restack :: "(window_id list \<Rightarrow> bool) \<Rightarrow> wm_state \<Rightarrow> monitor_key option \<Rightarrow> stacking_state \<Rightarrow>
    (restack_error + unit) \<times> stacking_state \<times> window_id list option" where
  "restack restack_windows s m_opt ss =
     (case m_opt of
        None \<Rightarrow> (Inl Monitor_Required, ss, None)
      | Some m \<Rightarrow>
          (case slot_get (st_monitors s) m of
             None \<Rightarrow> (Inl Monitor_Not_Found, ss, None)
           | Some mon \<Rightarrow>
               let final_bottom_to_top = monitor_stacking_order s m (\<lambda>_. False);
                   need_restack_windows = (case last_stacking ss m of Some prev \<Rightarrow> prev \<noteq> final_bottom_to_top | None \<Rightarrow> True);
                   pending = mark_bar_update_needed_if_visible s (Some (mon_num mon)) (pending_bar_updates ss)
               in if need_restack_windows
                  then (if restack_windows final_bottom_to_top
                        then (Inr (), \<lparr>last_stacking = (last_stacking ss)(m \<mapsto> final_bottom_to_top), pending_bar_updates = pending\<rparr>,
                              Some final_bottom_to_top)
                        else (Inl Backend_Failed, ss, Some final_bottom_to_top))
                  else (Inr (), ss\<lparr>pending_bar_updates := pending\<rparr>, None)))"

section \<open>The plan is a stable sort\<close>

text \<open>
  The rank of a window: its layer, and inside the layer tiled before floating, then the selected
  tiled window, then the selected floating one.
\<close>

definition stack_rank :: "stacking_client \<Rightarrow> nat" where
  "stack_rank c =
     (if sc_pip c then (if sc_selected c then 14 else 13)
      else if sc_selected c \<and> sc_fullscreen c then 12
      else (if sc_above c then 8 else if sc_below c then 0 else 4) +
           (if sc_selected c then (if sc_floating c then 3 else 2) else if sc_floating c then 1 else 0))"

definition one_selected :: "stacking_client list \<Rightarrow> bool" where
  "one_selected cs \<longleftrightarrow> length (filter sc_selected cs) \<le> 1"

lemma fold_layer_push:
  "fold layer_push cs l =
     \<lparr>ly_tiled = ly_tiled l @ map sc_window (filter (\<lambda>c. \<not> sc_floating c \<and> \<not> sc_selected c) cs),
      ly_floating = ly_floating l @ map sc_window (filter (\<lambda>c. sc_floating c \<and> \<not> sc_selected c) cs),
      ly_selected_tiled = (case rev (filter (\<lambda>c. \<not> sc_floating c \<and> sc_selected c) cs) of [] \<Rightarrow> ly_selected_tiled l | c # _ \<Rightarrow> Some (sc_window c)),
      ly_selected_floating = (case rev (filter (\<lambda>c. sc_floating c \<and> sc_selected c) cs) of [] \<Rightarrow> ly_selected_floating l | c # _ \<Rightarrow> Some (sc_window c))\<rparr>"
proof (induction cs arbitrary: l)
  case (Cons c cs)
  show ?case unfolding fold_simps Cons.IH by (auto simp: layer_push_def split: list.splits)
qed simp

lemma fold_priority_push:
  "fold priority_push cs l =
     \<lparr>pl_windows = pl_windows l @ map sc_window (filter (\<lambda>c. \<not> sc_selected c) cs),
      pl_selected = (case rev (filter sc_selected cs) of [] \<Rightarrow> pl_selected l | c # _ \<Rightarrow> Some (sc_window c))\<rparr>"
proof (induction cs arbitrary: l)
  case (Cons c cs)
  show ?case unfolding fold_simps Cons.IH by (auto simp: priority_push_def split: list.splits)
qed simp

text \<open>Each layer sees its own windows only.\<close>

definition in_pip :: "stacking_client \<Rightarrow> bool" where "in_pip c \<longleftrightarrow> sc_visible c \<and> sc_pip c"
definition in_fullscreen :: "stacking_client \<Rightarrow> bool" where
  "in_fullscreen c \<longleftrightarrow> sc_visible c \<and> \<not> sc_pip c \<and> sc_selected c \<and> sc_fullscreen c"
definition in_plain :: "stacking_client \<Rightarrow> bool" where
  "in_plain c \<longleftrightarrow> sc_visible c \<and> \<not> sc_pip c \<and> \<not> (sc_selected c \<and> sc_fullscreen c)"

lemma fold_plan_push:
  "fold plan_push cs p =
     \<lparr>sp_below = fold layer_push (filter (\<lambda>c. in_plain c \<and> \<not> sc_above c \<and> sc_below c) cs) (sp_below p),
      sp_normal = fold layer_push (filter (\<lambda>c. in_plain c \<and> \<not> sc_above c \<and> \<not> sc_below c) cs) (sp_normal p),
      sp_above = fold layer_push (filter (\<lambda>c. in_plain c \<and> sc_above c) cs) (sp_above p),
      sp_fullscreen = fold priority_push (filter in_fullscreen cs) (sp_fullscreen p),
      sp_pip = fold priority_push (filter in_pip cs) (sp_pip p)\<rparr>"
proof (induction cs arbitrary: p)
  case (Cons c cs)
  show ?case unfolding fold_simps Cons.IH by (auto simp: plan_push_def in_plain_def [of c] in_fullscreen_def [of c] in_pip_def [of c])
qed simp

lemma opt_list_single:
  "length xs \<le> 1 \<Longrightarrow> d = None \<Longrightarrow> opt_list (case rev xs of [] \<Rightarrow> d | c # _ \<Rightarrow> Some (f c)) = map f xs"
  by (cases xs) (auto simp: opt_list_def)

lemma one_selected_filter: "one_selected cs \<Longrightarrow> length (filter (\<lambda>c. P c \<and> sc_selected c) cs) \<le> 1"
proof -
  have "length (filter P (filter sc_selected cs)) \<le> length (filter sc_selected cs)" by (rule length_filter_le)
  then show "one_selected cs \<Longrightarrow> length (filter (\<lambda>c. P c \<and> sc_selected c) cs) \<le> 1"
    by (simp add: one_selected_def conj_commute)
qed

text \<open>A stable sort by a bounded rank collects the ranks one after the other.\<close>

lemma sort_key_ranks:
  assumes "\<And>x. x \<in> set xs \<Longrightarrow> f x < (n::nat)"
  shows "sort_key f xs = concat (map (\<lambda>r. filter (\<lambda>x. f x = r) xs) [0..<n])"
proof -
  let ?ys = "concat (map (\<lambda>r. filter (\<lambda>x. f x = r) xs) [0..<n])"
  have st: "filter (\<lambda>x. f x = k) ?ys = filter (\<lambda>x. f x = k) xs" for k
  proof -
    have "filter (\<lambda>x. f x = k) (concat (map (\<lambda>r. filter (\<lambda>x. f x = r) xs) [0..<m])) = (if k < m then filter (\<lambda>x. f x = k) xs else [])" for m
      by (induction m) (auto simp: less_Suc_eq intro!: filter_False)
    moreover have "filter (\<lambda>x. f x = k) xs = []" if "\<not> k < n" using assms that by (auto intro!: filter_False)
    ultimately show ?thesis by simp
  qed
  have so: "sorted (map f (concat (map (\<lambda>r. filter (\<lambda>x. f x = r) xs) [0..<m])))" for m
  proof (induction m)
    case (Suc m)
    have "map f (filter (\<lambda>x. f x = m) xs) = replicate (length (filter (\<lambda>x. f x = m) xs)) m"
      by (simp add: map_replicate_const [symmetric] cong: map_cong)
    then show ?case using Suc by (auto simp: sorted_append)
  qed simp
  have "mset ?ys = mset xs"
  proof (rule multiset_eqI)
    fix x
    have "count (mset zs) x = count (mset (filter (\<lambda>y. f y = f x) zs)) x" for zs by (simp add: mset_filter)
    then show "count (mset ?ys) x = count (mset xs) x" by (metis st)
  qed
  moreover have "filter (\<lambda>x. f k = f x) ?ys = filter (\<lambda>x. f k = f x) xs" for k
    using st [of "f k"] by (simp add: eq_commute [of "f k"])
  ultimately show ?thesis using so [of n] by (intro properties_for_sort_key) auto
qed

lemma stack_rank_less: "stack_rank c < 15" by (simp add: stack_rank_def)

text \<open>Which windows have which rank.\<close>

lemma visible_rank:
  "(sc_visible c \<and> stack_rank c = 0) = ((in_plain c \<and> \<not> sc_above c \<and> sc_below c) \<and> \<not> sc_floating c \<and> \<not> sc_selected c)"
  "(sc_visible c \<and> stack_rank c = Suc 0) = ((in_plain c \<and> \<not> sc_above c \<and> sc_below c) \<and> sc_floating c \<and> \<not> sc_selected c)"
  "(sc_visible c \<and> stack_rank c = 2) = ((in_plain c \<and> \<not> sc_above c \<and> sc_below c) \<and> \<not> sc_floating c \<and> sc_selected c)"
  "(sc_visible c \<and> stack_rank c = 3) = ((in_plain c \<and> \<not> sc_above c \<and> sc_below c) \<and> sc_floating c \<and> sc_selected c)"
  "(sc_visible c \<and> stack_rank c = 4) = ((in_plain c \<and> \<not> sc_above c \<and> \<not> sc_below c) \<and> \<not> sc_floating c \<and> \<not> sc_selected c)"
  "(sc_visible c \<and> stack_rank c = 5) = ((in_plain c \<and> \<not> sc_above c \<and> \<not> sc_below c) \<and> sc_floating c \<and> \<not> sc_selected c)"
  "(sc_visible c \<and> stack_rank c = 6) = ((in_plain c \<and> \<not> sc_above c \<and> \<not> sc_below c) \<and> \<not> sc_floating c \<and> sc_selected c)"
  "(sc_visible c \<and> stack_rank c = 7) = ((in_plain c \<and> \<not> sc_above c \<and> \<not> sc_below c) \<and> sc_floating c \<and> sc_selected c)"
  "(sc_visible c \<and> stack_rank c = 8) = ((in_plain c \<and> sc_above c) \<and> \<not> sc_floating c \<and> \<not> sc_selected c)"
  "(sc_visible c \<and> stack_rank c = 9) = ((in_plain c \<and> sc_above c) \<and> sc_floating c \<and> \<not> sc_selected c)"
  "(sc_visible c \<and> stack_rank c = 10) = ((in_plain c \<and> sc_above c) \<and> \<not> sc_floating c \<and> sc_selected c)"
  "(sc_visible c \<and> stack_rank c = 11) = ((in_plain c \<and> sc_above c) \<and> sc_floating c \<and> sc_selected c)"
  "(sc_visible c \<and> stack_rank c = 12) = in_fullscreen c"
  "(sc_visible c \<and> stack_rank c = 13) = (in_pip c \<and> \<not> sc_selected c)"
  "(sc_visible c \<and> stack_rank c = 14) = (in_pip c \<and> sc_selected c)"
  by (auto simp: stack_rank_def in_plain_def in_fullscreen_def in_pip_def)

lemma layer_out:
  assumes "one_selected cs"
  shows "layer_append_to (fold layer_push (filter P cs) layer_new) out =
    out @ map sc_window (filter (\<lambda>c. P c \<and> \<not> sc_floating c \<and> \<not> sc_selected c) cs @ filter (\<lambda>c. P c \<and> sc_floating c \<and> \<not> sc_selected c) cs
      @ filter (\<lambda>c. P c \<and> \<not> sc_floating c \<and> sc_selected c) cs @ filter (\<lambda>c. P c \<and> sc_floating c \<and> sc_selected c) cs)"
proof -
  have "length (filter (\<lambda>c. P c \<and> Q c \<and> sc_selected c) cs) \<le> 1" for Q
    using one_selected_filter [OF assms, of "\<lambda>c. Q c \<and> P c"] by (simp add: conj_ac)
  then show ?thesis by (simp add: fold_layer_push layer_append_to_def layer_new_def opt_list_single)
qed

lemma priority_out:
  assumes "one_selected cs"
  shows "priority_append_to (fold priority_push (filter P cs) priority_new) out =
    out @ map sc_window (filter (\<lambda>c. P c \<and> \<not> sc_selected c) cs @ filter (\<lambda>c. P c \<and> sc_selected c) cs)"
proof -
  have "length (filter (\<lambda>c. P c \<and> sc_selected c) cs) \<le> 1"
    using one_selected_filter [OF assms, of P] by (simp add: conj_ac)
  then show ?thesis by (simp add: fold_priority_push priority_append_to_def priority_new_def opt_list_single)
qed

lemma plan_stacking_sorts:
  assumes "one_selected cs"
  shows "plan_stacking cs = map sc_window (sort_key stack_rank (filter sc_visible cs))"
proof -
  have ranks: "[0..<15] = [0, Suc 0, 2, 3, 4, 5, 6, 7, 8, 9, 10, 11, 12, 13, 14]" by (simp add: upt_rec_numeral upt_rec)
  have fs: "filter (\<lambda>c. in_fullscreen c \<and> \<not> sc_selected c) cs = []" "(in_fullscreen c \<and> sc_selected c) = in_fullscreen c" for c
    by (auto simp: in_fullscreen_def)
  have "sort_key stack_rank (filter sc_visible cs) = concat (map (\<lambda>r. filter (\<lambda>c. sc_visible c \<and> stack_rank c = r) cs) [0..<15])"
    by (subst sort_key_ranks [of _ stack_rank 15, OF stack_rank_less]) simp
  then show ?thesis
    unfolding ranks list.map concat.simps visible_rank
    by (simp add: plan_stacking_def fold_plan_push layer_out [OF assms] priority_out [OF assms] fs)
qed

lemma sel_list: "distinct l \<Longrightarrow>
   length (filter sc_selected (List.map_filter (stacking_client_of s m f) l)) \<le> 1"
proof (induction l)
  case (Cons k l)
  let ?sel = "case slot_get (st_monitors s) m of None \<Rightarrow> None | Some mon \<Rightarrow> mon_sel mon"
  have none: "filter sc_selected (List.map_filter (stacking_client_of s m f) l) = []" if "?sel = Some k" "k \<notin> set l" for l
    using that by (induction l) (auto simp: map_filter_simps stacking_client_of_def split: option.splits)
  have sel: "sc_selected c \<longleftrightarrow> ?sel = Some k" if "stacking_client_of s m f k = Some c" for c
    using that by (auto simp: stacking_client_of_def split: option.splits)
  show ?case
  proof (cases "stacking_client_of s m f k")
    case None
    with Cons show ?thesis by (simp add: map_filter_simps)
  next
    case (Some c)
    with Cons none [of l] sel [OF Some] show ?thesis by (auto simp: map_filter_simps)
  qed
qed (simp add: map_filter_simps)

lemma get_monitor_stack_distinct: "wf_lists s \<Longrightarrow> distinct (get_monitor_stack s m)"
  by (cases "monitor_stack s m") (auto simp: wf_lists_def get_monitor_stack_def or_else_def)

definition shown_state :: wm_state where
  "shown_state = sample_state\<lparr>st_monitors := [(1, wm_monitor_new\<lparr>tag_set := (1, 1), mon_sel := Some 1\<rparr>)],
     st_clients := [(1, (sample_client False)\<lparr>c_win := 11\<rparr>), (2, (sample_client True)\<lparr>c_win := 12\<rparr>)]\<rparr>"

lemma shown_state_wf: "wf_lists shown_state"
proof -
  have m: "client_mon shown_state 1 = Some 1" "client_mon shown_state 2 = Some 1" by code_simp+
  have "tiled_first (is_client_floating shown_state) [1, 2]" by code_simp
  with m show ?thesis by (auto simp: wf_lists_def group_ok_def shown_state_def sample_state_def split: if_splits)
qed

text \<open>
  C23. The stacking order of a monitor is a stable sort: the visible windows of the focus stack,
  from the bottom up, ordered by one rank (below, normal, above, the focused fullscreen window,
  picture-in-picture; tiled before floating, the selected window last in its layer), windows of
  equal rank keeping the order of the stack.
\<close>

theorem stacking_is_stable_sort:
  assumes "wf_lists s"
  shows "monitor_stacking_order s m include_visual =
    map sc_window (sort_key stack_rank (filter sc_visible
      (List.map_filter (stacking_client_of s m include_visual) (rev (get_monitor_stack s m)))))"
  unfolding monitor_stacking_order_def
  by (rule plan_stacking_sorts) (simp add: one_selected_def sel_list get_monitor_stack_distinct [OF assms] del: One_nat_def)

theorem stacking_is_stable_sort_witness:
  "map sc_window (sort_key stack_rank (filter sc_visible
      (List.map_filter (stacking_client_of shown_state 1 (\<lambda>_. False)) (rev (get_monitor_stack shown_state 1))))) = [12, 11]"
proof -
  have "monitor_stacking_order shown_state 1 (\<lambda>_. False) = [12, 11]" by code_simp
  then show ?thesis using stacking_is_stable_sort [OF shown_state_wf, of 1 "\<lambda>_. False"] by simp
qed

lemma mark_bar_idem:
  "mark_bar_update_needed_if_visible s (Some i) (mark_bar_update_needed_if_visible s (Some i) p) = mark_bar_update_needed_if_visible s (Some i) p"
  by (auto simp: mark_bar_update_needed_if_visible_def split: option.splits)

text \<open>
  \<open>restack\<close> sends an order exactly when it differs from the one the backend last accepted for that
  monitor. After a success the record is the current order, so a second call sends nothing and
  changes nothing; a backend failure is reported and leaves the record and the pending bar updates
  as they were, so the next call tries again; other monitors are not touched.
\<close>

theorem restack_sends_changes_only:
  assumes "slot_get (st_monitors s) m = Some mon" "restack restack_windows s (Some m) ss = (r, ss', sent)"
  defines "order \<equiv> monitor_stacking_order s m (\<lambda>_. False)"
  shows "sent = (if last_stacking ss m = Some order then None else Some order) \<and>
    (case r of
       Inr _ \<Rightarrow> last_stacking ss' = (last_stacking ss)(m \<mapsto> order) \<and> restack restack_windows s (Some m) ss' = (Inr (), ss', None)
     | Inl e \<Rightarrow> e = Backend_Failed \<and> ss' = ss \<and> sent = Some order \<and> \<not> restack_windows order)"
proof -
  note d = restack_def Let_def order_def [symmetric]
  show ?thesis
  proof (cases "last_stacking ss m = Some order")
    case True
    then have "r = Inr ()" "sent = None" "ss' = ss\<lparr>pending_bar_updates := mark_bar_update_needed_if_visible s (Some (mon_num mon)) (pending_bar_updates ss)\<rparr>"
      using assms(1,2) by (simp_all add: d)
    then show ?thesis using True assms(1) by (auto simp: d mark_bar_idem)
  next
    case False
    then show ?thesis using assms(1,2)
      by (cases "restack_windows order"; cases "last_stacking ss m") (auto simp: d mark_bar_idem)
  qed
qed

definition fresh_stacking :: stacking_state where
  "fresh_stacking = \<lparr>last_stacking = \<lambda>_. None, pending_bar_updates = {}\<rparr>"

theorem restack_sends_changes_only_witness:
  "\<exists>ss' order. restack (\<lambda>_. True) shown_state (Some 1) fresh_stacking = (Inr (), ss', Some order) \<and>
     restack (\<lambda>_. True) shown_state (Some 1) ss' = (Inr (), ss', None)"
proof -
  have m: "slot_get (st_monitors shown_state) 1 = Some (wm_monitor_new\<lparr>tag_set := (1, 1), mon_sel := Some 1\<rparr>)" by (simp add: shown_state_def slot_get_def)
  obtain r ss' sent where r: "restack (\<lambda>_. True) shown_state (Some 1) fresh_stacking = (r, ss', sent)"
    by (cases "restack (\<lambda>_. True) shown_state (Some 1) fresh_stacking")
  from restack_sends_changes_only [OF m r] r show ?thesis
    by (cases r) (auto simp: fresh_stacking_def)
qed

end
