(* ===== verification/Focus.thy ===== *)
theory Focus
  imports Layout_Commands Stacking
begin

text \<open>
  Focus: \<open>src/jwm/focus.rs\<close>, the core of \<open>src/jwm/focus_manager.rs\<close>, the locks of
  \<open>src/jwm/features/monitor_lock.rs\<close> and the attention flags of \<open>src/jwm/window_state.rs\<close>. The state is
  that of the layout commands together with the owner of a shortcut passthrough and the window the
  backend was last told to be focused. What the backend answers is a parameter: a call that fails
  ends the operation with what it had already changed. Repaints of the bars and messages to
  subscribers change nothing here and are left out.
\<close>

section \<open>State and environment\<close>

text \<open>
  Calls that reach other components: the slide of a tag switch with its direction and rectangle, and
  an arrange of one monitor or of all with the layout animation suppressed or not, and one that only runs the layout.
\<close>

datatype wm_call = Slide_Tags int "int \<times> int \<times> nat \<times> nat" | Arrange_Monitor "monitor_key option" bool | Arrange_Only monitor_key

record focusing =
  fc_cx :: layout_ctx
  shortcut_passthrough_owner :: "client_key option"
  focused_told :: "window_id option"
  fc_calls :: "wm_call list"

record focus_env =
  locked_monitors :: "int set"
  decorates :: "client_key \<Rightarrow> bool \<Rightarrow> bool"
  grabs_keys :: bool
  takes_focus :: "window_id option \<Rightarrow> bool"
  takes_root :: bool
  hints_urgent :: "window_id \<Rightarrow> bool"

type_synonym 'a focus_op = "focusing \<Rightarrow> (string + 'a) \<times> focusing"

abbreviation fc_state :: "focusing \<Rightarrow> wm_state" where "fc_state f \<equiv> cx_state (fc_cx f)"

definition set_fc_state :: "wm_state \<Rightarrow> focusing \<Rightarrow> focusing" where
  "set_fc_state s f = f\<lparr>fc_cx := (fc_cx f)\<lparr>cx_state := s\<rparr>\<rparr>"

definition backend_failed :: string where "backend_failed = ''backend''"

definition and_do :: "'a focus_op \<Rightarrow> ('a \<Rightarrow> 'b focus_op) \<Rightarrow> 'b focus_op" where
  "and_do p q f = (case p f of (Inl e, f1) \<Rightarrow> (Inl e, f1) | (Inr x, f1) \<Rightarrow> q x f1)"

definition accepted :: "bool \<Rightarrow> unit focus_op" where
  "accepted ok f = (if ok then Inr () else Inl backend_failed, f)"

section \<open>Queries\<close>

definition get_selected_client_key :: "wm_state \<Rightarrow> client_key option" where
  "get_selected_client_key s = (case sel_mon s of None \<Rightarrow> None
     | Some m \<Rightarrow> (case slot_get (st_monitors s) m of None \<Rightarrow> None | Some mon \<Rightarrow> mon_sel mon))"

definition monitor_key_is_locked :: "focus_env \<Rightarrow> wm_state \<Rightarrow> monitor_key \<Rightarrow> bool" where
  "monitor_key_is_locked env s m \<longleftrightarrow> locked_monitors env \<noteq> {} \<and>
     (case slot_get (st_monitors s) m of None \<Rightarrow> False | Some mon \<Rightarrow> mon_num mon \<in> locked_monitors env)"

definition client_is_on_locked_monitor :: "focus_env \<Rightarrow> wm_state \<Rightarrow> client_key \<Rightarrow> bool" where
  "client_is_on_locked_monitor env s k \<longleftrightarrow> locked_monitors env \<noteq> {} \<and>
     (case client_mon s k of None \<Rightarrow> False | Some m \<Rightarrow> monitor_key_is_locked env s m)"

definition is_application_focus_eligible :: "wm_state \<Rightarrow> client_key \<Rightarrow> bool" where
  "is_application_focus_eligible s k \<longleftrightarrow> (case slot_get (st_clients s) k of None \<Rightarrow> False
     | Some c \<Rightarrow> \<not> is_dock (c_state c) \<and> \<not> is_desktop (c_state c))"

definition find_visible_client :: "focus_env \<Rightarrow> wm_state \<Rightarrow> client_key option" where
  "find_visible_client env s = (case sel_mon s of None \<Rightarrow> None
     | Some m \<Rightarrow> if monitor_key_is_locked env s m then None
         else (case monitor_stack s m of None \<Rightarrow> None
           | Some stack \<Rightarrow> List.find (\<lambda>k. is_application_focus_eligible s k \<and> is_client_visible_by_key s k) stack))"

definition should_focus_client :: "wm_state \<Rightarrow> client_key option \<Rightarrow> bool \<Rightarrow> bool" where
  "should_focus_client s k on_selected_monitor \<longleftrightarrow> \<not> on_selected_monitor \<or> k = None \<or> get_selected_client_key s \<noteq> k"

definition tags_to_reveal :: "32 word \<Rightarrow> wm_state \<Rightarrow> client_key \<Rightarrow> 32 word option" where
  "tags_to_reveal tagmask s k = (case slot_get (st_clients s) k of None \<Rightarrow> None
     | Some c \<Rightarrow> if is_sticky (c_state c) then None
         else (case c_mon c of None \<Rightarrow> None | Some m \<Rightarrow> (case slot_get (st_monitors s) m of None \<Rightarrow> None
           | Some mon \<Rightarrow> if cs_tags (c_state c) AND get_active_tags mon \<noteq> 0 then None
               else let wanted = cs_tags (c_state c) AND tagmask in if wanted \<noteq> 0 then Some wanted else None)))"

section \<open>Telling the backend\<close>

definition update_client_decoration :: "focus_env \<Rightarrow> client_key \<Rightarrow> bool \<Rightarrow> unit focus_op" where
  "update_client_decoration env k focused f = (case slot_get (st_clients (fc_state f)) k of
     None \<Rightarrow> (Inl ''Client not found'', f) | Some _ \<Rightarrow> accepted (decorates env k focused) f)"

definition sync_shortcut_passthrough_focus :: "focus_env \<Rightarrow> client_key option \<Rightarrow> unit focus_op" where
  "sync_shortcut_passthrough_focus env focused f =
     (if shortcut_passthrough_owner f \<noteq> None \<and> shortcut_passthrough_owner f \<noteq> focused
      then accepted (grabs_keys env) (f\<lparr>shortcut_passthrough_owner := None\<rparr>) else (Inr (), f))"

definition on_focused_client_changed :: "focus_env \<Rightarrow> window_id option \<Rightarrow> unit focus_op" where
  "on_focused_client_changed env w f =
     (if takes_focus env w then (Inr (), f\<lparr>focused_told := w\<rparr>) else (Inl backend_failed, f))"

definition setfocus :: "focus_env \<Rightarrow> client_key \<Rightarrow> unit focus_op" where
  "setfocus env k f = (case slot_get (st_clients (fc_state f)) k of None \<Rightarrow> (Inr (), f)
     | Some c \<Rightarrow> and_do (sync_shortcut_passthrough_focus env (Some k)) (\<lambda>_. on_focused_client_changed env (Some (c_win c))) f)"

definition set_root_focus :: "focus_env \<Rightarrow> unit focus_op" where
  "set_root_focus env = and_do (sync_shortcut_passthrough_focus env None) (\<lambda>_.
     and_do (accepted (takes_root env)) (\<lambda>_. on_focused_client_changed env None))"

definition unfocus_client :: "focus_env \<Rightarrow> client_key \<Rightarrow> bool \<Rightarrow> unit focus_op" where
  "unfocus_client env k drop_input f = (case slot_get (st_clients (fc_state f)) k of None \<Rightarrow> (Inr (), f)
     | Some _ \<Rightarrow> and_do (update_client_decoration env k False) (\<lambda>_.
         if drop_input then and_do (sync_shortcut_passthrough_focus env None) (\<lambda>_. on_focused_client_changed env None)
         else Pair (Inr ())) f)"

definition handle_focus_change_by_key :: "focus_env \<Rightarrow> client_key option \<Rightarrow> unit focus_op" where
  "handle_focus_change_by_key env new_focus f = (case get_selected_client_key (fc_state f) of
     Some k \<Rightarrow> if Some k \<noteq> new_focus then unfocus_client env k False f else (Inr (), f)
   | None \<Rightarrow> (Inr (), f))"

section \<open>Attention\<close>

text \<open>
  \<open>seturgent\<close> with \<open>urgent\<close> false, whose errors the caller drops: the flag is cleared before anything can
  fail. \<open>set_client_demands_attention\<close> with \<open>on\<close> false: the urgency that stays is the one of the hints.
\<close>

definition seturgent_off :: "client_key \<Rightarrow> wm_state \<Rightarrow> wm_state" where
  "seturgent_off k = client_state_update k (\<lambda>st. st\<lparr>is_urgent := False\<rparr>)"

definition drop_demands_attention :: "focus_env \<Rightarrow> client_key \<Rightarrow> wm_state \<Rightarrow> wm_state" where
  "drop_demands_attention env k s = (case slot_get (st_clients s) k of None \<Rightarrow> s
     | Some c \<Rightarrow> client_state_update k (\<lambda>st. st\<lparr>demands_attention := False, is_urgent := hints_urgent env (c_win c)\<rparr>) s)"

definition client_flag :: "(client_state \<Rightarrow> bool) \<Rightarrow> wm_state \<Rightarrow> client_key \<Rightarrow> bool" where
  "client_flag flag s k = (case slot_get (st_clients s) k of None \<Rightarrow> False | Some c \<Rightarrow> flag (c_state c))"

definition clear_attention :: "focus_env \<Rightarrow> client_key \<Rightarrow> wm_state \<Rightarrow> wm_state" where
  "clear_attention env k s =
     (let s1 = (if client_flag is_urgent s k then seturgent_off k s else s)
      in if client_flag demands_attention s1 k then drop_demands_attention env k s1 else s1)"

section \<open>Focus\<close>

definition set_client_focus_by_key :: "focus_env \<Rightarrow> client_key \<Rightarrow> unit focus_op" where
  "set_client_focus_by_key env k f = (case slot_get (st_clients (fc_state f)) k of
     None \<Rightarrow> (Inl ''Client not found'', f)
   | Some c \<Rightarrow>
       let s1 = (case c_mon c of None \<Rightarrow> fc_state f | Some m \<Rightarrow> (fc_state f)\<lparr>sel_mon := Some m\<rparr>);
           s2 = clear_attention env k s1;
           s3 = attachstack k (detachstack k s2)
       in and_do (update_client_decoration env k True) (\<lambda>_. setfocus env k) (set_fc_state s3 f))"

definition update_monitor_selection_by_key :: "client_key option \<Rightarrow> focusing \<Rightarrow> focusing" where
  "update_monitor_selection_by_key k f = (case sel_mon (fc_state f) of None \<Rightarrow> f
     | Some m \<Rightarrow> f\<lparr>fc_cx := update_monitor m (set_selected_client_for_current_tag k) (fc_cx f)\<rparr>)"

definition remember_scrolling_focus_for_client :: "client_key \<Rightarrow> focusing \<Rightarrow> focusing" where
  "remember_scrolling_focus_for_client k f = (case client_mon (fc_state f) k of None \<Rightarrow> f
     | Some m \<Rightarrow>
         if (case monitor_of (fc_cx f) m of None \<Rightarrow> False | Some mon \<Rightarrow> mon_lt mon = LAYOUT_SCROLLING) \<and>
            is_client_visible_on_monitor (fc_state f) k m
         then (case scrolling_state_for_monitor m (fc_cx f) of None \<Rightarrow> f
           | Some st \<Rightarrow> f\<lparr>fc_cx := put_strip m (remember_focus k st) (fc_cx f)\<rparr>)
         else f)"

text \<open>The window a request for focus ends up at: the first part of \<open>focus\<close>.\<close>

definition focus_target :: "focus_env \<Rightarrow> wm_state \<Rightarrow> client_key option \<Rightarrow> client_key option" where
  "focus_target env s wanted =
     (let unlocked = (case wanted of Some k \<Rightarrow> if client_is_on_locked_monitor env s k then None else Some k | None \<Rightarrow> None)
      in case unlocked of
           Some k \<Rightarrow> if is_application_focus_eligible s k \<and> is_client_visible_by_key s k then Some k else find_visible_client env s
         | None \<Rightarrow> find_visible_client env s)"

definition focus :: "focus_env \<Rightarrow> client_key option \<Rightarrow> unit focus_op" where
  "focus env wanted f =
     (let target = focus_target env (fc_state f) wanted
      in and_do (handle_focus_change_by_key env target) (\<lambda>_.
           and_do (case target of Some k \<Rightarrow> set_client_focus_by_key env k | None \<Rightarrow> set_root_focus env) (\<lambda>_ f1.
             let f2 = update_monitor_selection_by_key target f1
             in (Inr (), case target of Some k \<Rightarrow> remember_scrolling_focus_for_client k f2 | None \<Rightarrow> f2))) f)"

definition focus_none :: "focus_env \<Rightarrow> unit focus_op" where
  "focus_none env f =
     and_do (case get_selected_client_key (fc_state f) of Some k \<Rightarrow> unfocus_client env k True | None \<Rightarrow> Pair (Inr ())) (\<lambda>_.
       and_do (set_root_focus env) (\<lambda>_ f1. (Inr (), update_monitor_selection_by_key None f1))) f"

definition refocus :: "focus_env \<Rightarrow> unit focus_op" where
  "refocus env f = (case get_selected_client_key (fc_state f) of
     None \<Rightarrow> (Inr (), f)
   | Some k \<Rightarrow> and_do (unfocus_client env k True) (\<lambda>_. and_do (set_root_focus env) (\<lambda>_ f1.
       focus env (Some k) (update_monitor_selection_by_key None f1))) f)"

definition focusin :: "focus_env \<Rightarrow> window_id \<Rightarrow> unit focus_op" where
  "focusin env w f = (case get_selected_client_key (fc_state f) of
     None \<Rightarrow> (Inr (), f)
   | Some k \<Rightarrow> if \<not> is_application_focus_eligible (fc_state f) k then focus env None f
       else (case slot_get (st_clients (fc_state f)) k of None \<Rightarrow> (Inr (), f)
         | Some c \<Rightarrow> if w \<noteq> c_win c \<and> win_to_client (fc_state f) w \<noteq> None then setfocus env k f else (Inr (), f)))"

section \<open>Monitors\<close>

definition dirtomon :: "focus_env \<Rightarrow> int \<Rightarrow> wm_state \<Rightarrow> monitor_key option" where
  "dirtomon env dir s = (case sel_mon s of None \<Rightarrow> None
     | Some m \<Rightarrow>
         let n = length (monitor_order s)
         in if n = 0 then None
            else case position (\<lambda>x. x = m) (monitor_order s) of None \<Rightarrow> None
              | Some i \<Rightarrow> List.find (\<lambda>key. \<not> monitor_key_is_locked env s key)
                  (map (\<lambda>step. monitor_order s ! (if dir > 0 then (i + step) mod n else (i + n * 2 - step) mod n)) [1..<n + 1]))"

definition switch_monitor_focusing :: "focus_env \<Rightarrow> monitor_key option \<Rightarrow> client_key option \<Rightarrow> unit focus_op" where
  "switch_monitor_focusing env m target f =
     (if (case m of None \<Rightarrow> False | Some key \<Rightarrow> monitor_key_is_locked env (fc_state f) key) then (Inr (), f)
      else and_do (case get_selected_client_key (fc_state f) of Some k \<Rightarrow> unfocus_client env k True | None \<Rightarrow> Pair (Inr ())) (\<lambda>_ f1.
             focus env target (set_fc_state ((fc_state f1)\<lparr>sel_mon := m\<rparr>) f1)) f)"

definition focusmon :: "focus_env \<Rightarrow> wm_arg \<Rightarrow> unit focus_op" where
  "focusmon env arg f =
     (if length (monitor_order (fc_state f)) \<le> 1 then (Inr (), f)
      else case arg of
        Arg_Int i \<Rightarrow> (case dirtomon env i (fc_state f) of None \<Rightarrow> (Inr (), f)
          | Some m \<Rightarrow> if Some m = sel_mon (fc_state f) then (Inr (), f) else switch_monitor_focusing env (Some m) None f)
      | _ \<Rightarrow> (Inr (), f))"

section \<open>What focus leaves alone\<close>

text \<open>
  Focus touches of a window its two attention flags only, and of a monitor its selections only. An
  operation is steady when it keeps the lists and the layout context well formed and the windows
  and monitors the same up to these, whether or not the backend lets it finish.
\<close>

definition calm :: "wm_client \<Rightarrow> wm_client" where
  "calm c = c\<lparr>c_state := (c_state c)\<lparr>is_urgent := False, demands_attention := False\<rparr>\<rparr>"

definition unselected :: "wm_monitor \<Rightarrow> wm_monitor" where
  "unselected mon = mon\<lparr>mon_sel := None, mon_pertag := map_option (pt_sel_update (\<lambda>_. [])) (mon_pertag mon)\<rparr>"

definition same_windows :: "wm_state \<Rightarrow> wm_state \<Rightarrow> bool" where
  "same_windows s s' \<longleftrightarrow> monitor_clients s' = monitor_clients s \<and> monitor_order s' = monitor_order s \<and>
     (\<forall>k. map_option calm (slot_get (st_clients s') k) = map_option calm (slot_get (st_clients s) k)) \<and>
     (\<forall>m. map_option unselected (slot_get (st_monitors s') m) = map_option unselected (slot_get (st_monitors s) m))"

definition cx_live :: "layout_ctx \<Rightarrow> bool" where
  "cx_live cx \<longleftrightarrow> (\<forall>key st. cx_strips cx key = Some st \<longrightarrow> wf_scrolling st) \<and> (\<forall>m mon. monitor_of cx m = Some mon \<longrightarrow> live_monitor mon)"

definition focus_ok :: "focusing \<Rightarrow> bool" where
  "focus_ok f \<longleftrightarrow> wf_lists (fc_state f) \<and> cx_live (fc_cx f)"

definition steady :: "'a focus_op \<Rightarrow> bool" where
  "steady p \<longleftrightarrow> (\<forall>f. focus_ok f \<longrightarrow> focus_ok (snd (p f)) \<and> same_windows (fc_state f) (fc_state (snd (p f))))"

named_theorems steady_intros

lemma same_windows_refl: "same_windows s s"
  by (simp add: same_windows_def)

lemma same_windows_trans: "same_windows a b \<Longrightarrow> same_windows b c \<Longrightarrow> same_windows a c"
  by (simp add: same_windows_def)

lemma steady_and_then [steady_intros]: "steady p \<Longrightarrow> (\<And>x. steady (q x)) \<Longrightarrow> steady (and_do p q)"
  unfolding steady_def and_do_def
  by (auto split: prod.splits sum.splits) (metis snd_conv same_windows_trans)+

lemma steady_pure: "(\<And>f. focus_ok f \<Longrightarrow> focus_ok (g f) \<and> same_windows (fc_state f) (fc_state (g f))) \<Longrightarrow> steady (\<lambda>f. (r f, g f))"
  by (simp add: steady_def)

lemma steady_same_state: "(\<And>f. fc_cx (snd (p f)) = fc_cx f) \<Longrightarrow> steady p"
  by (simp add: steady_def focus_ok_def same_windows_refl)

lemma steady_if: "(\<And>f. b f \<Longrightarrow> steady p) \<Longrightarrow> (\<And>f. \<not> b f \<Longrightarrow> steady q) \<Longrightarrow> steady (\<lambda>f. if b f then p f else q f)"
  by (auto simp: steady_def)

lemma steady_Pair [steady_intros]: "steady (Pair r)"
  by (rule steady_same_state) simp

lemma steady_accepted [steady_intros]: "steady (accepted ok)"
  by (rule steady_same_state) (simp add: accepted_def)

lemma steady_decoration [steady_intros]: "steady (update_client_decoration env k b)"
  by (rule steady_same_state) (simp add: update_client_decoration_def accepted_def split: option.split)

lemma steady_shortcut [steady_intros]: "steady (sync_shortcut_passthrough_focus env k)"
  by (rule steady_same_state) (simp add: sync_shortcut_passthrough_focus_def accepted_def)

lemma steady_told [steady_intros]: "steady (on_focused_client_changed env w)"
  by (rule steady_same_state) (simp add: on_focused_client_changed_def)

lemma steady_case_option:
  "(\<And>f. steady p) \<Longrightarrow> (\<And>x. steady (q x)) \<Longrightarrow> steady (\<lambda>f. case g f of None \<Rightarrow> p f | Some x \<Rightarrow> q x f)"
  by (auto simp: steady_def split: option.split)

lemma steady_setfocus [steady_intros]: "steady (setfocus env k)"
proof -
  have "setfocus env k = (\<lambda>f. case slot_get (st_clients (fc_state f)) k of None \<Rightarrow> Pair (Inr ()) f
     | Some c \<Rightarrow> and_do (sync_shortcut_passthrough_focus env (Some k)) (\<lambda>_. on_focused_client_changed env (Some (c_win c))) f)"
    by (rule ext) (simp add: setfocus_def)
  then show ?thesis by (simp add: steady_case_option steady_intros)
qed

lemma steady_root [steady_intros]: "steady (set_root_focus env)"
  by (simp add: set_root_focus_def steady_intros)

lemma steady_unfocus [steady_intros]: "steady (unfocus_client env k b)"
proof -
  have "unfocus_client env k b = (\<lambda>f. case slot_get (st_clients (fc_state f)) k of None \<Rightarrow> Pair (Inr ()) f
     | Some c \<Rightarrow> and_do (update_client_decoration env k False) (\<lambda>_.
         if b then and_do (sync_shortcut_passthrough_focus env None) (\<lambda>_. on_focused_client_changed env None)
         else Pair (Inr ())) f)"
    by (rule ext) (simp add: unfocus_client_def)
  then show ?thesis by (cases b) (simp_all add: steady_case_option steady_intros)
qed

lemma steady_unfocus_selected [steady_intros]:
  "steady (case k of Some x \<Rightarrow> unfocus_client env x b | None \<Rightarrow> Pair (Inr ()))"
  by (cases k) (simp_all add: steady_intros)

lemma steady_change [steady_intros]: "steady (handle_focus_change_by_key env k)"
proof -
  have "handle_focus_change_by_key env k = (\<lambda>f. case get_selected_client_key (fc_state f) of None \<Rightarrow> Pair (Inr ()) f
     | Some x \<Rightarrow> (if Some x \<noteq> k then unfocus_client env x False else Pair (Inr ())) f)"
    by (rule ext) (auto simp: handle_focus_change_by_key_def split: option.split)
  then show ?thesis by (simp only:) (rule steady_case_option, simp_all add: steady_intros)
qed

text \<open>The changes of state inside \<open>focus\<close>.\<close>

lemma calm_fields:
  assumes "calm a = calm b"
  shows "is_floating (c_state a) = is_floating (c_state b) \<and> c_mon a = c_mon b \<and> c_win a = c_win b \<and> is_dock (c_state a) = is_dock (c_state b) \<and>
    is_desktop (c_state a) = is_desktop (c_state b) \<and> is_swallowed (c_state a) = is_swallowed (c_state b) \<and> is_hidden (c_state a) = is_hidden (c_state b) \<and>
    is_sticky (c_state a) = is_sticky (c_state b) \<and> cs_tags (c_state a) = cs_tags (c_state b)"
proof -
  have e: "c_state (calm a) = c_state (calm b)" "c_mon (calm a) = c_mon (calm b)" "c_win (calm a) = c_win (calm b)" using assms by simp_all
  have "is_floating (c_state (calm a)) = is_floating (c_state (calm b)) \<and> is_dock (c_state (calm a)) = is_dock (c_state (calm b)) \<and>
    is_desktop (c_state (calm a)) = is_desktop (c_state (calm b)) \<and> is_swallowed (c_state (calm a)) = is_swallowed (c_state (calm b)) \<and>
    is_hidden (c_state (calm a)) = is_hidden (c_state (calm b)) \<and> is_sticky (c_state (calm a)) = is_sticky (c_state (calm b)) \<and>
    cs_tags (c_state (calm a)) = cs_tags (c_state (calm b))" by (simp only: e)
  with e(2,3) show ?thesis by (simp add: calm_def)
qed

lemma calm_client:
  assumes "map_option calm (slot_get (st_clients s') k) = map_option calm (slot_get (st_clients s) k)"
  shows "is_client_floating s' k = is_client_floating s k" "client_mon s' k = client_mon s k"
    "is_application_focus_eligible s' k = is_application_focus_eligible s k"
    "st_monitors s' = st_monitors s \<Longrightarrow> is_client_visible_by_key s' k = is_client_visible_by_key s k"
proof -
  consider "slot_get (st_clients s') k = None" "slot_get (st_clients s) k = None"
    | c c' where "slot_get (st_clients s') k = Some c'" "slot_get (st_clients s) k = Some c" "calm c' = calm c"
    using assms by (cases "slot_get (st_clients s') k"; cases "slot_get (st_clients s) k") auto
  note cs = this
  show "is_client_floating s' k = is_client_floating s k" by (rule cs) (auto simp: is_client_floating_def dest!: calm_fields)
  show "client_mon s' k = client_mon s k" by (rule cs) (auto simp: client_mon_def dest!: calm_fields)
  show "is_application_focus_eligible s' k = is_application_focus_eligible s k"
    by (rule cs) (auto simp: is_application_focus_eligible_def dest!: calm_fields)
  show "is_client_visible_by_key s' k = is_client_visible_by_key s k" if "st_monitors s' = st_monitors s"
    by (rule cs) (auto simp: is_client_visible_by_key_def that dest!: calm_fields split: option.split)
qed

lemma wf_lists_same_lists:
  assumes "wf_lists s" "monitor_clients s' = monitor_clients s" "monitor_stack s' = monitor_stack s"
    "\<And>k. map_option calm (slot_get (st_clients s') k) = map_option calm (slot_get (st_clients s) k)"
  shows "wf_lists s'"
proof -
  have "is_client_floating s' = is_client_floating s" "client_mon s' = client_mon s"
    using calm_client(1,2) [OF assms(4)] by blast+
  then show ?thesis using assms(1-3) by (simp add: wf_lists_def group_ok_def)
qed

lemma clear_attention_calm:
  "map_option calm (slot_get (st_clients (clear_attention env k s)) x) = map_option calm (slot_get (st_clients s) x)"
  "monitor_clients (clear_attention env k s) = monitor_clients s" "monitor_stack (clear_attention env k s) = monitor_stack s"
  "st_monitors (clear_attention env k s) = st_monitors s" "sel_mon (clear_attention env k s) = sel_mon s"
  "monitor_order (clear_attention env k s) = monitor_order s"
  by (auto simp: clear_attention_def Let_def seturgent_off_def drop_demands_attention_def client_flag_def slot_get_client_state_update
      calm_def client_state_update_def slot_simps split: option.splits)

lemma unselected_sel:
  "unselected (mon\<lparr>mon_sel := k\<rparr>) = unselected mon"
  "unselected (set_selected_client_for_current_tag k mon) = unselected mon"
  by (simp_all add: unselected_def set_selected_client_for_current_tag_def Let_def split: option.splits)

lemma stack_moves:
  "monitor_clients (attachstack k s) = monitor_clients s" "st_clients (attachstack k s) = st_clients s"
  "st_monitors (attachstack k s) = st_monitors s" "sel_mon (attachstack k s) = sel_mon s" "monitor_order (attachstack k s) = monitor_order s"
  "monitor_clients (detachstack k s) = monitor_clients s" "st_clients (detachstack k s) = st_clients s"
  "sel_mon (detachstack k s) = sel_mon s" "monitor_order (detachstack k s) = monitor_order s"
  by (auto simp: attachstack_def detachstack_def set_stack_def Let_def split: option.splits)

lemma detachstack_monitors:
  "map_option unselected (slot_get (st_monitors (detachstack k s)) m) = map_option unselected (slot_get (st_monitors s) m)"
proof (cases "client_mon s k")
  case (Some m')
  obtain t v where t: "st_monitors t = st_monitors s" "detachstack k s =
      t\<lparr>st_monitors := slot_update m' (\<lambda>mon. if mon_sel mon = Some k then mon\<lparr>mon_sel := v\<rparr> else mon) (st_monitors t)\<rparr>"
  proof (cases "monitor_stack s m'")
    case None
    with Some show ?thesis by (intro that [of s "find_next_visible_client_by_mon s m'"]) (simp_all add: detachstack_def Let_def)
  next
    case (Some l)
    with \<open>client_mon s k = Some m'\<close> show ?thesis
      by (intro that [of "set_stack m' (remove_first k l) s" "find_next_visible_client_by_mon (set_stack m' (remove_first k l) s) m'"])
        (simp add: set_stack_def, simp add: detachstack_def Let_def)
  qed
  have "unselected (if mon_sel mon = Some k then mon\<lparr>mon_sel := v\<rparr> else mon) = unselected mon" for mon by (simp add: unselected_sel(1))
  then show ?thesis by (simp add: t slot_simps option.map_comp comp_def)
qed (simp add: detachstack_def)

lemma detachstack_gone: "wf_lists s \<Longrightarrow> \<not> stacked (detachstack k s) k"
  by (auto simp: stacked_def detachstack_def Let_def wf_lists_def set_remove_first split: option.splits if_splits)

definition front_stack :: "client_key \<Rightarrow> wm_state \<Rightarrow> wm_state" where
  "front_stack k s = attachstack k (detachstack k s)"

lemma front_stack_wf: "wf_lists s \<Longrightarrow> wf_lists (front_stack k s)"
  by (simp add: front_stack_def attachstack_wf detachstack_wf detachstack_gone)

lemma front_stack_same: "same_windows s (front_stack k s)"
  by (simp add: same_windows_def front_stack_def stack_moves detachstack_monitors)

lemma active_mon_sel: "get_active_tags (mon\<lparr>mon_sel := k\<rparr>) = get_active_tags mon"
  by (simp add: get_active_tags_def tag_at_def)

lemma monitor_sel_live: "live_monitor mon \<Longrightarrow> live_monitor (mon\<lparr>mon_sel := k\<rparr>)"
  by (simp add: live_monitor_def wf_monitor_def mirrors_slot_def has_pertag_def active_mon_sel split: option.splits)

lemma select_live: "live_monitor mon \<Longrightarrow> live_monitor (set_selected_client_for_current_tag k mon)"
  using monitor_exec_live [of mon "Select k"] by simp

lemma front_stack_ctx:
  assumes "cx_live cx"
  shows "cx_live (cx\<lparr>cx_state := front_stack k (cx_state cx)\<rparr>)"
  using assms
  by (auto simp: cx_live_def front_stack_def stack_moves detachstack_def Let_def set_stack_def slot_simps monitor_sel_live
      split: option.splits if_splits)

lemma cx_live_monitors:
  assumes "cx_live cx" "st_monitors s = st_monitors (cx_state cx)"
  shows "cx_live (cx\<lparr>cx_state := s\<rparr>)"
  using assms by (simp add: cx_live_def)

lemma focus_ok_state:
  assumes "focus_ok f" "wf_lists s" "cx_live ((fc_cx f)\<lparr>cx_state := s\<rparr>)"
  shows "focus_ok (set_fc_state s f)"
  using assms by (simp add: focus_ok_def set_fc_state_def)

lemma steady_set_client_focus [steady_intros]: "steady (set_client_focus_by_key env k)"
proof -
  define s2 where "s2 c f = clear_attention env k (case c_mon c of None \<Rightarrow> fc_state f | Some m \<Rightarrow> (fc_state f)\<lparr>sel_mon := Some m\<rparr>)"
    for c :: wm_client and f :: focusing
  have eq: "set_client_focus_by_key env k = (\<lambda>f. case slot_get (st_clients (fc_state f)) k of None \<Rightarrow> Pair (Inl ''Client not found'') f
     | Some c \<Rightarrow> and_do (\<lambda>f. (Inr (), set_fc_state (front_stack k (s2 c f)) f))
         (\<lambda>_. and_do (update_client_decoration env k True) (\<lambda>_. setfocus env k)) f)"
    by (rule ext) (simp add: set_client_focus_by_key_def s2_def front_stack_def Let_def and_do_def split: option.split)
  have "focus_ok (set_fc_state (front_stack k (s2 c f)) f) \<and> same_windows (fc_state f) (fc_state (set_fc_state (front_stack k (s2 c f)) f))"
    if ok: "focus_ok f" for c f
  proof -
    have "wf_lists (fc_state f)" using ok by (simp add: focus_ok_def)
    then have w: "wf_lists (s2 c f)"
      by (rule wf_lists_same_lists) (simp_all add: s2_def clear_attention_calm split: option.split)
    have m: "st_monitors (s2 c f) = st_monitors (fc_state f)" by (simp add: s2_def clear_attention_calm split: option.split)
    have "cx_live ((fc_cx f)\<lparr>cx_state := s2 c f\<rparr>)" using ok m by (intro cx_live_monitors) (simp_all add: focus_ok_def)
    from front_stack_ctx [OF this, of k] have "cx_live ((fc_cx f)\<lparr>cx_state := front_stack k (s2 c f)\<rparr>)" by simp
    moreover have "same_windows (fc_state f) (s2 c f)"
      by (simp add: same_windows_def s2_def clear_attention_calm split: option.split)
    ultimately show ?thesis using ok front_stack_wf [OF w] front_stack_same [of "s2 c f" k]
      by (auto simp: focus_ok_def set_fc_state_def intro: same_windows_trans)
  qed
  then have "steady (\<lambda>f. (Inr (), set_fc_state (front_stack k (s2 c f)) f))" for c by (rule steady_pure)
  then have "steady (and_do (\<lambda>f. (Inr (), set_fc_state (front_stack k (s2 c f)) f))
      (\<lambda>_. and_do (update_client_decoration env k True) (\<lambda>_. setfocus env k)))" for c
    by (intro steady_and_then steady_decoration steady_setfocus)
  then show ?thesis unfolding eq by (rule steady_case_option [OF steady_Pair])
qed

lemma steady_select:
  assumes "focus_ok f"
  shows "focus_ok (update_monitor_selection_by_key k f) \<and> same_windows (fc_state f) (fc_state (update_monitor_selection_by_key k f))"
proof (cases "sel_mon (fc_state f)")
  case (Some m)
  have "cx_live (update_monitor m (set_selected_client_for_current_tag k) (fc_cx f))"
    using assms select_live by (auto simp: focus_ok_def cx_live_def update_monitor_def slot_simps)
  moreover have "same_windows (fc_state f) (cx_state (update_monitor m (set_selected_client_for_current_tag k) (fc_cx f)))"
    by (simp add: same_windows_def update_monitor_def slot_simps option.map_comp comp_def unselected_sel(2))
  ultimately show ?thesis using assms Some
    by (simp add: focus_ok_def update_monitor_selection_by_key_def update_monitor_def wf_lists_monitors)
qed (use assms in \<open>simp add: update_monitor_selection_by_key_def same_windows_refl\<close>)

lemma steady_remember:
  assumes "focus_ok f"
  shows "focus_ok (remember_scrolling_focus_for_client k f) \<and> fc_state (remember_scrolling_focus_for_client k f) = fc_state f"
proof -
  have "cx_live (put_strip m (remember_focus k st) (fc_cx f))" if "scrolling_state_for_monitor m (fc_cx f) = Some st" for m st
    using assms that remember_focus_wf
    by (auto simp: focus_ok_def cx_live_def put_strip_def scrolling_state_for_monitor_def split: option.splits bind_splits)
  then show ?thesis using assms
    by (auto simp: remember_scrolling_focus_for_client_def focus_ok_def split: option.splits)
qed

lemma steady_focus [steady_intros]: "steady (focus env k)"
proof -
  have 1: "steady (case t of Some k \<Rightarrow> set_client_focus_by_key env k | None \<Rightarrow> set_root_focus env)" for t
    by (cases t) (simp_all add: steady_intros)
  have 2: "steady (\<lambda>f1. let f2 = update_monitor_selection_by_key t f1
       in (Inr (), case t of Some k \<Rightarrow> remember_scrolling_focus_for_client k f2 | None \<Rightarrow> f2))" for t
    unfolding Let_def by (rule steady_pure) (use steady_select steady_remember in \<open>auto split: option.split\<close>)
  have "steady (and_do (handle_focus_change_by_key env t) (\<lambda>_.
           and_do (case t of Some k \<Rightarrow> set_client_focus_by_key env k | None \<Rightarrow> set_root_focus env) (\<lambda>_ f1.
             let f2 = update_monitor_selection_by_key t f1
             in (Inr (), case t of Some k \<Rightarrow> remember_scrolling_focus_for_client k f2 | None \<Rightarrow> f2))))" for t
    by (intro steady_and_then steady_change 1 2)
  then show ?thesis by (simp add: steady_def focus_def Let_def)
qed

section \<open>Where focus lands\<close>

lemma and_do_Inr: "and_do p q f = (Inr x, f') \<longleftrightarrow> (\<exists>y f1. p f = (Inr y, f1) \<and> q y f1 = (Inr x, f'))"
  by (auto simp: and_do_def split: prod.splits sum.splits)

lemma quiet_ops:
  "sync_shortcut_passthrough_focus env k f = (r, f') \<Longrightarrow> fc_cx f' = fc_cx f"
  "update_client_decoration env x b f = (r, f') \<Longrightarrow> fc_cx f' = fc_cx f"
  "on_focused_client_changed env w f = (r, f') \<Longrightarrow> fc_cx f' = fc_cx f"
  "unfocus_client env x b f = (r, f') \<Longrightarrow> fc_cx f' = fc_cx f"
  "handle_focus_change_by_key env k f = (r, f') \<Longrightarrow> fc_cx f' = fc_cx f"
proof -
  show a: "sync_shortcut_passthrough_focus env k f = (r, f') \<Longrightarrow> fc_cx f' = fc_cx f" for k f r f'
    by (auto simp: sync_shortcut_passthrough_focus_def accepted_def split: if_splits)
  show b: "update_client_decoration env x b f = (r, f') \<Longrightarrow> fc_cx f' = fc_cx f" for x b f r f'
    by (auto simp: update_client_decoration_def accepted_def split: option.splits)
  show c: "on_focused_client_changed env w f = (r, f') \<Longrightarrow> fc_cx f' = fc_cx f" for w f r f'
    by (auto simp: on_focused_client_changed_def split: if_splits)
  show d: "unfocus_client env x b f = (r, f') \<Longrightarrow> fc_cx f' = fc_cx f" for x b f r f'
    by (auto simp: unfocus_client_def and_do_def dest!: a b c split: option.splits prod.splits sum.splits if_splits)
  show "handle_focus_change_by_key env k f = (r, f') \<Longrightarrow> fc_cx f' = fc_cx f"
    by (auto simp: handle_focus_change_by_key_def dest: d split: option.splits if_splits)
qed

lemma setfocus_done:
  assumes "setfocus env k f = (Inr (), f')" "slot_get (st_clients (fc_state f)) k = Some c"
  shows "fc_cx f' = fc_cx f \<and> focused_told f' = Some (c_win c)"
  using assms by (auto simp: setfocus_def and_do_Inr on_focused_client_changed_def dest!: quiet_ops(1) split: if_splits)

lemma root_focus_done:
  assumes "set_root_focus env f = (Inr (), f')"
  shows "fc_cx f' = fc_cx f \<and> focused_told f' = None"
  using assms by (auto simp: set_root_focus_def and_do_Inr on_focused_client_changed_def accepted_def dest!: quiet_ops(1) split: if_splits)

lemma focus_target_ok:
  assumes "wf_lists s" "focus_target env s wanted = Some k"
  shows "\<exists>c m mon. slot_get (st_clients s) k = Some c \<and> c_mon c = Some m \<and> slot_get (st_monitors s) m = Some mon \<and>
    is_application_focus_eligible s k \<and> is_client_visible_by_key s k \<and> \<not> monitor_key_is_locked env s m \<and>
    (wanted = Some k \<or> sel_mon s = Some m)"
proof -
  have vis: "\<exists>c m mon. slot_get (st_clients s) k = Some c \<and> c_mon c = Some m \<and> slot_get (st_monitors s) m = Some mon"
    if "is_client_visible_by_key s k" using that by (auto simp: is_client_visible_by_key_def split: option.splits if_splits)
  have found: ?thesis if a: "find_visible_client env s = Some k"
  proof -
    from a obtain m stack where m: "sel_mon s = Some m" "\<not> monitor_key_is_locked env s m" "monitor_stack s m = Some stack" "k \<in> set stack"
      "is_application_focus_eligible s k" "is_client_visible_by_key s k"
      by (auto simp: find_visible_client_def find_Some_iff in_set_conv_nth split: option.splits if_splits)
    moreover from m(3,4) assms(1) have "client_mon s k = Some m" by (auto simp: wf_lists_def)
    ultimately show ?thesis using vis by (auto simp: client_mon_def)
  qed
  show ?thesis
  proof (cases "find_visible_client env s = Some k")
    case False
    then have "wanted = Some k" "\<not> client_is_on_locked_monitor env s k" "is_application_focus_eligible s k" "is_client_visible_by_key s k"
      using assms(2) by (auto simp: focus_target_def Let_def split: option.splits if_splits)
    then show ?thesis using vis by (auto simp: client_is_on_locked_monitor_def client_mon_def monitor_key_is_locked_def)
  qed (rule found)
qed

lemma front_stack_first:
  assumes "wf_lists s" "client_mon s k = Some m" "monitor_stack s m = Some l"
  shows "monitor_stack (front_stack k s) = (monitor_stack s)(m \<mapsto> k # remove_first k l)"
  using assms by (simp add: front_stack_def attachstack_def detachstack_def Let_def vec_insert_def)

lemma selected_after_update:
  assumes "sel_mon (fc_state f) = Some m" "slot_get (st_monitors (fc_state f)) m = Some mon"
  shows "get_selected_client_key (fc_state (update_monitor_selection_by_key k f)) = k"
    "sel_mon (fc_state (update_monitor_selection_by_key k f)) = Some m"
    "monitor_stack (fc_state (update_monitor_selection_by_key k f)) = monitor_stack (fc_state f)"
    "focused_told (update_monitor_selection_by_key k f) = focused_told f"
  using assms by (simp_all add: update_monitor_selection_by_key_def update_monitor_def get_selected_client_key_def slot_simps
      set_selected_client_for_current_tag_def Let_def split: option.split)

lemma remember_frame:
  "fc_state (remember_scrolling_focus_for_client k f) = fc_state f" "focused_told (remember_scrolling_focus_for_client k f) = focused_told f"
  by (auto simp: remember_scrolling_focus_for_client_def split: option.splits)

lemma set_client_focus_done:
  assumes "set_client_focus_by_key env k f = (Inr (), f')" "wf_lists (fc_state f)" "slot_get (st_clients (fc_state f)) k = Some c" "c_mon c = Some m"
  shows "sel_mon (fc_state f') = Some m \<and> focused_told f' = Some (c_win c) \<and> fc_cx f' = (fc_cx f)\<lparr>cx_state := fc_state f'\<rparr> \<and>
    (\<forall>l. monitor_stack (fc_state f) m = Some l \<longrightarrow> monitor_stack (fc_state f') = (monitor_stack (fc_state f))(m \<mapsto> k # remove_first k l))"
proof -
  define s2 where "s2 = clear_attention env k ((fc_state f)\<lparr>sel_mon := Some m\<rparr>)"
  define s3 where "s3 = front_stack k s2"
  have c2: "map_option calm (slot_get (st_clients s2) x) = map_option calm (slot_get (st_clients (fc_state f)) x)" for x
    by (simp add: s2_def clear_attention_calm)
  have w2: "wf_lists s2" by (rule wf_lists_same_lists [OF assms(2)]) (simp_all add: s2_def clear_attention_calm)
  have m2: "client_mon s2 k = Some m" using calm_client(2) [OF c2] assms(3,4) by (simp add: client_mon_def)
  obtain f1 where f1: "update_client_decoration env k True (set_fc_state s3 f) = (Inr (), f1)" "setfocus env k f1 = (Inr (), f')"
    using assms(1,3,4) by (auto simp: set_client_focus_by_key_def s3_def s2_def front_stack_def and_do_Inr Let_def)
  have e: "fc_cx f1 = fc_cx (set_fc_state s3 f)" using quiet_ops(2) [OF f1(1)] .
  have "st_clients s3 = st_clients s2" by (simp add: s3_def front_stack_def stack_moves)
  with c2 [of k] assms(3) obtain c' where c': "slot_get (st_clients s3) k = Some c'" "calm c' = calm c" by (auto simp: map_option_eq_Some)
  then have "c_win c' = c_win c" by (auto dest!: calm_fields)
  moreover have "slot_get (st_clients (fc_state f1)) k = Some c'" by (simp add: e set_fc_state_def c')
  ultimately have s: "fc_cx f' = fc_cx f1" "focused_told f' = Some (c_win c)" using setfocus_done [OF f1(2)] by auto
  have st: "fc_state f' = s3" by (simp add: s e set_fc_state_def)
  have "sel_mon s3 = Some m" by (simp add: s3_def s2_def front_stack_def stack_moves clear_attention_calm)
  moreover have "monitor_stack s3 = (monitor_stack s2)(m \<mapsto> k # remove_first k l)" if "monitor_stack (fc_state f) m = Some l" for l
    unfolding s3_def using that front_stack_first [OF w2 m2, of l] by (simp add: s2_def clear_attention_calm)
  moreover have "monitor_stack s2 = monitor_stack (fc_state f)" by (simp add: s2_def clear_attention_calm)
  ultimately show ?thesis using s(2) by (simp add: st) (simp add: s(1) e set_fc_state_def)
qed

lemma focus_lands:
  assumes "focus_ok f" "focus env wanted f = (Inr (), f')"
  shows "case focus_target env (fc_state f) wanted of
      None \<Rightarrow> find_visible_client env (fc_state f) = None \<and> get_selected_client_key (fc_state f') = None \<and> focused_told f' = None \<and>
        monitor_stack (fc_state f') = monitor_stack (fc_state f)
    | Some k \<Rightarrow> (\<exists>c m. slot_get (st_clients (fc_state f)) k = Some c \<and> c_mon c = Some m \<and> \<not> monitor_key_is_locked env (fc_state f) m \<and>
        is_application_focus_eligible (fc_state f) k \<and> is_client_visible_by_key (fc_state f) k \<and>
        sel_mon (fc_state f') = Some m \<and> get_selected_client_key (fc_state f') = Some k \<and> focused_told f' = Some (c_win c) \<and>
        (\<forall>l. monitor_stack (fc_state f) m = Some l \<longrightarrow>
           monitor_stack (fc_state f') = (monitor_stack (fc_state f))(m \<mapsto> k # remove_first k l)))"
proof -
  let ?t = "focus_target env (fc_state f) wanted"
  obtain f1 f2 where f: "handle_focus_change_by_key env ?t f = (Inr (), f1)"
      "(case ?t of Some k \<Rightarrow> set_client_focus_by_key env k | None \<Rightarrow> set_root_focus env) f1 = (Inr (), f2)"
      "f' = (let f3 = update_monitor_selection_by_key ?t f2 in case ?t of Some k \<Rightarrow> remember_scrolling_focus_for_client k f3 | None \<Rightarrow> f3)"
    using assms(2) unfolding focus_def Let_def by (auto simp: and_do_Inr)
  have e1: "fc_cx f1 = fc_cx f" using quiet_ops(5) [OF f(1)] .
  have w: "wf_lists (fc_state f)" using assms(1) by (simp add: focus_ok_def)
  show ?thesis
  proof (cases ?t)
    case None
    then have r: "fc_cx f2 = fc_cx f" "focused_told f2 = None" using f(2) root_focus_done [of env f1 f2] e1 by simp_all
    have "find_visible_client env (fc_state f) = None" using None
      by (auto simp: focus_target_def Let_def split: option.splits if_splits)
    moreover have "get_selected_client_key (fc_state f') = None" "focused_told f' = None" "monitor_stack (fc_state f') = monitor_stack (fc_state f)"
      using f(3) None r by (auto simp: update_monitor_selection_by_key_def get_selected_client_key_def update_monitor_def slot_simps
          set_selected_client_for_current_tag_def Let_def split: option.splits)
    ultimately show ?thesis using None by simp
  next
    case (Some k)
    obtain c m mon where t: "slot_get (st_clients (fc_state f)) k = Some c" "c_mon c = Some m" "slot_get (st_monitors (fc_state f)) m = Some mon"
      "is_application_focus_eligible (fc_state f) k" "is_client_visible_by_key (fc_state f) k" "\<not> monitor_key_is_locked env (fc_state f) m"
      using focus_target_ok [OF w Some] by blast
    from f(2) Some have "set_client_focus_by_key env k f1 = (Inr (), f2)" by simp
    note d = set_client_focus_done [OF this, unfolded e1, OF w t(1,2)]
    have "steady (set_client_focus_by_key env k)" by (rule steady_set_client_focus)
    moreover have "focus_ok f1" using assms(1) e1 by (simp add: focus_ok_def)
    ultimately have "same_windows (fc_state f) (fc_state f2)" using f(2) Some e1 unfolding steady_def by (metis option.simps(5) snd_conv)
    then obtain mon2 where m2: "slot_get (st_monitors (fc_state f2)) m = Some mon2" using t(3)
      by (metis (no_types, lifting) same_windows_def option.map_disc_iff option.exhaust option.distinct(1))
    note u = selected_after_update [OF conjunct1 [OF d] m2, of "Some k"]
    have "f' = remember_scrolling_focus_for_client k (update_monitor_selection_by_key (Some k) f2)" using f(3) Some by simp
    with u d t Some show ?thesis by (simp add: remember_frame)
  qed
qed


definition willing :: focus_env where
  "willing = \<lparr>locked_monitors = {}, decorates = (\<lambda>_ _. True), grabs_keys = True, takes_focus = (\<lambda>_. True), takes_root = True,
     hints_urgent = (\<lambda>_. False)\<rparr>"

definition two_windows :: focusing where
  "two_windows = \<lparr>fc_cx = \<lparr>cx_state = shown_state\<lparr>st_monitors := [(1, sample_monitor\<lparr>mon_sel := Some 1\<rparr>)], sel_mon := Some 1\<rparr>,
     cx_strips = (\<lambda>_. None), layout_persist_dirty = None, cx_persist_tags = False, cx_now = 0\<rparr>,
     shortcut_passthrough_owner = None, focused_told = Some 11, fc_calls = []\<rparr>"

lemma sel_mon_frame: "wf_lists (s\<lparr>sel_mon := m\<rparr>) = wf_lists s"
proof -
  have "is_client_floating (s\<lparr>sel_mon := m\<rparr>) = is_client_floating s" "client_mon (s\<lparr>sel_mon := m\<rparr>) = client_mon s"
    by (simp_all add: is_client_floating_def client_mon_def fun_eq_iff)
  then show ?thesis by (simp add: wf_lists_def group_ok_def)
qed

lemma two_windows_ok: "focus_ok two_windows"
  using shown_state_wf monitor_sel_live [OF sample_monitor_live]
  by (auto simp: focus_ok_def cx_live_def two_windows_def wf_lists_monitors sel_mon_frame slot_get_def split: if_splits)


section \<open>The other focus operations\<close>

lemma steady_at: "steady p \<Longrightarrow> focus_ok f \<Longrightarrow> focus_ok (snd (p f)) \<and> same_windows (fc_state f) (fc_state (snd (p f)))"
  by (simp add: steady_def)

lemma steady_pointwise: "(\<And>f. \<exists>q. steady q \<and> p f = q f) \<Longrightarrow> steady p"
  unfolding steady_def by metis

lemma sel_mon_same: "same_windows s (s\<lparr>sel_mon := m\<rparr>)"
  by (simp add: same_windows_def)

lemma steady_select_op: "steady (\<lambda>f. (Inr (), update_monitor_selection_by_key k f))"
  by (rule steady_pure) (rule steady_select)

lemma steady_focus_none [steady_intros]: "steady (focus_none env)"
proof (rule steady_pointwise)
  fix f
  show "\<exists>q. steady q \<and> focus_none env f = q f"
    unfolding focus_none_def by (rule exI, rule conjI [OF _ refl]) (intro steady_and_then steady_unfocus_selected steady_root steady_select_op)
qed

lemma steady_then_focus:
  "steady (\<lambda>f. focus env k (update_monitor_selection_by_key None f))" "steady (\<lambda>f. focus env k (set_fc_state ((fc_state f)\<lparr>sel_mon := m\<rparr>) f))"
proof -
  have "steady (and_do (\<lambda>f. (Inr (), update_monitor_selection_by_key None f)) (\<lambda>_. focus env k))"
    by (intro steady_and_then steady_select_op steady_focus)
  then show "steady (\<lambda>f. focus env k (update_monitor_selection_by_key None f))" by (simp add: steady_def and_do_def)
  have "steady (\<lambda>f. (Inr (), set_fc_state ((fc_state f)\<lparr>sel_mon := m\<rparr>) f))"
    by (rule steady_pure) (auto simp: focus_ok_def set_fc_state_def sel_mon_frame sel_mon_same cx_live_def)
  then have "steady (and_do (\<lambda>f. (Inr (), set_fc_state ((fc_state f)\<lparr>sel_mon := m\<rparr>) f)) (\<lambda>_. focus env k))"
    by (intro steady_and_then steady_focus)
  then show "steady (\<lambda>f. focus env k (set_fc_state ((fc_state f)\<lparr>sel_mon := m\<rparr>) f))" by (simp add: steady_def and_do_def)
qed

lemma steady_refocus [steady_intros]: "steady (refocus env)"
proof (rule steady_pointwise)
  fix f
  have "steady (and_do (unfocus_client env k True) (\<lambda>_. and_do (set_root_focus env) (\<lambda>_ f1.
       focus env (Some k) (update_monitor_selection_by_key None f1))))" for k
    by (intro steady_and_then steady_unfocus steady_root steady_then_focus(1))
  then show "\<exists>q. steady q \<and> refocus env f = q f"
    by (cases "get_selected_client_key (fc_state f)") (auto simp: refocus_def intro: steady_Pair)
qed

lemma steady_focusin [steady_intros]: "steady (focusin env w)"
proof (rule steady_pointwise)
  fix f
  show "\<exists>q. steady q \<and> focusin env w f = q f"
    using steady_focus [of env None] steady_setfocus [of env] steady_Pair [of "Inr ()"]
    by (auto simp: focusin_def split: option.split)
qed

lemma steady_switch [steady_intros]: "steady (switch_monitor_focusing env m k)"
proof (rule steady_pointwise)
  fix f
  have "steady (and_do (case get_selected_client_key (fc_state f) of Some x \<Rightarrow> unfocus_client env x True | None \<Rightarrow> Pair (Inr ())) (\<lambda>_ f1.
       focus env k (set_fc_state ((fc_state f1)\<lparr>sel_mon := m\<rparr>) f1)))"
    by (intro steady_and_then steady_unfocus_selected steady_then_focus(2))
  then show "\<exists>q. steady q \<and> switch_monitor_focusing env m k f = q f"
    using steady_Pair [of "Inr ()"] by (simp add: switch_monitor_focusing_def) blast
qed

lemma steady_focusmon [steady_intros]: "steady (focusmon env arg)"
proof (rule steady_pointwise)
  fix f
  show "\<exists>q. steady q \<and> focusmon env arg f = q f"
    using steady_switch [of env _ None] steady_Pair [of "Inr ()"]
    by (auto simp: focusmon_def split: option.split wm_arg.split)
qed

section \<open>Visibility across focus\<close>

lemma unselected_active: "get_active_tags (unselected mon) = get_active_tags mon"
  by (simp add: unselected_def get_active_tags_def tag_at_def)

lemma same_windows_active:
  "same_windows s s' \<Longrightarrow> map_option get_active_tags (slot_get (st_monitors s') m) = map_option get_active_tags (slot_get (st_monitors s) m)"
proof -
  assume "same_windows s s'"
  then have "map_option (get_active_tags \<circ> unselected) (slot_get (st_monitors s') m) = map_option (get_active_tags \<circ> unselected) (slot_get (st_monitors s) m)"
    by (simp add: same_windows_def flip: option.map_comp)
  then show ?thesis by (simp add: comp_def unselected_active)
qed

lemma visible_by_tags:
  "is_client_visible_by_key s k = (case slot_get (st_clients s) k of None \<Rightarrow> False | Some c \<Rightarrow> \<not> is_swallowed (c_state c) \<and> \<not> is_hidden (c_state c) \<and>
     (case c_mon c of None \<Rightarrow> False | Some m \<Rightarrow> (case map_option get_active_tags (slot_get (st_monitors s) m) of None \<Rightarrow> False
        | Some w \<Rightarrow> is_sticky (c_state c) \<or> cs_tags (c_state c) AND w > 0)))"
  by (auto simp: is_client_visible_by_key_def split: option.split)

lemma same_windows_visible:
  assumes "same_windows s s'"
  shows "is_client_visible_by_key s' k = is_client_visible_by_key s k"
proof -
  have "map_option calm (slot_get (st_clients s') k) = map_option calm (slot_get (st_clients s) k)" using assms by (simp add: same_windows_def)
  then consider "slot_get (st_clients s') k = None" "slot_get (st_clients s) k = None"
    | c c' where "slot_get (st_clients s') k = Some c'" "slot_get (st_clients s) k = Some c" "calm c' = calm c"
    by (cases "slot_get (st_clients s') k"; cases "slot_get (st_clients s) k") auto
  then show ?thesis
  proof cases
    case (2 c c')
    then show ?thesis using calm_fields [OF 2(3)] by (simp add: visible_by_tags same_windows_active [OF assms] cong: option.case_cong)
  qed (simp add: visible_by_tags)
qed

end
