(* ===== verification/Struts.thy ===== *)
theory Struts
  imports Client_Stack "HOL-Library.Multiset"
begin

text \<open>
  Screen edges reserved by panels: \<open>src/jwm/strut_manager.rs\<close>, with \<open>recttomon\<close> and \<open>wintomon\<close> of
  \<open>src/jwm/positioning.rs\<close>. A strut is a property of an untrusted client; the theorems show that no set
  of struts can push a work area out of its monitor or shrink it to nothing, that the order in which
  the hash map hands them out does not matter, and that the cache of unmanaged panels fails closed.
\<close>

section \<open>Reservations\<close>

record strut_partial =
  st_left :: nat
  st_right :: nat
  st_top :: nat
  st_bottom :: nat
  left_start_y :: nat
  left_end_y :: nat
  right_start_y :: nat
  right_end_y :: nat
  top_start_x :: nat
  top_end_x :: nat
  bottom_start_x :: nat
  bottom_end_x :: nat

type_synonym external_strut = "strut_partial \<times> monitor_key option"

text \<open>The hash map of struts is the list of its entries in the order it iterates them.\<close>

type_synonym struts = "(window_id, external_strut) slotmap"

definition cache_external_strut :: "window_id \<Rightarrow> external_strut \<Rightarrow> struts \<Rightarrow> bool \<times> struts" where
  "cache_external_strut win e entries = (if slot_get entries win = Some e then (False, entries) else (True, hash_insert win e entries))"

definition valid_unmanaged_strut :: "strut_partial \<Rightarrow> bool" where
  "valid_unmanaged_strut s \<longleftrightarrow> (st_left s > 0 \<or> st_right s > 0 \<or> st_top s > 0 \<or> st_bottom s > 0) \<and>
     (st_left s = 0 \<or> left_start_y s \<le> left_end_y s) \<and> (st_right s = 0 \<or> right_start_y s \<le> right_end_y s) \<and>
     (st_top s = 0 \<or> top_start_x s \<le> top_end_x s) \<and> (st_bottom s = 0 \<or> bottom_start_x s \<le> bottom_end_x s)"

definition window_center :: "int \<Rightarrow> nat \<Rightarrow> int" where
  "window_center origin extent = clamp (origin + int (extent div 2)) i32_min i32_max"

record desktop_bounds =
  db_left :: int
  db_top :: int
  db_right :: int
  db_bottom :: int

definition span_intersects_monitor :: "nat \<Rightarrow> nat \<Rightarrow> int \<Rightarrow> int \<Rightarrow> bool \<Rightarrow> bool" where
  "span_intersects_monitor start end_pos monitor_start monitor_end hosts_here =
     (if start = 0 \<and> end_pos = 0 then hosts_here else int start < monitor_end \<and> int end_pos \<ge> monitor_start)"

definition edge_depth :: "nat \<Rightarrow> int \<Rightarrow> int \<Rightarrow> int" where
  "edge_depth advertised distance extent = clamp (int advertised - max distance 0) 0 (max extent 1)"

definition clamp_opposing_edges :: "int \<Rightarrow> int \<Rightarrow> int \<Rightarrow> int \<times> int" where
  "clamp_opposing_edges first second extent =
     (let room = sat32 (max extent 1 - 1);
          a = clamp first 0 room
      in (a, clamp second 0 (sat32 (room - a))))"

text \<open>Reservations are listed as top, bottom, left, right.\<close>

definition strut_reservation_for_monitor :: "strut_partial \<Rightarrow> bool \<Rightarrow> rect \<Rightarrow> desktop_bounds \<Rightarrow> int \<times> int \<times> int \<times> int" where
  "strut_reservation_for_monitor s host_matches monitor desktop =
     (let monitor_left = rect_x monitor;
          monitor_top = rect_y monitor;
          monitor_right = monitor_left + max (rect_w monitor) 1;
          monitor_bottom = monitor_top + max (rect_h monitor) 1;
          horizontal = (\<lambda>a b. span_intersects_monitor a b monitor_left monitor_right host_matches);
          vertical = (\<lambda>a b. span_intersects_monitor a b monitor_top monitor_bottom host_matches)
      in (if horizontal (top_start_x s) (top_end_x s) then edge_depth (st_top s) (monitor_top - db_top desktop) (rect_h monitor) else 0,
          if horizontal (bottom_start_x s) (bottom_end_x s) then edge_depth (st_bottom s) (db_bottom desktop - monitor_bottom) (rect_h monitor) else 0,
          if vertical (left_start_y s) (left_end_y s) then edge_depth (st_left s) (monitor_left - db_left desktop) (rect_w monitor) else 0,
          if vertical (right_start_y s) (right_end_y s) then edge_depth (st_right s) (db_right desktop - monitor_right) (rect_w monitor) else 0))"

definition desktop_of :: "wm_state \<Rightarrow> desktop_bounds" where
  "desktop_of s = fold (\<lambda>(_, m) b.
       let g = mon_geometry m
       in \<lparr>db_left = min (db_left b) (m_x g), db_top = min (db_top b) (m_y g),
           db_right = max (db_right b) (m_x g + max (m_w g) 1), db_bottom = max (db_bottom b) (m_y g + max (m_h g) 1)\<rparr>) (st_monitors s)
     \<lparr>db_left = 9223372036854775807, db_top = 9223372036854775807, db_right = - 9223372036854775808, db_bottom = - 9223372036854775808\<rparr>"

definition widen :: "int \<times> int \<times> int \<times> int \<Rightarrow> int \<times> int \<times> int \<times> int \<Rightarrow> int \<times> int \<times> int \<times> int" where
  "widen r acc = (case (r, acc) of ((t, b, l, rt), (t', b', l', r')) \<Rightarrow> (max t' t, max b' b, max l' l, max r' rt))"

definition get_strut_reserved :: "struts \<Rightarrow> wm_state \<Rightarrow> monitor_key \<Rightarrow> int \<times> int \<times> int \<times> int" where
  "get_strut_reserved entries s m =
     (case slot_get (st_monitors s) m of
        None \<Rightarrow> (0, 0, 0, 0)
      | Some mon \<Rightarrow>
          let g = mon_geometry mon;
              monitor_rect = rect_new (m_x g) (m_y g) (max (m_w g) 1) (max (m_h g) 1);
              (t, b, l, r) = fold (\<lambda>(_, (strut, host)). widen (strut_reservation_for_monitor strut
                                  (case host of None \<Rightarrow> True | Some h \<Rightarrow> h = m) monitor_rect (desktop_of s))) entries (0, 0, 0, 0);
              (t', b') = clamp_opposing_edges t b (rect_h monitor_rect);
              (l', r') = clamp_opposing_edges l r (rect_w monitor_rect)
          in (t', b', l', r'))"

definition apply_strut_geometry :: "int \<times> int \<times> int \<times> int \<Rightarrow> monitor_geometry \<Rightarrow> monitor_geometry" where
  "apply_strut_geometry res g = (case res of (t, b, l, r) \<Rightarrow>
     g\<lparr>w_x := sat32 (m_x g + l), w_y := sat32 (m_y g + t),
       w_w := max (sat32 (sat32 (m_w g - l) - r)) 1, w_h := max (sat32 (sat32 (m_h g - t) - b)) 1\<rparr>)"

definition apply_strut_reservations :: "struts \<Rightarrow> wm_state \<Rightarrow> wm_state" where
  "apply_strut_reservations entries s =
     fold (\<lambda>m s. let res = get_strut_reserved entries s m
                 in s\<lparr>st_monitors := slot_update m (\<lambda>mon. mon\<lparr>mon_geometry := apply_strut_geometry res (mon_geometry mon)\<rparr>) (st_monitors s)\<rparr>)
       (monitor_order s) s"

section \<open>The cache\<close>

text \<open>
  \<open>output_at\<close> of the backend names the output under a point; \<open>out_map\<close> is the iteration order of
  \<open>output_map\<close>.
\<close>

definition recttomon :: "(int \<Rightarrow> int \<Rightarrow> nat option) \<Rightarrow> (monitor_key \<times> nat) list \<Rightarrow> wm_state \<Rightarrow> int \<Rightarrow> int \<Rightarrow> monitor_key option" where
  "recttomon output_at out_map s x y =
     (case output_at x y of
        None \<Rightarrow> sel_mon s
      | Some oid \<Rightarrow> (case List.find (\<lambda>(_, o'). o' = oid) out_map of Some (m, _) \<Rightarrow> Some m | None \<Rightarrow> sel_mon s))"

definition wintomon :: "(int \<times> int) option \<Rightarrow> window_id option \<Rightarrow> (int \<Rightarrow> int \<Rightarrow> nat option) \<Rightarrow> (monitor_key \<times> nat) list \<Rightarrow> wm_state \<Rightarrow> window_id option \<Rightarrow> monitor_key option" where
  "wintomon pointer root_window output_at out_map s w =
     (if w = None \<or> w = root_window
      then (case pointer of Some (x, y) \<Rightarrow> recttomon output_at out_map s x y | None \<Rightarrow> sel_mon s)
      else case w of
             None \<Rightarrow> sel_mon s
           | Some win \<Rightarrow>
               (case win_to_client s win of
                  None \<Rightarrow> sel_mon s
                | Some k \<Rightarrow> (case slot_get (st_clients s) k of
                               None \<Rightarrow> sel_mon s
                             | Some c \<Rightarrow> (case c_mon c of Some m \<Rightarrow> Some m | None \<Rightarrow> sel_mon s))))"

text \<open>The backend's answers about one window, in the order the code asks for them.\<close>

record panel_query =
  pq_supports_client_list :: bool
  pq_is_overlay :: bool
  pq_is_secondary_bar :: bool
  pq_attributes :: "(bool \<times> bool) option"
  pq_strut :: "strut_partial option"
  pq_is_dock :: bool
  pq_mask_added :: bool
  pq_attributes_again :: "(bool \<times> bool) option"
  pq_strut_again :: "strut_partial option"
  pq_geometry :: "(int \<times> int \<times> nat \<times> nat) option"

definition strut_host_monitor_for_geometry :: "(int \<Rightarrow> int \<Rightarrow> monitor_key option) \<Rightarrow> int \<times> int \<times> nat \<times> nat \<Rightarrow> monitor_key option" where
  "strut_host_monitor_for_geometry to_mon g = (case g of (x, y, w, h) \<Rightarrow> to_mon (window_center x w) (window_center y h))"

definition strut_host_monitor :: "(int \<Rightarrow> int \<Rightarrow> monitor_key option) \<Rightarrow> panel_query \<Rightarrow> monitor_key option" where
  "strut_host_monitor to_mon q = (case pq_geometry q of None \<Rightarrow> None | Some g \<Rightarrow> strut_host_monitor_for_geometry to_mon g)"

definition refresh_external_strut_host_from_geometry :: "(int \<Rightarrow> int \<Rightarrow> monitor_key option) \<Rightarrow> window_id \<Rightarrow> int \<times> int \<times> nat \<times> nat \<Rightarrow> struts \<Rightarrow> bool \<times> struts" where
  "refresh_external_strut_host_from_geometry to_mon win g entries =
     (case slot_get entries win of
        None \<Rightarrow> (False, entries)
      | Some (strut, _) \<Rightarrow> cache_external_strut win (strut, strut_host_monitor_for_geometry to_mon g) entries)"

definition drop_strut :: "window_id \<Rightarrow> struts \<Rightarrow> bool option \<times> struts" where
  "drop_strut win entries = (Some (slot_get entries win \<noteq> None), hash_remove win entries)"

definition refresh_unmanaged_x11_strut_cache :: "(int \<Rightarrow> int \<Rightarrow> monitor_key option) \<Rightarrow> wm_state \<Rightarrow> panel_query \<Rightarrow> window_id \<Rightarrow> struts \<Rightarrow> bool option \<times> struts" where
  "refresh_unmanaged_x11_strut_cache to_mon s q win entries =
     (if \<not> pq_supports_client_list q \<or> win_to_client s win \<noteq> None then (None, entries)
      else if pq_is_overlay q \<or> pq_is_secondary_bar q then (Some False, entries)
      else case pq_attributes q of
             None \<Rightarrow> drop_strut win entries
           | Some (override_redirect, viewable) \<Rightarrow>
               if \<not> override_redirect then (None, entries)
               else if \<not> viewable then drop_strut win entries
               else let valid = (\<lambda>st. case st of None \<Rightarrow> None | Some x \<Rightarrow> if valid_unmanaged_strut x then Some x else None)
                    in if valid (pq_strut q) = None \<and> \<not> pq_is_dock q then drop_strut win entries
                       else if \<not> pq_mask_added q then drop_strut win entries
                       else case pq_attributes_again q of
                              None \<Rightarrow> drop_strut win entries
                            | Some (override_redirect, viewable) \<Rightarrow>
                                if \<not> override_redirect \<or> \<not> viewable then drop_strut win entries
                                else case valid (pq_strut_again q) of
                                       None \<Rightarrow> drop_strut win entries
                                     | Some strut \<Rightarrow>
                                         (case strut_host_monitor to_mon q of
                                            None \<Rightarrow> drop_strut win entries
                                          | Some host \<Rightarrow> apfst Some (cache_external_strut win (strut, Some host) entries)))"

definition refresh_external_strut_hosts :: "(int \<Rightarrow> int \<Rightarrow> monitor_key option) \<Rightarrow> wm_state \<Rightarrow> (window_id \<Rightarrow> panel_query) \<Rightarrow> struts \<Rightarrow> bool \<times> struts" where
  "refresh_external_strut_hosts to_mon s query entries =
     fold (\<lambda>win (changed, entries).
        case refresh_unmanaged_x11_strut_cache to_mon s (query win) win entries of
          (Some updated, entries') \<Rightarrow> (changed \<or> updated, entries')
        | (None, entries') \<Rightarrow>
            (case slot_get entries' win of
               None \<Rightarrow> (changed, entries')
             | Some (strut, _) \<Rightarrow>
                 (case cache_external_strut win (strut, strut_host_monitor to_mon (query win)) entries' of
                    (updated, entries'') \<Rightarrow> (changed \<or> updated, entries''))))
       (map fst entries) (False, entries)"

text \<open>
  The entry points. The last component says whether the layout was run again: each of them then calls
  \<open>arrange\<close> on all monitors and broadcasts the windows and the bars.
\<close>

definition reconcile_external_struts_after_topology_change :: "(int \<Rightarrow> int \<Rightarrow> monitor_key option) \<Rightarrow> (window_id \<Rightarrow> panel_query) \<Rightarrow> struts \<Rightarrow> wm_state \<Rightarrow> struts \<times> wm_state \<times> bool" where
  "reconcile_external_struts_after_topology_change to_mon query entries s =
     (if entries = [] then (entries, s, False)
      else let entries' = snd (refresh_external_strut_hosts to_mon s query entries)
           in (entries', apply_strut_reservations entries' s, True))"

definition refresh_unmanaged_x11_strut :: "(int \<Rightarrow> int \<Rightarrow> monitor_key option) \<Rightarrow> panel_query \<Rightarrow> window_id \<Rightarrow> struts \<Rightarrow> wm_state \<Rightarrow> bool \<times> struts \<times> wm_state \<times> bool" where
  "refresh_unmanaged_x11_strut to_mon q win entries s =
     (case refresh_unmanaged_x11_strut_cache to_mon s q win entries of
        (None, entries') \<Rightarrow> (False, entries', s, False)
      | (Some changed, entries') \<Rightarrow> (True, entries', if changed then apply_strut_reservations entries' s else s, changed))"

definition check_strut_on_manage :: "(int \<Rightarrow> int \<Rightarrow> monitor_key option) \<Rightarrow> panel_query \<Rightarrow> window_id \<Rightarrow> struts \<Rightarrow> wm_state \<Rightarrow> struts \<times> wm_state \<times> bool" where
  "check_strut_on_manage to_mon q win entries s =
     (case pq_strut q of
        None \<Rightarrow> (entries, s, False)
      | Some strut \<Rightarrow>
          if st_left strut > 0 \<or> st_right strut > 0 \<or> st_top strut > 0 \<or> st_bottom strut > 0
          then let entries' = snd (cache_external_strut win (strut, strut_host_monitor to_mon q) entries)
               in (entries', apply_strut_reservations entries' s, True)
          else (entries, s, False))"

definition remove_strut_on_unmanage :: "window_id \<Rightarrow> struts \<Rightarrow> wm_state \<Rightarrow> struts \<times> wm_state \<times> bool" where
  "remove_strut_on_unmanage win entries s =
     (if slot_get entries win \<noteq> None
      then let entries' = hash_remove win entries in (entries', apply_strut_reservations entries' s, True)
      else (entries, s, False))"

section \<open>Work areas stay inside their monitors\<close>

text \<open>The physical geometry of all monitors, on which the reservations depend.\<close>

definition physical :: "wm_state \<Rightarrow> (monitor_key \<times> int \<times> int \<times> int \<times> int) list" where
  "physical s = map (\<lambda>(k, m). (k, m_x (mon_geometry m), m_y (mon_geometry m), m_w (mon_geometry m), m_h (mon_geometry m))) (st_monitors s)"

lemma desktop_of_physical:
  "desktop_of s = fold (\<lambda>(_, x, y, w, h) b.
       \<lparr>db_left = min (db_left b) x, db_top = min (db_top b) y, db_right = max (db_right b) (x + max w 1), db_bottom = max (db_bottom b) (y + max h 1)\<rparr>)
     (physical s) \<lparr>db_left = 9223372036854775807, db_top = 9223372036854775807, db_right = - 9223372036854775808, db_bottom = - 9223372036854775808\<rparr>"
  by (simp add: desktop_of_def physical_def fold_map comp_def split_def Let_def)

lemma physical_get:
  "map_option (\<lambda>m. (m_x (mon_geometry m), m_y (mon_geometry m), m_w (mon_geometry m), m_h (mon_geometry m))) (slot_get (st_monitors s) k) = map_of (physical s) k"
proof -
  have "map_option (\<lambda>m. (m_x (mon_geometry m), m_y (mon_geometry m), m_w (mon_geometry m), m_h (mon_geometry m))) (map_of ms k) =
      map_of (map (\<lambda>(k, m). (k, m_x (mon_geometry m), m_y (mon_geometry m), m_w (mon_geometry m), m_h (mon_geometry m))) ms) k" for ms
    by (induction ms) auto
  then show ?thesis unfolding slot_get_def physical_def .
qed

lemma reserved_physical:
  assumes "physical s = physical t"
  shows "get_strut_reserved entries s m = get_strut_reserved entries t m"
proof -
  have d: "desktop_of s = desktop_of t" using assms by (simp add: desktop_of_physical)
  have "map_option (\<lambda>m. (m_x (mon_geometry m), m_y (mon_geometry m), m_w (mon_geometry m), m_h (mon_geometry m))) (slot_get (st_monitors s) m) =
      map_option (\<lambda>m. (m_x (mon_geometry m), m_y (mon_geometry m), m_w (mon_geometry m), m_h (mon_geometry m))) (slot_get (st_monitors t) m)"
    by (simp only: physical_get assms)
  then show ?thesis by (cases "slot_get (st_monitors s) m"; cases "slot_get (st_monitors t) m") (auto simp: get_strut_reserved_def d Let_def)
qed

lemma physical_update:
  "physical (s\<lparr>st_monitors := slot_update m (\<lambda>mon. mon\<lparr>mon_geometry := apply_strut_geometry res (mon_geometry mon)\<rparr>) (st_monitors s)\<rparr>) = physical s"
  by (auto simp: physical_def slot_update_def apply_strut_geometry_def split: prod.splits)

text \<open>All reservations can be computed before the first work area is written.\<close>

definition reserve_monitor :: "struts \<Rightarrow> wm_state \<Rightarrow> monitor_key \<Rightarrow> wm_state \<Rightarrow> wm_state" where
  "reserve_monitor entries s m t =
     t\<lparr>st_monitors := slot_update m (\<lambda>mon. mon\<lparr>mon_geometry := apply_strut_geometry (get_strut_reserved entries s m) (mon_geometry mon)\<rparr>) (st_monitors t)\<rparr>"

lemma apply_struts_at_once: "apply_strut_reservations entries s = fold (reserve_monitor entries s) (monitor_order s) s"
proof -
  have "fold (\<lambda>m s. let res = get_strut_reserved entries s m
          in s\<lparr>st_monitors := slot_update m (\<lambda>mon. mon\<lparr>mon_geometry := apply_strut_geometry res (mon_geometry mon)\<rparr>) (st_monitors s)\<rparr>) ms t =
        fold (reserve_monitor entries s) ms t" if "physical t = physical s" for ms t
    using that
  proof (induction ms arbitrary: t)
    case (Cons m ms)
    have "physical (reserve_monitor entries s m t) = physical s" using Cons.prems by (simp add: reserve_monitor_def physical_update)
    with Cons.IH [of "reserve_monitor entries s m t"] Cons.prems show ?case
      by (simp add: reserve_monitor_def Let_def reserved_physical [of t s])
  qed simp
  then show ?thesis by (simp add: apply_strut_reservations_def)
qed

lemma apply_strut_geometry_idem: "apply_strut_geometry res (apply_strut_geometry res g) = apply_strut_geometry res g"
  by (auto simp: apply_strut_geometry_def split: prod.splits)

lemma reserve_get:
  "slot_get (st_monitors (fold (reserve_monitor entries s) ms t)) m =
     (if m \<in> set ms then map_option (\<lambda>mon. mon\<lparr>mon_geometry := apply_strut_geometry (get_strut_reserved entries s m) (mon_geometry mon)\<rparr>) (slot_get (st_monitors t) m)
      else slot_get (st_monitors t) m)"
  by (induction ms arbitrary: t) (auto simp: reserve_monitor_def slot_simps option.map_comp comp_def apply_strut_geometry_idem)

lemma clamp_opposing_edges_fit:
  assumes "clamp_opposing_edges a b extent = (a', b')" "1 \<le> extent" "extent \<le> i32_max"
  shows "0 \<le> a' \<and> 0 \<le> b' \<and> a' + b' \<le> extent - 1"
  using assms by (auto simp: clamp_opposing_edges_def clamp_def Let_def sat32_def)

lemma reserved_fits:
  assumes "slot_get (st_monitors s) m = Some mon" "get_strut_reserved entries s m = (t, b, l, r)"
    "m_w (mon_geometry mon) \<le> i32_max" "m_h (mon_geometry mon) \<le> i32_max"
  shows "0 \<le> t \<and> 0 \<le> b \<and> 0 \<le> l \<and> 0 \<le> r \<and> t + b \<le> max (m_h (mon_geometry mon)) 1 - 1 \<and> l + r \<le> max (m_w (mon_geometry mon)) 1 - 1"
proof -
  obtain t0 b0 l0 r0 where "clamp_opposing_edges t0 b0 (max (m_h (mon_geometry mon)) 1) = (t, b)" "clamp_opposing_edges l0 r0 (max (m_w (mon_geometry mon)) 1) = (l, r)"
    using assms(1,2) by (auto simp: get_strut_reserved_def Let_def split: prod.splits)
  then show ?thesis using clamp_opposing_edges_fit [of t0 b0 _ t b] clamp_opposing_edges_fit [of l0 r0 _ l r] assms(3,4) by simp
qed

definition physical_rect :: "wm_monitor \<Rightarrow> rect" where
  "physical_rect m = rect_new (m_x (mon_geometry m)) (m_y (mon_geometry m)) (m_w (mon_geometry m)) (m_h (mon_geometry m))"

definition work_rect :: "wm_monitor \<Rightarrow> rect" where
  "work_rect m = rect_new (w_x (mon_geometry m)) (w_y (mon_geometry m)) (w_w (mon_geometry m)) (w_h (mon_geometry m))"

definition on_desktop :: "rect \<Rightarrow> bool" where
  "on_desktop r \<longleftrightarrow> 1 \<le> rect_w r \<and> 1 \<le> rect_h r \<and> in_i32 (rect_x r) \<and> in_i32 (rect_y r) \<and>
     in_i32 (rect_x r + rect_w r) \<and> in_i32 (rect_y r + rect_h r) \<and> in_i32 (rect_w r) \<and> in_i32 (rect_h r)"

text \<open>
  C38. Whatever struts the clients advertise, the work area of every monitor in the monitor order
  lies inside its output, keeps at least one pixel on each axis, and starts exactly behind the
  reservations of its left and top edge; outputs keep their physical geometry.
\<close>

theorem struts_keep_work_area_inside:
  assumes "m \<in> set (monitor_order s)" "slot_get (st_monitors s) m = Some mon" "on_desktop (physical_rect mon)"
  shows "\<exists>mon'. slot_get (st_monitors (apply_strut_reservations entries s)) m = Some mon' \<and> physical_rect mon' = physical_rect mon \<and>
    inside (physical_rect mon) (work_rect mon') \<and> 1 \<le> rect_w (work_rect mon') \<and> 1 \<le> rect_h (work_rect mon') \<and>
    (case get_strut_reserved entries s m of (t, b, l, r) \<Rightarrow>
       work_rect mon' = rect_new (rect_x (physical_rect mon) + l) (rect_y (physical_rect mon) + t)
         (rect_w (physical_rect mon) - l - r) (rect_h (physical_rect mon) - t - b))"
proof -
  obtain t b l r where res: "get_strut_reserved entries s m = (t, b, l, r)" by (metis prod_cases4)
  have f: "0 \<le> t" "0 \<le> b" "0 \<le> l" "0 \<le> r" "t + b \<le> m_h (mon_geometry mon) - 1" "l + r \<le> m_w (mon_geometry mon) - 1"
    using reserved_fits [OF assms(2) res] assms(3) by (auto simp: on_desktop_def physical_rect_def in_i32_def)
  let ?mon' = "mon\<lparr>mon_geometry := apply_strut_geometry (t, b, l, r) (mon_geometry mon)\<rparr>"
  have "slot_get (st_monitors (apply_strut_reservations entries s)) m = Some ?mon'"
    using assms(1,2) by (simp add: apply_struts_at_once reserve_get res)
  moreover have "work_rect ?mon' = rect_new (rect_x (physical_rect mon) + l) (rect_y (physical_rect mon) + t)
         (rect_w (physical_rect mon) - l - r) (rect_h (physical_rect mon) - t - b)"
    using f assms(3) by (simp add: work_rect_def physical_rect_def apply_strut_geometry_def on_desktop_def in_i32_def sat32_id)
  moreover have "physical_rect ?mon' = physical_rect mon" by (simp add: physical_rect_def apply_strut_geometry_def)
  ultimately show ?thesis using f by (auto simp: res inside_def physical_rect_def)
qed

definition panel_state :: wm_state where
  "panel_state = wm_state_new\<lparr>st_monitors := [(1, wm_monitor_new\<lparr>mon_geometry := \<lparr>m_x = 0, m_y = 0, m_w = 100, m_h = 80, w_x = 0, w_y = 0, w_w = 100, w_h = 80\<rparr>\<rparr>)],
     monitor_order := [1]\<rparr>"

definition no_strut :: strut_partial where
  "no_strut = \<lparr>st_left = 0, st_right = 0, st_top = 0, st_bottom = 0, left_start_y = 0, left_end_y = 0, right_start_y = 0, right_end_y = 0,
     top_start_x = 0, top_end_x = 0, bottom_start_x = 0, bottom_end_x = 0\<rparr>"

definition greedy_struts :: struts where
  "greedy_struts = [(5, (no_strut\<lparr>st_top := 4000, st_bottom := 4000, st_left := 20\<rparr>, None)), (6, (no_strut\<lparr>st_right := 30\<rparr>, Some 1))]"

theorem struts_keep_work_area_inside_witness:
  "\<exists>mon'. slot_get (st_monitors (apply_strut_reservations greedy_struts panel_state)) 1 = Some mon' \<and>
     work_rect mon' = rect_new 20 79 50 1"
proof -
  have r: "get_strut_reserved greedy_struts panel_state 1 = (79, 0, 20, 30)" by code_simp
  show ?thesis
    using struts_keep_work_area_inside [of 1 panel_state "snd (hd (st_monitors panel_state))" greedy_struts, unfolded r]
    by (auto simp: panel_state_def slot_get_def on_desktop_def physical_rect_def in_i32_def)
qed

section \<open>The order of the struts does not matter\<close>

lemma widen_commute: "widen a (widen b acc) = widen b (widen a acc)"
  by (cases a; cases b; cases acc) (simp add: widen_def max.left_commute max.commute max.assoc)

lemma reserved_perm: "mset entries = mset entries' \<Longrightarrow> get_strut_reserved entries s m = get_strut_reserved entries' s m"
proof -
  assume p: "mset entries = mset entries'"
  have "fold (\<lambda>(_, (strut, host)). widen (f strut host)) entries = fold (\<lambda>(_, (strut, host)). widen (f strut host)) entries'" for f
    by (rule fold_multiset_equiv [OF _ p]) (auto simp: fun_eq_iff widen_commute split: prod.splits)
  then show ?thesis by (simp add: get_strut_reserved_def Let_def split: option.splits)
qed

text \<open>
  The work areas depend only on which struts are cached, not on the order in which the hash map
  hands them out.
\<close>

theorem work_areas_ignore_strut_order:
  assumes "mset entries = mset entries'"
  shows "apply_strut_reservations entries s = apply_strut_reservations entries' s"
proof -
  have "reserve_monitor entries s = reserve_monitor entries' s" by (simp add: fun_eq_iff reserve_monitor_def reserved_perm [OF assms])
  then show ?thesis by (simp add: apply_struts_at_once)
qed

theorem work_areas_ignore_strut_order_witness:
  "apply_strut_reservations greedy_struts panel_state = apply_strut_reservations (rev greedy_struts) panel_state"
  by (rule work_areas_ignore_strut_order) simp

section \<open>The cache of unmanaged panels\<close>

lemma drop_strutD:
  "drop_strut win entries = (ans, entries') \<Longrightarrow>
     ans = Some (slot_get entries' \<noteq> slot_get entries) \<and> slot_get entries' win = None \<and> (\<forall>w. w \<noteq> win \<longrightarrow> slot_get entries' w = slot_get entries w)"
  by (cases "slot_get entries win") (auto simp: drop_strut_def hash_get_remove fun_eq_iff split: if_splits)

lemma cache_strutD:
  "cache_external_strut win e entries = (changed, entries') \<Longrightarrow>
     changed = (slot_get entries' \<noteq> slot_get entries) \<and> slot_get entries' win = Some e \<and> (\<forall>w. w \<noteq> win \<longrightarrow> slot_get entries' w = slot_get entries w)"
  by (auto simp: cache_external_strut_def hash_get_insert fun_eq_iff split: if_splits)

text \<open>
  Refreshing the cache of an unmanaged panel reports a change exactly when the cache changed,
  touches no other window, and fails closed: if the window is not one of the manager's own, a strut
  is cached afterwards only when the second look, after the subscription, saw a mapped
  override-redirect window with a valid strut on a known monitor.
\<close>

theorem unmanaged_strut_cache_fails_closed:
  assumes "refresh_unmanaged_x11_strut_cache to_mon s q win entries = (Some changed, entries')"
  shows "(changed \<longleftrightarrow> slot_get entries' \<noteq> slot_get entries) \<and> (\<forall>w. w \<noteq> win \<longrightarrow> slot_get entries' w = slot_get entries w) \<and>
    (\<not> pq_is_overlay q \<and> \<not> pq_is_secondary_bar q \<longrightarrow>
       (case slot_get entries' win of
          None \<Rightarrow> True
        | Some (strut, host) \<Rightarrow> pq_mask_added q \<and> pq_attributes_again q = Some (True, True) \<and> pq_strut_again q = Some strut \<and>
            valid_unmanaged_strut strut \<and> host \<noteq> None \<and> host = strut_host_monitor to_mon q))"
proof -
  consider (own) "pq_is_overlay q \<or> pq_is_secondary_bar q" "changed = False" "entries' = entries"
    | (drop) "drop_strut win entries = (Some changed, entries')"
    | (cache) strut host where "pq_mask_added q" "pq_attributes_again q = Some (True, True)" "pq_strut_again q = Some strut" "valid_unmanaged_strut strut"
        "strut_host_monitor to_mon q = Some host" "cache_external_strut win (strut, Some host) entries = (changed, entries')"
  proof (cases "drop_strut win entries = (Some changed, entries') \<or> pq_is_overlay q \<or> pq_is_secondary_bar q")
    case True
    with assms that(1,2) show ?thesis
      by (cases "pq_is_overlay q \<or> pq_is_secondary_bar q") (auto simp: refresh_unmanaged_x11_strut_cache_def split: if_splits)
  next
    case False
    then have "drop_strut win entries \<noteq> (Some changed, entries')" "\<not> pq_is_overlay q" "\<not> pq_is_secondary_bar q" by auto
    with assms have r: "pq_mask_added q" "pq_attributes_again q = Some (True, True)"
      "(case (case pq_strut_again q of None \<Rightarrow> None | Some x \<Rightarrow> if valid_unmanaged_strut x then Some x else None) of None \<Rightarrow> drop_strut win entries
        | Some strut \<Rightarrow> (case strut_host_monitor to_mon q of None \<Rightarrow> drop_strut win entries
            | Some host \<Rightarrow> apfst Some (cache_external_strut win (strut, Some host) entries))) = (Some changed, entries')"
      unfolding refresh_unmanaged_x11_strut_cache_def Let_def
      by (simp_all split: if_splits option.split_asm prod.split_asm bool.split_asm)
    with False that(3) show ?thesis
      by (cases "pq_strut_again q"; cases "strut_host_monitor to_mon q"; cases "cache_external_strut win (the (pq_strut_again q), strut_host_monitor to_mon q) entries")
        (simp_all split: if_splits)
  qed
  then show ?thesis
  proof cases
    case own then show ?thesis by auto
  next
    case drop with drop_strutD [OF drop] show ?thesis by auto
  next
    case cache with cache_strutD [OF cache(6)] show ?thesis by auto
  qed
qed

definition seen_panel :: panel_query where
  "seen_panel = \<lparr>pq_supports_client_list = True, pq_is_overlay = False, pq_is_secondary_bar = False, pq_attributes = Some (True, True),
     pq_strut = Some (no_strut\<lparr>st_top := 24\<rparr>), pq_is_dock = False, pq_mask_added = True, pq_attributes_again = Some (True, True),
     pq_strut_again = Some (no_strut\<lparr>st_top := 30\<rparr>), pq_geometry = Some (0, 0, 100, 30)\<rparr>"

theorem unmanaged_strut_cache_fails_closed_witness:
  "refresh_unmanaged_x11_strut_cache (\<lambda>_ _. Some 1) panel_state seen_panel 9 [] = (Some True, [(9, (no_strut\<lparr>st_top := 30\<rparr>, Some 1))]) \<and>
   valid_unmanaged_strut (no_strut\<lparr>st_top := 30\<rparr>)"
proof -
  have r: "refresh_unmanaged_x11_strut_cache (\<lambda>_ _. Some 1) panel_state seen_panel 9 [] = (Some True, [(9, (no_strut\<lparr>st_top := 30\<rparr>, Some 1))])" by code_simp
  from unmanaged_strut_cache_fails_closed [OF r] r show ?thesis by (simp add: seen_panel_def slot_get_def)
qed

end
