(* ===== verification/Layout.thy ===== *)
theory Layout
  imports Floats Rects Layout_Catalog
begin

text \<open>
  \<open>src/core/layout.rs\<close>: the layout engines. Each \<open>calculate_*\<close> takes the output area, the
  master count, the master factor and the gap, and returns one rectangle per client. The \<open>f32\<close>
  arithmetic is that of theory \<open>Floats\<close>; unchecked \<open>i32\<close> arithmetic wraps.
\<close>

section \<open>Data\<close>

record 'k layout_client =
  lc_key :: 'k
  lc_factor :: flt
  lc_border :: int

record layout_params =
  screen_area :: rect
  n_master :: nat
  m_fact :: flt
  gap_px :: int

record scrolling_params =
  sp_area :: rect
  column_width_ratio :: flt
  column_width_factors :: "flt list"
  sp_gap :: int
  sp_viewport_x :: flt

record 'k layout_result =
  res_key :: 'k
  res_rect :: rect

definition result_new :: "'k \<Rightarrow> rect \<Rightarrow> 'k layout_result" where
  "result_new k r = \<lparr>res_key = k, res_rect = r\<rparr>"

abbreviation iadd :: "int \<Rightarrow> int \<Rightarrow> int" where "iadd a b \<equiv> wrap32 (a + b)"
abbreviation isub :: "int \<Rightarrow> int \<Rightarrow> int" where "isub a b \<equiv> wrap32 (a - b)"
abbreviation imul :: "int \<Rightarrow> int \<Rightarrow> int" where "imul a b \<equiv> wrap32 (a * b)"

text \<open>\<open>len() as i32\<close>.\<close>

abbreviation ilen :: "'a list \<Rightarrow> int" where "ilen xs \<equiv> wrap32 (int (length xs))"

section \<open>Shared helpers\<close>

definition bounded_gap :: "rect \<Rightarrow> int \<Rightarrow> int" where
  "bounded_gap area gap = clamp gap 0 (min (max (rect_w area) 0) (max (rect_h area) 0) sdiv 2)"

definition usable_area :: "rect \<Rightarrow> int \<Rightarrow> rect" where
  "usable_area area gap0 =
     (let gap = bounded_gap area gap0; inset = sat32 (gap * 2)
      in rect_new (sat32 (rect_x area + gap)) (sat32 (rect_y area + gap))
           (max (sat32 (rect_w area - inset)) 1) (max (sat32 (rect_h area - inset)) 1))"

definition client_rect :: "int \<Rightarrow> int \<Rightarrow> int \<Rightarrow> int \<Rightarrow> int \<Rightarrow> rect" where
  "client_rect x y w h border_w =
     (let border2 = sat32 (max border_w 0 * 2)
      in rect_new x y (max (sat32 (w - border2)) 1) (max (sat32 (h - border2)) 1))"

text \<open>The loop over candidate column counts of \<open>choose_grid_dimensions\<close>.\<close>

primrec grid_search :: "int \<Rightarrow> rect \<Rightarrow> flt \<Rightarrow> int list \<Rightarrow> int \<times> int \<Rightarrow> flt \<Rightarrow> int \<times> int" where
  "grid_search n area target [] best best_score = best"
| "grid_search n area target (cols # cs) best best_score =
     (let rows = isub (iadd n cols) 1 sdiv cols;
          cell_aspect = div32 (div32 (f32_of (rect_w area)) (f32_of cols))
                              (div32 (f32_of (rect_h area)) (f32_of rows));
          empty_cells = isub (imul cols rows) n;
          score = add32 (fabs (sub32 cell_aspect target)) (mul32 (f32_of empty_cells) (rnd32 (15 / 100)))
      in if flt_less score best_score then grid_search n area target cs (cols, rows) score
         else grid_search n area target cs best best_score)"

definition f32_MAX :: flt where
  "f32_MAX = Fin ((2 - 1 / 2 ^ 23) * 2 ^ 127)"

definition choose_grid_dimensions :: "nat \<Rightarrow> rect \<Rightarrow> int \<times> int" where
  "choose_grid_dimensions n area =
     (if n \<le> 1 then (1, 1)
      else let target_aspect =
                 (if 0 < rect_h area
                  then fclamp (sqrt32 (div32 (f32_of (rect_w area)) (f32_of (rect_h area)))) (Fin 1) (rnd32 (18 / 10))
                  else Fin 1);
               n32 = wrap32 (int n)
           in grid_search n32 area target_aspect [1..n32] (n32, 1) f32_MAX)"

definition fitting_inner_gap :: "int \<Rightarrow> nat \<Rightarrow> int \<Rightarrow> int" where
  "fitting_inner_gap extent count requested =
     (if count \<le> 1 then 0
      else if int count > i32_max then 0
      else let spare = max (sat32 (extent - int count)) 0
           in min (max requested 0) (spare sdiv (int count - 1)))"

definition distribute_length :: "int \<Rightarrow> int \<Rightarrow> int \<Rightarrow> int \<Rightarrow> int \<Rightarrow> flt \<Rightarrow> flt \<Rightarrow> int" where
  "distribute_length extent gap used index count factor remaining_factor =
     (let inner_gaps = sat32 (max (sat32 (count - 1)) 0 * max gap 0);
          available = max (sat32 (extent - inner_gaps)) 1;
          remaining = max (sat32 (available - used)) 1;
          later_count = max (sat32 (sat32 (count - index) - 1)) 0
      in if later_count = 0 then remaining
         else let maximum = max (sat32 (remaining - later_count)) 1;
                  proportional =
                    (if flt_less (rnd32 (1 / 1000)) remaining_factor
                     then to_i32 (mul32 (f32_of remaining) (div32 (fmax factor (Fin 0)) remaining_factor))
                     else remaining sdiv max (sat32 (count - index)) 1)
              in clamp proportional 1 maximum)"

definition factor_sum :: "'k layout_client list \<Rightarrow> flt" where
  "factor_sum clients = fold (\<lambda>c acc. add32 acc (fmax (lc_factor c) (Fin 0))) clients (Fin 0)"

primrec factor_row_loop :: "int \<Rightarrow> int \<Rightarrow> int \<Rightarrow> int \<Rightarrow> int \<Rightarrow> int \<Rightarrow> int \<Rightarrow> int \<Rightarrow> flt \<Rightarrow>
    'k layout_client list \<Rightarrow> 'k layout_result list" where
  "factor_row_loop x y w h gap count i used_w remaining [] = []"
| "factor_row_loop x y w h gap count i used_w remaining (c # cs) =
     (let cw = distribute_length w gap used_w i count (lc_factor c) remaining
      in result_new (lc_key c) (client_rect (iadd (iadd x used_w) (imul i gap)) y cw h (lc_border c))
         # factor_row_loop x y w h gap count (i + 1) (iadd used_w cw)
             (sub32 remaining (fmax (lc_factor c) (Fin 0))) cs)"

definition push_factor_row :: "'k layout_result list \<Rightarrow> 'k layout_client list \<Rightarrow> int \<Rightarrow> int \<Rightarrow> int \<Rightarrow> int \<Rightarrow> int \<Rightarrow>
    'k layout_result list" where
  "push_factor_row results clients x y w h gap0 =
     (let count = ilen clients
      in if count = 0 then results
         else let gap = fitting_inner_gap w (length clients) gap0
              in results @ factor_row_loop x y w h gap count 0 0 (factor_sum clients) clients)"

primrec factor_column_loop :: "int \<Rightarrow> int \<Rightarrow> int \<Rightarrow> int \<Rightarrow> int \<Rightarrow> int \<Rightarrow> int \<Rightarrow> int \<Rightarrow> flt \<Rightarrow>
    'k layout_client list \<Rightarrow> 'k layout_result list" where
  "factor_column_loop x y w h gap count i used_h remaining [] = []"
| "factor_column_loop x y w h gap count i used_h remaining (c # cs) =
     (let ch = distribute_length h gap used_h i count (lc_factor c) remaining
      in result_new (lc_key c) (client_rect x (iadd (iadd y used_h) (imul i gap)) w ch (lc_border c))
         # factor_column_loop x y w h gap count (i + 1) (iadd used_h ch)
             (sub32 remaining (fmax (lc_factor c) (Fin 0))) cs)"

definition push_factor_column :: "'k layout_result list \<Rightarrow> 'k layout_client list \<Rightarrow> int \<Rightarrow> int \<Rightarrow> int \<Rightarrow> int \<Rightarrow> int \<Rightarrow>
    'k layout_result list" where
  "push_factor_column results clients x y w h gap0 =
     (let count = ilen clients
      in if count = 0 then results
         else let gap = fitting_inner_gap h (length clients) gap0
              in results @ factor_column_loop x y w h gap count 0 0 (factor_sum clients) clients)"

definition push_deck_previews :: "'k layout_result list \<Rightarrow> 'k layout_client list \<Rightarrow> int \<Rightarrow> int \<Rightarrow> int \<Rightarrow> int \<Rightarrow> int \<Rightarrow>
    'k layout_result list" where
  "push_deck_previews results clients x y w h gap =
     (let preview_step = clamp gap 6 16;
          maximum_offset = max (sat32 (min w h - 1)) 0
      in results @ map (\<lambda>(i, c).
           let off = min (imul (int (min i 5)) preview_step) maximum_offset
           in result_new (lc_key c) (client_rect (iadd x off) (iadd y off) (isub w off) (isub h off) (lc_border c)))
         (enumerate 0 clients))"

section \<open>Tile, monocle, fullscreen\<close>

text \<open>\<open>m_fact.clamp(0.05, 0.95)\<close> and \<open>m_fact.clamp(0.25, 0.75)\<close>.\<close>

definition wide_fact :: "flt \<Rightarrow> flt" where
  "wide_fact m = fclamp m (rnd32 (5 / 100)) (rnd32 (95 / 100))"

definition narrow_fact :: "flt \<Rightarrow> flt" where
  "narrow_fact m = fclamp m (rnd32 (25 / 100)) (rnd32 (75 / 100))"

definition calculate_tile :: "layout_params \<Rightarrow> 'k layout_client list \<Rightarrow> 'k layout_result list" where
  "calculate_tile p clients =
     (let n = length clients
      in if n = 0 then []
         else let gap = bounded_gap (screen_area p) (gap_px p);
                  area = usable_area (screen_area p) gap;
                  wx = rect_x area; wy = rect_y area; ww = rect_w area; wh = rect_h area;
                  has_stack = (n > n_master p \<and> n_master p > 0)
              in if n_master p = 0 then push_factor_column [] clients wx wy ww wh gap
                 else if has_stack \<and> wh > ww then
                   let mh = to_i32 (mul32 (f32_of (isub wh gap)) (wide_fact (m_fact p)));
                       sh = max (isub (isub wh mh) gap) 1;
                       master_end = min (n_master p) (length clients);
                       results = push_factor_row [] (take master_end clients) wx wy ww mh gap
                   in push_factor_row results (drop master_end clients) wx (iadd (iadd wy mh) gap) ww sh gap
                 else
                   let mw = (if has_stack then to_i32 (mul32 (f32_of (isub ww gap)) (wide_fact (m_fact p))) else ww);
                       stack_w = max (isub (isub ww mw) gap) 1;
                       master_end = min (n_master p) (length clients);
                       results = push_factor_column [] (take master_end clients) wx wy mw wh gap
                   in push_factor_column results (drop master_end clients) (iadd (iadd wx mw) gap) wy stack_w wh gap)"

definition calculate_monocle :: "layout_params \<Rightarrow> 'k layout_client list \<Rightarrow> 'k layout_result list" where
  "calculate_monocle p clients =
     map (\<lambda>c. result_new (lc_key c)
       (client_rect (rect_x (screen_area p)) (rect_y (screen_area p)) (rect_w (screen_area p)) (rect_h (screen_area p)) (lc_border c)))
     clients"

definition calculate_fullscreen :: "layout_params \<Rightarrow> 'k layout_client list \<Rightarrow> 'k layout_result list" where
  "calculate_fullscreen p clients =
     map (\<lambda>c. result_new (lc_key c)
       (rect_new (rect_x (screen_area p)) (rect_y (screen_area p)) (rect_w (screen_area p)) (rect_h (screen_area p))))
     clients"

section \<open>Fibonacci\<close>

text \<open>The loop state: master index and offset, and the shrinking stack area.\<close>

record fib_state =
  fib_mi :: int
  fib_my :: int
  fib_rem :: flt
  fib_sx :: int
  fib_sy :: int
  fib_sw :: int
  fib_sh :: int
  fib_stopped :: bool

primrec fib_loop :: "int \<Rightarrow> int \<Rightarrow> int \<Rightarrow> int \<Rightarrow> int \<Rightarrow> int \<Rightarrow> nat \<Rightarrow> nat \<Rightarrow> int \<Rightarrow> nat \<Rightarrow> fib_state \<Rightarrow>
    'k layout_client list \<Rightarrow> 'k layout_result list" where
  "fib_loop wx wy wh mw gap master_gap n nm n_master_count i s [] = []"
| "fib_loop wx wy wh mw gap master_gap n nm n_master_count i s (c # cs) =
     (if i < nm then
        let h = distribute_length wh master_gap (fib_my s) (fib_mi s) n_master_count (lc_factor c) (fib_rem s);
            res_y = iadd (iadd wy (fib_my s)) (imul (fib_mi s) master_gap)
        in result_new (lc_key c) (client_rect wx res_y mw h (lc_border c))
           # fib_loop wx wy wh mw gap master_gap n nm n_master_count (i + 1)
               (s\<lparr>fib_my := iadd (fib_my s) h, fib_mi := iadd (fib_mi s) 1,
                  fib_rem := sub32 (fib_rem s) (fmax (lc_factor c) (Fin 0))\<rparr>) cs
      else
        let stack_idx = i - nm;
            stack_count = n - nm;
            split_extent = (if stack_idx mod 2 = 0 then fib_sh s else fib_sw s);
            stopped = (fib_stopped s \<or> split_extent < sat32 (gap + 2));
            s1 = s\<lparr>fib_stopped := stopped\<rparr>
        in if stopped \<or> stack_idx = stack_count - 1 then
             result_new (lc_key c) (client_rect (fib_sx s) (fib_sy s) (fib_sw s) (fib_sh s) (lc_border c))
             # fib_loop wx wy wh mw gap master_gap n nm n_master_count (i + 1) s1 cs
           else if stack_idx mod 2 = 0 then
             let h = isub (fib_sh s) gap sdiv 2
             in result_new (lc_key c) (client_rect (fib_sx s) (fib_sy s) (fib_sw s) h (lc_border c))
                # fib_loop wx wy wh mw gap master_gap n nm n_master_count (i + 1)
                    (s1\<lparr>fib_sy := iadd (fib_sy s) (iadd h gap), fib_sh := isub (fib_sh s) (iadd h gap)\<rparr>) cs
           else
             let w = isub (fib_sw s) gap sdiv 2
             in result_new (lc_key c) (client_rect (fib_sx s) (fib_sy s) w (fib_sh s) (lc_border c))
                # fib_loop wx wy wh mw gap master_gap n nm n_master_count (i + 1)
                    (s1\<lparr>fib_sx := iadd (fib_sx s) (iadd w gap), fib_sw := isub (fib_sw s) (iadd w gap)\<rparr>) cs)"

definition calculate_fibonacci :: "layout_params \<Rightarrow> 'k layout_client list \<Rightarrow> 'k layout_result list" where
  "calculate_fibonacci p clients =
     (let n = length clients
      in if n = 0 then []
         else let gap = bounded_gap (screen_area p) (gap_px p);
                  area = usable_area (screen_area p) gap;
                  wx = rect_x area; wy = rect_y area; ww = rect_w area; wh = rect_h area;
                  has_stack = n > n_master p;
                  mw = (if has_stack then to_i32 (mul32 (f32_of (isub ww gap)) (wide_fact (m_fact p))) else ww);
                  n_master_count = wrap32 (int (min n (n_master p)));
                  master_gap = fitting_inner_gap wh (min (length clients) (n_master p)) gap;
                  total_m_fact = factor_sum (take (n_master p) clients)
              in fib_loop wx wy wh mw gap master_gap n (n_master p) n_master_count 0
                   \<lparr>fib_mi = 0, fib_my = 0, fib_rem = total_m_fact,
                    fib_sx = (if n_master p > 0 then iadd (iadd wx mw) gap else wx),
                    fib_sy = wy,
                    fib_sw = (if n_master p > 0 then isub (isub ww mw) gap else ww),
                    fib_sh = wh, fib_stopped = False\<rparr> clients)"

section \<open>Grid and bottom stack\<close>

definition calculate_grid :: "layout_params \<Rightarrow> 'k layout_client list \<Rightarrow> 'k layout_result list" where
  "calculate_grid p clients =
     (let n = length clients
      in if n = 0 then []
         else let gap = bounded_gap (screen_area p) (gap_px p);
                  area = usable_area (screen_area p) gap;
                  wx = rect_x area; wy = rect_y area; ww = rect_w area; wh = rect_h area;
                  (cols, rows) = choose_grid_dimensions n area;
                  row_gap = fitting_inner_gap wh (nat rows) gap;
                  cell_h = isub wh (imul (isub rows 1) row_gap) sdiv rows
              in map (\<lambda>(i, c).
                   let i32 = wrap32 (int i);
                       row = i32 sdiv cols;
                       col = isub i32 (imul row cols);
                       row_cols = (if row = isub rows 1 then isub (wrap32 (int n)) (imul row cols) else cols);
                       column_gap = fitting_inner_gap ww (nat row_cols) gap;
                       cell_w = isub ww (imul (isub row_cols 1) column_gap) sdiv row_cols;
                       x_off = imul col (iadd cell_w column_gap);
                       y_off = imul row (iadd cell_h row_gap);
                       w = (if col = isub row_cols 1 then isub ww x_off else cell_w);
                       h = (if row = isub rows 1 then isub wh y_off else cell_h)
                   in result_new (lc_key c) (client_rect (iadd wx x_off) (iadd wy y_off) w h (lc_border c)))
                 (enumerate 0 clients))"

text \<open>One turn of the \<open>for row in 0..stack_rows\<close> loop; \<open>break\<close> leaves it.\<close>

primrec bstack_rows :: "int \<Rightarrow> int \<Rightarrow> int \<Rightarrow> int \<Rightarrow> int \<Rightarrow> int \<Rightarrow> int \<Rightarrow> int \<Rightarrow> int \<Rightarrow> int \<Rightarrow> int \<Rightarrow>
    'k layout_client list \<Rightarrow> int list \<Rightarrow> 'k layout_result list \<Rightarrow> 'k layout_result list" where
  "bstack_rows wx wy ww mh gap row_gap n_stack stack_rows stack_cols stack_total_h stack_cell_h cs [] results = results"
| "bstack_rows wx wy ww mh gap row_gap n_stack stack_rows stack_cols stack_total_h stack_cell_h cs (row # rows) results =
     (let row_start = nat (imul row stack_cols)
      in if row_start \<ge> length cs then results
         else let row_len = (if row = stack_rows - 1 then nat (max (isub n_stack (imul row stack_cols)) 0)
                             else nat stack_cols);
                  row_end = min (row_start + row_len) (length cs);
                  row_h = (if row = stack_rows - 1
                           then max (isub stack_total_h (imul row (iadd stack_cell_h row_gap))) 1
                           else stack_cell_h);
                  results' = push_factor_row results (drop row_start (take row_end cs)) wx
                    (iadd (iadd (iadd wy mh) row_gap) (imul row (iadd stack_cell_h row_gap))) ww row_h gap
              in bstack_rows wx wy ww mh gap row_gap n_stack stack_rows stack_cols stack_total_h stack_cell_h cs rows results')"

definition calculate_bstack :: "layout_params \<Rightarrow> 'k layout_client list \<Rightarrow> 'k layout_result list" where
  "calculate_bstack p clients =
     (let n = length clients
      in if n = 0 then []
         else let gap = bounded_gap (screen_area p) (gap_px p);
                  area = usable_area (screen_area p) gap;
                  wx = rect_x area; wy = rect_y area; ww = rect_w area; wh = rect_h area;
                  nm = n_master p;
                  n_master_count = wrap32 (int (min n nm));
                  n_stack = min (int (n - nm)) i32_max
              in if nm = 0 then calculate_grid p clients
                 else let has_stack = (n_stack > 0 \<and> n_master_count > 0);
                          stack_rows = (if n_stack > 4 then 2 else 1);
                          row_gap = (if has_stack then fitting_inner_gap wh (1 + nat stack_rows) gap else 0);
                          mh = (if has_stack
                                then let stack_minimum = sat32 (stack_rows * sat32 (row_gap + 1))
                                     in clamp (to_i32 (mul32 (f32_of (isub wh row_gap)) (m_fact p)))
                                          1 (max (isub wh stack_minimum) 1)
                                else wh);
                          stack_cols = (if n_stack > 0 then isub (iadd n_stack stack_rows) 1 sdiv stack_rows else 0);
                          stack_total_h = max (isub (isub wh mh) row_gap) 1;
                          stack_cell_h = max (isub stack_total_h (imul (max (stack_rows - 1) 0) row_gap) sdiv max stack_rows 1) 1;
                          master_end = min nm (length clients);
                          results = push_factor_row [] (take master_end clients) wx wy ww mh gap
                      in bstack_rows wx wy ww mh gap row_gap n_stack stack_rows stack_cols stack_total_h stack_cell_h
                           (drop master_end clients) [0..stack_rows - 1] results)"

section \<open>Centered master and three columns\<close>

text \<open>\<open>iter().step_by(2)\<close>.\<close>

fun step_by2 :: "'a list \<Rightarrow> 'a list" where
  "step_by2 [] = []"
| "step_by2 [x] = [x]"
| "step_by2 (x # y # xs) = x # step_by2 xs"

definition centered_columns :: "layout_params \<Rightarrow> 'k layout_client list \<Rightarrow> bool \<Rightarrow> 'k layout_result list" where
  "centered_columns p clients shrink_master =
     (let n = length clients
      in if n = 0 then []
         else if n_master p = 0 then calculate_grid p clients
         else let gap = bounded_gap (screen_area p) (gap_px p);
                  area = usable_area (screen_area p) gap;
                  wx = rect_x area; wy = rect_y area; ww = rect_w area; wh = rect_h area;
                  n_stack = min (int (n - n_master p)) i32_max
              in if n_stack = 0 then push_factor_column [] clients wx wy ww wh gap
                 else if wh > ww then calculate_bstack p clients
                 else let mfact = narrow_fact (m_fact p);
                          master_end = min (n_master p) (length clients)
                      in if n_stack = 1 then
                           let mw = to_i32 (fmax (mul32 (f32_of (isub ww gap)) mfact) (Fin 1));
                               sw = max (isub (isub ww mw) gap) 1;
                               results = push_factor_column [] (take master_end clients) wx wy mw wh gap
                           in push_factor_column results (drop master_end clients) (iadd (iadd wx mw) gap) wy sw wh gap
                         else
                           let master_bias = (if \<not> shrink_master \<or> n_stack \<le> 2 then Fin 1
                                              else fmax (div32 (Fin 2) (f32_of n_stack)) (rnd32 (7 / 10)));
                               column_gap = fitting_inner_gap ww 3 gap;
                               content_w = max (sat32 (ww - sat32 (column_gap * 2))) 3;
                               mw = clamp (to_i32 (mul32 (mul32 (f32_of content_w) mfact) master_bias)) 1 (isub content_w 2);
                               side_w_total = max (isub content_w mw) 2;
                               left_w = max (side_w_total sdiv 2) 1;
                               right_w = max (isub side_w_total left_w) 1;
                               master_x = iadd (iadd wx left_w) column_gap;
                               right_x = iadd (iadd master_x mw) column_gap;
                               stack = drop master_end clients;
                               results = push_factor_column [] (take master_end clients) master_x wy mw wh gap;
                               results' = push_factor_column results (step_by2 stack) wx wy left_w wh gap
                           in push_factor_column results' (step_by2 (drop 1 stack)) right_x wy right_w wh gap)"

definition calculate_centered_master :: "layout_params \<Rightarrow> 'k layout_client list \<Rightarrow> 'k layout_result list" where
  "calculate_centered_master p clients = centered_columns p clients True"

definition calculate_three_col :: "layout_params \<Rightarrow> 'k layout_client list \<Rightarrow> 'k layout_result list" where
  "calculate_three_col p clients = centered_columns p clients False"

section \<open>Deck\<close>

definition calculate_deck :: "layout_params \<Rightarrow> 'k layout_client list \<Rightarrow> 'k layout_result list" where
  "calculate_deck p clients =
     (let n = length clients
      in if n = 0 then []
         else let gap = bounded_gap (screen_area p) (gap_px p);
                  area = usable_area (screen_area p) gap;
                  wx = rect_x area; wy = rect_y area; ww = rect_w area; wh = rect_h area;
                  nm = n_master p;
                  has_stack = (n > nm \<and> nm > 0)
              in if nm = 0 then push_deck_previews [] clients wx wy ww wh gap
                 else if has_stack \<and> wh > ww then
                   let mfact = narrow_fact (m_fact p);
                       mh = to_i32 (fmax (mul32 (f32_of (isub wh gap)) mfact) (Fin 1));
                       sh = max (isub (isub wh mh) gap) 1;
                       master_end = min nm (length clients);
                       results = push_factor_row [] (take master_end clients) wx wy ww mh gap
                   in push_deck_previews results (drop master_end clients) wx (iadd (iadd wy mh) gap) ww sh gap
                 else
                   let mw = (if has_stack then to_i32 (mul32 (f32_of (isub ww gap)) (m_fact p)) else ww);
                       master_end = min nm (length clients);
                       results = push_factor_column [] (take master_end clients) wx wy mw wh gap
                   in push_deck_previews results (drop master_end clients) (iadd (iadd wx mw) gap) wy
                        (isub (isub ww mw) gap) wh gap)"

section \<open>Tatami\<close>

text \<open>One result per listed cell; the cells of a pattern are \<open>(x, y, w, h)\<close>.\<close>

definition place_cells :: "'k layout_client list \<Rightarrow> (int \<times> int \<times> int \<times> int) list \<Rightarrow> 'k layout_result list" where
  "place_cells cs cells = map (\<lambda>(c, (x, y, w, h)). result_new (lc_key c) (client_rect x y w h (lc_border c))) (zip cs cells)"

definition tatami_small :: "int \<Rightarrow> int \<Rightarrow> int \<Rightarrow> int \<Rightarrow> int \<Rightarrow> 'k layout_client list \<Rightarrow> 'k layout_result list" where
  "tatami_small wx wy ww wh gap0 clients =
     (if length clients = 1 then place_cells clients [(wx, wy, ww, wh)]
      else if length clients = 2 then
        let gap = fitting_inner_gap ww 2 gap0;
            lw = isub ww gap sdiv 2;
            rw = isub (isub ww lw) gap
        in place_cells clients [(wx, wy, lw, wh), (iadd (iadd wx lw) gap, wy, rw, wh)]
      else if length clients = 3 then
        let column_gap = fitting_inner_gap ww 2 gap0;
            row_gap = fitting_inner_gap wh 2 gap0;
            lw = isub ww column_gap sdiv 2;
            rw = isub (isub ww lw) column_gap;
            rh = isub wh row_gap sdiv 2
        in place_cells clients
             [(wx, wy, lw, wh),
              (iadd (iadd wx lw) column_gap, wy, rw, rh),
              (iadd (iadd wx lw) column_gap, iadd (iadd wy rh) row_gap, rw, isub (isub wh rh) row_gap)]
      else
        let column_gap = fitting_inner_gap ww 2 gap0;
            row_gap = fitting_inner_gap wh 2 gap0;
            cw = isub ww column_gap sdiv 2;
            ch = isub wh row_gap sdiv 2;
            last_w = isub (isub ww cw) column_gap;
            last_h = isub (isub wh ch) row_gap
        in map (\<lambda>(i, c).
             let col = int i mod 2; row = int i div 2
             in result_new (lc_key c)
                  (client_rect (iadd wx (imul col (iadd cw column_gap))) (iadd wy (imul row (iadd ch row_gap)))
                    (if col = 1 then last_w else cw) (if row = 1 then last_h else ch) (lc_border c)))
           (enumerate 0 clients))"

definition tatami_five :: "int \<Rightarrow> int \<Rightarrow> int \<Rightarrow> int \<Rightarrow> int \<Rightarrow> nat \<Rightarrow> 'k layout_client list \<Rightarrow> 'k layout_result list" where
  "tatami_five wx gy ww row_h gap g cs =
     (let row_gap = fitting_inner_gap row_h 2 gap;
          top_h = isub row_h row_gap sdiv 2;
          bot_h = isub (isub row_h top_h) row_gap;
          by = iadd (iadd gy top_h) row_gap
      in if g mod 2 = 0 then
           let top_gap = fitting_inner_gap ww 3 gap;
               bottom_gap = fitting_inner_gap ww 2 gap;
               tw = isub ww (imul 2 top_gap) sdiv 3;
               tw_last = isub ww (imul 2 (iadd tw top_gap));
               bw = isub ww bottom_gap sdiv 2;
               bw_last = isub (isub ww bw) bottom_gap
           in place_cells cs
                [(wx, gy, tw, top_h),
                 (iadd (iadd wx tw) top_gap, gy, tw, top_h),
                 (iadd wx (imul 2 (iadd tw top_gap)), gy, tw_last, top_h),
                 (wx, by, bw, bot_h),
                 (iadd (iadd wx bw) bottom_gap, by, bw_last, bot_h)]
         else
           let top_gap = fitting_inner_gap ww 2 gap;
               bottom_gap = fitting_inner_gap ww 3 gap;
               tw = isub ww top_gap sdiv 2;
               tw_last = isub (isub ww tw) top_gap;
               bw = isub ww (imul 2 bottom_gap) sdiv 3;
               bw_last = isub ww (imul 2 (iadd bw bottom_gap))
           in place_cells cs
                [(wx, gy, tw, top_h),
                 (iadd (iadd wx tw) top_gap, gy, tw_last, top_h),
                 (wx, by, bw, bot_h),
                 (iadd (iadd wx bw) bottom_gap, by, bw, bot_h),
                 (iadd wx (imul 2 (iadd bw bottom_gap)), by, bw_last, bot_h)])"

definition tatami_tail :: "int \<Rightarrow> int \<Rightarrow> int \<Rightarrow> int \<Rightarrow> int \<Rightarrow> 'k layout_client list \<Rightarrow> 'k layout_result list" where
  "tatami_tail wx gy ww row_h gap0 cs =
     (let cols = ilen cs;
          gap = fitting_inner_gap ww (length cs) gap0;
          cw = isub ww (imul (isub cols 1) gap) sdiv cols
      in map (\<lambda>(j, c).
           let actual_w = (if int j = isub cols 1 then isub ww (imul (isub cols 1) (iadd cw gap)) else cw)
           in result_new (lc_key c) (client_rect (iadd wx (imul (int j) (iadd cw gap))) gy actual_w row_h (lc_border c)))
         (enumerate 0 cs))"

text \<open>The group loop: \<open>g\<close> counts the groups done, \<open>cs\<close> holds the clients left.\<close>

primrec tatami_groups :: "int \<Rightarrow> int \<Rightarrow> int \<Rightarrow> int \<Rightarrow> int \<Rightarrow> int \<Rightarrow> int \<Rightarrow> nat \<Rightarrow> nat list \<Rightarrow>
    'k layout_client list \<Rightarrow> 'k layout_result list" where
  "tatami_groups wx wy ww wh gap group_gap row_h0 groups [] cs = []"
| "tatami_groups wx wy ww wh gap group_gap row_h0 groups (g # gs) cs =
     (let count = min (length cs) 5;
          gy = iadd wy (imul (int g) (iadd row_h0 group_gap));
          row_h = (if g = groups - 1 then max (isub wh (imul (int g) (iadd row_h0 group_gap))) 1 else row_h0);
          here = take count cs;
          placed = (if count < 5 then tatami_tail wx gy ww row_h gap here
                    else tatami_five wx gy ww row_h gap g here)
      in placed @ tatami_groups wx wy ww wh gap group_gap row_h0 groups gs (drop count cs))"

definition calculate_tatami :: "layout_params \<Rightarrow> 'k layout_client list \<Rightarrow> 'k layout_result list" where
  "calculate_tatami p clients =
     (let n = length clients
      in if n = 0 then []
         else let gap = bounded_gap (screen_area p) (gap_px p)
              in if n > 10 then calculate_grid p clients
                 else let area = usable_area (screen_area p) gap;
                          wx = rect_x area; wy = rect_y area; ww = rect_w area; wh = rect_h area
                      in if n \<le> 4 then tatami_small wx wy ww wh gap clients
                         else let groups = (n + 4) div 5;
                                  group_gap = fitting_inner_gap wh groups gap;
                                  row_h = isub wh (imul (int groups - 1) group_gap) sdiv int groups
                              in tatami_groups wx wy ww wh gap group_gap row_h groups [0..<groups] clients)"

section \<open>Scrolling\<close>

text \<open>Strip positions and widths of the columns, left to right.\<close>

primrec strip_columns :: "int \<Rightarrow> int \<Rightarrow> flt list \<Rightarrow> nat \<Rightarrow> nat \<Rightarrow> int \<Rightarrow> (int \<times> int) list" where
  "strip_columns base_col_w gap factors i 0 x_cursor = []"
| "strip_columns base_col_w gap factors i (Suc left) x_cursor =
     (let width_factor = fclamp (case vec_get factors i of None \<Rightarrow> Fin 1 | Some f \<Rightarrow> f) (Fin (1 / 4)) (Fin (5 / 2));
          col_w = max (to_i32 (mul32 (f32_of base_col_w) width_factor)) 1;
          x1 = sat32 (x_cursor + col_w);
          x2 = (if left > 0 then sat32 (x1 + gap) else x1)
      in (x_cursor, col_w) # strip_columns base_col_w gap factors (i + 1) left x2)"

primrec scroll_window_loop :: "rect \<Rightarrow> int \<Rightarrow> int \<Rightarrow> int \<Rightarrow> int \<Rightarrow> int \<Rightarrow> int \<Rightarrow> int \<Rightarrow> int \<Rightarrow> flt \<Rightarrow>
    'k layout_client list \<Rightarrow> 'k layout_result list" where
  "scroll_window_loop screen outer_gap avail_h screen_x col_w column_gap count index y_cursor rem [] = []"
| "scroll_window_loop screen outer_gap avail_h screen_x col_w column_gap count index y_cursor rem (c # cs) =
     (let client_fact = fmax (lc_factor c) (Fin 0);
          h = distribute_length avail_h column_gap y_cursor index count client_fact rem;
          window_offset = sat32 (index * column_gap);
          win_y = sat32 (sat32 (sat32 (rect_y screen + outer_gap) + y_cursor) + window_offset)
      in result_new (lc_key c) (client_rect screen_x win_y col_w h (lc_border c))
         # scroll_window_loop screen outer_gap avail_h screen_x col_w column_gap count (index + 1)
             (sat32 (y_cursor + h)) (sub32 rem client_fact) cs)"

fun ffloor :: "flt \<Rightarrow> flt" where
  "ffloor (Fin x) = Fin (of_int \<lfloor>x\<rfloor>)" | "ffloor v = v"

definition calculate_scrolling :: "scrolling_params \<Rightarrow> 'k layout_client list list \<Rightarrow> nat \<Rightarrow>
    'k layout_result list \<times> flt" where
  "calculate_scrolling p columns focus_col0 =
     (if columns = [] then ([], Fin 0)
      else let gap = bounded_gap (sp_area p) (sp_gap p);
               screen = sp_area p;
               base_col_w = max (to_i32 (mul32 (f32_of (rect_w screen)) (column_width_ratio p))) 1;
               outer_gap = gap;
               avail_h = max (sat32 (rect_h screen - sat32 (outer_gap * 2))) 0;
               strip = strip_columns base_col_w gap (column_width_factors p) 0 (length columns) 0;
               focus_col = min focus_col0 (length columns - 1);
               (focus_x, focus_w) = strip ! focus_col;
               focus_col_center = add32 (f32_of focus_x) (div32 (f32_of focus_w) (Fin 2));
               new_viewport_x = sub32 focus_col_center (div32 (f32_of (rect_w screen)) (Fin 2));
               viewport_shift = ffloor (sub64 (f64_of (rect_x screen)) new_viewport_x)
           in (concat (map (\<lambda>((strip_x, col_w), col).
                 if col = [] then []
                 else let screen_x = to_i32 (fclamp (add64 (f64_of strip_x) viewport_shift) (f64_of i32_min) (f64_of i32_max));
                          column_gap = fitting_inner_gap avail_h (length col) gap;
                          count = min (int (length col)) i32_max
                      in scroll_window_loop screen outer_gap avail_h screen_x col_w column_gap count 0 0 (factor_sum col) col)
               (zip strip columns)), new_viewport_x))"

section \<open>V-stack\<close>

definition calculate_vstack :: "layout_params \<Rightarrow> 'k layout_client list \<Rightarrow> 'k layout_result list" where
  "calculate_vstack p clients =
     (let n = length clients
      in if n = 0 then []
         else let gap = bounded_gap (screen_area p) (gap_px p);
                  area = usable_area (screen_area p) gap;
                  wx = rect_x area; wy = rect_y area; ww = rect_w area; wh = rect_h area;
                  scale = (if n \<le> 5 then Fin 1
                           else fclamp (sqrt32 (div32 (Fin 5) (f32_of (int n)))) (rnd32 (35 / 100)) (Fin 1));
                  half_w = max (to_i32 (mul32 (div32 (f32_of ww) (Fin 2)) scale)) 1;
                  half_h = max (to_i32 (mul32 (div32 (f32_of wh) (Fin 2)) scale)) 1;
                  center_x = sat32 (wx + isub ww half_w sdiv 2);
                  bottom_y = sat32 (wy + isub wh half_h);
                  tan30 = rnd32 (57735 / 100000);
                  max_depth = (if n \<le> 1 then 1 else wrap32 (int n) sdiv 2);
                  max_step_x = isub ww half_w sdiv imul 2 max_depth;
                  max_step_y = to_i32 (div32 (f32_of (isub wh half_h)) (mul32 (f32_of max_depth) tan30));
                  step_x = max (min max_step_x max_step_y) 0;
                  step_y = to_i32 (mul32 (f32_of step_x) tan30)
              in map (\<lambda>(i, c).
                   let (x, y) =
                     (if i = 0 then (center_x, bottom_y)
                      else let depth = iadd (wrap32 (int i)) 1 sdiv 2;
                               is_right = (i mod 2 = 1);
                               dx = imul depth step_x;
                               dy = imul depth step_y;
                               x = (if is_right then sat32 (center_x + dx) else sat32 (center_x - dx));
                               y = sat32 (bottom_y - dy)
                           in (x, y))
                   in result_new (lc_key c) (client_rect x y half_w half_h (lc_border c)))
                 (enumerate 0 clients))"

end
