(* ===== verification/Bar_Geometry.thy ===== *)
theory Bar_Geometry
  imports Struts Layout
begin

text \<open>
  The strips of the screen that bars and shell panels own: \<open>src/jwm/bar_geometry.rs\<close>, and of
  \<open>crates/xbar_core\<close> the edges of \<open>placement.rs\<close>, the panels, sensors and reveal timing of
  \<open>edge_shell.rs\<close> and the shell settings of \<open>desktop_shell.rs\<close>. Instants and durations are
  milliseconds. The bar and its reservation stay inside the output, the sensors of an output do not
  compete for pixels, a dismissed panel stays hidden, and the strut a bar announces is read back by
  the window manager's own strut code as exactly its reservation.
\<close>

section \<open>Edges\<close>

datatype bar_edge = Edge_Top | Edge_Bottom | Edge_Left | Edge_Right

fun edge_is_vertical :: "bar_edge \<Rightarrow> bool" where
  "edge_is_vertical Edge_Left = True" | "edge_is_vertical Edge_Right = True" | "edge_is_vertical _ = False"

definition physical_thickness :: "bar_edge \<Rightarrow> nat \<Rightarrow> nat \<Rightarrow> nat" where
  "physical_thickness edge width height = (if edge_is_vertical edge then width else height)"

fun edge_as_str :: "bar_edge \<Rightarrow> string" where
  "edge_as_str Edge_Top = ''top''" | "edge_as_str Edge_Bottom = ''bottom''"
| "edge_as_str Edge_Left = ''left''" | "edge_as_str Edge_Right = ''right''"

definition edge_from_str :: "string \<Rightarrow> bar_edge option" where
  "edge_from_str value = (let s = to_ascii_lowercase (trim value) in
     if s = ''top'' then Some Edge_Top else if s = ''bottom'' then Some Edge_Bottom
     else if s = ''left'' then Some Edge_Left else if s = ''right'' then Some Edge_Right else None)"

text \<open>\<open>u32\<close> extents are natural numbers; \<open>i32\<close> origins integers.\<close>

record bar_placement =
  bp_x :: int
  bp_y :: int
  bp_w :: nat
  bp_h :: nat

record output_geometry =
  og_x :: int
  og_y :: int
  og_w :: nat
  og_h :: nat

definition nat_clamp :: "nat \<Rightarrow> nat \<Rightarrow> nat \<Rightarrow> nat" where
  "nat_clamp v lo hi = (if v < lo then lo else if hi < v then hi else v)"

section \<open>Shell settings\<close>

datatype reveal_mode = Hover | Always | Disabled

record edge_shell_config =
  es_enabled :: bool
  es_left :: reveal_mode
  es_right :: reveal_mode
  es_bottom :: reveal_mode
  reveal_delay_ms :: nat
  hide_delay_ms :: nat
  trigger_pixels :: nat

definition edge_shell_default :: edge_shell_config where
  "edge_shell_default = \<lparr>es_enabled = True, es_left = Hover, es_right = Hover, es_bottom = Hover, reveal_delay_ms = 80,
     hide_delay_ms = 400, trigger_pixels = 2\<rparr>"

definition shell_validate :: "edge_shell_config \<Rightarrow> string + unit" where
  "shell_validate c =
     (if reveal_delay_ms c > 2000 \<or> hide_delay_ms c > 5000 then Inl ''reveal_delay_ms must be 0..2000 and hide_delay_ms 0..5000''
      else if \<not> (1 \<le> trigger_pixels c \<and> trigger_pixels c \<le> 8) then Inl ''trigger_pixels must be 1..8 physical pixels''
      else Inr ())"

definition shell_mode :: "edge_shell_config \<Rightarrow> bar_edge \<Rightarrow> reveal_mode" where
  "shell_mode c edge = (if \<not> es_enabled c then Disabled
     else case edge of Edge_Left \<Rightarrow> es_left c | Edge_Right \<Rightarrow> es_right c | Edge_Bottom \<Rightarrow> es_bottom c | Edge_Top \<Rightarrow> Disabled)"

text \<open>\<open>DesktopShellConfig\<close> has the fields of \<open>EdgeShellConfig\<close>; \<open>as_edge_shell\<close> copies them.\<close>

definition toggled_mode :: "edge_shell_config \<Rightarrow> edge_shell_config" where
  "toggled_mode c =
     (let target = (if Hover \<in> set [es_left c, es_right c, es_bottom c] then Always else Hover);
          toggle = (\<lambda>mode. if mode = Disabled then mode else target)
      in c\<lparr>es_left := toggle (es_left c), es_right := toggle (es_right c), es_bottom := toggle (es_bottom c)\<rparr>)"

datatype shell_source = Src_Default | Src_Desktop_Shell | Src_Legacy_Four_Edge | Src_Legacy_Edge_Shell

definition shell_resolve :: "edge_shell_config option \<Rightarrow> bool \<Rightarrow> edge_shell_config option \<Rightarrow> edge_shell_config \<times> shell_source" where
  "shell_resolve explicit legacy_four_edge legacy_edge_shell = (case explicit of
     Some c \<Rightarrow> (c, Src_Desktop_Shell)
   | None \<Rightarrow> if legacy_four_edge
       then (edge_shell_default\<lparr>es_enabled := True, es_left := Always, es_right := Always, es_bottom := Always\<rparr>, Src_Legacy_Four_Edge)
       else case legacy_edge_shell of Some c \<Rightarrow> (c, Src_Legacy_Edge_Shell) | None \<Rightarrow> (edge_shell_default, Src_Default))"

section \<open>Revealing an edge\<close>

record edge_reveal =
  er_mode :: reveal_mode
  er_visible :: bool
  er_pending :: "(nat \<times> bool) option"
  dismissed_until_leave :: bool

definition reveal_new :: "reveal_mode \<Rightarrow> edge_reveal" where
  "reveal_new mode = \<lparr>er_mode = mode, er_visible = (mode = Always), er_pending = None, dismissed_until_leave = False\<rparr>"

definition reveal_deadline :: "edge_reveal \<Rightarrow> nat option" where
  "reveal_deadline r = map_option fst (er_pending r)"

definition reveal_set_mode :: "reveal_mode \<Rightarrow> bool \<Rightarrow> edge_reveal \<Rightarrow> edge_reveal" where
  "reveal_set_mode mode pointer_inside r = r\<lparr>er_mode := mode, er_pending := None, dismissed_until_leave := False,
     er_visible := (mode = Always \<or> mode = Hover \<and> pointer_inside)\<rparr>"

definition reveal_dismiss :: "edge_reveal \<Rightarrow> edge_reveal" where
  "reveal_dismiss r = r\<lparr>er_visible := False, er_pending := None, dismissed_until_leave := True\<rparr>"

definition reveal_enter :: "nat \<Rightarrow> edge_shell_config \<Rightarrow> edge_reveal \<Rightarrow> edge_reveal" where
  "reveal_enter now c r = r\<lparr>er_pending :=
     (if er_mode r \<noteq> Disabled \<and> \<not> er_visible r \<and> \<not> dismissed_until_leave r then Some (now + reveal_delay_ms c, True) else None)\<rparr>"

definition reveal_leave :: "nat \<Rightarrow> edge_shell_config \<Rightarrow> edge_reveal \<Rightarrow> edge_reveal" where
  "reveal_leave now c r = r\<lparr>dismissed_until_leave := False, er_pending :=
     (if er_mode r = Hover \<and> er_visible r then Some (now + hide_delay_ms c, False) else None)\<rparr>"

definition reveal_tick :: "nat \<Rightarrow> edge_reveal \<Rightarrow> bool \<times> edge_reveal" where
  "reveal_tick now r = (case er_pending r of
     Some (deadline, visible) \<Rightarrow>
       if now \<ge> deadline then (er_visible r \<noteq> visible, r\<lparr>er_pending := None, er_visible := visible\<rparr>) else (False, r)
   | None \<Rightarrow> (False, r))"

section \<open>Sensors and panels\<close>

definition trigger_geometry :: "output_geometry \<Rightarrow> bar_edge \<Rightarrow> nat \<Rightarrow> bar_placement" where
  "trigger_geometry out edge trigger =
     (let width = nat_clamp (og_w out) 1 16384;
          height = nat_clamp (og_h out) 1 16384;
          t = min (min (nat_clamp trigger 1 8) width) height;
          corner = min t (((if edge_is_vertical edge then height else width) - 1) div 2);
          (x, y, w, h) = (case edge of
             Edge_Left \<Rightarrow> (0, corner, t, height - 2 * corner)
           | Edge_Right \<Rightarrow> (width - t, corner, t, height - 2 * corner)
           | Edge_Bottom \<Rightarrow> (corner, height - t, width - 2 * corner, t)
           | Edge_Top \<Rightarrow> (corner, 0, width - 2 * corner, t))
      in \<lparr>bp_x = sat32 (og_x out + int x), bp_y = sat32 (og_y out + int y), bp_w = w, bp_h = h\<rparr>)"

definition contains_pointer :: "bar_placement \<Rightarrow> int \<Rightarrow> int \<Rightarrow> bool" where
  "contains_pointer r x y \<longleftrightarrow> x \<ge> bp_x r \<and> y \<ge> bp_y r \<and> x < bp_x r + int (bp_w r) \<and> y < bp_y r + int (bp_h r)"

definition panel_geometry :: "output_geometry \<Rightarrow> bar_edge \<Rightarrow> bool \<Rightarrow> nat \<Rightarrow> bar_placement" where
  "panel_geometry out edge visible trigger =
     (let width = nat_clamp (og_w out) 1 16384;
          height = nat_clamp (og_h out) 1 16384;
          vertical = edge_is_vertical edge;
          long = (if vertical then nat_clamp (height - 144) 1 (if edge = Edge_Right then 720 else 680)
                  else nat_clamp (width * 4 div 5) 1 1344);
          cross = (if visible then if vertical then 90 else 76 else nat_clamp trigger 1 8);
          (w, h) = (if vertical then (min cross width, min long height) else (min long width, min cross height));
          side_y = (height - nat_clamp (height - 144) 1 680) div 2 - 10;
          (x, y) = (case edge of
             Edge_Left \<Rightarrow> (0, side_y)
           | Edge_Right \<Rightarrow> (width - w, side_y)
           | Edge_Bottom \<Rightarrow> ((width - w) div 2, height - h)
           | Edge_Top \<Rightarrow> ((width - w) div 2, 0))
      in \<lparr>bp_x = sat32 (og_x out + int x), bp_y = sat32 (og_y out + int y), bp_w = w, bp_h = h\<rparr>)"

text \<open>Workspace depths of the pinned panels: left, right, top, bottom.\<close>

definition shell_reservation_depths :: "edge_shell_config \<Rightarrow> output_geometry \<Rightarrow> nat \<times> nat \<times> nat \<times> nat" where
  "shell_reservation_depths c out =
     (let depth = (\<lambda>edge. if shell_mode c edge \<noteq> Always then 0
            else let panel = panel_geometry out edge True (trigger_pixels c)
                 in if edge_is_vertical edge then bp_w panel else bp_h panel)
      in (depth Edge_Left, depth Edge_Right, 0, depth Edge_Bottom))"

section \<open>The bar of a monitor\<close>

record bar_geometry =
  bg_rect :: rect
  bg_edge :: bar_edge
  bg_reservation :: int

definition bar_geometry_new :: "rect \<Rightarrow> bar_edge \<Rightarrow> int \<Rightarrow> int \<Rightarrow> bar_geometry" where
  "bar_geometry_new out edge thickness0 padding =
     (let width = max (rect_w out) 1;
          height = max (rect_h out) 1;
          pad = min (max padding 0) ((min width height - 1) sdiv 2);
          cross_extent = (if edge_is_vertical edge then width else height);
          thickness = min (max thickness0 1) (cross_extent - 2 * pad);
          (x, y, w, h) = (case edge of
             Edge_Top \<Rightarrow> (pad, pad, width - 2 * pad, thickness)
           | Edge_Bottom \<Rightarrow> (pad, height - pad - thickness, width - 2 * pad, thickness)
           | Edge_Left \<Rightarrow> (pad, pad, thickness, height - 2 * pad)
           | Edge_Right \<Rightarrow> (width - pad - thickness, pad, thickness, height - 2 * pad))
      in \<lparr>bg_rect = rect_new (sat32 (rect_x out + x)) (sat32 (rect_y out + y)) w h, bg_edge = edge,
          bg_reservation = min (sat32 (thickness + 2 * pad)) (cross_extent - 1)\<rparr>)"

text \<open>The settings of the status bar and the shell.\<close>

record bar_config =
  bar_height_px :: int
  bar_padding_px :: int
  bar_positions :: "(int \<times> bar_edge) list"
  bar_position :: bar_edge
  desktop_shell_config :: edge_shell_config

definition status_bar_position_for_monitor :: "bar_config \<Rightarrow> int \<Rightarrow> bar_edge" where
  "status_bar_position_for_monitor cfg monitor =
     (if es_enabled (desktop_shell_config cfg) then Edge_Top
      else case find (\<lambda>(m, _). m = monitor) (bar_positions cfg) of Some (_, edge) \<Rightarrow> edge | None \<Rightarrow> bar_position cfg)"

definition reservation_depths :: "rect \<Rightarrow> bar_edge \<Rightarrow> bar_config \<Rightarrow> int \<times> int \<times> int \<times> int" where
  "reservation_depths out edge cfg =
     (let bar = bar_geometry_new out edge (bar_height_px cfg) (bar_padding_px cfg);
          r = bg_reservation bar;
          (dl, dr, dt, db) = (case edge of Edge_Left \<Rightarrow> (r, 0, 0, 0) | Edge_Right \<Rightarrow> (0, r, 0, 0)
             | Edge_Top \<Rightarrow> (0, 0, r, 0) | Edge_Bottom \<Rightarrow> (0, 0, 0, r))
      in if es_enabled (desktop_shell_config cfg)
         then let (sl, sr, st, sb) = shell_reservation_depths (desktop_shell_config cfg)
                    \<lparr>og_x = rect_x out, og_y = rect_y out, og_w = nat (max (rect_w out) 1), og_h = nat (max (rect_h out) 1)\<rparr>
              in (max dl (min (int sl) i32_max), max dr (min (int sr) i32_max), max dt (min (int st) i32_max), max db (min (int sb) i32_max))
         else (dl, dr, dt, db))"

definition bar_for_monitor :: "wm_monitor \<Rightarrow> bar_config \<Rightarrow> bar_geometry" where
  "bar_for_monitor m cfg =
     (let g = mon_geometry m
      in bar_geometry_new (rect_new (m_x g) (m_y g) (m_w g) (m_h g)) (status_bar_position_for_monitor cfg (mon_num m))
           (bar_height_px cfg) (bar_padding_px cfg))"

definition unreserved_depth :: "bar_geometry \<Rightarrow> rect \<Rightarrow> rect \<Rightarrow> int" where
  "unreserved_depth bar phys work =
     (let covered = (case bg_edge bar of
        Edge_Top \<Rightarrow> rect_y work - rect_y phys
      | Edge_Bottom \<Rightarrow> rect_y phys + rect_h phys - rect_y work - rect_h work
      | Edge_Left \<Rightarrow> rect_x work - rect_x phys
      | Edge_Right \<Rightarrow> rect_x phys + rect_w phys - rect_x work - rect_w work)
      in max (bg_reservation bar - max covered 0) 0)"

definition zero_strut :: strut_partial where
  "zero_strut = \<lparr>st_left = 0, st_right = 0, st_top = 0, st_bottom = 0, left_start_y = 0, left_end_y = 0, right_start_y = 0,
     right_end_y = 0, top_start_x = 0, top_end_x = 0, bottom_start_x = 0, bottom_end_x = 0\<rparr>"

text \<open>The twelve numbers of the strut in their order are the fields of \<open>strut_partial\<close>.\<close>

definition bar_strut :: "bar_geometry \<Rightarrow> rect \<Rightarrow> rect \<Rightarrow> strut_partial" where
  "bar_strut bar out root_rect =
     (let x = rect_x out - rect_x root_rect;
          y = rect_y out - rect_y root_rect;
          right = x + max (rect_w out) 1;
          bottom = y + max (rect_h out) 1;
          root_width = max (rect_w root_rect) 1;
          root_height = max (rect_h root_rect) 1;
          depth = nat (max (bg_reservation bar) 0);
          h0 = nat (max x 0); h1 = nat (clamp (right - 1) 0 (root_width - 1));
          v0 = nat (max y 0); v1 = nat (clamp (bottom - 1) 0 (root_height - 1))
      in case bg_edge bar of
           Edge_Top \<Rightarrow> if y = 0 then zero_strut\<lparr>st_top := depth, top_start_x := h0, top_end_x := h1\<rparr> else zero_strut
         | Edge_Bottom \<Rightarrow> if bottom = root_height then zero_strut\<lparr>st_bottom := depth, bottom_start_x := h0, bottom_end_x := h1\<rparr> else zero_strut
         | Edge_Left \<Rightarrow> if x = 0 then zero_strut\<lparr>st_left := depth, left_start_y := v0, left_end_y := v1\<rparr> else zero_strut
         | Edge_Right \<Rightarrow> if right = root_width then zero_strut\<lparr>st_right := depth, right_start_y := v0, right_end_y := v1\<rparr> else zero_strut)"

section \<open>The bar stays on its output\<close>

text \<open>An output that the 32-bit coordinates can address.\<close>

definition output_ok :: "rect \<Rightarrow> bool" where
  "output_ok out \<longleftrightarrow> 1 \<le> rect_w out \<and> 1 \<le> rect_h out \<and> rect_w out \<le> i32_max \<and> rect_h out \<le> i32_max \<and> i32_min \<le> rect_x out \<and> rect_x out + rect_w out \<le> i32_max \<and>
     i32_min \<le> rect_y out \<and> rect_y out + rect_h out \<le> i32_max"

definition cross_of :: "bar_edge \<Rightarrow> rect \<Rightarrow> int" where
  "cross_of edge r = (if edge_is_vertical edge then rect_w r else rect_h r)"

definition reserved_strip :: "bar_edge \<Rightarrow> int \<Rightarrow> rect \<Rightarrow> rect" where
  "reserved_strip edge depth out = (case edge of
     Edge_Top \<Rightarrow> rect_new (rect_x out) (rect_y out) (rect_w out) depth
   | Edge_Bottom \<Rightarrow> rect_new (rect_x out) (rect_y out + rect_h out - depth) (rect_w out) depth
   | Edge_Left \<Rightarrow> rect_new (rect_x out) (rect_y out) depth (rect_h out)
   | Edge_Right \<Rightarrow> rect_new (rect_x out + rect_w out - depth) (rect_y out) depth (rect_h out))"

lemma bar_pad_bounds:
  assumes "1 \<le> w" "1 \<le> h" "pad = min (max p 0) ((min w h - 1) sdiv 2)"
  shows "0 \<le> pad" "2 * pad \<le> w - 1" "2 * pad \<le> h - (1::int)"
  using assms by (auto simp: sdiv_nonneg)

lemma bar_geometry_parts:
  assumes "1 \<le> rect_w out" "1 \<le> rect_h out" "pad = min (max p 0) ((min (rect_w out) (rect_h out) - 1) sdiv 2)"
    "th = min (max t 1) (cross_of edge out - 2 * pad)"
  shows "bar_geometry_new out edge t p = \<lparr>bg_rect = (case edge of
      Edge_Top \<Rightarrow> rect_new (sat32 (rect_x out + pad)) (sat32 (rect_y out + pad)) (rect_w out - 2 * pad) th
    | Edge_Bottom \<Rightarrow> rect_new (sat32 (rect_x out + pad)) (sat32 (rect_y out + (rect_h out - pad - th))) (rect_w out - 2 * pad) th
    | Edge_Left \<Rightarrow> rect_new (sat32 (rect_x out + pad)) (sat32 (rect_y out + pad)) th (rect_h out - 2 * pad)
    | Edge_Right \<Rightarrow> rect_new (sat32 (rect_x out + (rect_w out - pad - th))) (sat32 (rect_y out + pad)) th (rect_h out - 2 * pad)),
    bg_edge = edge, bg_reservation = min (sat32 (th + 2 * pad)) (cross_of edge out - 1)\<rparr>"
  unfolding bar_geometry_new_def max_absorb1 [OF assms(1)] max_absorb1 [OF assms(2)] assms(3) [symmetric] Let_def
  by (cases edge) (simp_all add: cross_of_def assms(4))

text \<open>The padding and the thickness of the bar of an output, and what bounds them.\<close>

lemma bar_cases:
  assumes "output_ok out"
  obtains pad th where "0 \<le> pad" "2 * pad < rect_w out" "2 * pad < rect_h out" "1 \<le> th" "th + 2 * pad \<le> cross_of edge out"
    "bar_geometry_new out edge t p = \<lparr>bg_rect = (case edge of
      Edge_Top \<Rightarrow> rect_new (rect_x out + pad) (rect_y out + pad) (rect_w out - 2 * pad) th
    | Edge_Bottom \<Rightarrow> rect_new (rect_x out + pad) (rect_y out + (rect_h out - pad - th)) (rect_w out - 2 * pad) th
    | Edge_Left \<Rightarrow> rect_new (rect_x out + pad) (rect_y out + pad) th (rect_h out - 2 * pad)
    | Edge_Right \<Rightarrow> rect_new (rect_x out + (rect_w out - pad - th)) (rect_y out + pad) th (rect_h out - 2 * pad)),
    bg_edge = edge, bg_reservation = min (th + 2 * pad) (cross_of edge out - 1)\<rparr>"
proof -
  obtain pad where pad0: "pad = min (max p 0) ((min (rect_w out) (rect_h out) - 1) sdiv 2)" by blast
  obtain th where th0: "th = min (max t 1) (cross_of edge out - 2 * pad)" by blast
  have o: "1 \<le> rect_w out" "1 \<le> rect_h out" using assms by (auto simp: output_ok_def)
  note pad = bar_pad_bounds [OF o pad0]
  note parts = bar_geometry_parts [OF o pad0 th0]
  have th: "1 \<le> th" "th + 2 * pad \<le> cross_of edge out" using pad o unfolding th0 cross_of_def by auto
  have b: "rect_x out + rect_w out \<le> i32_max" "rect_y out + rect_h out \<le> i32_max" "i32_min \<le> rect_x out" "i32_min \<le> rect_y out"
    using assms by (auto simp: output_ok_def)
  have c: "th + 2 * pad \<le> i32_max" using th assms by (auto simp: cross_of_def output_ok_def split: if_splits)
  have s: "sat32 (rect_x out + v) = rect_x out + v" if "0 \<le> v" "v \<le> rect_w out" for v using that b by (intro sat32_id) auto
  have s': "sat32 (rect_y out + v) = rect_y out + v" if "0 \<le> v" "v \<le> rect_h out" for v using that b by (intro sat32_id) auto
  have m: "min (sat32 (th + 2 * pad)) (cross_of edge out - 1) = min (th + 2 * pad) (cross_of edge out - 1)"
    using th(1) pad(1) c by (subst sat32_id) auto
  show ?thesis
  proof (rule that [of pad th])
    show "2 * pad < rect_w out" "2 * pad < rect_h out" using pad by auto
    show "bar_geometry_new out edge t p = \<lparr>bg_rect = (case edge of
      Edge_Top \<Rightarrow> rect_new (rect_x out + pad) (rect_y out + pad) (rect_w out - 2 * pad) th
    | Edge_Bottom \<Rightarrow> rect_new (rect_x out + pad) (rect_y out + (rect_h out - pad - th)) (rect_w out - 2 * pad) th
    | Edge_Left \<Rightarrow> rect_new (rect_x out + pad) (rect_y out + pad) th (rect_h out - 2 * pad)
    | Edge_Right \<Rightarrow> rect_new (rect_x out + (rect_w out - pad - th)) (rect_y out + pad) th (rect_h out - 2 * pad)),
      bg_edge = edge, bg_reservation = min (th + 2 * pad) (cross_of edge out - 1)\<rparr>"
      unfolding parts m using pad th by (cases edge) (simp_all add: cross_of_def s s')
  qed (fact pad(1) th)+
qed

lemma bar_reservation_bounds:
  assumes "output_ok out"
  shows "0 \<le> bg_reservation (bar_geometry_new out edge t p)" "bg_reservation (bar_geometry_new out edge t p) < cross_of edge out"
    "bg_edge (bar_geometry_new out edge t p) = edge"
  using assms by (rule bar_cases [where edge = edge and t = t and p = p]; (auto simp: cross_of_def)[1])+

text \<open>
The bar of an output lies on the output and has at least one pixel, its reservation leaves at
  least one pixel of the workspace, and unless the bar covers the whole depth of the output it lies
  inside the strip that is reserved for it.
\<close>

theorem bar_stays_in_its_strip:
  assumes "output_ok out" "bar = bar_geometry_new out edge t p"
  shows "inside out (bg_rect bar) \<and> 1 \<le> rect_w (bg_rect bar) \<and> 1 \<le> rect_h (bg_rect bar) \<and>
    0 \<le> bg_reservation bar \<and> bg_reservation bar < cross_of edge out \<and>
    (cross_of edge (bg_rect bar) < cross_of edge out \<longrightarrow> inside (reserved_strip edge (bg_reservation bar) out) (bg_rect bar))"
proof -
  obtain pad th where b: "0 \<le> pad" "2 * pad < rect_w out" "2 * pad < rect_h out" "1 \<le> th" "th + 2 * pad \<le> cross_of edge out"
    "bar = \<lparr>bg_rect = (case edge of
      Edge_Top \<Rightarrow> rect_new (rect_x out + pad) (rect_y out + pad) (rect_w out - 2 * pad) th
    | Edge_Bottom \<Rightarrow> rect_new (rect_x out + pad) (rect_y out + (rect_h out - pad - th)) (rect_w out - 2 * pad) th
    | Edge_Left \<Rightarrow> rect_new (rect_x out + pad) (rect_y out + pad) th (rect_h out - 2 * pad)
    | Edge_Right \<Rightarrow> rect_new (rect_x out + (rect_w out - pad - th)) (rect_y out + pad) th (rect_h out - 2 * pad)),
    bg_edge = edge, bg_reservation = min (th + 2 * pad) (cross_of edge out - 1)\<rparr>"
    unfolding assms(2) by (rule bar_cases [OF assms(1), where edge = edge and t = t and p = p])
  show ?thesis
  proof (cases edge)
    case Edge_Top then show ?thesis using b by (auto simp: inside_def reserved_strip_def cross_of_def min_def)
  next
    case Edge_Bottom then show ?thesis using b by (auto simp: inside_def reserved_strip_def cross_of_def min_def)
  next
    case Edge_Left then show ?thesis using b by (auto simp: inside_def reserved_strip_def cross_of_def min_def)
  next
    case Edge_Right then show ?thesis using b by (auto simp: inside_def reserved_strip_def cross_of_def min_def)
  qed
qed

theorem bar_stays_in_its_strip_witness:
  "inside (rect_new (- 1920) 0 1920 1080) (bg_rect (bar_geometry_new (rect_new (- 1920) 0 1920 1080) Edge_Bottom 30 5)) \<and>
   bg_reservation (bar_geometry_new (rect_new (- 1920) 0 1920 1080) Edge_Bottom 30 5) = 40"
proof -
  have "output_ok (rect_new (- 1920) 0 1920 1080)" by (simp add: output_ok_def)
  moreover have "bg_reservation (bar_geometry_new (rect_new (- 1920) 0 1920 1080) Edge_Bottom 30 5) = 40" by code_simp
  ultimately show ?thesis using bar_stays_in_its_strip [OF _ refl, of "rect_new (- 1920) 0 1920 1080" Edge_Bottom 30 5] by blast
qed

section \<open>Announced and read back\<close>

definition whole_desktop :: "int \<Rightarrow> int \<Rightarrow> desktop_bounds" where
  "whole_desktop w h = \<lparr>db_left = 0, db_top = 0, db_right = w, db_bottom = h\<rparr>"

definition on_edge :: "bar_edge \<Rightarrow> rect \<Rightarrow> int \<Rightarrow> int \<Rightarrow> bool" where
  "on_edge edge out w h = (case edge of Edge_Top \<Rightarrow> rect_y out = 0 | Edge_Bottom \<Rightarrow> rect_y out + rect_h out = h
     | Edge_Left \<Rightarrow> rect_x out = 0 | Edge_Right \<Rightarrow> rect_x out + rect_w out = w)"

text \<open>A depth at one edge, in the order top, bottom, left, right of the strut code.\<close>

definition at_edge :: "bar_edge \<Rightarrow> int \<Rightarrow> int \<times> int \<times> int \<times> int" where
  "at_edge edge d = (case edge of Edge_Top \<Rightarrow> (d, 0, 0, 0) | Edge_Bottom \<Rightarrow> (0, d, 0, 0) | Edge_Left \<Rightarrow> (0, 0, d, 0) | Edge_Right \<Rightarrow> (0, 0, 0, d))"

lemma edge_depth_zero [simp]: "edge_depth 0 d e = 0"
  by (simp add: edge_depth_def clamp_def)

lemma edge_depth_here: "0 \<le> d \<Longrightarrow> d \<le> e \<Longrightarrow> edge_depth (nat d) 0 e = d"
  by (simp add: edge_depth_def clamp_def)

lemma edge_depth_far: "0 \<le> d \<Longrightarrow> d \<le> far \<Longrightarrow> edge_depth (nat d) far e = 0"
  by (simp add: edge_depth_def clamp_def)

text \<open>
The strut a bar announces, read by the strut code, reserves exactly the bar's depth on the
  bar's own output when that output lies at the root edge, and nothing otherwise. On any other
  output that does not overlap the bar's it reserves nothing.
\<close>

theorem bar_strut_reserves_own_output:
  assumes "output_ok out" "inside (rect_new 0 0 w h) out" "bar = bar_geometry_new out edge t p" "s = bar_strut bar out (rect_new 0 0 w h)"
  shows "strut_reservation_for_monitor s True out (whole_desktop w h) = at_edge edge (if on_edge edge out w h then bg_reservation bar else 0) \<and>
    (\<forall>other. output_ok other \<longrightarrow> inside (rect_new 0 0 w h) other \<longrightarrow> \<not> overlap out other \<longrightarrow>
       strut_reservation_for_monitor s False other (whole_desktop w h) = (0, 0, 0, 0))"
proof -
  note r = bar_reservation_bounds [OF assms(1), where edge = edge and t = t and p = p, folded assms(3)]
  have o: "1 \<le> rect_w out" "1 \<le> rect_h out" "0 \<le> rect_x out" "0 \<le> rect_y out" "rect_x out + rect_w out \<le> w" "rect_y out + rect_h out \<le> h"
    using assms(1,2) by (auto simp: output_ok_def inside_def)
  show ?thesis
  proof (intro conjI allI impI)
    show "strut_reservation_for_monitor s True out (whole_desktop w h) = at_edge edge (if on_edge edge out w h then bg_reservation bar else 0)"
      using r o unfolding assms(4)
      by (cases edge) (auto simp: Let_def strut_reservation_for_monitor_def bar_strut_def zero_strut_def span_intersects_monitor_def whole_desktop_def
          on_edge_def at_edge_def cross_of_def edge_depth_here clamp_def)
    fix other assume other: "output_ok other" "inside (rect_new 0 0 w h) other" "\<not> overlap out other"
    have q: "1 \<le> rect_w other" "1 \<le> rect_h other" "0 \<le> rect_x other" "0 \<le> rect_y other" "rect_x other + rect_w other \<le> w" "rect_y other + rect_h other \<le> h"
      using other(1,2) by (auto simp: output_ok_def inside_def)
    show "strut_reservation_for_monitor s False other (whole_desktop w h) = (0, 0, 0, 0)"
      using r o q other(3) unfolding assms(4)
      by (cases edge) (auto simp: Let_def strut_reservation_for_monitor_def bar_strut_def zero_strut_def span_intersects_monitor_def whole_desktop_def
          cross_of_def overlap_def clamp_def intro!: edge_depth_far)
  qed
qed

theorem bar_strut_reserves_own_output_witness:
  "strut_reservation_for_monitor (bar_strut (bar_geometry_new (rect_new 1920 0 1280 1024) Edge_Top 24 2) (rect_new 1920 0 1280 1024) (rect_new 0 0 3200 1080))
     True (rect_new 1920 0 1280 1024) (whole_desktop 3200 1080) = (28, 0, 0, 0) \<and>
   strut_reservation_for_monitor (bar_strut (bar_geometry_new (rect_new 1920 0 1280 1024) Edge_Top 24 2) (rect_new 1920 0 1280 1024) (rect_new 0 0 3200 1080))
     False (rect_new 0 0 1920 1080) (whole_desktop 3200 1080) = (0, 0, 0, 0)"
proof -
  have ok: "output_ok (rect_new 1920 0 1280 1024)" "inside (rect_new 0 0 3200 1080) (rect_new 1920 0 1280 1024)"
    "output_ok (rect_new 0 0 1920 1080)" "inside (rect_new 0 0 3200 1080) (rect_new 0 0 1920 1080)"
    "\<not> overlap (rect_new 1920 0 1280 1024) (rect_new 0 0 1920 1080)"
    by (simp_all add: output_ok_def inside_def overlap_def)
  have "bg_reservation (bar_geometry_new (rect_new 1920 0 1280 1024) Edge_Top 24 2) = 28" by code_simp
  then show ?thesis
    using bar_strut_reserves_own_output [OF ok(1,2) refl refl, where edge = Edge_Top and t = 24 and p = 2] ok(3-5)
    by (simp add: at_edge_def on_edge_def)
qed

section \<open>The reveal machine\<close>

text \<open>The calls the shell makes on an edge, one after another.\<close>

datatype reveal_call = Set_Mode reveal_mode bool | Dismiss | Enter nat | Leave nat | Tick nat

fun reveal_step :: "edge_shell_config \<Rightarrow> reveal_call \<Rightarrow> edge_reveal \<Rightarrow> edge_reveal" where
  "reveal_step c (Set_Mode mode inside_now) r = reveal_set_mode mode inside_now r"
| "reveal_step c Dismiss r = reveal_dismiss r"
| "reveal_step c (Enter now) r = reveal_enter now c r"
| "reveal_step c (Leave now) r = reveal_leave now c r"
| "reveal_step c (Tick now) r = snd (reveal_tick now r)"

definition reveal_run :: "edge_shell_config \<Rightarrow> reveal_call list \<Rightarrow> edge_reveal \<Rightarrow> edge_reveal" where
  "reveal_run c calls r = fold (reveal_step c) calls r"

definition reveal_inv :: "edge_reveal \<Rightarrow> bool" where
  "reveal_inv r \<longleftrightarrow>
     (er_mode r = Disabled \<longrightarrow> \<not> er_visible r \<and> er_pending r = None) \<and>
     (dismissed_until_leave r \<longrightarrow> \<not> er_visible r \<and> er_pending r = None) \<and>
     (\<forall>d v. er_pending r = Some (d, v) \<longrightarrow> er_visible r \<noteq> v \<and> (\<not> v \<longrightarrow> er_mode r = Hover)) \<and>
     (er_mode r = Always \<longrightarrow> er_visible r \<or> dismissed_until_leave r \<or> (\<exists>d. er_pending r = Some (d, True)) \<or> er_pending r = None)"

lemma reveal_step_inv: "reveal_inv r \<Longrightarrow> reveal_inv (reveal_step c call r)"
  by (cases call) (auto simp: reveal_inv_def reveal_set_mode_def reveal_dismiss_def reveal_enter_def reveal_leave_def reveal_tick_def
      split: option.splits prod.splits)

lemma reveal_run_inv: "reveal_inv r \<Longrightarrow> reveal_inv (reveal_run c calls r)"
  unfolding reveal_run_def by (induction calls arbitrary: r) (auto simp: reveal_step_inv)

lemma reveal_new_inv: "reveal_inv (reveal_new mode)"
  by (simp add: reveal_inv_def reveal_new_def)

fun keeps_dismissal :: "reveal_call \<Rightarrow> bool" where
  "keeps_dismissal (Set_Mode _ _) = False" | "keeps_dismissal (Leave _) = False" | "keeps_dismissal _ = True"

lemma dismissed_step:
  "dismissed_until_leave r \<Longrightarrow> \<not> er_visible r \<Longrightarrow> er_pending r = None \<Longrightarrow> keeps_dismissal call \<Longrightarrow>
   dismissed_until_leave (reveal_step c call r) \<and> \<not> er_visible (reveal_step c call r) \<and> er_pending (reveal_step c call r) = None"
  by (cases call) (simp_all add: reveal_dismiss_def reveal_enter_def reveal_tick_def)

lemma dismissed_run:
  "dismissed_until_leave r \<Longrightarrow> \<not> er_visible r \<Longrightarrow> er_pending r = None \<Longrightarrow> list_all keeps_dismissal calls \<Longrightarrow>
   dismissed_until_leave (reveal_run c calls r) \<and> \<not> er_visible (reveal_run c calls r)"
  unfolding reveal_run_def by (induction calls arbitrary: r) (auto dest: dismissed_step [where c = c])

text \<open>
Whatever calls an edge has seen since it was made: a disabled edge shows nothing and waits for
  nothing; after a dismissal it stays hidden through every further call until the pointer leaves or
  the mode is set; and where the pointer enters a hidden edge that is enabled and not dismissed,
  the first tick at or after the reveal delay, and none before it, shows it and reports the change.
\<close>

theorem reveal_machine:
  assumes "r = reveal_run c calls (reveal_new mode)"
  shows "(er_mode r = Disabled \<longrightarrow> \<not> er_visible r \<and> reveal_deadline r = None) \<and>
    (list_all keeps_dismissal rest \<longrightarrow> \<not> er_visible (reveal_run c rest (reveal_dismiss r))) \<and>
    (er_mode r \<noteq> Disabled \<longrightarrow> \<not> er_visible r \<longrightarrow> \<not> dismissed_until_leave r \<longrightarrow>
       fst (reveal_tick t (reveal_enter now c r)) = (now + reveal_delay_ms c \<le> t) \<and>
       er_visible (snd (reveal_tick t (reveal_enter now c r))) = (now + reveal_delay_ms c \<le> t))"
proof (intro conjI impI)
  have i: "reveal_inv r" unfolding assms by (rule reveal_run_inv [OF reveal_new_inv])
  show "\<not> er_visible r" "reveal_deadline r = None" if "er_mode r = Disabled"
    using i that by (simp_all add: reveal_inv_def reveal_deadline_def)
  show "\<not> er_visible (reveal_run c rest (reveal_dismiss r))" if "list_all keeps_dismissal rest"
    using dismissed_run [OF _ _ _ that, of "reveal_dismiss r"] by (simp add: reveal_dismiss_def)
  show "fst (reveal_tick t (reveal_enter now c r)) = (now + reveal_delay_ms c \<le> t)"
    "er_visible (snd (reveal_tick t (reveal_enter now c r))) = (now + reveal_delay_ms c \<le> t)"
    if "er_mode r \<noteq> Disabled" "\<not> er_visible r" "\<not> dismissed_until_leave r"
    using that by (simp_all add: reveal_enter_def reveal_tick_def)
qed

theorem reveal_machine_witness:
  "\<not> er_visible (reveal_run edge_shell_default [Enter 500, Tick 900] (reveal_dismiss (reveal_run edge_shell_default [Enter 0, Tick 90] (reveal_new Hover)))) \<and>
   er_visible (reveal_run edge_shell_default [Enter 0, Tick 90] (reveal_new Hover))"
  using reveal_machine [OF refl, where rest = "[Enter 500, Tick 900]" and c = edge_shell_default and calls = "[Enter 0, Tick 90]" and mode = Hover]
  by (auto simp: reveal_run_def reveal_new_def reveal_enter_def reveal_tick_def edge_shell_default_def)

section \<open>Sensors do not compete\<close>

definition placement_overlap :: "bar_placement \<Rightarrow> bar_placement \<Rightarrow> bool" where
  "placement_overlap a b \<longleftrightarrow> (\<exists>x y. contains_pointer a x y \<and> contains_pointer b x y)"

definition small_output :: "output_geometry \<Rightarrow> bool" where
  "small_output out \<longleftrightarrow> 17 \<le> og_w out \<and> og_w out \<le> 16384 \<and> 17 \<le> og_h out \<and> og_h out \<le> 16384 \<and> i32_min \<le> og_x out \<and> og_x out + int (og_w out) \<le> i32_max \<and>
     i32_min \<le> og_y out \<and> og_y out + int (og_h out) \<le> i32_max"

lemma nat_clamp_mid: "lo \<le> v \<Longrightarrow> v \<le> hi \<Longrightarrow> nat_clamp v lo hi = v"
  by (simp add: nat_clamp_def)

lemma trigger_parts:
  assumes "small_output out" "t = nat_clamp trigger 1 8"
  shows "trigger_geometry out edge trigger = (case edge of
      Edge_Left \<Rightarrow> \<lparr>bp_x = og_x out, bp_y = og_y out + int t, bp_w = t, bp_h = og_h out - 2 * t\<rparr>
    | Edge_Right \<Rightarrow> \<lparr>bp_x = og_x out + int (og_w out) - int t, bp_y = og_y out + int t, bp_w = t, bp_h = og_h out - 2 * t\<rparr>
    | Edge_Bottom \<Rightarrow> \<lparr>bp_x = og_x out + int t, bp_y = og_y out + int (og_h out) - int t, bp_w = og_w out - 2 * t, bp_h = t\<rparr>
    | Edge_Top \<Rightarrow> \<lparr>bp_x = og_x out + int t, bp_y = og_y out, bp_w = og_w out - 2 * t, bp_h = t\<rparr>)"
proof -
  have t: "1 \<le> t" "t \<le> 8" unfolding assms(2) nat_clamp_def by auto
  have out: "17 \<le> og_w out" "17 \<le> og_h out" "og_w out \<le> 16384" "og_h out \<le> 16384" "i32_min \<le> og_x out" "og_x out + int (og_w out) \<le> i32_max"
    "i32_min \<le> og_y out" "og_y out + int (og_h out) \<le> i32_max" using assms(1) by (auto simp: small_output_def)
  have w: "nat_clamp (og_w out) 1 16384 = og_w out" "nat_clamp (og_h out) 1 16384 = og_h out" using out by (simp_all add: nat_clamp_mid)
  have m: "min (min t (og_w out)) (og_h out) = t" "min t ((og_w out - 1) div 2) = t" "min t ((og_h out - 1) div 2) = t" using t out by auto
  have s: "sat32 (og_x out + int v) = og_x out + int v" if "v \<le> og_w out" for v using that out by (intro sat32_id) auto
  have s': "sat32 (og_y out + int v) = og_y out + int v" if "v \<le> og_h out" for v using that out by (intro sat32_id) auto
  show ?thesis unfolding trigger_geometry_def w Let_def assms(2) [symmetric] m
    using t out s [of "og_w out - t"] s' [of "og_h out - t"]
    by (cases edge) (simp_all add: m s s' s [of 0, simplified] s' [of 0, simplified] of_nat_diff algebra_simps)
qed

text \<open>
The four pointer sensors of an output are not empty, lie on the output and share no pixel, so
  a pointer position triggers at most one edge.
\<close>

theorem sensors_share_no_pixel:
  assumes "small_output out"
  shows "(edge \<noteq> other \<longrightarrow> \<not> placement_overlap (trigger_geometry out edge px) (trigger_geometry out other px)) \<and>
    contains_pointer (trigger_geometry out edge px) (bp_x (trigger_geometry out edge px)) (bp_y (trigger_geometry out edge px)) \<and>
    (contains_pointer (trigger_geometry out edge px) x y \<longrightarrow> contains_pointer \<lparr>bp_x = og_x out, bp_y = og_y out, bp_w = og_w out, bp_h = og_h out\<rparr> x y)"
proof -
  obtain t where t: "t = nat_clamp px 1 8" by blast
  have b: "1 \<le> t" "t \<le> 8" unfolding t nat_clamp_def by auto
  have out: "17 \<le> og_w out" "17 \<le> og_h out" using assms by (auto simp: small_output_def)
  show ?thesis unfolding trigger_parts [OF assms t] placement_overlap_def
    using b out by (cases edge; cases other) (auto simp: contains_pointer_def of_nat_diff)
qed

theorem sensors_share_no_pixel_witness:
  "\<not> placement_overlap (trigger_geometry \<lparr>og_x = -1920, og_y = 0, og_w = 1920, og_h = 1080\<rparr> Edge_Left 4)
      (trigger_geometry \<lparr>og_x = -1920, og_y = 0, og_w = 1920, og_h = 1080\<rparr> Edge_Bottom 4)"
  using sensors_share_no_pixel [of "\<lparr>og_x = -1920, og_y = 0, og_w = 1920, og_h = 1080\<rparr>" Edge_Left Edge_Bottom 4]
  by (simp add: small_output_def)

lemma edge_from_str_names:
  "edge_from_str ''top'' = Some Edge_Top" "edge_from_str ''bottom'' = Some Edge_Bottom"
  "edge_from_str ''left'' = Some Edge_Left" "edge_from_str ''right'' = Some Edge_Right"
  by code_simp+

lemma edge_name_round_trip: "edge_from_str (edge_as_str e) = Some e"
  by (cases e) (simp_all add: edge_from_str_names)

end
