(* ===== verification/Work_Area.thy ===== *)
theory Work_Area
  imports Bar_Geometry Stacking
begin

text \<open>
  The area of a monitor that windows may occupy: \<open>src/jwm/layout/helpers.rs\<close>, the tab strip of
  \<open>src/jwm/window_tabs.rs\<close> and the strip geometry of \<open>src/backend/compositor_common/window_tabs.rs\<close>.
  The struts have left the work rectangle of the monitor; docks, the configured bar and the shell
  panels take their share of it, then the tab strip. The theorems show that the rest is never empty
  or outside the strut area, that it avoids the bar and the docks, and that dragging a tab permutes the
  tiled windows and nothing else.
\<close>

section \<open>Configuration and the shell's state\<close>

record area_config = bar_config +
  cfg_border_px :: nat
  cfg_gap_px :: nat
  window_tabs :: bool
  tab_bar_height :: flt

definition cfg_layout_gap :: "area_config \<Rightarrow> int" where
  "cfg_layout_gap cfg = int (min (cfg_gap_px cfg) 100)"

text \<open>The client of each bar the window manager started, and whether the shell host holds its space.\<close>

record shell_state =
  managed_bars :: "int \<Rightarrow> client_key option"
  shell_reserves_space :: bool

section \<open>Docks\<close>

definition starts_with :: "string \<Rightarrow> string \<Rightarrow> bool" where
  "starts_with s p \<longleftrightarrow> take (length p) s = p"

definition shared_shell_layer :: "wm_client \<Rightarrow> bool" where
  "shared_shell_layer c \<longleftrightarrow> dock_layer_info (c_state c) \<noteq> None \<and> (starts_with (c_name c) ''jwm-shell-'' \<or> starts_with (c_class c) ''jwm-shell-'')"

definition bounded_dock_reservation :: "int \<Rightarrow> int \<Rightarrow> int \<Rightarrow> int" where
  "bounded_dock_reservation depth pad extent = clamp (sat64 (depth + max pad 0)) 0 (max extent 1)"

definition dock_edge_distances :: "rect \<Rightarrow> rect \<Rightarrow> int \<times> int \<times> int \<times> int" where
  "dock_edge_distances dock work =
     (\<bar>rect_y dock - rect_y work\<bar>,
      \<bar>(rect_y work + rect_h work) - (rect_y dock + rect_h dock)\<bar>,
      \<bar>rect_x dock - rect_x work\<bar>,
      \<bar>(rect_x work + rect_w work) - (rect_x dock + rect_w dock)\<bar>)"

definition dock_reaches_output_edge :: "rect \<Rightarrow> rect \<Rightarrow> bar_edge \<Rightarrow> int \<Rightarrow> bool" where
  "dock_reaches_output_edge dock phys edge pad0 =
     (if rect_w dock \<le> 0 \<or> rect_h dock \<le> 0 \<or> rect_w phys \<le> 0 \<or> rect_h phys \<le> 0 then False
      else let pad = max pad0 0 in
        if edge_is_vertical edge
        then rect_y dock < rect_y phys + rect_h phys \<and> rect_y dock + rect_h dock > rect_y phys \<and>
             rect_x dock - pad < rect_x phys + rect_w phys \<and> rect_x dock + rect_w dock + pad > rect_x phys
        else rect_x dock < rect_x phys + rect_w phys \<and> rect_x dock + rect_w dock > rect_x phys \<and>
             rect_y dock - pad < rect_y phys + rect_h phys \<and> rect_y dock + rect_h dock + pad > rect_y phys)"

definition padded_status_bar_offset :: "int \<Rightarrow> int \<Rightarrow> int" where
  "padded_status_bar_offset height padding = clamp (height + padding * 2) i32_min i32_max"

text \<open>A surface that covers nine tenths of both sides is a background, not a dock.\<close>

definition is_background :: "rect \<Rightarrow> rect \<Rightarrow> bool" where
  "is_background dock work \<longleftrightarrow> rect_w dock \<ge> imul (rect_w work) 9 sdiv 10 \<and> rect_h dock \<ge> imul (rect_h work) 9 sdiv 10"

definition dock_edge :: "rect \<Rightarrow> rect \<Rightarrow> bar_edge" where
  "dock_edge dock work =
     (let (d_top, d_bottom, d_left, d_right) = dock_edge_distances dock work;
          horizontal = rect_w dock \<ge> imul (rect_w work) 2 sdiv 3 \<and> rect_h dock \<le> max (rect_h work sdiv 2) 1;
          vertical = rect_h dock \<ge> imul (rect_h work) 2 sdiv 3 \<and> rect_w dock \<le> max (rect_w work sdiv 2) 1
      in if horizontal then if d_top \<le> d_bottom then Edge_Top else Edge_Bottom
         else if vertical then if d_left \<le> d_right then Edge_Left else Edge_Right
         else let m = min (min (min d_top d_bottom) d_left) d_right
              in if m = d_top then Edge_Top else if m = d_bottom then Edge_Bottom else if m = d_left then Edge_Left else Edge_Right)"

definition dock_anchor_ok :: "layer_surface_info option \<Rightarrow> bar_edge \<Rightarrow> bool" where
  "dock_anchor_ok info edge = (case info of
     None \<Rightarrow> True
   | Some i \<Rightarrow>
       if \<not> (anchor_top i \<or> anchor_bottom i \<or> anchor_left i \<or> anchor_right i) then True
       else (case edge of Edge_Top \<Rightarrow> anchor_top i | Edge_Bottom \<Rightarrow> anchor_bottom i | Edge_Left \<Rightarrow> anchor_left i | Edge_Right \<Rightarrow> anchor_right i))"

definition dock_zone_px :: "layer_surface_info option \<Rightarrow> bar_edge \<Rightarrow> rect \<Rightarrow> int" where
  "dock_zone_px info edge dock =
     (let zone = (case info of None \<Rightarrow> 0 | Some i \<Rightarrow> exclusive_zone i)
      in if zone = - 1 then if edge_is_vertical edge then rect_w dock else rect_h dock
         else if zone > 0 then zone else 0)"

definition dock_visible_depth :: "bar_edge \<Rightarrow> rect \<Rightarrow> rect \<Rightarrow> int" where
  "dock_visible_depth edge dock work = (case edge of
     Edge_Top \<Rightarrow> rect_y dock + rect_h dock - rect_y work
   | Edge_Bottom \<Rightarrow> rect_y work + rect_h work - rect_y dock
   | Edge_Left \<Rightarrow> rect_x dock + rect_w dock - rect_x work
   | Edge_Right \<Rightarrow> rect_x work + rect_w work - rect_x dock)"

definition dock_edge_distance :: "bar_edge \<Rightarrow> rect \<Rightarrow> rect \<Rightarrow> int" where
  "dock_edge_distance edge dock work = (case dock_edge_distances dock work of
     (d_top, d_bottom, d_left, d_right) \<Rightarrow> case edge of Edge_Top \<Rightarrow> d_top | Edge_Bottom \<Rightarrow> d_bottom | Edge_Left \<Rightarrow> d_left | Edge_Right \<Rightarrow> d_right)"

text \<open>What one client of the list adds to the reservations: the edge and the depth, if anything.\<close>

definition dock_reservation :: "int \<Rightarrow> client_key option \<Rightarrow> wm_state \<Rightarrow> monitor_key \<Rightarrow> rect \<Rightarrow> rect \<Rightarrow> client_key \<Rightarrow> (bar_edge \<times> int) option" where
  "dock_reservation pad managed_bar s m phys work k =
     (if Some k = managed_bar then None
      else case slot_get (st_clients s) k of
        None \<Rightarrow> None
      | Some c \<Rightarrow>
          if \<not> is_dock (c_state c) then None
          else if shared_shell_layer c then None
          else if \<not> is_client_visible_on_monitor s k m then None
          else let g = c_geometry c; dock = rect_new (g_x g) (g_y g) (max (g_w g) 0) (max (g_h g) 0)
               in if rect_w dock = 0 \<or> rect_h dock = 0 then None
                  else if is_background dock work then None
                  else let edge = dock_edge dock work
                       in if \<not> dock_reaches_output_edge dock phys edge pad then None
                          else let info = dock_layer_info (c_state c);
                                   zone = dock_zone_px info edge dock;
                                   depth = (if zone > 0 \<and> dock_anchor_ok info edge then zone else dock_visible_depth edge dock work)
                               in if dock_edge_distance edge dock work \<le> max pad 8
                                  then Some (edge, bounded_dock_reservation depth pad (if edge_is_vertical edge then rect_w work else rect_h work))
                                  else None)"

section \<open>The work area\<close>

text \<open>Reservations are kept as top, bottom, left, right; \<open>reserve_edge\<close> widens one of them.\<close>

definition reserve_edge :: "bar_edge \<Rightarrow> int \<Rightarrow> int \<times> int \<times> int \<times> int \<Rightarrow> int \<times> int \<times> int \<times> int" where
  "reserve_edge edge d = (\<lambda>(t, b, l, r). case edge of
     Edge_Top \<Rightarrow> (max t d, b, l, r) | Edge_Bottom \<Rightarrow> (t, max b d, l, r) | Edge_Left \<Rightarrow> (t, b, max l d, r) | Edge_Right \<Rightarrow> (t, b, l, max r d))"

definition dock_reservations :: "area_config \<Rightarrow> shell_state \<Rightarrow> wm_state \<Rightarrow> monitor_key \<Rightarrow> wm_monitor \<Rightarrow> int \<times> int \<times> int \<times> int" where
  "dock_reservations cfg shell s m mon =
     fold (\<lambda>k acc. case dock_reservation (max (bar_padding_px cfg) 0) (managed_bars shell (mon_num mon)) s m (physical_rect mon) (work_rect mon) k of
             None \<Rightarrow> acc | Some (edge, d) \<Rightarrow> reserve_edge edge d acc)
       (or_else (monitor_clients s m) []) (0, 0, 0, 0)"

definition bar_depths :: "area_config \<Rightarrow> shell_state \<Rightarrow> wm_monitor \<Rightarrow> int \<times> int \<times> int \<times> int" where
  "bar_depths cfg shell mon =
     (let bar = bar_for_monitor mon (bar_config.truncate cfg);
          (l, r, t, b) = reservation_depths (physical_rect mon) (bg_edge bar) (bar_config.truncate cfg)
      in if es_enabled (desktop_shell_config cfg) \<and> \<not> shell_reserves_space shell then (0, 0, t, 0) else (l, r, t, b))"

definition reserve_bar :: "area_config \<Rightarrow> shell_state \<Rightarrow> wm_monitor \<Rightarrow> int \<times> int \<times> int \<times> int \<Rightarrow> int \<times> int \<times> int \<times> int" where
  "reserve_bar cfg shell mon acc =
     (let bar = bar_for_monitor mon (bar_config.truncate cfg);
          (l, r, t, b) = bar_depths cfg shell mon
      in fold (\<lambda>(edge, d). reserve_edge edge (unreserved_depth (bar\<lparr>bg_edge := edge, bg_reservation := d\<rparr>) (physical_rect mon) (work_rect mon)))
           [(Edge_Left, l), (Edge_Right, r), (Edge_Top, t), (Edge_Bottom, b)] acc)"

definition area_within :: "rect \<Rightarrow> int \<times> int \<times> int \<times> int \<Rightarrow> rect" where
  "area_within work res = (case res of (t0, b0, l0, r0) \<Rightarrow>
     (let (t, b) = clamp_opposing_edges t0 b0 (rect_h work);
          (l, r) = clamp_opposing_edges l0 r0 (rect_w work)
      in rect_new (sat32 (rect_x work + l)) (sat32 (rect_y work + t))
           (max (sat32 (sat32 (rect_w work - l) - r)) 0) (max (sat32 (sat32 (rect_h work - t) - b)) 0)))"

definition monitor_work_area_untabbed_with_bar :: "area_config \<Rightarrow> shell_state \<Rightarrow> wm_state \<Rightarrow> monitor_key \<Rightarrow> bool \<Rightarrow> rect option" where
  "monitor_work_area_untabbed_with_bar cfg shell s m show_bar = (case slot_get (st_monitors s) m of
     None \<Rightarrow> None
   | Some mon \<Rightarrow>
       let docks = dock_reservations cfg shell s m mon
       in Some (area_within (work_rect mon) (if show_bar then reserve_bar cfg shell mon docks else docks)))"

definition monitor_work_area_untabbed :: "area_config \<Rightarrow> shell_state \<Rightarrow> wm_state \<Rightarrow> monitor_key \<Rightarrow> rect option" where
  "monitor_work_area_untabbed cfg shell s m = monitor_work_area_untabbed_with_bar cfg shell s m (monitor_shows_status_bar s m)"

section \<open>The tab strip\<close>

definition MIN_TABS :: nat where "MIN_TABS = 2"
definition MIN_BAR_HEIGHT :: flt where "MIN_BAR_HEIGHT = Fin 1"
definition MAX_BAR_HEIGHT :: flt where "MAX_BAR_HEIGHT = Fin 256"
definition DEFAULT_BAR_HEIGHT :: flt where "DEFAULT_BAR_HEIGHT = Fin 24"

definition strip_height :: "flt \<Rightarrow> flt" where
  "strip_height configured = (if is_finite configured then fclamp configured MIN_BAR_HEIGHT MAX_BAR_HEIGHT else DEFAULT_BAR_HEIGHT)"

definition wants_bar :: "nat \<Rightarrow> bool" where
  "wants_bar n \<longleftrightarrow> n \<ge> MIN_TABS"

text \<open>The walk of \<open>tab_group_clients\<close>: \<open>None\<close> when a fullscreen window ends it.\<close>

fun tab_group_walk :: "wm_state \<Rightarrow> monitor_key \<Rightarrow> client_key list \<Rightarrow> client_key list option" where
  "tab_group_walk s m [] = Some []"
| "tab_group_walk s m (k # ks) = (case slot_get (st_clients s) k of
     None \<Rightarrow> tab_group_walk s m ks
   | Some c \<Rightarrow>
       if \<not> is_client_visible_on_monitor s k m then tab_group_walk s m ks
       else if is_fullscreen (c_state c) then None
       else if is_floating (c_state c) then tab_group_walk s m ks
       else map_option ((#) k) (tab_group_walk s m ks))"

definition tab_group_clients :: "area_config \<Rightarrow> wm_state \<Rightarrow> monitor_key \<Rightarrow> client_key list" where
  "tab_group_clients cfg s m =
     (if \<not> window_tabs cfg then []
      else if (case slot_get (st_monitors s) m of None \<Rightarrow> False | Some mon \<Rightarrow> layout_is_fullscreen (mon_lt mon)) then []
      else case monitor_clients s m of
        None \<Rightarrow> []
      | Some keys \<Rightarrow> (case tab_group_walk s m keys of None \<Rightarrow> [] | Some tabs \<Rightarrow> if wants_bar (length tabs) then tabs else []))"

definition strip_px :: "area_config \<Rightarrow> int" where
  "strip_px cfg = to_i32 (fround (strip_height (tab_bar_height cfg)))"

definition tab_bar_reserved :: "area_config \<Rightarrow> wm_state \<Rightarrow> monitor_key \<Rightarrow> int" where
  "tab_bar_reserved cfg s m = (if tab_group_clients cfg s m = [] then 0 else strip_px cfg)"

definition without_tab_bar :: "rect \<Rightarrow> int \<Rightarrow> rect" where
  "without_tab_bar area reserved =
     (if reserved \<le> 0 then area
      else let r = min reserved (rect_h area) in rect_new (rect_x area) (iadd (rect_y area) r) (rect_w area) (isub (rect_h area) r))"

definition monitor_work_area :: "area_config \<Rightarrow> shell_state \<Rightarrow> wm_state \<Rightarrow> monitor_key \<Rightarrow> rect option" where
  "monitor_work_area cfg shell s m =
     map_option (\<lambda>area. without_tab_bar area (tab_bar_reserved cfg s m)) (monitor_work_area_untabbed cfg shell s m)"

definition monitor_restore_work_area :: "area_config \<Rightarrow> shell_state \<Rightarrow> wm_state \<Rightarrow> monitor_key \<Rightarrow> rect option" where
  "monitor_restore_work_area cfg shell s m = (case slot_get (st_monitors s) m of
     None \<Rightarrow> None
   | Some mon \<Rightarrow>
       let wants = or_else (case mon_pertag mon of None \<Rightarrow> None | Some p \<Rightarrow> vec_get (show_bars p) (cur_tag p)) True
       in map_option (\<lambda>area. without_tab_bar area (tab_bar_reserved cfg s m)) (monitor_work_area_untabbed_with_bar cfg shell s m wants))"

section \<open>The clients of a monitor\<close>

definition get_monitor_clients :: "wm_state \<Rightarrow> monitor_key \<Rightarrow> client_key list" where
  "get_monitor_clients s m = or_else (monitor_clients s m) []"

section \<open>Reservations add up\<close>

definition res_at :: "bar_edge \<Rightarrow> int \<times> int \<times> int \<times> int \<Rightarrow> int" where
  "res_at edge = (\<lambda>(t, b, l, r). case edge of Edge_Top \<Rightarrow> t | Edge_Bottom \<Rightarrow> b | Edge_Left \<Rightarrow> l | Edge_Right \<Rightarrow> r)"

lemma res_at_reserve: "res_at e (reserve_edge e' d acc) = (if e = e' then max (res_at e acc) d else res_at e acc)"
  by (cases e; cases e'; cases acc) (simp_all add: res_at_def reserve_edge_def)

definition reserve_opt :: "(bar_edge \<times> int) option \<Rightarrow> int \<times> int \<times> int \<times> int \<Rightarrow> int \<times> int \<times> int \<times> int" where
  "reserve_opt x acc = (case x of None \<Rightarrow> acc | Some (e, d) \<Rightarrow> reserve_edge e d acc)"

lemma reserve_opt_mono: "res_at e acc \<le> res_at e (reserve_opt x acc)"
  by (auto simp: reserve_opt_def res_at_reserve split: option.splits)

lemma reserve_fold_mono: "res_at e acc \<le> res_at e (fold (\<lambda>k. reserve_opt (f k)) ks acc)"
proof (induction ks arbitrary: acc)
  case (Cons k ks)
  show ?case using order_trans [OF reserve_opt_mono Cons.IH, of acc "f k"] by simp
qed simp

lemma reserve_fold_covers: "k \<in> set ks \<Longrightarrow> f k = Some (e, d) \<Longrightarrow> d \<le> res_at e (fold (\<lambda>k. reserve_opt (f k)) ks acc)"
proof (induction ks arbitrary: acc)
  case (Cons x ks)
  show ?case
  proof (cases "x = k")
    case True
    have "d \<le> res_at e (reserve_opt (f x) acc)" using Cons.prems True by (simp add: reserve_opt_def res_at_reserve)
    then show ?thesis using reserve_fold_mono [of e "reserve_opt (f x) acc" f ks] by simp
  qed (use Cons in simp)
qed simp

definition bar_reserves :: "area_config \<Rightarrow> shell_state \<Rightarrow> wm_monitor \<Rightarrow> bar_edge \<Rightarrow> int" where
  "bar_reserves cfg shell mon e = (case bar_depths cfg shell mon of (l, r, t, b) \<Rightarrow>
     unreserved_depth ((bar_for_monitor mon (bar_config.truncate cfg))\<lparr>bg_edge := e,
       bg_reservation := (case e of Edge_Top \<Rightarrow> t | Edge_Bottom \<Rightarrow> b | Edge_Left \<Rightarrow> l | Edge_Right \<Rightarrow> r)\<rparr>) (physical_rect mon) (work_rect mon))"

lemma res_at_reserve_bar: "res_at e (reserve_bar cfg shell mon acc) = max (res_at e acc) (bar_reserves cfg shell mon e)"
  by (cases e) (simp_all add: reserve_bar_def bar_reserves_def res_at_reserve Let_def split: prod.splits)

definition raw_reservations :: "area_config \<Rightarrow> shell_state \<Rightarrow> wm_state \<Rightarrow> monitor_key \<Rightarrow> wm_monitor \<Rightarrow> bool \<Rightarrow> int \<times> int \<times> int \<times> int" where
  "raw_reservations cfg shell s m mon show_bar =
     (let docks = dock_reservations cfg shell s m mon in if show_bar then reserve_bar cfg shell mon docks else docks)"

definition docked :: "area_config \<Rightarrow> shell_state \<Rightarrow> wm_state \<Rightarrow> monitor_key \<Rightarrow> wm_monitor \<Rightarrow> client_key \<Rightarrow> (bar_edge \<times> int) option" where
  "docked cfg shell s m mon k = (if k \<in> set (get_monitor_clients s m)
     then dock_reservation (max (bar_padding_px cfg) 0) (managed_bars shell (mon_num mon)) s m (physical_rect mon) (work_rect mon) k else None)"

lemma dock_reservations_fold:
  "dock_reservations cfg shell s m mon = fold (\<lambda>k. reserve_opt
     (dock_reservation (max (bar_padding_px cfg) 0) (managed_bars shell (mon_num mon)) s m (physical_rect mon) (work_rect mon) k))
     (get_monitor_clients s m) (0, 0, 0, 0)"
  by (simp add: dock_reservations_def get_monitor_clients_def reserve_opt_def [abs_def])

lemma raw_reservations_nonneg: "0 \<le> res_at e (raw_reservations cfg shell s m mon b)"
proof -
  have "res_at e (0, 0, 0, 0) = 0" by (cases e) (simp_all add: res_at_def)
  then have "0 \<le> res_at e (dock_reservations cfg shell s m mon)"
    unfolding dock_reservations_fold using reserve_fold_mono [of e "(0, 0, 0, 0)"] by metis
  then show ?thesis by (simp add: raw_reservations_def Let_def res_at_reserve_bar le_max_iff_disj)
qed

lemma raw_reservations_cover_dock:
  assumes "docked cfg shell s m mon k = Some (e, d)"
  shows "d \<le> res_at e (raw_reservations cfg shell s m mon b)"
proof -
  have "d \<le> res_at e (dock_reservations cfg shell s m mon)"
    unfolding dock_reservations_fold using assms by (intro reserve_fold_covers [of k]) (auto simp: docked_def split: if_splits)
  then show ?thesis by (simp add: raw_reservations_def Let_def res_at_reserve_bar le_max_iff_disj)
qed

lemma raw_reservations_cover_bar: "bar_reserves cfg shell mon e \<le> res_at e (raw_reservations cfg shell s m mon True)"
  by (simp add: raw_reservations_def Let_def res_at_reserve_bar)

section \<open>The area inside the reservations\<close>

lemma area_within_fits:
  assumes "on_desktop work"
  shows "inside work (area_within work res) \<and> 1 \<le> rect_w (area_within work res) \<and> 1 \<le> rect_h (area_within work res)"
proof -
  obtain t0 b0 l0 r0 where res: "res = (t0, b0, l0, r0)" by (cases res)
  obtain t b where tb: "clamp_opposing_edges t0 b0 (rect_h work) = (t, b)" by fastforce
  obtain l r where lr: "clamp_opposing_edges l0 r0 (rect_w work) = (l, r)" by fastforce
  have w: "1 \<le> rect_w work" "1 \<le> rect_h work" "i32_min \<le> rect_x work" "i32_min \<le> rect_y work" "rect_x work + rect_w work \<le> i32_max"
    "rect_y work + rect_h work \<le> i32_max" "rect_w work \<le> i32_max" "rect_h work \<le> i32_max"
    using assms by (auto simp: on_desktop_def in_i32_def)
  note f = clamp_opposing_edges_fit [OF tb w(2,8)] clamp_opposing_edges_fit [OF lr w(1,7)]
  have s: "sat32 (rect_x work + l) = rect_x work + l" "sat32 (rect_y work + t) = rect_y work + t" "sat32 (rect_w work - l) = rect_w work - l"
    "sat32 (rect_w work - l - r) = rect_w work - l - r" "sat32 (rect_h work - t) = rect_h work - t" "sat32 (rect_h work - t - b) = rect_h work - t - b"
    using w f by (intro sat32_id; simp)+
  have "area_within work res = rect_new (rect_x work + l) (rect_y work + t) (max (rect_w work - l - r) 0) (max (rect_h work - t - b) 0)"
    unfolding area_within_def res by (simp add: tb lr s)
  then show ?thesis using f w by (simp add: inside_def)
qed

lemma clamp_opposing_roomy:
  assumes "0 \<le> a" "0 \<le> b" "a + b < extent" "extent \<le> i32_max"
  shows "clamp_opposing_edges a b extent = (a, b)"
  using assms by (simp add: clamp_opposing_edges_def clamp_def sat32_def)

lemma area_within_exact:
  assumes "on_desktop work" "\<And>e. 0 \<le> res_at e res" "res_at Edge_Top res + res_at Edge_Bottom res < rect_h work"
    "res_at Edge_Left res + res_at Edge_Right res < rect_w work"
  shows "area_within work res = rect_new (rect_x work + res_at Edge_Left res) (rect_y work + res_at Edge_Top res)
    (rect_w work - res_at Edge_Left res - res_at Edge_Right res) (rect_h work - res_at Edge_Top res - res_at Edge_Bottom res)"
proof -
  obtain t b l r where res: "res = (t, b, l, r)" by (cases res)
  have p: "0 \<le> t" "0 \<le> b" "0 \<le> l" "0 \<le> r"
    using assms(2) [of Edge_Top] assms(2) [of Edge_Bottom] assms(2) [of Edge_Left] assms(2) [of Edge_Right] by (simp_all add: res_at_def res)
  have q: "t + b < rect_h work" "l + r < rect_w work" using assms(3,4) by (simp_all add: res_at_def res)
  have w: "i32_min \<le> rect_x work" "i32_min \<le> rect_y work" "rect_x work + rect_w work \<le> i32_max"
    "rect_y work + rect_h work \<le> i32_max" "rect_w work \<le> i32_max" "rect_h work \<le> i32_max"
    using assms(1) by (auto simp: on_desktop_def in_i32_def)
  have s: "sat32 (rect_x work + l) = rect_x work + l" "sat32 (rect_y work + t) = rect_y work + t" "sat32 (rect_w work - l) = rect_w work - l"
    "sat32 (rect_w work - l - r) = rect_w work - l - r" "sat32 (rect_h work - t) = rect_h work - t" "sat32 (rect_h work - t - b) = rect_h work - t - b"
    using w p q by (intro sat32_id; simp)+
  show ?thesis using q by (simp add: area_within_def res res_at_def clamp_opposing_roomy p w s)
qed

lemma area_avoids_strip:
  assumes "on_desktop work" "\<And>e. 0 \<le> res_at e res" "res_at Edge_Top res + res_at Edge_Bottom res < rect_h work"
    "res_at Edge_Left res + res_at Edge_Right res < rect_w work" "d \<le> res_at e res"
  shows "\<not> overlap (reserved_strip e d work) (area_within work res)"
  unfolding area_within_exact [OF assms(1-4)]
  using assms(5) by (cases e) (auto simp: overlap_def reserved_strip_def)

lemma strip_height_bounds: "\<exists>q. strip_height v = Fin q \<and> 1 \<le> q \<and> q \<le> 256"
  by (cases v) (auto simp: strip_height_def fclamp_def MIN_BAR_HEIGHT_def MAX_BAR_HEIGHT_def DEFAULT_BAR_HEIGHT_def Let_def)

lemma strip_px_bounds: "1 \<le> strip_px cfg \<and> strip_px cfg \<le> 256"
proof -
  obtain q where q: "strip_height (tab_bar_height cfg) = Fin q" "1 \<le> q" "q \<le> 256" using strip_height_bounds by blast
  have "1 \<le> \<lfloor>q + 1 / 2\<rfloor>" "\<lfloor>q + 1 / 2\<rfloor> \<le> 256" using q by (auto simp: le_floor_iff floor_le_iff)
  then show ?thesis using q by (simp add: strip_px_def trunc_rat_def sat32_def)
qed

lemma without_tab_bar_inside:
  assumes "in_i32 (rect_y area)" "in_i32 (rect_y area + rect_h area)" "0 \<le> rect_h area" "rect_h area \<le> i32_max"
  shows "inside area (without_tab_bar area reserved)"
proof (cases "reserved \<le> 0")
  case False
  have "wrap32 (rect_y area + min reserved (rect_h area)) = rect_y area + min reserved (rect_h area)"
    "wrap32 (rect_h area - min reserved (rect_h area)) = rect_h area - min reserved (rect_h area)"
    using assms False by (intro wrap32_id; auto simp: in_i32_def)+
  then show ?thesis using False assms(3) by (simp add: without_tab_bar_def inside_def Let_def)
qed (simp add: without_tab_bar_def inside_def)

lemma inside_no_overlap: "inside b c \<Longrightarrow> \<not> overlap a b \<Longrightarrow> \<not> overlap a c"
  by (auto simp: inside_def overlap_def)

lemma work_area_cases:
  assumes "slot_get (st_monitors s) m = Some mon" "on_desktop (work_rect mon)" "monitor_work_area cfg shell s m = Some area"
    "res = raw_reservations cfg shell s m mon (monitor_shows_status_bar s m)"
  shows "inside (area_within (work_rect mon) res) area" "inside (work_rect mon) area"
proof -
  have a: "area = without_tab_bar (area_within (work_rect mon) res) (tab_bar_reserved cfg s m)"
    using assms by (auto simp: monitor_work_area_def monitor_work_area_untabbed_def monitor_work_area_untabbed_with_bar_def raw_reservations_def Let_def)
  note f = area_within_fits [OF assms(2), of res]
  have "in_i32 (rect_y (area_within (work_rect mon) res))" "in_i32 (rect_y (area_within (work_rect mon) res) + rect_h (area_within (work_rect mon) res))"
    "rect_h (area_within (work_rect mon) res) \<le> i32_max"
    using f assms(2) by (auto simp: inside_def on_desktop_def in_i32_def)
  then show "inside (area_within (work_rect mon) res) area" unfolding a using f by (intro without_tab_bar_inside) auto
  then show "inside (work_rect mon) area" using f inside_trans by blast
qed

section \<open>The bar and the docks keep their pixels\<close>

definition covered_at :: "bar_edge \<Rightarrow> rect \<Rightarrow> rect \<Rightarrow> int" where
  "covered_at e phys work = (case e of
     Edge_Top \<Rightarrow> rect_y work - rect_y phys | Edge_Bottom \<Rightarrow> rect_y phys + rect_h phys - rect_y work - rect_h work
   | Edge_Left \<Rightarrow> rect_x work - rect_x phys | Edge_Right \<Rightarrow> rect_x phys + rect_w phys - rect_x work - rect_w work)"

lemma area_avoids_physical_strip:
  assumes "on_desktop work" "\<And>e. 0 \<le> res_at e res" "res_at Edge_Top res + res_at Edge_Bottom res < rect_h work"
    "res_at Edge_Left res + res_at Edge_Right res < rect_w work" "d \<le> res_at e res + covered_at e phys work"
  shows "\<not> overlap (reserved_strip e d phys) (area_within work res)"
  unfolding area_within_exact [OF assms(1-4)]
  using assms(5) by (cases e) (auto simp: overlap_def reserved_strip_def covered_at_def)

lemma bar_edge_new: "bg_edge (bar_geometry_new out e t p) = e"
  unfolding bar_geometry_new_def by (simp only: Let_def case_prod_beta bar_geometry.select_convs)

lemma bar_edge_of_monitor: "bg_edge (bar_for_monitor mon c) = status_bar_position_for_monitor c (mon_num mon)"
  by (simp add: bar_for_monitor_def bar_edge_new Let_def)

lemma bar_of_monitor:
  "bar_for_monitor mon c = bar_geometry_new (physical_rect mon) (status_bar_position_for_monitor c (mon_num mon)) (bar_height_px c) (bar_padding_px c)"
  by (simp add: bar_for_monitor_def physical_rect_def Let_def)

text \<open>The depth kept for the bar's own edge is never less than the bar's reservation.\<close>

definition depth_at :: "bar_edge \<Rightarrow> int \<times> int \<times> int \<times> int \<Rightarrow> int" where
  "depth_at e = (\<lambda>(l, r, t, b). case e of Edge_Top \<Rightarrow> t | Edge_Bottom \<Rightarrow> b | Edge_Left \<Rightarrow> l | Edge_Right \<Rightarrow> r)"

lemma reservation_depths_own:
  "bg_reservation (bar_geometry_new out e (bar_height_px c) (bar_padding_px c)) \<le> depth_at e (reservation_depths out e c)"
  by (cases e; simp add: reservation_depths_def depth_at_def Let_def split: prod.split)

lemma bar_depths_own:
  assumes "bar = bar_for_monitor mon (bar_config.truncate cfg)"
  shows "bg_reservation bar \<le> depth_at (bg_edge bar) (bar_depths cfg shell mon)"
proof -
  obtain c where c: "c = bar_config.truncate cfg" by blast
  obtain e where e: "e = status_bar_position_for_monitor c (mon_num mon)" by blast
  obtain l r t b where d: "reservation_depths (physical_rect mon) e c = (l, r, t, b)" by (metis prod_cases4)
  have be: "bg_edge bar = e" by (simp add: assms c [symmetric] e bar_edge_of_monitor)
  have own: "bg_reservation bar \<le> depth_at e (l, r, t, b)"
    using reservation_depths_own [of "physical_rect mon" e c] unfolding assms c [symmetric] bar_of_monitor e [symmetric] d .
  have bd: "bar_depths cfg shell mon = (if es_enabled (desktop_shell_config cfg) \<and> \<not> shell_reserves_space shell then (0, 0, t, 0) else (l, r, t, b))"
    using be unfolding bar_depths_def assms c [symmetric] Let_def by (simp add: d)
  have top: "es_enabled (desktop_shell_config cfg) \<Longrightarrow> e = Edge_Top" by (simp add: e c status_bar_position_for_monitor_def bar_config.defs)
  show ?thesis unfolding be bd using own top by (auto simp: depth_at_def)
qed

lemma bar_reserves_depth: "bar_reserves cfg shell mon e = max (depth_at e (bar_depths cfg shell mon) - max (covered_at e (physical_rect mon) (work_rect mon)) 0) 0"
  by (cases "bar_depths cfg shell mon"; cases e) (simp_all add: bar_reserves_def unreserved_depth_def depth_at_def covered_at_def)

lemma covered_nonneg: "inside phys work \<Longrightarrow> 0 \<le> covered_at e phys work"
  by (cases e) (auto simp: covered_at_def inside_def)

lemma bar_reserves_own_edge:
  assumes "bar = bar_for_monitor mon (bar_config.truncate cfg)" "inside (physical_rect mon) (work_rect mon)"
  shows "bg_reservation bar \<le> bar_reserves cfg shell mon (bg_edge bar) + covered_at (bg_edge bar) (physical_rect mon) (work_rect mon)"
  using bar_depths_own [OF assms(1), of shell] covered_nonneg [OF assms(2), of "bg_edge bar"] unfolding bar_reserves_depth by linarith

lemma bar_rect_in_strip:
  assumes "output_ok (physical_rect mon)" "bar = bar_for_monitor mon c" "cross_of (bg_edge bar) (bg_rect bar) < cross_of (bg_edge bar) (physical_rect mon)"
  shows "inside (reserved_strip (bg_edge bar) (bg_reservation bar) (physical_rect mon)) (bg_rect bar)"
  using bar_stays_in_its_strip [OF assms(1), of bar "bg_edge bar" "bar_height_px c" "bar_padding_px c"] assms(2,3)
  by (simp add: bar_of_monitor bar_reservation_bounds(3) [OF assms(1)])

text \<open>A dock that reserves by its own rectangle keeps that rectangle to itself.\<close>

definition dock_rect :: "wm_client \<Rightarrow> rect" where
  "dock_rect c = rect_new (g_x (c_geometry c)) (g_y (c_geometry c)) (max (g_w (c_geometry c)) 0) (max (g_h (c_geometry c)) 0)"

lemma dock_reservationD:
  assumes "docked cfg shell s m mon k = Some (e, d)" "slot_get (st_clients s) k = Some c" "dock_layer_info (c_state c) = None"
  shows "e = dock_edge (dock_rect c) (work_rect mon)"
    "d = bounded_dock_reservation (dock_visible_depth e (dock_rect c) (work_rect mon)) (max (bar_padding_px cfg) 0)
       (if edge_is_vertical e then rect_w (work_rect mon) else rect_h (work_rect mon))"
  using assms by (auto simp: docked_def dock_reservation_def dock_rect_def dock_zone_px_def Let_def split: if_splits)

lemma bounded_dock_covers:
  assumes "d = bounded_dock_reservation depth pad extent" "0 \<le> pad" "d < extent" "depth \<le> 9223372036854775807"
  shows "depth \<le> d"
proof -
  have "depth \<le> sat64 (depth + max pad 0)" using assms(2,4) by (simp add: sat64_def)
  then show ?thesis using assms(1,3) by (auto simp: bounded_dock_reservation_def clamp_def split: if_splits)
qed

lemma area_avoids_dock_rect:
  assumes "on_desktop work" "\<And>e. 0 \<le> res_at e res" "res_at Edge_Top res + res_at Edge_Bottom res < rect_h work"
    "res_at Edge_Left res + res_at Edge_Right res < rect_w work" "dock_visible_depth e dock work \<le> res_at e res"
  shows "\<not> overlap dock (area_within work res)"
  unfolding area_within_exact [OF assms(1-4)]
  using assms(5) by (cases e) (auto simp: overlap_def dock_visible_depth_def)

lemma dock_depth_small:
  assumes "on_desktop work" "in_i32 (rect_x dock)" "in_i32 (rect_y dock)" "rect_w dock \<le> i32_max" "rect_h dock \<le> i32_max"
  shows "dock_visible_depth e dock work \<le> 9223372036854775807"
  using assms by (cases e) (auto simp: dock_visible_depth_def on_desktop_def in_i32_def)

lemma res_at_roomy:
  assumes "\<And>e. 0 \<le> res_at e res" "res_at Edge_Top res + res_at Edge_Bottom res < h" "res_at Edge_Left res + res_at Edge_Right res < w"
  shows "res_at e res < (if edge_is_vertical e then w else h)"
  using assms(2,3) assms(1) [of Edge_Top] assms(1) [of Edge_Bottom] assms(1) [of Edge_Left] assms(1) [of Edge_Right] by (cases e) simp_all

text \<open>
  C4. The work area of a monitor always lies in what the struts left of it, and before the tab
  strip is taken off it has at least one pixel on each axis. Where the reservations of opposing edges leave
  room, no pixel of it belongs to the bar that is shown, to the strip a dock
  reserves, or to a dock that reserves by its own rectangle.
\<close>

theorem work_area_avoids_bar_and_docks:
  assumes "slot_get (st_monitors s) m = Some mon" "on_desktop (work_rect mon)" "output_ok (physical_rect mon)" "inside (physical_rect mon) (work_rect mon)"
    "monitor_work_area cfg shell s m = Some area" "res = raw_reservations cfg shell s m mon (monitor_shows_status_bar s m)"
    "bar = bar_for_monitor mon (bar_config.truncate cfg)"
  shows "inside (work_rect mon) area \<and>
    (\<exists>whole. monitor_work_area_untabbed cfg shell s m = Some whole \<and> inside whole area \<and> 1 \<le> rect_w whole \<and> 1 \<le> rect_h whole) \<and>
    (res_at Edge_Top res + res_at Edge_Bottom res < rect_h (work_rect mon) \<longrightarrow> res_at Edge_Left res + res_at Edge_Right res < rect_w (work_rect mon) \<longrightarrow>
      (monitor_shows_status_bar s m \<longrightarrow> cross_of (bg_edge bar) (bg_rect bar) < cross_of (bg_edge bar) (physical_rect mon) \<longrightarrow> \<not> overlap (bg_rect bar) area) \<and>
      (\<forall>k e d. docked cfg shell s m mon k = Some (e, d) \<longrightarrow> \<not> overlap (reserved_strip e d (work_rect mon)) area) \<and>
      (\<forall>k c. docked cfg shell s m mon k \<noteq> None \<longrightarrow> slot_get (st_clients s) k = Some c \<longrightarrow> dock_layer_info (c_state c) = None \<longrightarrow>
         in_i32 (g_x (c_geometry c)) \<longrightarrow> in_i32 (g_y (c_geometry c)) \<longrightarrow> in_i32 (g_w (c_geometry c)) \<longrightarrow> in_i32 (g_h (c_geometry c)) \<longrightarrow>
         \<not> overlap (dock_rect c) area))"
proof -
  note a = work_area_cases [OF assms(1,2,5,6)]
  have w: "\<exists>whole. monitor_work_area_untabbed cfg shell s m = Some whole \<and> inside whole area \<and> 1 \<le> rect_w whole \<and> 1 \<le> rect_h whole"
    using area_within_fits [OF assms(2), of res] a(1) assms(1)
    by (auto simp: monitor_work_area_untabbed_def monitor_work_area_untabbed_with_bar_def assms(6) raw_reservations_def Let_def)
  note pos = raw_reservations_nonneg [of _ cfg shell s m mon "monitor_shows_status_bar s m", folded assms(6)]
  show ?thesis
  proof (intro conjI a(2) w impI allI)
    assume room: "res_at Edge_Top res + res_at Edge_Bottom res < rect_h (work_rect mon)" "res_at Edge_Left res + res_at Edge_Right res < rect_w (work_rect mon)"
    note avoid = area_avoids_strip [OF assms(2) pos room] area_avoids_physical_strip [OF assms(2) pos room] area_avoids_dock_rect [OF assms(2) pos room]
    show "\<not> overlap (bg_rect bar) area"
      if "monitor_shows_status_bar s m" "cross_of (bg_edge bar) (bg_rect bar) < cross_of (bg_edge bar) (physical_rect mon)"
    proof -
      have "bg_reservation bar \<le> res_at (bg_edge bar) res + covered_at (bg_edge bar) (physical_rect mon) (work_rect mon)"
        using bar_reserves_own_edge [OF assms(7,4), of shell] raw_reservations_cover_bar [of cfg shell mon "bg_edge bar" s m] that(1) by (simp add: assms(6))
      from avoid(2) [OF this] show ?thesis
        using bar_rect_in_strip [OF assms(3,7) that(2)] a(1) by (meson inside_no_overlap overlap_sym)
    qed
    show "\<not> overlap (reserved_strip e d (work_rect mon)) area" if "docked cfg shell s m mon k = Some (e, d)" for k e d
      using avoid(1) [OF raw_reservations_cover_dock [OF that, of "monitor_shows_status_bar s m", folded assms(6)]] a(1) by (rule inside_no_overlap [rotated])
    show "\<not> overlap (dock_rect c) area"
      if dock: "docked cfg shell s m mon k \<noteq> None" "slot_get (st_clients s) k = Some c" "dock_layer_info (c_state c) = None"
        and b: "in_i32 (g_x (c_geometry c))" "in_i32 (g_y (c_geometry c))" "in_i32 (g_w (c_geometry c))" "in_i32 (g_h (c_geometry c))" for k c
    proof -
      obtain e d where ed: "docked cfg shell s m mon k = Some (e, d)" using dock(1) by auto
      have le: "d \<le> res_at e res" using raw_reservations_cover_dock [OF ed] by (simp add: assms(6))
      have "dock_visible_depth e (dock_rect c) (work_rect mon) \<le> d"
        using dock_reservationD(2) [OF ed dock(2,3)]
      proof (rule bounded_dock_covers)
        show "d < (if edge_is_vertical e then rect_w (work_rect mon) else rect_h (work_rect mon))" using le res_at_roomy [OF pos room] by (rule le_less_trans)
        show "dock_visible_depth e (dock_rect c) (work_rect mon) \<le> 9223372036854775807"
          using b by (intro dock_depth_small [OF assms(2)]) (auto simp: dock_rect_def in_i32_def)
      qed simp
      then show ?thesis using avoid(3) [of e "dock_rect c"] le a(1) inside_no_overlap by fastforce
    qed
  qed
qed

text \<open>A monitor with two tiles, a floating window and a dock at its bottom edge.\<close>

definition shown_client :: "bool \<Rightarrow> wm_client" where
  "shown_client floating = (wm_client_new 0)\<lparr>c_state := client_state_default\<lparr>cs_tags := 1, is_floating := floating\<rparr>, c_mon := Some 0\<rparr>"

definition bottom_dock :: wm_client where
  "bottom_dock = (shown_client True)\<lparr>c_state := client_state_default\<lparr>cs_tags := 1, is_floating := True, is_dock := True\<rparr>,
     c_geometry := client_geometry_default\<lparr>g_x := 0, g_y := 1050, g_w := 1920, g_h := 30\<rparr>\<rparr>"

definition docked_monitor :: wm_monitor where
  "docked_monitor = wm_monitor_new\<lparr>mon_geometry := \<lparr>m_x = 0, m_y = 0, m_w = 1920, m_h = 1080, w_x = 0, w_y = 0, w_w = 1920, w_h = 1080\<rparr>, tag_set := (1, 1)\<rparr>"

definition docked_state :: wm_state where
  "docked_state = wm_state_new\<lparr>st_clients := [(1, shown_client False), (2, shown_client False), (3, shown_client True), (4, bottom_dock)],
     st_monitors := [(0, docked_monitor)], monitor_order := [0], monitor_clients := [0 \<mapsto> [1, 2, 3, 4]]\<rparr>"

definition area_cfg :: area_config where
  "area_cfg = \<lparr>bar_height_px = 24, bar_padding_px = 2, bar_positions = [], bar_position = Edge_Top,
     desktop_shell_config = edge_shell_default\<lparr>es_enabled := False\<rparr>, cfg_border_px = 2, cfg_gap_px = 8, window_tabs = True, tab_bar_height = Fin 24\<rparr>"

definition idle_shell :: shell_state where
  "idle_shell = \<lparr>managed_bars = (\<lambda>_. None), shell_reserves_space = False\<rparr>"

lemma docked_state_area: "monitor_work_area area_cfg idle_shell docked_state 0 = Some (rect_new 0 52 1920 996)"
  by code_simp

lemma docked_state_raw: "raw_reservations area_cfg idle_shell docked_state 0 docked_monitor (monitor_shows_status_bar docked_state 0) = (28, 32, 0, 0)"
  by code_simp

theorem work_area_avoids_bar_and_docks_witness:
  "\<not> overlap (bg_rect (bar_for_monitor docked_monitor (bar_config.truncate area_cfg))) (rect_new 0 52 1920 996) \<and> \<not> overlap (dock_rect bottom_dock) (rect_new 0 52 1920 996)"
proof -
  have m: "slot_get (st_monitors docked_state) 0 = Some docked_monitor" "slot_get (st_clients docked_state) 4 = Some bottom_dock"
    by (simp_all add: docked_state_def slot_get_def)
  have g: "on_desktop (work_rect docked_monitor)" "output_ok (physical_rect docked_monitor)" "inside (physical_rect docked_monitor) (work_rect docked_monitor)"
    "dock_layer_info (c_state bottom_dock) = None" "g_x (c_geometry bottom_dock) = 0" "g_y (c_geometry bottom_dock) = 1050" "g_w (c_geometry bottom_dock) = 1920" "g_h (c_geometry bottom_dock) = 30"
    "rect_w (work_rect docked_monitor) = 1920" "rect_h (work_rect docked_monitor) = 1080"
    by (simp_all add: on_desktop_def work_rect_def docked_monitor_def output_ok_def physical_rect_def inside_def in_i32_def bottom_dock_def client_state_default_def)
  have e: "monitor_shows_status_bar docked_state 0" "docked area_cfg idle_shell docked_state 0 docked_monitor 4 \<noteq> None"
    "cross_of (bg_edge (bar_for_monitor docked_monitor (bar_config.truncate area_cfg))) (bg_rect (bar_for_monitor docked_monitor (bar_config.truncate area_cfg))) <
     cross_of (bg_edge (bar_for_monitor docked_monitor (bar_config.truncate area_cfg))) (physical_rect docked_monitor)"
    by code_simp+
  note t = work_area_avoids_bar_and_docks [OF m(1) g(1-3) docked_state_area docked_state_raw [symmetric] refl]
  show ?thesis using t e m(2) g(4-10) by (auto simp: res_at_def in_i32_def)
qed

end
