(* ===== verification/Window_Tabs.thy ===== *)
theory Window_Tabs
  imports Work_Area
begin

text \<open>
  The tab strip of a monitor: \<open>src/jwm/window_tabs.rs\<close> on the strip geometry of
  \<open>src/backend/compositor_common/window_tabs.rs\<close>. One cell stands for each tiled window, in the order
  of the monitor's client list. A click is resolved on the same cells that are painted, and a drag
  of a cell moves its window in the client list.
\<close>

section \<open>The strip\<close>

text \<open>A strip in screen pixels is \<open>(x, y, w, h)\<close> in \<open>f32\<close>.\<close>

type_synonym tab_strip = "flt \<times> flt \<times> flt \<times> flt"

definition monitor_tab_bar :: "area_config \<Rightarrow> shell_state \<Rightarrow> wm_state \<Rightarrow> monitor_key \<Rightarrow> nat \<Rightarrow> tab_strip option" where
  "monitor_tab_bar cfg shell s m n =
     (if \<not> wants_bar n then None
      else if strip_px cfg \<le> 0 then None
      else map_option (\<lambda>area. (f32_of (rect_x area), f32_of (rect_y area), f32_of (rect_w area), f32_of (strip_px cfg)))
             (monitor_work_area_untabbed cfg shell s m))"

definition bar_is_drawable :: "tab_strip \<Rightarrow> bool" where
  "bar_is_drawable = (\<lambda>(x, y, w, h). is_finite x \<and> is_finite y \<and> is_finite w \<and> is_finite h \<and> flt_less (Fin 0) w \<and> flt_less (Fin 0) h)"

definition tab_edge :: "tab_strip \<Rightarrow> nat \<Rightarrow> nat \<Rightarrow> flt" where
  "tab_edge bar n i = (case bar of (x, y, w, h) \<Rightarrow> add32 x (div32 (mul32 w (f32_of (int i))) (f32_of (int n))))"

definition tab_rect :: "tab_strip \<Rightarrow> nat \<Rightarrow> nat \<Rightarrow> tab_strip option" where
  "tab_rect bar n i =
     (if i \<ge> n \<or> \<not> bar_is_drawable bar then None
      else case bar of (x, y, w, h) \<Rightarrow>
        let left = tab_edge bar n i; right = tab_edge bar n (i + 1)
        in Some (left, y, fmax (sub32 right left) (Fin 0), h))"

fun tab_walk :: "tab_strip \<Rightarrow> nat \<Rightarrow> flt \<Rightarrow> nat list \<Rightarrow> nat option" where
  "tab_walk bar n px [] = None"
| "tab_walk bar n px (i # is) = (if flt_leq px (tab_edge bar n (i + 1)) then Some i else tab_walk bar n px is)"

definition tab_at :: "tab_strip \<Rightarrow> nat \<Rightarrow> flt \<Rightarrow> flt \<Rightarrow> nat option" where
  "tab_at bar n px py =
     (if n = 0 \<or> \<not> bar_is_drawable bar \<or> \<not> is_finite px \<or> \<not> is_finite py then None
      else case bar of (x, y, w, h) \<Rightarrow>
        if flt_less px x \<or> flt_less (add32 x w) px \<or> flt_less py y \<or> flt_less (add32 y h) py then None
        else Some (or_else (tab_walk bar n px [0..<n]) (n - 1)))"

section \<open>Hitting and dragging tabs\<close>

fun tab_hit_walk :: "area_config \<Rightarrow> shell_state \<Rightarrow> wm_state \<Rightarrow> flt \<Rightarrow> flt \<Rightarrow> monitor_key list \<Rightarrow> (monitor_key \<times> nat) option" where
  "tab_hit_walk cfg shell s px py [] = None"
| "tab_hit_walk cfg shell s px py (m # ms) =
     (let tabs = tab_group_clients cfg s m
      in if tabs = [] then tab_hit_walk cfg shell s px py ms
         else case monitor_tab_bar cfg shell s m (length tabs) of
           None \<Rightarrow> tab_hit_walk cfg shell s px py ms
         | Some bar \<Rightarrow> (case tab_at bar (length tabs) px py of
             Some i \<Rightarrow> Some (m, i) | None \<Rightarrow> tab_hit_walk cfg shell s px py ms))"

definition window_tab_hit :: "area_config \<Rightarrow> shell_state \<Rightarrow> wm_state \<Rightarrow> flt \<Rightarrow> flt \<Rightarrow> (monitor_key \<times> client_key) option" where
  "window_tab_hit cfg shell s px py = (case tab_hit_walk cfg shell s px py (monitor_order s) of
     None \<Rightarrow> None
   | Some (m, i) \<Rightarrow> map_option (Pair m) (vec_get (tab_group_clients cfg s m) i))"

text \<open>\<open>pointed\<close> answers \<open>recttomon\<close>: the monitor below the pointer.\<close>

definition tab_reorder_target :: "area_config \<Rightarrow> shell_state \<Rightarrow> monitor_key option \<Rightarrow> wm_state \<Rightarrow> flt \<Rightarrow> flt \<Rightarrow> (monitor_key \<times> nat) option" where
  "tab_reorder_target cfg shell pointed s px py = (case tab_hit_walk cfg shell s px py (monitor_order s) of
     Some hit \<Rightarrow> Some hit
   | None \<Rightarrow> (case pointed of
       None \<Rightarrow> None
     | Some m \<Rightarrow>
         let tabs = tab_group_clients cfg s m
         in if tabs = [] then None
            else case monitor_tab_bar cfg shell s m (length tabs) of
              None \<Rightarrow> None
            | Some (bx, by', bw, bh) \<Rightarrow>
                map_option (Pair m) (tab_at (bx, by', bw, bh) (length tabs) (fclamp px bx (add32 bx bw)) (fclamp py by' (add32 by' bh)))))"

definition tab_reinsert_index :: "client_key list \<Rightarrow> client_key option \<Rightarrow> (client_key \<Rightarrow> bool) \<Rightarrow> nat" where
  "tab_reinsert_index ks successor floating =
     or_else (case (case successor of None \<Rightarrow> None | Some k \<Rightarrow> position (\<lambda>x. x = k) ks) of
                Some i \<Rightarrow> Some i | None \<Rightarrow> position floating ks) (length ks)"

definition plan_tab_reorder :: "client_key list \<Rightarrow> client_key \<Rightarrow> nat \<Rightarrow> client_key list option" where
  "plan_tab_reorder order dragged target = (case position (\<lambda>x. x = dragged) order of
     None \<Rightarrow> None
   | Some from_pos \<Rightarrow>
       let to_pos = min target (length order - 1)
       in if to_pos = from_pos then None else Some (vec_insert to_pos (order ! from_pos) (vec_remove from_pos order)))"

text \<open>The list edit of \<open>commit_window_tab_reorder\<close>; the boolean says whether an arrange follows.\<close>

definition commit_window_tab_reorder :: "area_config \<Rightarrow> shell_state \<Rightarrow> monitor_key option \<Rightarrow> client_key \<Rightarrow> flt \<Rightarrow> flt \<Rightarrow> wm_state \<Rightarrow> bool \<times> wm_state" where
  "commit_window_tab_reorder cfg shell pointed dragged px py s = (case tab_reorder_target cfg shell pointed s px py of
     None \<Rightarrow> (False, s)
   | Some (m, slot) \<Rightarrow>
       (case plan_tab_reorder (tab_group_clients cfg s m) dragged slot of
          None \<Rightarrow> (False, s)
        | Some new_order \<Rightarrow>
            let successor = (case position (\<lambda>x. x = dragged) new_order of None \<Rightarrow> None | Some p \<Rightarrow> vec_get new_order (p + 1))
            in (True, case monitor_clients s m of
                 None \<Rightarrow> s
               | Some ks \<Rightarrow> let ks1 = filter (\<lambda>k. k \<noteq> dragged) ks
                   in set_clients m (vec_insert (tab_reinsert_index ks1 successor (is_client_floating s)) dragged ks1) s)))"

section \<open>The cell under the pointer\<close>

lemma tab_walk_SomeD: "tab_walk bar n px [a..<b] = Some i \<Longrightarrow> a \<le> i \<and> i < b \<and> flt_leq px (tab_edge bar n (i + 1)) \<and> (\<forall>j. a \<le> j \<and> j < i \<longrightarrow> \<not> flt_leq px (tab_edge bar n (j + 1)))"
proof (induction "b - a" arbitrary: a)
  case (Suc d)
  then have u: "[a..<b] = a # [Suc a..<b]" by (simp add: upt_conv_Cons)
  show ?case
  proof (cases "flt_leq px (tab_edge bar n (a + 1))")
    case True
    then show ?thesis using Suc.prems Suc.hyps(2) unfolding u by auto
  next
    case False
    then have "tab_walk bar n px [Suc a..<b] = Some i" using Suc.prems unfolding u by simp
    with Suc.hyps(1) [of "Suc a"] Suc.hyps(2) have "Suc a \<le> i" "i < b" "flt_leq px (tab_edge bar n (i + 1))" "\<forall>j. Suc a \<le> j \<and> j < i \<longrightarrow> \<not> flt_leq px (tab_edge bar n (j + 1))" by auto
    then show ?thesis using False by (metis Suc_leD Suc_leI le_neq_implies_less)
  qed
qed simp

lemma tab_walk_NoneD: "tab_walk bar n px is = None \<Longrightarrow> i \<in> set is \<Longrightarrow> \<not> flt_leq px (tab_edge bar n (i + 1))"
  by (induction "is") (auto split: if_splits)

text \<open>
  A click on the strip always resolves to a cell that is painted, and to the only one: the pointer
  is not at or left of the cell's left edge, unless the cell is the first, and not past its right edge,
  unless it is the last; every cell before it ends left of the pointer.
\<close>

theorem click_hits_painted_cell:
  assumes "bar = (x, y, w, h)" "bar_is_drawable bar" "0 < n" "is_finite px" "is_finite py"
    "\<not> flt_less px x" "\<not> flt_less (add32 x w) px" "\<not> flt_less py y" "\<not> flt_less (add32 y h) py"
  shows "\<exists>i left width. tab_at bar n px py = Some i \<and> tab_rect bar n i = Some (left, y, width, h) \<and>
    (i = 0 \<or> \<not> flt_leq px left) \<and> (i = n - 1 \<or> flt_leq px (tab_edge bar n (i + 1))) \<and> (\<forall>j < i. \<not> flt_leq px (tab_edge bar n (j + 1)))"
proof -
  obtain i where i: "i = or_else (tab_walk bar n px [0..<n]) (n - 1)" by blast
  have t: "tab_at bar n px py = Some i" using assms by (simp add: tab_at_def i)
  have c: "i < n" "i = n - 1 \<or> flt_leq px (tab_edge bar n (i + 1))" "\<forall>j < i. \<not> flt_leq px (tab_edge bar n (j + 1))"
    using tab_walk_SomeD [of bar n px 0 n] tab_walk_NoneD [of bar n px "[0..<n]"] assms(3)
    by (cases "tab_walk bar n px [0..<n]"; auto simp: i or_else_def)+
  have left: "i = 0 \<or> \<not> flt_leq px (tab_edge bar n i)" using c(3) [rule_format, of "i - 1"] by (cases i) simp_all
  have "\<exists>width. tab_rect bar n i = Some (tab_edge bar n i, y, width, h)" using c(1) assms(1,2) by (simp add: tab_rect_def Let_def)
  then show ?thesis using t c left by blast
qed

theorem click_hits_painted_cell_witness:
  "tab_at (Fin 0, Fin 0, Fin 100, Fin 24) 4 (Fin 60) (Fin 3) = Some 2 \<and> (\<exists>i. tab_at (Fin 0, Fin 0, Fin 100, Fin 24) 4 (Fin 60) (Fin 3) = Some i \<and>
     (i = 3 \<or> flt_leq (Fin 60) (tab_edge (Fin 0, Fin 0, Fin 100, Fin 24) 4 (i + 1))))"
proof -
  have e: "bar_is_drawable (Fin 0, Fin 0, Fin 100, Fin 24)" "tab_at (Fin 0, Fin 0, Fin 100, Fin 24) 4 (Fin 60) (Fin 3) = Some 2"
    "\<not> flt_less (Fin 60) (Fin 0)" "\<not> flt_less (add32 (Fin 0) (Fin 100)) (Fin 60)" "\<not> flt_less (Fin 3) (Fin 0)" "\<not> flt_less (add32 (Fin 0) (Fin 24)) (Fin 3)"
    by code_simp+
  then show ?thesis using click_hits_painted_cell [OF refl e(1) _ _ _ e(3-6), of 4] by auto
qed

section \<open>Dragging a tab\<close>

definition is_tile :: "wm_state \<Rightarrow> monitor_key \<Rightarrow> client_key \<Rightarrow> bool" where
  "is_tile s m k \<longleftrightarrow> (case slot_get (st_clients s) k of None \<Rightarrow> False | Some c \<Rightarrow> \<not> is_floating (c_state c) \<and> is_client_visible_on_monitor s k m)"

lemma is_tile_not_floating: "is_tile s m k \<Longrightarrow> \<not> is_client_floating s k"
  by (auto simp: is_tile_def is_client_floating_def split: option.splits)

definition shows_fullscreen :: "wm_state \<Rightarrow> monitor_key \<Rightarrow> client_key \<Rightarrow> bool" where
  "shows_fullscreen s m k \<longleftrightarrow> (case slot_get (st_clients s) k of None \<Rightarrow> False | Some c \<Rightarrow> is_fullscreen (c_state c) \<and> is_client_visible_on_monitor s k m)"

lemma tab_group_walk_filter:
  "tab_group_walk s m ks = (if \<exists>k \<in> set ks. shows_fullscreen s m k then None else Some (filter (is_tile s m) ks))"
proof (induction ks)
  case (Cons k ks)
  have "slot_get (st_clients s) k = None \<Longrightarrow> \<not> is_tile s m k \<and> \<not> shows_fullscreen s m k"
    "slot_get (st_clients s) k = Some c \<Longrightarrow> is_tile s m k = (\<not> is_floating (c_state c) \<and> is_client_visible_on_monitor s k m) \<and>
       shows_fullscreen s m k = (is_fullscreen (c_state c) \<and> is_client_visible_on_monitor s k m)" for c
    by (simp_all add: is_tile_def shows_fullscreen_def)
  then show ?case by (cases "slot_get (st_clients s) k") (simp_all add: Cons.IH)
qed simp

lemma tab_group_set_clients:
  assumes "monitor_clients s m = Some ks" "set ks' = set ks" "tab_group_clients cfg s m \<noteq> []" "length ks' = length ks" "mset (filter (is_tile s m) ks') = mset (filter (is_tile s m) ks)"
  shows "tab_group_clients cfg (set_clients m ks' s) m = filter (is_tile s m) ks'" "tab_group_clients cfg s m = filter (is_tile s m) ks"
proof -
  have inv: "is_client_visible_on_monitor (set_clients m ks' s) = is_client_visible_on_monitor s" "slot_get (st_clients (set_clients m ks' s)) = slot_get (st_clients s)"
    "slot_get (st_monitors (set_clients m ks' s)) = slot_get (st_monitors s)"
    by (simp_all add: is_client_visible_on_monitor_def set_clients_def fun_eq_iff)
  have t: "is_tile (set_clients m ks' s) m = is_tile s m" "shows_fullscreen (set_clients m ks' s) m = shows_fullscreen s m"
    unfolding is_tile_def shows_fullscreen_def fun_eq_iff inv by simp_all
  have l: "length (filter (is_tile s m) ks') = length (filter (is_tile s m) ks)" using mset_eq_length [OF assms(5)] .
  show "tab_group_clients cfg s m = filter (is_tile s m) ks"
    using assms(1,3) by (auto simp: tab_group_clients_def tab_group_walk_filter split: if_splits)
  show "tab_group_clients cfg (set_clients m ks' s) m = filter (is_tile s m) ks'"
    using assms(1,3) unfolding tab_group_clients_def tab_group_walk_filter t inv
    by (auto simp: set_clients_def assms(2) l split: if_splits)
qed

lemma position_split:
  assumes "position p xs = Some i"
  shows "xs = take i xs @ xs ! i # drop (Suc i) xs" "p (xs ! i)" "i < length xs"
  using position_SomeD [OF assms] by (auto simp: id_take_nth_drop [symmetric])

text \<open>Where the window lands: in front of its successor of the new order, which keeps the order of the others.\<close>

lemma insert_before_split:
  assumes "distinct xs" "x \<notin> set xs" "position (\<lambda>y. y = z) xs = Some i" "P x" "P z" "filter P xs = C @ z # D"
  shows "filter P (vec_insert i x xs) = C @ x # z # D"
proof -
  note ps = position_split [OF assms(3)]
  have e: "filter P xs = filter P (take i xs) @ z # filter P (drop (Suc i) xs)" using ps(1,2) assms(5) by (metis filter.simps(2) filter_append)
  have d: "distinct (filter P xs)" using assms(1) by simp
  have "filter P (take i xs) = C \<and> filter P (drop (Suc i) xs) = D"
    using d unfolding assms(6) by (metis append_Cons_eq_iff assms(6) e d distinct_append disjoint_iff list.set_intros(1) distinct.simps(2) not_distinct_conv_prefix)
  moreover have "drop i xs = z # drop (Suc i) xs" using ps by (simp add: Cons_nth_drop_Suc [symmetric])
  ultimately show ?thesis using assms(4,5) by (simp add: vec_insert_def)
qed

lemma insert_at_boundary_split:
  assumes "tiled_first fl xs" "\<And>y. P y \<Longrightarrow> \<not> fl y" "P x"
  shows "filter P (vec_insert (boundary fl xs) x xs) = filter P xs @ [x]"
proof -
  have "filter P (drop (boundary fl xs) xs) = []" using boundary_drop [OF assms(1)] assms(2) by (fastforce simp: filter_empty_conv)
  moreover from this have "filter P (take (boundary fl xs) xs) = filter P xs" by (metis append_Nil2 append_take_drop_id filter_append)
  ultimately show ?thesis using assms(3) by (simp add: vec_insert_def)
qed

lemma plan_tab_reorder_SomeD:
  assumes "plan_tab_reorder order dragged target = Some new" "distinct order"
  shows "dragged \<in> set order" "\<exists>i. new = vec_insert i dragged (filter (\<lambda>k. k \<noteq> dragged) order) \<and> i = min target (length order - 1) \<and> i \<le> length (filter (\<lambda>k. k \<noteq> dragged) order)"
proof -
  obtain j where j: "position (\<lambda>x. x = dragged) order = Some j" "new = vec_insert (min target (length order - 1)) (order ! j) (vec_remove j order)"
    using assms(1) by (auto simp: plan_tab_reorder_def Let_def split: option.splits if_splits)
  note ps = position_split [OF j(1)]
  show d: "dragged \<in> set order" using ps by (metis nth_mem)
  have r: "vec_remove j order = filter (\<lambda>k. k \<noteq> dragged) order"
    using vec_remove_position [OF j(1)] remove_first_filter [OF assms(2)] by simp
  have "length (vec_remove j order) = length order - 1" using ps(3) by (simp add: vec_remove_def)
  then show "\<exists>i. new = vec_insert i dragged (filter (\<lambda>k. k \<noteq> dragged) order) \<and> i = min target (length order - 1) \<and> i \<le> length (filter (\<lambda>k. k \<noteq> dragged) order)"
    using j(2) ps(2) r by auto
qed

lemma position_after: "x \<notin> set xs \<Longrightarrow> position (\<lambda>y. y = x) (xs @ x # ys) = Some (length xs)"
  by (induction xs) auto

lemma successor_of_insert:
  assumes "x \<notin> set ys" "i \<le> length ys" "position (\<lambda>y. y = x) (vec_insert i x ys) = Some p"
  shows "vec_get (vec_insert i x ys) (p + 1) = vec_get ys i"
proof -
  have "position (\<lambda>y. y = x) (take i ys @ x # drop i ys) = Some (length (take i ys))"
    using assms(1) set_take_subset [of i ys] by (intro position_after) auto
  then have p: "p = i" using assms(2,3) by (simp add: vec_insert_def)
  show ?thesis using assms(2) by (auto simp: p vec_get_def vec_insert_def nth_append)
qed

text \<open>What a drop does to the monitor's list, when the plan changes the order of the tabs.\<close>

lemma drop_reorders_list:
  assumes "group_ok s m ks" "tabs = filter (is_tile s m) ks" "plan_tab_reorder tabs dragged slot = Some new"
    "successor = (case position (\<lambda>x. x = dragged) new of None \<Rightarrow> None | Some p \<Rightarrow> vec_get new (p + 1))"
    "ks1 = filter (\<lambda>k. k \<noteq> dragged) ks" "ks' = vec_insert (tab_reinsert_index ks1 successor (is_client_floating s)) dragged ks1"
  shows "group_ok s m ks'" "filter (is_tile s m) ks' = new" "set ks' = set ks" "filter (\<lambda>k. k \<noteq> dragged) ks' = filter (\<lambda>k. k \<noteq> dragged) ks" "length ks' = length ks"
proof -
  have g: "distinct ks" "tiled_first (is_client_floating s) ks" "\<forall>k \<in> set ks. client_mon s k = Some m" using assms(1) by (auto simp: group_ok_def)
  have dt: "distinct tabs" using g by (simp add: assms(2))
  note plan = plan_tab_reorder_SomeD [OF assms(3) dt]
  obtain i where new: "new = vec_insert i dragged (filter (\<lambda>k. k \<noteq> dragged) tabs)" and i: "i \<le> length (filter (\<lambda>k. k \<noteq> dragged) tabs)" using plan(2) by blast
  have tile: "is_tile s m dragged" "dragged \<in> set ks" using plan(1) by (auto simp: assms(2))
  have k1: "group_ok s m ks1" "dragged \<notin> set ks1" "distinct ks1" "tiled_first (is_client_floating s) ks1"
    unfolding assms(5) using group_ok_filter [OF assms(1)] by (auto simp: group_ok_def)
  have f: "filter (is_tile s m) ks1 = filter (\<lambda>k. k \<noteq> dragged) tabs" by (simp add: assms(2,5) conj_commute)
  have nd: "dragged \<notin> set (filter (\<lambda>k. k \<noteq> dragged) tabs)" by simp
  obtain p where p: "position (\<lambda>x. x = dragged) new = Some p" using position_ex [of dragged new "\<lambda>x. x = dragged"] by (auto simp: new vec_simps)
  have succ: "successor = vec_get (filter (is_tile s m) ks1) i"
    using successor_of_insert [OF nd i p [unfolded new]] p by (simp add: assms(4) f new)
  have fl: "\<And>y. is_tile s m y \<Longrightarrow> \<not> is_client_floating s y" by (rule is_tile_not_floating)
  have idx: "tab_reinsert_index ks1 successor (is_client_floating s) \<le> boundary (is_client_floating s) ks1 \<and> filter (is_tile s m) ks' = new"
  proof (cases successor)
    case None
    then have "i = length (filter (is_tile s m) ks1)" using succ i f by (auto simp: vec_get_def split: if_splits)
    moreover have "tab_reinsert_index ks1 successor (is_client_floating s) = boundary (is_client_floating s) ks1"
      by (simp add: None tab_reinsert_index_def boundary_def)
    ultimately show ?thesis using insert_at_boundary_split [where P = "is_tile s m" and x = dragged, OF k1(4) fl tile(1)] by (simp add: assms(6) new f vec_insert_def)
  next
    case (Some z)
    then have z: "i < length (filter (is_tile s m) ks1)" "z = filter (is_tile s m) ks1 ! i" using succ by (auto simp: vec_get_def split: if_splits)
    then have zt: "is_tile s m z" "z \<in> set ks1" using nth_mem [OF z(1)] by auto
    obtain j where j: "position (\<lambda>y. y = z) ks1 = Some j" using position_ex [OF zt(2), of "\<lambda>y. y = z"] by auto
    have r: "tab_reinsert_index ks1 successor (is_client_floating s) = j" by (simp add: Some tab_reinsert_index_def j or_else_def)
    have sp: "filter (is_tile s m) ks1 = take i (filter (is_tile s m) ks1) @ z # drop (Suc i) (filter (is_tile s m) ks1)"
      using z by (simp add: id_take_nth_drop [symmetric])
    have dr: "drop i (filter (is_tile s m) ks1) = z # drop (Suc i) (filter (is_tile s m) ks1)" using z by (simp add: Cons_nth_drop_Suc [symmetric])
    show ?thesis
      using insert_before_split [OF k1(3,2) j tile(1) zt(1) sp] tile_before_boundary [OF k1(4) j fl [OF zt(1)]] r dr
      by (simp add: assms(6) new f [symmetric] vec_insert_def)
  qed
  show "filter (is_tile s m) ks' = new" using idx by simp
  show ok: "group_ok s m ks'" unfolding assms(6)
    using group_ok_insert [OF k1(1,2), of "tab_reinsert_index ks1 successor (is_client_floating s)"] g(3) tile idx fl by simp
  show same: "set ks' = set ks" using tile(2) by (auto simp: assms(5,6) vec_simps)
  show "filter (\<lambda>k. k \<noteq> dragged) ks' = filter (\<lambda>k. k \<noteq> dragged) ks" unfolding assms(6) using filter_neq_vec_insert [OF k1(2)] by (simp add: assms(5))
  show "length ks' = length ks" using ok same g(1) by (metis distinct_card group_ok_def)
qed

text \<open>
  C40. Dropping a dragged tab: when the drop is committed, the tabs of the monitor stand in exactly
  the planned order with the dragged window in the chosen slot (the last one where the slot is out of range), all
  other windows of the list, floating and hidden ones included, keep their order, and the client
  lists stay well formed; otherwise nothing changes.
\<close>

theorem tab_drop_reorders_tabs:
  assumes "wf_lists s" "commit_window_tab_reorder cfg shell pointed dragged px py s = (done', s')"
  shows "wf_lists s' \<and> (\<not> done' \<longrightarrow> s' = s) \<and>
    (done' \<longrightarrow> (\<exists>m slot new ks ks'. tab_reorder_target cfg shell pointed s px py = Some (m, slot) \<and>
       plan_tab_reorder (tab_group_clients cfg s m) dragged slot = Some new \<and> monitor_clients s m = Some ks \<and> s' = set_clients m ks' s \<and>
       tab_group_clients cfg s' m = new \<and> new ! min slot (length new - 1) = dragged \<and> mset new = mset (tab_group_clients cfg s m) \<and>
       filter (\<lambda>k. k \<noteq> dragged) ks' = filter (\<lambda>k. k \<noteq> dragged) ks))"
proof (cases done')
  case False
  then show ?thesis using assms by (auto simp: commit_window_tab_reorder_def Let_def split: option.splits)
next
  case True
  obtain m slot new where c: "tab_reorder_target cfg shell pointed s px py = Some (m, slot)" "plan_tab_reorder (tab_group_clients cfg s m) dragged slot = Some new"
    using assms(2) True by (auto simp: commit_window_tab_reorder_def Let_def split: option.splits)
  have ne: "tab_group_clients cfg s m \<noteq> []" using c(2) by (auto simp: plan_tab_reorder_def)
  then obtain ks where ks: "monitor_clients s m = Some ks" by (auto simp: tab_group_clients_def split: option.splits if_splits)
  have g: "group_ok s m ks" using assms(1) ks by (auto simp: wf_lists_def)
  have tabs: "tab_group_clients cfg s m = filter (is_tile s m) ks" using tab_group_set_clients(2) [OF ks refl ne refl refl] .
  obtain succ where succ: "succ = (case position (\<lambda>x. x = dragged) new of None \<Rightarrow> None | Some p \<Rightarrow> vec_get new (p + 1))" by blast
  obtain ks' where ks': "ks' = vec_insert (tab_reinsert_index (filter (\<lambda>k. k \<noteq> dragged) ks) succ (is_client_floating s)) dragged (filter (\<lambda>k. k \<noteq> dragged) ks)" by blast
  note r = drop_reorders_list [OF g tabs c(2) succ refl ks']
  have s': "s' = set_clients m ks' s" using assms(2) c ks by (simp add: commit_window_tab_reorder_def succ ks' Let_def)
  have dt: "distinct (tab_group_clients cfg s m)" using g by (simp add: tabs group_ok_def)
  note plan = plan_tab_reorder_SomeD [OF c(2) dt]
  obtain i where i: "new = vec_insert i dragged (filter (\<lambda>k. k \<noteq> dragged) (tab_group_clients cfg s m))" "i = min slot (length (tab_group_clients cfg s m) - 1)"
    "i \<le> length (filter (\<lambda>k. k \<noteq> dragged) (tab_group_clients cfg s m))" using plan(2) by blast
  have dn: "distinct new" "set new = set (tab_group_clients cfg s m)" using plan(1) dt by (auto simp: i(1) distinct_vec_insert vec_simps)
  have m: "mset new = mset (tab_group_clients cfg s m)" using dn dt by (simp add: set_eq_iff_mset_eq_distinct)
  have at: "new ! min slot (length new - 1) = dragged"
    using i(3) unfolding mset_eq_length [OF m] i(2) [symmetric] by (simp add: i(1) vec_insert_def nth_append)
  have "tab_group_clients cfg s' m = new" unfolding s'
    using tab_group_set_clients(1) [OF ks r(3) ne r(5)] m r(2) tabs by simp
  moreover have "wf_lists s'" unfolding s' using wf_lists_set_clients [OF assms(1) r(1)] .
  ultimately show ?thesis using True c ks s' at m r(4) by blast
qed

lemma docked_state_wf: "wf_lists docked_state"
proof -
  have m: "client_mon docked_state 1 = Some 0" "client_mon docked_state 2 = Some 0" "client_mon docked_state 3 = Some 0" "client_mon docked_state 4 = Some 0" by code_simp+
  have "tiled_first (is_client_floating docked_state) [1, 2, 3, 4]" by code_simp
  with m show ?thesis by (auto simp: wf_lists_def group_ok_def docked_state_def wm_state_new_def split: if_splits)
qed

theorem tab_drop_reorders_tabs_witness:
  "wf_lists (snd (commit_window_tab_reorder area_cfg idle_shell None 1 (Fin 1500) (Fin 40) docked_state)) \<and>
   monitor_clients (snd (commit_window_tab_reorder area_cfg idle_shell None 1 (Fin 1500) (Fin 40) docked_state)) 0 = Some [2, 1, 3, 4]"
proof
  show "wf_lists (snd (commit_window_tab_reorder area_cfg idle_shell None 1 (Fin 1500) (Fin 40) docked_state))"
    using tab_drop_reorders_tabs [OF docked_state_wf prod.collapse [symmetric]] by blast
  show "monitor_clients (snd (commit_window_tab_reorder area_cfg idle_shell None 1 (Fin 1500) (Fin 40) docked_state)) 0 = Some [2, 1, 3, 4]"
    by code_simp
qed

end
