(* ===== verification/Layout_Split.thy ===== *)
theory Layout_Split
  imports Layout
begin

text \<open>
  The arithmetic all layouts share: gaps fit their area, \<open>distribute_length\<close> hands out the whole
  extent, and the two splitters of \<open>src/core/layout.rs\<close> (\<open>push_factor_row\<close>,
  \<open>push_factor_column\<close>) place one cell per client inside their area and without overlaps. The
  locale \<open>splitter\<close> is the contract the layout engines use.
\<close>


section \<open>Gaps and lengths\<close>

lemma max_sat32: "lo \<le> v \<Longrightarrow> v \<le> i32_max \<Longrightarrow> i32_min \<le> lo \<Longrightarrow> max (sat32 v) lo = v"
  by (simp add: sat32_def)

lemma distribute_length_bounds:
  assumes "1 \<le> count" "count \<le> i32_max" "0 \<le> index" "index < count" "0 \<le> gap" "0 \<le> used"
    "extent \<le> i32_max" "count - index \<le> extent - (count - 1) * gap - used"
    and d: "d = distribute_length extent gap used index count f rf"
  shows "1 \<le> d" "d \<le> extent - (count - 1) * gap - used - (count - index - 1)"
    "index = count - 1 \<Longrightarrow> d = extent - (count - 1) * gap - used"
proof -
  let ?G = "(count - 1) * gap"
  let ?R = "extent - ?G - used"
  have g0: "0 \<le> ?G" using assms by simp
  have g1: "?G \<le> i32_max" and e1: "1 \<le> extent - ?G" using assms g0 by linarith+
  have "sat32 (max (sat32 (count - 1)) 0 * max gap 0) = ?G"
    using assms(1,2,5) sat32_id [of ?G] g0 g1 by (simp add: sat32_id [of "count - 1"] sat32_id [of 0] max_def)
  then have a: "max (sat32 (extent - sat32 (max (sat32 (count - 1)) 0 * max gap 0))) 1 = extent - ?G"
    using assms(7) g0 e1 by (simp only:) (rule max_sat32, linarith+)
  have r: "max (sat32 (extent - ?G - used)) 1 = ?R"
    using assms g0 by (intro max_sat32) linarith+
  have "sat32 (count - index) = count - index" using assms by (intro sat32_id) linarith+
  then have l: "max (sat32 (sat32 (count - index) - 1)) 0 = count - index - 1"
    using assms by (simp only:) (rule max_sat32, linarith+)
  have m: "max (sat32 (?R - (count - index - 1))) 1 = ?R - (count - index - 1)"
    using assms g0 by (intro max_sat32) linarith+
  have "d = (if count - index - 1 = 0 then ?R
     else clamp (if flt_less (rnd32 (1 / 1000)) rf
        then to_i32 (mul32 (f32_of ?R) (div32 (fmax f (Fin 0)) rf))
        else ?R sdiv max (sat32 (count - index)) 1) 1 (?R - (count - index - 1)))"
    unfolding d distribute_length_def Let_def a r l m ..
  then show "1 \<le> d" "d \<le> ?R - (count - index - 1)" "index = count - 1 \<Longrightarrow> d = ?R"
    using assms by (auto simp: clamp_def)
qed

lemma fitting_inner_gap_bounds:
  assumes "extent \<le> i32_max"
  shows "0 \<le> fitting_inner_gap extent count g"
    and "1 \<le> count \<Longrightarrow> int count \<le> extent \<Longrightarrow> int count \<le> extent - (int count - 1) * fitting_inner_gap extent count g"
proof -
  show "0 \<le> fitting_inner_gap extent count g"
  proof (cases "count \<le> 1")
    case False
    then have "0 \<le> max (sat32 (extent - int count)) 0 sdiv (int count - 1)"
      by (simp add: sdiv_nonneg pos_imp_zdiv_nonneg_iff)
    then show ?thesis by (simp add: fitting_inner_gap_def Let_def)
  qed (simp add: fitting_inner_gap_def)
  assume c: "1 \<le> count" "int count \<le> extent"
  show "int count \<le> extent - (int count - 1) * fitting_inner_gap extent count g"
  proof (cases "count \<le> 1")
    case True
    with c show ?thesis by (simp add: fitting_inner_gap_def)
  next
    case False
    let ?s = "extent - int count"
    have k: "0 < int count - 1" using False by simp
    have "fitting_inner_gap extent count g \<le> ?s div (int count - 1)"
      using assms c False by (simp add: fitting_inner_gap_def sat32_id sdiv_nonneg)
    then have "(int count - 1) * fitting_inner_gap extent count g \<le> (int count - 1) * (?s div (int count - 1))"
      using k by (simp add: mult_left_mono)
    also have "\<dots> \<le> ?s" using div_mult_bounds [OF k, of ?s] by simp
    finally show ?thesis by linarith
  qed
qed

lemma fitting_inner_gap_le: "0 \<le> g \<Longrightarrow> fitting_inner_gap extent count g \<le> g"
  by (simp add: fitting_inner_gap_def Let_def)

lemma bounded_gap_bounds:
  "0 \<le> bounded_gap area g" "0 < rect_w area \<Longrightarrow> 0 < rect_h area \<Longrightarrow>
     2 * bounded_gap area g \<le> rect_w area \<and> 2 * bounded_gap area g \<le> rect_h area"
proof -
  let ?s = "min (max (rect_w area) 0) (max (rect_h area) 0)"
  have "0 \<le> ?s sdiv 2 \<and> 2 * (?s sdiv 2) \<le> ?s" using sdiv_half_bounds [of ?s] by simp
  moreover from this have "0 \<le> bounded_gap area g \<and> bounded_gap area g \<le> ?s sdiv 2"
    unfolding bounded_gap_def by (intro clamp_bounds) simp
  ultimately show "0 \<le> bounded_gap area g" "0 < rect_w area \<Longrightarrow> 0 < rect_h area \<Longrightarrow>
     2 * bounded_gap area g \<le> rect_w area \<and> 2 * bounded_gap area g \<le> rect_h area"
    by linarith+
qed

lemma bounded_gap_idem: "bounded_gap a (bounded_gap a g) = bounded_gap a g"
proof -
  let ?s = "min (max (rect_w a) 0) (max (rect_h a) 0) sdiv 2"
  have "0 \<le> ?s" using sdiv_half_bounds [of "min (max (rect_w a) 0) (max (rect_h a) 0)"] by simp
  then show ?thesis unfolding bounded_gap_def by (intro clamp_id) (simp_all add: clamp_bounds)
qed

text \<open>
  The areas on which the layout arithmetic is exact: coordinates far from the ends of \<open>i32\<close>, and
  extents an \<open>f32\<close> mantissa holds.
\<close>

definition area_ok :: "rect \<Rightarrow> bool" where
  "area_ok r \<longleftrightarrow> - 1073741824 \<le> rect_x r \<and> rect_x r + rect_w r \<le> 1073741824 \<and>
     - 1073741824 \<le> rect_y r \<and> rect_y r + rect_h r \<le> 1073741824 \<and>
     1 \<le> rect_w r \<and> rect_w r < 16777216 \<and> 1 \<le> rect_h r \<and> rect_h r < 16777216"

lemma area_ok_inside:
  "area_ok a \<Longrightarrow> inside a b \<Longrightarrow> 1 \<le> rect_w b \<Longrightarrow> 1 \<le> rect_h b \<Longrightarrow> area_ok b"
  by (auto simp: area_ok_def inside_def)

lemma usable_area_exact:
  assumes "area_ok a" and g: "g = bounded_gap a g0"
  shows "usable_area a g = rect_new (rect_x a + g) (rect_y a + g) (max (rect_w a - 2 * g) 1) (max (rect_h a - 2 * g) 1)"
proof -
  have b: "0 \<le> g" "2 * g \<le> rect_w a" "2 * g \<le> rect_h a"
    using bounded_gap_bounds [where area = a and g = g0] assms by (auto simp: area_ok_def)
  have "bounded_gap a g = g" by (simp add: g bounded_gap_idem)
  moreover have "sat32 (g * 2) = 2 * g" "sat32 (rect_x a + g) = rect_x a + g" "sat32 (rect_y a + g) = rect_y a + g"
    "sat32 (rect_w a - 2 * g) = rect_w a - 2 * g" "sat32 (rect_h a - 2 * g) = rect_h a - 2 * g"
    using b assms(1) by (simp_all add: sat32_id area_ok_def)
  ultimately show ?thesis by (simp add: usable_area_def Let_def)
qed

lemma client_rect_inside: "1 \<le> w \<Longrightarrow> 1 \<le> h \<Longrightarrow> w \<le> i32_max \<Longrightarrow> h \<le> i32_max \<Longrightarrow>
    inside (rect_new x y w h) (client_rect x y w h b)"
  by (auto simp: inside_def client_rect_def Let_def sat32_def)

lemma client_rect_pos: "1 \<le> rect_w (client_rect x y w h b)" "1 \<le> rect_h (client_rect x y w h b)"
  by (simp_all add: client_rect_def Let_def)

lemma client_rect_xy [simp]: "rect_x (client_rect x y w h b) = x" "rect_y (client_rect x y w h b) = y"
  by (simp_all add: client_rect_def Let_def)

lemma result_new_simps [simp]: "res_key (result_new k r) = k" "res_rect (result_new k r) = r"
  by (simp_all add: result_new_def)

section \<open>One row of factored cells\<close>

definition placed_in :: "rect \<Rightarrow> 'k layout_result list \<Rightarrow> bool" where
  "placed_in area rs \<longleftrightarrow>
     (\<forall>r \<in> set rs. inside area (res_rect r) \<and> 1 \<le> rect_w (res_rect r) \<and> 1 \<le> rect_h (res_rect r)) \<and>
     disjoint_rects (map res_rect rs)"

lemma placed_in_Nil [simp]: "placed_in a []"
  by (simp add: placed_in_def)

lemma placed_in_mono: "placed_in b rs \<Longrightarrow> inside a b \<Longrightarrow> placed_in a rs"
  by (auto simp: placed_in_def intro: inside_trans)

lemma placed_in_append:
  assumes "placed_in b rs" "placed_in c ss" "inside a b" "inside a c" "\<not> overlap b c"
  shows "placed_in a (rs @ ss)"
proof -
  have "\<not> overlap (res_rect r) (res_rect s)" if "r \<in> set rs" "s \<in> set ss" for r s
    using that assms inside_overlap_mono [of b "res_rect r" c "res_rect s"] by (auto simp: placed_in_def)
  then show ?thesis
    using assms placed_in_mono [of b rs a] placed_in_mono [of c ss a]
    by (auto simp: placed_in_def disjoint_rects_append)
qed

lemma placed_in_Cons:
  assumes "inside b (res_rect r)" "1 \<le> rect_w (res_rect r)" "1 \<le> rect_h (res_rect r)" "placed_in c ss"
    "inside a b" "inside a c" "\<not> overlap b c"
  shows "placed_in a (r # ss)"
  using placed_in_append [of b "[r]" c ss a] assms by (simp add: placed_in_def)

lemma factor_row_loop_placed:
  assumes "area_ok (rect_new x y w h)" "0 \<le> gap" "0 \<le> i" "0 \<le> used"
    "i + int (length cs) = count" "int (length cs) \<le> w - (count - 1) * gap - used" "count \<le> i32_max"
  shows "placed_in (rect_new (x + used + i * gap) y (w - used - i * gap) h)
      (factor_row_loop x y w h gap count i used rem cs)"
  using assms
proof (induction cs arbitrary: i used rem)
  case Nil
  then show ?case by simp
next
  case (Cons c cs)
  note ok = Cons.prems(1)
  define d where "d = distribute_length w gap used i count (lc_factor c) rem"
  have cnt: "i < count" "count - i = int (length cs) + 1" using Cons.prems(5) by simp_all
  have ig: "0 \<le> i * gap" "i * gap \<le> (count - 1) * gap" "(i + 1) * gap = i * gap + gap"
    using Cons.prems(2,3) cnt(1) by (simp_all add: mult_right_mono distrib_right)
  have w: "1 \<le> w" "w < 16777216" "1 \<le> h" "h < 16777216" "\<bar>x\<bar> \<le> 1073741824"
    using ok by (auto simp: area_ok_def)
  have len: "count - i \<le> w - (count - 1) * gap - used" using Cons.prems(5,6) by simp
  have d: "1 \<le> d" "d \<le> w - (count - 1) * gap - used - (count - i - 1)"
    using distribute_length_bounds [OF _ Cons.prems(7) Cons.prems(3) cnt(1) Cons.prems(2,4) _ len d_def] cnt w
      Cons.prems(3) by simp_all
  let ?X = "x + used + i * gap"
  have wr: "iadd (iadd x used) (imul i gap) = ?X" "iadd used d = used + d"
    using w ig d cnt Cons.prems(4) by (simp_all add: wrap32_id)
  have tl: "placed_in (rect_new (x + (used + d) + (i + 1) * gap) y (w - (used + d) - (i + 1) * gap) h)
      (factor_row_loop x y w h gap count (i + 1) (used + d) rem' cs)" for rem'
    using Cons.IH [of "i + 1" "used + d"] Cons.prems d cnt by simp
  show ?case
  proof (cases cs)
    case Nil
    have "d \<le> i32_max" using d w ig cnt \<open>0 \<le> used\<close> by linarith
    then show ?thesis using d w ig cnt Nil
      client_rect_inside [of d h ?X y "lc_border c"] client_rect_pos [of ?X y d h]
      by (auto simp: d_def [symmetric] wr placed_in_def Let_def inside_def)
  next
    case (Cons c' cs')
    then have "i + 1 \<le> count - 1" using cnt by simp
    then have "(i + 1) * gap \<le> (count - 1) * gap" using \<open>0 \<le> gap\<close> by (simp add: mult_right_mono)
    moreover have "d \<le> i32_max" using d w ig cnt \<open>0 \<le> used\<close> by linarith
    then have "inside (rect_new ?X y d h) (client_rect ?X y d h (lc_border c))"
      using d w by (intro client_rect_inside) auto
    ultimately show ?thesis
      unfolding factor_row_loop.simps Let_def d_def [symmetric] wr
      by (intro placed_in_Cons [OF _ _ _ tl, where b = "rect_new ?X y d h"])
        (use d w ig cnt \<open>0 \<le> gap\<close> in \<open>auto simp: client_rect_pos inside_def overlap_def\<close>)
  qed
qed

text \<open>The cells of a row use the whole extent: only the gaps and the borders are not covered.\<close>

lemma factor_row_loop_widths:
  assumes "1 \<le> w" "w \<le> i32_max" "1 \<le> h" "0 \<le> gap" "0 \<le> i" "0 \<le> used"
    "i + int (length cs) = count" "int (length cs) \<le> w - (count - 1) * gap - used" "count \<le> i32_max"
    "cs \<noteq> []" "\<forall>c \<in> set cs. lc_border c = 0"
  shows "(\<Sum>r \<leftarrow> factor_row_loop x y w h gap count i used rem cs. rect_w (res_rect r)) = w - (count - 1) * gap - used"
  using assms
proof (induction cs arbitrary: i used rem)
  case Nil
  then show ?case by simp
next
  case (Cons c cs)
  define d where "d = distribute_length w gap used i count (lc_factor c) rem"
  have cnt: "i < count" "count - i = int (length cs) + 1" using Cons.prems(7) by simp_all
  have g0: "0 \<le> (count - 1) * gap" using Cons.prems(4,5) cnt by simp
  have len: "count - i \<le> w - (count - 1) * gap - used" using Cons.prems(7,8) by simp
  have d: "1 \<le> d" "d \<le> w - (count - 1) * gap - used - (count - i - 1)"
    "i = count - 1 \<Longrightarrow> d = w - (count - 1) * gap - used"
    using distribute_length_bounds [OF _ Cons.prems(9,5) cnt(1) Cons.prems(4,6,2) len d_def] cnt Cons.prems(5)
    by simp_all
  have wr: "iadd used d = used + d" using d g0 cnt Cons.prems(2,6) by (simp add: wrap32_id)
  have b0: "lc_border c = 0" using Cons.prems(11) by simp
  have cw: "rect_w (client_rect X Y d h 0) = d" for X Y
    using d g0 cnt Cons.prems(2,6) by (simp add: client_rect_def Let_def sat32_id)
  show ?case
  proof (cases cs)
    case Nil
    then have "w - (count - 1) * gap - used = d" using d(3) cnt by simp
    with Nil show ?thesis by (simp add: Let_def d_def [symmetric] b0 cw)
  next
    case (Cons c' cs')
    then have "cs \<noteq> []" by simp
    then show ?thesis
      using b0 Cons.IH [of "i + 1" "used + d"] Cons.prems d cnt
      by (simp add: Let_def d_def [symmetric] cw wr)
  qed
qed

section \<open>Columns are transposed rows\<close>

definition flip_rect :: "rect \<Rightarrow> rect" where
  "flip_rect r = rect_new (rect_y r) (rect_x r) (rect_h r) (rect_w r)"

lemma flip_rect_new [simp]: "flip_rect (rect_new x y w h) = rect_new y x h w"
  by (simp add: flip_rect_def)

lemma flip_client_rect: "client_rect x y w h b = flip_rect (client_rect y x h w b)"
  by (simp add: client_rect_def Let_def)

lemma overlap_flip [simp]: "overlap (flip_rect a) (flip_rect b) \<longleftrightarrow> overlap a b"
  by (auto simp: overlap_def flip_rect_def)

lemma inside_flip [simp]: "inside (flip_rect a) (flip_rect b) \<longleftrightarrow> inside a b"
  by (auto simp: inside_def flip_rect_def)

lemma disjoint_rects_flip: "disjoint_rects (map flip_rect rs) \<longleftrightarrow> disjoint_rects rs"
  by (induction rs) auto

lemma factor_column_loop_flip:
  "factor_column_loop x y w h gap count i used rem cs =
     map (\<lambda>r. result_new (res_key r) (flip_rect (res_rect r))) (factor_row_loop y x h w gap count i used rem cs)"
  by (induction cs arbitrary: i used rem) (simp_all add: Let_def flip_client_rect [of x])

lemma placed_in_flip:
  "placed_in a rs \<Longrightarrow> placed_in (flip_rect a) (map (\<lambda>r. result_new (res_key r) (flip_rect (res_rect r))) rs)"
  using disjoint_rects_flip [of "map res_rect rs"]
  by (simp add: placed_in_def o_def) (simp add: flip_rect_def)

lemma area_ok_flip: "area_ok (rect_new x y w h) \<longleftrightarrow> area_ok (rect_new y x h w)"
  by (auto simp: area_ok_def)

section \<open>The contract of the two splitters\<close>

text \<open>
  \<open>push_factor_row\<close> and \<open>push_factor_column\<close> promise the same to the layouts that call them: they
  append one result per client, in order, inside the area they are given and without overlaps, as
  long as the area has room for one pixel per client.
\<close>

locale splitter =
  fixes place :: "'k layout_result list \<Rightarrow> 'k layout_client list \<Rightarrow> int \<Rightarrow> int \<Rightarrow> int \<Rightarrow> int \<Rightarrow> int \<Rightarrow> 'k layout_result list"
    and room :: "int \<Rightarrow> int \<Rightarrow> int"
  assumes appends: "place acc cs x y w h g = acc @ place [] cs x y w h g"
    and keys: "int (length cs) \<le> i32_max \<Longrightarrow> map res_key (place [] cs x y w h g) = map lc_key cs"
    and places: "area_ok (rect_new x y w h) \<Longrightarrow> int (length cs) \<le> room w h \<Longrightarrow>
      placed_in (rect_new x y w h) (place [] cs x y w h g)"
begin

lemma place_Nil: "place acc [] x y w h g = acc"
  using keys [of "[]"] appends [of acc "[]"] by simp

lemma keys_acc:
  "int (length cs) \<le> i32_max \<Longrightarrow> map res_key (place acc cs x y w h g) = map res_key acc @ map lc_key cs"
  by (subst appends) (simp add: keys)

lemma places_two:
  assumes "area_ok (rect_new x y w h)" "int (length cs) \<le> room w h"
    "area_ok (rect_new x' y' w' h')" "int (length ds) \<le> room w' h'"
    "inside a (rect_new x y w h)" "inside a (rect_new x' y' w' h')"
    "\<not> overlap (rect_new x y w h) (rect_new x' y' w' h')"
  shows "placed_in a (place (place [] cs x y w h g) ds x' y' w' h' g')"
  by (subst appends) (rule placed_in_append [OF places places], use assms in auto)

end

lemma length_wrap: "int (length cs) \<le> i32_max \<Longrightarrow> ilen cs = int (length cs)"
  by (simp add: wrap32_id)

lemma factor_row_loop_keys: "map res_key (factor_row_loop x y w h gap count i used rem cs) = map lc_key cs"
  by (induction cs arbitrary: i used rem) (simp_all add: Let_def)

lemma push_factor_row_placed:
  assumes "area_ok (rect_new x y w h)" "int (length cs) \<le> w"
  shows "placed_in (rect_new x y w h) (push_factor_row [] cs x y w h g)"
proof (cases "cs = []")
  case False
  let ?g = "fitting_inner_gap w (length cs) g"
  have w: "w \<le> i32_max" "int (length cs) \<le> i32_max" using assms by (auto simp: area_ok_def)
  have "1 \<le> length cs" using False by (simp add: Suc_le_eq)
  then have b: "0 \<le> ?g" "int (length cs) \<le> w - (int (length cs) - 1) * ?g"
    using fitting_inner_gap_bounds [OF w(1), of "length cs" g] assms(2) by auto
  then have "placed_in (rect_new (x + 0 + 0 * ?g) y (w - 0 - 0 * ?g) h)
      (factor_row_loop x y w h ?g (int (length cs)) 0 0 (factor_sum cs) cs)"
    using assms w by (intro factor_row_loop_placed) auto
  with False show ?thesis by (simp add: push_factor_row_def Let_def length_wrap [OF w(2)])
qed (simp add: push_factor_row_def Let_def wrap32_id)

lemma push_factor_column_flip:
  "push_factor_column [] cs x y w h g =
     map (\<lambda>r. result_new (res_key r) (flip_rect (res_rect r))) (push_factor_row [] cs y x h w g)"
  by (simp add: push_factor_column_def push_factor_row_def Let_def factor_column_loop_flip)

lemma push_factor_column_placed:
  assumes "area_ok (rect_new x y w h)" "int (length cs) \<le> h"
  shows "placed_in (rect_new x y w h) (push_factor_column [] cs x y w h g)"
  using placed_in_flip [OF push_factor_row_placed [of y x h w cs g]] assms
  by (simp add: push_factor_column_flip area_ok_flip [of x])

lemma push_factor_row_keys:
  "int (length cs) \<le> i32_max \<Longrightarrow> map res_key (push_factor_row [] cs x y w h g) = map lc_key cs"
  by (auto simp: push_factor_row_def Let_def length_wrap factor_row_loop_keys)

interpretation rows: splitter push_factor_row "\<lambda>w h. w"
proof
  show "push_factor_row acc cs x y w h g = acc @ push_factor_row [] cs x y w h g"
    for acc :: "'k layout_result list" and cs x y w h g by (simp add: push_factor_row_def Let_def)
qed (simp_all add: push_factor_row_placed push_factor_row_keys)

interpretation columns: splitter push_factor_column "\<lambda>w h. h"
proof
  show "push_factor_column acc cs x y w h g = acc @ push_factor_column [] cs x y w h g"
    for acc :: "'k layout_result list" and cs x y w h g by (simp add: push_factor_column_def Let_def)
  show "map res_key (push_factor_column [] cs x y w h g) = map lc_key cs" if "int (length cs) \<le> i32_max"
    for cs :: "'k layout_client list" and x y w h g
    using push_factor_row_keys [OF that] by (simp add: push_factor_column_flip o_def)
qed (rule push_factor_column_placed)

end
