(* ===== verification/Layout_Contract.thy ===== *)
theory Layout_Contract
  imports Layout_Split "HOL-Library.Multiset"
begin

text \<open>
  What every layout engine of \<open>src/core/layout.rs\<close> promises: one rectangle per client, each with
  at least one pixel. The locale \<open>arranger\<close> states the contract, every \<open>calculate_*\<close> with the plain
  signature interprets it, and the dispatch table of \<open>src/jwm/layout/drag_attach.rs\<close> hands out
  nothing else.
\<close>

definition sized :: "'k layout_result list \<Rightarrow> bool" where
  "sized rs \<longleftrightarrow> (\<forall>r \<in> set rs. 1 \<le> rect_w (res_rect r) \<and> 1 \<le> rect_h (res_rect r))"

lemma sized_simps [simp]:
  "sized []" "sized (r # rs) \<longleftrightarrow> 1 \<le> rect_w (res_rect r) \<and> 1 \<le> rect_h (res_rect r) \<and> sized rs"
  "sized (rs @ ss) \<longleftrightarrow> sized rs \<and> sized ss"
  by (auto simp: sized_def)

lemma sized_map: "sized (map (\<lambda>p. result_new (f p) (client_rect (x p) (y p) (w p) (h p) (b p))) ps)"
  by (induction ps) (simp_all add: client_rect_pos)

lemma sized_factor_row_loop: "sized (factor_row_loop x y w h gap k i used rem cs)"
  by (induction cs arbitrary: i used rem) (simp_all add: Let_def client_rect_pos)

lemma sized_push_factor_row: "sized acc \<Longrightarrow> sized (push_factor_row acc cs x y w h g)"
  by (simp add: push_factor_row_def Let_def sized_factor_row_loop)

lemma sized_factor_column_loop: "sized (factor_column_loop x y w h gap k i used rem cs)"
  by (induction cs arbitrary: i used rem) (simp_all add: Let_def client_rect_pos)

lemma sized_push_factor_column: "sized acc \<Longrightarrow> sized (push_factor_column acc cs x y w h g)"
  by (simp add: push_factor_column_def Let_def sized_factor_column_loop)

lemma sized_push_deck_previews: "sized acc \<Longrightarrow> sized (push_deck_previews acc cs x y w h g)"
  by (simp add: push_deck_previews_def Let_def case_prod_unfold sized_map)

lemmas sized_pushes = sized_push_factor_row sized_push_factor_column sized_push_deck_previews

lemma keys_map_enumerate: "map (\<lambda>p. lc_key (snd p)) (enumerate i cs) = map lc_key cs"
  by (induction cs arbitrary: i) simp_all

lemma keys_split: "map lc_key (take k cs) @ map lc_key (drop k cs) = map lc_key cs"
  by (metis append_take_drop_id map_append)

lemma push_deck_previews_keys:
  "map res_key (push_deck_previews acc cs x y w h g) = map res_key acc @ map lc_key cs"
  by (simp add: push_deck_previews_def Let_def case_prod_unfold o_def keys_map_enumerate)

lemma step_by2_halves: "mset (step_by2 xs) + mset (step_by2 (drop 1 xs)) = mset xs"
proof (induction xs rule: step_by2.induct)
  case (3 x y xs)
  then show ?case by (cases xs) (simp_all add: ac_simps)
qed simp_all

section \<open>Each layout\<close>

lemma calculate_tile_keys:
  "int (length cs) \<le> i32_max \<Longrightarrow> map res_key (calculate_tile p cs) = map lc_key cs"
  by (simp add: calculate_tile_def Let_def rows.keys_acc columns.keys_acc keys_split)

lemma calculate_tile_sized: "sized (calculate_tile p cs)"
  by (simp add: calculate_tile_def Let_def sized_pushes)

lemma calculate_monocle_keys: "map res_key (calculate_monocle p cs) = map lc_key cs"
  by (simp add: calculate_monocle_def o_def)

lemma calculate_monocle_sized: "sized (calculate_monocle p cs)"
  by (simp add: calculate_monocle_def sized_map)

lemma calculate_fullscreen_keys: "map res_key (calculate_fullscreen p cs) = map lc_key cs"
  by (simp add: calculate_fullscreen_def o_def)

lemma calculate_fullscreen_sized: "area_ok (screen_area p) \<Longrightarrow> sized (calculate_fullscreen p cs)"
  by (auto simp: calculate_fullscreen_def area_ok_def sized_def)

lemma fib_loop_keys: "map res_key (fib_loop wx wy wh mw gap mg n nm nmc i s cs) = map lc_key cs"
  by (induction cs arbitrary: i s) (simp_all add: Let_def)

lemma fib_loop_sized: "sized (fib_loop wx wy wh mw gap mg n nm nmc i s cs)"
  by (induction cs arbitrary: i s) (simp_all add: Let_def client_rect_pos)

lemma calculate_fibonacci_keys: "map res_key (calculate_fibonacci p cs) = map lc_key cs"
  by (simp add: calculate_fibonacci_def Let_def fib_loop_keys)

lemma calculate_fibonacci_sized: "sized (calculate_fibonacci p cs)"
  by (simp add: calculate_fibonacci_def Let_def fib_loop_sized)

lemma calculate_grid_keys: "map res_key (calculate_grid p cs) = map lc_key cs"
  by (simp add: calculate_grid_def Let_def case_prod_unfold o_def keys_map_enumerate)

lemma calculate_grid_sized: "sized (calculate_grid p cs)"
  by (simp add: calculate_grid_def Let_def case_prod_unfold sized_map)

lemma bstack_rows_sized: "sized acc \<Longrightarrow> sized (bstack_rows wx wy ww mh gap rg ns sr sc th ch cs rows acc)"
  by (induction rows arbitrary: acc) (simp_all add: Let_def sized_pushes)

lemma calculate_bstack_sized: "sized (calculate_bstack p cs)"
  by (simp add: calculate_bstack_def Let_def sized_pushes bstack_rows_sized calculate_grid_sized)

lemma calculate_deck_keys:
  "int (length cs) \<le> i32_max \<Longrightarrow> map res_key (calculate_deck p cs) = map lc_key cs"
  by (simp add: calculate_deck_def Let_def push_deck_previews_keys rows.keys_acc columns.keys_acc keys_split)

lemma calculate_deck_sized: "sized (calculate_deck p cs)"
  by (simp add: calculate_deck_def Let_def sized_pushes)

lemma calculate_vstack_keys: "map res_key (calculate_vstack p cs) = map lc_key cs"
  by (simp add: calculate_vstack_def Let_def case_prod_unfold o_def keys_map_enumerate)

lemma calculate_vstack_sized: "sized (calculate_vstack p cs)"
  by (simp add: calculate_vstack_def Let_def case_prod_unfold sized_map)

text \<open>The stack rows of the bottom stack are consecutive slices of the stack.\<close>

lemma bstack_rows_two:
  assumes "int (length cs) \<le> 1073741824" "2 \<le> length cs" and sc: "sc = (int (length cs) + 1) div 2"
  shows "map res_key (bstack_rows wx wy ww mh gap rg (int (length cs)) 2 sc th ch cs [0, 1] acc) =
    map res_key acc @ map lc_key cs"
proof -
  let ?n = "int (length cs)"
  have b: "0 < sc" "sc \<le> ?n" "?n - sc \<le> sc" "sc < ?n" using assms(2) sc by presburger+
  have k: "isub ?n (imul 1 sc) = ?n - sc" "imul 0 sc = 0" "imul 1 sc = sc"
    using b assms(1) by (simp_all add: wrap32_id)
  have s1: "min (nat sc) (length cs) = nat sc" "min (nat sc + nat (?n - sc)) (length cs) = length cs"
    "\<not> length cs \<le> nat sc" "max (?n - sc) 0 = ?n - sc" "cs \<noteq> []"
    using b by auto
  have l: "int (length (take (nat sc) cs)) \<le> i32_max" using assms(1) by simp
  show ?thesis using assms(1) k(1,3) s1 keys_split [of "nat sc" cs]
    by (simp add: Let_def k(2) rows.keys_acc rows.keys_acc [OF l])
qed

lemma bstack_rows_one:
  assumes "int (length cs) \<le> 1073741824" "cs \<noteq> []"
  shows "map res_key (bstack_rows wx wy ww mh gap rg (int (length cs)) 1 sc th ch cs [0] acc) =
    map res_key acc @ map lc_key cs"
  using assms by (simp add: Let_def wrap32_id rows.keys_acc)

lemma bstack_rows_keys:
  assumes "int (length cs) \<le> 1073741824" and n: "n = int (length cs)" and r: "r = (if n > 4 then 2 else 1)"
  shows "map res_key (bstack_rows wx wy ww mh gap rg n r (if n > 0 then isub (iadd n r) 1 sdiv r else 0)
      th ch cs [0..r - 1] acc) = map res_key acc @ map lc_key cs"
proof (cases "n > 4")
  case True
  have u: "[0..1::int] = [0, 1]" by (simp add: upto.simps)
  have "isub (iadd n 2) 1 sdiv 2 = (n + 1) div 2" using assms by (simp add: wrap32_id sdiv_nonneg)
  with True n show ?thesis using wrap32_0 bstack_rows_two [OF assms(1), of "(n + 1) div 2"]
    by (cases "cs = []") (simp_all add: r u del: bstack_rows.simps)
next
  case False
  then show ?thesis using n bstack_rows_one [OF assms(1)]
    by (cases "cs = []") (simp add: r, simp add: r del: bstack_rows.simps)
qed

lemma calculate_bstack_keys:
  assumes "int (length cs) \<le> 1073741824"
  shows "map res_key (calculate_bstack p cs) = map lc_key cs"
proof -
  let ?st = "drop (min (n_master p) (length cs)) cs"
  have n: "min (int (length cs - n_master p)) i32_max = int (length ?st)" using assms by simp
  have l: "int (length ?st) \<le> 1073741824" using assms by simp
  show ?thesis
    unfolding calculate_bstack_def Let_def n using assms
    by (simp only: bstack_rows_keys [OF l refl refl] calculate_grid_keys split: if_split)
      (simp add: keys_split rows.keys_acc)
qed

lemma length_step_by2: "length (step_by2 xs) \<le> length xs"
  by (induction xs rule: step_by2.induct) simp_all

lemma centered_columns_keys:
  assumes "int (length cs) \<le> 1073741824"
  shows "mset (map res_key (centered_columns p cs b)) = mset (map lc_key cs)"
proof -
  let ?k = "min (n_master p) (length cs)"
  have l: "int (length (step_by2 (drop n cs))) \<le> i32_max" for n
    using assms length_step_by2 [of "drop n cs"] by simp
  have c: "int (length cs) \<le> i32_max" using assms by simp
  have three: "mset (map lc_key (take ?k cs) @ map lc_key (step_by2 (drop ?k cs)) @
      map lc_key (step_by2 (drop 1 (drop ?k cs)))) = mset (map lc_key cs)"
  proof -
    have "mset (take ?k cs) + (mset (step_by2 (drop ?k cs)) + mset (step_by2 (drop 1 (drop ?k cs)))) = mset cs"
      unfolding step_by2_halves by (simp flip: mset_append)
    then show ?thesis unfolding mset_append mset_map by (metis image_mset_union)
  qed
  have two: "mset (map lc_key (take ?k cs) @ map lc_key (drop ?k cs)) = mset (map lc_key cs)"
    by (simp only: keys_split)
  have t: "int (length (take k cs)) \<le> i32_max" "int (length (drop k cs)) \<le> i32_max" for k
    using assms by simp_all
  show ?thesis
    unfolding centered_columns_def Let_def
    by (simp only: calculate_bstack_keys [OF assms] calculate_grid_keys drop_drop columns.keys_acc t c l
        list.map append_Nil append.assoc length_0_conv split: if_split)
      (use three two in \<open>simp only: drop_drop append.assoc simp_thms\<close>, simp)
qed

lemma centered_columns_sized: "sized (centered_columns p cs b)"
  unfolding centered_columns_def Let_def
  by (simp only: sized_pushes sized_simps calculate_bstack_sized calculate_grid_sized simp_thms split: if_split)

lemma place_cells_keys: "length cs = length cells \<Longrightarrow> map res_key (place_cells cs cells) = map lc_key cs"
  by (induction cs cells rule: list_induct2) (auto simp: place_cells_def)

lemma place_cells_sized: "sized (place_cells cs cells)"
  by (simp add: place_cells_def case_prod_unfold sized_map)

lemma tatami_small_keys:
  "cs \<noteq> [] \<Longrightarrow> length cs \<le> 4 \<Longrightarrow> map res_key (tatami_small wx wy ww wh g cs) = map lc_key cs"
  by (simp add: tatami_small_def Let_def place_cells_keys case_prod_unfold o_def keys_map_enumerate)

lemma tatami_small_sized: "sized (tatami_small wx wy ww wh g cs)"
  by (simp add: tatami_small_def Let_def place_cells_sized case_prod_unfold sized_map)

lemma tatami_five_keys: "length cs = 5 \<Longrightarrow> map res_key (tatami_five wx gy ww rh g k cs) = map lc_key cs"
  by (simp add: tatami_five_def Let_def place_cells_keys)

lemma tatami_tail_keys: "map res_key (tatami_tail wx gy ww rh g cs) = map lc_key cs"
  by (simp add: tatami_tail_def Let_def case_prod_unfold o_def keys_map_enumerate)

lemma tatami_groups_keys:
  "map res_key (tatami_groups wx wy ww wh gap gg rh groups gs cs) = map lc_key (take (5 * length gs) cs)"
proof (induction gs arbitrary: cs)
  case (Cons g gs)
  let ?k = "min (length cs) 5"
  have "map lc_key (take (5 * length (g # gs)) cs) =
      map lc_key (take ?k cs) @ map lc_key (take (5 * length gs) (drop ?k cs))"
    by (simp add: take_add min_def flip: map_append)
  then show ?case using Cons.IH by (simp add: Let_def tatami_five_keys tatami_tail_keys)
qed simp

lemma tatami_groups_sized: "sized (tatami_groups wx wy ww wh gap gg rh groups gs cs)"
  by (induction gs arbitrary: cs)
    (simp_all add: Let_def tatami_five_def tatami_tail_def place_cells_sized case_prod_unfold sized_map)

lemma calculate_tatami_keys: "map res_key (calculate_tatami p cs) = map lc_key cs"
proof -
  have "length cs \<le> 5 * ((length cs + 4) div 5)" by presburger
  then show ?thesis
    by (simp add: calculate_tatami_def Let_def calculate_grid_keys tatami_small_keys tatami_groups_keys)
qed

lemma calculate_tatami_sized: "sized (calculate_tatami p cs)"
  by (simp add: calculate_tatami_def Let_def calculate_grid_sized tatami_small_sized tatami_groups_sized)

section \<open>The contract of a layout engine\<close>

text \<open>
  Every engine with the plain signature places each client exactly once and gives it at least one
  pixel. The bound on the client count keeps \<open>len() as i32\<close> and the sums formed from it exact.
\<close>

locale arranger =
  fixes arrange :: "layout_params \<Rightarrow> 'k layout_client list \<Rightarrow> 'k layout_result list"
  assumes once: "int (length cs) \<le> 1073741824 \<Longrightarrow> mset (map res_key (arrange p cs)) = mset (map lc_key cs)"
    and pixels: "area_ok (screen_area p) \<Longrightarrow> sized (arrange p cs)"
begin

lemma same_count: "int (length cs) \<le> 1073741824 \<Longrightarrow> length (arrange p cs) = length cs"
  using once [of cs p] by (metis length_map mset_eq_length)

lemma unique_result:
  assumes "int (length cs) \<le> 1073741824" "distinct (map lc_key cs)" "c \<in> set cs"
  shows "\<exists>!r. r \<in> set (arrange p cs) \<and> res_key r = lc_key c"
proof -
  have m: "mset (map res_key (arrange p cs)) = mset (map lc_key cs)" by (rule once) fact
  then have d: "distinct (map res_key (arrange p cs))" using assms(2) mset_eq_imp_distinct_iff by blast
  from m assms(3) have "lc_key c \<in> set (map res_key (arrange p cs))" by (metis image_eqI list.set_map mset_eq_setD)
  then obtain r where "r \<in> set (arrange p cs)" "res_key r = lc_key c" by auto
  with d show ?thesis by (auto simp: distinct_map inj_on_def)
qed

end

lemma arranger_keysI:
  "(\<And>p cs. int (length cs) \<le> 1073741824 \<Longrightarrow> map res_key (arrange p cs) = map lc_key cs) \<Longrightarrow>
   (\<And>p cs. area_ok (screen_area p) \<Longrightarrow> sized (arrange p cs)) \<Longrightarrow> arranger arrange"
  by unfold_locales simp_all

interpretation tile: arranger calculate_tile
  by (rule arranger_keysI) (simp_all add: calculate_tile_keys calculate_tile_sized)

interpretation monocle: arranger calculate_monocle
  by (rule arranger_keysI) (simp_all add: calculate_monocle_keys calculate_monocle_sized)

interpretation fibonacci: arranger calculate_fibonacci
  by (rule arranger_keysI) (simp_all add: calculate_fibonacci_keys calculate_fibonacci_sized)

interpretation centered_master: arranger calculate_centered_master
  by unfold_locales (simp_all only: calculate_centered_master_def centered_columns_keys centered_columns_sized)

interpretation bstack: arranger calculate_bstack
  by (rule arranger_keysI) (simp_all add: calculate_bstack_keys calculate_bstack_sized)

interpretation grid: arranger calculate_grid
  by (rule arranger_keysI) (simp_all add: calculate_grid_keys calculate_grid_sized)

interpretation deck: arranger calculate_deck
  by (rule arranger_keysI) (simp_all add: calculate_deck_keys calculate_deck_sized)

interpretation three_col: arranger calculate_three_col
  by unfold_locales (simp_all only: calculate_three_col_def centered_columns_keys centered_columns_sized)

interpretation tatami: arranger calculate_tatami
  by (rule arranger_keysI) (simp_all add: calculate_tatami_keys calculate_tatami_sized)

interpretation fullscreen: arranger calculate_fullscreen
  by (rule arranger_keysI) (simp_all add: calculate_fullscreen_keys calculate_fullscreen_sized)

interpretation vstack: arranger calculate_vstack
  by (rule arranger_keysI) (simp_all add: calculate_vstack_keys calculate_vstack_sized)

section \<open>The dispatch table\<close>

text \<open>\<open>layout_calc_fn\<close>: the engines that share the plain signature, by layout.\<close>

definition layout_calc_fn :: "layout_enum \<Rightarrow> (layout_params \<Rightarrow> 'k layout_client list \<Rightarrow> 'k layout_result list) option" where
  "layout_calc_fn l = map_of
     [(''tile'', calculate_tile), (''monocle'', calculate_monocle), (''fibonacci'', calculate_fibonacci),
      (''centeredmaster'', calculate_centered_master), (''bstack'', calculate_bstack),
      (''grid'', calculate_grid), (''deck'', calculate_deck), (''threecol'', calculate_three_col),
      (''tatami'', calculate_tatami), (''fullscreen'', calculate_fullscreen), (''vstack'', calculate_vstack)]
     (layout_name l)"

lemma layout_calc_fn_arranger: "layout_calc_fn l = Some arrange \<Longrightarrow> arranger arrange"
  by (auto simp: layout_calc_fn_def tile.arranger_axioms monocle.arranger_axioms fibonacci.arranger_axioms
      centered_master.arranger_axioms bstack.arranger_axioms grid.arranger_axioms deck.arranger_axioms
      three_col.arranger_axioms tatami.arranger_axioms fullscreen.arranger_axioms vstack.arranger_axioms
      split: if_splits)

text \<open>
  C9. Every layout engine of the dispatch table places every client: each client of the list has
  exactly one result, there are no others, and each rectangle has at least one pixel.
\<close>

theorem every_layout_places_each_client_once:
  assumes "layout_calc_fn l = Some arrange" "int (length cs) \<le> 1073741824" "distinct (map lc_key cs)"
    "area_ok (screen_area p)"
  shows "length (arrange p cs) = length cs \<and>
    (\<forall>c \<in> set cs. \<exists>!r. r \<in> set (arrange p cs) \<and> res_key r = lc_key c) \<and>
    (\<forall>r \<in> set (arrange p cs). 1 \<le> rect_w (res_rect r) \<and> 1 \<le> rect_h (res_rect r))"
proof -
  from assms(1) have a: "arranger arrange" by (rule layout_calc_fn_arranger)
  then show ?thesis
    using arranger.same_count [OF a assms(2)] arranger.unique_result [OF a assms(2,3)]
      arranger.pixels [OF a assms(4)] by (simp add: sized_def)
qed

theorem every_layout_places_each_client_once_witness:
  "length (calculate_tatami \<lparr>screen_area = rect_new 0 0 1920 1080, n_master = 1, m_fact = Fin (1 / 2), gap_px = 8\<rparr>
     [\<lparr>lc_key = (1::nat), lc_factor = Fin 1, lc_border = 2\<rparr>, \<lparr>lc_key = 2, lc_factor = Fin 1, lc_border = 2\<rparr>]) = 2"
  using every_layout_places_each_client_once [of "Layout_Enum ''tatami''" calculate_tatami
    "[\<lparr>lc_key = (1::nat), lc_factor = Fin 1, lc_border = 2\<rparr>, \<lparr>lc_key = 2, lc_factor = Fin 1, lc_border = 2\<rparr>]"
    "\<lparr>screen_area = rect_new 0 0 1920 1080, n_master = 1, m_fact = Fin (1 / 2), gap_px = 8\<rparr>"]
  by (simp add: layout_calc_fn_def area_ok_def)

end
