(* ===== verification/Layout_Tile.thy ===== *)
theory Layout_Tile
  imports Layout_Contract
begin

text \<open>
  The master/stack layout of \<open>src/core/layout.rs\<close>: the master factor, clamped to 0.05 .. 0.95 and
  applied in \<open>f32\<close>, leaves both sides at least one pixel, so the two groups of \<open>calculate_tile\<close> stay
  inside the usable area and apart.
\<close>

lemma wide_bounds: "rnd32 (5 / 100) = Fin (13421773 / 268435456)" "rnd32 (95 / 100) = Fin (15938355 / 16777216)"
  by code_simp+

lemma narrow_bounds: "rnd32 (25 / 100) = Fin (1 / 4)" "rnd32 (75 / 100) = Fin (3 / 4)"
  by code_simp+

lemma wide_scale:
  assumes "20 \<le> k" "k < 16777216" "m \<noteq> NaN"
  shows "1 \<le> to_i32 (mul32 (f32_of k) (wide_fact m))" "to_i32 (mul32 (f32_of k) (wide_fact m)) \<le> k - 1"
proof -
  obtain c where c: "wide_fact m = Fin c" "13421773 / 268435456 \<le> c" "c \<le> 15938355 / 16777216"
    using fclamp_Fin [OF _ assms(3), of "13421773 / 268435456" "15938355 / 16777216"]
    unfolding wide_fact_def wide_bounds by auto
  have k: "(20::rat) \<le> of_int k" using assms(1) by linarith
  have "1 \<le> of_int k * c"
    using mult_mono [OF k c(2)] k by simp
  moreover have "of_int k * c \<le> of_int (k - 1)"
  proof -
    have "of_int k * c \<le> of_int k * (15938355 / 16777216)"
      using c(3) k by (intro mult_left_mono) auto
    also have "\<dots> \<le> of_int k - 1" using k by linarith
    finally show ?thesis by simp
  qed
  ultimately show "1 \<le> to_i32 (mul32 (f32_of k) (wide_fact m))" "to_i32 (mul32 (f32_of k) (wide_fact m)) \<le> k - 1"
    using scale_to_i32_bounds [of 1 k c "k - 1"] assms c(1) by auto
qed

text \<open>The usable area of a screen, written out.\<close>

lemma usable_areaE:
  assumes "area_ok a" "20 + 3 * bounded_gap a g \<le> rect_w a"  "20 + 3 * bounded_gap a g \<le> rect_h a"
  obtains x y w h b where "bounded_gap a g = b" "usable_area a b = rect_new x y w h" "area_ok (rect_new x y w h)"
    "inside a (rect_new x y w h)" "0 \<le> b" "20 + b \<le> w" "20 + b \<le> h"
    "x = rect_x a + b" "y = rect_y a + b" "w = rect_w a - 2 * b" "h = rect_h a - 2 * b" "x + w < i32_max" "y + h < i32_max"
proof -
  let ?b = "bounded_gap a g"
  have b: "0 \<le> ?b" by (rule bounded_gap_bounds)
  then have "1 \<le> rect_w a - 2 * ?b" "1 \<le> rect_h a - 2 * ?b" using assms by linarith+
  then have u: "usable_area a ?b = rect_new (rect_x a + ?b) (rect_y a + ?b) (rect_w a - 2 * ?b) (rect_h a - 2 * ?b)"
    using usable_area_exact [OF assms(1) refl, of g] by (simp add: max_def)
  show thesis
    by (rule that [OF refl u]) (use assms b in \<open>auto simp: area_ok_def inside_def\<close>)
qed

lemma tile_side_by_side:
  assumes ok: "area_ok (rect_new x y w h)" and b: "0 \<le> b" "20 + b \<le> w" and n: "int (length cs) \<le> h" "int (length ds) \<le> h"
    and m: "m \<noteq> NaN" and mw: "mw = to_i32 (mul32 (f32_of (isub w b)) (wide_fact m))"
  shows "placed_in (rect_new x y w h)
    (push_factor_column (push_factor_column [] cs x y mw h g) ds (iadd (iadd x mw) b) y (max (isub (isub w mw) b) 1) h g')"
proof -
  have wr: "isub w b = w - b" using ok b by (simp add: area_ok_def wrap32_id)
  have mb: "1 \<le> mw" "mw \<le> w - b - 1"
    using wide_scale [of "w - b" m] m ok b by (simp_all add: mw wr area_ok_def)
  have e: "iadd (iadd x mw) b = x + mw + b" "max (isub (isub w mw) b) 1 = w - mw - b"
    using mb ok b by (simp_all add: area_ok_def wrap32_id)
  have i: "inside (rect_new x y w h) (rect_new x y mw h)" "inside (rect_new x y w h) (rect_new (x + mw + b) y (w - mw - b) h)"
    using mb b by (auto simp: inside_def)
  show ?thesis
    unfolding e using mb b n i ok
    by (intro columns.places_two area_ok_inside [OF ok i(1)] area_ok_inside [OF ok i(2)])
      (auto simp: overlap_def area_ok_def)
qed

lemma tile_stacked:
  assumes ok: "area_ok (rect_new x y w h)" and b: "0 \<le> b" "20 + b \<le> h" and n: "int (length cs) \<le> w" "int (length ds) \<le> w"
    and m: "m \<noteq> NaN" and mh: "mh = to_i32 (mul32 (f32_of (isub h b)) (wide_fact m))"
  shows "placed_in (rect_new x y w h)
    (push_factor_row (push_factor_row [] cs x y w mh g) ds x (iadd (iadd y mh) b) w (max (isub (isub h mh) b) 1) g')"
proof -
  have wr: "isub h b = h - b" using ok b by (simp add: area_ok_def wrap32_id)
  have mb: "1 \<le> mh" "mh \<le> h - b - 1"
    using wide_scale [of "h - b" m] m ok b by (simp_all add: mh wr area_ok_def)
  have e: "iadd (iadd y mh) b = y + mh + b" "max (isub (isub h mh) b) 1 = h - mh - b"
    using mb ok b by (simp_all add: area_ok_def wrap32_id)
  have i: "inside (rect_new x y w h) (rect_new x y w mh)" "inside (rect_new x y w h) (rect_new x (y + mh + b) w (h - mh - b))"
    using mb b by (auto simp: inside_def)
  show ?thesis
    unfolding e using mb b n i ok
    by (intro rows.places_two area_ok_inside [OF ok i(1)] area_ok_inside [OF ok i(2)])
      (auto simp: overlap_def area_ok_def)
qed

text \<open>
  The room a layout needs for the theorems below: the gap does not eat the screen, and there is at
  least one pixel per client in both directions.
\<close>

definition roomy :: "layout_params \<Rightarrow> 'k layout_client list \<Rightarrow> bool" where
  "roomy p cs \<longleftrightarrow> area_ok (screen_area p) \<and>
     (let b = bounded_gap (screen_area p) (gap_px p)
      in 20 + 3 * b \<le> rect_w (screen_area p) \<and> 20 + 3 * b \<le> rect_h (screen_area p) \<and>
         int (length cs) \<le> rect_w (screen_area p) - 2 * b \<and> int (length cs) \<le> rect_h (screen_area p) - 2 * b)"

lemma roomyE:
  assumes "roomy p cs"
  obtains x y w h b where "bounded_gap (screen_area p) (gap_px p) = b" "usable_area (screen_area p) b = rect_new x y w h"
    "area_ok (rect_new x y w h)" "inside (screen_area p) (rect_new x y w h)" "0 \<le> b" "20 + b \<le> w" "20 + b \<le> h"
    "int (length cs) \<le> w" "int (length cs) \<le> h"
proof -
  from assms have a: "area_ok (screen_area p)" "20 + 3 * bounded_gap (screen_area p) (gap_px p) \<le> rect_w (screen_area p)"
    "20 + 3 * bounded_gap (screen_area p) (gap_px p) \<le> rect_h (screen_area p)"
    by (simp_all add: roomy_def Let_def)
  show thesis
    by (rule usable_areaE [OF a], rule that, assumption+) (use assms in \<open>simp_all add: roomy_def Let_def\<close>)
qed

lemma tile_placed_in:
  assumes "roomy p cs" "m_fact p \<noteq> NaN"
  shows "placed_in (screen_area p) (calculate_tile p cs)"
proof -
  from assms(1) obtain x y w h b where u: "bounded_gap (screen_area p) (gap_px p) = b"
    "usable_area (screen_area p) b = rect_new x y w h" "area_ok (rect_new x y w h)"
    "inside (screen_area p) (rect_new x y w h)" "0 \<le> b" "20 + b \<le> w" "20 + b \<le> h"
    "int (length cs) \<le> w" "int (length cs) \<le> h"
    by (rule roomyE)
  let ?k = "min (n_master p) (length cs)"
  have l: "int (length (take ?k cs)) \<le> v" "int (length (drop ?k cs)) \<le> v" if "int (length cs) \<le> v" for v
    using that by auto
  have one: "placed_in (rect_new x y w h) (push_factor_column (push_factor_column [] cs x y w h b) [] x' y' w' h' b')"
    for x' y' w' h' b'
    by (simp add: columns.place_Nil push_factor_column_placed u)
  note parts = tile_side_by_side [OF u(3,5,6) l [OF u(9)] assms(2) refl, of b b]
    tile_stacked [OF u(3,5,7) l [OF u(8)] assms(2) refl, of b b]
  have "placed_in (rect_new x y w h) (calculate_tile p cs)"
  proof (cases "cs = [] \<or> n_master p = 0")
    case True
    then show ?thesis
      by (elim disjE) (simp_all add: calculate_tile_def Let_def u push_factor_column_placed)
  next
    case False
    then show ?thesis
      unfolding calculate_tile_def Let_def u(1,2) rect_new_simps
      using parts one by (cases "n_master p < length cs") (simp_all add: min_absorb2)
  qed
  then show ?thesis using u(4) by (rule placed_in_mono)
qed

text \<open>
  C10. The tile layout keeps the windows inside the screen and apart, in landscape and in portrait,
  for every master count and every master factor that is a number (even an infinite one).
\<close>

theorem tile_keeps_windows_apart:
  assumes "roomy p cs" "m_fact p \<noteq> NaN"
  shows "placed_in (screen_area p) (calculate_tile p cs)"
  using assms by (rule tile_placed_in)

theorem tile_keeps_windows_apart_witness:
  "placed_in (rect_new 0 0 1080 1920)
     (calculate_tile \<lparr>screen_area = rect_new 0 0 1080 1920, n_master = 1, m_fact = Infty True, gap_px = 12\<rparr>
       [\<lparr>lc_key = 1::nat, lc_factor = Fin 1, lc_border = 2\<rparr>, \<lparr>lc_key = 2, lc_factor = NaN, lc_border = 2\<rparr>])"
proof -
  let ?p = "\<lparr>screen_area = rect_new 0 0 1080 1920, n_master = 1, m_fact = Infty True, gap_px = 12\<rparr>"
  let ?cs = "[\<lparr>lc_key = 1::nat, lc_factor = Fin 1, lc_border = 2\<rparr>, \<lparr>lc_key = 2, lc_factor = NaN, lc_border = 2\<rparr>]"
  have "roomy ?p ?cs" by code_simp
  then show ?thesis using tile_keeps_windows_apart [of ?p ?cs] by simp
qed

end
