(* ===== verification/Layout_Grid.thy ===== *)
theory Layout_Grid
  imports Layout_Tile
begin

text \<open>
  The grid of \<open>src/core/layout.rs\<close>: \<open>choose_grid_dimensions\<close> returns a grid that holds all windows
  in as few rows as its columns allow, and the cells \<open>calculate_grid\<close> computes lie inside the usable
  area and do not overlap.
\<close>

section \<open>Even splits\<close>

text \<open>\<open>k\<close> cells of equal length with gap \<open>g\<close> in an extent \<open>W\<close>; the last cell takes the rest.\<close>

lemma even_cells:
  assumes "1 \<le> (k::int)" "0 \<le> g" "k \<le> W - (k - 1) * g" and cw: "cw = (W - (k - 1) * g) div k"
  shows "1 \<le> cw" "(k - 1) * (cw + g) + cw \<le> W"
    and "0 \<le> j \<Longrightarrow> j < k \<Longrightarrow> 0 \<le> j * (cw + g) \<and> j * (cw + g) + cw \<le> W"
    and "i < j \<Longrightarrow> i * (cw + g) + cw + g \<le> j * (cw + g)"
proof -
  let ?E = "W - (k - 1) * g"
  show c: "1 \<le> cw" using zdiv_mono1 [OF assms(3), of k] assms(1) cw by simp
  have "k * cw \<le> ?E" using div_mult_bounds [of k ?E] assms(1) cw by simp
  moreover have "(k - 1) * (cw + g) + cw = k * cw + (k - 1) * g" by (simp add: algebra_simps)
  ultimately show t: "(k - 1) * (cw + g) + cw \<le> W" by simp
  have mono: "i * (cw + g) \<le> j * (cw + g)" if "i \<le> j" for i j
    using that c assms(2) by (intro mult_right_mono) auto
  show "0 \<le> j * (cw + g) \<and> j * (cw + g) + cw \<le> W" if "0 \<le> j" "j < k"
    using mono [of 0 j] mono [of j "k - 1"] that t by simp
  show "i * (cw + g) + cw + g \<le> j * (cw + g)" if "i < j"
    using mono [of "i + 1" j] that by (simp add: algebra_simps)
qed

lemma even_cells_fit:
  assumes "1 \<le> k" "int k \<le> W" "W < 16777216" "g = fitting_inner_gap W k b"
  shows "0 \<le> g" "int k \<le> W - (int k - 1) * g" "0 \<le> (int k - 1) * g"
  using fitting_inner_gap_bounds [of W k b] assms by (auto simp: mult_nonneg_nonneg)

section \<open>Grid dimensions\<close>

text \<open>A grid of \<open>cols\<close> columns that holds \<open>n\<close> cells in as few rows as possible.\<close>

definition grid_ok :: "int \<Rightarrow> int \<times> int \<Rightarrow> bool" where
  "grid_ok n d \<longleftrightarrow> (case d of (cols, rows) \<Rightarrow> 1 \<le> cols \<and> cols \<le> n \<and> 1 \<le> rows \<and>
     (rows - 1) * cols < n \<and> n \<le> rows * cols)"

lemma ceil_div_grid: "1 \<le> n \<Longrightarrow> 1 \<le> cols \<Longrightarrow> cols \<le> n \<Longrightarrow> grid_ok n (cols, (n + cols - 1) div cols)"
proof -
  assume a: "1 \<le> n" "1 \<le> cols" "cols \<le> n"
  let ?r = "(n + cols - 1) div cols"
  have "cols * ?r \<le> n + cols - 1 \<and> n + cols - 1 < cols * ?r + cols"
    using div_mult_bounds [of cols "n + cols - 1"] a by simp
  moreover have "1 \<le> ?r"
    using zdiv_mono1 [of cols "n + cols - 1" cols] a by simp
  ultimately show ?thesis using a by (auto simp: grid_ok_def algebra_simps)
qed

lemma grid_search_ok:
  assumes "1 \<le> n" "n < 1073741824" "grid_ok n best" "set cs \<subseteq> {1..n}"
  shows "grid_ok n (grid_search n area target cs best score)"
  using assms(3,4)
proof (induction cs arbitrary: best score)
  case (Cons c cs)
  have c: "1 \<le> c" "c \<le> n" using Cons.prems(2) by auto
  have "isub (iadd n c) 1 = n + c - 1" using c assms by (simp add: wrap32_id)
  then have "isub (iadd n c) 1 sdiv c = (n + c - 1) div c" using c assms by (simp add: sdiv_nonneg)
  then show ?case using Cons ceil_div_grid [of n c] assms by (simp add: Let_def)
qed simp

lemma choose_grid_dimensions_ok:
  "1 \<le> n \<Longrightarrow> int n < 1073741824 \<Longrightarrow> grid_ok (int n) (choose_grid_dimensions n area)"
proof (cases "n \<le> 1")
  case True
  moreover assume "1 \<le> n"
  ultimately have "n = 1" by simp
  then show ?thesis by (simp add: choose_grid_dimensions_def grid_ok_def)
next
  case False
  moreover assume "int n < 1073741824"
  ultimately have "wrap32 (int n) = int n" "1 \<le> int n" "grid_ok (int n) (int n, 1)" "int n < 1073741824"
    by (simp_all add: wrap32_id grid_ok_def)
  with False show ?thesis unfolding choose_grid_dimensions_def Let_def by (simp add: grid_search_ok)
qed

section \<open>The cells of the grid\<close>

text \<open>The cell of index \<open>i\<close>, over unbounded integers.\<close>

definition row_columns :: "int \<Rightarrow> int \<Rightarrow> int \<Rightarrow> int \<Rightarrow> int" where
  "row_columns n cols rows r = (if r = rows - 1 then n - r * cols else cols)"

definition even_width :: "int \<Rightarrow> int \<Rightarrow> int \<Rightarrow> int" where
  "even_width W k b = (W - (k - 1) * fitting_inner_gap W (nat k) b) div k"

definition even_offset :: "int \<Rightarrow> int \<Rightarrow> int \<Rightarrow> int \<Rightarrow> int" where
  "even_offset W k b j = j * (even_width W k b + fitting_inner_gap W (nat k) b)"

definition even_length :: "int \<Rightarrow> int \<Rightarrow> int \<Rightarrow> int \<Rightarrow> int" where
  "even_length W k b j = (if j = k - 1 then W - even_offset W k b j else even_width W k b)"

lemma even_split:
  assumes "1 \<le> k" "k \<le> W" "W < 16777216" "0 \<le> j" "j < k"
  shows "0 \<le> even_offset W k b j" "1 \<le> even_length W k b j" "even_offset W k b j + even_length W k b j \<le> W"
    "i < j \<Longrightarrow> even_offset W k b i + even_length W k b i \<le> even_offset W k b j"
    "0 \<le> (k - 1) * fitting_inner_gap W (nat k) b" "(k - 1) * fitting_inner_gap W (nat k) b < W"
    "0 \<le> even_width W k b + fitting_inner_gap W (nat k) b"
    "even_width W k b + fitting_inner_gap W (nat k) b \<le> 2 * W"
proof -
  let ?g = "fitting_inner_gap W (nat k) b"
  have f: "0 \<le> ?g" "k \<le> W - (k - 1) * ?g" "0 \<le> (k - 1) * ?g"
    using even_cells_fit [of "nat k" W ?g b] assms by auto
  note e = even_cells [OF assms(1) f(1,2) refl, folded even_width_def]
  have gw: "?g \<le> W"
  proof (cases "k = 1")
    case True
    with assms show ?thesis by (simp add: fitting_inner_gap_def)
  next
    case False
    then have "1 * ?g \<le> (k - 1) * ?g" using assms(1) f(1) by (intro mult_right_mono) auto
    with f assms show ?thesis by linarith
  qed
  show "0 \<le> even_offset W k b j" "1 \<le> even_length W k b j" "even_offset W k b j + even_length W k b j \<le> W"
    using e(1) e(3) [OF assms(4,5)] by (auto simp: even_offset_def even_length_def)
  show "even_offset W k b i + even_length W k b i \<le> even_offset W k b j" if "i < j"
    using e(4) [OF that] f(1) that assms(5) by (auto simp: even_offset_def even_length_def)
  show "0 \<le> (k - 1) * ?g" "(k - 1) * ?g < W" using f assms by auto
  show "0 \<le> even_width W k b + ?g" using e(1) f(1) by simp
  show "even_width W k b + ?g \<le> 2 * W" using e(3) [of 0] assms gw by simp
qed

lemma grid_row_columns:
  assumes "grid_ok n (cols, rows)" "0 \<le> i" "i < n"
  shows "0 \<le> i div cols" "i div cols < rows" "0 \<le> i mod cols"
    "i mod cols < row_columns n cols rows (i div cols)"
    "row_columns n cols rows (i div cols) \<le> cols" "1 \<le> cols" "cols \<le> n" "1 \<le> rows" "rows \<le> n"
    "(i div cols) * cols + i mod cols = i" "1 \<le> row_columns n cols rows (i div cols)"
proof -
  have g: "1 \<le> cols" "cols \<le> n" "1 \<le> rows" "(rows - 1) * cols < n" "n \<le> rows * cols"
    using assms(1) by (auto simp: grid_ok_def)
  show r: "0 \<le> i div cols" "0 \<le> i mod cols" "(i div cols) * cols + i mod cols = i" "1 \<le> cols" "cols \<le> n" "1 \<le> rows"
    using g assms(2) by (simp_all add: pos_imp_zdiv_nonneg_iff)
  show d: "i div cols < rows"
  proof -
    have "(i div cols) * cols \<le> i" using r(2,3) by linarith
    with g(5) assms(3) have "(i div cols) * cols < rows * cols" by linarith
    with g(1) show ?thesis by (simp add: mult_less_cancel_right)
  qed
  have m: "i mod cols < cols" using g(1) by simp
  show "i mod cols < row_columns n cols rows (i div cols)" "row_columns n cols rows (i div cols) \<le> cols"
    using r(3) m g(5) assms(3) by (auto simp: row_columns_def algebra_simps)
  with r(2) show "1 \<le> row_columns n cols rows (i div cols)" by linarith
  have "(rows - 1) * 1 \<le> (rows - 1) * cols" using g by (intro mult_left_mono) auto
  with g(4) show "rows \<le> n" by simp
qed

definition grid_cell :: "int \<Rightarrow> int \<Rightarrow> int \<Rightarrow> rect \<Rightarrow> int \<Rightarrow> int \<Rightarrow> rect" where
  "grid_cell n cols rows a b i =
     (let k = row_columns n cols rows (i div cols); j = i mod cols; r = i div cols
      in rect_new (rect_x a + even_offset (rect_w a) k b j) (rect_y a + even_offset (rect_h a) rows b r)
           (even_length (rect_w a) k b j) (even_length (rect_h a) rows b r))"

lemma grid_cell_fits:
  assumes "area_ok a" "grid_ok n (cols, rows)" "n \<le> rect_w a" "n \<le> rect_h a" "0 \<le> i" "i < n"
  shows "inside a (grid_cell n cols rows a b i)" "1 \<le> rect_w (grid_cell n cols rows a b i)"
    "1 \<le> rect_h (grid_cell n cols rows a b i)"
proof -
  let ?k = "row_columns n cols rows (i div cols)"
  note r = grid_row_columns [OF assms(2,5,6)]
  note ex = even_split [of ?k "rect_w a" "i mod cols" b] and ey = even_split [of rows "rect_h a" "i div cols" b]
  have "1 \<le> ?k" "?k \<le> rect_w a" "rows \<le> rect_h a" "rect_w a < 16777216" "rect_h a < 16777216"
    using r assms by (auto simp: area_ok_def)
  with r ex ey show "inside a (grid_cell n cols rows a b i)" "1 \<le> rect_w (grid_cell n cols rows a b i)"
    "1 \<le> rect_h (grid_cell n cols rows a b i)"
    by (auto simp: grid_cell_def inside_def Let_def)
qed

lemma grid_cells_apart:
  assumes "area_ok a" "grid_ok n (cols, rows)" "n \<le> rect_w a" "n \<le> rect_h a" "0 \<le> i" "i < j" "j < n"
  shows "\<not> overlap (grid_cell n cols rows a b i) (grid_cell n cols rows a b j)"
proof -
  let ?k = "row_columns n cols rows (j div cols)"
  have ji: "0 \<le> j" "i < n" using assms by auto
  note r = grid_row_columns [OF assms(2) ji(1) assms(7)] and q = grid_row_columns [OF assms(2,5) ji(2)]
  note ex = even_split(4) [of ?k "rect_w a" "j mod cols" "i mod cols" b]
    and ey = even_split(4) [of rows "rect_h a" "j div cols" "i div cols" b]
  have k: "1 \<le> ?k" "?k \<le> rect_w a" "rows \<le> rect_h a" "rect_w a < 16777216" "rect_h a < 16777216"
    using r assms by (auto simp: area_ok_def)
  have "i div cols \<le> j div cols" using assms(6) r(6) by (intro zdiv_mono1) auto
  moreover have "i mod cols < j mod cols" if "i div cols = j div cols"
    using r(10) q(10) assms(6) unfolding that by linarith
  ultimately consider "i div cols < j div cols" | "i div cols = j div cols" "i mod cols < j mod cols"
    by fastforce
  then show ?thesis
  proof cases
    case 1
    with ey k r show ?thesis by (auto simp: grid_cell_def overlap_def Let_def)
  next
    case 2
    with ex k r show ?thesis by (auto simp: grid_cell_def overlap_def Let_def)
  qed
qed

lemma grid_expression:
  assumes "area_ok a" "grid_ok n (cols, rows)" "n \<le> rect_w a" "n \<le> rect_h a" "0 \<le> i" "i < n"
  shows "(let i32 = wrap32 i; row = i32 sdiv cols; col = isub i32 (imul row cols);
      row_cols = (if row = isub rows 1 then isub (wrap32 n) (imul row cols) else cols);
      row_gap = fitting_inner_gap (rect_h a) (nat rows) b;
      cell_h = isub (rect_h a) (imul (isub rows 1) row_gap) sdiv rows;
      column_gap = fitting_inner_gap (rect_w a) (nat row_cols) b;
      cell_w = isub (rect_w a) (imul (isub row_cols 1) column_gap) sdiv row_cols;
      x_off = imul col (iadd cell_w column_gap);
      y_off = imul row (iadd cell_h row_gap);
      w = (if col = isub row_cols 1 then isub (rect_w a) x_off else cell_w);
      h = (if row = isub rows 1 then isub (rect_h a) y_off else cell_h)
    in client_rect (iadd (rect_x a) x_off) (iadd (rect_y a) y_off) w h border) =
   (let c = grid_cell n cols rows a b i in client_rect (rect_x c) (rect_y c) (rect_w c) (rect_h c) border)"
proof -
  let ?k = "row_columns n cols rows (i div cols)"
  note r = grid_row_columns [OF assms(2,5,6)]
  have k: "1 \<le> ?k" "?k \<le> rect_w a" "rows \<le> rect_h a" "rect_w a < 16777216" "rect_h a < 16777216"
    "\<bar>rect_x a\<bar> \<le> 1073741824" "\<bar>rect_y a\<bar> \<le> 1073741824"
    using r assms by (auto simp: area_ok_def)
  note ex = even_split [OF k(1,2,4) r(3,4), of b] and ey = even_split [OF r(8) k(3,5) r(1,2), of b]
  have n: "n < 16777216" "i div cols * cols \<le> i" "0 \<le> i div cols * cols" using assms k r by (simp, linarith, simp)
  have s1c: "imul (i div cols) cols = i div cols * cols"
    by (rule wrap32_id) (use n assms in linarith)+
  have s1: "wrap32 i = i" "i sdiv cols = i div cols" "wrap32 n = n"
    "isub rows 1 = rows - 1"
    using n r assms k by (simp_all add: wrap32_id sdiv_nonneg)
  have s2: "isub i (i div cols * cols) = i mod cols" "isub n (i div cols * cols) = n - i div cols * cols"
  proof -
    have "i - i div cols * cols = i mod cols" using r(10) by linarith
    moreover have "isub i (i div cols * cols) = i - i div cols * cols"
      by (rule wrap32_id) (use n assms in linarith)+
    ultimately show "isub i (i div cols * cols) = i mod cols" by simp
    show "isub n (i div cols * cols) = n - i div cols * cols"
      by (rule wrap32_id) (use n assms in linarith)+
  qed
  have s3: "(if i div cols = rows - 1 then n - i div cols * cols else cols) = ?k" by (simp add: row_columns_def)
  have dd: "isub V (imul (isub m 1) (fitting_inner_gap V (nat m) b)) sdiv m = even_width V m b"
    if "1 \<le> m" "m \<le> V" "V < 16777216" for V m
    using that even_split(5,6) [of m V 0 b] by (simp add: wrap32_id sdiv_nonneg even_width_def)
  have ss: "imul j (iadd (even_width V m b) (fitting_inner_gap V (nat m) b)) = even_offset V m b j"
    if "1 \<le> m" "m \<le> V" "V < 16777216" "0 \<le> j" "j < m" for V m j
  proof -
    note s = even_split [OF that, of b]
    have "iadd (even_width V m b) (fitting_inner_gap V (nat m) b) = even_width V m b + fitting_inner_gap V (nat m) b"
      by (rule wrap32_id) (use s that in linarith)+
    moreover have "wrap32 (even_offset V m b j) = even_offset V m b j"
      by (rule wrap32_id) (use s that in linarith)+
    ultimately show ?thesis by (simp add: even_offset_def)
  qed
  have ll: "(if j = isub m 1 then isub V (even_offset V m b j) else even_width V m b) = even_length V m b j"
    if "1 \<le> m" "m \<le> V" "V < 16777216" "0 \<le> j" "j < m" for V m j
  proof -
    note s = even_split [OF that, of b]
    have "isub m 1 = m - 1" "isub V (even_offset V m b j) = V - even_offset V m b j"
      by (rule wrap32_id; use s that in linarith)+
    then show ?thesis by (simp only: even_length_def)
  qed
  have xy: "iadd (rect_x a) (even_offset (rect_w a) ?k b (i mod cols)) = rect_x a + even_offset (rect_w a) ?k b (i mod cols)"
    "iadd (rect_y a) (even_offset (rect_h a) rows b (i div cols)) = rect_y a + even_offset (rect_h a) rows b (i div cols)"
    by (rule wrap32_id; use ex(1-3) ey(1-3) k in linarith)+
  have kk: "isub ?k 1 = ?k - 1" using k by (simp add: wrap32_id)
  show ?thesis
    unfolding Let_def s1 s1c s2 s3 dd [OF k(1,2,4)] dd [OF r(8) k(3,5), unfolded s1(4)]
      ss [OF k(1,2,4) r(3,4)] ss [OF r(8) k(3,5) r(1,2)] xy ll [OF k(1,2,4) r(3,4)]
      ll [OF r(8) k(3,5) r(1,2), unfolded s1(4)] grid_cell_def rect_new_simps ..
qed

lemma calculate_grid_cells:
  assumes "area_ok a" "usable_area (screen_area p) b = a" "bounded_gap (screen_area p) (gap_px p) = b"
    "choose_grid_dimensions (length cs) a = (cols, rows)"
    "int (length cs) \<le> rect_w a" "int (length cs) \<le> rect_h a"
  shows "calculate_grid p cs = map (\<lambda>(i, c).
      let r = grid_cell (int (length cs)) cols rows a b (int i)
      in result_new (lc_key c) (client_rect (rect_x r) (rect_y r) (rect_w r) (rect_h r) (lc_border c))) (enumerate 0 cs)"
proof (cases "cs = []")
  case False
  then have "1 \<le> length cs" by (simp add: Suc_le_eq)
  moreover have "int (length cs) < 1073741824" using assms(1,5) by (auto simp: area_ok_def)
  ultimately have g: "grid_ok (int (length cs)) (cols, rows)"
    using choose_grid_dimensions_ok [of "length cs" a] assms(4) by simp
  have n: "(length cs = 0) = False" using False by simp
  show ?thesis
    unfolding calculate_grid_def assms(2-4) Let_def prod.case n if_False
    by (rule map_cong [OF refl], clarify, rule arg_cong [where f = "result_new _"],
        rule grid_expression [OF assms(1) g assms(5,6), unfolded Let_def])
      (auto simp: in_set_enumerate_eq)
qed (simp add: calculate_grid_def)

lemma client_rect_in_cell:
  assumes "inside a c" "1 \<le> rect_w c" "1 \<le> rect_h c" "area_ok a"
  shows "inside c (client_rect (rect_x c) (rect_y c) (rect_w c) (rect_h c) border)"
proof -
  have "area_ok c" using area_ok_inside assms by blast
  then have "inside (rect_new (rect_x c) (rect_y c) (rect_w c) (rect_h c))
      (client_rect (rect_x c) (rect_y c) (rect_w c) (rect_h c) border)"
    by (intro client_rect_inside) (auto simp: area_ok_def)
  then show ?thesis by (simp add: inside_def)
qed

lemma placed_in_cells:
  assumes ok: "area_ok a"
    and cell: "\<And>i. i < length cs \<Longrightarrow> inside a (cell i) \<and> 1 \<le> rect_w (cell i) \<and> 1 \<le> rect_h (cell i)"
    and apart: "\<And>i j. i < j \<Longrightarrow> j < length cs \<Longrightarrow> \<not> overlap (cell i) (cell j)"
  shows "placed_in a (map (\<lambda>(i, c). let r = cell i
      in result_new (lc_key c) (client_rect (rect_x r) (rect_y r) (rect_w r) (rect_h r) (lc_border c))) (enumerate 0 cs))"
    (is "placed_in a ?rs")
proof -
  have cr: "inside (cell i) (client_rect (rect_x (cell i)) (rect_y (cell i)) (rect_w (cell i)) (rect_h (cell i)) b)"
    if "i < length cs" for i b
    using client_rect_in_cell [of a "cell i" b] cell [OF that] ok by simp
  have nth: "map res_rect ?rs ! i = client_rect (rect_x (cell i)) (rect_y (cell i)) (rect_w (cell i)) (rect_h (cell i)) (lc_border (cs ! i))"
    if "i < length cs" for i
    using that by (simp add: nth_enumerate_eq Let_def)
  have "\<not> overlap (map res_rect ?rs ! i) (map res_rect ?rs ! j)" if "i < j" "j < length cs" for i j
  proof -
    have i: "i < length cs" using that by simp
    show ?thesis using apart [OF that] inside_overlap_mono [OF cr [OF i] cr [OF that(2)]]
      unfolding nth [OF i] nth [OF that(2)] by blast
  qed
  then have "disjoint_rects (map res_rect ?rs)"
    unfolding disjoint_rects_nth by simp
  moreover have "inside a (res_rect r) \<and> 1 \<le> rect_w (res_rect r) \<and> 1 \<le> rect_h (res_rect r)" if r: "r \<in> set ?rs" for r
  proof -
    from r obtain i where i: "i < length cs" "r = ?rs ! i" by (auto simp: in_set_conv_nth)
    then have "inside a (res_rect r)" using inside_trans [OF _ cr [OF i(1)]] cell [OF i(1)] nth [OF i(1)] by simp
    with i show ?thesis by (simp add: nth_enumerate_eq Let_def client_rect_pos)
  qed
  ultimately show ?thesis by (simp add: placed_in_def)
qed

lemma calculate_grid_placed:
  assumes "area_ok a" "usable_area (screen_area p) b = a" "bounded_gap (screen_area p) (gap_px p) = b"
    "int (length cs) \<le> rect_w a" "int (length cs) \<le> rect_h a"
  shows "placed_in a (calculate_grid p cs)"
proof (cases "cs = []")
  case False
  obtain cols rows where cr: "choose_grid_dimensions (length cs) a = (cols, rows)" by fastforce
  have "1 \<le> length cs" using False by (simp add: Suc_le_eq)
  moreover have "int (length cs) < 1073741824" using assms(1,4) by (auto simp: area_ok_def)
  ultimately have g: "grid_ok (int (length cs)) (cols, rows)"
    using choose_grid_dimensions_ok [of "length cs" a] cr by simp
  show ?thesis
    unfolding calculate_grid_cells [OF assms(1-3) cr assms(4,5)]
    using grid_cell_fits [OF assms(1) g assms(4,5)] grid_cells_apart [OF assms(1) g assms(4,5)]
    by (intro placed_in_cells [OF assms(1)]) auto
qed (simp add: calculate_grid_def)

lemma grid_placed_in:
  assumes "roomy p cs"
  shows "placed_in (screen_area p) (calculate_grid p cs)"
proof -
  from assms obtain x y w h b where u: "bounded_gap (screen_area p) (gap_px p) = b"
    "usable_area (screen_area p) b = rect_new x y w h" "area_ok (rect_new x y w h)"
    "inside (screen_area p) (rect_new x y w h)" "int (length cs) \<le> w" "int (length cs) \<le> h"
    by (rule roomyE)
  show ?thesis
    by (rule placed_in_mono [OF calculate_grid_placed [OF u(3,2,1)] u(4)]) (simp_all add: u)
qed

text \<open>
  C11. The grid keeps the windows inside the screen and apart, whatever their number, as long as the
  usable area has one pixel per client in both directions.
\<close>

theorem grid_keeps_windows_apart:
  assumes "roomy p cs"
  shows "placed_in (screen_area p) (calculate_grid p cs)"
  using assms by (rule grid_placed_in)

theorem grid_keeps_windows_apart_witness:
  "placed_in (rect_new 1920 0 1280 1024)
     (calculate_grid \<lparr>screen_area = rect_new 1920 0 1280 1024, n_master = 1, m_fact = Fin (1 / 2), gap_px = 10\<rparr>
       [\<lparr>lc_key = 1::nat, lc_factor = Fin 1, lc_border = 2\<rparr>, \<lparr>lc_key = 2, lc_factor = Fin 1, lc_border = 2\<rparr>,
        \<lparr>lc_key = 3, lc_factor = Fin 1, lc_border = 2\<rparr>])"
proof -
  let ?p = "\<lparr>screen_area = rect_new 1920 0 1280 1024, n_master = 1, m_fact = Fin (1 / 2), gap_px = 10\<rparr>"
  let ?cs = "[\<lparr>lc_key = 1::nat, lc_factor = Fin 1, lc_border = 2\<rparr>, \<lparr>lc_key = 2, lc_factor = Fin 1, lc_border = 2\<rparr>,
        \<lparr>lc_key = 3, lc_factor = Fin 1, lc_border = 2\<rparr>]"
  have "roomy ?p ?cs" by code_simp
  then show ?thesis using grid_keeps_windows_apart [of ?p ?cs] by simp
qed

end
