(* ===== verification/Constraints.thy ===== *)
theory Constraints
  imports Client_Stack
begin

text \<open>
  Size hints and boundary constraints: \<open>src/jwm/geometry.rs\<close> and \<open>src/jwm/constraints.rs\<close>. A requested
  rectangle is bounded to the screen or to the monitor's work area, shaped by the client's hints
  (aspect ratio, increments, minimum, maximum), and bounded again when the hints changed its size.
  The theorems show that the result can be configured, respects the hints, and keeps at least one
  pixel of the window inside the area it was bounded to.
\<close>

section \<open>Geometry\<close>

definition MIN_CONSTRAINED_DIMENSION :: int where "MIN_CONSTRAINED_DIMENSION = 1"
definition MAX_CONSTRAINED_DIMENSION :: int where "MAX_CONSTRAINED_DIMENSION = 65535"

definition clamp_dimension :: "int \<Rightarrow> int" where
  "clamp_dimension v = clamp v MIN_CONSTRAINED_DIMENSION MAX_CONSTRAINED_DIMENSION"

definition aligned_offset :: "int \<Rightarrow> int \<Rightarrow> int" where
  "aligned_offset offset increment = (if increment > 0 then offset sdiv increment * increment else offset)"

definition increment_aligned_dimension :: "int \<Rightarrow> int \<Rightarrow> int \<Rightarrow> int" where
  "increment_aligned_dimension sz base increment = clamp_dimension (aligned_offset (sz - base) increment + base)"

definition constrain_axis :: "int \<Rightarrow> int \<Rightarrow> int \<Rightarrow> int \<Rightarrow> int" where
  "constrain_axis pos origin extent full =
     (let lower = origin - max full 1 + 1;
          upper = origin + extent - 1;
          constrained = (if lower \<le> upper then clamp pos lower upper else lower)
      in clamp constrained i32_min i32_max)"

definition constrain_to_screen_wide :: "int \<Rightarrow> int \<Rightarrow> int \<Rightarrow> int \<Rightarrow> int \<times> int \<Rightarrow> int \<times> int" where
  "constrain_to_screen_wide total_w total_h screen_w screen_h p =
     (constrain_axis (fst p) 0 screen_w total_w, constrain_axis (snd p) 0 screen_h total_h)"

definition constrain_to_monitor_wide :: "int \<Rightarrow> int \<Rightarrow> monitor_geometry \<Rightarrow> int \<times> int \<Rightarrow> int \<times> int" where
  "constrain_to_monitor_wide total_w total_h g p =
     (constrain_axis (fst p) (w_x g) (w_w g) total_w, constrain_axis (snd p) (w_y g) (w_h g) total_h)"

definition apply_increments :: "int \<Rightarrow> int \<Rightarrow> int" where
  "apply_increments sz increment = wrap32 (aligned_offset sz increment)"

definition apply_aspect_ratio_constraints :: "int \<Rightarrow> int \<Rightarrow> size_hints \<Rightarrow> int \<times> int" where
  "apply_aspect_ratio_constraints w h hints =
     (if flt_less (Fin 0) (min_aspect hints) \<and> flt_less (Fin 0) (max_aspect hints) \<and> w > 0 \<and> h > 0
      then let ratio = div32 (f32_of w) (f32_of h)
           in if flt_less ratio (min_aspect hints)
              then (w, to_i32 (add32 (div32 (f32_of w) (min_aspect hints)) (Fin (1 / 2))))
              else if flt_less (max_aspect hints) ratio
              then (to_i32 (add32 (mul32 (f32_of h) (max_aspect hints)) (Fin (1 / 2))), h)
              else (w, h)
      else (w, h))"

definition calculate_constrained_size :: "int \<Rightarrow> int \<Rightarrow> size_hints \<Rightarrow> int \<times> int" where
  "calculate_constrained_size w0 h0 hints =
     (let (w1, h1) = apply_aspect_ratio_constraints w0 h0 hints;
          w2 = increment_aligned_dimension w1 (base_w hints) (inc_w hints);
          h2 = increment_aligned_dimension h1 (base_h hints) (inc_h hints);
          w3 = max w2 (clamp_dimension (min_w hints));
          h3 = max h2 (clamp_dimension (min_h hints));
          w4 = (if max_w hints > 0 then min w3 (clamp_dimension (max_w hints)) else w3);
          h4 = (if max_h hints > 0 then min h3 (clamp_dimension (max_h hints)) else h3)
      in (w4, h4))"

definition clamp_rect_to_boundary :: "int \<Rightarrow> int \<Rightarrow> rect \<Rightarrow> int \<times> int \<Rightarrow> int \<times> int" where
  "clamp_rect_to_boundary width height b p =
     (let max_x = rect_x b + rect_w b - width;
          max_y = rect_y b + rect_h b - height
      in (if rect_x b \<le> max_x then clamp (fst p) (rect_x b) max_x else rect_x b,
          if rect_y b \<le> max_y then clamp (snd p) (rect_y b) max_y else rect_y b))"

definition covers_full_monitor :: "rect \<Rightarrow> rect \<Rightarrow> bool" where
  "covers_full_monitor win mon \<longleftrightarrow> rect_x win \<le> rect_x mon \<and> rect_y win \<le> rect_y mon \<and>
     rect_x win + rect_w win \<ge> rect_x mon + rect_w mon \<and> rect_y win + rect_h win \<ge> rect_y mon + rect_h mon"

definition rect_intersection :: "rect \<Rightarrow> rect \<Rightarrow> rect option" where
  "rect_intersection a b =
     (let left = max (rect_x a) (rect_x b);
          top' = max (rect_y a) (rect_y b);
          right = min (rect_x a + rect_w a) (rect_x b + rect_w b);
          bottom = min (rect_y a + rect_h a) (rect_y b + rect_h b);
          w = right - left;
          h = bottom - top'
      in if w > 0 \<and> h > 0 then Some (rect_new left top' w h) else None)"

section \<open>Constraining a client\<close>

datatype constraint_error = Client_Not_Found | Fetch_Failed

record normal_hints =
  nh_base_w :: int
  nh_base_h :: int
  nh_inc_w :: int
  nh_inc_h :: int
  nh_max_w :: int
  nh_max_h :: int
  nh_min_w :: int
  nh_min_h :: int
  nh_min_aspect :: flt
  nh_max_aspect :: flt

text \<open>
  \<open>fetch_normal_hints\<close> of the backend is a parameter: \<open>None\<close> is its failure, \<open>Some None\<close> a window without
  hints. A refreshed client is returned; a failed fetch leaves it alone.
\<close>

definition refresh_client_size_hints :: "(window_id \<Rightarrow> normal_hints option option) \<Rightarrow> wm_client \<Rightarrow> (constraint_error + unit) \<times> wm_client" where
  "refresh_client_size_hints fetch c =
     (if hints_valid (c_size_hints c) then (Inr (), c)
      else case fetch (c_win c) of
             None \<Rightarrow> (Inl Fetch_Failed, c)
           | Some (Some n) \<Rightarrow>
               (Inr (), c\<lparr>c_size_hints := \<lparr>base_w = nh_base_w n, base_h = nh_base_h n, inc_w = nh_inc_w n, inc_h = nh_inc_h n,
                            max_w = nh_max_w n, max_h = nh_max_h n, min_w = nh_min_w n, min_h = nh_min_h n,
                            min_aspect = nh_min_aspect n, max_aspect = nh_max_aspect n, hints_valid = True\<rparr>,
                          c_state := (c_state c)\<lparr>is_fixed := nh_max_w n > 0 \<and> nh_max_h n > 0 \<and> nh_max_w n = nh_min_w n \<and> nh_max_h n = nh_min_h n\<rparr>\<rparr>)
           | Some None \<Rightarrow>
               (Inr (), c\<lparr>c_size_hints := size_hints_default\<lparr>hints_valid := True\<rparr>, c_state := (c_state c)\<lparr>is_fixed := False\<rparr>\<rparr>))"

text \<open>The monitors whose bar was sent a broadcast are appended to a log.\<close>

type_synonym bars = "monitor_key list"

definition updatesizehints :: "(window_id \<Rightarrow> normal_hints option option) \<Rightarrow> client_key \<Rightarrow> wm_state \<times> bars \<Rightarrow> (constraint_error + unit) \<times> wm_state \<times> bars" where
  "updatesizehints fetch k sb =
     (case slot_get (st_clients (fst sb)) k of
        None \<Rightarrow> (Inl Client_Not_Found, sb)
      | Some c \<Rightarrow>
          (case refresh_client_size_hints fetch c of
             (Inl e, _) \<Rightarrow> (Inl e, sb)
           | (Inr _, c') \<Rightarrow>
               let s' = (fst sb)\<lparr>st_clients := slot_update k (\<lambda>_. c') (st_clients (fst sb))\<rparr>
               in (Inr (), s', if is_fixed (c_state c) \<noteq> is_fixed (c_state c')
                               then (case c_mon c of None \<Rightarrow> snd sb | Some m \<Rightarrow> snd sb @ [m]) else snd sb)))"

definition ensure_size_hints_valid :: "(window_id \<Rightarrow> normal_hints option option) \<Rightarrow> client_key \<Rightarrow> wm_state \<times> bars \<Rightarrow> (constraint_error + unit) \<times> wm_state \<times> bars" where
  "ensure_size_hints_valid fetch k sb =
     (if (case slot_get (st_clients (fst sb)) k of None \<Rightarrow> False | Some c \<Rightarrow> hints_valid (c_size_hints c))
      then (Inr (), sb) else updatesizehints fetch k sb)"

definition apply_size_hints_constraints :: "(window_id \<Rightarrow> normal_hints option option) \<Rightarrow> bool \<Rightarrow> client_key \<Rightarrow> int \<times> int \<Rightarrow> wm_state \<times> bars \<Rightarrow>
    (constraint_error + bool \<times> int \<times> int) \<times> wm_state \<times> bars" where
  "apply_size_hints_constraints fetch resize_hints k wh sb =
     (if \<not> resize_hints \<and> \<not> is_client_floating (fst sb) k then (Inr (False, wh), sb)
      else case ensure_size_hints_valid fetch k sb of
             (Inl e, sb') \<Rightarrow> (Inl e, sb')
           | (Inr _, sb') \<Rightarrow>
               (case slot_get (st_clients (fst sb')) k of
                  None \<Rightarrow> (Inl Client_Not_Found, sb')
                | Some c \<Rightarrow> let new = calculate_constrained_size (fst wh) (snd wh) (c_size_hints c) in (Inr (wh \<noteq> new, new), sb')))"

text \<open>\<open>screen\<close> is \<open>(s_w, s_h)\<close>.\<close>

definition apply_boundary_constraints :: "int \<times> int \<Rightarrow> wm_state \<Rightarrow> client_key \<Rightarrow> bool \<Rightarrow> int \<times> int \<Rightarrow> int \<times> int \<Rightarrow> constraint_error + int \<times> int" where
  "apply_boundary_constraints screen s k interact wh p =
     (case slot_get (st_clients s) k of
        None \<Rightarrow> Inl Client_Not_Found
      | Some c \<Rightarrow>
          let total_w = fst wh + 2 * g_border_w (c_geometry c);
              total_h = snd wh + 2 * g_border_w (c_geometry c)
          in Inr (if interact then constrain_to_screen_wide total_w total_h (fst screen) (snd screen) p
                  else case c_mon c of
                         None \<Rightarrow> p
                       | Some m \<Rightarrow> (case slot_get (st_monitors s) m of
                                      None \<Rightarrow> p
                                    | Some mon \<Rightarrow> constrain_to_monitor_wide total_w total_h (mon_geometry mon) p)))"

definition applysizehints :: "(window_id \<Rightarrow> normal_hints option option) \<Rightarrow> int \<times> int \<Rightarrow> bool \<Rightarrow> client_key \<Rightarrow> rect \<Rightarrow> bool \<Rightarrow> wm_state \<times> bars \<Rightarrow>
    (constraint_error + bool \<times> rect) \<times> wm_state \<times> bars" where
  "applysizehints fetch screen resize_hints k r interact sb =
     (let wh = (max (rect_w r) 1, max (rect_h r) 1)
      in case slot_get (st_clients (fst sb)) k of
           None \<Rightarrow> (Inl Client_Not_Found, sb)
         | Some c \<Rightarrow>
             (case apply_boundary_constraints screen (fst sb) k interact wh (rect_x r, rect_y r) of
                Inl e \<Rightarrow> (Inl e, sb)
              | Inr p \<Rightarrow>
                  (case apply_size_hints_constraints fetch resize_hints k wh sb of
                     (Inl e, sb') \<Rightarrow> (Inl e, sb')
                   | (Inr (changed, wh'), sb') \<Rightarrow>
                       (case (if changed then apply_boundary_constraints screen (fst sb') k interact wh' p else Inr p) of
                          Inl e \<Rightarrow> (Inl e, sb')
                        | Inr p' \<Rightarrow>
                            (Inr (changed \<or> (fst p', snd p', fst wh', snd wh') \<noteq> wm_client_rect c,
                                  rect_new (fst p') (snd p') (fst wh') (snd wh')), sb')))))"

section \<open>Rounding of half pixels\<close>

lemma round_abs_grid:
  assumes "0 < r" "ulp_exp p q r \<le> e" "r = of_int n * 2 powi e"
  shows "round_abs p q r = r"
proof -
  have "r / 2 powi ulp_exp p q r = of_int n * 2 powi (e - ulp_exp p q r)" using assms(3) by (simp add: powi2_diff)
  also have "\<dots> = of_int (n * 2 ^ nat (e - ulp_exp p q r))" using assms(2) by (simp add: powi2_nonneg)
  finally show ?thesis unfolding round_abs_def by (metis divide_eq_eq less_irrefl powi2_pos rhe_of_int)
qed

lemma round_half:
  assumes "0 \<le> k" "k < 8388608"
  shows "round_rat 24 (- 149) (of_int k + 1 / 2) = of_int k + 1 / 2"
proof -
  let ?r = "of_int k + 1 / 2 :: rat"
  have p: "0 < ?r" using assms(1) by (simp add: add_nonneg_pos)
  have "(2::rat) powi flog2 ?r \<le> ?r" by (rule flog2_bounds(1) [OF p])
  also have "?r < 2 powi 23" using assms(2) by (simp add: power_int_def)
  finally have "flog2 ?r < 23" by (simp only: powi2_less_iff)
  then have "ulp_exp 24 (- 149) ?r \<le> - 1" using p by (simp add: ulp_exp_def)
  moreover have "?r = of_int (2 * k + 1) * 2 powi (- 1)" by (simp add: power_int_minus field_simps)
  ultimately have "round_abs 24 (- 149) ?r = ?r" by (rule round_abs_grid [OF p])
  then show ?thesis using p by (simp add: round_rat_def)
qed

lemma half_cast:
  assumes "0 \<le> v" "v \<le> of_int k" "0 \<le> k" "k < 8388608"
  shows "0 \<le> to_i32 (rnd32 (v + 1 / 2))" "to_i32 (rnd32 (v + 1 / 2)) \<le> k"
proof -
  let ?u = "round_rat 24 (- 149) (v + 1 / 2)"
  have hi: "?u \<le> of_int k + 1 / 2"
    using round_rat_mono [of "v + 1 / 2" "of_int k + 1 / 2" 24 "- 149"] assms by (simp add: round_half)
  have lo: "0 \<le> ?u" using round_rat_mono [of 0 "v + 1 / 2" 24 "- 149"] assms(1) by (simp add: round_rat_def)
  have "of_int k + 1 / 2 < (16777216::rat)" using assms(4) by linarith
  also have "(16777216::rat) < 2 powi (127 + 1)" by (simp only: two24 powi2_less_iff)
  finally have "rnd32 (v + 1 / 2) = Fin ?u" using hi lo by (simp add: rnd32_def round_fmt_def Let_def)
  moreover have "0 \<le> \<lfloor>?u\<rfloor>" "\<lfloor>?u\<rfloor> \<le> k" using hi lo by (auto simp: floor_le_iff)
  ultimately show "0 \<le> to_i32 (rnd32 (v + 1 / 2))" "to_i32 (rnd32 (v + 1 / 2)) \<le> k"
    using lo assms(4) by (simp_all add: trunc_rat_def sat32_def)
qed

section \<open>Aspect ratios only shrink\<close>

text \<open>A number the 32-bit format holds exactly, as every stored hint is.\<close>

definition is_f32 :: "flt \<Rightarrow> bool" where
  "is_f32 v \<longleftrightarrow> (case v of Fin r \<Rightarrow> rnd32 r = Fin r | _ \<Rightarrow> True)"

lemma rnd32_FinD: "rnd32 r = Fin r \<Longrightarrow> round_rat 24 (- 149) r = r"
  by (auto simp: rnd32_def round_fmt_def Let_def split: if_splits)

lemma rnd32_less: "rnd32 r = Fin r \<Longrightarrow> flt_less (rnd32 x) (Fin r) \<Longrightarrow> x < r"
proof (rule ccontr)
  assume a: "rnd32 r = Fin r" "flt_less (rnd32 x) (Fin r)" "\<not> x < r"
  then have "r \<le> round_rat 24 (- 149) x" using round_rat_mono [of r x 24 "- 149"] rnd32_FinD [OF a(1)] by simp
  with a rnd32_FinD [OF a(1)] show False by (auto simp: rnd32_def round_fmt_def Let_def split: if_splits)
qed

lemma rnd32_greater: "rnd32 r = Fin r \<Longrightarrow> flt_less (Fin r) (rnd32 x) \<Longrightarrow> r < x"
proof (rule ccontr)
  assume a: "rnd32 r = Fin r" "flt_less (Fin r) (rnd32 x)" "\<not> r < x"
  then have "round_rat 24 (- 149) x \<le> r" using round_rat_mono [of x r 24 "- 149"] rnd32_FinD [OF a(1)] by simp
  with a rnd32_FinD [OF a(1)] show False by (auto simp: rnd32_def round_fmt_def Let_def split: if_splits)
qed

lemma aspect_cut_height:
  assumes "0 < w" "0 < h" "w < 8388608" "h < 8388608" "is_f32 a" "flt_less (Fin 0) a" "flt_less (div32 (f32_of w) (f32_of h)) a"
  shows "0 \<le> to_i32 (add32 (div32 (f32_of w) a) (Fin (1 / 2))) \<and> to_i32 (add32 (div32 (f32_of w) a) (Fin (1 / 2))) \<le> h"
proof (cases a)
  case (Fin r)
  then have r: "0 < r" "rnd32 r = Fin r" using assms by (auto simp: is_f32_def)
  have "of_int w / of_int h < r" using assms r by (intro rnd32_less [OF r(2)]) (simp add: Fin f32_of_exact)
  then have "of_int w / r \<le> of_int h" using r(1) assms(2) by (simp add: field_simps)
  moreover have "0 \<le> of_int w / r" using r(1) assms(1) by simp
  ultimately obtain v where "rnd32 (of_int w / r) = Fin v" "0 \<le> v" "v \<le> of_int h"
    using rnd32_between [of "of_int w / r" h] assms by auto
  with half_cast [of v h] assms r show ?thesis by (simp add: Fin f32_of_exact)
next
  case (Infty b)
  with half_cast [of 0 h] assms show ?thesis by (simp add: f32_of_exact)
qed (use assms in simp)

lemma aspect_cut_width:
  assumes "0 < w" "0 < h" "w < 8388608" "h < 8388608" "is_f32 a" "flt_less (Fin 0) a" "flt_less a (div32 (f32_of w) (f32_of h))"
  shows "0 \<le> to_i32 (add32 (mul32 (f32_of h) a) (Fin (1 / 2))) \<and> to_i32 (add32 (mul32 (f32_of h) a) (Fin (1 / 2))) \<le> w"
proof (cases a)
  case (Fin r)
  then have r: "0 < r" "rnd32 r = Fin r" using assms by (auto simp: is_f32_def)
  have "r < of_int w / of_int h" using assms r by (intro rnd32_greater [OF r(2)]) (simp add: Fin f32_of_exact)
  then have "of_int h * r \<le> of_int w" using assms(2) by (simp add: field_simps)
  moreover have "0 \<le> of_int h * r" using r(1) assms(2) by simp
  ultimately obtain v where "rnd32 (of_int h * r) = Fin v" "0 \<le> v" "v \<le> of_int w"
    using rnd32_between [of "of_int h * r" w] assms by auto
  with half_cast [of v w] assms r show ?thesis by (simp add: Fin f32_of_exact)
next
  case (Infty b)
  have "\<not> flt_less (Infty True) v" for v by (cases v) auto
  with Infty assms show ?thesis by (cases b) auto
qed (use assms in simp)

lemma aspect_shrinks:
  assumes "0 < w" "0 < h" "w < 8388608" "h < 8388608" "is_f32 (min_aspect hints)" "is_f32 (max_aspect hints)"
    "apply_aspect_ratio_constraints w h hints = (w', h')"
  shows "0 \<le> w' \<and> w' \<le> w \<and> 0 \<le> h' \<and> h' \<le> h"
  using assms aspect_cut_height [OF assms(1-5)] aspect_cut_width [OF assms(1-4,6)]
  by (auto simp: apply_aspect_ratio_constraints_def Let_def split: if_splits)

section \<open>Constrained sizes\<close>

lemma aligned_offset_bounds:
  "aligned_offset v i \<le> max v 0" "i > 0 \<Longrightarrow> i dvd aligned_offset v i"
proof -
  show "i > 0 \<Longrightarrow> i dvd aligned_offset v i" by (simp add: aligned_offset_def)
  have "v sdiv i * i \<le> max v 0" if "0 < i"
  proof (cases "0 \<le> v")
    case True
    then have "v sdiv i = v div i" using that by (simp add: signed_divide_int_def sgn_if)
    moreover have "v div i * i \<le> v" using that by (metis div_mult_mod_eq le_add_same_cancel1 pos_mod_sign)
    ultimately show ?thesis by simp
  next
    case False
    then have "v sdiv i = - ((- v) div i)" using that by (simp add: signed_divide_int_def sgn_if)
    moreover have "0 \<le> (- v) div i" using False that by (simp add: pos_imp_zdiv_nonneg_iff)
    then have "0 \<le> (- v) div i * i" using that by simp
    ultimately show ?thesis by simp
  qed
  then show "aligned_offset v i \<le> max v 0" by (simp add: aligned_offset_def)
qed

lemmas dimension_defs = clamp_dimension_def MIN_CONSTRAINED_DIMENSION_def MAX_CONSTRAINED_DIMENSION_def clamp_def

lemma increment_aligned_le: "increment_aligned_dimension sz base inc \<le> max (max sz 1) (if inc > 0 then base else sz)"
  using aligned_offset_bounds(1) [of "sz - base" inc]
  by (auto simp: increment_aligned_dimension_def dimension_defs aligned_offset_def split: if_splits)

lemma increment_aligned_dvd:
  "inc > 0 \<Longrightarrow> increment_aligned_dimension sz base inc \<in> {1, 65535} \<or> inc dvd increment_aligned_dimension sz base inc - base"
  using aligned_offset_bounds(2) [of inc "sz - base"] by (auto simp: increment_aligned_dimension_def dimension_defs)

text \<open>
  What one axis of a constrained size promises: \<open>offered\<close> is the requested length, \<open>lo\<close> and \<open>hi\<close> the
  client's minimum and maximum.
\<close>

definition axis_obeys :: "int \<Rightarrow> int \<Rightarrow> int \<Rightarrow> int \<Rightarrow> int \<Rightarrow> int \<Rightarrow> bool" where
  "axis_obeys offered base inc lo hi v \<longleftrightarrow>
     1 \<le> v \<and> v \<le> 65535 \<and>
     (hi > 0 \<longrightarrow> v \<le> max hi 1) \<and>
     (hi \<le> 0 \<or> lo \<le> hi \<longrightarrow> min lo 65535 \<le> v) \<and>
     (v \<le> offered \<or> v \<le> lo \<or> inc > 0 \<and> offered < base \<and> v \<le> base) \<and>
     (inc > 0 \<longrightarrow> inc dvd v - base \<or> v \<in> {1, 65535, lo, hi})"

lemma axis_obeys_calculated:
  assumes "0 < offered" "0 \<le> v1" "v1 \<le> offered"
  shows "axis_obeys offered base inc lo hi
    (let v3 = max (increment_aligned_dimension v1 base inc) (clamp_dimension lo) in if hi > 0 then min v3 (clamp_dimension hi) else v3)"
proof -
  let ?v2 = "increment_aligned_dimension v1 base inc"
  have b: "1 \<le> ?v2" "?v2 \<le> 65535" by (simp_all add: increment_aligned_dimension_def dimension_defs)
  have le: "?v2 \<le> offered \<or> inc > 0 \<and> offered < base \<and> ?v2 \<le> base"
    using increment_aligned_le [of v1 base inc] assms by (auto split: if_splits)
  have d: "inc > 0 \<Longrightarrow> ?v2 \<in> {1, 65535} \<or> inc dvd ?v2 - base" by (rule increment_aligned_dvd)
  have v: "(let v3 = max ?v2 (clamp_dimension lo) in if hi > 0 then min v3 (clamp_dimension hi) else v3) \<in> {?v2, clamp_dimension lo, clamp_dimension hi}"
    by (auto simp: Let_def max_def min_def)
  show ?thesis
    unfolding axis_obeys_def
  proof (intro conjI impI)
    show "inc dvd (let v3 = max ?v2 (clamp_dimension lo) in if hi > 0 then min v3 (clamp_dimension hi) else v3) - base \<or>
      (let v3 = max ?v2 (clamp_dimension lo) in if hi > 0 then min v3 (clamp_dimension hi) else v3) \<in> {1, 65535, lo, hi}" if "0 < inc"
      using v d [OF that] by (auto simp: dimension_defs split: if_splits)
  qed (use b le assms in \<open>auto simp: Let_def dimension_defs max_def min_def split: if_splits\<close>)
qed

text \<open>
  C36. A constrained size can be configured on both axes (1 to 65535), stays below the client's
  maximum and, unless the client contradicts itself, above its minimum, lies on an increment step
  unless a limit moved it, and never exceeds the offered size except where the client's minimum or,
  with increments, its base size asks for more. So aspect ratios only shrink. The hints are
  arbitrary: any integers, any ratios the 32-bit format can hold, infinities and NaN included; the
  offered sizes are below the 2^23 at which halves are no longer representable.
\<close>

theorem constrained_size_obeys_hints:
  assumes "0 < w" "0 < h" "w < 8388608" "h < 8388608" "is_f32 (min_aspect hints)" "is_f32 (max_aspect hints)"
    "calculate_constrained_size w h hints = (w', h')"
  shows "axis_obeys w (base_w hints) (inc_w hints) (min_w hints) (max_w hints) w' \<and>
    axis_obeys h (base_h hints) (inc_h hints) (min_h hints) (max_h hints) h'"
proof -
  obtain w1 h1 where a: "apply_aspect_ratio_constraints w h hints = (w1, h1)" by (cases "apply_aspect_ratio_constraints w h hints")
  from aspect_shrinks [OF assms(1-6) a] have "0 \<le> w1" "w1 \<le> w" "0 \<le> h1" "h1 \<le> h" by auto
  with axis_obeys_calculated [of w w1 "base_w hints" "inc_w hints" "min_w hints" "max_w hints"]
    axis_obeys_calculated [of h h1 "base_h hints" "inc_h hints" "min_h hints" "max_h hints"] assms(1,2,7)
  show ?thesis by (auto simp: calculate_constrained_size_def a Let_def)
qed

definition terminal_hints :: size_hints where
  "terminal_hints = size_hints_default\<lparr>base_w := 4, base_h := 4, inc_w := 8, inc_h := 16, min_w := 20, min_aspect := Fin 1, max_aspect := Fin 2\<rparr>"

theorem constrained_size_obeys_hints_witness:
  "calculate_constrained_size 1000 300 terminal_hints = (596, 292) \<and> axis_obeys 1000 4 8 20 0 596 \<and> axis_obeys 300 4 16 0 0 292"
proof -
  have c: "calculate_constrained_size 1000 300 terminal_hints = (596, 292)" by code_simp
  have "is_f32 (min_aspect terminal_hints)" "is_f32 (max_aspect terminal_hints)" by code_simp+
  from constrained_size_obeys_hints [OF _ _ _ _ this c] c show ?thesis by (simp add: terminal_hints_def size_hints_default_def)
qed

text \<open>Increments can enlarge a window that is offered less than its base size.\<close>

lemma increments_can_exceed_the_offer:
  "calculate_constrained_size 5 5 (size_hints_default\<lparr>base_w := 10, inc_w := 3\<rparr>) = (7, 5)"
  by code_simp

section \<open>Staying reachable\<close>

lemma constrain_axis_visible:
  assumes "in_i32 origin" "1 \<le> extent"
  shows "constrain_axis pos origin extent full < origin + extent" "origin < constrain_axis pos origin extent full + max full 1"
    "in_i32 pos \<Longrightarrow> pos < origin + extent \<Longrightarrow> origin < pos + max full 1 \<Longrightarrow> constrain_axis pos origin extent full = pos"
  using assms by (auto simp: constrain_axis_def clamp_def Let_def in_i32_def)

lemma calculate_pos: "calculate_constrained_size w h hints = (w', h') \<Longrightarrow> 1 \<le> w' \<and> 1 \<le> h'"
proof -
  have c: "1 \<le> clamp_dimension v" for v by (simp add: dimension_defs)
  then have "1 \<le> increment_aligned_dimension sz b i" for sz b i by (simp add: increment_aligned_dimension_def)
  with c show "calculate_constrained_size w h hints = (w', h') \<Longrightarrow> 1 \<le> w' \<and> 1 \<le> h'"
    by (auto simp: calculate_constrained_size_def Let_def min_def max_def split: prod.splits if_splits)
qed

lemma refresh_keeps:
  "refresh_client_size_hints fetch c = (res, c') \<Longrightarrow> c_geometry c' = c_geometry c \<and> c_mon c' = c_mon c"
  by (auto simp: refresh_client_size_hints_def split: if_splits option.splits)

lemma ensure_keeps:
  assumes "ensure_size_hints_valid fetch k sb = (res, sb')" "slot_get (st_clients (fst sb)) k = Some c"
  shows "st_monitors (fst sb') = st_monitors (fst sb) \<and>
    (\<exists>c'. slot_get (st_clients (fst sb')) k = Some c' \<and> c_geometry c' = c_geometry c \<and> c_mon c' = c_mon c)"
proof -
  obtain r c' where r: "refresh_client_size_hints fetch c = (r, c')" by (cases "refresh_client_size_hints fetch c")
  show ?thesis using assms r refresh_keeps [OF r]
    by (auto simp: ensure_size_hints_valid_def updatesizehints_def Let_def slot_simps split: if_splits sum.splits)
qed

lemma hints_keep:
  assumes "apply_size_hints_constraints fetch rh k wh sb = (Inr (changed, wh'), sb')" "slot_get (st_clients (fst sb)) k = Some c"
    "1 \<le> fst wh" "1 \<le> snd wh"
  shows "st_monitors (fst sb') = st_monitors (fst sb) \<and> 1 \<le> fst wh' \<and> 1 \<le> snd wh' \<and> (\<not> changed \<longrightarrow> wh' = wh) \<and>
    (\<exists>c'. slot_get (st_clients (fst sb')) k = Some c' \<and> c_geometry c' = c_geometry c \<and> c_mon c' = c_mon c)"
proof (cases "\<not> rh \<and> \<not> is_client_floating (fst sb) k")
  case True
  with assms show ?thesis by (auto simp: apply_size_hints_constraints_def)
next
  case False
  obtain r s' where e: "ensure_size_hints_valid fetch k sb = (r, s')" by (cases "ensure_size_hints_valid fetch k sb")
  from ensure_keeps [OF e assms(2)] obtain c' where c': "st_monitors (fst s') = st_monitors (fst sb)"
    "slot_get (st_clients (fst s')) k = Some c'" "c_geometry c' = c_geometry c" "c_mon c' = c_mon c" by blast
  have "wh' = calculate_constrained_size (fst wh) (snd wh) (c_size_hints c') \<and> s' = sb' \<and> changed = (wh \<noteq> wh')"
    using assms(1) False e c'(2) by (auto simp: apply_size_hints_constraints_def Let_def split: sum.splits)
  with c' calculate_pos [of "fst wh" "snd wh" "c_size_hints c'" "fst wh'" "snd wh'"] show ?thesis by auto
qed

text \<open>The rectangle a client covers, borders included, and the area \<open>applysizehints\<close> bounds it to.\<close>

definition outer_rect :: "rect \<Rightarrow> wm_client \<Rightarrow> rect" where
  "outer_rect r c = rect_new (rect_x r) (rect_y r) (rect_w r + 2 * g_border_w (c_geometry c)) (rect_h r + 2 * g_border_w (c_geometry c))"

definition bound_area :: "int \<times> int \<Rightarrow> bool \<Rightarrow> wm_monitor \<Rightarrow> rect" where
  "bound_area screen interact mon =
     (if interact then rect_new 0 0 (fst screen) (snd screen)
      else rect_new (w_x (mon_geometry mon)) (w_y (mon_geometry mon)) (w_w (mon_geometry mon)) (w_h (mon_geometry mon)))"

definition usable_bounds :: "rect \<Rightarrow> bool" where
  "usable_bounds a \<longleftrightarrow> in_i32 (rect_x a) \<and> in_i32 (rect_y a) \<and> 1 \<le> rect_w a \<and> 1 \<le> rect_h a"

lemma boundary_overlaps:
  assumes "slot_get (st_clients s) k = Some c" "c_mon c = Some m" "slot_get (st_monitors s) m = Some mon"
    "usable_bounds (bound_area screen interact mon)" "0 \<le> g_border_w (c_geometry c)" "1 \<le> fst wh" "1 \<le> snd wh"
    "apply_boundary_constraints screen s k interact wh p = Inr p'"
  shows "overlap (bound_area screen interact mon) (outer_rect (rect_new (fst p') (snd p') (fst wh) (snd wh)) c)"
proof -
  let ?b = "g_border_w (c_geometry c)" and ?a = "bound_area screen interact mon"
  have "p' = (constrain_axis (fst p) (rect_x ?a) (rect_w ?a) (fst wh + 2 * ?b), constrain_axis (snd p) (rect_y ?a) (rect_h ?a) (snd wh + 2 * ?b))"
    using assms(1-3,8)
    by (simp add: apply_boundary_constraints_def bound_area_def constrain_to_screen_wide_def constrain_to_monitor_wide_def Let_def split: if_splits)
  with assms(4-7) constrain_axis_visible(1,2) [of "rect_x ?a" "rect_w ?a" "fst p" "fst wh + 2 * ?b"]
    constrain_axis_visible(1,2) [of "rect_y ?a" "rect_h ?a" "snd p" "snd wh + 2 * ?b"]
  show ?thesis by (simp add: overlap_def outer_rect_def usable_bounds_def)
qed

text \<open>
  C37. A window that \<open>applysizehints\<close> placed can be reached: with its borders it overlaps the area it
  was bounded to (the screen during an interactive move, the work area of its monitor otherwise), also
  when the hints shrank it after the first bound. Its sides are at least one pixel long, the reported
  change tells whether the rectangle differs from the client's, and only the client's cached hints
  and its fixed flag may have changed in the state.
\<close>

theorem constrained_window_stays_reachable:
  assumes "applysizehints fetch screen resize_hints k r interact sb = (Inr (changed, r'), sb')"
    "slot_get (st_clients (fst sb)) k = Some c" "c_mon c = Some m" "slot_get (st_monitors (fst sb)) m = Some mon"
    "usable_bounds (bound_area screen interact mon)" "0 \<le> g_border_w (c_geometry c)"
  shows "overlap (bound_area screen interact mon) (outer_rect r' c) \<and> 1 \<le> rect_w r' \<and> 1 \<le> rect_h r' \<and>
    ((rect_x r', rect_y r', rect_w r', rect_h r') \<noteq> wm_client_rect c \<longrightarrow> changed) \<and>
    st_monitors (fst sb') = st_monitors (fst sb)"
proof -
  let ?wh = "(max (rect_w r) 1, max (rect_h r) 1)"
  obtain p where p: "apply_boundary_constraints screen (fst sb) k interact ?wh (rect_x r, rect_y r) = Inr p"
    using assms(1,2) by (auto simp: applysizehints_def Let_def split: sum.splits)
  obtain ch wh' where h: "apply_size_hints_constraints fetch resize_hints k ?wh sb = (Inr (ch, wh'), sb')"
    using assms(1,2) p by (auto simp: applysizehints_def Let_def split: sum.splits prod.splits if_splits)
  note kp = hints_keep [OF h assms(2)]
  then obtain c' where c': "slot_get (st_clients (fst sb')) k = Some c'" "c_geometry c' = c_geometry c" "c_mon c' = c_mon c" by auto
  obtain p' where p': "(if ch then apply_boundary_constraints screen (fst sb') k interact wh' p else Inr p) = Inr p'"
    "r' = rect_new (fst p') (snd p') (fst wh') (snd wh')" "changed \<longleftrightarrow> ch \<or> (fst p', snd p', fst wh', snd wh') \<noteq> wm_client_rect c"
    using assms(1,2) p h by (auto simp: applysizehints_def Let_def split: sum.splits prod.splits if_splits)
  have o: "outer_rect q c' = outer_rect q c" for q by (simp add: outer_rect_def c'(2))
  have "overlap (bound_area screen interact mon) (outer_rect r' c)"
  proof (cases ch)
    case True
    with boundary_overlaps [OF c'(1), of m mon screen interact wh' p p'] c' kp p' assms(3-6) show ?thesis by (simp add: o)
  next
    case False
    with boundary_overlaps [OF assms(2-6) _ _ p] kp p' show ?thesis by simp
  qed
  with kp p' show ?thesis by simp
qed

definition hinted_state :: wm_state where
  "hinted_state = wm_state_new\<lparr>st_clients := [(1, (wm_client_new 7)\<lparr>c_mon := Some 1, c_state := client_state_default\<lparr>is_floating := True\<rparr>\<rparr>)],
     st_monitors := [(1, wm_monitor_new\<lparr>mon_geometry := \<lparr>m_x = 0, m_y = 0, m_w = 1000, m_h = 800, w_x = 0, w_y = 20, w_w = 1000, w_h = 780\<rparr>\<rparr>)]\<rparr>"

definition capped_hints :: normal_hints where
  "capped_hints = \<lparr>nh_base_w = 0, nh_base_h = 0, nh_inc_w = 0, nh_inc_h = 0, nh_max_w = 50, nh_max_h = 40, nh_min_w = 50, nh_min_h = 40,
     nh_min_aspect = Fin 0, nh_max_aspect = Fin 0\<rparr>"

theorem constrained_window_stays_reachable_witness:
  "\<exists>sb'. applysizehints (\<lambda>_. Some (Some capped_hints)) (1000, 800) False 1 (rect_new (- 500) 100 600 300) False (hinted_state, []) =
      (Inr (True, rect_new (- 49) 100 50 40), sb') \<and> overlap (rect_new 0 20 1000 780) (rect_new (- 49) 100 50 40)"
proof -
  let ?a = "applysizehints (\<lambda>_. Some (Some capped_hints)) (1000, 800) False 1 (rect_new (- 500) 100 600 300) False (hinted_state, [])"
  have "fst ?a = Inr (True, rect_new (- 49) 100 50 40)" by code_simp
  then have a: "?a = (Inr (True, rect_new (- 49) 100 50 40), snd ?a)" by (metis prod.collapse)
  have "overlap (bound_area (1000, 800) False (snd (hd (st_monitors hinted_state)))) (outer_rect (rect_new (- 49) 100 50 40) (snd (hd (st_clients hinted_state))))"
    by (rule constrained_window_stays_reachable [OF a, THEN conjunct1])
      (simp_all add: hinted_state_def slot_get_def wm_client_new_def client_geometry_default_def bound_area_def usable_bounds_def in_i32_def)
  then have "overlap (rect_new 0 20 1000 780) (rect_new (- 49) 100 50 40)"
    by (simp add: hinted_state_def wm_client_new_def client_geometry_default_def bound_area_def outer_rect_def)
  with a show ?thesis by blast
qed

text \<open>The intersection of two rectangles has exactly the pixels both have.\<close>

lemma rect_intersection_exact:
  "(case rect_intersection a b of None \<Rightarrow> \<not> (in_rect px py a \<and> in_rect px py b) | Some r \<Rightarrow> in_rect px py r \<longleftrightarrow> in_rect px py a \<and> in_rect px py b)"
  by (auto simp: rect_intersection_def in_rect_def Let_def)

end
