(* ===== verification/Animation.thy ===== *)
theory Animation
  imports Client_Stack Scrolling_Strip
begin

text \<open>
  Window motion: \<open>src/core/animation.rs\<close> (easing curves, the animation table, edge snapping, elastic
  scrolling) and the placement calls of \<open>src/jwm/positioning.rs\<close> that use it. Instants and durations are
  nanoseconds. The platform's \<open>2.0.powf\<close> and \<open>sin\<close>, which only the elastic curve uses, are parameters.
\<close>

section \<open>Easing\<close>

datatype easing = Linear | EaseOut | EaseInOut | EaseIn | Bounce | Elastic

definition easing_from_str :: "string \<Rightarrow> easing" where
  "easing_from_str s = (if s = ''linear'' then Linear else if s = ''ease-in-out'' then EaseInOut else if s = ''ease-in'' then EaseIn
     else if s = ''bounce'' then Bounce else if s = ''elastic'' then Elastic else EaseOut)"

definition bounce_curve :: "flt \<Rightarrow> flt" where
  "bounce_curve t =
     (let k = Fin (121 / 16); q = Fin (11 / 4);
          quad = (\<lambda>t c. add32 (mul32 (mul32 k t) t) (Fin c))
      in if flt_less t (div32 (Fin 1) q) then mul32 (mul32 k t) t
         else if flt_less t (div32 (Fin 2) q) then quad (sub32 t (div32 (Fin (3 / 2)) q)) (3 / 4)
         else if flt_less t (div32 (Fin (5 / 2)) q) then quad (sub32 t (div32 (Fin (9 / 4)) q)) (15 / 16)
         else quad (sub32 t (div32 (Fin (21 / 8)) q)) (63 / 64))"

definition TAU :: flt where "TAU = rnd32 (628318530717958647692528676655900577 / 100000000000000000000000000000000000)"

fun easing_apply :: "(flt \<Rightarrow> flt) \<times> (flt \<Rightarrow> flt) \<Rightarrow> easing \<Rightarrow> flt \<Rightarrow> flt" where
  "easing_apply libm Linear t = fclamp t (Fin 0) (Fin 1)"
| "easing_apply libm EaseOut t =
     (let inv = sub32 (Fin 1) (fclamp t (Fin 0) (Fin 1)) in sub32 (Fin 1) (mul32 (mul32 inv inv) inv))"
| "easing_apply libm EaseInOut t =
     (let t = fclamp t (Fin 0) (Fin 1)
      in if flt_less t (Fin (1 / 2)) then mul32 (mul32 (mul32 (Fin 4) t) t) t
         else let p = add32 (mul32 (Fin (- 2)) t) (Fin 2) in sub32 (Fin 1) (div32 (mul32 (mul32 p p) p) (Fin 2)))"
| "easing_apply libm EaseIn t = (let t = fclamp t (Fin 0) (Fin 1) in mul32 (mul32 t t) t)"
| "easing_apply libm Bounce t = sub32 (Fin 1) (bounce_curve (sub32 (Fin 1) (fclamp t (Fin 0) (Fin 1))))"
| "easing_apply libm Elastic t =
     (let t = fclamp t (Fin 0) (Fin 1)
      in if flt_eq t (Fin 0) \<or> flt_eq t (Fin 1) then t
         else let p = rnd32 (3 / 10); s = div32 p (Fin 4)
              in add32 (mul32 (fst libm (mul32 (Fin (- 10)) t)) (snd libm (div32 (mul32 TAU (sub32 t s)) p))) (Fin 1))"

datatype animation_speed = Slow | Normal | Fast | Instantly

definition speed_from_str :: "string \<Rightarrow> animation_speed" where
  "speed_from_str s = (if s = ''slow'' then Slow else if s = ''fast'' then Fast else if s = ''instant'' then Instantly else Normal)"

fun duration_multiplier :: "animation_speed \<Rightarrow> flt" where
  "duration_multiplier Slow = Fin 2" | "duration_multiplier Normal = Fin 1"
| "duration_multiplier Fast = Fin (1 / 2)" | "duration_multiplier Instantly = Fin 0"

fun fade_step_multiplier :: "animation_speed \<Rightarrow> flt" where
  "fade_step_multiplier Slow = Fin (1 / 2)" | "fade_step_multiplier Normal = Fin 1"
| "fade_step_multiplier Fast = Fin 2" | "fade_step_multiplier Instantly = Fin 100"

fun apply_duration :: "animation_speed \<Rightarrow> nat \<Rightarrow> nat" where
  "apply_duration Slow base_ms = min (base_ms * 2) (2 ^ 64 - 1)"
| "apply_duration Normal base_ms = base_ms"
| "apply_duration Fast base_ms = (base_ms + 1) div 2"
| "apply_duration Instantly base_ms = 0"

definition apply_fade_step :: "animation_speed \<Rightarrow> flt \<Rightarrow> flt" where
  "apply_fade_step speed base_step = fmin (mul32 base_step (fade_step_multiplier speed)) (Fin 1)"

section \<open>Animations\<close>

datatype animation_kind = A_Layout | A_Float | A_Appear | A_Hide

record client_animation =
  an_from :: rect
  an_to :: rect
  an_started_at :: nat
  an_duration :: nat
  an_easing :: easing
  an_kind :: animation_kind

text \<open>\<open>Duration::as_secs_f32\<close>.\<close>

definition as_secs_f32 :: "nat \<Rightarrow> flt" where
  "as_secs_f32 d = add32 (f32_of (int (d div 1000000000))) (div32 (f32_of (int (d mod 1000000000))) (f32_of 1000000000))"

definition lerp :: "int \<Rightarrow> int \<Rightarrow> flt \<Rightarrow> int" where
  "lerp a b t = to_i32 (fround (add64 (f64_of a) (mul64 (sub64 (f64_of b) (f64_of a)) t)))"

definition animation_sample :: "(flt \<Rightarrow> flt) \<times> (flt \<Rightarrow> flt) \<Rightarrow> client_animation \<Rightarrow> nat \<Rightarrow> rect \<times> bool" where
  "animation_sample libm a now =
     (let elapsed = now - an_started_at a
      in if elapsed \<ge> an_duration a then (an_to a, True)
         else let t = div32 (as_secs_f32 elapsed) (as_secs_f32 (an_duration a));
                  e = easing_apply libm (an_easing a) t;
                  f = an_from a; to' = an_to a
              in (rect_new (lerp (rect_x f) (rect_x to') e) (lerp (rect_y f) (rect_y to') e)
                    (max (lerp (rect_w f) (rect_w to') e) 1) (max (lerp (rect_h f) (rect_h to') e) 1), False))"

type_synonym animations = "(client_key, client_animation) slotmap"

definition animation_start :: "nat \<Rightarrow> client_key \<Rightarrow> rect \<Rightarrow> rect \<Rightarrow> nat \<Rightarrow> easing \<Rightarrow> animation_kind \<Rightarrow> animations \<Rightarrow> animations" where
  "animation_start now key current_visual target duration easing kind active =
     (if current_visual = target then hash_remove key active
      else if (case slot_get active key of None \<Rightarrow> False
               | Some a \<Rightarrow> an_to a = target \<and> an_duration a = duration \<and> an_easing a = easing \<and> an_kind a = kind) then active
      else hash_insert key \<lparr>an_from = current_visual, an_to = target, an_started_at = now, an_duration = duration, an_easing = easing, an_kind = kind\<rparr> active)"

definition animation_remove :: "client_key \<Rightarrow> animations \<Rightarrow> animations" where
  "animation_remove key active = hash_remove key active"

definition animation_remove_if_hide :: "client_key \<Rightarrow> animations \<Rightarrow> animations" where
  "animation_remove_if_hide key active =
     (case slot_get active key of None \<Rightarrow> active | Some a \<Rightarrow> if an_kind a = A_Hide then hash_remove key active else active)"

definition has_active :: "animations \<Rightarrow> bool" where
  "has_active active \<longleftrightarrow> active \<noteq> []"

definition current_visual_rect :: "(flt \<Rightarrow> flt) \<times> (flt \<Rightarrow> flt) \<Rightarrow> animations \<Rightarrow> client_key \<Rightarrow> nat \<Rightarrow> rect option" where
  "current_visual_rect libm active key now = map_option (\<lambda>a. fst (animation_sample libm a now)) (slot_get active key)"

section \<open>Springs\<close>

datatype snap_edge = SnapLeft | SnapRight | SnapTop | SnapBottom

record snap_attraction =
  sn_edge :: snap_edge
  sn_target_pos :: flt
  sn_current_offset :: flt
  sn_velocity :: flt

record magnetic_snap =
  snap_distance :: flt
  spring_stiffness :: flt
  snap_damping :: flt
  active_snaps :: "(client_key, snap_attraction) slotmap"

definition magnetic_snap_new :: "flt \<Rightarrow> magnetic_snap" where
  "magnetic_snap_new d = \<lparr>snap_distance = d, spring_stiffness = Fin 300, snap_damping = Fin 20, active_snaps = []\<rparr>"

fun detect_snap :: "magnetic_snap \<Rightarrow> flt \<Rightarrow> flt \<Rightarrow> flt list \<Rightarrow> (snap_edge \<times> flt) option" where
  "detect_snap s pos extent [] = None"
| "detect_snap s pos extent (target # targets) =
     (if flt_less (fabs (sub32 pos target)) (snap_distance s) then Some (SnapLeft, target)
      else if flt_less (fabs (sub32 (add32 pos extent) target)) (snap_distance s) then Some (SnapRight, sub32 target extent)
      else detect_snap s pos extent targets)"

definition start_snap :: "client_key \<Rightarrow> snap_edge \<Rightarrow> flt \<Rightarrow> flt \<Rightarrow> magnetic_snap \<Rightarrow> magnetic_snap" where
  "start_snap key edge target_pos current_pos s =
     s\<lparr>active_snaps := hash_insert key \<lparr>sn_edge = edge, sn_target_pos = target_pos, sn_current_offset = sub32 current_pos target_pos, sn_velocity = Fin 0\<rparr> (active_snaps s)\<rparr>"

text \<open>One Euler step of a damped spring: the new offset, the new velocity, and whether it settled.\<close>

definition spring_step :: "flt \<Rightarrow> flt \<Rightarrow> flt \<Rightarrow> flt \<Rightarrow> flt \<Rightarrow> flt \<times> flt \<times> bool" where
  "spring_step stiffness damp dt offset velocity =
     (let force = sub32 (mul32 (fneg stiffness) offset) (mul32 damp velocity);
          v = add32 velocity (mul32 force dt);
          x = add32 offset (mul32 v dt)
      in if flt_less (fabs x) (Fin (1 / 2)) \<and> flt_less (fabs v) (Fin (1 / 2)) then (Fin 0, Fin 0, True) else (x, v, False))"

definition snap_tick :: "flt \<Rightarrow> magnetic_snap \<Rightarrow> bool \<times> magnetic_snap" where
  "snap_tick dt s =
     (let moved = map (\<lambda>(k, sn). case spring_step (spring_stiffness s) (snap_damping s) dt (sn_current_offset sn) (sn_velocity sn) of
                         (x, v, settled) \<Rightarrow> (settled, k, sn\<lparr>sn_current_offset := x, sn_velocity := v\<rparr>)) (active_snaps s);
          rest = map snd (filter (\<lambda>(settled, _). \<not> settled) moved)
      in (rest \<noteq> [], s\<lparr>active_snaps := rest\<rparr>))"

definition snapped_position :: "magnetic_snap \<Rightarrow> client_key \<Rightarrow> flt option" where
  "snapped_position s key = map_option (\<lambda>sn. add32 (sn_target_pos sn) (sn_current_offset sn)) (slot_get (active_snaps s) key)"

definition snap_cancel :: "client_key \<Rightarrow> magnetic_snap \<Rightarrow> magnetic_snap" where
  "snap_cancel key s = s\<lparr>active_snaps := hash_remove key (active_snaps s)\<rparr>"

record elastic_scroll =
  el_offset :: flt
  el_velocity :: flt
  el_spring_k :: flt
  el_damping :: flt
  max_overscroll :: flt
  el_active :: bool

definition elastic_scroll_new :: elastic_scroll where
  "elastic_scroll_new = \<lparr>el_offset = Fin 0, el_velocity = Fin 0, el_spring_k = Fin 400, el_damping = Fin 25, max_overscroll = Fin 100, el_active = False\<rparr>"

definition apply_scroll :: "flt \<Rightarrow> elastic_scroll \<Rightarrow> flt \<times> elastic_scroll" where
  "apply_scroll delta e =
     (let x = fclamp (add32 (el_offset e) delta) (fneg (max_overscroll e)) (max_overscroll e)
      in (x, e\<lparr>el_offset := x, el_velocity := mul32 delta (Fin 10), el_active := True\<rparr>))"

definition elastic_tick :: "flt \<Rightarrow> elastic_scroll \<Rightarrow> bool \<times> elastic_scroll" where
  "elastic_tick dt e =
     (if \<not> el_active e then (False, e)
      else case spring_step (el_spring_k e) (el_damping e) dt (el_offset e) (el_velocity e) of
             (x, v, settled) \<Rightarrow> (\<not> settled, e\<lparr>el_offset := x, el_velocity := v, el_active := \<not> settled\<rparr>))"

section \<open>Placing a client\<close>

text \<open>
  \<open>resizeclient\<close>: the client's rectangle moves to \<open>old_*\<close>, the new one is recorded, an animation is
  started or removed, and the backend is told where to put the window. The configure request is the
  last component; \<open>None\<close> in the settings of motion means that animations are off.
\<close>

record placement_env =
  pe_now :: nat
  pe_motion :: "(nat \<times> easing) option"
  pe_suppress :: bool
  pe_compositor :: bool
  pe_libm :: "(flt \<Rightarrow> flt) \<times> (flt \<Rightarrow> flt)"
  pe_configure :: "window_id \<Rightarrow> rect \<Rightarrow> int \<Rightarrow> bool"

definition place_geometry :: "rect \<Rightarrow> client_geometry \<Rightarrow> client_geometry" where
  "place_geometry r g = g\<lparr>g_old_x := g_x g, g_old_y := g_y g, g_old_w := g_w g, g_old_h := g_h g,
     g_x := rect_x r, g_y := rect_y r, g_w := rect_w r, g_h := rect_h r\<rparr>"

definition geometry_rect :: "client_geometry \<Rightarrow> rect" where
  "geometry_rect g = rect_new (g_x g) (g_y g) (g_w g) (g_h g)"

definition resizeclient :: "placement_env \<Rightarrow> client_key \<Rightarrow> rect \<Rightarrow> wm_state \<times> animations \<Rightarrow> bool \<times> (wm_state \<times> animations) \<times> (window_id \<times> rect \<times> int) option" where
  "resizeclient env k r sa =
     (case slot_get (st_clients (fst sa)) k of
        None \<Rightarrow> (True, sa, None)
      | Some c \<Rightarrow>
          let s' = (fst sa)\<lparr>st_clients := slot_update k (\<lambda>c. c\<lparr>c_geometry := place_geometry r (c_geometry c)\<rparr>) (st_clients (fst sa))\<rparr>;
              x11_bw = (if pe_compositor env then 0 else g_border_w (c_geometry c))
          in case (if pe_suppress env then None else pe_motion env) of
               Some (duration, easing) \<Rightarrow>
                 let visual = (case current_visual_rect (pe_libm env) (snd sa) k (pe_now env) of Some v \<Rightarrow> v | None \<Rightarrow> geometry_rect (c_geometry c));
                     anims = (if (case slot_get (snd sa) k of None \<Rightarrow> False | Some a \<Rightarrow> an_to a = r) then snd sa
                              else animation_start (pe_now env) k visual r duration easing A_Layout (snd sa));
                     at_rect = (if pe_compositor env then r else visual)
                 in (pe_configure env (c_win c) at_rect x11_bw, (s', anims), Some (c_win c, at_rect, x11_bw))
             | None \<Rightarrow>
                 if pe_configure env (c_win c) r x11_bw
                 then (True, (s', animation_remove k (snd sa)), Some (c_win c, r, x11_bw))
                 else (False, (s', snd sa), Some (c_win c, r, x11_bw)))"

definition refit_keeping_restore_slot :: "placement_env \<Rightarrow> client_key \<Rightarrow> rect \<Rightarrow> wm_state \<times> animations \<Rightarrow> bool \<times> (wm_state \<times> animations) \<times> (window_id \<times> rect \<times> int) option" where
  "refit_keeping_restore_slot env k r sa =
     (case slot_get (st_clients (fst sa)) k of
        None \<Rightarrow> resizeclient env k r sa
      | Some c \<Rightarrow>
          let g = c_geometry c
          in case resizeclient env k r sa of
               (ok, (s', anims), sent) \<Rightarrow>
                 (ok, (s'\<lparr>st_clients := slot_update k (\<lambda>c. c\<lparr>c_geometry := (c_geometry c)\<lparr>g_old_x := g_old_x g, g_old_y := g_old_y g,
                     g_old_w := g_old_w g, g_old_h := g_old_h g\<rparr>\<rparr>) (st_clients s')\<rparr>, anims), sent))"

text \<open>The monitor that shows the largest part of a dropped window.\<close>

definition drop_area :: "wm_state \<Rightarrow> client_geometry \<Rightarrow> monitor_key \<Rightarrow> int" where
  "drop_area s g key =
     (case slot_get (st_monitors s) key of
        None \<Rightarrow> 0
      | Some mon \<Rightarrow>
          let x = g_x g; y = g_y g;
              border = max (g_border_w g) 0 * 2;
              right = x + max (g_w g + border) 0;
              bottom = y + max (g_h g + border) 0;
              m = mon_geometry mon;
              width = max (min right (m_x m + max (m_w m) 0) - max x (m_x m)) 0;
              height = max (min bottom (m_y m + max (m_h m) 0) - max y (m_y m)) 0
          in width * height)"

definition drop_home :: "wm_state \<Rightarrow> wm_client \<Rightarrow> monitor_key option" where
  "drop_home s c =
     (case c_mon c of
        Some m \<Rightarrow> if slot_get (st_monitors s) m \<noteq> None then Some m else first_of (monitor_order s)
      | None \<Rightarrow> first_of (monitor_order s))"

definition monitor_for_client_drop :: "wm_state \<Rightarrow> client_key \<Rightarrow> monitor_key option" where
  "monitor_for_client_drop s k =
     (case slot_get (st_clients s) k of
        None \<Rightarrow> None
      | Some c \<Rightarrow>
          (case drop_home s c of
             None \<Rightarrow> None
           | Some home \<Rightarrow>
               let area = drop_area s (c_geometry c)
               in Some (fst (fold (\<lambda>key (target, largest). if area key > largest then (key, area key) else (target, largest))
                               (monitor_order s) (home, area home)))))"

section \<open>Frames stay between the two rectangles\<close>

definition unit_flt :: "flt \<Rightarrow> bool" where
  "unit_flt v \<longleftrightarrow> (\<exists>c. v = Fin c \<and> 0 \<le> c \<and> c \<le> 1)"

lemma rnd32_unit: "0 \<le> r \<Longrightarrow> r \<le> 1 \<Longrightarrow> unit_flt (rnd32 r)"
  using rnd32_between [of r 1] by (auto simp: unit_flt_def)

lemma unit_mul: "unit_flt a \<Longrightarrow> unit_flt b \<Longrightarrow> unit_flt (mul32 a b)"
  by (auto simp: unit_flt_def [of a] unit_flt_def [of b] mult_le_one intro!: rnd32_unit)

lemma unit_compl: "unit_flt a \<Longrightarrow> unit_flt (sub32 (Fin 1) a)"
  by (auto simp: unit_flt_def [of a] fsub_def intro!: rnd32_unit)

lemma unit_clamp: "t \<noteq> NaN \<Longrightarrow> unit_flt (fclamp t (Fin 0) (Fin 1))"
  using fclamp_Fin [of 0 1 t] by (auto simp: unit_flt_def)

lemma unit_ease_in_out:
  assumes "unit_flt t" "flt_less t (Fin (1 / 2))"
  shows "unit_flt (mul32 (mul32 (mul32 (Fin 4) t) t) t)"
proof -
  obtain c where c: "t = Fin c" "0 \<le> c" "c < 1 / 2" using assms by (auto simp: unit_flt_def)
  from c rnd32_between [of "4 * c" 2] obtain u where u: "rnd32 (4 * c) = Fin u" "0 \<le> u" "u \<le> 2" by auto
  have "u * c \<le> 2 * (1 / 2)" by (rule mult_mono) (use c u in auto)
  with c u have "unit_flt (mul32 (mul32 (Fin 4) t) t)" by (simp add: rnd32_unit)
  then show ?thesis using assms(1) by (rule unit_mul)
qed

lemma unit_ease_half:
  assumes "unit_flt t" "\<not> flt_less t (Fin (1 / 2))"
  shows "unit_flt (add32 (mul32 (Fin (- 2)) t) (Fin 2))"
proof -
  obtain c where c: "t = Fin c" "1 / 2 \<le> c" "c \<le> 1" using assms by (auto simp: unit_flt_def)
  have e: "round_rat 24 (- 149) (- 2) = (- 2 :: rat)" "round_rat 24 (- 149) (- 1) = (- 1 :: rat)"
    using round_rat_of_int [of "- 2" 24 "- 149"] round_rat_of_int [of "- 1" 24 "- 149"] by simp_all
  have u: "- 2 \<le> round_rat 24 (- 149) (- 2 * c)" "round_rat 24 (- 149) (- 2 * c) \<le> - 1"
    using round_rat_mono [of "- 2" "- 2 * c" 24 "- 149"] round_rat_mono [of "- 2 * c" "- 1" 24 "- 149"] c by (simp_all add: e)
  have "(2 :: rat) < 16777216" by simp
  also have "(16777216::rat) < 2 powi (127 + 1)" by (simp only: two24 powi2_less_iff)
  finally have "rnd32 (- 2 * c) = Fin (round_rat 24 (- 149) (- 2 * c))"
    using u by (simp add: rnd32_def round_fmt_def Let_def)
  with u show ?thesis by (simp add: c(1) rnd32_unit)
qed

lemma unit_halve: "unit_flt a \<Longrightarrow> unit_flt (div32 a (Fin 2))"
  by (auto simp: unit_flt_def [of a] intro!: rnd32_unit)

lemma easing_unit:
  assumes "t \<noteq> NaN" "ease \<in> {Linear, EaseOut, EaseInOut, EaseIn}"
  shows "unit_flt (easing_apply libm ease t)"
proof -
  note u = unit_clamp [OF assms(1)]
  have "unit_flt (easing_apply libm EaseInOut t)"
    using u unit_ease_in_out [OF u] unit_ease_half [OF u] by (auto simp: Let_def intro!: unit_mul unit_compl unit_halve)
  then show ?thesis using assms(2) u by (auto simp: Let_def intro!: unit_mul unit_compl)
qed

lemma rnd64_between:
  assumes "of_int lo \<le> r" "r \<le> of_int hi" "\<bar>lo\<bar> < 2 ^ 53" "\<bar>hi\<bar> < 2 ^ 53"
  shows "\<exists>v. rnd64 r = Fin v \<and> of_int lo \<le> v \<and> v \<le> of_int hi"
proof -
  let ?v = "round_rat 53 (- 1074) r"
  have v: "of_int lo \<le> ?v" "?v \<le> of_int hi"
    using round_rat_mono [OF assms(1), of 53 "- 1074"] round_rat_mono [OF assms(2), of 53 "- 1074"] assms(3,4)
    by (simp_all add: round_rat_of_int)
  have p: "(2::rat) ^ 53 = 2 powi 53" by (simp add: power_int_def)
  have "\<bar>?v\<bar> < of_int (2 ^ 53)" using v assms(3,4) by (simp only: abs_less_iff) linarith
  also have "of_int (2 ^ 53) < (2::rat) powi (1023 + 1)" by (simp add: p)
  finally show ?thesis using v by (simp add: rnd64_def round_fmt_def Let_def)
qed

lemma rnd64_int: "\<bar>k\<bar> < 2 ^ 53 \<Longrightarrow> rnd64 (of_int k) = Fin (of_int k)"
  using rnd64_between [of k "of_int k" k] by (auto simp: order_antisym)

lemma fround_between: "of_int lo \<le> v \<Longrightarrow> v \<le> of_int hi \<Longrightarrow> \<exists>k. fround (Fin v) = Fin (of_int k) \<and> lo \<le> k \<and> k \<le> hi"
  by (auto simp: le_floor_iff floor_le_iff) linarith+

lemma lerp_between:
  assumes "in_i32 a" "in_i32 b" "unit_flt t"
  shows "min a b \<le> lerp a b t \<and> lerp a b t \<le> max a b"
proof -
  obtain c where c: "t = Fin c" "0 \<le> c" "c \<le> 1" using assms(3) by (auto simp: unit_flt_def)
  define d where "d = b - a"
  have small: "\<bar>a\<bar> < 2 ^ 53" "\<bar>b\<bar> < 2 ^ 53" "\<bar>d\<bar> < 2 ^ 53" using assms(1,2) by (auto simp: in_i32_def d_def)
  have sub: "sub64 (f64_of b) (f64_of a) = Fin (of_int d)"
    using rnd64_int [OF small(3)] assms(1,2) by (simp add: f64_of_exact fsub_def d_def)
  have "of_int (min 0 d) \<le> of_int d * c \<and> of_int d * c \<le> of_int (max 0 d)"
  proof (cases "0 \<le> d")
    case True
    then show ?thesis using c by (simp add: mult_left_le)
  next
    case False
    then have "of_int d * (1 - c) \<le> 0" using c by (intro mult_nonpos_nonneg) auto
    moreover have "of_int d * c \<le> 0" using False c by (intro mult_nonpos_nonneg) auto
    ultimately show ?thesis using False by (simp add: algebra_simps)
  qed
  then obtain u where u: "rnd64 (of_int d * c) = Fin u" "of_int (min 0 d) \<le> u" "u \<le> of_int (max 0 d)"
    using rnd64_between [of "min 0 d" "of_int d * c" "max 0 d"] small(3) by (auto simp: min_def max_def split: if_splits)
  have "of_int (min a b) \<le> of_int a + u \<and> of_int a + u \<le> of_int (max a b)"
    using u(2,3) by (auto simp: d_def min_def max_def split: if_splits)
  then obtain v where v: "rnd64 (of_int a + u) = Fin v" "of_int (min a b) \<le> v" "v \<le> of_int (max a b)"
    using rnd64_between [of "min a b" "of_int a + u" "max a b"] small(1,2) by (auto simp: min_def max_def split: if_splits)
  from fround_between [OF v(2,3)] obtain k where k: "fround (Fin v) = Fin (of_int k)" "min a b \<le> k" "k \<le> max a b" by blast
  have "lerp a b t = sat32 (trunc_rat (of_int k))"
  proof -
    have "lerp a b t = to_i32 (fround (add64 (f64_of a) (Fin u)))" by (simp only: lerp_def sub c(1) fmul.simps u(1))
    then show ?thesis by (simp only: f64_of_exact [OF assms(1)] fadd.simps v(1) k(1) to_i32.simps)
  qed
  also have "\<dots> = k" using k(2,3) assms(1,2) by (auto simp: trunc_rat_def sat32_def in_i32_def floor_minus)
  finally show ?thesis using k by simp
qed

section \<open>Animations end\<close>

lemma div32_not_NaN: "y \<noteq> 0 \<Longrightarrow> div32 (Fin x) (Fin y) \<noteq> NaN"
  by (simp add: rnd32_def round_fmt_def Let_def)

lemma rnd32_pos:
  assumes "1 / 1073741824 \<le> r" "r \<le> of_int k" "k < 16777216"
  shows "\<exists>v. rnd32 r = Fin v \<and> 1 / 1073741824 \<le> v \<and> v \<le> of_int k"
proof -
  have e: "(1 / 1073741824 :: rat) = 2 powi (- 30)" by (simp add: power_int_minus)
  have "0 < (1 / 1073741824 :: rat)" by simp
  then have p: "0 < r" using assms(1) by linarith
  then have "0 < (of_int k :: rat)" using assms(2) by linarith
  then have k: "0 \<le> k" by simp
  have u: "ulp_exp 24 (- 149) (1 / 1073741824) \<le> - 30"
  proof -
    have "(2::rat) powi flog2 (1 / 1073741824) \<le> 1 / 1073741824" by (rule flog2_bounds(1)) simp
    then have "flog2 (1 / 1073741824) \<le> - 30" unfolding e by (simp only: powi2_le_iff)
    then show ?thesis by (simp add: ulp_exp_def)
  qed
  have "(2::rat) powi (- 30) \<le> round_abs 24 (- 149) (1 / 1073741824)" by (rule round_abs_ge_powi [OF _ u]) (simp only: e order_refl)
  then have "1 / 1073741824 \<le> round_rat 24 (- 149) (1 / 1073741824 :: rat)" unfolding round_rat_def e [symmetric] by simp
  also have "\<dots> \<le> round_rat 24 (- 149) r" by (rule round_rat_mono [OF assms(1)]) simp
  finally have "1 / 1073741824 \<le> round_rat 24 (- 149) r" .
  moreover obtain v where "rnd32 r = Fin v" "0 \<le> v" "v \<le> of_int k" using rnd32_between [of r k] p k assms(2,3) by auto
  ultimately show ?thesis by (auto simp: rnd32_def round_fmt_def Let_def split: if_splits)
qed

lemma f32_of_1e9: "f32_of 1000000000 = Fin 1000000000"
  by code_simp

lemma f32_of_small:
  assumes "0 \<le> n" "n < 1000000000"
  shows "\<exists>f. f32_of n = Fin f \<and> 0 \<le> f \<and> (0 < n \<longrightarrow> 1 \<le> f) \<and> f \<le> 1000000000"
proof -
  have e: "round_rat 24 (- 149) 1000000000 = (1000000000 :: rat)"
    using f32_of_1e9 by (auto simp: f32_of_def rnd32_def round_fmt_def Let_def split: if_splits)
  have o: "round_rat 24 (- 149) 1 = (1 :: rat)" using round_rat_of_int [of 1 24 "- 149"] by simp
  let ?f = "round_rat 24 (- 149) (of_int n)"
  have "of_int n \<le> (1000000000 :: rat)" using assms(2) by linarith
  then have hi: "?f \<le> 1000000000" using round_rat_mono [of "of_int n" 1000000000 24 "- 149"] e by simp
  have lo: "0 \<le> ?f" using round_rat_mono [of 0 "of_int n" 24 "- 149"] assms(1) by (simp add: round_rat_def)
  have one: "1 \<le> ?f" if "0 < n" using round_rat_mono [of 1 "of_int n" 24 "- 149"] that o by simp
  have "(1000000000 :: rat) < 2147483648" by simp
  also have "(2147483648::rat) < 2 powi (127 + 1)" by (simp only: two31 powi2_less_iff)
  finally have "f32_of n = Fin ?f" using hi lo by (simp add: f32_of_def rnd32_def round_fmt_def Let_def)
  with hi lo one show ?thesis by blast
qed

lemma pos_split: "0 < d \<longleftrightarrow> 0 < d div n \<or> 0 < d mod (n :: nat)"
  using div_mult_mod_eq [of d n] by (cases "d = 0") (auto simp del: div_mult_mod_eq)

lemma as_secs_Fin:
  assumes "d < 1000000000 * 8388608"
  shows "\<exists>v. as_secs_f32 d = Fin v \<and> 0 \<le> v \<and> (0 < d \<longrightarrow> 0 < v)"
proof -
  define sc where "sc = int (d div 1000000000)"
  define ns where "ns = int (d mod 1000000000)"
  have sc: "0 \<le> sc" "sc < 8388608" using assms by (auto simp: sc_def less_mult_imp_div_less mult.commute zdiv_int)
  have ns: "0 \<le> ns" "ns < 1000000000" by (simp_all add: ns_def zmod_int)
  have d0: "0 < d \<longleftrightarrow> 0 < sc \<or> 0 < ns"
    unfolding sc_def ns_def of_nat_0_less_iff by (rule pos_split)
  obtain f where f: "f32_of ns = Fin f" "0 \<le> f" "0 < ns \<Longrightarrow> 1 \<le> f" "f \<le> 1000000000"
    using f32_of_small [OF ns] by blast
  obtain q where q: "rnd32 (f / 1000000000) = Fin q" "0 \<le> q" "q \<le> 1" "0 < ns \<Longrightarrow> 1 / 1073741824 \<le> q"
  proof (cases "0 < ns")
    case True
    have "1 / 1073741824 \<le> f / 1000000000" using f(3) [OF True] by (simp add: field_simps)
    with rnd32_pos [of "f / 1000000000" 1] f(4) show ?thesis using that by force
  next
    case False
    then show ?thesis using that rnd32_between [of "f / 1000000000" 1] f by (auto simp: field_simps)
  qed
  have sum: "0 \<le> of_int sc + q" "of_int sc + q \<le> of_int (sc + 1)" using q sc by auto
  have e: "as_secs_f32 d = rnd32 (of_int sc + q)"
    using sc f(1) q(1) by (simp add: as_secs_f32_def sc_def [symmetric] ns_def [symmetric] f32_of_exact f32_of_1e9)
  show ?thesis
  proof (cases "0 < d")
    case True
    then consider "1 \<le> sc" | "0 < ns" using d0 by linarith
    then have "1 / 1073741824 \<le> of_int sc + q"
    proof cases
      case 1
      then have "(1::rat) \<le> of_int sc" by simp
      with q(2) show ?thesis by simp
    next
      case 2
      have "(0::rat) \<le> of_int sc" using sc(1) by simp
      with q(4) [OF 2] show ?thesis by linarith
    qed
    from rnd32_pos [OF this sum(2)] sc(2) obtain v where "rnd32 (of_int sc + q) = Fin v" "1 / 1073741824 \<le> v" by auto
    moreover have "0 < v" using less_le_trans [OF _ calculation(2), of 0] by simp
    ultimately show ?thesis using e by auto
  next
    case False
    then show ?thesis using rnd32_between [OF sum] sc e by auto
  qed
qed

definition i32_rect :: "rect \<Rightarrow> bool" where
  "i32_rect r \<longleftrightarrow> in_i32 (rect_x r) \<and> in_i32 (rect_y r) \<and> in_i32 (rect_w r) \<and> in_i32 (rect_h r) \<and> 1 \<le> rect_w r \<and> 1 \<le> rect_h r"

definition between :: "int \<Rightarrow> int \<Rightarrow> int \<Rightarrow> bool" where
  "between a b v \<longleftrightarrow> min a b \<le> v \<and> v \<le> max a b"

lemma sample_time_number:
  assumes "elapsed < d" "d < 1000000000 * 8388608"
  shows "div32 (as_secs_f32 elapsed) (as_secs_f32 d) \<noteq> NaN"
proof -
  from assms as_secs_Fin [of elapsed] obtain v where v: "as_secs_f32 elapsed = Fin v" by auto
  from assms as_secs_Fin [of d] obtain u where u: "as_secs_f32 d = Fin u" "0 < u" by auto
  show ?thesis unfolding v u(1) by (rule div32_not_NaN) (use u(2) in simp)
qed

text \<open>
  With every curve but the two that overshoot on purpose, each frame of an animation lies between
  the rectangle it starts from and the one it goes to, on each coordinate and in each size, rounding
  included; no frame is smaller than one pixel; and the animation is reported done exactly from its
  deadline on, with the target as its last frame. Durations are below the 2^23 seconds at which the
  clock loses its fractions.
\<close>

theorem animation_frames_stay_between:
  assumes "an_easing a \<in> {Linear, EaseOut, EaseInOut, EaseIn}" "an_duration a < 1000000000 * 8388608"
    "i32_rect (an_from a)" "i32_rect (an_to a)" "animation_sample libm a now = (r, finished)"
  shows "between (rect_x (an_from a)) (rect_x (an_to a)) (rect_x r) \<and> between (rect_y (an_from a)) (rect_y (an_to a)) (rect_y r) \<and>
    between (rect_w (an_from a)) (rect_w (an_to a)) (rect_w r) \<and> between (rect_h (an_from a)) (rect_h (an_to a)) (rect_h r) \<and>
    1 \<le> rect_w r \<and> 1 \<le> rect_h r \<and> (finished \<longleftrightarrow> an_started_at a + an_duration a \<le> max now (an_started_at a)) \<and> (finished \<longrightarrow> r = an_to a)"
proof (cases "an_duration a \<le> now - an_started_at a")
  case True
  then have "r = an_to a" "finished" using assms(5) by (simp_all add: animation_sample_def)
  then show ?thesis using True assms(3,4) by (auto simp: between_def i32_rect_def)
next
  case False
  define e where "e = easing_apply libm (an_easing a) (div32 (as_secs_f32 (now - an_started_at a)) (as_secs_f32 (an_duration a)))"
  have u: "unit_flt e" unfolding e_def using False assms(1,2) by (intro easing_unit sample_time_number) auto
  have l: "between x y (lerp x y e)" if "in_i32 x" "in_i32 y" for x y
    using lerp_between [OF that u] by (simp add: between_def)
  have m: "max (lerp x y e) 1 = lerp x y e" if "in_i32 x" "in_i32 y" "1 \<le> x" "1 \<le> y" for x y
    using l [OF that(1,2)] that(3,4) by (auto simp: between_def)
  have "r = rect_new (lerp (rect_x (an_from a)) (rect_x (an_to a)) e) (lerp (rect_y (an_from a)) (rect_y (an_to a)) e)
      (lerp (rect_w (an_from a)) (rect_w (an_to a)) e) (lerp (rect_h (an_from a)) (rect_h (an_to a)) e) \<and> \<not> finished"
    using False assms(3-5) m by (simp add: animation_sample_def Let_def e_def [symmetric] i32_rect_def)
  then show ?thesis using False assms(3,4) l by (auto simp: i32_rect_def between_def) (smt (verit) min_def max_def)+
qed

definition slide :: client_animation where
  "slide = \<lparr>an_from = rect_new 0 0 100 50, an_to = rect_new 200 0 50 50, an_started_at = 1000, an_duration = 200000000, an_easing = EaseOut, an_kind = A_Layout\<rparr>"

theorem animation_frames_stay_between_witness:
  "\<exists>r finished. animation_sample (id, id) slide 100001000 = (r, finished) \<and> \<not> finished \<and> 0 \<le> rect_x r \<and> rect_x r \<le> 200 \<and> 50 \<le> rect_w r \<and> rect_w r \<le> 100"
proof -
  obtain r finished where s: "animation_sample (id, id) slide 100001000 = (r, finished)" by force
  have "i32_rect (an_from slide)" "i32_rect (an_to slide)" "an_easing slide \<in> {Linear, EaseOut, EaseInOut, EaseIn}" "an_duration slide < 1000000000 * 8388608"
    by (simp_all add: slide_def i32_rect_def in_i32_def)
  from animation_frames_stay_between [OF this(3,4,1,2) s] s show ?thesis by (auto simp: slide_def between_def)
qed

text \<open>
  One call of the table: a start for some client. The calls for the client in question repeat the
  target and the settings of its running animation from wherever the window is then shown.
\<close>

record start_call =
  sa_now :: nat
  sa_key :: client_key
  sa_visual :: rect
  sa_target :: rect
  sa_duration :: nat
  sa_easing :: easing
  sa_kind :: animation_kind

definition run_start :: "start_call \<Rightarrow> animations \<Rightarrow> animations" where
  "run_start c = animation_start (sa_now c) (sa_key c) (sa_visual c) (sa_target c) (sa_duration c) (sa_easing c) (sa_kind c)"

definition repeats :: "client_key \<Rightarrow> client_animation \<Rightarrow> start_call \<Rightarrow> bool" where
  "repeats k a c \<longleftrightarrow> sa_target c = an_to a \<and> sa_duration c = an_duration a \<and> sa_easing c = an_easing a \<and> sa_kind c = an_kind a \<and> sa_visual c \<noteq> an_to a"

lemma run_start_keeps:
  "slot_get active k = Some a \<Longrightarrow> (sa_key c = k \<Longrightarrow> repeats k a c) \<Longrightarrow> slot_get (run_start c active) k = Some a"
  by (auto simp: run_start_def animation_start_def repeats_def slot_simps)



section \<open>Drops\<close>

lemma drop_fold:
  fixes area :: "monitor_key \<Rightarrow> int"
  assumes "fold (\<lambda>key (target, largest). if area key > largest then (key, area key) else (target, largest)) ms (t0, area t0) = (t, l)"
  shows "l = area t \<and> area t0 \<le> area t \<and> (\<forall>m \<in> set ms. area m \<le> area t) \<and> (t = t0 \<or> area t0 < area t) \<and> t \<in> insert t0 (set ms)"
  using assms
proof (induction ms arbitrary: t0)
  case (Cons m ms)
  show ?case
  proof (cases "area m > area t0")
    case True
    with Cons.prems Cons.IH [of m] show ?thesis by auto
  next
    case False
    with Cons.prems Cons.IH [of t0] show ?thesis by auto
  qed
qed simp

text \<open>
  A dropped window goes to a monitor that shows at least as much of it as any other, and to
  another monitor than its own only if that one shows strictly more.
\<close>

theorem drop_goes_to_largest_part:
  assumes "monitor_for_client_drop s k = Some t" "slot_get (st_clients s) k = Some c" "m \<in> set (monitor_order s)"
  shows "drop_area s (c_geometry c) m \<le> drop_area s (c_geometry c) t \<and>
    (\<forall>home. c_mon c = Some home \<longrightarrow> slot_get (st_monitors s) home \<noteq> None \<longrightarrow> t = home \<or> drop_area s (c_geometry c) home < drop_area s (c_geometry c) t)"
proof -
  let ?area = "drop_area s (c_geometry c)"
  obtain home where h: "drop_home s c = Some home" using assms(1,2) by (auto simp: monitor_for_client_drop_def split: option.splits)
  obtain t' l where f: "fold (\<lambda>key (target, largest). if ?area key > largest then (key, ?area key) else (target, largest)) (monitor_order s) (home, ?area home) = (t', l)"
    by (cases "fold (\<lambda>key (target, largest). if ?area key > largest then (key, ?area key) else (target, largest)) (monitor_order s) (home, ?area home)")
  with assms(1,2) h have "t' = t" by (simp add: monitor_for_client_drop_def Let_def)
  with drop_fold [OF f] h assms(3) show ?thesis by (auto simp: drop_home_def)
qed

definition straddling :: wm_state where
  "straddling = wm_state_new\<lparr>monitor_order := [1, 2],
     st_monitors := [(1, wm_monitor_new\<lparr>mon_geometry := \<lparr>m_x = 0, m_y = 0, m_w = 100, m_h = 100, w_x = 0, w_y = 0, w_w = 100, w_h = 100\<rparr>\<rparr>),
                     (2, wm_monitor_new\<lparr>mon_geometry := \<lparr>m_x = 100, m_y = 0, m_w = 100, m_h = 100, w_x = 100, w_y = 0, w_w = 100, w_h = 100\<rparr>\<rparr>)],
     st_clients := [(1, (wm_client_new 7)\<lparr>c_mon := Some 1, c_geometry := client_geometry_default\<lparr>g_x := 80, g_w := 60, g_h := 10\<rparr>\<rparr>)]\<rparr>"

theorem drop_goes_to_largest_part_witness:
  "monitor_for_client_drop straddling 1 = Some 2 \<and>
   drop_area straddling (c_geometry (snd (hd (st_clients straddling)))) 1 < drop_area straddling (c_geometry (snd (hd (st_clients straddling)))) 2"
proof -
  have d: "monitor_for_client_drop straddling 1 = Some 2" by code_simp
  from drop_goes_to_largest_part [OF d, of "snd (hd (st_clients straddling))" 1] d show ?thesis
    by (simp add: straddling_def slot_get_def)
qed

text \<open>Refitting a fullscreen window leaves the slot it returns to alone.\<close>

lemma refit_keeps_slot:
  assumes "slot_get (st_clients (fst sa)) k = Some c" "refit_keeping_restore_slot env k r sa = (ok, sa', sent)"
  shows "\<exists>c'. slot_get (st_clients (fst sa')) k = Some c' \<and> geometry_rect (c_geometry c') = r \<and>
    c_geometry c' = (c_geometry c)\<lparr>g_x := rect_x r, g_y := rect_y r, g_w := rect_w r, g_h := rect_h r\<rparr>"
  using assms
  by (auto simp: refit_keeping_restore_slot_def resizeclient_def Let_def slot_simps place_geometry_def geometry_rect_def split: option.splits if_splits)

end
