(* ===== verification/Arrange.thy ===== *)
theory Arrange
  imports Window_Tabs Layout_Commands Layout_Contract Layout_Grid Constraints Animation
begin

text \<open>
  One arrange of a monitor: \<open>src/jwm/layout/implementations.rs\<close>, \<open>arrangemon\<close> of \<open>src/jwm/layout/arrange.rs\<close>,
  \<open>prepare_layout_resize\<close> and the admission and pruning of manual sizes of
  \<open>src/jwm/layout/resize.rs\<close>, and the client queries of \<open>src/jwm/layout/helpers.rs\<close>. Here the parts meet:
  the work area, the tiles of the client list, the layout engines, the strip of the scrolling
  layout, the planner of manual sizes, the size hints, and the placement of each window. The theorems
  show that an arrange places every visible tile exactly once and touches no other window.
\<close>

section \<open>Context\<close>

text \<open>
  What an arrange writes: the layout context, the animations, the bars told of a changed hint,
  and the configure requests sent to the backend, in order.
\<close>

record arranging =
  ar_cx :: layout_ctx
  ar_anims :: animations
  ar_bars :: bars
  ar_log :: "(window_id \<times> rect \<times> int) list"

record arrange_env =
  ae_cfg :: area_config
  ae_shell :: shell_state
  ae_resize_hints :: bool
  ae_fetch :: "window_id \<Rightarrow> normal_hints option option"
  ae_place :: placement_env
  ae_parse_f32 :: "string \<Rightarrow> flt option"
  ae_width_rules :: "string list"
  ae_adopting :: bool

abbreviation ar_state :: "arranging \<Rightarrow> wm_state" where "ar_state a \<equiv> cx_state (ar_cx a)"

definition set_ar_state :: "wm_state \<Rightarrow> arranging \<Rightarrow> arranging" where
  "set_ar_state s a = a\<lparr>ar_cx := (ar_cx a)\<lparr>cx_state := s\<rparr>\<rparr>"

section \<open>Which clients are tiled\<close>

definition nexttiled :: "wm_state \<Rightarrow> monitor_key \<Rightarrow> client_key option \<Rightarrow> client_key option" where
  "nexttiled s m start_from =
     (let ks = get_monitor_clients s m;
          start = (case start_from of None \<Rightarrow> 0 | Some k \<Rightarrow> (case position (\<lambda>x. x = k) ks of None \<Rightarrow> 0 | Some i \<Rightarrow> i + 1))
      in List.find (is_tile s m) (drop start ks))"

definition collect_tileable_clients :: "wm_state \<Rightarrow> monitor_key \<Rightarrow> (client_key \<times> flt \<times> int) list" where
  "collect_tileable_clients s m = List.map_filter (\<lambda>k. case slot_get (st_clients s) k of
     None \<Rightarrow> None
   | Some c \<Rightarrow> if \<not> is_floating (c_state c) \<and> is_client_visible_on_monitor s k m
       then Some (k, client_fact (c_state c), g_border_w (c_geometry c)) else None) (get_monitor_clients s m)"

definition tiled_client_border_width :: "int \<Rightarrow> bool \<Rightarrow> int" where
  "tiled_client_border_width configured undecorated = (if undecorated then 0 else configured)"

definition set_border :: "int \<Rightarrow> wm_client \<Rightarrow> wm_client" where
  "set_border b c = c\<lparr>c_geometry := (c_geometry c)\<lparr>g_border_w := b\<rparr>\<rparr>"

definition apply_smart_borders :: "area_config \<Rightarrow> monitor_key \<Rightarrow> (client_key \<times> flt \<times> int) list \<Rightarrow> wm_state \<Rightarrow> (int \<times> int) \<times> wm_state" where
  "apply_smart_borders cfg m clients s =
     (let border = wrap32 (int (cfg_border_px cfg));
          gap = (case slot_get (st_monitors s) m of None \<Rightarrow> cfg_layout_gap cfg | Some mon \<Rightarrow> ml_gap (mon_layout mon))
      in ((border, gap), s\<lparr>st_clients := fold (\<lambda>(k, _, _). slot_update k (\<lambda>c. set_border
            (tiled_client_border_width border (no_decorations (c_state c))) c)) clients (st_clients s)\<rparr>))"

definition drag_floats :: "client_state \<Rightarrow> bool" where
  "drag_floats st \<longleftrightarrow> is_floating st \<and> is_drag_floating st \<and> \<not> is_fixed st \<and> \<not> is_fullscreen st \<and> \<not> is_pip st \<and> \<not> is_dock st \<and>
     \<not> is_sticky st \<and> \<not> is_swallowed st \<and> \<not> axes_any (maximized_axes st)"

definition retile_dragged :: "wm_client \<Rightarrow> wm_client" where
  "retile_dragged c = c\<lparr>c_geometry := (let g = c_geometry c in g\<lparr>g_floating_x := g_x g, g_floating_y := g_y g, g_floating_w := g_w g, g_floating_h := g_h g\<rparr>),
     c_state := (c_state c)\<lparr>is_floating := False, is_drag_floating := False\<rparr>\<rparr>"

definition reclaim_candidates :: "wm_state \<Rightarrow> monitor_key \<Rightarrow> client_key list" where
  "reclaim_candidates s m = filter (\<lambda>k. (case slot_get (st_clients s) k of None \<Rightarrow> False | Some c \<Rightarrow> drag_floats (c_state c)) \<and>
     is_client_visible_on_monitor s k m) (get_monitor_clients s m)"

definition reclaim_one :: "client_key \<Rightarrow> wm_state \<Rightarrow> wm_state" where
  "reclaim_one k s = reorder_client_in_monitor_groups k (s\<lparr>st_clients := slot_update k retile_dragged (st_clients s)\<rparr>)"

definition reclaim_drag_floating :: "monitor_key \<Rightarrow> wm_state \<Rightarrow> nat \<times> wm_state" where
  "reclaim_drag_floating m s = (let candidates = reclaim_candidates s m in (length candidates, fold reclaim_one candidates s))"

definition get_client_y_offset :: "area_config \<Rightarrow> wm_monitor \<Rightarrow> int" where
  "get_client_y_offset cfg mon =
     (if or_else (case mon_pertag mon of None \<Rightarrow> None | Some p \<Rightarrow> vec_get (show_bars p) (cur_tag p)) True \<and>
         status_bar_position_for_monitor (bar_config.truncate cfg) (mon_num mon) = Edge_Top
      then padded_status_bar_offset (bar_height_px cfg) (bar_padding_px cfg) else 0)"

definition get_monitor_info :: "area_config \<Rightarrow> wm_state \<Rightarrow> monitor_key \<Rightarrow> int \<times> int \<times> int \<times> int \<times> flt \<times> nat \<times> int \<times> int" where
  "get_monitor_info cfg s m = (case slot_get (st_monitors s) m of
     Some mon \<Rightarrow> (w_x (mon_geometry mon), w_y (mon_geometry mon), w_w (mon_geometry mon), w_h (mon_geometry mon), ml_m_fact (mon_layout mon),
       ml_n_master (mon_layout mon), mon_num mon, get_client_y_offset cfg mon)
   | None \<Rightarrow> (0, 0, 0, 0, rnd32 (55 / 100), 1, 0, 0))"

section \<open>Collect\<close>

definition layout_inputs :: "arrange_env \<Rightarrow> monitor_key \<Rightarrow> arranging \<Rightarrow> (layout_params \<times> (client_key \<times> flt \<times> int) list) option \<times> arranging" where
  "layout_inputs env m a =
     (let (wx, wy, ww, wh, mfact, nmaster, _, _) = get_monitor_info (ae_cfg env) (ar_state a) m;
          area = or_else (monitor_work_area (ae_cfg env) (ae_shell env) (ar_state a) m) (rect_new wx wy ww wh);
          raw = collect_tileable_clients (ar_state a) m
      in if raw = [] then (None, a)
         else let ((_, gap), s) = apply_smart_borders (ae_cfg env) m raw (ar_state a)
              in (Some (\<lparr>screen_area = area, n_master = nmaster, m_fact = mfact, gap_px = gap\<rparr>, raw), set_ar_state s a))"

definition to_layout_clients :: "area_config \<Rightarrow> wm_state \<Rightarrow> (client_key \<times> flt \<times> int) list \<Rightarrow> client_key layout_client list" where
  "to_layout_clients cfg s raw = map (\<lambda>(k, factor, _). \<lparr>lc_key = k, lc_factor = factor, lc_border =
     (case slot_get (st_clients s) k of None \<Rightarrow> wrap32 (int (cfg_border_px cfg)) | Some c \<Rightarrow> g_border_w (c_geometry c))\<rparr>) raw"

section \<open>Manual sizes\<close>

definition is_layout_resize_target :: "client_key \<Rightarrow> wm_state \<Rightarrow> bool" where
  "is_layout_resize_target k s = (case slot_get (st_clients s) k of
     None \<Rightarrow> False
   | Some c \<Rightarrow>
       if is_floating (c_state c) \<or> is_fullscreen (c_state c) \<or> is_fixed (c_state c) \<or> is_maximize_realized (c_state c) \<or> is_pip (c_state c) then False
       else (case c_mon c of
         None \<Rightarrow> False
       | Some m \<Rightarrow> (case slot_get (st_monitors s) m of
           None \<Rightarrow> False
         | Some mon \<Rightarrow>
             if mon_lt mon = LAYOUT_FLOAT then False
             else let clients = collect_tileable_clients s m
                  in (case position (\<lambda>(x, _, _). x = k) clients of
                        None \<Rightarrow> False
                      | Some i \<Rightarrow>
                          if length clients = 1 \<or> ml_n_master (mon_layout mon) = 0 then True
                          else if layout_name (mon_lt mon) \<in> set [''tile'', ''fibonacci'', ''centeredmaster'', ''bstack'', ''deck'', ''threecol'']
                          then i < ml_n_master (mon_layout mon) else True))))"

fun layout_resize_hints :: "arrange_env \<Rightarrow> client_key resize_frame list \<Rightarrow> wm_state \<times> bars \<Rightarrow> (client_key, size_hints) slotmap \<times> wm_state \<times> bars" where
  "layout_resize_hints env [] sb = ([], sb)"
| "layout_resize_hints env (f # fs) sb =
     (if \<not> ae_resize_hints env then ([], sb)
      else let sb1 = snd (ensure_size_hints_valid (ae_fetch env) (rf_client f) sb);
               (hs, sb2) = layout_resize_hints env fs sb1
           in (case slot_get (st_clients (fst sb1)) (rf_client f) of
                 None \<Rightarrow> hs | Some c \<Rightarrow> (rf_client f, c_size_hints c) # hs, sb2))"

text \<open>The closure \<open>fit\<close>; a scrolling column is never wider than the usable area.\<close>

definition resize_fit :: "bool \<Rightarrow> rect \<Rightarrow> int \<Rightarrow> client_key resize_frame list \<Rightarrow> (client_key, size_hints) slotmap \<Rightarrow> client_key \<Rightarrow> int \<Rightarrow> int \<Rightarrow> int \<times> int" where
  "resize_fit scrolling area gap frames hints k w0 h =
     (let border = (case List.find (\<lambda>f. rf_client f = k) frames of None \<Rightarrow> 0 | Some f \<Rightarrow> rf_border f);
          w = (if scrolling then min w0 (to_i32 (fst (usable_content area gap border))) else w0)
      in case slot_get hints k of None \<Rightarrow> (w, h) | Some hint \<Rightarrow> calculate_constrained_size w h hint)"

definition prune_layout_resize :: "monitor_key \<Rightarrow> 32 word \<times> string \<Rightarrow> layout_ctx \<Rightarrow> layout_ctx" where
  "prune_layout_resize m scope cx =
     (if (case monitor_of cx m of None \<Rightarrow> False | Some mon \<Rightarrow> (case layout_resizes mon scope of
            None \<Rightarrow> False | Some c \<Rightarrow> \<not> rc_preparing c \<and> rc_intent c = None \<and> rc_drag_snapshot c = None))
      then update_monitor m (\<lambda>mon. mon\<lparr>layout_resizes := (layout_resizes mon)(scope := None)\<rparr>) cx else cx)"

definition resize_frames :: "wm_state \<Rightarrow> client_key layout_result list \<Rightarrow> client_key resize_frame list" where
  "resize_frames s results = map (\<lambda>r. \<lparr>rf_client = res_key r, rf_rect = res_rect r, rf_border =
     (case slot_get (st_clients s) (res_key r) of None \<Rightarrow> 0 | Some c \<Rightarrow> g_border_w (c_geometry c))\<rparr>) results"

definition frame_results :: "client_key resize_frame list \<Rightarrow> client_key layout_result list" where
  "frame_results = map (\<lambda>f. result_new (rf_client f) (rf_rect f))"

text \<open>The plan for an intent that is still wanted; \<open>None\<close> as a plan drops the override.\<close>

definition planned_results :: "arrange_env \<Rightarrow> monitor_key \<Rightarrow> 32 word \<times> string \<Rightarrow> rect \<Rightarrow> int \<Rightarrow> client_key layout_result list \<Rightarrow> client_key resize_frame list \<Rightarrow>
    client_key resize_intent \<Rightarrow> client_key resize_frame \<Rightarrow> arranging \<Rightarrow> (client_key layout_result list \<times> bool) \<times> arranging" where
  "planned_results env m scope area gap results frames intent anchor a =
     (let scrolling = (snd scope = layout_name LAYOUT_SCROLLING);
          start = intent_from_rect (rf_client anchor) (rf_rect anchor) area gap (rf_border anchor);
          (hints, s, bars) = layout_resize_hints env frames (ar_state a, ar_bars a);
          a1 = (set_ar_state s a)\<lparr>ar_bars := bars\<rparr>
      in case bounded_plan area gap frames start intent (resize_fit scrolling area gap frames hints) of
           Some (_, plan) \<Rightarrow>
             if scrolling
             then let focused = or_else (Option.bind (scrolling_state_for_monitor m (ar_cx a1))
                        (\<lambda>st. Option.bind (focused_column_index st) (vec_get (sc_columns st)))) []
                  in (case center_group area gap plan focused of
                        (centered, plan1) \<Rightarrow> if centered then ((frame_results plan1, True), a1) else ((results, False), a1))
             else ((frame_results plan, True), a1)
         | None \<Rightarrow> ((results, False), a1\<lparr>ar_cx := update_monitor m (\<lambda>mon. mon\<lparr>layout_resizes := (layout_resizes mon)(scope := None)\<rparr>) (ar_cx a1)\<rparr>))"

definition prepare_layout_resize :: "arrange_env \<Rightarrow> monitor_key \<Rightarrow> rect \<Rightarrow> int \<Rightarrow> client_key layout_result list \<Rightarrow> arranging \<Rightarrow>
    (client_key layout_result list \<times> bool) \<times> arranging" where
  "prepare_layout_resize env m area gap results a = (case layout_resize_scope m (ar_cx a) of
     None \<Rightarrow> ((results, False), a)
   | Some scope \<Rightarrow> (case Option.bind (monitor_of (ar_cx a) m) (\<lambda>mon. layout_resizes mon scope) of
       None \<Rightarrow> ((results, False), a)
     | Some context \<Rightarrow>
         let topology = map fst (collect_tileable_clients (ar_state a) m);
             frames = resize_frames (ar_state a) results;
             groups = (if snd scope = layout_name LAYOUT_SCROLLING
               then (case scrolling_state_for_monitor m (ar_cx a) of None \<Rightarrow> [] | Some st \<Rightarrow> sc_columns st) else []);
             context1 = sync_groups groups (resize_sync topology area gap frames context);
             a1 = a\<lparr>ar_cx := update_monitor m (\<lambda>mon. mon\<lparr>layout_resizes := (layout_resizes mon)(scope \<mapsto> context1)\<rparr>) (ar_cx a)\<rparr>
         in (case rc_intent context1 of
               None \<Rightarrow> ((results, False), a1\<lparr>ar_cx := prune_layout_resize m scope (ar_cx a1)\<rparr>)
             | Some intent \<Rightarrow> (case List.find (\<lambda>f. rf_client f = ri_client intent) frames of
                 None \<Rightarrow> ((results, False), a1)
               | Some anchor \<Rightarrow> planned_results env m scope area gap results frames intent anchor a1))))"

section \<open>Apply\<close>

definition apply_one :: "arrange_env \<Rightarrow> bool \<Rightarrow> client_key layout_result \<Rightarrow> arranging \<Rightarrow> arranging" where
  "apply_one env preconstrained r a =
     (let w0 = max (rect_w (res_rect r)) 1; h0 = max (rect_h (res_rect r)) 1;
          ((w, h), a1) = (if preconstrained then ((w0, h0), a)
             else case apply_size_hints_constraints (ae_fetch env) (ae_resize_hints env) (res_key r) (w0, h0) (ar_state a, ar_bars a) of
               (Inl _, (s, bars)) \<Rightarrow> ((w0, h0), (set_ar_state s a)\<lparr>ar_bars := bars\<rparr>)
             | (Inr (_, wh), (s, bars)) \<Rightarrow> (wh, (set_ar_state s a)\<lparr>ar_bars := bars\<rparr>))
      in case resizeclient (ae_place env) (res_key r) (rect_new (rect_x (res_rect r)) (rect_y (res_rect r)) w h) (ar_state a1, ar_anims a1) of
           (_, (s, anims), request) \<Rightarrow> (set_ar_state s a1)\<lparr>ar_anims := anims, ar_log := ar_log a1 @ (case request of None \<Rightarrow> [] | Some q \<Rightarrow> [q])\<rparr>)"

definition apply_layout_results :: "arrange_env \<Rightarrow> monitor_key \<Rightarrow> rect \<Rightarrow> int \<Rightarrow> client_key layout_result list \<Rightarrow> arranging \<Rightarrow> arranging" where
  "apply_layout_results env m area gap results a =
     (case prepare_layout_resize env m area gap results a of ((results1, preconstrained), a1) \<Rightarrow> fold (apply_one env preconstrained) results1 a1)"

section \<open>The layouts of a monitor\<close>

definition tiling_layout_wrapper :: "arrange_env \<Rightarrow> monitor_key \<Rightarrow> (layout_params \<Rightarrow> client_key layout_client list \<Rightarrow> client_key layout_result list) \<Rightarrow> arranging \<Rightarrow> arranging" where
  "tiling_layout_wrapper env m calc a = (case layout_inputs env m a of
     (None, a1) \<Rightarrow> a1
   | (Some (params, raw), a1) \<Rightarrow>
       apply_layout_results env m (screen_area params) (gap_px params) (calc params (to_layout_clients (ae_cfg env) (ar_state a1) raw)) a1)"

definition selected_first :: "client_key option \<Rightarrow> (client_key \<times> flt \<times> int) list \<Rightarrow> (client_key \<times> flt \<times> int) list" where
  "selected_first sel raw = (case sel of None \<Rightarrow> raw
     | Some k \<Rightarrow> (case position (\<lambda>(x, _, _). x = k) raw of None \<Rightarrow> raw | Some pos \<Rightarrow> vec_insert 0 (raw ! pos) (vec_remove pos raw)))"

definition arrange_vstack :: "arrange_env \<Rightarrow> monitor_key \<Rightarrow> arranging \<Rightarrow> arranging" where
  "arrange_vstack env m a = (case layout_inputs env m a of
     (None, a1) \<Rightarrow> a1
   | (Some (params, raw), a1) \<Rightarrow>
       let ordered = selected_first (selected_on m (ar_cx a1)) raw
       in apply_layout_results env m (screen_area params) (gap_px params) (calculate_vstack params (to_layout_clients (ae_cfg env) (ar_state a1) ordered)) a1)"

definition sync_scrolling_columns :: "scrolling_state \<Rightarrow> client_key list \<Rightarrow> client_key list \<times> scrolling_state" where
  "sync_scrolling_columns st0 visible =
     (let st1 = ensure_column_metadata st0;
          st2 = retain_non_empty_columns (st1\<lparr>sc_columns := map (filter (\<lambda>k. k \<in> set visible)) (sc_columns st1)\<rparr>);
          existing = set (concat (sc_columns st2));
          fresh = filter (\<lambda>k. k \<notin> existing) visible
      in (fresh, fold insert_new_client fresh st2))"

text \<open>The default width of a rule goes to the column of a window that is new to the strip.\<close>

definition apply_default_width :: "(client_key \<Rightarrow> flt option) \<Rightarrow> client_key \<Rightarrow> scrolling_state \<Rightarrow> scrolling_state" where
  "apply_default_width widths k st = (case widths k of
     None \<Rightarrow> st
   | Some w \<Rightarrow> (case position (\<lambda>col. k \<in> set col) (sc_columns st) of
       None \<Rightarrow> st | Some i \<Rightarrow> st\<lparr>sc_width_factors := (sc_width_factors st)[i := w]\<rparr>))"

definition strip_clients :: "area_config \<Rightarrow> wm_state \<Rightarrow> client_key list \<Rightarrow> client_key layout_client list" where
  "strip_clients cfg s = map (\<lambda>k. \<lparr>lc_key = k,
     lc_factor = (case slot_get (st_clients s) k of None \<Rightarrow> Fin 1 | Some c \<Rightarrow> client_fact (c_state c)),
     lc_border = (case slot_get (st_clients s) k of None \<Rightarrow> wrap32 (int (cfg_border_px cfg)) | Some c \<Rightarrow> g_border_w (c_geometry c))\<rparr>)"

definition arrange_scrolling :: "arrange_env \<Rightarrow> monitor_key \<Rightarrow> arranging \<Rightarrow> arranging" where
  "arrange_scrolling env m a = (case layout_inputs env m a of
     (None, a1) \<Rightarrow> a1
   | (Some (params, raw), a1) \<Rightarrow>
       let visible = map fst raw;
           widths = (\<lambda>k. if k \<in> set visible then scrolling_default_column_width_for_client (ae_parse_f32 env) (ae_width_rules env) k (ar_cx a1) else None);
           sel = selected_on m (ar_cx a1)
       in (case scrolling_state_or_default m (ar_cx a1) of
             None \<Rightarrow> a1
           | Some st0 \<Rightarrow>
               let (fresh, st1) = sync_scrolling_columns st0 visible;
                   st2 = fold (apply_default_width widths) fresh st1;
                   st3 = (case sel of None \<Rightarrow> st2 | Some k \<Rightarrow> remember_focus k st2);
                   focus_col = or_else (focused_column_index st3) 0;
                   a2 = a1\<lparr>ar_cx := put_strip m st3 (ar_cx a1)\<rparr>;
                   (results, vp) = calculate_scrolling \<lparr>sp_area = screen_area params, column_width_ratio = m_fact params,
                     column_width_factors = sc_width_factors st3, sp_gap = gap_px params, sp_viewport_x = sc_viewport_x st3\<rparr>
                     (map (strip_clients (ae_cfg env) (ar_state a2)) (sc_columns st3)) focus_col;
                   a3 = a2\<lparr>ar_cx := put_strip m (st3\<lparr>sc_viewport_x := vp\<rparr>) (ar_cx a2)\<rparr>
               in apply_layout_results env m (screen_area params) (gap_px params) results a3))"

definition arrange_fullscreen :: "arrange_env \<Rightarrow> monitor_key \<Rightarrow> arranging \<Rightarrow> arranging" where
  "arrange_fullscreen env m a = (case slot_get (st_monitors (ar_state a)) m of
     None \<Rightarrow> a
   | Some mon \<Rightarrow>
       let raw = collect_tileable_clients (ar_state a) m
       in if raw = [] then a
          else let s = (ar_state a)\<lparr>st_clients := fold (\<lambda>(k, _, _). slot_update k (set_border 0)) raw (st_clients (ar_state a))\<rparr>;
                   clients = map (\<lambda>(k, factor, _). \<lparr>lc_key = k, lc_factor = factor, lc_border = 0\<rparr>) raw;
                   params = \<lparr>screen_area = physical_rect mon, n_master = 0, m_fact = Fin 0, gap_px = 0\<rparr>
               in apply_layout_results env m (screen_area params) (gap_px params) (calculate_fullscreen params clients) (set_ar_state s a))"

fun decimal :: "nat \<Rightarrow> string" where
  "decimal n = (let d = [char_of (48 + n mod 10)] in if n < 10 then d else decimal (n div 10) @ d)"

definition set_symbol :: "monitor_key \<Rightarrow> string \<Rightarrow> arranging \<Rightarrow> arranging" where
  "set_symbol m symbol a = a\<lparr>ar_cx := update_monitor m (\<lambda>mon. mon\<lparr>mon_lt_symbol := symbol\<rparr>) (ar_cx a)\<rparr>"

definition arrange_monocle :: "arrange_env \<Rightarrow> monitor_key \<Rightarrow> arranging \<Rightarrow> arranging" where
  "arrange_monocle env m a =
     (let (wx, wy, ww, wh, _, _, _, _) = get_monitor_info (ae_cfg env) (ar_state a) m;
          shown = length (filter (\<lambda>k. is_client_visible_on_monitor (ar_state a) k m) (get_monitor_clients (ar_state a) m));
          a1 = (if shown > 0 then set_symbol m (''['' @ decimal shown @ '']'') a else a);
          raw = collect_tileable_clients (ar_state a1) m
      in if raw = [] then a1
         else let (_, s) = apply_smart_borders (ae_cfg env) m raw (ar_state a1);
                  a2 = set_ar_state s a1;
                  clients = to_layout_clients (ae_cfg env) (ar_state a2) raw;
                  area = or_else (monitor_work_area (ae_cfg env) (ae_shell env) (ar_state a2) m) (rect_new wx wy ww wh);
                  params = \<lparr>screen_area = area, n_master = 0, m_fact = Fin 0, gap_px = 0\<rparr>
              in apply_layout_results env m (screen_area params) (gap_px params) (calculate_monocle params clients) a2)"

definition drop_stale_resize :: "monitor_key \<Rightarrow> arranging \<Rightarrow> arranging" where
  "drop_stale_resize m a = (case layout_resize_scope m (ar_cx a) of
     None \<Rightarrow> a
   | Some scope \<Rightarrow>
       if Option.bind (monitor_of (ar_cx a) m) (\<lambda>mon. layout_resizes mon scope) \<noteq> None \<and> collect_tileable_clients (ar_state a) m = []
       then a\<lparr>ar_cx := update_monitor m (\<lambda>mon. mon\<lparr>layout_resizes := (layout_resizes mon)(scope := None)\<rparr>) (ar_cx a)\<rparr> else a)"

definition wrapped_engine :: "string \<Rightarrow> (layout_params \<Rightarrow> client_key layout_client list \<Rightarrow> client_key layout_result list) option" where
  "wrapped_engine name = map_of [(''tile'', calculate_tile), (''fibonacci'', calculate_fibonacci), (''centeredmaster'', calculate_centered_master),
     (''bstack'', calculate_bstack), (''grid'', calculate_grid), (''deck'', calculate_deck), (''threecol'', calculate_three_col), (''tatami'', calculate_tatami)] name"

definition run_layout :: "arrange_env \<Rightarrow> monitor_key \<Rightarrow> string \<Rightarrow> arranging \<Rightarrow> arranging" where
  "run_layout env m name a = (case wrapped_engine name of
     Some calc \<Rightarrow> tiling_layout_wrapper env m calc a
   | None \<Rightarrow>
       if name = ''monocle'' then arrange_monocle env m a
       else if name = ''fullscreen'' then arrange_fullscreen env m a
       else if name = ''scrolling'' then arrange_scrolling env m a
       else if name = ''vstack'' then arrange_vstack env m a
       else a)"

definition arrangemon :: "arrange_env \<Rightarrow> monitor_key \<Rightarrow> arranging \<Rightarrow> arranging" where
  "arrangemon env m a =
     (if ae_adopting env then a
      else case slot_get (st_monitors (ar_state a)) m of
        None \<Rightarrow> a
      | Some mon \<Rightarrow>
          let a1 = set_symbol m (layout_symbol (mon_lt mon)) a;
              a2 = (if mon_lt mon \<noteq> LAYOUT_FLOAT then drop_stale_resize m a1 else a1)
          in run_layout env m (layout_name (mon_lt mon)) a2)"

section \<open>What an arrange leaves alone\<close>

text \<open>The part of a client that decides whether it is a tile, with its window, its monitor and where it is parked.\<close>

definition skeleton :: "wm_client \<Rightarrow> window_id \<times> 32 word \<times> bool \<times> bool \<times> bool \<times> bool \<times> bool \<times> monitor_key option \<times> int option \<times> rect option" where
  "skeleton c = (c_win c, cs_tags (c_state c), is_floating (c_state c), is_hidden (c_state c), is_swallowed (c_state c), is_sticky (c_state c),
     is_dock (c_state c), c_mon c, g_hidden_x (c_geometry c), g_hidden_restore_rect (c_geometry c))"

definition keeps :: "client_key set \<Rightarrow> wm_state \<Rightarrow> wm_state \<Rightarrow> bool" where
  "keeps K s s' \<longleftrightarrow> (\<forall>k. k \<notin> K \<longrightarrow> slot_get (st_clients s') k = slot_get (st_clients s) k) \<and>
     (\<forall>k. map_option skeleton (slot_get (st_clients s') k) = map_option skeleton (slot_get (st_clients s) k)) \<and>
     monitor_clients s' = monitor_clients s \<and> monitor_stack s' = monitor_stack s \<and>
     (\<forall>m. map_option get_active_tags (slot_get (st_monitors s') m) = map_option get_active_tags (slot_get (st_monitors s) m))"

lemma keeps_refl [simp]: "keeps K s s"
  by (simp add: keeps_def)

lemma keeps_trans: "keeps K s t \<Longrightarrow> keeps K t u \<Longrightarrow> keeps K s u"
  by (simp add: keeps_def)

lemma keeps_client:
  "k \<in> K \<Longrightarrow> (\<And>c. skeleton (f c) = skeleton c) \<Longrightarrow> keeps K s (s\<lparr>st_clients := slot_update k f (st_clients s)\<rparr>)"
  by (auto simp: keeps_def slot_simps option.map_comp comp_def)

lemma keeps_clients:
  assumes "\<And>k c. skeleton (f k c) = skeleton c" "set ks \<subseteq> K"
  shows "keeps K s (s\<lparr>st_clients := fold (\<lambda>k. slot_update k (f k)) ks (st_clients s)\<rparr>)"
  using assms(2)
proof (induction ks arbitrary: s)
  case (Cons k ks)
  have "keeps K s (s\<lparr>st_clients := slot_update k (f k) (st_clients s)\<rparr>)" using Cons.prems assms(1) by (intro keeps_client) auto
  from keeps_trans [OF this Cons.IH] Cons.prems show ?case by simp
qed simp

lemma keeps_monitor:
  "(\<And>mon. get_active_tags (f mon) = get_active_tags mon) \<Longrightarrow> keeps K (cx_state cx) (cx_state (update_monitor m f cx))"
  by (auto simp: keeps_def update_monitor_def slot_simps option.map_comp comp_def)

lemma active_tags_simps [simp]:
  "get_active_tags (mon\<lparr>layout_resizes := x\<rparr>) = get_active_tags mon" "get_active_tags (mon\<lparr>mon_lt_symbol := y\<rparr>) = get_active_tags mon"
  by (simp_all add: get_active_tags_def tag_at_def)

lemma visible_from_skeleton:
  "is_client_visible_on_monitor s k m \<longleftrightarrow> (\<exists>w tags fl hid sw st pk t. map_option skeleton (slot_get (st_clients s) k) = Some (w, tags, fl, hid, sw, st, pk) \<and>
     map_option get_active_tags (slot_get (st_monitors s) m) = Some t \<and> \<not> sw \<and> \<not> hid \<and> (st \<or> tags AND t > 0))"
  by (auto simp: is_client_visible_on_monitor_def skeleton_def split: option.splits)

lemma tile_from_skeleton:
  "is_tile s m k \<longleftrightarrow> (\<exists>w tags hid sw st pk. map_option skeleton (slot_get (st_clients s) k) = Some (w, tags, False, hid, sw, st, pk)) \<and> is_client_visible_on_monitor s k m"
  by (auto simp: is_tile_def skeleton_def split: option.splits)

lemma keeps_tile:
  assumes "keeps K s s'"
  shows "is_tile s' = is_tile s" "get_monitor_clients s' = get_monitor_clients s" "is_client_visible_on_monitor s' = is_client_visible_on_monitor s"
  using assms by (simp_all add: keeps_def tile_from_skeleton visible_from_skeleton get_monitor_clients_def fun_eq_iff)

definition tiles :: "wm_state \<Rightarrow> monitor_key \<Rightarrow> client_key list" where
  "tiles s m = filter (is_tile s m) (get_monitor_clients s m)"

lemma collect_keys: "map fst (collect_tileable_clients s m) = tiles s m"
proof -
  have "map fst (List.map_filter (\<lambda>k. case slot_get (st_clients s) k of None \<Rightarrow> None
     | Some c \<Rightarrow> if \<not> is_floating (c_state c) \<and> is_client_visible_on_monitor s k m then Some (k, client_fact (c_state c), g_border_w (c_geometry c)) else None) ks) =
     filter (is_tile s m) ks" for ks
    by (induction ks) (auto simp: map_filter_simps is_tile_def split: option.splits)
  then show ?thesis by (simp add: collect_tileable_clients_def tiles_def)
qed

lemma tiles_exist: "k \<in> set (tiles s m) \<Longrightarrow> slot_get (st_clients s) k \<noteq> None"
  by (auto simp: tiles_def is_tile_def split: option.splits)

section \<open>Placing one window\<close>

lemma skeleton_simps [simp]:
  "skeleton (set_border b c) = skeleton c" "skeleton (c\<lparr>c_geometry := place_geometry r (c_geometry c)\<rparr>) = skeleton c"
  by (simp_all add: skeleton_def set_border_def place_geometry_def)

lemma refresh_skeleton: "skeleton (snd (refresh_client_size_hints fetch c)) = skeleton c"
  by (auto simp: refresh_client_size_hints_def skeleton_def split: option.splits)

lemma keeps_hints: "k \<in> K \<Longrightarrow> keeps K (fst sb) (fst (snd (ensure_size_hints_valid fetch k sb)))"
proof -
  assume k: "k \<in> K"
  have "keeps K (fst sb) (fst (snd (updatesizehints fetch k sb)))"
  proof (cases "slot_get (st_clients (fst sb)) k")
    case (Some c)
    obtain e c' where r: "refresh_client_size_hints fetch c = (e, c')" by fastforce
    have "keeps K (fst sb) ((fst sb)\<lparr>st_clients := slot_update k (\<lambda>_. c') (st_clients (fst sb))\<rparr>)"
      using refresh_skeleton [of fetch c] k Some by (auto simp: r keeps_def slot_simps)
    then show ?thesis by (cases e) (simp_all add: updatesizehints_def Some r Let_def)
  qed (simp add: updatesizehints_def)
  then show ?thesis by (simp add: ensure_size_hints_valid_def)
qed

lemma apply_hints_result:
  assumes "apply_size_hints_constraints fetch rh k wh sb = (res, sb')" "k \<in> K"
  shows "keeps K (fst sb) (fst sb')" "res = Inr (ch, w, h) \<Longrightarrow> 1 \<le> fst wh \<Longrightarrow> 1 \<le> snd wh \<Longrightarrow> 1 \<le> w \<and> 1 \<le> h"
proof -
  show "keeps K (fst sb) (fst sb')"
    using assms(1) keeps_hints [OF assms(2), of sb fetch]
    by (auto simp: apply_size_hints_constraints_def Let_def split: if_splits prod.splits sum.splits option.splits)
  show "1 \<le> w \<and> 1 \<le> h" if "res = Inr (ch, w, h)" "1 \<le> fst wh" "1 \<le> snd wh"
    using assms(1) that calculate_pos [of "fst wh" "snd wh" _ w h]
    by (auto simp: apply_size_hints_constraints_def Let_def split: if_splits prod.splits sum.splits option.splits)
qed

definition rect_of :: "wm_state \<Rightarrow> client_key \<Rightarrow> rect" where
  "rect_of s k = (case slot_get (st_clients s) k of None \<Rightarrow> rect_new 0 0 0 0 | Some c \<Rightarrow> geometry_rect (c_geometry c))"

definition win_of :: "wm_state \<Rightarrow> client_key \<Rightarrow> window_id" where
  "win_of s k = (case slot_get (st_clients s) k of None \<Rightarrow> 0 | Some c \<Rightarrow> c_win c)"

lemma win_of_skeleton: "win_of s k = (case map_option skeleton (slot_get (st_clients s) k) of None \<Rightarrow> 0 | Some x \<Rightarrow> fst x)"
  by (simp add: win_of_def skeleton_def split: option.split)

lemma keeps_win: "keeps K s s' \<Longrightarrow> win_of s' = win_of s"
  by (simp add: keeps_def win_of_skeleton fun_eq_iff)

lemma keeps_exists: "keeps K s s' \<Longrightarrow> slot_get (st_clients s') k = None \<longleftrightarrow> slot_get (st_clients s) k = None"
proof -
  assume "keeps K s s'"
  then have "map_option skeleton (slot_get (st_clients s') k) = map_option skeleton (slot_get (st_clients s) k)" by (simp add: keeps_def)
  then show ?thesis by (metis map_option_is_None)
qed

lemma keeps_mono: "keeps K s s' \<Longrightarrow> K \<subseteq> L \<Longrightarrow> keeps L s s'"
  by (auto simp: keeps_def)

lemma resizeclient_places:
  assumes "slot_get (st_clients s) k = Some c" "resizeclient env k r (s, an) = (ok, (s', an'), req)"
  shows "keeps {k} s s'" "rect_of s' k = r" "\<exists>q. req = Some (c_win c, q)"
proof -
  have e: "s' = s\<lparr>st_clients := slot_update k (\<lambda>c. c\<lparr>c_geometry := place_geometry r (c_geometry c)\<rparr>) (st_clients s)\<rparr>"
    "\<exists>q. req = Some (c_win c, q)"
    using assms by (auto simp: resizeclient_def Let_def split: option.splits prod.splits if_splits)
  show "\<exists>q. req = Some (c_win c, q)" by (rule e)
  show "keeps {k} s s'" unfolding e(1) by (rule keeps_client) simp_all
  show "rect_of s' k = r" unfolding e(1) by (simp add: rect_of_def slot_simps assms(1) geometry_rect_def place_geometry_def rect_new_def)
qed

lemma set_ar_state_simps [simp]:
  "ar_state (set_ar_state s a) = s" "ar_anims (set_ar_state s a) = ar_anims a" "ar_bars (set_ar_state s a) = ar_bars a" "ar_log (set_ar_state s a) = ar_log a"
  by (simp_all add: set_ar_state_def)

lemma apply_one_places:
  assumes "k = res_key r" "slot_get (st_clients (ar_state a)) k \<noteq> None" "a' = apply_one env pre r a"
  shows "keeps {k} (ar_state a) (ar_state a')" "\<exists>q. ar_log a' = ar_log a @ [(win_of (ar_state a) k, q)]"
    "rect_x (rect_of (ar_state a') k) = rect_x (res_rect r)" "rect_y (rect_of (ar_state a') k) = rect_y (res_rect r)"
    "1 \<le> rect_w (rect_of (ar_state a') k)" "1 \<le> rect_h (rect_of (ar_state a') k)"
proof -
  obtain w h a1 where wh: "(if pre then ((max (rect_w (res_rect r)) 1, max (rect_h (res_rect r)) 1), a)
      else case apply_size_hints_constraints (ae_fetch env) (ae_resize_hints env) (res_key r) (max (rect_w (res_rect r)) 1, max (rect_h (res_rect r)) 1) (ar_state a, ar_bars a) of
        (Inl _, (s, bars)) \<Rightarrow> ((max (rect_w (res_rect r)) 1, max (rect_h (res_rect r)) 1), (set_ar_state s a)\<lparr>ar_bars := bars\<rparr>)
      | (Inr (_, wh), (s, bars)) \<Rightarrow> (wh, (set_ar_state s a)\<lparr>ar_bars := bars\<rparr>)) = ((w, h), a1)" (is "?sz = _")
    by (cases ?sz) auto
  obtain res sb' where ap: "apply_size_hints_constraints (ae_fetch env) (ae_resize_hints env) (res_key r)
      (max (rect_w (res_rect r)) 1, max (rect_h (res_rect r)) 1) (ar_state a, ar_bars a) = (res, sb')" by (metis prod.collapse)
  note hr = apply_hints_result [OF ap, of "{k}"]
  have s1: "keeps {k} (ar_state a) (ar_state a1)" "1 \<le> w" "1 \<le> h" "ar_log a1 = ar_log a"
    using wh hr(1) hr(2) [of _ w h] assms(1) unfolding ap by (auto split: if_splits sum.splits prod.splits)
  obtain c where c: "slot_get (st_clients (ar_state a1)) k = Some c" using keeps_exists [OF s1(1), of k] assms(2) by auto
  obtain ok s2 an2 req where rz: "resizeclient (ae_place env) k (rect_new (rect_x (res_rect r)) (rect_y (res_rect r)) w h) (ar_state a1, ar_anims a1) = (ok, (s2, an2), req)"
    by (metis prod_cases3 prod.collapse)
  note rp = resizeclient_places [OF c rz]
  obtain q where q: "req = Some (c_win c, q)" using rp(3) by blast
  have a': "a' = (set_ar_state s2 a1)\<lparr>ar_anims := an2, ar_log := ar_log a1 @ [(c_win c, q)]\<rparr>"
    unfolding assms(3) apply_one_def Let_def wh using rz assms(1) q by simp
  show "keeps {k} (ar_state a) (ar_state a')" using keeps_trans [OF s1(1) rp(1)] by (simp add: a')
  have "c_win c = win_of (ar_state a) k" using keeps_win [OF s1(1)] c by (metis option.simps(5) win_of_def)
  then show "\<exists>q. ar_log a' = ar_log a @ [(win_of (ar_state a) k, q)]" by (simp add: a' s1(4))
  have R: "rect_of (ar_state a') k = rect_new (rect_x (res_rect r)) (rect_y (res_rect r)) w h" using rp(2) by (simp add: a')
  show "rect_x (rect_of (ar_state a') k) = rect_x (res_rect r)" "rect_y (rect_of (ar_state a') k) = rect_y (res_rect r)"
    "1 \<le> rect_w (rect_of (ar_state a') k)" "1 \<le> rect_h (rect_of (ar_state a') k)" using s1 by (simp_all add: R)
qed

text \<open>Placing a list of results: each window once, at its own position.\<close>

lemma apply_all_places:
  assumes "distinct (map res_key rs)" "\<forall>r \<in> set rs. slot_get (st_clients (ar_state a)) (res_key r) \<noteq> None" "a' = fold (apply_one env pre) rs a"
  shows "keeps (set (map res_key rs)) (ar_state a) (ar_state a') \<and>
    (\<exists>log. ar_log a' = ar_log a @ log \<and> map fst log = map (win_of (ar_state a)) (map res_key rs)) \<and>
    (\<forall>r \<in> set rs. rect_x (rect_of (ar_state a') (res_key r)) = rect_x (res_rect r) \<and> rect_y (rect_of (ar_state a') (res_key r)) = rect_y (res_rect r) \<and>
       1 \<le> rect_w (rect_of (ar_state a') (res_key r)) \<and> 1 \<le> rect_h (rect_of (ar_state a') (res_key r)))"
  using assms
proof (induction rs arbitrary: a)
  case (Cons r rs)
  obtain b where b: "b = apply_one env pre r a" by blast
  have e: "slot_get (st_clients (ar_state a)) (res_key r) \<noteq> None" using Cons.prems(2) by simp
  note one = apply_one_places [OF refl e b]
  have k: "keeps {res_key r} (ar_state a) (ar_state b)" using one(1) by simp
  have ih: "keeps (set (map res_key rs)) (ar_state b) (ar_state a') \<and>
    (\<exists>log. ar_log a' = ar_log b @ log \<and> map fst log = map (win_of (ar_state b)) (map res_key rs)) \<and>
    (\<forall>r \<in> set rs. rect_x (rect_of (ar_state a') (res_key r)) = rect_x (res_rect r) \<and> rect_y (rect_of (ar_state a') (res_key r)) = rect_y (res_rect r) \<and>
       1 \<le> rect_w (rect_of (ar_state a') (res_key r)) \<and> 1 \<le> rect_h (rect_of (ar_state a') (res_key r)))"
    using Cons.prems keeps_exists [OF k] by (intro Cons.IH) (auto simp: b)
  have "rect_of (ar_state a') (res_key r) = rect_of (ar_state b) (res_key r)"
    using ih Cons.prems(1) by (simp add: keeps_def rect_of_def)
  moreover have "keeps (set (map res_key (r # rs))) (ar_state a) (ar_state a')"
    using keeps_trans [OF keeps_mono [OF k] keeps_mono [OF conjunct1 [OF ih]]] by auto
  moreover have "\<exists>log. ar_log a' = ar_log a @ log \<and> map fst log = map (win_of (ar_state a)) (map res_key (r # rs))"
    using one(2) ih keeps_win [OF k] by auto
  ultimately show ?case using ih one(3-6) by auto
qed simp

section \<open>Manual sizes keep the windows\<close>

lemma resize_hints_keep: "rf_client ` set fs \<subseteq> K \<Longrightarrow> keeps K (fst sb) (fst (snd (layout_resize_hints env fs sb)))"
proof (induction fs arbitrary: sb)
  case (Cons f fs)
  obtain sb1 where sb1: "sb1 = snd (ensure_size_hints_valid (ae_fetch env) (rf_client f) sb)" by blast
  have "keeps K (fst sb) (fst sb1)" unfolding sb1 using Cons.prems by (intro keeps_hints) simp
  moreover have "keeps K (fst sb1) (fst (snd (layout_resize_hints env fs sb1)))" using Cons.IH [of sb1] Cons.prems by simp
  moreover obtain hs s bars where "layout_resize_hints env fs sb1 = (hs, s, bars)" by (metis prod_cases3)
  ultimately show ?case using keeps_trans [of K "fst sb" "fst sb1" s] by (simp add: sb1 [symmetric] Let_def)
qed simp

lemma bounded_plan_clients:
  assumes "bounded_plan area gap frames start wanted fit = Some (i, p)"
  shows "map rf_client p = map rf_client frames"
proof -
  have "\<exists>j. exact_plan area gap frames j fit = Some p"
  proof (cases "exact_plan area gap frames wanted fit")
    case None
    then obtain p0 where p0: "exact_plan area gap frames start fit = Some p0" using assms by (auto simp: bounded_plan_def split: if_splits option.splits)
    let ?at = "\<lambda>t. \<lparr>ri_client = ri_client wanted, ri_width = add64 (ri_width start) (mul64 (sub64 (ri_width wanted) (ri_width start)) t),
      ri_height = add64 (ri_height start) (mul64 (sub64 (ri_height wanted) (ri_height start)) t)\<rparr>"
    have "bisect_plan ?at (\<lambda>i. exact_plan area gap frames i fit) 32 (Fin 0) (Fin 1) (start, p0) = (i, p)"
      using assms None p0 by (auto simp: bounded_plan_def split: if_splits)
    then show ?thesis
      using bisect_plan_feasible [of "\<lambda>i. exact_plan area gap frames i fit" "(start, p0)" "\<lambda>_. True" ?at 32 "Fin 0" "Fin 1"] p0 by auto
  qed (use assms in \<open>auto simp: bounded_plan_def split: if_splits\<close>)
  then show ?thesis using exact_plan_safe by blast
qed

lemma center_group_clients: "center_group area gap plan grp = (c, plan') \<Longrightarrow> map rf_client plan' = map rf_client plan"
  by (auto simp: center_group_def Let_def comp_def split: prod.splits if_splits)

lemma frame_results_keys: "map res_key (frame_results fs) = map rf_client fs"
  by (simp add: frame_results_def result_new_def comp_def)

lemma resize_frames_keys: "map rf_client (resize_frames s rs) = map res_key rs"
  by (simp add: resize_frames_def comp_def)

lemma planned_results_keep:
  assumes "frames = resize_frames s0 results" "planned_results env m scope area gap results frames intent anchor a = ((rs, pre), a')"
  shows "map res_key rs = map res_key results" "keeps (set (map res_key results)) (ar_state a) (ar_state a')" "ar_log a' = ar_log a"
proof -
  obtain hints s bars where h: "layout_resize_hints env frames (ar_state a, ar_bars a) = (hints, s, bars)" by (metis prod_cases3)
  have k: "keeps (set (map res_key results)) (ar_state a) s"
  proof -
    have "rf_client ` set frames \<subseteq> set (map res_key results)" using arg_cong [OF resize_frames_keys [of s0 results], of set] by (simp add: assms(1))
    from resize_hints_keep [OF this, of "(ar_state a, ar_bars a)" env] show ?thesis unfolding h by simp
  qed
  have fc: "map rf_client frames = map res_key results" by (simp add: assms(1) resize_frames_keys)
  obtain bp where bp: "bp = bounded_plan area gap frames (intent_from_rect (rf_client anchor) (rf_rect anchor) area gap (rf_border anchor)) intent
      (resize_fit (snd scope = layout_name LAYOUT_SCROLLING) area gap frames hints)" by blast
  obtain a1 where a1: "a1 = (set_ar_state s a)\<lparr>ar_bars := bars\<rparr>" by blast
  have s1: "ar_state a1 = s" "ar_log a1 = ar_log a" by (simp_all add: a1)
  note pr = assms(2) [unfolded planned_results_def Let_def h prod.case, folded bp a1]
  have "map res_key rs = map res_key results \<and> keeps (set (map res_key results)) (ar_state a) (ar_state a') \<and> ar_log a' = ar_log a"
  proof (cases bp)
    case None
    then have "rs = results" "a' = a1\<lparr>ar_cx := update_monitor m (\<lambda>mon. mon\<lparr>layout_resizes := (layout_resizes mon)(scope := None)\<rparr>) (ar_cx a1)\<rparr>"
      using pr by simp_all
    then show ?thesis using keeps_trans [OF k keeps_monitor [of _ _ "ar_cx a1", unfolded s1]] s1 by simp
  next
    case (Some ip)
    obtain i plan where ip: "ip = (i, plan)" by fastforce
    have plan: "map rf_client plan = map res_key results" using bounded_plan_clients Some ip bp fc by metis
    have "a' = a1 \<and> (rs = results \<or> (\<exists>p. rs = frame_results p \<and> map rf_client p = map rf_client plan))"
      using pr center_group_clients [of area gap plan] unfolding Some ip by (auto split: if_splits prod.splits)
    then show ?thesis using k s1 plan by (auto simp: frame_results_keys)
  qed
  then show "map res_key rs = map res_key results" "keeps (set (map res_key results)) (ar_state a) (ar_state a')" "ar_log a' = ar_log a" by blast+
qed

lemma prepare_keeps:
  assumes "prepare_layout_resize env m area gap results a = ((rs, pre), a')"
  shows "map res_key rs = map res_key results" "keeps (set (map res_key results)) (ar_state a) (ar_state a')" "ar_log a' = ar_log a"
proof -
  have "map res_key rs = map res_key results \<and> keeps (set (map res_key results)) (ar_state a) (ar_state a') \<and> ar_log a' = ar_log a"
  proof (cases "layout_resize_scope m (ar_cx a)")
    case None
    then show ?thesis using assms by (simp add: prepare_layout_resize_def)
  next
    case (Some scope)
    show ?thesis
    proof (cases "Option.bind (monitor_of (ar_cx a) m) (\<lambda>mon. layout_resizes mon scope)")
      case None
      then show ?thesis using assms Some by (simp add: prepare_layout_resize_def)
    next
      case (Some ctx0)
      obtain ctx1 where ctx1: "ctx1 = sync_groups (if snd scope = layout_name LAYOUT_SCROLLING then (case scrolling_state_for_monitor m (ar_cx a) of None \<Rightarrow> [] | Some st \<Rightarrow> sc_columns st) else [])
          (resize_sync (map fst (collect_tileable_clients (ar_state a) m)) area gap (resize_frames (ar_state a) results) ctx0)" by blast
      obtain a1 where a1: "a1 = a\<lparr>ar_cx := update_monitor m (\<lambda>mon. mon\<lparr>layout_resizes := (layout_resizes mon)(scope \<mapsto> ctx1)\<rparr>) (ar_cx a)\<rparr>" by blast
      have k1: "keeps K (ar_state a) (ar_state a1)" for K unfolding a1 by (simp add: keeps_monitor)
      note pr = assms [unfolded prepare_layout_resize_def \<open>layout_resize_scope m (ar_cx a) = Some scope\<close> Some option.case Let_def, folded ctx1, folded a1]
      have kp: "keeps K (cx_state cx) (cx_state (prune_layout_resize m scope cx))" for K cx unfolding prune_layout_resize_def by (auto intro: keeps_monitor)
      show ?thesis
      proof (cases "rc_intent ctx1")
        case None
        then have "rs = results" "a' = a1\<lparr>ar_cx := prune_layout_resize m scope (ar_cx a1)\<rparr>" using pr by simp_all
        then show ?thesis using keeps_trans [OF k1 kp] by (simp add: a1)
      next
        case (Some intent)
        show ?thesis
        proof (cases "List.find (\<lambda>f. rf_client f = ri_client intent) (resize_frames (ar_state a) results)")
          case None
          then have "rs = results" "a' = a1" using pr Some by simp_all
          moreover have "ar_log a1 = ar_log a" by (simp add: a1)
          ultimately show ?thesis using k1 by simp
        next
          case (Some anchor)
          then have "planned_results env m scope area gap results (resize_frames (ar_state a) results) intent anchor a1 = ((rs, pre), a')"
            using pr \<open>rc_intent ctx1 = Some intent\<close> by simp
          note pk = planned_results_keep [OF refl this]
          then show ?thesis using keeps_trans [OF k1 pk(2)] by (simp add: a1)
        qed
      qed
    qed
  qed
  then show "map res_key rs = map res_key results" "keeps (set (map res_key results)) (ar_state a) (ar_state a')" "ar_log a' = ar_log a" by blast+
qed

text \<open>What an arrange that places the windows \<open>ks\<close> does: one request for each, and no other client changes.\<close>

definition arranges :: "client_key list \<Rightarrow> arranging \<Rightarrow> arranging \<Rightarrow> bool" where
  "arranges ks a a' \<longleftrightarrow> keeps (set ks) (ar_state a) (ar_state a') \<and>
     (\<exists>log. ar_log a' = ar_log a @ log \<and> mset (map fst log) = mset (map (win_of (ar_state a)) ks)) \<and>
     (\<forall>k \<in> set ks. 1 \<le> rect_w (rect_of (ar_state a') k) \<and> 1 \<le> rect_h (rect_of (ar_state a') k))"

lemma apply_results_arranges:
  assumes "mset (map res_key results) = mset ks" "distinct ks" "\<And>k. k \<in> set ks \<Longrightarrow> slot_get (st_clients (ar_state a)) k \<noteq> None"
  shows "arranges ks a (apply_layout_results env m area gap results a)"
proof -
  obtain rs pre a1 where p: "prepare_layout_resize env m area gap results a = ((rs, pre), a1)" by (metis prod.collapse)
  note pk = prepare_keeps [OF p]
  have keys: "set (map res_key results) = set ks" "distinct (map res_key rs)" "mset (map res_key rs) = mset ks"
    unfolding pk(1) using assms(1,2) by (metis mset_eq_setD, metis mset_eq_imp_distinct_iff, simp only:)
  have ex: "\<forall>r \<in> set rs. slot_get (st_clients (ar_state a1)) (res_key r) \<noteq> None"
  proof
    fix r assume "r \<in> set rs"
    then have "res_key r \<in> set ks" using keys(3) by (metis image_eqI list.set_map mset_eq_setD)
    then show "slot_get (st_clients (ar_state a1)) (res_key r) \<noteq> None" using keeps_exists [OF pk(2), of "res_key r"] assms(3) by simp
  qed
  note all = apply_all_places [OF keys(2) ex refl, of env pre]
  have app: "apply_layout_results env m area gap results a = fold (apply_one env pre) rs a1" by (simp add: apply_layout_results_def p)
  have rk: "set (map res_key rs) = set ks" using keys(3) by (metis mset_eq_setD)
  show ?thesis unfolding arranges_def app
  proof (intro conjI)
    show "keeps (set ks) (ar_state a) (ar_state (fold (apply_one env pre) rs a1))"
      using keeps_trans [OF pk(2) [unfolded keys(1)]] all rk by simp
    obtain log where log: "ar_log (fold (apply_one env pre) rs a1) = ar_log a1 @ log" "map fst log = map (win_of (ar_state a1)) (map res_key rs)" using all by blast
    have "mset (map fst log) = mset (map (win_of (ar_state a)) ks)"
      unfolding log(2) keeps_win [OF pk(2)] by (metis keys(3) mset_map)
    then show "\<exists>log. ar_log (fold (apply_one env pre) rs a1) = ar_log a @ log \<and> mset (map fst log) = mset (map (win_of (ar_state a)) ks)"
      using log(1) pk(3) by auto
    show "\<forall>k \<in> set ks. 1 \<le> rect_w (rect_of (ar_state (fold (apply_one env pre) rs a1)) k) \<and> 1 \<le> rect_h (rect_of (ar_state (fold (apply_one env pre) rs a1)) k)"
      unfolding rk [symmetric] using all by simp
  qed
qed

lemma arranges_after:
  assumes "keeps (set ks) (ar_state a) (ar_state b)" "ar_log b = ar_log a" "arranges ks b a'"
  shows "arranges ks a a'"
  using assms(3) keeps_trans [OF assms(1)] keeps_win [OF assms(1)] assms(2) by (auto simp: arranges_def)

section \<open>The layouts place their tiles\<close>

lemma fold_fst: "fold (\<lambda>(k, _, _). g k) raw x = fold g (map fst raw) x"
  by (induction raw arbitrary: x) auto

lemma smart_borders_keep:
  "keeps (set (map fst raw)) s (snd (apply_smart_borders cfg m raw s))"
  unfolding apply_smart_borders_def Let_def snd_conv fold_fst by (rule keeps_clients) simp_all

lemma layout_inputs_SomeD:
  assumes "layout_inputs env m a = (Some (params, raw), a1)"
  shows "map fst raw = tiles (ar_state a) m" "keeps (set (tiles (ar_state a) m)) (ar_state a) (ar_state a1)" "ar_log a1 = ar_log a"
    "cx_strips (ar_cx a1) = cx_strips (ar_cx a)" "monitor_of (ar_cx a1) m = monitor_of (ar_cx a) m"
proof -
  have e: "raw = collect_tileable_clients (ar_state a) m" "a1 = set_ar_state (snd (apply_smart_borders (ae_cfg env) m raw (ar_state a))) a"
    using assms by (auto simp: layout_inputs_def Let_def split: prod.splits if_splits)
  show k: "map fst raw = tiles (ar_state a) m" by (simp add: e(1) collect_keys)
  show "keeps (set (tiles (ar_state a) m)) (ar_state a) (ar_state a1)"
    using smart_borders_keep [of raw "ar_state a" "ae_cfg env" m] by (simp add: e(2) k)
  show "ar_log a1 = ar_log a" "cx_strips (ar_cx a1) = cx_strips (ar_cx a)" "monitor_of (ar_cx a1) m = monitor_of (ar_cx a) m"
    by (simp_all add: e(2) set_ar_state_def apply_smart_borders_def Let_def)
qed

lemma layout_inputs_NoneD: "layout_inputs env m a = (None, a1) \<Longrightarrow> tiles (ar_state a) m = [] \<and> a1 = a"
  using collect_keys [of "ar_state a" m] by (auto simp: layout_inputs_def Let_def split: prod.splits if_splits)

lemma arranges_nothing: "arranges [] a a"
  by (simp add: arranges_def)

text \<open>Any engine that answers with each tile once makes its layout place the tiles.\<close>

lemma engine_arranges:
  assumes "layout_inputs env m a = (Some (params, raw), a1)" "distinct (tiles (ar_state a) m)" "mset (map res_key results) = mset (tiles (ar_state a) m)"
    "ar_state a2 = ar_state a1" "ar_log a2 = ar_log a1"
  shows "arranges (tiles (ar_state a) m) a (apply_layout_results env m area gap results a2)"
proof -
  note li = layout_inputs_SomeD [OF assms(1)]
  have "\<And>k. k \<in> set (tiles (ar_state a) m) \<Longrightarrow> slot_get (st_clients (ar_state a2)) k \<noteq> None"
    using tiles_exist keeps_exists [OF li(2)] assms(4) by metis
  from apply_results_arranges [OF assms(3,2) this] show ?thesis
    by (rule arranges_after [rotated 2]) (use li assms(4,5) in simp_all)
qed

lemma layout_client_keys: "map lc_key (to_layout_clients cfg s raw) = map fst raw"
  by (simp add: to_layout_clients_def comp_def case_prod_beta)

lemma wrapper_arranges:
  assumes "arranger calc" "distinct (tiles (ar_state a) m)" "int (length (tiles (ar_state a) m)) \<le> 1073741824"
  shows "arranges (tiles (ar_state a) m) a (tiling_layout_wrapper env m calc a)"
proof (cases "layout_inputs env m a")
  case (Pair inputs a1)
  show ?thesis
  proof (cases inputs)
    case None
    then show ?thesis using layout_inputs_NoneD [of env m a a1] Pair arranges_nothing by (simp add: tiling_layout_wrapper_def)
  next
    case (Some pr)
    obtain params raw where pr: "pr = (params, raw)" by fastforce
    note li = Pair [unfolded Some pr]
    have "mset (map res_key (calc params (to_layout_clients (ae_cfg env) (ar_state a1) raw))) = mset (tiles (ar_state a) m)"
      using arranger.once [OF assms(1), of "to_layout_clients (ae_cfg env) (ar_state a1) raw" params] assms(3)
        layout_client_keys [of "ae_cfg env" "ar_state a1" raw] layout_inputs_SomeD(1) [OF li] by (metis length_map)
    from engine_arranges [OF li assms(2) this refl refl] show ?thesis by (simp add: tiling_layout_wrapper_def li)
  qed
qed

lemma selected_first_keys: "mset (map fst (selected_first sel raw)) = mset (map fst raw)"
proof -
  have "mset (vec_insert 0 (raw ! i) (vec_remove i raw)) = mset raw" if "position P raw = Some i" for i P
    using arg_cong [OF position_split(1) [OF that], of mset] by (simp add: vec_insert_def vec_remove_def)
  then have "mset (selected_first sel raw) = mset raw" by (auto simp: selected_first_def split: option.splits)
  then show ?thesis by (metis mset_map)
qed

lemma vstack_arranges:
  assumes "distinct (tiles (ar_state a) m)"
  shows "arranges (tiles (ar_state a) m) a (arrange_vstack env m a)"
proof (cases "layout_inputs env m a")
  case (Pair inputs a1)
  show ?thesis
  proof (cases inputs)
    case None
    then show ?thesis using layout_inputs_NoneD [of env m a a1] Pair arranges_nothing by (simp add: arrange_vstack_def)
  next
    case (Some pr)
    obtain params raw where pr: "pr = (params, raw)" by fastforce
    note li = Pair [unfolded Some pr]
    obtain ordered where o: "ordered = selected_first (selected_on m (ar_cx a1)) raw" by blast
    have "mset (map res_key (calculate_vstack params (to_layout_clients (ae_cfg env) (ar_state a1) ordered))) = mset (tiles (ar_state a) m)"
      using selected_first_keys [of _ raw] layout_inputs_SomeD(1) [OF li] by (simp add: calculate_vstack_keys layout_client_keys o)
    from engine_arranges [OF li assms this refl refl] show ?thesis by (simp add: arrange_vstack_def li o Let_def)
  qed
qed

lemma fullscreen_arranges:
  assumes "distinct (tiles (ar_state a) m)" "slot_get (st_monitors (ar_state a)) m \<noteq> None"
  shows "arranges (tiles (ar_state a) m) a (arrange_fullscreen env m a)"
proof (cases "collect_tileable_clients (ar_state a) m = []")
  case True
  then show ?thesis using collect_keys [of "ar_state a" m] arranges_nothing assms(2) by (auto simp: arrange_fullscreen_def)
next
  case False
  obtain mon where mon: "slot_get (st_monitors (ar_state a)) m = Some mon" using assms(2) by blast
  obtain raw where raw: "raw = collect_tileable_clients (ar_state a) m" by blast
  obtain s where s: "s = (ar_state a)\<lparr>st_clients := fold (\<lambda>(k, _, _). slot_update k (set_border 0)) raw (st_clients (ar_state a))\<rparr>" by blast
  have k: "keeps (set (tiles (ar_state a) m)) (ar_state a) s"
    unfolding s fold_fst collect_keys [symmetric] raw by (rule keeps_clients) simp_all
  obtain results where rs: "results = calculate_fullscreen \<lparr>screen_area = physical_rect mon, n_master = 0, m_fact = Fin 0, gap_px = 0\<rparr>
      (map (\<lambda>(k, factor, _). \<lparr>lc_key = k, lc_factor = factor, lc_border = 0\<rparr>) raw)" by blast
  have m: "mset (map res_key results) = mset (tiles (ar_state a) m)"
    using collect_keys [of "ar_state a" m] by (simp add: rs calculate_fullscreen_keys raw comp_def case_prod_beta)
  have "arranges (tiles (ar_state a) m) (set_ar_state s a) (apply_layout_results env m (physical_rect mon) 0 results (set_ar_state s a))"
    using tiles_exist keeps_exists [OF k] by (intro apply_results_arranges [OF m assms(1)]) simp
  then have "arranges (tiles (ar_state a) m) a (apply_layout_results env m (physical_rect mon) 0 results (set_ar_state s a))"
    by (rule arranges_after [rotated 2]) (simp_all add: k)
  then show ?thesis using False by (simp add: arrange_fullscreen_def mon raw [symmetric] s [symmetric] rs Let_def)
qed

lemma set_symbol_keeps: "keeps K (ar_state a) (ar_state (set_symbol m sy a))" "ar_log (set_symbol m sy a) = ar_log a"
  "cx_strips (ar_cx (set_symbol m sy a)) = cx_strips (ar_cx a)"
  by (simp_all add: set_symbol_def keeps_monitor) (simp add: update_monitor_def)

lemma keeps_tiles: "keeps K s s' \<Longrightarrow> tiles s' m = tiles s m"
  by (simp add: tiles_def keeps_tile)

lemma monocle_arranges:
  assumes "distinct (tiles (ar_state a) m)"
  shows "arranges (tiles (ar_state a) m) a (arrange_monocle env m a)"
proof -
  obtain wx wy ww wh f n i o' where info: "get_monitor_info (ae_cfg env) (ar_state a) m = (wx, wy, ww, wh, f, n, i, o')" by (metis surj_pair)
  obtain a1 where a1: "a1 = (if length (filter (\<lambda>k. is_client_visible_on_monitor (ar_state a) k m) (get_monitor_clients (ar_state a) m)) > 0
      then set_symbol m (''['' @ decimal (length (filter (\<lambda>k. is_client_visible_on_monitor (ar_state a) k m) (get_monitor_clients (ar_state a) m))) @ '']'') a else a)" by blast
  have k1: "keeps K (ar_state a) (ar_state a1)" "ar_log a1 = ar_log a" for K by (simp_all add: a1 set_symbol_keeps)
  obtain raw where raw: "raw = collect_tileable_clients (ar_state a1) m" by blast
  have rk: "map fst raw = tiles (ar_state a) m" by (simp add: raw collect_keys keeps_tiles [OF k1(1)])
  note d = arrange_monocle_def Let_def info prod.case
  show ?thesis
  proof (cases "raw = []")
    case True
    then have e: "tiles (ar_state a) m = []" using rk by simp
    have "arrange_monocle env m a = a1" unfolding d a1 [symmetric] raw [symmetric] by (simp add: True)
    then show ?thesis unfolding e using k1 by (simp add: arranges_def)
  next
    case False
    obtain s where s: "s = snd (apply_smart_borders (ae_cfg env) m raw (ar_state a1))" by blast
    have k2: "keeps (set (tiles (ar_state a) m)) (ar_state a1) s" using smart_borders_keep [of raw "ar_state a1" "ae_cfg env" m] by (simp add: s rk)
    obtain p where p: "p = \<lparr>screen_area = or_else (monitor_work_area (ae_cfg env) (ae_shell env) s m) (rect_new wx wy ww wh), n_master = 0, m_fact = Fin 0, gap_px = 0\<rparr>" by blast
    have e: "arrange_monocle env m a = apply_layout_results env m (screen_area p) (gap_px p)
        (calculate_monocle p (to_layout_clients (ae_cfg env) s raw)) (set_ar_state s a1)"
      unfolding d a1 [symmetric] raw [symmetric] by (simp add: False p s case_prod_beta)
    have "arranges (tiles (ar_state a) m) (set_ar_state s a1) (arrange_monocle env m a)"
      unfolding e using tiles_exist keeps_exists [OF keeps_trans [OF k1(1) k2]]
      by (intro apply_results_arranges assms) (simp_all add: calculate_monocle_keys layout_client_keys rk flip: mset_map)
    then show ?thesis by (rule arranges_after [rotated 2]) (simp_all add: keeps_trans [OF k1(1) k2] k1(2))
  qed
qed

text \<open>
  The strip after \<open>sync_scrolling_columns\<close>: well formed, holding exactly the visible windows, once each.
\<close>

lemma insert_all_members:
  assumes "wf_scrolling st" "distinct ks" "set ks \<inter> set (concat (sc_columns st)) = {}"
  shows "wf_scrolling (fold insert_new_client ks st) \<and> mset (concat (sc_columns (fold insert_new_client ks st))) = mset (concat (sc_columns st)) + mset ks"
  using assms
proof (induction ks arbitrary: st)
  case (Cons k ks)
  have n: "k \<notin> set (concat (sc_columns st))" using Cons.prems(3) by auto
  note m = insert_new_client_members [OF Cons.prems(1) n]
  have dist: "distinct (concat (sc_columns (insert_new_client k st)))"
    using mset_eq_imp_distinct_iff [of "concat (sc_columns (insert_new_client k st))" "k # concat (sc_columns st)"] m(1) n Cons.prems(1)
    by (simp add: wf_scrolling_def)
  have w: "wf_scrolling (insert_new_client k st)" using dist m(2,3,4) by (auto simp: wf_scrolling_def)
  have "set (concat (sc_columns (insert_new_client k st))) = insert k (set (concat (sc_columns st)))"
    using arg_cong [OF m(1), of set_mset] by (simp only: set_mset_mset set_mset_add_mset_insert)
  then have "set ks \<inter> set (concat (sc_columns (insert_new_client k st))) = {}" using Cons.prems(2,3) by auto
  with Cons.IH [OF w] Cons.prems(2) m(1) show ?case by (simp add: ac_simps)
qed simp

lemma sync_columns_members:
  assumes "wf_scrolling st" "distinct visible" "sync_scrolling_columns st visible = (fresh, st')"
  shows "wf_scrolling st'" "mset (concat (sc_columns st')) = mset visible" "set fresh \<subseteq> set visible"
proof -
  obtain st1 where st1: "st1 = st\<lparr>sc_columns := map (filter (\<lambda>k. k \<in> set visible)) (sc_columns st)\<rparr>" by blast
  have c1: "concat (sc_columns st1) = filter (\<lambda>k. k \<in> set visible) (concat (sc_columns st))" by (simp add: st1 filter_concat)
  have "wf_scrolling st1" using assms(1) c1 by (simp add: wf_scrolling_def st1)
  note k = keeps_retain [OF this, unfolded keeps_strip_def]
  obtain st2 where st2: "st2 = retain_non_empty_columns st1" by blast
  have w2: "wf_scrolling st2" "mset (concat (sc_columns st2)) = mset (concat (sc_columns st1))" using k by (simp_all add: st2)
  have s2: "set (concat (sc_columns st2)) = set (concat (sc_columns st)) \<inter> set visible"
    using mset_eq_setD [OF w2(2)] unfolding c1 by auto
  have f: "fresh = filter (\<lambda>k. k \<notin> set (concat (sc_columns st2))) visible" "st' = fold insert_new_client fresh st2"
    using assms(3) ensure_metadata_id [OF assms(1)] by (auto simp: sync_scrolling_columns_def Let_def st1 [symmetric] st2 [symmetric])
  show "set fresh \<subseteq> set visible" by (auto simp: f(1))
  have "set fresh \<inter> set (concat (sc_columns st2)) = {}" "distinct fresh" using assms(2) by (auto simp: f(1))
  note i = insert_all_members [OF w2(1) this(2,1)]
  show "wf_scrolling st'" using i by (simp add: f(2))
  have "distinct (concat (sc_columns st'))" using i by (simp add: f(2) wf_scrolling_def)
  moreover have "set (concat (sc_columns st')) = set visible"
  proof -
    have "set (concat (sc_columns st')) = set (concat (sc_columns st2)) \<union> set fresh"
      using arg_cong [OF conjunct2 [OF i], of set_mset] unfolding f(2) by (simp only: set_mset_mset set_mset_union)
    then show ?thesis using s2 by (auto simp: f(1))
  qed
  ultimately show "mset (concat (sc_columns st')) = mset visible" using assms(2) set_eq_iff_mset_eq_distinct by blast
qed

lemma default_width_columns: "sc_columns (fold (apply_default_width ws) ks st) = sc_columns st"
proof -
  have "sc_columns (apply_default_width ws k st) = sc_columns st" for k st by (simp add: apply_default_width_def split: option.splits)
  then show ?thesis by (induction ks arbitrary: st) simp_all
qed

lemma remember_focus_columns: "sc_columns (remember_focus k st) = sc_columns st"
  by (simp add: remember_focus_def Let_def ensure_metadata_simps split: option.splits)

lemma scroll_loop_keys: "map res_key (scroll_window_loop sc og ah x cw cg n i y r cs) = map lc_key cs"
  by (induction cs arbitrary: i y r) (simp_all add: Let_def result_new_def)

lemma length_strip_columns: "length (strip_columns b g fs i n x) = n"
  by (induction n arbitrary: i x) (simp_all add: Let_def)

lemma scrolling_keys: "map res_key (fst (calculate_scrolling p columns focus)) = map lc_key (concat columns)"
proof -
  have "concat (map (\<lambda>x. if snd x = [] then [] else map lc_key (snd x)) (zip strip columns)) = concat (map (map lc_key) columns)"
    if "length strip = length columns" for strip :: "(int \<times> int) list"
    using that by (induction strip columns rule: list_induct2) auto
  then show ?thesis
    unfolding calculate_scrolling_def Let_def
    by (cases "columns = []") (auto simp: map_concat comp_def case_prod_beta scroll_loop_keys length_strip_columns if_distrib [of "map res_key"] cong: if_cong)
qed

lemma strip_put: "monitor_of cx m \<noteq> None \<Longrightarrow> cx_state (put_strip m st cx) = cx_state cx"
  by (auto simp: put_strip_def split: option.splits)

lemma scrolling_arranges:
  assumes "distinct (tiles (ar_state a) m)" "slot_get (st_monitors (ar_state a)) m = Some mon"
    "\<And>st. cx_strips (ar_cx a) (m, get_active_tags mon) = Some st \<Longrightarrow> wf_scrolling st"
  shows "arranges (tiles (ar_state a) m) a (arrange_scrolling env m a)"
proof (cases "layout_inputs env m a")
  case (Pair inputs a1)
  show ?thesis
  proof (cases inputs)
    case None
    then show ?thesis using layout_inputs_NoneD [of env m a a1] Pair arranges_nothing by (simp add: arrange_scrolling_def)
  next
    case (Some pr)
    obtain params raw where pr: "pr = (params, raw)" by fastforce
    note li = Pair [unfolded Some pr]
    note in1 = layout_inputs_SomeD [OF li]
    obtain st0 where st0: "scrolling_state_or_default m (ar_cx a1) = Some st0" "wf_scrolling st0"
      using assms(2,3) in1(4,5) scrolling_new_wf
      by (cases "cx_strips (ar_cx a) (m, get_active_tags mon)") (auto simp: scrolling_state_or_default_def scrolling_state_key_def or_else_def)
    obtain fresh st1 where sync: "sync_scrolling_columns st0 (map fst raw) = (fresh, st1)" by fastforce
    obtain ws where ws: "ws = (\<lambda>k. if k \<in> set (map fst raw) then scrolling_default_column_width_for_client (ae_parse_f32 env) (ae_width_rules env) k (ar_cx a1) else None)" by blast
    obtain st3 where st3: "st3 = (case selected_on m (ar_cx a1) of None \<Rightarrow> fold (apply_default_width ws) fresh st1
        | Some k \<Rightarrow> remember_focus k (fold (apply_default_width ws) fresh st1))" by blast
    have cols: "mset (concat (sc_columns st3)) = mset (tiles (ar_state a) m)"
      using sync_columns_members(2) [OF st0(2) _ sync] assms(1) in1(1)
      by (simp add: st3 default_width_columns remember_focus_columns split: option.split)
    obtain results vp where calc: "calculate_scrolling \<lparr>sp_area = screen_area params, column_width_ratio = m_fact params,
        column_width_factors = sc_width_factors st3, sp_gap = gap_px params, sp_viewport_x = sc_viewport_x st3\<rparr>
        (map (strip_clients (ae_cfg env) (ar_state a1)) (sc_columns st3)) (or_else (focused_column_index st3) 0) = (results, vp)" by fastforce
    have lk: "map lc_key (concat (map (strip_clients (ae_cfg env) (ar_state a1)) cs)) = concat cs" for cs
      by (simp add: strip_clients_def map_concat comp_def)
    have rk: "mset (map res_key results) = mset (tiles (ar_state a) m)"
      using scrolling_keys [of "\<lparr>sp_area = screen_area params, column_width_ratio = m_fact params,
        column_width_factors = sc_width_factors st3, sp_gap = gap_px params, sp_viewport_x = sc_viewport_x st3\<rparr>"
        "map (strip_clients (ae_cfg env) (ar_state a1)) (sc_columns st3)" "or_else (focused_column_index st3) 0"]
      unfolding calc fst_conv lk cols [symmetric] by (simp only:)
    obtain a3 where a3: "a3 = a1\<lparr>ar_cx := put_strip m (st3\<lparr>sc_viewport_x := vp\<rparr>) (put_strip m st3 (ar_cx a1))\<rparr>" by blast
    have mon1: "monitor_of (ar_cx a1) m \<noteq> None" using in1(5) assms(2) by simp
    have s3: "ar_state a3 = ar_state a1" "ar_log a3 = ar_log a1" "cx_state (put_strip m st3 (ar_cx a1)) = ar_state a1"
      using mon1 by (simp_all add: a3 strip_put)
    have "arrange_scrolling env m a = apply_layout_results env m (screen_area params) (gap_px params) results a3"
      unfolding arrange_scrolling_def li Let_def prod.case option.case st0(1) sync ws [symmetric] st3 [symmetric]
      by (simp add: s3(3) calc a3)
    then show ?thesis using engine_arranges [OF li assms(1) rk s3(1,2)] by simp
  qed
qed

lemma wrapped_engine_arranger: "wrapped_engine name = Some calc \<Longrightarrow> arranger calc"
  by (auto simp: wrapped_engine_def tile.arranger_axioms fibonacci.arranger_axioms centered_master.arranger_axioms bstack.arranger_axioms
      grid.arranger_axioms deck.arranger_axioms three_col.arranger_axioms tatami.arranger_axioms split: if_splits)

definition tiling_names :: "string set" where
  "tiling_names = {''tile'', ''fibonacci'', ''centeredmaster'', ''bstack'', ''grid'', ''deck'', ''threecol'', ''tatami'', ''monocle'', ''fullscreen'', ''scrolling'', ''vstack''}"

lemma run_layout_arranges:
  assumes "name \<in> tiling_names" "distinct (tiles (ar_state a) m)" "int (length (tiles (ar_state a) m)) \<le> 1073741824"
    "slot_get (st_monitors (ar_state a)) m = Some mon" "\<And>st. cx_strips (ar_cx a) (m, get_active_tags mon) = Some st \<Longrightarrow> wf_scrolling st"
  shows "arranges (tiles (ar_state a) m) a (run_layout env m name a)"
proof (cases "wrapped_engine name")
  case (Some calc)
  then show ?thesis using wrapper_arranges [OF wrapped_engine_arranger [OF Some] assms(2,3)] by (simp add: run_layout_def)
next
  case None
  then have "name \<in> {''monocle'', ''fullscreen'', ''scrolling'', ''vstack''}" using assms(1) by (auto simp: tiling_names_def wrapped_engine_def split: if_splits)
  then show ?thesis
    using None monocle_arranges [OF assms(2)] fullscreen_arranges [OF assms(2)] scrolling_arranges [OF assms(2,4,5)] vstack_arranges [OF assms(2)] assms(4)
    by (auto simp: run_layout_def)
qed

lemma drop_stale_keeps: "keeps K (ar_state a) (ar_state (drop_stale_resize m a))"
  by (simp add: drop_stale_resize_def keeps_monitor split: option.split)

lemma drop_stale_same: "ar_log (drop_stale_resize m a) = ar_log a" "cx_strips (ar_cx (drop_stale_resize m a)) = cx_strips (ar_cx a)"
  by (simp_all add: drop_stale_resize_def update_monitor_def split: option.split)

lemma tiles_distinct: "wf_lists s \<Longrightarrow> distinct (tiles s m)"
  by (cases "monitor_clients s m") (auto simp: tiles_def get_monitor_clients_def or_else_def wf_lists_def group_ok_def)

lemma arrangemon_arranges:
  assumes "\<not> ae_adopting env" "slot_get (st_monitors (ar_state a)) m = Some mon" "layout_name (mon_lt mon) \<in> tiling_names" "wf_lists (ar_state a)"
    "int (length (tiles (ar_state a) m)) \<le> 1073741824" "\<And>st. cx_strips (ar_cx a) (m, get_active_tags mon) = Some st \<Longrightarrow> wf_scrolling st"
  shows "arranges (tiles (ar_state a) m) a (arrangemon env m a)"
proof -
  obtain a2 where a2: "a2 = (if mon_lt mon \<noteq> LAYOUT_FLOAT then drop_stale_resize m (set_symbol m (layout_symbol (mon_lt mon)) a) else set_symbol m (layout_symbol (mon_lt mon)) a)" by blast
  have k: "keeps K (ar_state a) (ar_state a2)" for K
    using keeps_trans [OF set_symbol_keeps(1) drop_stale_keeps] set_symbol_keeps(1) by (simp add: a2)
  have l: "ar_log a2 = ar_log a" "cx_strips (ar_cx a2) = cx_strips (ar_cx a)" by (simp_all add: a2 set_symbol_keeps drop_stale_same)
  have "map_option get_active_tags (slot_get (st_monitors (ar_state a2)) m) = Some (get_active_tags mon)" using k assms(2) by (simp add: keeps_def)
  then obtain mon2 where mon2: "slot_get (st_monitors (ar_state a2)) m = Some mon2" "get_active_tags mon2 = get_active_tags mon" by auto
  have "arranges (tiles (ar_state a) m) a2 (run_layout env m (layout_name (mon_lt mon)) a2)"
    by (rule run_layout_arranges [where a = a2 and m = m and mon = mon2, OF assms(3), unfolded keeps_tiles [OF k] l(2) mon2(2),
          OF tiles_distinct [OF assms(4)] assms(5) mon2(1) assms(6)])
  then have "arranges (tiles (ar_state a) m) a (run_layout env m (layout_name (mon_lt mon)) a2)" by (rule arranges_after [OF k l(1)])
  then show ?thesis using assms(1,2) by (simp add: arrangemon_def a2 Let_def)
qed


section \<open>The engine's rectangles are the windows' rectangles\<close>

lemma apply_one_exact:
  assumes "k = res_key r" "slot_get (st_clients (ar_state a)) k \<noteq> None" "\<not> ae_resize_hints env" "\<not> is_client_floating (ar_state a) k"
  shows "rect_of (ar_state (apply_one env False r a)) k =
    rect_new (rect_x (res_rect r)) (rect_y (res_rect r)) (max (rect_w (res_rect r)) 1) (max (rect_h (res_rect r)) 1)"
proof -
  obtain c where c: "slot_get (st_clients (ar_state a)) k = Some c" using assms(2) by blast
  obtain w h where wh: "w = max (rect_w (res_rect r)) 1" "h = max (rect_h (res_rect r)) 1" by blast
  obtain ok s2 an2 req where rz: "resizeclient (ae_place env) k (rect_new (rect_x (res_rect r)) (rect_y (res_rect r)) w h) (ar_state a, ar_anims a) = (ok, (s2, an2), req)"
    by (metis prod_cases3 prod.collapse)
  have same: "(set_ar_state (ar_state a) a)\<lparr>ar_bars := ar_bars a\<rparr> = a" by (simp add: set_ar_state_def)
  have "ar_state (apply_one env False r a) = s2"
    using assms(3,4) rz unfolding apply_one_def wh [symmetric] assms(1)
    by (simp add: apply_size_hints_constraints_def same Let_def wh)
  then show ?thesis using resizeclient_places(2) [OF c rz] by (simp add: wh)
qed

lemma floating_from_skeleton:
  "is_client_floating s k = (case map_option skeleton (slot_get (st_clients s) k) of None \<Rightarrow> False | Some (w, t, fl, r) \<Rightarrow> fl)"
  by (simp add: is_client_floating_def skeleton_def split: option.split)

lemma keeps_floating: "keeps K s s' \<Longrightarrow> is_client_floating s' = is_client_floating s"
  by (simp add: keeps_def floating_from_skeleton fun_eq_iff)

lemma apply_all_exact:
  assumes "distinct (map res_key rs)" "\<forall>r \<in> set rs. slot_get (st_clients (ar_state a)) (res_key r) \<noteq> None \<and> \<not> is_client_floating (ar_state a) (res_key r)"
    "\<not> ae_resize_hints env" "a' = fold (apply_one env False) rs a" "r \<in> set rs"
  shows "rect_of (ar_state a') (res_key r) = rect_new (rect_x (res_rect r)) (rect_y (res_rect r)) (max (rect_w (res_rect r)) 1) (max (rect_h (res_rect r)) 1)"
  using assms(1,2,4,5)
proof (induction rs arbitrary: a)
  case (Cons q rs)
  obtain b where b: "b = apply_one env False q a" by blast
  have e: "slot_get (st_clients (ar_state a)) (res_key q) \<noteq> None" using Cons.prems(2) by simp
  note k = apply_one_places(1) [OF refl e b]
  have rest: "\<forall>r \<in> set rs. slot_get (st_clients (ar_state b)) (res_key r) \<noteq> None \<and> \<not> is_client_floating (ar_state b) (res_key r)"
    using Cons.prems(2) keeps_exists [OF k] keeps_floating [OF k] by simp
  have a': "a' = fold (apply_one env False) rs b" using Cons.prems(3) by (simp add: b)
  show ?case
  proof (cases "r = q")
    case True
    have "keeps (set (map res_key rs)) (ar_state b) (ar_state a')"
      using apply_all_places [of rs b a' env False] Cons.prems(1) rest a' by simp
    then have "rect_of (ar_state a') (res_key q) = rect_of (ar_state b) (res_key q)" using Cons.prems(1) by (simp add: keeps_def rect_of_def)
    then show ?thesis using apply_one_exact [OF refl e assms(3)] Cons.prems(2) True by (simp add: b)
  next
    case False
    then show ?thesis using Cons.IH [OF _ rest a'] Cons.prems(1,4) by simp
  qed
qed simp

text \<open>The layout's symbol and manual sizes are no input of the work area.\<close>

definition unseen :: "(wm_monitor \<Rightarrow> wm_monitor) \<Rightarrow> bool" where
  "unseen f \<longleftrightarrow> (\<forall>mon. \<exists>sy rz. f mon = mon\<lparr>mon_lt_symbol := sy, layout_resizes := rz\<rparr>)"

lemma work_area_unseen:
  assumes "unseen f" "cx' = update_monitor m f cx"
  shows "monitor_work_area cfg shell (cx_state cx') m = monitor_work_area cfg shell (cx_state cx) m"
    "get_monitor_info cfg (cx_state cx') m = get_monitor_info cfg (cx_state cx) m"
    "collect_tileable_clients (cx_state cx') m = collect_tileable_clients (cx_state cx) m"
proof -
  obtain s s' where s: "s = cx_state cx" "s' = cx_state cx'" by blast
  have tags: "get_active_tags (f mon) = get_active_tags mon" for mon
  proof -
    obtain sy rz where "f mon = mon\<lparr>mon_lt_symbol := sy, layout_resizes := rz\<rparr>" using assms(1) unfolding unseen_def by metis
    then show ?thesis by simp
  qed
  have vis: "is_client_visible_on_monitor s' = is_client_visible_on_monitor s"
    using keeps_tile(3) [OF keeps_monitor [of f "{}" cx m]] tags by (simp add: s assms(2))
  have c: "st_clients s' = st_clients s" "monitor_clients s' = monitor_clients s" "slot_get (st_monitors s') m = map_option f (slot_get (st_monitors s) m)"
    by (simp_all add: s assms(2) update_monitor_def slot_simps)
  have f: "mon_num (f mon) = mon_num mon" "mon_geometry (f mon) = mon_geometry mon" "mon_pertag (f mon) = mon_pertag mon" "mon_lt (f mon) = mon_lt mon"
    "mon_layout (f mon) = mon_layout mon" for mon
    using assms(1) by (auto simp: unseen_def dest!: spec [of _ mon])
  have rects: "physical_rect (f mon) = physical_rect mon" "work_rect (f mon) = work_rect mon" for mon
    by (simp_all add: physical_rect_def work_rect_def f)
  have bars: "bar_for_monitor (f mon) bc = bar_for_monitor mon bc" for mon bc by (simp add: bar_for_monitor_def f)
  have dock: "dock_reservation pad mb s' m = dock_reservation pad mb s m" for pad mb unfolding dock_reservation_def c vis by simp
  have docks: "dock_reservations cfg shell s' m (f mon) = dock_reservations cfg shell s m mon" for mon
    unfolding dock_reservations_def c f rects dock by simp
  have rb: "reserve_bar cfg shell (f mon) acc = reserve_bar cfg shell mon acc" for mon acc
    unfolding reserve_bar_def bar_depths_def rects bars by simp
  have full: "monitor_owns_output_count s' m = monitor_owns_output_count s m" unfolding monitor_owns_output_count_def c vis by simp
  have walk: "tab_group_walk s' m ks = tab_group_walk s m ks" for ks by (induction ks) (simp_all add: c vis split: option.split)
  have shows': "monitor_shows_status_bar s' m = monitor_shows_status_bar s m"
    by (cases "slot_get (st_monitors s) m") (simp_all add: monitor_shows_status_bar_def c f monitor_has_visible_fullscreen_def full)
  have tabs: "tab_group_clients cfg s' m = tab_group_clients cfg s m"
    unfolding tab_group_clients_def c walk by (cases "slot_get (st_monitors s) m") (simp_all add: f)
  show "monitor_work_area cfg shell (cx_state cx') m = monitor_work_area cfg shell (cx_state cx) m"
    unfolding s [symmetric]
    by (cases "slot_get (st_monitors s) m")
      (simp_all add: monitor_work_area_def monitor_work_area_untabbed_def monitor_work_area_untabbed_with_bar_def tab_bar_reserved_def tabs shows' c docks rects rb Let_def)
  show "get_monitor_info cfg (cx_state cx') m = get_monitor_info cfg (cx_state cx) m" unfolding s [symmetric]
    by (cases "slot_get (st_monitors s) m") (simp_all add: get_monitor_info_def c f get_client_y_offset_def)
  show "collect_tileable_clients (cx_state cx') m = collect_tileable_clients (cx_state cx) m" unfolding s [symmetric]
    unfolding collect_tileable_clients_def get_monitor_clients_def c vis by simp
qed

lemma unseen_simps: "unseen (\<lambda>mon. mon\<lparr>mon_lt_symbol := sy\<rparr>)" "unseen (\<lambda>mon. mon\<lparr>layout_resizes := g mon\<rparr>)"
proof -
  have "mon\<lparr>mon_lt_symbol := sy\<rparr> = mon\<lparr>mon_lt_symbol := sy, layout_resizes := layout_resizes mon\<rparr>"
    "mon\<lparr>layout_resizes := g mon\<rparr> = mon\<lparr>mon_lt_symbol := mon_lt_symbol mon, layout_resizes := g mon\<rparr>" for mon by simp_all
  then show "unseen (\<lambda>mon. mon\<lparr>mon_lt_symbol := sy\<rparr>)" "unseen (\<lambda>mon. mon\<lparr>layout_resizes := g mon\<rparr>)" unfolding unseen_def by metis+
qed

text \<open>The state \<open>arrangemon\<close> hands to a layout, when the monitor has no manual size for the scope.\<close>

definition scope_of :: "wm_monitor \<Rightarrow> 32 word \<times> string" where
  "scope_of mon = (tag_at mon (sel_tags mon), layout_name (mon_lt mon))"

lemma drop_stale_none:
  assumes "slot_get (st_monitors (ar_state a)) m = Some mon" "layout_resizes mon (scope_of mon) = None"
  shows "drop_stale_resize m a = a"
  using assms by (simp add: drop_stale_resize_def layout_resize_scope_def scope_of_def)

lemma prepare_none:
  assumes "slot_get (st_monitors (ar_state a)) m = Some mon" "layout_resizes mon (scope_of mon) = None"
  shows "prepare_layout_resize env m area gap results a = ((results, False), a)"
  using assms by (simp add: prepare_layout_resize_def layout_resize_scope_def scope_of_def)

definition engine_params :: "arrange_env \<Rightarrow> monitor_key \<Rightarrow> wm_monitor \<Rightarrow> wm_state \<Rightarrow> layout_params" where
  "engine_params env m mon s = \<lparr>screen_area = or_else (monitor_work_area (ae_cfg env) (ae_shell env) s m) (work_rect mon),
     n_master = ml_n_master (mon_layout mon), m_fact = ml_m_fact (mon_layout mon), gap_px = ml_gap (mon_layout mon)\<rparr>"

lemma layout_inputs_params:
  assumes "slot_get (st_monitors (ar_state a)) m = Some mon" "layout_inputs env m a = (Some (params, raw), a1)"
  shows "params = engine_params env m mon (ar_state a)"
  using assms by (auto simp: layout_inputs_def get_monitor_info_def apply_smart_borders_def engine_params_def work_rect_def Let_def split: if_splits)

lemma disjoint_pair: "disjoint_rects (map f xs) \<Longrightarrow> x \<in> set xs \<Longrightarrow> y \<in> set xs \<Longrightarrow> x \<noteq> y \<Longrightarrow> \<not> overlap (f x) (f y)"
proof (induction xs)
  case (Cons z zs)
  then show ?case using overlap_sym [of "f x" "f y"] by auto
qed simp

lemma wrapped_layout_exact:
  assumes "slot_get (st_monitors (ar_state a)) m = Some mon" "layout_resizes mon (scope_of mon) = None" "\<not> ae_resize_hints env"
    "arranger calc" "distinct (tiles (ar_state a) m)" "int (length (tiles (ar_state a) m)) \<le> 1073741824"
    "\<And>cs. length cs = length (tiles (ar_state a) m) \<Longrightarrow> placed_in area (calc (engine_params env m mon (ar_state a)) cs)"
    "a' = tiling_layout_wrapper env m calc a" "k \<in> set (tiles (ar_state a) m)" "j \<in> set (tiles (ar_state a) m)"
  shows "inside area (rect_of (ar_state a') k) \<and> (k \<noteq> j \<longrightarrow> \<not> overlap (rect_of (ar_state a') k) (rect_of (ar_state a') j))"
proof -
  obtain params raw a1 where li: "layout_inputs env m a = (Some (params, raw), a1)"
    using layout_inputs_NoneD [of env m a] assms(9) by (cases "layout_inputs env m a"; cases "fst (layout_inputs env m a)") auto
  note in1 = layout_inputs_SomeD [OF li]
  obtain cs where cs: "cs = to_layout_clients (ae_cfg env) (ar_state a1) raw" by blast
  have lk: "map lc_key cs = tiles (ar_state a) m" by (simp add: cs layout_client_keys in1(1))
  then have len: "length cs = length (tiles (ar_state a) m)" by (metis length_map)
  obtain rs where rs: "rs = calc (engine_params env m mon (ar_state a)) cs" by blast
  have m: "mset (map res_key rs) = mset (tiles (ar_state a) m)" using arranger.once [OF assms(4), of cs] lk len assms(6) by (simp add: rs)
  have d: "distinct (map res_key rs)" "set (map res_key rs) = set (tiles (ar_state a) m)" using m assms(5) by (metis mset_eq_imp_distinct_iff, metis mset_eq_setD)
  note pl = assms(7) [OF len, folded rs]
  have mon1: "slot_get (st_monitors (ar_state a1)) m = Some mon" using in1(5) assms(1) by simp
  have ex: "\<forall>r \<in> set rs. slot_get (st_clients (ar_state a1)) (res_key r) \<noteq> None \<and> \<not> is_client_floating (ar_state a1) (res_key r)"
  proof
    fix r assume "r \<in> set rs"
    then have t: "res_key r \<in> set (tiles (ar_state a) m)" using d(2) by auto
    then have "\<not> is_client_floating (ar_state a) (res_key r)" using is_tile_not_floating by (auto simp: tiles_def)
    then show "slot_get (st_clients (ar_state a1)) (res_key r) \<noteq> None \<and> \<not> is_client_floating (ar_state a1) (res_key r)"
      using tiles_exist [OF t] keeps_exists [OF in1(2)] keeps_floating [OF in1(2)] by simp
  qed
  have a': "a' = fold (apply_one env False) rs a1"
    unfolding assms(8) tiling_layout_wrapper_def li prod.case option.case cs [symmetric] layout_inputs_params [OF assms(1) li] rs [symmetric]
    by (simp add: apply_layout_results_def prepare_none [OF mon1 assms(2)])
  have exact: "rect_of (ar_state a') (res_key r) = res_rect r" if "r \<in> set rs" for r
  proof -
    have "1 \<le> rect_w (res_rect r)" "1 \<le> rect_h (res_rect r)" using pl that by (auto simp: placed_in_def)
    then show ?thesis using apply_all_exact [OF d(1) ex assms(3) a' that] by (simp add: rect_new_def max_absorb1)
  qed
  have "k \<in> res_key ` set rs" "j \<in> res_key ` set rs" using assms(9,10) d(2) by simp_all
  then obtain r q where r: "r \<in> set rs" "res_key r = k" and q: "q \<in> set rs" "res_key q = j" by (elim imageE) auto
  have dj: "\<not> overlap (res_rect r) (res_rect q)" if "k \<noteq> j"
  proof -
    have "disjoint_rects (map res_rect rs)" using pl by (simp add: placed_in_def)
    from disjoint_pair [OF this r(1) q(1)] show ?thesis using that r q by auto
  qed
  show ?thesis using pl r q dj exact [OF r(1)] exact [OF q(1)] by (auto simp: placed_in_def)
qed


section \<open>Dragged windows go back into the tiles\<close>

lemma reclaim_one_wf:
  assumes "wf_lists s" "listed s k"
  shows "wf_lists (reclaim_one k s)"
proof -
  let ?s = "s\<lparr>st_clients := slot_update k retile_dragged (st_clients s)\<rparr>"
  have mon: "client_mon ?s = client_mon s"
    by (auto simp: client_mon_def slot_simps retile_dragged_def fun_eq_iff split: option.splits)
  have fl: "is_client_floating ?s x = is_client_floating s x" if "x \<noteq> k" for x using that by (simp add: is_client_floating_def slot_simps)
  have "tiled_first (is_client_floating ?s) (remove_first k l)" if l: "monitor_clients s m = Some l" for m l
  proof -
    note g = group_ok_but [OF wf_lists_but_ok [OF assms(1)] l]
    have "is_client_floating ?s x = is_client_floating s x" if "x \<in> set (remove_first k l)" for x using g(2) that fl by metis
    with g(1) tiled_first_cong [of "remove_first k l" "is_client_floating ?s" "is_client_floating s"] show ?thesis by (simp add: group_ok_def)
  qed
  then have "wf_lists_but k ?s" using assms(1) mon by (auto simp: wf_lists_but_def wf_lists_def group_ok_def)
  moreover have "listed ?s k" using assms(2) by (simp add: listed_def)
  ultimately show ?thesis unfolding reclaim_one_def by (rule reorder_wf_listed)
qed

section \<open>A monitor to arrange\<close>

definition tiled_monitor :: wm_monitor where
  "tiled_monitor = docked_monitor\<lparr>mon_lt := LAYOUT_TILE\<rparr>"

definition tiled_state :: wm_state where
  "tiled_state = docked_state\<lparr>st_monitors := [(0, tiled_monitor)]\<rparr>"

definition tiled_arranging :: arranging where
  "tiled_arranging = \<lparr>ar_cx = \<lparr>cx_state = tiled_state, cx_strips = (\<lambda>_. None), layout_persist_dirty = None, cx_persist_tags = False, cx_now = 0\<rparr>,
     ar_anims = [], ar_bars = [], ar_log = []\<rparr>"

definition still_env :: arrange_env where
  "still_env = \<lparr>ae_cfg = area_cfg, ae_shell = idle_shell, ae_resize_hints = False, ae_fetch = (\<lambda>_. None),
     ae_place = \<lparr>pe_now = 0, pe_motion = None, pe_suppress = False, pe_compositor = True, pe_libm = (\<lambda>x. x, \<lambda>x. x), pe_configure = (\<lambda>_ _ _. True)\<rparr>,
     ae_parse_f32 = (\<lambda>_. None), ae_width_rules = [], ae_adopting = False\<rparr>"

lemma tiled_state_wf: "wf_lists tiled_state"
  using docked_state_wf by (simp add: tiled_state_def wf_lists_monitors)

lemma tiled_state_tiles: "tiles (ar_state tiled_arranging) 0 = [1, 2]"
  by code_simp

lemma tiled_arranging_simps:
  "ar_state tiled_arranging = tiled_state" "cx_strips (ar_cx tiled_arranging) = (\<lambda>_. None)" "ar_log tiled_arranging = []"
  "slot_get (st_monitors tiled_state) 0 = Some tiled_monitor" "slot_get (st_clients tiled_state) 4 = Some bottom_dock"
  by (simp_all add: tiled_arranging_def tiled_state_def docked_state_def slot_get_def)



end
