(* ===== verification/Navigation.thy ===== *)
theory Navigation
  imports Focus Arrange
begin

text \<open>
  Navigation: \<open>src/jwm/navigation.rs\<close> (stepping through the windows, moving a tile, zoom, viewing tags),
  \<open>focusstack\<close> of \<open>src/jwm/focus_manager.rs\<close>, \<open>pop\<close> of \<open>src/jwm/stacking.rs\<close> and the tag commands of
  \<open>src/jwm/tag_manager.rs\<close>. A command works on the state of \<open>Focus\<close>; the arranges, restacks and tag
  slides it asks for are recorded in order in \<open>fc_calls\<close>. Messages to bars and subscribers, the
  placement memory and the animation of a vstack step change nothing here and are left out.
\<close>

section \<open>Environment\<close>

record nav_env =
  ne_focus :: focus_env
  ne_area :: area_config
  ne_shell :: shell_state
  ne_tags_length :: nat
  lock_fullscreen :: bool
  ne_compositor :: bool
  animation_enabled :: bool
  shell_panel_active :: bool
  swipe_active :: bool
  writes_desktop :: bool
  writes_tag_props :: bool
  restacks :: "monitor_key option \<Rightarrow> bool"

definition nav_tags :: "nav_env \<Rightarrow> nat" where
  "nav_tags env = max 1 (min (ne_tags_length env) 31)"

definition tagmask :: "nav_env \<Rightarrow> 32 word" where
  "tagmask env = push_bit (nav_tags env) 1 - 1"

definition calls :: "wm_call \<Rightarrow> unit focus_op" where
  "calls c f = (Inr (), f\<lparr>fc_calls := fc_calls f @ [c]\<rparr>)"

text \<open>A command of the scrolling layout with the calls it asks for; a focus that fails ends it.\<close>

primrec run_follow :: "nav_env \<Rightarrow> follow_up list \<Rightarrow> unit focus_op" where
  "run_follow env [] = Pair (Inr ())"
| "run_follow env (x # xs) = and_do (case x of Focus_Client k \<Rightarrow> focus (ne_focus env) (Some k)
     | Arrange m \<Rightarrow> calls (Arrange_Monitor (Some m) False) | _ \<Rightarrow> Pair (Inr ())) (\<lambda>_. run_follow env xs)"

definition run_scrolling :: "nav_env \<Rightarrow> (layout_ctx \<Rightarrow> command_result) \<Rightarrow> unit focus_op" where
  "run_scrolling env cmd f = (case cmd (fc_cx f) of
     (Inl e, cx) \<Rightarrow> (Inl e, f\<lparr>fc_cx := cx\<rparr>) | (Inr follow, cx) \<Rightarrow> run_follow env follow (f\<lparr>fc_cx := cx\<rparr>))"

section \<open>Stepping through the windows\<close>

definition can_focus_switch :: "nav_env \<Rightarrow> wm_state \<Rightarrow> string + bool" where
  "can_focus_switch env s = (case get_selected_client_key s of None \<Rightarrow> Inl ''No selected client''
     | Some k \<Rightarrow> (case slot_get (st_clients s) k of None \<Rightarrow> Inl ''Selected client not found''
         | Some c \<Rightarrow> Inr (\<not> (is_fullscreen (c_state c) \<and> lock_fullscreen env))))"

definition grouped_visible_clients :: "wm_state \<Rightarrow> monitor_key \<Rightarrow> client_key list \<times> client_key list" where
  "grouped_visible_clients s m =
     (let shown = filter (\<lambda>k. is_application_focus_eligible s k \<and> is_client_visible_on_monitor s k m) (or_else (monitor_clients s m) [])
      in (filter (\<lambda>k. \<not> is_client_floating s k) shown, filter (is_client_floating s) shown))"

definition next_in_group :: "client_key list \<Rightarrow> client_key \<Rightarrow> client_key option" where
  "next_in_group xs k = (case position (\<lambda>x. x = k) xs of None \<Rightarrow> None | Some i \<Rightarrow> vec_get xs (i + 1))"

definition prev_in_group :: "client_key list \<Rightarrow> client_key \<Rightarrow> client_key option" where
  "prev_in_group xs k = (case position (\<lambda>x. x = k) xs of None \<Rightarrow> None | Some i \<Rightarrow> if i = 0 then None else vec_get xs (i - 1))"

definition front_of :: "client_key list \<Rightarrow> client_key option" where
  "front_of xs = vec_get xs 0"

definition last_of :: "client_key list \<Rightarrow> client_key option" where
  "last_of xs = (if xs = [] then None else Some (last xs))"

definition step_groups :: "(client_key list \<Rightarrow> client_key \<Rightarrow> client_key option) \<Rightarrow> (client_key list \<Rightarrow> client_key option) \<Rightarrow>
    wm_state \<Rightarrow> string + client_key option" where
  "step_groups step edge s = (case sel_mon s of None \<Rightarrow> Inl ''No selected monitor''
     | Some m \<Rightarrow> (case get_selected_client_key s of None \<Rightarrow> Inl ''No selected client''
         | Some k \<Rightarrow>
             let (tiles, floats) = grouped_visible_clients s m;
                 (current, other) = (if is_client_floating s k then (floats, tiles) else (tiles, floats))
             in Inr (case step current k of Some x \<Rightarrow> Some x
                  | None \<Rightarrow> (case edge other of Some x \<Rightarrow> Some x
                      | None \<Rightarrow> (case edge current of Some x \<Rightarrow> if x \<noteq> k then Some x else None | None \<Rightarrow> None)))))"

definition find_next_visible_client :: "wm_state \<Rightarrow> string + client_key option" where
  "find_next_visible_client = step_groups next_in_group front_of"

definition find_previous_visible_client :: "wm_state \<Rightarrow> string + client_key option" where
  "find_previous_visible_client = step_groups prev_in_group last_of"

definition focusstack :: "nav_env \<Rightarrow> wm_arg \<Rightarrow> unit focus_op" where
  "focusstack env arg f = (case arg of
     Arg_Int dir \<Rightarrow>
       if dir = 0 then (Inr (), f)
       else if is_scrolling_layout (fc_cx f) then run_scrolling env (scrolling_focus_window arg) f
       else (case can_focus_switch env (fc_state f) of
           Inl e \<Rightarrow> (Inl e, f)
         | Inr False \<Rightarrow> (Inr (), f)
         | Inr True \<Rightarrow> (case (if dir > 0 then find_next_visible_client (fc_state f) else find_previous_visible_client (fc_state f)) of
               Inl e \<Rightarrow> (Inl e, f)
             | Inr None \<Rightarrow> (Inr (), f)
             | Inr (Some k) \<Rightarrow> and_do (focus (ne_focus env) (Some k)) (\<lambda>_ f1.
                 and_do (accepted (restacks env (sel_mon (fc_state f1)))) (\<lambda>_ f2.
                   case (if is_vstack_layout (fc_cx f2) then sel_mon (fc_state f2) else None) of
                     None \<Rightarrow> (Inr (), f2) | Some m \<Rightarrow> calls (Arrange_Only m) f2) f1) f))
   | _ \<Rightarrow> (Inr (), f))"

section \<open>Moving a tile\<close>

definition is_tiled_and_visible :: "wm_state \<Rightarrow> client_key \<Rightarrow> bool" where
  "is_tiled_and_visible s k \<longleftrightarrow> (case slot_get (st_clients s) k of None \<Rightarrow> False
     | Some c \<Rightarrow> is_client_visible_by_key s k \<and> \<not> is_floating (c_state c))"

definition tiled_neighbour :: "(nat \<Rightarrow> client_key list \<Rightarrow> client_key list) \<Rightarrow> wm_state \<Rightarrow> client_key \<Rightarrow> string + client_key option" where
  "tiled_neighbour walk s k = (case sel_mon s of None \<Rightarrow> Inl ''No selected monitor''
     | Some m \<Rightarrow> (case monitor_clients s m of None \<Rightarrow> Inl ''Monitor client list not found''
         | Some l \<Rightarrow> (case position (\<lambda>x. x = k) l of None \<Rightarrow> Inl ''Current client not found in monitor list''
             | Some i \<Rightarrow> Inr (List.find (is_tiled_and_visible s) (walk i l)))))"

definition walk_down :: "nat \<Rightarrow> client_key list \<Rightarrow> client_key list" where
  "walk_down i l = drop (i + 1) l @ take i l"

definition walk_up :: "nat \<Rightarrow> client_key list \<Rightarrow> client_key list" where
  "walk_up i l = rev (take i l) @ rev (drop (i + 1) l)"

definition find_next_tiled_client :: "wm_state \<Rightarrow> client_key \<Rightarrow> string + client_key option" where
  "find_next_tiled_client = tiled_neighbour walk_down"

definition find_previous_tiled_client :: "wm_state \<Rightarrow> client_key \<Rightarrow> string + client_key option" where
  "find_previous_tiled_client = tiled_neighbour walk_up"

definition swap_clients_in_monitor :: "client_key \<Rightarrow> client_key \<Rightarrow> wm_state \<Rightarrow> (string + unit) \<times> wm_state" where
  "swap_clients_in_monitor a b s = (case sel_mon s of None \<Rightarrow> (Inl ''No selected monitor'', s)
     | Some m \<Rightarrow> (case monitor_clients s m of None \<Rightarrow> (Inr (), s)
         | Some l \<Rightarrow> (case position (\<lambda>x. x = a) l of None \<Rightarrow> (Inl ''Client1 not found in monitor list'', s)
             | Some i \<Rightarrow> (case position (\<lambda>x. x = b) l of None \<Rightarrow> (Inl ''Client2 not found in monitor list'', s)
                 | Some j \<Rightarrow> (Inr (), set_clients m (vec_swap i j l) s)))))"

definition movestack :: "nav_env \<Rightarrow> wm_arg \<Rightarrow> unit focus_op" where
  "movestack env arg f =
     (if is_scrolling_layout (fc_cx f) then run_scrolling env (scrolling_move_column arg) f
      else case arg of
        Arg_Int dir \<Rightarrow> (case get_selected_client_key (fc_state f) of
            None \<Rightarrow> (Inl ''No client selected'', f)
          | Some k \<Rightarrow>
              if (case slot_get (st_clients (fc_state f)) k of None \<Rightarrow> True | Some c \<Rightarrow> is_floating (c_state c)) then (Inr (), f)
              else (case (if dir > 0 then find_next_tiled_client (fc_state f) k else find_previous_tiled_client (fc_state f) k) of
                  Inl e \<Rightarrow> (Inl e, f)
                | Inr None \<Rightarrow> (Inr (), f)
                | Inr (Some t) \<Rightarrow>
                    if k = t then (Inr (), f)
                    else (case swap_clients_in_monitor k t (fc_state f) of
                        (Inl e, _) \<Rightarrow> (Inl e, f)
                      | (Inr _, s1) \<Rightarrow> calls (Arrange_Monitor (sel_mon s1) False) (set_fc_state s1 f))))
      | _ \<Rightarrow> (Inr (), f))"

definition pop :: "nav_env \<Rightarrow> client_key \<Rightarrow> focusing \<Rightarrow> focusing" where
  "pop env k f = (case slot_get (st_clients (fc_state f)) k of None \<Rightarrow> f
     | Some c \<Rightarrow>
         let f1 = snd (focus (ne_focus env) (Some k) (set_fc_state (move_to_front k (fc_state f)) f))
         in case c_mon c of None \<Rightarrow> f1 | Some m \<Rightarrow> snd (calls (Arrange_Monitor (Some m) False) f1))"

definition zoom :: "nav_env \<Rightarrow> unit focus_op" where
  "zoom env f = (Inr (), case sel_mon (fc_state f) of None \<Rightarrow> f
     | Some m \<Rightarrow> (case selected_on m (fc_cx f) of None \<Rightarrow> f
         | Some k \<Rightarrow> (case slot_get (st_clients (fc_state f)) k of None \<Rightarrow> f
             | Some c \<Rightarrow>
                 if is_floating (c_state c) then f
                 else (case (if nexttiled (fc_state f) m None = Some k then nexttiled (fc_state f) m (Some k) else Some k) of
                     None \<Rightarrow> f
                   | Some t \<Rightarrow> pop env t (f\<lparr>fc_cx := clear_current_layout_resize (fc_cx f)\<rparr>)))))"

section \<open>Factors and bars\<close>

definition adjusted_client_factor :: "flt \<Rightarrow> flt \<Rightarrow> flt option" where
  "adjusted_client_factor current delta =
     (if \<not> is_finite current \<or> \<not> is_finite delta then None
      else let candidate = (if flt_less (fabs delta) (rnd32 (1 / 10000)) then Fin 1 else add32 current delta)
           in if is_finite candidate \<and> flt_leq (Fin (1 / 4)) candidate \<and> flt_leq candidate (Fin 4) then Some candidate else None)"

definition setcfact :: "nav_env \<Rightarrow> wm_arg \<Rightarrow> unit focus_op" where
  "setcfact env arg f = (case (is_scrolling_layout (fc_cx f), arg) of
     (True, Arg_Float v) \<Rightarrow>
       if \<not> is_finite v then (Inr (), f)
       else run_scrolling env (scrolling_focus_column (Arg_Int (if flt_less (Fin 0) v then - 1 else 1))) f
   | _ \<Rightarrow>
       let f1 = f\<lparr>fc_cx := clear_current_layout_resize (fc_cx f)\<rparr>
       in (case (get_selected_client_key (fc_state f1), arg) of
             (Some k, Arg_Float v) \<Rightarrow> (case slot_get (st_clients (fc_state f1)) k of None \<Rightarrow> (Inr (), f1)
               | Some c \<Rightarrow> (case adjusted_client_factor (client_fact (c_state c)) v of None \<Rightarrow> (Inr (), f1)
                   | Some x \<Rightarrow> calls (Arrange_Monitor (sel_mon (fc_state f1)) False)
                       (set_fc_state (client_state_update k (\<lambda>st. st\<lparr>client_fact := x\<rparr>) (fc_state f1)) f1)))
           | _ \<Rightarrow> (Inr (), f1)))"

definition togglebar :: "unit focus_op" where
  "togglebar f = (case sel_mon (fc_state f) of None \<Rightarrow> (Inr (), f)
     | Some m \<Rightarrow> (case monitor_of (fc_cx f) m of None \<Rightarrow> (Inr (), f)
         | Some mon \<Rightarrow> (case mon_pertag mon of None \<Rightarrow> (Inr (), f)
             | Some p \<Rightarrow> (case vec_get (show_bars p) (cur_tag p) of None \<Rightarrow> (Inr (), f)
                 | Some b \<Rightarrow> calls (Arrange_Monitor (Some m) False) (f\<lparr>fc_cx := mark_layout_dirty
                     (update_monitor m (\<lambda>mon. mon\<lparr>mon_pertag := Some (p\<lparr>show_bars := (show_bars p)[cur_tag p := \<not> b]\<rparr>)\<rparr>) (fc_cx f))\<rparr>)))))"

section \<open>Viewing tags\<close>

datatype tag_switch_motion_kind = Tag_Transition | Tag_Layout | Tag_Instant

definition tag_switch_motion :: "bool \<Rightarrow> bool \<Rightarrow> bool \<Rightarrow> bool \<Rightarrow> tag_switch_motion_kind" where
  "tag_switch_motion compositor animated panel membership_changed =
     (if panel then Tag_Instant else if compositor \<and> animated \<and> membership_changed then Tag_Transition else Tag_Layout)"

fun capture_within :: "rect option list \<Rightarrow> int \<times> int \<times> int \<times> int \<Rightarrow> (int \<times> int \<times> int \<times> int) option" where
  "capture_within [] b = Some b"
| "capture_within (None # rs) b = capture_within rs b"
| "capture_within (Some w # rs) (x0, y0, x1, y1) =
     (if rect_w w \<le> 0 \<or> rect_h w \<le> 0 then None
      else capture_within rs (max x0 (rect_x w), max y0 (rect_y w), min x1 (rect_x w + rect_w w), min y1 (rect_y w + rect_h w)))"

definition transition_capture_rect :: "rect \<Rightarrow> rect option \<Rightarrow> rect option \<Rightarrow> (int \<times> int \<times> nat \<times> nat) option" where
  "transition_capture_rect mon old_work new_work =
     (if rect_w mon \<le> 0 \<or> rect_h mon \<le> 0 then None
      else case capture_within [old_work, new_work] (rect_x mon, rect_y mon, rect_x mon + rect_w mon, rect_y mon + rect_h mon) of
        None \<Rightarrow> None
      | Some (x0, y0, x1, y1) \<Rightarrow>
          if x1 \<le> x0 \<or> y1 \<le> y0 then None
          else if in_i32 x0 \<and> in_i32 y0 \<and> x1 - x0 < 2 ^ 32 \<and> y1 - y0 < 2 ^ 32 then Some (x0, y0, nat (x1 - x0), nat (y1 - y0)) else None)"

definition transition_capture_rect_for_monitor :: "nav_env \<Rightarrow> wm_state \<Rightarrow> monitor_key \<Rightarrow> rect option \<Rightarrow> (int \<times> int \<times> nat \<times> nat) option" where
  "transition_capture_rect_for_monitor env s m old_work = (case slot_get (st_monitors s) m of None \<Rightarrow> None
     | Some mon \<Rightarrow> transition_capture_rect
         (rect_new (m_x (mon_geometry mon)) (m_y (mon_geometry mon)) (m_w (mon_geometry mon)) (m_h (mon_geometry mon)))
         old_work (monitor_work_area (ne_area env) (ne_shell env) s m))"

definition should_animate_tag_switch :: "wm_state \<Rightarrow> monitor_key \<Rightarrow> 32 word \<Rightarrow> 32 word \<Rightarrow> bool" where
  "should_animate_tag_switch s m old_mask new_mask \<longleftrightarrow> (case monitor_clients s m of None \<Rightarrow> False
     | Some l \<Rightarrow> list_ex (\<lambda>k. case slot_get (st_clients s) k of None \<Rightarrow> False
         | Some c \<Rightarrow> \<not> is_sticky (c_state c) \<and> ((cs_tags (c_state c) AND old_mask > 0) \<noteq> (cs_tags (c_state c) AND new_mask > 0))) l)"

definition primary_tag_index :: "32 word \<Rightarrow> nat option" where
  "primary_tag_index w = (if w = 0 \<or> w = - 1 then None else Some (trailing_zeros w))"

definition tag_switch_direction :: "32 word \<Rightarrow> 32 word \<Rightarrow> nat \<Rightarrow> int" where
  "tag_switch_direction old_mask new_mask tags_len = (case (primary_tag_index old_mask, primary_tag_index new_mask) of
     (Some i, Some j) \<Rightarrow>
       if i = j \<or> tags_len = 0 then 1
       else let direct = int j - int i;
                wrap_forward = direct + int tags_len; wrap_backward = direct - int tags_len;
                best1 = (if \<bar>wrap_forward\<bar> < \<bar>direct\<bar> then wrap_forward else direct);
                best2 = (if \<bar>wrap_backward\<bar> < \<bar>best1\<bar> then wrap_backward else best1)
            in if best2 \<ge> 0 then 1 else - 1
   | _ \<Rightarrow> 1)"

definition calculate_next_tag :: "nav_env \<Rightarrow> int \<Rightarrow> wm_state \<Rightarrow> 32 word" where
  "calculate_next_tag env direction s = (case sel_mon s of None \<Rightarrow> 1
     | Some m \<Rightarrow> (case slot_get (st_monitors s) m of None \<Rightarrow> 1
         | Some mon \<Rightarrow>
             let current = get_active_tags mon;
                 index = (if current = 0 then 0 else trailing_zeros current) mod nav_tags env;
                 next_index = (if direction > 0 then (index + 1) mod nav_tags env else if index = 0 then nav_tags env - 1 else index - 1)
             in push_bit next_index 1))"

definition update_sticky_tags :: "monitor_key \<Rightarrow> wm_state \<Rightarrow> wm_state" where
  "update_sticky_tags m s = (case slot_get (st_monitors s) m of None \<Rightarrow> s
     | Some mon \<Rightarrow> fold (\<lambda>k. client_state_update k (\<lambda>st. if is_sticky st then st\<lparr>cs_tags := get_active_tags mon\<rparr> else st))
         (or_else (monitor_clients s m) []) s)"

text \<open>The change of the tag set, with the tags before and after; \<open>None\<close> is the panic of an index out of range.\<close>

definition change_view :: "32 word \<Rightarrow> bool \<Rightarrow> monitor_key \<Rightarrow> wm_state \<Rightarrow> (32 word \<times> 32 word \<times> wm_state) option" where
  "change_view w toggle m s = (case slot_get (st_monitors s) m of None \<Rightarrow> Some (0, w, s)
     | Some mon \<Rightarrow> (case view_tag w toggle mon of None \<Rightarrow> None
         | Some (_, mon1) \<Rightarrow> Some (get_active_tags mon, get_active_tags mon1, s\<lparr>st_monitors := slot_update m (\<lambda>_. mon1) (st_monitors s)\<rparr>)))"

definition remembered_on_tag :: "wm_state \<Rightarrow> monitor_key \<Rightarrow> client_key option" where
  "remembered_on_tag s m = (case slot_get (st_monitors s) m of None \<Rightarrow> None
     | Some mon \<Rightarrow> (case get_selected_client_for_current_tag mon of None \<Rightarrow> None
         | Some k \<Rightarrow> if client_mon s k = Some m then Some k else None))"

text \<open>The slide of a tag switch, when there is a rectangle to slide.\<close>

definition slide_tags :: "nav_env \<Rightarrow> monitor_key \<Rightarrow> rect option \<Rightarrow> 32 word \<Rightarrow> 32 word \<Rightarrow> wm_state \<Rightarrow> wm_call option" where
  "slide_tags env m old_work old_mask new_mask s =
     map_option (Slide_Tags (tag_switch_direction old_mask new_mask (nav_tags env))) (transition_capture_rect_for_monitor env s m old_work)"

definition opt_call :: "wm_call option \<Rightarrow> unit focus_op" where
  "opt_call c = (case c of None \<Rightarrow> Pair (Inr ()) | Some x \<Rightarrow> calls x)"

text \<open>The end of a tag switch: the slide, the focus, the arrange, and the desktop published to the backend.\<close>

definition finish_view :: "nav_env \<Rightarrow> wm_call option \<Rightarrow> bool \<Rightarrow> client_key option \<Rightarrow> wm_call \<Rightarrow> unit focus_op" where
  "finish_view env sliding refocuses wanted arrange =
     and_do (opt_call sliding) (\<lambda>_. and_do (if refocuses then focus (ne_focus env) wanted else Pair (Inr ())) (\<lambda>_.
       and_do (calls arrange) (\<lambda>_. accepted (writes_desktop env))))"

definition panicked :: string where "panicked = ''panic''"

definition view_on_monitor :: "nav_env \<Rightarrow> monitor_key \<Rightarrow> 32 word \<Rightarrow> unit focus_op" where
  "view_on_monitor env m ui f =
     (let target = ui AND tagmask env in
      if target = 0 then (Inr (), f)
      else case (case monitor_of (fc_cx f) m of None \<Rightarrow> Some False | Some mon \<Rightarrow> is_same_tag mon target) of
        None \<Rightarrow> (Inl panicked, f)
      | Some True \<Rightarrow> (Inr (), f)
      | Some False \<Rightarrow> (case change_view target False m (fc_state f) of
        None \<Rightarrow> (Inl panicked, f)
      | Some (old_mask, new_mask, s1) \<Rightarrow>
          let old_work = monitor_work_area (ne_area env) (ne_shell env) (fc_state f) m;
              wanted = remembered_on_tag s1 m;
              s2 = update_sticky_tags m s1;
              motion = (if swipe_active env then Tag_Instant else tag_switch_motion (ne_compositor env) (animation_enabled env)
                (shell_panel_active env) (should_animate_tag_switch s2 m old_mask new_mask));
              slide = (if motion = Tag_Transition then slide_tags env m old_work old_mask new_mask s2 else None);
              still = (if motion = Tag_Transition then slide \<noteq> None else motion = Tag_Instant)
          in finish_view env slide (sel_mon s2 = Some m) wanted (Arrange_Monitor (Some m) still) (set_fc_state s2 f)))"

definition view :: "nav_env \<Rightarrow> wm_arg \<Rightarrow> unit focus_op" where
  "view env arg f = (case arg of
     Arg_UInt w \<Rightarrow> (case sel_mon (fc_state f) of None \<Rightarrow> (Inr (), f) | Some m \<Rightarrow> view_on_monitor env m w f)
   | _ \<Rightarrow> (Inr (), f))"

definition loopview :: "nav_env \<Rightarrow> wm_arg \<Rightarrow> unit focus_op" where
  "loopview env arg f = (case arg of
     Arg_Int dir \<Rightarrow> if dir = 0 then (Inr (), f) else view env (Arg_UInt (calculate_next_tag env dir (fc_state f))) f
   | _ \<Rightarrow> (Inr (), f))"

definition toggleview :: "nav_env \<Rightarrow> wm_arg \<Rightarrow> unit focus_op" where
  "toggleview env arg f = (case arg of
     Arg_UInt w \<Rightarrow>
       let target = w AND tagmask env
       in if target = 0 then (Inr (), f)
          else (case sel_mon (fc_state f) of None \<Rightarrow> (Inl ''No monitor selected'', f)
            | Some m \<Rightarrow> (case change_view target True m (fc_state f) of
                None \<Rightarrow> (Inl panicked, f)
              | Some (old_mask, new_mask, s1) \<Rightarrow>
                  let old_work = monitor_work_area (ne_area env) (ne_shell env) (fc_state f) m;
                      s2 = update_sticky_tags m s1;
                      slide = (if ne_compositor env \<and> animation_enabled env \<and> should_animate_tag_switch s2 m old_mask new_mask
                        then slide_tags env m old_work old_mask new_mask s2 else None)
                  in finish_view env slide True None (Arrange_Monitor (Some m) (slide \<noteq> None)) (set_fc_state s2 f)))
   | _ \<Rightarrow> (Inr (), f))"

section \<open>Tags of a window\<close>

definition toggletag :: "nav_env \<Rightarrow> wm_arg \<Rightarrow> unit focus_op" where
  "toggletag env arg f = (case (get_selected_client_key (fc_state f), arg) of
     (Some k, Arg_UInt w) \<Rightarrow> (case slot_get (st_clients (fc_state f)) k of None \<Rightarrow> (Inr (), f)
       | Some c \<Rightarrow>
           let newtags = cs_tags (c_state c) XOR (w AND tagmask env)
           in if newtags > 0 \<and> newtags \<noteq> cs_tags (c_state c)
              then and_do (accepted (writes_tag_props env)) (\<lambda>_. and_do (focus (ne_focus env) None) (\<lambda>_ f1.
                     calls (Arrange_Monitor (sel_mon (fc_state f1)) False) f1))
                   (set_fc_state (client_state_update k (\<lambda>st. st\<lparr>cs_tags := newtags\<rparr>) (fc_state f)) f)
              else (Inr (), f))
   | _ \<Rightarrow> (Inr (), f))"

definition move_client_to_tag :: "nav_env \<Rightarrow> client_key \<Rightarrow> 32 word \<Rightarrow> unit focus_op" where
  "move_client_to_tag env k w f =
     (let target = w AND tagmask env
      in if target = 0 \<or> map_option (\<lambda>c. cs_tags (c_state c)) (slot_get (st_clients (fc_state f)) k) = Some target then (Inr (), f)
         else and_do (focus (ne_focus env) None) (\<lambda>_. calls (Arrange_Monitor (client_mon (fc_state f) k) False))
                (set_fc_state (client_state_update k (\<lambda>st. st\<lparr>cs_tags := target\<rparr>) (fc_state f)) f))"

definition tag :: "nav_env \<Rightarrow> wm_arg \<Rightarrow> unit focus_op" where
  "tag env arg f = (case (arg, get_selected_client_key (fc_state f)) of
     (Arg_UInt w, Some k) \<Rightarrow> move_client_to_tag env k w f | _ \<Rightarrow> (Inr (), f))"

section \<open>The ring of windows\<close>

text \<open>One step inside the own group, else to the edge of the other group, else around the own group.\<close>

definition ring_step :: "(client_key list \<Rightarrow> client_key \<Rightarrow> client_key option) \<Rightarrow> (client_key list \<Rightarrow> client_key option) \<Rightarrow>
    client_key list \<Rightarrow> client_key list \<Rightarrow> client_key \<Rightarrow> client_key option" where
  "ring_step step edge current other k = (case step current k of Some x \<Rightarrow> Some x
     | None \<Rightarrow> (case edge other of Some x \<Rightarrow> Some x
         | None \<Rightarrow> (case edge current of Some x \<Rightarrow> if x \<noteq> k then Some x else None | None \<Rightarrow> None)))"

lemma position_nth_distinct: "distinct xs \<Longrightarrow> i < length xs \<Longrightarrow> position (\<lambda>x. x = xs ! i) xs = Some i"
proof -
  assume a: "distinct xs" "i < length xs"
  obtain j where j: "position (\<lambda>x. x = xs ! i) xs = Some j" using a position_ex [of "xs ! i" xs "\<lambda>x. x = xs ! i"] by auto
  then have "j = i" using position_SomeD [OF j] a nth_eq_iff_index_eq [of xs j i] by blast
  with j show ?thesis by simp
qed

lemma ring_step_next:
  assumes "distinct (a @ b)" "i < length a" "n = length (a @ b)"
  shows "ring_step next_in_group front_of a b (a ! i) = (if n = 1 then None else Some ((a @ b) ! ((i + 1) mod n)))"
proof -
  have p: "position (\<lambda>x. x = a ! i) a = Some i" using assms(1,2) by (simp add: position_nth_distinct)
  show ?thesis
  proof (cases "i + 1 < length a")
    case True
    then show ?thesis using assms(2,3) by (simp add: ring_step_def next_in_group_def p vec_get_def nth_append)
  next
    case False
    then have i: "i + 1 = length a" using assms(2) by simp
    show ?thesis
    proof (cases b)
      case Nil
      have "a ! 0 \<noteq> a ! i" if "length a \<noteq> 1" 
      proof -
        have "0 < length a" "i \<noteq> 0" using assms(2) i that by auto
        then show ?thesis using assms(1,2) nth_eq_iff_index_eq [of a 0 i] by simp
      qed
      then show ?thesis using Nil i assms(2,3) by (auto simp: ring_step_def next_in_group_def front_of_def p vec_get_def)
    next
      case (Cons x xs)
      then have "n \<noteq> 1" "(i + 1) mod n = length a" using i assms(2,3) by auto
      then show ?thesis using Cons i by (simp add: ring_step_def next_in_group_def front_of_def p vec_get_def nth_append)
    qed
  qed
qed

lemma ring_step_prev:
  assumes "distinct (a @ b)" "i < length a" "n = length (a @ b)"
  shows "ring_step prev_in_group last_of a b (a ! i) = (if n = 1 then None else Some ((a @ b) ! ((i + n - 1) mod n)))"
proof -
  have p: "position (\<lambda>x. x = a ! i) a = Some i" using assms(1,2) by (simp add: position_nth_distinct)
  show ?thesis
  proof (cases i)
    case (Suc j)
    then have "(i + n - 1) mod n = j" using assms(2,3) by (simp add: mod_if)
    then show ?thesis using assms(2,3) Suc by (simp add: ring_step_def prev_in_group_def p [unfolded Suc] vec_get_def nth_append)
  next
    case 0
    then have m: "(i + n - 1) mod n = n - 1" using assms(2,3) by simp
    have l: "(a @ b) ! (n - 1) = last (a @ b)" using assms(2,3) by (subst last_conv_nth) auto
    show ?thesis
    proof (cases "b = []")
      case True
      have "last a \<noteq> a ! 0" if "length a \<noteq> 1"
      proof -
        have "a \<noteq> []" "length a - 1 < length a" "length a - 1 \<noteq> 0" using assms(2) that by (cases a; simp)+
        then show ?thesis using assms(1) nth_eq_iff_index_eq [of a "length a - 1" 0] by (simp add: last_conv_nth)
      qed
      moreover have "length a = 1 \<Longrightarrow> last a = a ! 0" by (cases a) auto
      moreover have "a \<noteq> []" using assms(2) by auto
      ultimately show ?thesis unfolding m l using True 0 assms(3) p by (simp add: ring_step_def prev_in_group_def last_of_def)
    next
      case False
      moreover have "n \<noteq> 1" using False assms(2,3) by (cases b) auto
      ultimately show ?thesis unfolding m l using 0 p by (simp add: ring_step_def prev_in_group_def last_of_def)
    qed
  qed
qed

lemma ring_rotated:
  assumes "i < length b" "n = length (a @ b)"
  shows "(b @ a) ! ((i + j) mod n) = (a @ b) ! ((length a + i + j) mod n)"
proof -
  have r: "rotate (length a) (a @ b) = b @ a" by (rule rotate_append)
  have "n > 0" using assms by (cases b) auto
  then have "(i + j) mod n < length (a @ b)" using assms(2) by (metis mod_less_divisor)
  from nth_rotate [OF this, of "length a"] show ?thesis using assms(2) r by (simp add: mod_add_right_eq add.assoc)
qed

lemma step_groups_ring:
  assumes "sel_mon s = Some m" "get_selected_client_key s = Some k" "grouped_visible_clients s m = (ts, fs)"
  shows "step_groups step edge s = Inr (if is_client_floating s k then ring_step step edge fs ts k else ring_step step edge ts fs k)"
  using assms by (simp add: step_groups_def ring_step_def)

lemma grouped_distinct:
  assumes "wf_lists s" "grouped_visible_clients s m = (ts, fs)"
  shows "distinct (ts @ fs)" "\<forall>k \<in> set ts. \<not> is_client_floating s k" "\<forall>k \<in> set fs. is_client_floating s k"
proof -
  have "distinct (or_else (monitor_clients s m) [])"
    using assms(1) by (cases "monitor_clients s m") (auto simp: wf_lists_def group_ok_def or_else_def)
  then show "distinct (ts @ fs)" using assms(2) by (auto simp: grouped_visible_clients_def Let_def)
  show "\<forall>k \<in> set ts. \<not> is_client_floating s k" "\<forall>k \<in> set fs. is_client_floating s k"
    using assms(2) by (auto simp: grouped_visible_clients_def Let_def)
qed

text \<open>
  C32. Stepping through the windows goes around one ring: the visible tiles in their order, then the
  visible floating windows. From any of them the next window is its successor in the ring and the
  previous one its predecessor, around the end; a lone window has no neighbour. Repeating a step
  therefore reaches every window, and a step back undoes a step.
\<close>

theorem focus_steps_around_the_ring:
  assumes "wf_lists s" "sel_mon s = Some m" "grouped_visible_clients s m = (ts, fs)" "ring = ts @ fs"
    "i < length ring" "get_selected_client_key s = Some (ring ! i)" "n = length ring"
  shows "find_next_visible_client s = Inr (if n = 1 then None else Some (ring ! ((i + 1) mod n))) \<and>
    find_previous_visible_client s = Inr (if n = 1 then None else Some (ring ! ((i + n - 1) mod n)))"
proof (cases "i < length ts")
  case True
  then have "ring ! i = ts ! i" "\<not> is_client_floating s (ts ! i)" using assms(4) grouped_distinct(2) [OF assms(1,3)] by (auto simp: nth_append)
  then show ?thesis
    using step_groups_ring [OF assms(2,6,3)] ring_step_next [OF grouped_distinct(1) [OF assms(1,3)] True refl]
      ring_step_prev [OF grouped_distinct(1) [OF assms(1,3)] True refl] assms(4,7)
    by (simp add: find_next_visible_client_def find_previous_visible_client_def)
next
  case False
  define j where "j = i - length ts"
  have j: "j < length fs" "i = length ts + j" using False assms(4,5) by (auto simp: j_def)
  have k: "ring ! i = fs ! j" "is_client_floating s (fs ! j)"
    using assms(4) j grouped_distinct(3) [OF assms(1,3)] by (auto simp: nth_append)
  have d: "distinct (fs @ ts)" using grouped_distinct(1) [OF assms(1,3)] by auto
  have n: "n = length (fs @ ts)" "n = length (ts @ fs)" using assms(4,7) by simp_all
  have e: "(fs @ ts) ! ((j + 1) mod n) = ring ! ((i + 1) mod n)" "(fs @ ts) ! ((j + n - 1) mod n) = ring ! ((i + n - 1) mod n)"
  proof -
    show "(fs @ ts) ! ((j + 1) mod n) = ring ! ((i + 1) mod n)" using ring_rotated [OF j(1) n(2), of 1] by (simp add: j(2) assms(4))
    have "n \<ge> 1" using assms(5,7) by simp
    then have "j + n - 1 = j + (n - 1)" "i + n - 1 = length ts + j + (n - 1)" using j(2) by simp_all
    then show "(fs @ ts) ! ((j + n - 1) mod n) = ring ! ((i + n - 1) mod n)"
      using ring_rotated [OF j(1) n(2), of "n - 1"] by (simp only: assms(4))
  qed
  show ?thesis
    using step_groups_ring [OF assms(2,6,3)] ring_step_next [OF d j(1) n(1)] ring_step_prev [OF d j(1) n(1)] k e
    by (simp add: find_next_visible_client_def find_previous_visible_client_def)
qed

theorem focus_steps_around_the_ring_witness:
  "find_next_visible_client (fc_state two_windows) = Inr (Some 2) \<and> find_previous_visible_client (fc_state two_windows) = Inr (Some 2)"
proof -
  have w: "wf_lists (fc_state two_windows)" using two_windows_ok by (simp add: focus_ok_def)
  have "sel_mon (fc_state two_windows) = Some 1" "grouped_visible_clients (fc_state two_windows) 1 = ([1], [2])"
    "get_selected_client_key (fc_state two_windows) = Some ([1, 2] ! 0)" by code_simp+
  from focus_steps_around_the_ring [OF w this(1,2) _ _ this(3)] show ?thesis by simp
qed

section \<open>Moving a tile there and back\<close>

text \<open>\<open>follows p l k t\<close>: going down the list from \<open>k\<close> and around its end, \<open>t\<close> is the first to satisfy \<open>p\<close>.\<close>

definition follows :: "(client_key \<Rightarrow> bool) \<Rightarrow> client_key list \<Rightarrow> client_key \<Rightarrow> client_key \<Rightarrow> bool" where
  "follows p l k t \<longleftrightarrow> (\<exists>a b c. l = a @ k # b @ t # c \<and> (\<forall>x \<in> set b. \<not> p x)) \<or>
     (\<exists>a b c. l = a @ t # b @ k # c \<and> (\<forall>x \<in> set a \<union> set c. \<not> p x))"

definition exch :: "client_key \<Rightarrow> client_key \<Rightarrow> client_key \<Rightarrow> client_key" where
  "exch x y z = (if z = x then y else if z = y then x else z)"

lemma find_split: "List.find p xs = Some t \<longleftrightarrow> (\<exists>a b. xs = a @ t # b \<and> p t \<and> (\<forall>x \<in> set a. \<not> p x))"
proof (induction xs)
  case (Cons x xs)
  then show ?case by (auto simp: Cons_eq_append_conv) (metis append_Cons list.set_intros(1) set_ConsD)+
qed simp

lemma find_append: "List.find p (xs @ ys) = (case List.find p xs of None \<Rightarrow> List.find p ys | Some x \<Rightarrow> Some x)"
  by (induction xs) auto

lemma position_at_split: "k \<notin> set a \<Longrightarrow> position (\<lambda>x. x = k) (a @ k # b) = Some (length a)"
  by (induction a) auto

lemma followsI:
  "\<forall>x \<in> set b. \<not> p x \<Longrightarrow> follows p (a @ k # b @ t # c) k t"
  "\<forall>x \<in> set a \<union> set c. \<not> p x \<Longrightarrow> follows p (a @ t # b @ k # c) k t"
  unfolding follows_def by blast+

lemma find_around:
  shows "List.find p (b @ a) = Some t \<Longrightarrow> p t \<and> follows p (a @ k # b) k t"
    "List.find p (rev a @ rev b) = Some t \<Longrightarrow> p t \<and> follows p (a @ k # b) t k"
proof -
  show "p t \<and> follows p (a @ k # b) k t" if f: "List.find p (b @ a) = Some t"
  proof (cases "List.find p b")
    case (Some u)
    with f obtain c d where "b = c @ t # d" "p t" "\<forall>x \<in> set c. \<not> p x" by (auto simp: find_append find_split)
    then show ?thesis using followsI(1) [of c p a k t d] by simp
  next
    case None
    with f obtain c d where "a = c @ t # d" "p t" "\<forall>x \<in> set c. \<not> p x" by (auto simp: find_append find_split)
    then show ?thesis using None followsI(2) [of c b p t d k] by (simp add: find_None_iff ball_Un)
  qed
  show "p t \<and> follows p (a @ k # b) t k" if f: "List.find p (rev a @ rev b) = Some t"
  proof (cases "List.find p (rev a)")
    case (Some u)
    with f obtain c d where "rev a = c @ t # d" "p t" "\<forall>x \<in> set c. \<not> p x" by (auto simp: find_append find_split)
    then have "a = rev d @ t # rev c" "p t" "\<forall>x \<in> set (rev c). \<not> p x" by (simp_all add: rev_swap)
    then show ?thesis using followsI(1) [of "rev c" p "rev d" t k b] by simp
  next
    case None
    with f obtain c d where "rev b = c @ t # d" "p t" "\<forall>x \<in> set c. \<not> p x" by (auto simp: find_append find_split)
    then have "b = rev d @ t # rev c" "p t" "\<forall>x \<in> set (rev c). \<not> p x" by (simp_all add: rev_swap)
    then show ?thesis using None followsI(2) [of a "rev c" p k "rev d" t] by (simp add: find_None_iff ball_Un)
  qed
qed

lemma split_once_only: "distinct (a @ k # b) \<Longrightarrow> a @ k # b = a' @ k # b' \<Longrightarrow> a' = a \<and> b' = b"
proof (induction a arbitrary: a')
  case Nil
  then show ?case by (cases a') auto
next
  case (Cons x a)
  note ih = Cons.IH and prems = Cons.prems
  show ?case
  proof (cases a')
    case Nil
    then show ?thesis using prems by auto
  next
    case (Cons y ys)
    have "distinct (a @ k # b)" using prems(1) by simp
    moreover have "a @ k # b = ys @ k # b'" using prems(2) Cons by simp
    ultimately have "ys = a \<and> b' = b" by (rule ih)
    then show ?thesis using Cons prems(2) by auto
  qed
qed

lemma around_follows:
  assumes "distinct (a @ k # b)" "p t"
  shows "follows p (a @ k # b) k t \<Longrightarrow> List.find p (b @ a) = Some t" "follows p (a @ k # b) t k \<Longrightarrow> List.find p (rev a @ rev b) = Some t"
proof -
  note only = split_once_only [OF assms(1)]
  show "List.find p (b @ a) = Some t" if f: "follows p (a @ k # b) k t"
    using f unfolding follows_def
  proof (elim disjE exE conjE)
    fix a' c d assume "a @ k # b = a' @ k # c @ t # d" and n: "\<forall>x \<in> set c. \<not> p x"
    then have "b = c @ t # d" using only [of a' "c @ t # d"] by simp
    then have "b @ a = c @ t # (d @ a)" by simp
    with n assms(2) show ?thesis unfolding find_split by blast
  next
    fix c d b' assume "a @ k # b = c @ t # d @ k # b'" and n: "\<forall>x \<in> set c \<union> set b'. \<not> p x"
    then have "a = c @ t # d" "b' = b" using only [of "c @ t # d" b'] by simp_all
    then have "b @ a = (b @ c) @ t # d" "\<forall>x \<in> set (b @ c). \<not> p x" using n by auto
    with assms(2) show ?thesis unfolding find_split by blast
  qed
  show "List.find p (rev a @ rev b) = Some t" if f: "follows p (a @ k # b) t k"
    using f unfolding follows_def
  proof (elim disjE exE conjE)
    fix d c b' assume "a @ k # b = d @ t # c @ k # b'" and n: "\<forall>x \<in> set c. \<not> p x"
    then have "a = d @ t # c" using only [of "d @ t # c" b'] by simp
    then have "rev a @ rev b = rev c @ t # (rev d @ rev b)" "\<forall>x \<in> set (rev c). \<not> p x" using n by simp_all
    with assms(2) show ?thesis unfolding find_split by blast
  next
    fix a' d c assume "a @ k # b = a' @ k # d @ t # c" and n: "\<forall>x \<in> set a' \<union> set c. \<not> p x"
    then have "b = d @ t # c" "a' = a" using only [of a' "d @ t # c"] by simp_all
    then have "rev a @ rev b = (rev a @ rev c) @ t # rev d" "\<forall>x \<in> set (rev a @ rev c). \<not> p x" using n by auto
    with assms(2) show ?thesis unfolding find_split by blast
  qed
qed

lemma exch_frame: "x \<notin> set l \<Longrightarrow> y \<notin> set l \<Longrightarrow> map (exch x y) l = l"
  by (induction l) (auto simp: exch_def)

lemma follows_exch:
  assumes "distinct l" "follows p l k t" "k \<noteq> t"
  shows "follows p (map (exch k t) l) t k"
proof -
  have e: "exch k t k = t" "exch k t t = k" by (simp_all add: exch_def)
  from assms(2) consider a b c where "l = a @ k # b @ t # c" "\<forall>x \<in> set b. \<not> p x"
    | a b c where "l = a @ t # b @ k # c" "\<forall>x \<in> set a \<union> set c. \<not> p x" unfolding follows_def by blast
  then show ?thesis
  proof cases
    case 1
    then have "map (exch k t) l = a @ t # b @ k # c" using assms(1) by (simp add: e exch_frame)
    with 1 show ?thesis unfolding follows_def by blast
  next
    case 2
    then have "map (exch k t) l = a @ k # b @ t # c" using assms(1) by (simp add: e exch_frame)
    with 2 show ?thesis unfolding follows_def by blast
  qed
qed

lemma vec_swap_exch:
  assumes "distinct l" "position (\<lambda>x. x = k) l = Some i" "position (\<lambda>x. x = t) l = Some j"
  shows "vec_swap i j l = map (exch k t) l"
proof -
  have i: "i < length l" "l ! i = k" "j < length l" "l ! j = t" using position_SomeD [OF assms(2)] position_SomeD [OF assms(3)] by auto
  show ?thesis
  proof (rule nth_equalityI)
    show "length (vec_swap i j l) = length (map (exch k t) l)" by (simp add: vec_swap_def)
    fix n assume "n < length (vec_swap i j l)"
    then have n: "n < length l" by (simp add: vec_swap_def)
    show "vec_swap i j l ! n = map (exch k t) l ! n"
      using n i nth_eq_iff_index_eq [OF assms(1) n i(1)] nth_eq_iff_index_eq [OF assms(1) n i(3)]
      by (auto simp: vec_swap_def exch_def nth_list_update)
  qed
qed

lemma exch_twice [simp]: "exch k t (exch k t x) = x"
  by (auto simp: exch_def)

lemma exch_sym: "exch k t = exch t k"
  by (auto simp: exch_def fun_eq_iff)

lemma distinct_exch: "distinct l \<Longrightarrow> distinct (map (exch k t) l)"
  by (auto simp: distinct_map exch_def inj_on_def split: if_splits)

lemma walk_split:
  assumes "position (\<lambda>x. x = k) l = Some i"
  shows "l = take i l @ k # drop (i + 1) l"
  using position_SomeD [OF assms] id_take_nth_drop [of i l] by simp

text \<open>The neighbour found in one direction, and what is found in the other one after the swap.\<close>

lemma swap_there:
  assumes "distinct l" "position (\<lambda>x. x = k) l = Some i" "List.find p (walk i l) = Some t" "walk = walk_down \<and> rear = walk_up \<or> walk = walk_up \<and> rear = walk_down"
  shows "t \<noteq> k \<and> t \<in> set l \<and>
    (\<forall>j. position (\<lambda>x. x = k) (map (exch k t) l) = Some j \<longrightarrow> List.find p (rear j (map (exch k t) l)) = Some t)"
proof -
  let ?a = "take i l" and ?b = "drop (i + 1) l" and ?l = "map (exch k t) l"
  have l: "l = ?a @ k # ?b" by (rule walk_split [OF assms(2)])
  have kab: "k \<notin> set ?a" "k \<notin> set ?b" using assms(1) l by (metis distinct.simps(2) distinct_append disjoint_insert(1) list.simps(15))+
  have "t \<in> set (walk i l)" "p t" using assms(3) by (auto simp: find_split)
  then have t: "t \<in> set ?a \<union> set ?b" using assms(4) by (auto simp: walk_down_def walk_up_def)
  then have tk: "t \<noteq> k" using kab by auto
  have tl: "t \<in> set l" using t by (auto dest: in_set_takeD in_set_dropD)
  have f: "(walk = walk_down \<longrightarrow> follows p l k t) \<and> (walk = walk_up \<longrightarrow> follows p l t k)"
    using assms(3) find_around(1) [of p ?b ?a t k] find_around(2) [of p ?a ?b t k] l by (auto simp: walk_down_def walk_up_def)
  have g: "(walk = walk_down \<longrightarrow> follows p ?l t k) \<and> (walk = walk_up \<longrightarrow> follows p ?l k t)"
    using f follows_exch [OF assms(1) _ tk [symmetric]] follows_exch [OF assms(1) _ tk] by (simp add: exch_sym [of t k])
  have "List.find p (rear j ?l) = Some t" if j: "position (\<lambda>x. x = k) ?l = Some j" for j
  proof -
    have e: "?l = take j ?l @ k # drop (j + 1) ?l" by (rule walk_split [OF j])
    have d: "distinct (take j ?l @ k # drop (j + 1) ?l)" using distinct_exch [OF assms(1)] e by metis
    show ?thesis using assms(4)
    proof (elim disjE conjE)
      assume w: "walk = walk_down" "rear = walk_up"
      then have "follows p (take j ?l @ k # drop (j + 1) ?l) t k" using g e by metis
      from around_follows(2) [OF d \<open>p t\<close> this] show ?thesis by (simp add: w(2) walk_up_def)
    next
      assume w: "walk = walk_up" "rear = walk_down"
      then have "follows p (take j ?l @ k # drop (j + 1) ?l) k t" using g e by metis
      from around_follows(1) [OF d \<open>p t\<close> this] show ?thesis by (simp add: w(2) walk_down_def)
    qed
  qed
  then show ?thesis using tk tl by blast
qed

definition walk :: "int \<Rightarrow> nat \<Rightarrow> client_key list \<Rightarrow> client_key list" where
  "walk dir = (if dir > 0 then walk_down else walk_up)"

lemma set_walk: "set (walk d i l) = set (take i l) \<union> set (drop (i + 1) l)"
  by (auto simp: walk_def walk_down_def walk_up_def)

lemma neighbour_walk:
  "(if d > 0 then find_next_tiled_client s k else find_previous_tiled_client s k) = tiled_neighbour (walk d) s k"
  by (simp add: find_next_tiled_client_def find_previous_tiled_client_def walk_def)

text \<open>A tile that is asked to move, and where the request leads.\<close>

definition movable :: "focusing \<Rightarrow> monitor_key \<Rightarrow> client_key list \<Rightarrow> client_key \<Rightarrow> nat \<Rightarrow> bool" where
  "movable f m l k i \<longleftrightarrow> \<not> is_scrolling_layout (fc_cx f) \<and> get_selected_client_key (fc_state f) = Some k \<and> sel_mon (fc_state f) = Some m \<and>
     monitor_clients (fc_state f) m = Some l \<and> position (\<lambda>x. x = k) l = Some i \<and>
     (\<exists>c. slot_get (st_clients (fc_state f)) k = Some c \<and> \<not> is_floating (c_state c))"

lemma movestack_movable:
  assumes "movable f m l k i" "distinct l"
  shows "movestack env (Arg_Int d) f = (case List.find (is_tiled_and_visible (fc_state f)) (walk d i l) of None \<Rightarrow> (Inr (), f)
     | Some t \<Rightarrow> calls (Arrange_Monitor (Some m) False) (set_fc_state (set_clients m (map (exch k t) l) (fc_state f)) f))"
proof (cases "List.find (is_tiled_and_visible (fc_state f)) (walk d i l)")
  case None
  then show ?thesis using assms(1) by (auto simp: movestack_def neighbour_walk tiled_neighbour_def movable_def)
next
  case (Some t)
  have t: "t \<noteq> k" "t \<in> set l"
  proof -
    have p: "position (\<lambda>x. x = k) l = Some i" using assms(1) by (simp add: movable_def)
    have "walk d = walk_down \<or> walk d = walk_up" by (simp add: walk_def)
    then obtain rear where "walk d = walk_down \<and> rear = walk_up \<or> walk d = walk_up \<and> rear = walk_down" by blast
    with swap_there [where walk = "walk d", OF assms(2) p Some] show "t \<noteq> k" "t \<in> set l" by blast+
  qed
  then obtain j where j: "position (\<lambda>x. x = t) l = Some j" using position_ex [of t l "\<lambda>x. x = t"] by auto
  have "vec_swap i j l = map (exch k t) l" using assms vec_swap_exch [OF assms(2) _ j] by (auto simp: movable_def)
  then show ?thesis using assms(1) Some t(1) j
    by (auto simp: movestack_def neighbour_walk tiled_neighbour_def movable_def swap_clients_in_monitor_def calls_def set_clients_def set_fc_state_def)
qed

lemma movestack_stuck:
  assumes "\<not> is_scrolling_layout (fc_cx f)" "\<nexists>m l k i. movable f m l k i"
  shows "snd (movestack env (Arg_Int d) f) = f"
proof (cases "get_selected_client_key (fc_state f)")
  case (Some k)
  then obtain m where "sel_mon (fc_state f) = Some m" by (auto simp: get_selected_client_key_def split: option.splits)
  with Some assms show ?thesis
    by (auto simp: movestack_def neighbour_walk tiled_neighbour_def movable_def split: option.splits)
qed (use assms in \<open>simp add: movestack_def\<close>)

lemma set_clients_frame:
  "is_tiled_and_visible (set_clients m l s) = is_tiled_and_visible s" "get_selected_client_key (set_clients m l s) = get_selected_client_key s"
  "sel_mon (set_clients m l s) = sel_mon s" "st_clients (set_clients m l s) = st_clients s" "st_monitors (set_clients m l s) = st_monitors s"
  by (simp_all add: is_tiled_and_visible_def is_client_visible_by_key_def get_selected_client_key_def set_clients_def fun_eq_iff split: option.split)

lemma exch_group:
  assumes "group_ok s m l" "\<not> is_client_floating s k" "\<not> is_client_floating s t" "k \<in> set l" "t \<in> set l"
  shows "group_ok s m (map (exch k t) l)"
proof -
  have fl: "is_client_floating s (exch k t x) = is_client_floating s x" for x using assms(2,3) by (simp add: exch_def)
  have "tiled_first (is_client_floating s) (map (exch k t) l)" using assms(1) by (simp add: group_ok_def tiled_first_def sorted_wrt_map fl)
  moreover have "set (map (exch k t) l) = set l" using assms(4,5) by (auto simp: exch_def image_iff)
  ultimately show ?thesis using assms(1) distinct_exch by (simp add: group_ok_def)
qed

text \<open>
  C33. Moving a tile in the list and moving it back restores the list, around the ends too and past
  hidden or floating windows; in between the list stays well formed, and the focus history is never
  touched.
\<close>

theorem movestack_there_and_back:
  assumes "wf_lists (fc_state f)" "\<not> is_scrolling_layout (fc_cx f)" "d \<noteq> 0"
    "f1 = snd (movestack env (Arg_Int d) f)" "f2 = snd (movestack env (Arg_Int (- d)) f1)"
  shows "monitor_clients (fc_state f2) = monitor_clients (fc_state f) \<and> wf_lists (fc_state f1) \<and>
    monitor_stack (fc_state f1) = monitor_stack (fc_state f) \<and> monitor_stack (fc_state f2) = monitor_stack (fc_state f)"
proof (cases "\<exists>m l k i. movable f m l k i")
  case False
  then have "f1 = f" "f2 = f" using movestack_stuck [OF assms(2)] assms(4,5) by auto
  then show ?thesis using assms(1) by simp
next
  case True
  then obtain m l k i where mv: "movable f m l k i" by blast
  then have l: "monitor_clients (fc_state f) m = Some l" and p: "position (\<lambda>x. x = k) l = Some i"
    and kf: "\<not> is_client_floating (fc_state f) k" by (auto simp: movable_def is_client_floating_def)
  have g: "group_ok (fc_state f) m l" using assms(1) l by (simp add: wf_lists_def)
  then have d: "distinct l" by (simp add: group_ok_def)
  have dirs: "walk d = walk_down \<and> walk (- d) = walk_up \<or> walk d = walk_up \<and> walk (- d) = walk_down" using assms(3) by (auto simp: walk_def)
  show ?thesis
  proof (cases "List.find (is_tiled_and_visible (fc_state f)) (walk d i l)")
    case None
    then have "List.find (is_tiled_and_visible (fc_state f)) (walk (- d) i l) = None" unfolding find_None_iff set_walk by simp
    with None have "f1 = f" "f2 = f" using movestack_movable [OF mv d] assms(4,5) by auto
    then show ?thesis using assms(1) by simp
  next
    case (Some t)
    let ?l = "map (exch k t) l"
    note sw = swap_there [where walk = "walk d" and rear = "walk (- d)", OF d p Some dirs]
    have f1: "f1 = snd (calls (Arrange_Monitor (Some m) False) (set_fc_state (set_clients m ?l (fc_state f)) f))"
      using movestack_movable [OF mv d, of env d] Some assms(4) by simp
    then have s1: "fc_state f1 = set_clients m ?l (fc_state f)" and sc: "is_scrolling_layout (fc_cx f1) = is_scrolling_layout (fc_cx f)"
      by (simp_all add: calls_def set_fc_state_def is_scrolling_layout_def set_clients_def)
    have "k \<in> set l" using position_SomeD [OF p] by auto
    then have "k \<in> set ?l" using sw by (auto simp: exch_def intro!: image_eqI [of _ _ t])
    then obtain j where j: "position (\<lambda>x. x = k) ?l = Some j" using position_ex [of k ?l "\<lambda>x. x = k"] by auto
    have mv1: "movable f1 m ?l k j" using mv j unfolding movable_def
      by (simp add: s1 set_clients_frame sc)
    have "List.find (is_tiled_and_visible (fc_state f1)) (walk (- d) j ?l) = Some t" using sw j by (simp add: s1 set_clients_frame)
    with movestack_movable [OF mv1 distinct_exch [OF d], of env "- d"] assms(5)
    have "fc_state f2 = set_clients m (map (exch k t) ?l) (fc_state f1)" by (simp add: calls_def set_fc_state_def)
    then have s2: "fc_state f2 = set_clients m l (set_clients m ?l (fc_state f))" by (simp add: s1 comp_def)
    have "\<not> is_client_floating (fc_state f) t"
      using Some by (auto simp: find_split is_tiled_and_visible_def is_client_floating_def split: option.splits)
    then have "wf_lists (fc_state f1)" unfolding s1
      using wf_lists_set_clients [OF assms(1)] exch_group [OF g kf] sw \<open>k \<in> set l\<close> by blast
    then show ?thesis using l by (simp add: s2 s1 fun_upd_idem)
  qed
qed

definition three_tiles :: focusing where
  "three_tiles = two_windows\<lparr>fc_cx := (fc_cx two_windows)\<lparr>cx_state := (fc_state two_windows)\<lparr>
     st_clients := [(1, (sample_client False)\<lparr>c_win := 11\<rparr>), (2, (sample_client False)\<lparr>c_win := 12\<rparr>), (3, (sample_client False)\<lparr>c_win := 13\<rparr>)],
     monitor_clients := [1 \<mapsto> [3, 2, 1]], monitor_stack := [1 \<mapsto> [1, 2, 3]]\<rparr>\<rparr>\<rparr>"

lemma sample_monitor_view: "get_active_tags sample_monitor = 1" "mon_lt sample_monitor \<noteq> LAYOUT_SCROLLING"
  by code_simp+

lemma three_tiles_simps:
  "sel_mon (fc_state three_tiles) = Some 1" "monitor_clients (fc_state three_tiles) = [1 \<mapsto> [3, 2, 1]]"
  "monitor_stack (fc_state three_tiles) = [1 \<mapsto> [1, 2, 3]]"
  "slot_get (st_clients (fc_state three_tiles)) k = (if k = 1 \<or> k = 2 \<or> k = 3 then Some ((sample_client False)\<lparr>c_win := k + 10\<rparr>) else None)"
  "slot_get (st_monitors (fc_state three_tiles)) m = (if m = 1 then Some (sample_monitor\<lparr>mon_sel := Some 1\<rparr>) else None)"
  "monitor_of (fc_cx three_tiles) m = (if m = 1 then Some (sample_monitor\<lparr>mon_sel := Some 1\<rparr>) else None)"
  "is_client_floating (fc_state three_tiles) k = False" "client_mon (fc_state three_tiles) k = (if k = 1 \<or> k = 2 \<or> k = 3 then Some 1 else None)"
  "is_floating (c_state (sample_client False)) = False"
  "get_active_tags (sample_monitor\<lparr>mon_sel := Some 1\<rparr>) = 1" "(mon_lt sample_monitor = LAYOUT_SCROLLING) = False"
  by (auto simp: three_tiles_def two_windows_def slot_get_def is_client_floating_def client_mon_def sample_client_def sample_monitor_view
      active_mon_sel)

definition easy_env :: nav_env where
  "easy_env = \<lparr>ne_focus = willing, ne_area = area_cfg, ne_shell = idle_shell, ne_tags_length = 9, lock_fullscreen = False,
     ne_compositor = True, animation_enabled = True, shell_panel_active = False, swipe_active = False, writes_desktop = True,
     writes_tag_props = True, restacks = (\<lambda>_. True)\<rparr>"

theorem movestack_there_and_back_witness:
  "monitor_clients (fc_state (snd (movestack easy_env (Arg_Int (- 1)) (snd (movestack easy_env (Arg_Int 1) three_tiles))))) 1 = Some [3, 2, 1] \<and>
   monitor_clients (fc_state (snd (movestack easy_env (Arg_Int 1) three_tiles))) 1 = Some [1, 2, 3]"
proof
  have "tiled_first (is_client_floating (fc_state three_tiles)) [3, 2, 1]" by (simp add: tiled_first_def three_tiles_simps)
  then have w: "wf_lists (fc_state three_tiles)" by (auto simp: wf_lists_def group_ok_def three_tiles_simps split: if_splits)
  have n: "\<not> is_scrolling_layout (fc_cx three_tiles)" by (simp add: is_scrolling_layout_def three_tiles_simps or_else_def)
  have "monitor_clients (fc_state three_tiles) 1 = Some [3, 2, 1]" by (simp add: three_tiles_simps)
  then show "monitor_clients (fc_state (snd (movestack easy_env (Arg_Int (- 1)) (snd (movestack easy_env (Arg_Int 1) three_tiles))))) 1 = Some [3, 2, 1]"
    using movestack_there_and_back [OF w n _ refl refl, of 1 easy_env] by simp
  have "movable three_tiles 1 [3, 2, 1] 1 2"
    unfolding movable_def using n by (simp add: three_tiles_simps get_selected_client_key_def)
  moreover have "List.find (is_tiled_and_visible (fc_state three_tiles)) (walk 1 2 [3, 2, 1]) = Some 3"
    by (simp add: walk_def walk_down_def is_tiled_and_visible_def visible_by_tags three_tiles_simps
        sample_client_def client_state_default_def wm_client_new_def active_mon_sel sample_monitor_view)
  ultimately show "monitor_clients (fc_state (snd (movestack easy_env (Arg_Int 1) three_tiles))) 1 = Some [1, 2, 3]"
    using movestack_movable [of three_tiles 1 "[3, 2, 1]" 1 2 easy_env 1] by (simp add: calls_def set_fc_state_def exch_def)
qed

section \<open>Neighbouring tags\<close>

lemma next_tag_cycle:
  assumes "sel_mon s = Some m" "slot_get (st_monitors s) m = Some mon" "get_active_tags mon = push_bit i 1" "i < nav_tags env"
  shows "calculate_next_tag env 1 s = push_bit ((i + 1) mod nav_tags env) 1"
    "calculate_next_tag env (- 1) s = push_bit ((i + nav_tags env - 1) mod nav_tags env) 1"
proof -
  have n: "nav_tags env \<le> 31" by (simp add: nav_tags_def)
  then have i: "i < 32" using assms(4) by simp
  then have "trailing_zeros (push_bit i 1) = i" by (rule trailing_zeros_single)
  moreover have "(push_bit i 1 :: 32 word) \<noteq> 0"
  proof
    assume "(push_bit i 1 :: 32 word) = 0"
    then have "bit (0 :: 32 word) i" using bit_single [OF i, of i] by (simp only: simp_thms)
    then show False by simp
  qed
  ultimately have c: "(if get_active_tags mon = 0 then 0 else trailing_zeros (get_active_tags mon)) mod nav_tags env = i" using assms(3,4) by simp
  show "calculate_next_tag env 1 s = push_bit ((i + 1) mod nav_tags env) 1"
    unfolding calculate_next_tag_def Let_def assms(1) option.case assms(2) c by simp
  have "(if i = 0 then nav_tags env - 1 else i - 1) = (i + nav_tags env - 1) mod nav_tags env"
    using assms(4) by (cases i) (simp_all add: mod_if)
  then show "calculate_next_tag env (- 1) s = push_bit ((i + nav_tags env - 1) mod nav_tags env) 1"
    unfolding calculate_next_tag_def Let_def assms(1) option.case assms(2) c by simp
qed

end
