(* ===== verification/Nav_Session.thy ===== *)
theory Nav_Session
  imports Navigation
begin

text \<open>
  What holds across navigation commands, however they follow each other and whatever the backend
  refuses: the lists stay well formed, no window is lost, every window keeps a tag and every
  monitor shows one. Also where a change of the viewed tags ends.
\<close>

section \<open>Sound operations\<close>

definition nav_ok :: "focusing \<Rightarrow> bool" where
  "nav_ok f \<longleftrightarrow> focus_ok f \<and> (\<forall>k c. slot_get (st_clients (fc_state f)) k = Some c \<longrightarrow> cs_tags (c_state c) \<noteq> 0)"

definition keeps_windows :: "wm_state \<Rightarrow> wm_state \<Rightarrow> bool" where
  "keeps_windows s s' \<longleftrightarrow> (\<forall>m l. monitor_clients s m = Some l \<longrightarrow> (\<exists>l'. monitor_clients s' m = Some l' \<and> set l \<subseteq> set l')) \<and>
     (\<forall>k. map_option (\<lambda>c. (c_win c, c_mon c)) (slot_get (st_clients s') k) = map_option (\<lambda>c. (c_win c, c_mon c)) (slot_get (st_clients s) k))"

definition sound_at :: "focusing \<Rightarrow> focusing \<Rightarrow> bool" where
  "sound_at f f' \<longleftrightarrow> (nav_ok f \<longrightarrow> nav_ok f' \<and> keeps_windows (fc_state f) (fc_state f'))"

definition sound :: "'a focus_op \<Rightarrow> bool" where
  "sound p \<longleftrightarrow> (\<forall>f. sound_at f (snd (p f)))"

named_theorems sound_intros

lemma keeps_windows_refl: "keeps_windows s s"
  by (simp add: keeps_windows_def)

lemma keeps_windows_trans: "keeps_windows a b \<Longrightarrow> keeps_windows b c \<Longrightarrow> keeps_windows a c"
  unfolding keeps_windows_def by simp (meson subset_trans)

lemma sound_at_refl: "sound_at f f"
  by (simp add: sound_at_def keeps_windows_refl)

lemma sound_at_trans: "sound_at a b \<Longrightarrow> sound_at b c \<Longrightarrow> sound_at a c"
  using keeps_windows_trans by (auto simp: sound_at_def)

lemma sound_and_then [sound_intros]: "sound p \<Longrightarrow> (\<And>x. sound (q x)) \<Longrightarrow> sound (and_do p q)"
  unfolding sound_def and_do_def by (auto split: prod.splits sum.splits) (metis snd_conv sound_at_trans)+

lemma sound_after: "sound_at f f1 \<Longrightarrow> sound p \<Longrightarrow> sound_at f (snd (p f1))"
  unfolding sound_def using sound_at_trans by blast

lemma sound_Pair [sound_intros]: "sound (Pair r)"
  by (simp add: sound_def sound_at_refl)

lemma same_windows_keeps:
  assumes "same_windows s s'"
  shows "keeps_windows s s'" "\<forall>k. map_option (\<lambda>c. cs_tags (c_state c)) (slot_get (st_clients s') k) = map_option (\<lambda>c. cs_tags (c_state c)) (slot_get (st_clients s) k)"
proof -
  have e: "map_option (g \<circ> calm) (slot_get (st_clients s') k) = map_option (g \<circ> calm) (slot_get (st_clients s) k)" for g :: "wm_client \<Rightarrow> 'x" and k
    using assms by (simp add: same_windows_def flip: option.map_comp)
  show "keeps_windows s s'" using assms e [of "\<lambda>c. (c_win c, c_mon c)"] by (simp add: keeps_windows_def same_windows_def comp_def calm_def)
  show "\<forall>k. map_option (\<lambda>c. cs_tags (c_state c)) (slot_get (st_clients s') k) = map_option (\<lambda>c. cs_tags (c_state c)) (slot_get (st_clients s) k)"
    using e [of "\<lambda>c. cs_tags (c_state c)"] by (simp add: comp_def calm_def)
qed

definition tagged :: "wm_state \<Rightarrow> bool" where
  "tagged s \<longleftrightarrow> (\<forall>k. map_option (\<lambda>c. cs_tags (c_state c)) (slot_get (st_clients s) k) \<noteq> Some 0)"

lemma nav_ok_tagged: "nav_ok f \<longleftrightarrow> focus_ok f \<and> tagged (fc_state f)"
  by (auto simp: nav_ok_def tagged_def map_option_eq_Some)

lemma sound_steady: "steady p \<Longrightarrow> sound p"
  unfolding sound_def sound_at_def nav_ok_tagged steady_def tagged_def using same_windows_keeps by metis

lemma sound_focus [sound_intros]: "sound (focus env k)"
  by (rule sound_steady) (rule steady_focus)

lemma sound_accepted [sound_intros]: "sound (accepted ok)"
  by (rule sound_steady) (rule steady_accepted)

lemma sound_calls [sound_intros]: "sound (calls c)"
  by (rule sound_steady, rule steady_same_state) (simp add: calls_def)

lemma sound_opt_call [sound_intros]: "sound (opt_call c)"
  by (cases c) (simp_all add: opt_call_def sound_intros)

text \<open>A change of the state of the window manager, and one of the layout context.\<close>

lemma sound_at_state:
  assumes "nav_ok f \<Longrightarrow> wf_lists s" "nav_ok f \<Longrightarrow> (\<And>m mon. slot_get (st_monitors s) m = Some mon \<Longrightarrow> live_monitor mon)"
    "nav_ok f \<Longrightarrow> tagged s" "nav_ok f \<Longrightarrow> keeps_windows (fc_state f) s"
  shows "sound_at f (set_fc_state s f)"
  using assms by (auto simp: sound_at_def nav_ok_tagged focus_ok_def cx_live_def set_fc_state_def)

lemma sound_at_cx:
  assumes "nav_ok f \<Longrightarrow> cx_live cx" "st_clients (cx_state cx) = st_clients (fc_state f)" "monitor_clients (cx_state cx) = monitor_clients (fc_state f)"
    "monitor_stack (cx_state cx) = monitor_stack (fc_state f)"
  shows "sound_at f (f\<lparr>fc_cx := cx\<rparr>)"
proof -
  have "is_client_floating (cx_state cx) = is_client_floating (fc_state f)" "client_mon (cx_state cx) = client_mon (fc_state f)"
    using assms(2) by (simp_all add: is_client_floating_def client_mon_def fun_eq_iff)
  then show ?thesis using assms
    by (simp add: sound_at_def nav_ok_tagged focus_ok_def tagged_def keeps_windows_def wf_lists_def group_ok_def)
qed

lemma cx_live_update:
  assumes "cx_live cx" "\<And>mon. live_monitor mon \<Longrightarrow> monitor_of cx m = Some mon \<Longrightarrow> live_monitor (g mon)"
  shows "cx_live (update_monitor m g cx)"
  using assms by (auto simp: cx_live_def update_monitor_def slot_simps)

lemma resizes_live: "live_monitor mon \<Longrightarrow> live_monitor (mon\<lparr>layout_resizes := r\<rparr>)"
proof -
  have "get_active_tags (mon\<lparr>layout_resizes := r\<rparr>) = get_active_tags mon" by (simp add: get_active_tags_def tag_at_def)
  then show "live_monitor mon \<Longrightarrow> live_monitor (mon\<lparr>layout_resizes := r\<rparr>)"
    by (simp add: live_monitor_def wf_monitor_def mirrors_slot_def has_pertag_def split: option.splits)
qed

lemma sound_clear_resize: "sound_at f (f\<lparr>fc_cx := clear_current_layout_resize (fc_cx f)\<rparr>)"
  by (rule sound_at_cx) (auto simp: clear_current_layout_resize_def nav_ok_def focus_ok_def update_monitor_def
      intro!: cx_live_update [unfolded update_monitor_def] resizes_live split: option.splits)

section \<open>Commands of the scrolling layout\<close>

lemma put_live:
  assumes "cx_live cx" "wf_scrolling t"
  shows "cx_live (put_strip m t cx)"
  using assms by (auto simp: cx_live_def put_strip_def split: option.splits)

lemma live_strip: "cx_live cx \<Longrightarrow> scrolling_state_for_monitor m cx = Some st \<Longrightarrow> wf_scrolling st"
  by (auto simp: cx_live_def scrolling_state_for_monitor_def split: bind_splits)

lemma keeps_strip_wf: "keeps_strip s t \<Longrightarrow> wf_scrolling t"
  by (simp add: keeps_strip_def)

lemma scrolling_commands_live:
  assumes "cx_live cx"
  shows "cx_live (snd (scrolling_focus_window arg cx)) \<and> cx_state (snd (scrolling_focus_window arg cx)) = cx_state cx"
    "cx_live (snd (scrolling_focus_column arg cx)) \<and> cx_state (snd (scrolling_focus_column arg cx)) = cx_state cx"
    "cx_live (snd (scrolling_move_column arg cx)) \<and> cx_state (snd (scrolling_move_column arg cx)) = cx_state cx"
proof -
  note wf = live_strip [OF assms]
  show "cx_live (snd (scrolling_focus_window arg cx)) \<and> cx_state (snd (scrolling_focus_window arg cx)) = cx_state cx"
    using assms wf by (auto simp: scrolling_focus_window_def get_scrolling_state_for_sel_mon_def put_live remember_focus_wf split: option.splits)
  show "cx_live (snd (scrolling_focus_column arg cx)) \<and> cx_state (snd (scrolling_focus_column arg cx)) = cx_state cx"
  proof -
    have "wf_scrolling s1" if "scrolling_state_for_monitor m cx = Some s" "strip_focus_column sel dir s = (s1, t)" for m s sel dir s1 t
      using strip_focus_column_keeps [OF wf [OF that(1)] that(2)] keeps_strip_wf by blast
    then show ?thesis using assms
      by (auto simp: scrolling_focus_column_def put_live remember_focus_wf split: option.splits prod.splits)
  qed
  show "cx_live (snd (scrolling_move_column arg cx)) \<and> cx_state (snd (scrolling_move_column arg cx)) = cx_state cx"
  proof -
    have "wf_scrolling s1" if "scrolling_state_for_monitor m cx = Some s" "strip_move_column sel dir s = Some s1" for m s sel dir s1
      using strip_move_column_keeps [OF wf [OF that(1)] that(2)] by (rule keeps_strip_wf)
    then show ?thesis using assms by (auto simp: scrolling_move_column_def put_live split: option.splits)
  qed
qed

lemma sound_follow [sound_intros]: "sound (run_follow env xs)"
proof (induction xs)
  case (Cons x xs)
  have "sound (case x of Focus_Client k \<Rightarrow> focus (ne_focus env) (Some k) | Arrange m \<Rightarrow> calls (Arrange_Monitor (Some m) False) | _ \<Rightarrow> Pair (Inr ()))"
    by (cases x) (simp_all add: sound_intros)
  with Cons show ?case by (simp add: sound_and_then)
qed (simp add: sound_intros)

lemma sound_scrolling:
  assumes "\<And>cx. cx_live cx \<Longrightarrow> cx_live (snd (cmd cx)) \<and> cx_state (snd (cmd cx)) = cx_state cx"
  shows "sound (run_scrolling env cmd)"
proof -
  have "sound_at f (snd (run_scrolling env cmd f))" for f
  proof (cases "nav_ok f")
    case True
    then have c: "cx_live (snd (cmd (fc_cx f)))" "cx_state (snd (cmd (fc_cx f))) = fc_state f" using assms [of "fc_cx f"] by (auto simp: nav_ok_def focus_ok_def)
    then have a: "sound_at f (f\<lparr>fc_cx := snd (cmd (fc_cx f))\<rparr>)" by (intro sound_at_cx) simp_all
    show ?thesis
    proof (cases "cmd (fc_cx f)")
      case (Pair r cx)
      with a show ?thesis by (cases r) (simp_all add: run_scrolling_def sound_after [OF _ sound_follow])
    qed
  qed (simp add: sound_at_def)
  then show ?thesis by (simp add: sound_def)
qed

section \<open>Commands on windows\<close>

lemma tagged_update:
  assumes "tagged s" "\<And>st. cs_tags st \<noteq> 0 \<Longrightarrow> cs_tags (g st) \<noteq> 0"
  shows "tagged (client_state_update k g s)"
  using assms by (auto simp: tagged_def slot_get_client_state_update map_option_eq_Some)

lemma keeps_update: "keeps_windows s (client_state_update k g s)"
  by (simp add: keeps_windows_def slot_get_client_state_update option.map_comp comp_def)

lemma wf_lists_update:
  assumes "wf_lists s" "\<And>st. is_floating (g st) = is_floating st"
  shows "wf_lists (client_state_update k g s)"
proof -
  have "is_client_floating (client_state_update k g s) = is_client_floating s"
    using assms(2) by (auto simp: is_client_floating_def slot_get_client_state_update fun_eq_iff split: option.splits)
  then show ?thesis using assms(1) by (simp add: wf_lists_def group_ok_def)
qed

lemma sound_update:
  assumes "\<And>st. is_floating (g st) = is_floating st" "\<And>st. cs_tags st \<noteq> 0 \<Longrightarrow> cs_tags (g st) \<noteq> 0"
  shows "sound_at f (set_fc_state (client_state_update k g (fc_state f)) f)"
proof (rule sound_at_state)
  assume ok: "nav_ok f"
  then show "wf_lists (client_state_update k g (fc_state f))" by (simp add: nav_ok_def focus_ok_def wf_lists_update assms(1))
  show "live_monitor mon" if "slot_get (st_monitors (client_state_update k g (fc_state f))) m = Some mon" for m mon
    using ok that by (auto simp: nav_ok_def focus_ok_def cx_live_def)
  show "tagged (client_state_update k g (fc_state f))" using ok by (simp add: nav_ok_tagged tagged_update assms(2))
qed (simp add: keeps_update)

lemma live_state: "nav_ok f \<Longrightarrow> slot_get (st_monitors (fc_state f)) m = Some mon \<Longrightarrow> live_monitor mon"
  by (simp add: nav_ok_def focus_ok_def cx_live_def)

lemma sound_movestack [sound_intros]: "sound (movestack env arg)"
proof -
  have "sound_at f (snd (movestack env arg f))" for f
  proof (cases "is_scrolling_layout (fc_cx f)")
    case True
    have "sound (run_scrolling env (scrolling_move_column arg))" by (rule sound_scrolling) (rule scrolling_commands_live(3))
    then show ?thesis using True by (simp add: movestack_def sound_def)
  next
    case n: False
    show ?thesis
    proof (cases "nav_ok f \<and> (\<exists>d. arg = Arg_Int d) \<and> (\<exists>m l k i. movable f m l k i)")
      case False
      have "snd (movestack env arg f) = f" if "nav_ok f"
        using that False n movestack_stuck [OF n] by (cases arg) (auto simp: movestack_def)
      then show ?thesis by (simp add: sound_at_def keeps_windows_refl)
    next
      case True
      then obtain d m l k i where a: "nav_ok f" "arg = Arg_Int d" and mv: "movable f m l k i" by blast
      have w: "wf_lists (fc_state f)" using a(1) by (simp add: nav_ok_def focus_ok_def)
      have l: "monitor_clients (fc_state f) m = Some l" "position (\<lambda>x. x = k) l = Some i" "\<not> is_client_floating (fc_state f) k"
        using mv by (auto simp: movable_def is_client_floating_def)
      have g: "group_ok (fc_state f) m l" using w l(1) by (simp add: wf_lists_def)
      then have dl: "distinct l" by (simp add: group_ok_def)
      show ?thesis
      proof (cases "List.find (is_tiled_and_visible (fc_state f)) (walk d i l)")
        case None
        then show ?thesis using movestack_movable [OF mv dl] a(2) by (simp add: sound_at_refl)
      next
        case (Some t)
        have t: "\<not> is_client_floating (fc_state f) t" "t \<in> set l"
          using Some set_walk [of d i l]
          by (auto simp: find_split is_tiled_and_visible_def is_client_floating_def split: option.splits dest: in_set_takeD in_set_dropD)
        have kl: "k \<in> set l" using position_SomeD [OF l(2)] by auto
        note g1 = exch_group [OF g l(3) t(1) kl t(2)]
        have "set (map (exch k t) l) = set l" using kl t(2) by (auto simp: exch_def image_iff)
        then have "sound_at f (set_fc_state (set_clients m (map (exch k t) l) (fc_state f)) f)"
          using a(1) w l(1) g1 live_state [OF a(1)]
          by (intro sound_at_state) (auto simp: wf_lists_set_clients tagged_def keeps_windows_def set_clients_frame nav_ok_tagged)
        then show ?thesis using movestack_movable [OF mv dl] Some a(2) sound_after [OF _ sound_calls] by simp
      qed
    qed
  qed
  then show ?thesis by (simp add: sound_def)
qed

lemma sound_front: "sound_at f (set_fc_state (move_to_front k (fc_state f)) f)"
proof (cases "client_mon (fc_state f) k")
  case None
  then show ?thesis by (simp add: move_to_front_def set_fc_state_def sound_at_refl)
next
  case (Some m)
  let ?s = "fc_state f"
  define s1 where "s1 = (if is_client_floating ?s k then ?s else splice_restore_anchors m k ?s)"
  have sb: "same_but_anchors ?s s1" by (simp add: s1_def splice_same same_but_anchors_refl)
  note sd = same_but_anchorsD [OF sb]
  have e: "map_option (g \<circ> (\<lambda>c. c\<lparr>c_state := (c_state c)\<lparr>maximize_restore_anchor := None\<rparr>\<rparr>)) (slot_get (st_clients s1) x) =
      map_option (g \<circ> (\<lambda>c. c\<lparr>c_state := (c_state c)\<lparr>maximize_restore_anchor := None\<rparr>\<rparr>)) (slot_get (st_clients ?s) x)"
    for g :: "wm_client \<Rightarrow> 'x" and x using sb by (simp add: same_but_anchors_def flip: option.map_comp)
  have mv: "move_to_front k ?s = (case monitor_clients s1 m of None \<Rightarrow> s1
      | Some l \<Rightarrow> set_clients m (vec_insert (if is_client_floating ?s k then or_else (position (is_client_floating s1) (remove_first k l)) (length (remove_first k l)) else 0)
          k (remove_first k l)) s1)" unfolding move_to_front_def Some option.case Let_def s1_def ..
  have c: "st_clients (move_to_front k ?s) = st_clients s1" "st_monitors (move_to_front k ?s) = st_monitors ?s"
    by (auto simp: mv sd set_clients_frame split: option.split)
  have t: "map_option (\<lambda>c. cs_tags (c_state c)) (slot_get (st_clients s1) x) = map_option (\<lambda>c. cs_tags (c_state c)) (slot_get (st_clients ?s) x)" for x
    using e [of "\<lambda>c. cs_tags (c_state c)"] by (simp add: comp_def)
  have w: "map_option (\<lambda>c. (c_win c, c_mon c)) (slot_get (st_clients s1) x) = map_option (\<lambda>c. (c_win c, c_mon c)) (slot_get (st_clients ?s) x)" for x
    using e [of "\<lambda>c. (c_win c, c_mon c)"] by (simp add: comp_def)
  show ?thesis
  proof (rule sound_at_state)
    assume ok: "nav_ok f"
    then have wl: "wf_lists ?s" by (simp add: nav_ok_def focus_ok_def)
    then show "wf_lists (move_to_front k ?s)" by (rule move_to_front_wf)
    show "live_monitor mon" if "slot_get (st_monitors (move_to_front k ?s)) m' = Some mon" for m' mon
      using that live_state [OF ok] by (simp add: c)
    show "tagged (move_to_front k ?s)" using ok by (simp add: nav_ok_tagged tagged_def c t)
    have "set l \<subseteq> set (vec_insert i k (remove_first k l))" if "distinct l" for i l
      using that by (auto simp: set_vec_insert set_remove_first)
    then show "keeps_windows ?s (move_to_front k ?s)" using wl w
      by (auto simp: keeps_windows_def mv sd set_clients_frame wf_lists_def group_ok_def split: option.splits)
  qed
qed

lemma sound_pop: "sound_at f (pop env k f)"
proof -
  have "sound_at f (snd (focus (ne_focus env) (Some k) (set_fc_state (move_to_front k (fc_state f)) f)))"
    by (rule sound_after [OF sound_front sound_focus])
  then show ?thesis by (auto simp: pop_def Let_def sound_at_refl sound_after [OF _ sound_calls] split: option.split)
qed

lemma sound_zoom [sound_intros]: "sound (zoom env)"
proof -
  have "sound_at f (pop env k (f\<lparr>fc_cx := clear_current_layout_resize (fc_cx f)\<rparr>))" for f k
    by (rule sound_at_trans [OF sound_clear_resize sound_pop])
  then show ?thesis by (auto simp: sound_def zoom_def sound_at_refl split: option.split)
qed

lemma sound_setcfact [sound_intros]: "sound (setcfact env arg)"
proof -
  have s: "sound (run_scrolling env (scrolling_focus_column a))" for a by (rule sound_scrolling) (rule scrolling_commands_live(2))
  have "sound_at f (set_fc_state (client_state_update k (\<lambda>st. st\<lparr>client_fact := x\<rparr>) (fc_state f)) f)" for f k x
    by (rule sound_update) simp_all
  then have u: "sound_at f (snd (calls c (set_fc_state (client_state_update k (\<lambda>st. st\<lparr>client_fact := x\<rparr>) (fc_state f)) f)))" for f k x c
    by (rule sound_after [OF _ sound_calls])
  have "sound_at f (snd (setcfact env arg f))" for f
  proof (cases "is_scrolling_layout (fc_cx f) \<and> (\<exists>v. arg = Arg_Float v)")
    case True
    then show ?thesis using s by (auto simp: setcfact_def sound_def sound_at_refl)
  next
    case False
    let ?f1 = "f\<lparr>fc_cx := clear_current_layout_resize (fc_cx f)\<rparr>"
    define g where "g = (case (get_selected_client_key (fc_state ?f1), arg) of
             (Some k, Arg_Float v) \<Rightarrow> (case slot_get (st_clients (fc_state ?f1)) k of None \<Rightarrow> (Inr (), ?f1)
               | Some c \<Rightarrow> (case adjusted_client_factor (client_fact (c_state c)) v of None \<Rightarrow> (Inr (), ?f1)
                   | Some x \<Rightarrow> calls (Arrange_Monitor (sel_mon (fc_state ?f1)) False)
                       (set_fc_state (client_state_update k (\<lambda>st. st\<lparr>client_fact := x\<rparr>) (fc_state ?f1)) ?f1)))
           | _ \<Rightarrow> (Inr (), ?f1))"
    have "setcfact env arg f = g" unfolding g_def setcfact_def Let_def using False
      by (cases "is_scrolling_layout (fc_cx f)"; cases arg) simp_all
    moreover have "sound_at ?f1 (snd g)" unfolding g_def using u [of ?f1]
      by (auto simp: sound_at_refl split: option.split wm_arg.split)
    ultimately show ?thesis using sound_at_trans [OF sound_clear_resize] by simp
  qed
  then show ?thesis by (simp add: sound_def)
qed

lemma togglebar_live:
  assumes "live_monitor mon" "mon_pertag mon = Some p"
  shows "live_monitor (mon\<lparr>mon_pertag := Some (p\<lparr>show_bars := (show_bars p)[i := b]\<rparr>)\<rparr>)"
proof -
  have "get_active_tags (mon\<lparr>mon_pertag := q\<rparr>) = get_active_tags mon" for q by (simp add: get_active_tags_def tag_at_def)
  then show ?thesis using assms by (simp add: live_monitor_def wf_monitor_def mirrors_slot_def wf_pertag_def has_pertag_def)
qed

lemma mark_dirty_frame: "cx_state (mark_layout_dirty cx) = cx_state cx" "cx_strips (mark_layout_dirty cx) = cx_strips cx"
  by (simp_all add: mark_layout_dirty_def)

lemma sound_togglebar [sound_intros]: "sound togglebar"
proof -
  have "sound_at f (f\<lparr>fc_cx := mark_layout_dirty (update_monitor m (\<lambda>mon. mon\<lparr>mon_pertag := Some (p\<lparr>show_bars := (show_bars p)[cur_tag p := \<not> b]\<rparr>)\<rparr>) (fc_cx f))\<rparr>)"
    if "monitor_of (fc_cx f) m = Some mon" "mon_pertag mon = Some p" for f m mon p b
  proof (rule sound_at_cx)
    assume "nav_ok f"
    then have "cx_live (update_monitor m (\<lambda>mon. mon\<lparr>mon_pertag := Some (p\<lparr>show_bars := (show_bars p)[cur_tag p := \<not> b]\<rparr>)\<rparr>) (fc_cx f))"
      using that togglebar_live by (intro cx_live_update) (auto simp: nav_ok_def focus_ok_def)
    then show "cx_live (mark_layout_dirty (update_monitor m (\<lambda>mon. mon\<lparr>mon_pertag := Some (p\<lparr>show_bars := (show_bars p)[cur_tag p := \<not> b]\<rparr>)\<rparr>) (fc_cx f)))"
      by (simp add: cx_live_def mark_dirty_frame)
  qed (simp_all add: mark_dirty_frame update_monitor_def)
  then show ?thesis by (auto simp: sound_def togglebar_def sound_at_refl sound_after [OF _ sound_calls] split: option.split)
qed

section \<open>Commands on tags\<close>

lemma sound_toggletag [sound_intros]: "sound (toggletag env arg)"
proof -
  have t: "sound (and_do (accepted (writes_tag_props env)) (\<lambda>_. and_do (focus (ne_focus env) None) (\<lambda>_ f1.
      calls (Arrange_Monitor (sel_mon (fc_state f1)) False) f1)))"
  proof (intro sound_and_then sound_accepted sound_focus)
    show "sound (\<lambda>f1. calls (Arrange_Monitor (sel_mon (fc_state f1)) False) f1)" using sound_calls by (simp add: sound_def)
  qed
  have "sound_at f (set_fc_state (client_state_update k (\<lambda>st. st\<lparr>cs_tags := w\<rparr>) (fc_state f)) f)" if "w > 0" for f k w
    using that by (intro sound_update) auto
  then have "sound_at f (snd (and_do (accepted (writes_tag_props env)) (\<lambda>_. and_do (focus (ne_focus env) None) (\<lambda>_ f1.
      calls (Arrange_Monitor (sel_mon (fc_state f1)) False) f1)) (set_fc_state (client_state_update k (\<lambda>st. st\<lparr>cs_tags := w\<rparr>) (fc_state f)) f)))"
    if "w > 0" for f k w using that by (intro sound_after [OF _ t])
  then show ?thesis
    by (auto simp: sound_def toggletag_def Let_def sound_at_refl split: option.split wm_arg.split)
qed

lemma sound_move_client_to_tag [sound_intros]: "sound (move_client_to_tag env k w)"
proof -
  have t: "sound (and_do (focus (ne_focus env) None) (\<lambda>_. calls c))" for c by (intro sound_and_then sound_calls sound_focus)
  have "sound_at f (snd (and_do (focus (ne_focus env) None) (\<lambda>_. calls c)
      (set_fc_state (client_state_update k (\<lambda>st. st\<lparr>cs_tags := v\<rparr>) (fc_state f)) f)))" if "v \<noteq> 0" for f v c
    using that by (intro sound_after [OF _ t] sound_update) auto
  then show ?thesis by (auto simp: sound_def move_client_to_tag_def Let_def sound_at_refl)
qed

lemma sound_tag [sound_intros]: "sound (tag env arg)"
  using sound_move_client_to_tag [of env] by (auto simp: sound_def tag_def sound_at_refl split: option.split wm_arg.split)

lemma sticky_frame:
  "wf_lists s \<Longrightarrow> wf_lists (fold (\<lambda>k. client_state_update k (\<lambda>st. if is_sticky st then st\<lparr>cs_tags := w\<rparr> else st)) ks s)"
  "w \<noteq> 0 \<Longrightarrow> tagged s \<Longrightarrow> tagged (fold (\<lambda>k. client_state_update k (\<lambda>st. if is_sticky st then st\<lparr>cs_tags := w\<rparr> else st)) ks s)"
  "keeps_windows s (fold (\<lambda>k. client_state_update k (\<lambda>st. if is_sticky st then st\<lparr>cs_tags := w\<rparr> else st)) ks s)"
  "st_monitors (fold (\<lambda>k. client_state_update k (\<lambda>st. if is_sticky st then st\<lparr>cs_tags := w\<rparr> else st)) ks s) = st_monitors s"
proof -
  show "wf_lists s \<Longrightarrow> wf_lists (fold (\<lambda>k. client_state_update k (\<lambda>st. if is_sticky st then st\<lparr>cs_tags := w\<rparr> else st)) ks s)"
    by (induction ks arbitrary: s) (simp_all add: wf_lists_update)
  show "w \<noteq> 0 \<Longrightarrow> tagged s \<Longrightarrow> tagged (fold (\<lambda>k. client_state_update k (\<lambda>st. if is_sticky st then st\<lparr>cs_tags := w\<rparr> else st)) ks s)"
    by (induction ks arbitrary: s) (simp_all add: tagged_update)
  show "keeps_windows s (fold (\<lambda>k. client_state_update k (\<lambda>st. if is_sticky st then st\<lparr>cs_tags := w\<rparr> else st)) ks s)"
  proof (induction ks arbitrary: s)
    case (Cons k ks)
    show ?case using keeps_windows_trans [OF keeps_update Cons.IH] by simp
  qed (simp add: keeps_windows_refl)
  show "st_monitors (fold (\<lambda>k. client_state_update k (\<lambda>st. if is_sticky st then st\<lparr>cs_tags := w\<rparr> else st)) ks s) = st_monitors s"
    by (induction ks arbitrary: s) simp_all
qed

lemma change_view_live:
  assumes "nav_ok f"
  shows "\<exists>old new s1. change_view w toggle m (fc_state f) = Some (old, new, s1) \<and>
    nav_ok (set_fc_state (update_sticky_tags m s1) f) \<and> keeps_windows (fc_state f) (update_sticky_tags m s1)"
proof (cases "slot_get (st_monitors (fc_state f)) m")
  case None
  then show ?thesis using assms
    by (simp add: change_view_def update_sticky_tags_def keeps_windows_refl) (simp add: set_fc_state_def)
next
  case (Some mon)
  obtain i mon1 where v: "view_tag w toggle mon = Some (i, mon1)" "live_monitor mon1" using view_tag_live [OF live_state [OF assms Some]] by blast
  let ?s1 = "(fc_state f)\<lparr>st_monitors := slot_update m (\<lambda>_. mon1) (st_monitors (fc_state f))\<rparr>"
  let ?s2 = "update_sticky_tags m ?s1"
  have s2: "?s2 = fold (\<lambda>k. client_state_update k (\<lambda>st. if is_sticky st then st\<lparr>cs_tags := get_active_tags mon1\<rparr> else st)) (or_else (monitor_clients ?s1 m) []) ?s1"
    by (simp add: update_sticky_tags_def slot_simps Some)
  have a: "get_active_tags mon1 \<noteq> 0" using v(2) by (simp add: live_monitor_def)
  have w1: "wf_lists ?s1" "tagged ?s1" using assms by (simp_all add: nav_ok_tagged focus_ok_def wf_lists_monitors tagged_def)
  have k1: "keeps_windows (fc_state f) ?s1" by (simp add: keeps_windows_def)
  have "wf_lists ?s2" "tagged ?s2" "keeps_windows ?s1 ?s2" "st_monitors ?s2 = st_monitors ?s1" unfolding s2
    using sticky_frame(1) [OF w1(1)] sticky_frame(2) [OF a w1(2)] sticky_frame(3,4) by blast+
  moreover have "live_monitor x" if "slot_get (st_monitors ?s1) m' = Some x" for m' x
    using that v(2) live_state [OF assms] by (auto simp: slot_simps split: if_splits)
  ultimately have "nav_ok (set_fc_state ?s2 f)" "keeps_windows (fc_state f) ?s2"
    using assms keeps_windows_trans [OF k1] by (auto simp: nav_ok_tagged focus_ok_def cx_live_def set_fc_state_def)
  then show ?thesis using v(1) by (simp add: change_view_def Some)
qed

lemma sound_change_view:
  assumes "change_view w toggle m (fc_state f) = Some (old, new, s1)"
  shows "sound_at f (set_fc_state (update_sticky_tags m s1) f)"
  using assms change_view_live [of f w toggle m] by (auto simp: sound_at_def set_fc_state_def)

lemma sound_finish_view: "sound (finish_view env c b k d)"
proof -
  have "sound (if b then focus (ne_focus env) k else Pair (Inr ()))" by (simp add: sound_intros)
  then show ?thesis unfolding finish_view_def by (intro sound_and_then sound_opt_call sound_calls sound_accepted)
qed

lemma sound_view_on_monitor [sound_intros]: "sound (view_on_monitor env m w)"
  unfolding sound_def view_on_monitor_def Let_def
  by (auto simp: sound_at_refl intro: sound_after [OF sound_change_view sound_finish_view] split: option.split bool.split simp del: Option.not_None_eq)

lemma sound_view [sound_intros]: "sound (view env arg)"
  using sound_view_on_monitor [of env] by (auto simp: sound_def view_def sound_at_refl split: option.split wm_arg.split)

lemma sound_loopview [sound_intros]: "sound (loopview env arg)"
  using sound_view [of env] by (auto simp: sound_def loopview_def sound_at_refl split: wm_arg.split)

lemma sound_toggleview [sound_intros]: "sound (toggleview env arg)"
  unfolding sound_def toggleview_def Let_def
  by (auto simp: sound_at_refl intro: sound_after [OF sound_change_view sound_finish_view] split: option.split wm_arg.split simp del: Option.not_None_eq)

lemma sound_focusstack [sound_intros]: "sound (focusstack env arg)"
proof -
  have s: "sound (run_scrolling env (scrolling_focus_window arg))" by (rule sound_scrolling) (rule scrolling_commands_live(1))
  have "sound (\<lambda>f2. case (if is_vstack_layout (fc_cx f2) then sel_mon (fc_state f2) else None) of
      None \<Rightarrow> (Inr (), f2) | Some m \<Rightarrow> calls (Arrange_Only m) f2)"
    using sound_calls by (auto simp: sound_def sound_at_refl split: option.split)
  then have "sound (and_do (accepted b) (\<lambda>_ f2. case (if is_vstack_layout (fc_cx f2) then sel_mon (fc_state f2) else None) of
      None \<Rightarrow> (Inr (), f2) | Some m \<Rightarrow> calls (Arrange_Only m) f2))" for b by (intro sound_and_then sound_accepted)
  then have "sound (\<lambda>f1. and_do (accepted (restacks env (sel_mon (fc_state f1)))) (\<lambda>_ f2.
      case (if is_vstack_layout (fc_cx f2) then sel_mon (fc_state f2) else None) of
        None \<Rightarrow> (Inr (), f2) | Some m \<Rightarrow> calls (Arrange_Only m) f2) f1)"
    by (simp add: sound_def)
  then have "sound (and_do (focus (ne_focus env) (Some k)) (\<lambda>_ f1. and_do (accepted (restacks env (sel_mon (fc_state f1)))) (\<lambda>_ f2.
      case (if is_vstack_layout (fc_cx f2) then sel_mon (fc_state f2) else None) of
        None \<Rightarrow> (Inr (), f2) | Some m \<Rightarrow> calls (Arrange_Only m) f2) f1))" for k
    by (intro sound_and_then sound_focus)
  then show ?thesis using s unfolding sound_def
    by (auto simp: focusstack_def sound_at_refl split: option.split wm_arg.split sum.split bool.split)
qed

section \<open>Sessions\<close>

datatype nav_command = Focusstack | Movestack | Zoom | Setcfact | Togglebar | View_Tags | Toggleview | Loopview | Tag | Toggletag
  | Focusmon | Focus_None | Refocus

fun run_nav :: "nav_env \<Rightarrow> nav_command \<Rightarrow> wm_arg \<Rightarrow> unit focus_op" where
  "run_nav env Focusstack arg = focusstack env arg"
| "run_nav env Movestack arg = movestack env arg"
| "run_nav env Zoom arg = zoom env"
| "run_nav env Setcfact arg = setcfact env arg"
| "run_nav env Togglebar arg = togglebar"
| "run_nav env View_Tags arg = view env arg"
| "run_nav env Toggleview arg = toggleview env arg"
| "run_nav env Loopview arg = loopview env arg"
| "run_nav env Tag arg = tag env arg"
| "run_nav env Toggletag arg = toggletag env arg"
| "run_nav env Focusmon arg = focusmon (ne_focus env) arg"
| "run_nav env Focus_None arg = focus_none (ne_focus env)"
| "run_nav env Refocus arg = refocus (ne_focus env)"

text \<open>A session: commands with their arguments, each in an environment of its own.\<close>

definition nav_session :: "(nav_env \<times> nav_command \<times> wm_arg) list \<Rightarrow> focusing \<Rightarrow> focusing" where
  "nav_session cmds f = fold (\<lambda>(env, c, arg) f. snd (run_nav env c arg f)) cmds f"

lemma sound_run_nav: "sound (run_nav env c arg)"
  by (cases c) (simp_all add: sound_intros sound_steady steady_focusmon steady_focus_none steady_refocus)

text \<open>
  C6. Whatever navigation commands follow each other, and whatever the backend refuses along the way:
  the client lists and focus stacks stay well formed, no window is lost from its monitor, every
  window keeps at least one tag, and every monitor shows at least one tag, with its live layout values
  those of the current tag.
\<close>

theorem navigation_session_keeps_windows:
  assumes "nav_ok f"
  shows "nav_ok (nav_session cmds f) \<and> keeps_windows (fc_state f) (fc_state (nav_session cmds f))"
proof -
  have "sound_at f (nav_session cmds f)"
  proof (induction cmds arbitrary: f)
    case (Cons x cmds)
    obtain env c arg where "x = (env, c, arg)" by (cases x)
    moreover have "sound_at f (snd (run_nav env c arg f))" using sound_run_nav by (simp add: sound_def)
    ultimately show ?case using sound_at_trans [OF _ Cons.IH] by (simp add: nav_session_def)
  qed (simp add: nav_session_def sound_at_refl)
  then show ?thesis using assms by (simp add: sound_at_def)
qed

lemma two_windows_nav_ok: "nav_ok two_windows"
proof -
  have "tagged (fc_state two_windows)"
    by (simp add: tagged_def two_windows_def shown_state_def slot_get_def sample_client_def)
  then show ?thesis using two_windows_ok by (simp add: nav_ok_tagged)
qed

theorem navigation_session_keeps_windows_witness:
  "nav_ok (nav_session [(easy_env, View_Tags, Arg_UInt 2), (easy_env, Toggleview, Arg_UInt 1), (easy_env, Zoom, Arg_Int 0)] two_windows)"
  using navigation_session_keeps_windows [OF two_windows_nav_ok] by blast

section \<open>Where a change of tags ends\<close>

lemma calls_frame: "fc_cx (snd (calls c f)) = fc_cx f" "focused_told (snd (calls c f)) = focused_told f" "fst (calls c f) = Inr ()"
  by (simp_all add: calls_def)

lemma opt_call_frame: "\<exists>f1. opt_call c f = (Inr (), f1) \<and> fc_cx f1 = fc_cx f \<and> focused_told f1 = focused_told f"
  by (cases c) (simp_all add: opt_call_def calls_def)

lemma finish_view_state:
  assumes "focus_ok f" "finish_view env c b k d f = (r, f')"
  shows "same_windows (fc_state f) (fc_state f')" "\<not> b \<Longrightarrow> fc_cx f' = fc_cx f \<and> focused_told f' = focused_told f"
    "b \<Longrightarrow> r = Inr () \<Longrightarrow> \<exists>f1 f2. fc_cx f1 = fc_cx f \<and> focus (ne_focus env) k f1 = (Inr (), f2) \<and> fc_cx f' = fc_cx f2 \<and> focused_told f' = focused_told f2"
proof -
  obtain f1 where f1: "opt_call c f = (Inr (), f1)" "fc_cx f1 = fc_cx f" "focused_told f1 = focused_told f" using opt_call_frame by blast
  have ok1: "focus_ok f1" using assms(1) f1(2) by (simp add: focus_ok_def)
  obtain r2 f2 where f2: "(if b then focus (ne_focus env) k else Pair (Inr ())) f1 = (r2, f2)" by (metis surj_pair)
  have e: "fc_cx f' = fc_cx f2 \<and> focused_told f' = focused_told f2 \<and> (r = Inr () \<longrightarrow> r2 = Inr ())"
    using assms(2) f1(1) f2 by (cases r2) (auto simp: finish_view_def and_do_def calls_def accepted_def)
  have "steady (if b then focus (ne_focus env) k else Pair (Inr ()))" by (simp add: steady_intros)
  from steady_at [OF this ok1] f2 have "same_windows (fc_state f) (fc_state f2)" by (simp add: f1(2))
  then show "same_windows (fc_state f) (fc_state f')" using e by simp
  show "fc_cx f' = fc_cx f \<and> focused_told f' = focused_told f" if "\<not> b" using that f2 e f1 by auto
  show "\<exists>f1 f2. fc_cx f1 = fc_cx f \<and> focus (ne_focus env) k f1 = (Inr (), f2) \<and> fc_cx f' = fc_cx f2 \<and> focused_told f' = focused_told f2"
    if "b" "r = Inr ()" using that f2 e f1 by auto
qed

lemma change_view_shows:
  assumes "live_monitor mon" "slot_get (st_monitors s) m = Some mon" "w \<noteq> 0"
  shows "\<exists>s1 mon1. change_view w False m s = Some (get_active_tags mon, w, s1) \<and> slot_get (st_monitors s1) m = Some mon1 \<and> get_active_tags mon1 = w \<and>
    (\<forall>x. x \<noteq> m \<longrightarrow> slot_get (st_monitors s1) x = slot_get (st_monitors s) x) \<and> sel_mon s1 = sel_mon s"
proof -
  have "sel_tags mon \<le> 1" using assms(1) by (simp add: live_monitor_def wf_monitor_def split: option.splits)
  from view_tag_cases [OF this refl, of False w] assms(3) obtain i m2 where "view_tag w False mon = Some (i, apply_pertag_context i m2)" "get_active_tags m2 = w"
    by (metis (full_types))
  then show ?thesis using assms(2) by (auto simp: change_view_def slot_simps active_apply)
qed

lemma sticky_keeps: "st_monitors (update_sticky_tags m s) = st_monitors s" "sel_mon (update_sticky_tags m s) = sel_mon s"
proof -
  have "sel_mon (fold (\<lambda>k. client_state_update k g) ks s) = sel_mon s" for g ks by (induction ks arbitrary: s) (simp_all add: client_state_update_def)
  then show "sel_mon (update_sticky_tags m s) = sel_mon s" by (simp add: update_sticky_tags_def split: option.split)
  show "st_monitors (update_sticky_tags m s) = st_monitors s" using sticky_frame(4) by (simp add: update_sticky_tags_def split: option.split)
qed

text \<open>
  C7. Viewing tags never panics and always ends with exactly the wanted tags shown, also when the
  backend refuses something on the way. On the selected monitor the window selected afterwards is
  one the new tags show, and the backend was told that window; viewing tags of another monitor
  changes neither the selection nor the input focus.
\<close>

theorem view_shows_the_tags:
  assumes "nav_ok f" "w AND tagmask env = target" "target \<noteq> 0" "slot_get (st_monitors (fc_state f)) m = Some mon" "view_on_monitor env m w f = (r, f')"
  shows "(\<exists>mon'. slot_get (st_monitors (fc_state f')) m = Some mon' \<and> get_active_tags mon' = target) \<and>
    (r = Inr () \<and> get_active_tags mon \<noteq> target \<and> sel_mon (fc_state f) = Some m \<longrightarrow>
      (case get_selected_client_key (fc_state f') of None \<Rightarrow> focused_told f' = None
       | Some k \<Rightarrow> is_client_visible_by_key (fc_state f') k \<and> focused_told f' = map_option c_win (slot_get (st_clients (fc_state f')) k))) \<and>
    (sel_mon (fc_state f) \<noteq> Some m \<longrightarrow> get_selected_client_key (fc_state f') = get_selected_client_key (fc_state f) \<and> focused_told f' = focused_told f)"
proof -
  note live = live_state [OF assms(1,4)]
  have tags: "is_same_tag mon target = Some (get_active_tags mon = target)"
    using live by (cases "sel_tags mon") (auto simp: live_monitor_def wf_monitor_def is_same_tag_def get_active_tags_def tag_at_def split: option.splits)
  show ?thesis
  proof (cases "get_active_tags mon = target")
    case True
    then have "f' = f" using assms(2-5) tags by (simp add: view_on_monitor_def Let_def)
    then show ?thesis using True assms(4) by simp
  next
    case False
    obtain s1 mon1 where v: "change_view target False m (fc_state f) = Some (get_active_tags mon, target, s1)"
        "slot_get (st_monitors s1) m = Some mon1" "get_active_tags mon1 = target"
        "\<forall>x. x \<noteq> m \<longrightarrow> slot_get (st_monitors s1) x = slot_get (st_monitors (fc_state f)) x" "sel_mon s1 = sel_mon (fc_state f)"
      using change_view_shows [OF live assms(4,3)] by blast
    let ?f1 = "set_fc_state (update_sticky_tags m s1) f"
    have s1: "fc_state ?f1 = update_sticky_tags m s1" "focused_told ?f1 = focused_told f" by (simp_all add: set_fc_state_def)
    have ok: "focus_ok ?f1" using change_view_live [OF assms(1), of target False m] v(1) by (simp add: nav_ok_def)
    obtain c k d where "finish_view env c (sel_mon (fc_state f) = Some m) k d ?f1 = (r, f')"
      using assms(2-5) tags False v(1) by (auto simp: view_on_monitor_def Let_def sticky_keeps v(5))
    note fv = finish_view_state [OF ok this]
    have "map_option get_active_tags (slot_get (st_monitors (fc_state f')) m) = Some target"
      using same_windows_active [OF fv(1), of m] by (simp add: s1 sticky_keeps v(2,3))
    moreover have "get_selected_client_key (fc_state f') = get_selected_client_key (fc_state f) \<and> focused_told f' = focused_told f"
      if "sel_mon (fc_state f) \<noteq> Some m"
      using that fv(2) v(4,5) by (auto simp: get_selected_client_key_def s1 sticky_keeps split: option.split)
    moreover have "case get_selected_client_key (fc_state f') of None \<Rightarrow> focused_told f' = None
       | Some k \<Rightarrow> is_client_visible_by_key (fc_state f') k \<and> focused_told f' = map_option c_win (slot_get (st_clients (fc_state f')) k)"
      if sel: "sel_mon (fc_state f) = Some m" "r = Inr ()"
    proof -
      obtain g g' where g: "fc_cx g = fc_cx ?f1" "focus (ne_focus env) k g = (Inr (), g')" "fc_cx f' = fc_cx g'" "focused_told f' = focused_told g'"
        using fv(3) sel by blast
      have okg: "focus_ok g" using ok g(1) by (simp add: focus_ok_def)
      have sw: "same_windows (fc_state g) (fc_state g')" using steady_at [OF steady_focus okg] g(2) by (metis snd_conv)
      have cw: "map_option c_win (slot_get (st_clients (fc_state g')) x) = map_option c_win (slot_get (st_clients (fc_state g)) x)" for x
        using same_windows_keeps(1) [OF sw] unfolding keeps_windows_def by (metis (no_types, lifting) fst_conv option.map_comp option.map_cong comp_def)
      show ?thesis using focus_lands [OF okg g(2)]
        by (cases "focus_target (ne_focus env) (fc_state g) k") (auto simp: g(3,4) same_windows_visible [OF sw] cw)
    qed
    ultimately show ?thesis by (auto simp: map_option_eq_Some)
  qed
qed

theorem view_shows_the_tags_witness:
  "\<exists>mon'. slot_get (st_monitors (fc_state (snd (view_on_monitor easy_env 1 2 two_windows)))) 1 = Some mon' \<and> get_active_tags mon' = 2"
proof -
  have t: "(2 :: 32 word) AND tagmask easy_env = 2" by code_simp
  have "slot_get (st_monitors (fc_state two_windows)) 1 = Some (sample_monitor\<lparr>mon_sel := Some 1\<rparr>)" by (simp add: two_windows_def slot_get_def)
  from view_shows_the_tags [OF two_windows_nav_ok t _ this surjective_pairing] show ?thesis by simp
qed

end
