(* ===== verification/Visibility.thy ===== *)
theory Visibility
  imports Arrange Maximize Stacking
begin

text \<open>
  Showing and hiding windows: \<open>src/jwm/visibility.rs\<close>, \<open>resize_client\<close> of \<open>src/jwm/positioning.rs\<close> and
  \<open>move_window\<close> of \<open>src/jwm/rendering.rs\<close>. A hidden window is parked left of every output and keeps the
  rectangle it returns to in a slot of its own.
\<close>

section \<open>Parking a geometry\<close>

definition shown_window_position :: "bool \<Rightarrow> int \<times> int \<Rightarrow> rect option \<Rightarrow> int \<times> int" where
  "shown_window_position composited logical visual = (case visual of
     Some v \<Rightarrow> if composited then logical else (rect_x v, rect_y v)
   | None \<Rightarrow> logical)"

definition hidden_x_left_of_desktop :: "int \<Rightarrow> int \<Rightarrow> int" where
  "hidden_x_left_of_desktop desktop_left width = sat32 (desktop_left - sat32 (max width 1 * 2))"

definition is_fully_left_of_desktop :: "int \<Rightarrow> int \<Rightarrow> int \<Rightarrow> bool" where
  "is_fully_left_of_desktop x width desktop_left \<longleftrightarrow> x + max width 1 \<le> desktop_left"

definition stage_hidden_geometry :: "rect \<Rightarrow> int \<Rightarrow> client_geometry \<Rightarrow> client_geometry" where
  "stage_hidden_geometry restore hidden_x g =
     g\<lparr>g_hidden_restore_rect := (case g_hidden_restore_rect g of None \<Rightarrow> Some restore | Some r \<Rightarrow> Some r),
       g_x := hidden_x, g_hidden_x := Some hidden_x\<rparr>"

datatype hidden_restore = Slot rect | OldX | LegacyFallback

definition plan_hidden_restore :: "client_geometry \<Rightarrow> int \<Rightarrow> hidden_restore option" where
  "plan_hidden_restore g desktop_left =
     (let width = sat32 (g_w g + sat32 (g_border_w g * 2));
          was_parked = (g_hidden_x g \<noteq> None \<or> g_hidden_restore_rect g \<noteq> None \<or> is_fully_left_of_desktop (g_x g) width desktop_left)
      in if \<not> was_parked then None
         else Some (case g_hidden_restore_rect g of
             Some restore \<Rightarrow> Slot restore
           | None \<Rightarrow> if is_fully_left_of_desktop (g_old_x g) width desktop_left then LegacyFallback else OldX))"

definition restore_hidden_geometry :: "int \<Rightarrow> int \<Rightarrow> client_geometry \<Rightarrow> rect option \<times> client_geometry" where
  "restore_hidden_geometry desktop_left legacy_fallback_x g = (case plan_hidden_restore g desktop_left of
     None \<Rightarrow> (None, g)
   | Some plan \<Rightarrow>
       let restore = (case plan of
             Slot r \<Rightarrow> r
           | OldX \<Rightarrow> rect_new (g_old_x g) (g_y g) (g_w g) (g_h g)
           | LegacyFallback \<Rightarrow> rect_new legacy_fallback_x (g_y g) (g_w g) (g_h g))
       in (Some restore, g\<lparr>g_hidden_x := None, g_hidden_restore_rect := None, g_x := rect_x restore, g_y := rect_y restore,
             g_w := rect_w restore, g_h := rect_h restore\<rparr>))"

definition desktop_left_edge :: "wm_state \<Rightarrow> int" where
  "desktop_left_edge s = (if st_monitors s = [] then 0 else Min (set (map (\<lambda>(_, mon). m_x (mon_geometry mon)) (st_monitors s))))"

section \<open>Showing and hiding a window\<close>

text \<open>
  Besides what an arrange writes there are the requests to move a window, in order. Whether the
  backend carries them out is only logged. \<open>se_scratchpads\<close> are the clients that are scratchpads.
\<close>

record showing =
  sw_ar :: arranging
  sw_moves :: "(window_id \<times> int \<times> int) list"

record show_env =
  se_env :: arrange_env
  se_screen :: "int \<times> int"
  se_scratchpads :: "client_key list"

abbreviation sw_state :: "showing \<Rightarrow> wm_state" where "sw_state a \<equiv> ar_state (sw_ar a)"
abbreviation sw_anims :: "showing \<Rightarrow> animations" where "sw_anims a \<equiv> ar_anims (sw_ar a)"

definition set_sw_state :: "wm_state \<Rightarrow> showing \<Rightarrow> showing" where
  "set_sw_state s a = a\<lparr>sw_ar := set_ar_state s (sw_ar a)\<rparr>"

definition set_sw_anims :: "animations \<Rightarrow> showing \<Rightarrow> showing" where
  "set_sw_anims an a = a\<lparr>sw_ar := (sw_ar a)\<lparr>ar_anims := an\<rparr>\<rparr>"

definition update_geometry :: "client_key \<Rightarrow> (client_geometry \<Rightarrow> client_geometry) \<Rightarrow> wm_state \<Rightarrow> wm_state" where
  "update_geometry k f s = s\<lparr>st_clients := slot_update k (\<lambda>c. c\<lparr>c_geometry := f (c_geometry c)\<rparr>) (st_clients s)\<rparr>"

definition move_window :: "window_id \<Rightarrow> int \<Rightarrow> int \<Rightarrow> showing \<Rightarrow> showing" where
  "move_window win x y a = a\<lparr>sw_moves := sw_moves a @ [(win, x, y)]\<rparr>"

definition resize_client :: "show_env \<Rightarrow> client_key \<Rightarrow> rect \<Rightarrow> bool \<Rightarrow> arranging \<Rightarrow> arranging" where
  "resize_client env k r interact a =
     (case applysizehints (ae_fetch (se_env env)) (se_screen env) (ae_resize_hints (se_env env)) k r interact (ar_state a, ar_bars a) of
        (Inl _, (s, bars)) \<Rightarrow> (set_ar_state s a)\<lparr>ar_bars := bars\<rparr>
      | (Inr (_, r1), (s, bars)) \<Rightarrow>
          (case resizeclient (ae_place (se_env env)) k r1 (s, ar_anims a) of
             (_, (s1, anims), request) \<Rightarrow>
               (set_ar_state s1 a)\<lparr>ar_bars := bars, ar_anims := anims, ar_log := ar_log a @ (case request of None \<Rightarrow> [] | Some q \<Rightarrow> [q])\<rparr>))"

definition legacy_fallback :: "arrange_env \<Rightarrow> client_key \<Rightarrow> wm_state \<Rightarrow> int" where
  "legacy_fallback env k s =
     (let left = desktop_left_edge s
      in case slot_get (st_clients s) k of
           None \<Rightarrow> left
         | Some c \<Rightarrow>
             if plan_hidden_restore (c_geometry c) left = Some LegacyFallback
             then (case c_mon c of None \<Rightarrow> left
               | Some m \<Rightarrow> (case monitor_work_area (ae_cfg env) (ae_shell env) s m of None \<Rightarrow> left | Some area \<Rightarrow> rect_x area))
             else left)"

definition show_client :: "show_env \<Rightarrow> client_key \<Rightarrow> showing \<Rightarrow> showing" where
  "show_client env k a =
     (let a0 = set_sw_anims (animation_remove_if_hide k (sw_anims a)) a;
          s1 = update_geometry k (\<lambda>g. snd (restore_hidden_geometry (desktop_left_edge (sw_state a)) (legacy_fallback (se_env env) k (sw_state a)) g)) (sw_state a);
          a1 = set_sw_state s1 a0;
          place = ae_place (se_env env)
      in case slot_get (st_clients s1) k of
           None \<Rightarrow> a1
         | Some c \<Rightarrow>
             let g = c_geometry c;
                 visual = (if pe_compositor place then None else current_visual_rect (pe_libm place) (sw_anims a1) k (pe_now place));
                 (show_x, show_y) = shown_window_position (pe_compositor place) (g_x g, g_y g) visual;
                 a2 = move_window (c_win c) show_x show_y a1
             in if is_floating (c_state c) \<and> \<not> is_fullscreen (c_state c)
                then a2\<lparr>sw_ar := resize_client env k (geometry_rect g) False (sw_ar a2)\<rparr>
                else a2)"

definition hide_client :: "show_env \<Rightarrow> client_key \<Rightarrow> showing \<Rightarrow> showing" where
  "hide_client env k a = (case slot_get (st_clients (sw_state a)) k of
     None \<Rightarrow> a
   | Some c \<Rightarrow>
       let g = c_geometry c;
           place = ae_place (se_env env);
           hidden_x = hidden_x_left_of_desktop (desktop_left_edge (sw_state a)) (total_width c);
           a1 = set_sw_state (update_geometry k (\<lambda>g. stage_hidden_geometry (geometry_rect g) hidden_x g) (sw_state a)) a
       in case pe_motion place of
            Some (duration, easing) \<Rightarrow>
              let scratchpad_slide = (k \<in> set (se_scratchpads env) \<and>
                    (case slot_get (sw_anims a1) k of None \<Rightarrow> False | Some an \<Rightarrow> an_kind an = A_Hide));
                  visual = or_else (current_visual_rect (pe_libm place) (sw_anims a1) k (pe_now place)) (geometry_rect g);
                  a2 = (if scratchpad_slide then a1
                        else set_sw_anims (animation_start (pe_now place) k visual (rect_new hidden_x (g_y g) (g_w g) (g_h g))
                          duration easing A_Hide (sw_anims a1)) a1)
              in if pe_compositor place then move_window (c_win c) hidden_x (g_y g) a2 else a2
          | None \<Rightarrow> move_window (c_win c) hidden_x (g_y g) (set_sw_anims (animation_remove k (sw_anims a1)) a1))"

definition showhide_client :: "show_env \<Rightarrow> monitor_key \<Rightarrow> client_key \<Rightarrow> showing \<Rightarrow> showing" where
  "showhide_client env m k a =
     (if (case slot_get (st_clients (sw_state a)) k of None \<Rightarrow> False | Some c \<Rightarrow> is_dock (c_state c)) then a
      else if is_client_visible_on_monitor (sw_state a) k m then show_client env k a else hide_client env k a)"

definition showhide_monitor :: "show_env \<Rightarrow> monitor_key \<Rightarrow> showing \<Rightarrow> showing" where
  "showhide_monitor env m a = (case monitor_stack (sw_state a) m of None \<Rightarrow> a | Some l \<Rightarrow> fold (showhide_client env m) l a)"

section \<open>Parked geometries\<close>

definition unparked :: "int \<Rightarrow> client_geometry \<Rightarrow> bool" where
  "unparked left g \<longleftrightarrow> g_hidden_x g = None \<and> g_hidden_restore_rect g = None \<and> \<not> is_fully_left_of_desktop (g_x g) (sat32 (g_w g + sat32 (g_border_w g * 2))) left"

lemma plan_None: "plan_hidden_restore g left = None \<longleftrightarrow> unparked left g"
  by (auto simp: plan_hidden_restore_def unparked_def Let_def)

lemma restore_unparked: "unparked left g \<Longrightarrow> restore_hidden_geometry left x g = (None, g)"
  by (simp add: restore_hidden_geometry_def plan_None [THEN iffD2])

text \<open>However often a geometry is parked, and wherever, it comes back as it was.\<close>

definition staged :: "int list \<Rightarrow> client_geometry \<Rightarrow> client_geometry" where
  "staged xs g = fold (\<lambda>x g. stage_hidden_geometry (geometry_rect g) x g) xs g"

lemma staged_slots:
  assumes "g_hidden_restore_rect g = None" "xs \<noteq> []"
  shows "staged xs g = g\<lparr>g_x := last xs, g_hidden_x := Some (last xs), g_hidden_restore_rect := Some (geometry_rect g)\<rparr>"
  using assms(2)
proof (induction xs rule: rev_induct)
  case (snoc x xs)
  then show ?case by (cases "xs = []") (simp_all add: staged_def stage_hidden_geometry_def assms(1))
qed simp

lemma geometry_eqI:
  "g\<lparr>g_hidden_x := None, g_hidden_restore_rect := None, g_x := g_x g, g_y := g_y g, g_w := g_w g, g_h := g_h g\<rparr> = g"
  if "g_hidden_x g = None" "g_hidden_restore_rect g = None" for g :: client_geometry
  using that by simp

lemma restore_staged:
  assumes "g_hidden_x g = None" "g_hidden_restore_rect g = None" "xs \<noteq> []"
  shows "snd (restore_hidden_geometry left x (staged xs g)) = g"
  unfolding staged_slots [OF assms(2,3)] using assms(1,2)
  by (simp add: restore_hidden_geometry_def plan_hidden_restore_def Let_def geometry_rect_def rect_new_def)

section \<open>Windows off the screen\<close>

lemma left_edge_le: "(m, mon) \<in> set (st_monitors s) \<Longrightarrow> desktop_left_edge s \<le> m_x (mon_geometry mon)"
  by (auto simp: desktop_left_edge_def intro!: Min_le)

text \<open>A desktop whose left edge leaves room for twice the width of the window.\<close>

definition room_left :: "wm_state \<Rightarrow> int \<Rightarrow> bool" where
  "room_left s width \<longleftrightarrow> 2 * max width 1 \<le> i32_max \<and> i32_min \<le> desktop_left_edge s - 2 * max width 1 \<and> desktop_left_edge s \<le> i32_max"

lemma hidden_x_left:
  assumes "room_left s width"
  shows "hidden_x_left_of_desktop (desktop_left_edge s) width = desktop_left_edge s - 2 * max width 1"
  using assms by (auto simp: hidden_x_left_of_desktop_def room_left_def sat32_def max_def min_def)

lemma sw_simps [simp]:
  "sw_ar (set_sw_state st a) = set_ar_state st (sw_ar a)" "sw_moves (set_sw_state st a) = sw_moves a"
  "sw_ar (set_sw_anims an a) = (sw_ar a)\<lparr>ar_anims := an\<rparr>" "sw_moves (set_sw_anims an a) = sw_moves a"
  "sw_ar (move_window w x y a) = sw_ar a" "sw_moves (move_window w x y a) = sw_moves a @ [(w, x, y)]"
  by (simp_all add: set_sw_state_def set_sw_anims_def move_window_def)

lemma update_geometry_simps [simp]:
  "st_monitors (update_geometry k f s) = st_monitors s" "monitor_stack (update_geometry k f s) = monitor_stack s"
  "monitor_clients (update_geometry k f s) = monitor_clients s"
  "slot_get (st_clients (update_geometry k f s)) k' =
     (if k' = k then map_option (\<lambda>c. c\<lparr>c_geometry := f (c_geometry c)\<rparr>) (slot_get (st_clients s) k) else slot_get (st_clients s) k')"
  by (simp_all add: update_geometry_def slot_simps)

lemma desktop_left_update [simp]: "desktop_left_edge (update_geometry k f s) = desktop_left_edge s"
  by (simp add: desktop_left_edge_def)

definition park_x :: "wm_state \<Rightarrow> client_key \<Rightarrow> int" where
  "park_x s k = (case slot_get (st_clients s) k of None \<Rightarrow> 0 | Some c \<Rightarrow> hidden_x_left_of_desktop (desktop_left_edge s) (total_width c))"

lemma hide_state:
  assumes "slot_get (st_clients (sw_state a)) k = Some c"
  shows "sw_state (hide_client env k a) = update_geometry k (\<lambda>g. stage_hidden_geometry (geometry_rect g) (park_x (sw_state a) k) g) (sw_state a)"
    "ar_bars (sw_ar (hide_client env k a)) = ar_bars (sw_ar a)" "ar_log (sw_ar (hide_client env k a)) = ar_log (sw_ar a)"
    "cx_strips (ar_cx (sw_ar (hide_client env k a))) = cx_strips (ar_cx (sw_ar a))"
  using assms by (auto simp: hide_client_def park_x_def Let_def set_ar_state_def split: option.split)

lemma update_geometry_comp: "update_geometry k f (update_geometry k g s) = update_geometry k (f \<circ> g) s"
  by (simp add: update_geometry_def slot_update_def comp_def case_prod_unfold)

lemma update_geometry_id:
  assumes "slot_get (st_clients s) k = Some c" "distinct (map fst (st_clients s))" "f (c_geometry c) = c_geometry c"
  shows "update_geometry k f s = s"
proof -
  have "slot_update k (\<lambda>c. c\<lparr>c_geometry := f (c_geometry c)\<rparr>) (st_clients s) = st_clients s"
    unfolding slot_update_def
  proof (rule map_idI)
    fix e assume "e \<in> set (st_clients s)"
    then have "fst e = k \<Longrightarrow> snd e = c"
      using assms(1) eq_key_imp_eq_value [OF assms(2)] by (metis map_of_SomeD prod.collapse slot_get_def)
    then show "(case e of (k', v) \<Rightarrow> (k', if k' = k then v\<lparr>c_geometry := f (c_geometry v)\<rparr> else v)) = e"
      using assms(3) by (auto simp: case_prod_unfold)
  qed
  then show ?thesis by (simp add: update_geometry_def)
qed

lemma park_again: "slot_get (st_clients s) k = Some c \<Longrightarrow> park_x (update_geometry k (\<lambda>g. stage_hidden_geometry (r g) (h g) g) s) k = park_x s k"
  by (simp add: park_x_def total_width_def stage_hidden_geometry_def)

lemma hides_state:
  assumes "slot_get (st_clients (sw_state a)) k = Some c" "b = fold (\<lambda>e. hide_client e k) envs a"
  shows "sw_state b = update_geometry k (staged (replicate (length envs) (park_x (sw_state a) k))) (sw_state a) \<and> ar_bars (sw_ar b) = ar_bars (sw_ar a)"
  using assms
proof (induction envs arbitrary: a c)
  case Nil
  have "update_geometry k (staged []) s = s" for s
    by (simp add: update_geometry_def slot_update_def staged_def case_prod_unfold)
  then show ?case using Nil by simp
next
  case (Cons e envs)
  note h = hide_state [OF Cons.prems(1), of e]
  obtain c1 where c1: "slot_get (st_clients (sw_state (hide_client e k a))) k = Some c1" using Cons.prems(1) by (simp add: h(1))
  have "staged (replicate (length envs) x) \<circ> (\<lambda>g. stage_hidden_geometry (geometry_rect g) x g) = staged (replicate (length (e # envs)) x)" for x
    by (simp add: staged_def fun_eq_iff)
  moreover have "park_x (sw_state (hide_client e k a)) k = park_x (sw_state a) k"
    unfolding h(1) by (rule park_again [OF Cons.prems(1)])
  moreover have "b = fold (\<lambda>e. hide_client e k) envs (hide_client e k a)" using Cons.prems(2) by simp
  ultimately show ?case using Cons.IH [OF c1] by (simp add: h update_geometry_comp)
qed

lemma resizeclient_state:
  "fst (fst (snd (resizeclient env k r (s, an)))) =
     (case slot_get (st_clients s) k of None \<Rightarrow> s | Some _ \<Rightarrow> update_geometry k (place_geometry r) s)"
  by (auto simp: resizeclient_def Let_def update_geometry_def split: option.splits)

lemma resize_client_state:
  assumes "ar_state a = ar_state b" "ar_bars a = ar_bars b"
  shows "ar_state (resize_client env k r interact a) = ar_state (resize_client env k r interact b)"
proof -
  obtain res sb where h: "applysizehints (ae_fetch (se_env env)) (se_screen env) (ae_resize_hints (se_env env)) k r interact (ar_state b, ar_bars b) = (res, sb)"
    by (metis surj_pair)
  have "ar_state (resize_client env k r interact x) = (case res of Inl _ \<Rightarrow> fst sb | Inr (_, r1) \<Rightarrow>
      fst (fst (snd (resizeclient (ae_place (se_env env)) k r1 (fst sb, ar_anims x)))))"
    if "applysizehints (ae_fetch (se_env env)) (se_screen env) (ae_resize_hints (se_env env)) k r interact (ar_state x, ar_bars x) = (res, sb)" for x
    unfolding resize_client_def that by (cases sb) (auto simp: set_ar_state_def split: sum.split prod.split)
  then show ?thesis using h assms by (simp add: resizeclient_state split: sum.split prod.split)
qed

lemma show_state:
  assumes "slot_get (st_clients (sw_state a)) k = Some c"
    "f = (\<lambda>g. snd (restore_hidden_geometry (desktop_left_edge (sw_state a)) (legacy_fallback (se_env env) k (sw_state a)) g))"
  shows "\<exists>an. sw_state (show_client env k a) = (if is_floating (c_state c) \<and> \<not> is_fullscreen (c_state c)
      then ar_state (resize_client env k (geometry_rect (f (c_geometry c))) False (set_ar_state (update_geometry k f (sw_state a)) (sw_ar a\<lparr>ar_anims := an\<rparr>)))
      else update_geometry k f (sw_state a))"
proof -
  have c: "slot_get (st_clients (update_geometry k f (sw_state a))) k = Some (c\<lparr>c_geometry := f (c_geometry c)\<rparr>)" using assms(1) by simp
  show ?thesis
    unfolding show_client_def Let_def assms(2) [symmetric] c option.case
    by (rule exI [of _ "animation_remove_if_hide k (sw_anims a)"]) (auto simp: case_prod_unfold set_sw_anims_def set_sw_state_def set_ar_state_def)
qed

lemma show_moves:
  assumes "slot_get (st_clients (sw_state a)) k = Some c" "pe_compositor (ae_place (se_env env))"
    "g = snd (restore_hidden_geometry (desktop_left_edge (sw_state a)) (legacy_fallback (se_env env) k (sw_state a)) (c_geometry c))"
  shows "sw_moves (show_client env k a) = sw_moves a @ [(c_win c, g_x g, g_y g)]"
  using assms by (simp add: show_client_def Let_def shown_window_position_def)

text \<open>A window that was not parked is, after any number of hides, off the left of every output with its rectangle remembered.\<close>

lemma hides_off_screen:
  assumes "slot_get (st_clients (sw_state a)) k = Some c" "unparked (desktop_left_edge (sw_state a)) (c_geometry c)"
    "b = fold (\<lambda>e. hide_client e k) envs a" "envs \<noteq> []" "room_left (sw_state a) (total_width c)"
  shows "\<exists>c'. slot_get (st_clients (sw_state b)) k = Some c' \<and> g_hidden_restore_rect (c_geometry c') = Some (geometry_rect (c_geometry c)) \<and>
       (\<forall>(m, mon) \<in> set (st_monitors (sw_state b)). g_x (c_geometry c') + total_width c' \<le> m_x (mon_geometry mon))"
proof -
  let ?g = "c_geometry c"
  let ?xs = "replicate (length envs) (park_x (sw_state a) k)"
  note h = hides_state [OF assms(1,3)]
  have cb: "slot_get (st_clients (sw_state b)) k = Some (c\<lparr>c_geometry := staged ?xs ?g\<rparr>)" using h assms(1) by simp
  have st: "staged ?xs ?g = ?g\<lparr>g_x := park_x (sw_state a) k, g_hidden_x := Some (park_x (sw_state a) k), g_hidden_restore_rect := Some (geometry_rect ?g)\<rparr>"
    using staged_slots [of ?g ?xs] assms(2,4) by (simp add: unparked_def)
  have "park_x (sw_state a) k + total_width c \<le> desktop_left_edge (sw_state a)"
    using assms(5) hidden_x_left by (simp add: park_x_def assms(1))
  then have "park_x (sw_state a) k + total_width c \<le> m_x (mon_geometry mon)" if "(m, mon) \<in> set (st_monitors (sw_state b))" for m mon
    using left_edge_le [of m mon "sw_state a"] that h by simp
  then show ?thesis unfolding cb st by (auto simp: total_width_def)
qed

text \<open>Showing a window whose geometry restores to the one it has in \<open>s\<close> shows it from \<open>s\<close>.\<close>

lemma show_from:
  assumes "slot_get (st_clients (sw_state a)) k = Some (c\<lparr>c_geometry := g\<rparr>)" "slot_get (st_clients s) k = Some c" "distinct (map fst (st_clients s))"
    "\<And>x. snd (restore_hidden_geometry (desktop_left_edge (sw_state a)) x g) = c_geometry c" "sw_state a = update_geometry k (\<lambda>_. g) s"
  shows "\<exists>an. sw_state (show_client env k a) = (if is_floating (c_state c) \<and> \<not> is_fullscreen (c_state c)
      then ar_state (resize_client env k (geometry_rect (c_geometry c)) False (set_ar_state s (sw_ar a\<lparr>ar_anims := an\<rparr>))) else s)"
proof -
  define f where "f = (\<lambda>g. snd (restore_hidden_geometry (desktop_left_edge (sw_state a)) (legacy_fallback (se_env env) k (sw_state a)) g))"
  have f: "f g = c_geometry c" using assms(4) by (simp add: f_def)
  have "update_geometry k f (sw_state a) = s"
    unfolding assms(5) update_geometry_comp by (rule update_geometry_id [OF assms(2,3)]) (simp add: f)
  then show ?thesis using show_state [OF assms(1) f_def] by (simp add: f cong: if_cong)
qed

lemma update_geometry_cong:
  assumes "slot_get (st_clients s) k = Some c" "distinct (map fst (st_clients s))"
  shows "update_geometry k f s = update_geometry k (\<lambda>_. f (c_geometry c)) s"
proof -
  have "slot_update k (\<lambda>c. c\<lparr>c_geometry := f (c_geometry c)\<rparr>) (st_clients s) = slot_update k (\<lambda>x. x\<lparr>c_geometry := f (c_geometry c)\<rparr>) (st_clients s)"
    unfolding slot_update_def
  proof (rule map_cong [OF refl])
    fix e assume "e \<in> set (st_clients s)"
    then have "fst e = k \<Longrightarrow> snd e = c"
      using assms(1) eq_key_imp_eq_value [OF assms(2)] by (metis map_of_SomeD prod.collapse slot_get_def)
    then show "(case e of (k', v) \<Rightarrow> (k', if k' = k then v\<lparr>c_geometry := f (c_geometry v)\<rparr> else v)) =
        (case e of (k', v) \<Rightarrow> (k', if k' = k then v\<lparr>c_geometry := f (c_geometry c)\<rparr> else v))"
      by (auto simp: case_prod_unfold)
  qed
  then show ?thesis by (simp add: update_geometry_def)
qed

text \<open>
  C8. A window that is hidden, any number of times and whatever the animations, lies left of every output
  and keeps where it came from; showing it afterwards leaves the window manager in exactly the state
  in which showing it without the hiding would have left it, and under a compositor the window is
  moved to where it was before.
\<close>

theorem hide_show_round_trip:
  assumes "slot_get (st_clients (sw_state a)) k = Some c" "distinct (map fst (st_clients (sw_state a)))"
    "plan_hidden_restore (c_geometry c) (desktop_left_edge (sw_state a)) = None" "b = fold (\<lambda>e. hide_client e k) envs a"
  shows "sw_state (show_client env k b) = sw_state (show_client env k a) \<and>
    (pe_compositor (ae_place (se_env env)) \<longrightarrow> last (sw_moves (show_client env k b)) = (c_win c, g_x (c_geometry c), g_y (c_geometry c))) \<and>
    (envs \<noteq> [] \<and> room_left (sw_state a) (total_width c) \<longrightarrow> (\<exists>c'. slot_get (st_clients (sw_state b)) k = Some c' \<and>
       g_hidden_restore_rect (c_geometry c') = Some (geometry_rect (c_geometry c)) \<and>
       (\<forall>(m, mon) \<in> set (st_monitors (sw_state b)). g_x (c_geometry c') + total_width c' \<le> m_x (mon_geometry mon))))"
proof (intro conjI impI)
  let ?g = "c_geometry c"
  let ?xs = "replicate (length envs) (park_x (sw_state a) k)"
  note h = hides_state [OF assms(1,4)]
  have u: "unparked (desktop_left_edge (sw_state a)) ?g" using assms(3) by (simp add: plan_None)
  have cb: "slot_get (st_clients (sw_state b)) k = Some (c\<lparr>c_geometry := staged ?xs ?g\<rparr>)" using h assms(1) by simp
  have restored: "snd (restore_hidden_geometry (desktop_left_edge (sw_state b)) x (staged ?xs ?g)) = ?g" for x
  proof (cases "envs = []")
    case True
    then show ?thesis using u h by (simp add: staged_def restore_unparked)
  qed (use u h restore_staged [of ?g ?xs] in \<open>simp add: unparked_def\<close>)
  have sb: "sw_state b = update_geometry k (\<lambda>_. staged ?xs ?g) (sw_state a)" using h update_geometry_cong [OF assms(1,2)] by simp
  obtain an where an: "sw_state (show_client env k b) = (if is_floating (c_state c) \<and> \<not> is_fullscreen (c_state c)
      then ar_state (resize_client env k (geometry_rect ?g) False (set_ar_state (sw_state a) (sw_ar b\<lparr>ar_anims := an\<rparr>))) else sw_state a)"
    using show_from [OF cb assms(1,2) restored sb] by blast
  have ca: "slot_get (st_clients (sw_state a)) k = Some (c\<lparr>c_geometry := ?g\<rparr>)" using assms(1) by simp
  have sa: "sw_state a = update_geometry k (\<lambda>_. ?g) (sw_state a)" using update_geometry_id [OF assms(1,2), of "\<lambda>_. ?g"] by simp
  have "snd (restore_hidden_geometry (desktop_left_edge (sw_state a)) x ?g) = ?g" for x using u by (simp add: restore_unparked)
  then obtain an' where an': "sw_state (show_client env k a) = (if is_floating (c_state c) \<and> \<not> is_fullscreen (c_state c)
      then ar_state (resize_client env k (geometry_rect ?g) False (set_ar_state (sw_state a) (sw_ar a\<lparr>ar_anims := an'\<rparr>))) else sw_state a)"
    using show_from [OF ca assms(1,2) _ sa] by blast
  show "sw_state (show_client env k b) = sw_state (show_client env k a)"
    unfolding an an' using h by (auto simp: set_ar_state_def intro!: resize_client_state)
  show "last (sw_moves (show_client env k b)) = (c_win c, g_x ?g, g_y ?g)" if "pe_compositor (ae_place (se_env env))"
    using show_moves [OF cb that refl] by (simp add: restored)
  show "\<exists>c'. slot_get (st_clients (sw_state b)) k = Some c' \<and> g_hidden_restore_rect (c_geometry c') = Some (geometry_rect ?g) \<and>
       (\<forall>(m, mon) \<in> set (st_monitors (sw_state b)). g_x (c_geometry c') + total_width c' \<le> m_x (mon_geometry mon))"
    if "envs \<noteq> [] \<and> room_left (sw_state a) (total_width c)"
    using hides_off_screen [OF assms(1) u assms(4)] that by blast
qed

text \<open>The first tile of the sample desktop, hidden twice and shown again.\<close>

definition tiled_showing :: showing where
  "tiled_showing = \<lparr>sw_ar = tiled_arranging, sw_moves = []\<rparr>"

definition still_show :: show_env where
  "still_show = \<lparr>se_env = still_env, se_screen = (1920, 1080), se_scratchpads = []\<rparr>"

theorem hide_show_round_trip_witness:
  "sw_state (show_client still_show 1 (hide_client still_show 1 (hide_client still_show 1 tiled_showing))) = sw_state (show_client still_show 1 tiled_showing) \<and>
   last (sw_moves (show_client still_show 1 (hide_client still_show 1 (hide_client still_show 1 tiled_showing)))) = (c_win (shown_client False), 0, 0) \<and>
   (\<exists>c'. slot_get (st_clients (sw_state (hide_client still_show 1 (hide_client still_show 1 tiled_showing)))) 1 = Some c' \<and> g_x (c_geometry c') + total_width c' \<le> 0)"
proof -
  let ?c = "shown_client False"
  have s: "sw_state tiled_showing = tiled_state" by (simp add: tiled_showing_def tiled_arranging_simps)
  have c: "slot_get (st_clients tiled_state) 1 = Some ?c" "distinct (map fst (st_clients tiled_state))"
    by (simp_all add: tiled_state_def docked_state_def slot_get_def)
  have g: "g_x (c_geometry ?c) = 0" "g_y (c_geometry ?c) = 0" by code_simp+
  have plan: "plan_hidden_restore (c_geometry ?c) (desktop_left_edge tiled_state) = None" by code_simp
  have room: "room_left tiled_state (total_width ?c)" by code_simp
  have e: "pe_compositor (ae_place (se_env still_show))" by (simp add: still_show_def still_env_def)
  have "st_monitors (sw_state (hide_client still_show 1 (hide_client still_show 1 tiled_showing))) = st_monitors tiled_state"
    using hides_state [of tiled_showing 1 ?c _ "[still_show, still_show]", unfolded s, OF c(1) refl] by simp
  then have m: "(0, tiled_monitor) \<in> set (st_monitors (sw_state (hide_client still_show 1 (hide_client still_show 1 tiled_showing))))"
    "m_x (mon_geometry tiled_monitor) = 0" by (simp_all add: tiled_state_def tiled_monitor_def docked_monitor_def)
  show ?thesis
    using hide_show_round_trip [of tiled_showing 1 ?c _ "[still_show, still_show]" still_show, unfolded s, OF c plan refl] e g room m by fastforce
qed

end
