(* ===== verification/Desktop.thy ===== *)
theory Desktop
  imports Visibility
begin

text \<open>
  The whole \<open>arrange\<close> of \<open>src/jwm/layout/arrange.rs\<close>: every monitor is shown and hidden, its bar window is put
  in place (\<open>src/jwm/client.rs\<close>), its tiles are laid out, its maximized windows are fitted to the work area
  again (\<open>src/jwm/maximize.rs\<close>) and its windows are restacked. Repaints and messages to subscribers
  change nothing here and are left out.
\<close>

section \<open>Context\<close>

text \<open>Of a bar instance: its client, its window and the strut published last. The process and its ring are left out.\<close>

record secondary_bar =
  sb_client :: "client_key option"
  sb_window :: "window_id option"
  sb_last_strut :: "strut_partial option"

text \<open>\<open>dt_struts\<close> and \<open>dt_restacks\<close> are the requests sent to the backend; a strut of \<open>None\<close> takes the property away.\<close>

record desktop =
  dt_show :: showing
  dt_bars :: "(int, secondary_bar) slotmap"
  dt_moved_bars :: "(window_id \<times> rect) list"
  dt_struts :: "(window_id \<times> strut_partial option) list"
  dt_stacking :: stacking_state
  dt_restacks :: "window_id list list"

record desktop_env =
  de_show :: show_env
  moves_bar :: "window_id \<Rightarrow> rect \<Rightarrow> bool"
  sets_strut :: "window_id \<Rightarrow> strut_partial option \<Rightarrow> bool"
  restacks_windows :: "window_id list \<Rightarrow> bool"

abbreviation dt_state :: "desktop \<Rightarrow> wm_state" where "dt_state d \<equiv> sw_state (dt_show d)"

definition set_dt_state :: "wm_state \<Rightarrow> desktop \<Rightarrow> desktop" where
  "set_dt_state s d = d\<lparr>dt_show := set_sw_state s (dt_show d)\<rparr>"

section \<open>The bar window\<close>

definition status_bar_strut :: "area_config \<Rightarrow> wm_state \<Rightarrow> wm_monitor \<Rightarrow> strut_partial" where
  "status_bar_strut cfg s mon =
     (let (left, top_y, right, bottom_y) = fold (\<lambda>(_, m) (l, t, r, b). let g = mon_geometry m in
            (min l (m_x g), min t (m_y g), max r (m_x g + max (m_w g) 1), max b (m_y g + max (m_h g) 1))) (st_monitors s)
            (9223372036854775807, 9223372036854775807, - 9223372036854775808, - 9223372036854775808)
      in bar_strut (bar_for_monitor mon (bar_config.truncate cfg)) (physical_rect mon)
           (rect_new (wrap32 left) (wrap32 top_y) (clamp (right - left) 1 i32_max) (clamp (bottom_y - top_y) 1 i32_max)))"

definition bar_target :: "area_config \<Rightarrow> wm_state \<Rightarrow> monitor_key \<Rightarrow> wm_monitor \<Rightarrow> rect" where
  "bar_target cfg s m mon =
     (let r = bg_rect (bar_for_monitor mon (bar_config.truncate cfg))
      in if monitor_shows_status_bar s m then r
         else rect_new (hidden_x_left_of_desktop (desktop_left_edge s) (rect_w r)) (m_y (mon_geometry mon)) (rect_w r) (rect_h r))"

definition move_geometry :: "rect \<Rightarrow> client_geometry \<Rightarrow> client_geometry" where
  "move_geometry r g = g\<lparr>g_x := rect_x r, g_y := rect_y r, g_w := rect_w r, g_h := rect_h r\<rparr>"

definition move_bar :: "desktop_env \<Rightarrow> client_key \<Rightarrow> window_id \<Rightarrow> rect \<Rightarrow> desktop \<Rightarrow> bool \<times> desktop" where
  "move_bar env k win target d =
     (if (case slot_get (st_clients (dt_state d)) k of None \<Rightarrow> False | Some c \<Rightarrow> geometry_rect (c_geometry c) \<noteq> target)
      then let d1 = d\<lparr>dt_moved_bars := dt_moved_bars d @ [(win, target)]\<rparr>
           in if moves_bar env win target then (True, set_dt_state (update_geometry k (move_geometry target) (dt_state d1)) d1) else (False, d1)
      else (True, d))"

definition publish_strut :: "desktop_env \<Rightarrow> window_id \<Rightarrow> int \<Rightarrow> bool \<Rightarrow> strut_partial \<Rightarrow> desktop \<Rightarrow> bool \<times> desktop" where
  "publish_strut env win num show_bar desired d =
     (if (case slot_get (dt_bars d) num of None \<Rightarrow> True | Some bar \<Rightarrow> sb_last_strut bar \<noteq> Some desired)
      then let request = (if show_bar \<and> (st_left desired > 0 \<or> st_right desired > 0 \<or> st_top desired > 0 \<or> st_bottom desired > 0) then Some desired else None);
               d1 = d\<lparr>dt_struts := dt_struts d @ [(win, request)]\<rparr>
           in if sets_strut env win request
              then (True, d1\<lparr>dt_bars := slot_update num (\<lambda>bar. bar\<lparr>sb_last_strut := Some desired\<rparr>) (dt_bars d1)\<rparr>) else (False, d1)
      else (True, d))"

definition position_secondary_bar_on_monitor :: "desktop_env \<Rightarrow> client_key \<Rightarrow> window_id \<Rightarrow> int \<Rightarrow> desktop \<Rightarrow> bool \<times> desktop" where
  "position_secondary_bar_on_monitor env k win num d = (case get_monitor_by_id (dt_state d) num of
     None \<Rightarrow> (True, d)
   | Some m \<Rightarrow> (case slot_get (st_monitors (dt_state d)) m of
       None \<Rightarrow> (True, d)
     | Some mon \<Rightarrow>
         let cfg = ae_cfg (se_env (de_show env));
             show_bar = monitor_shows_status_bar (dt_state d) m;
             desired = (if show_bar then status_bar_strut cfg (dt_state d) mon else zero_strut)
         in case move_bar env k win (bar_target cfg (dt_state d) m mon) d of
              (False, d1) \<Rightarrow> (False, d1)
            | (True, d1) \<Rightarrow> publish_strut env win num show_bar desired d1))"

definition sync_secondary_bar_position :: "desktop_env \<Rightarrow> monitor_key \<Rightarrow> desktop \<Rightarrow> desktop" where
  "sync_secondary_bar_position env m d = (case slot_get (st_monitors (dt_state d)) m of
     None \<Rightarrow> d
   | Some mon \<Rightarrow> (case slot_get (dt_bars d) (mon_num mon) of
       None \<Rightarrow> d
     | Some bar \<Rightarrow> (case (sb_client bar, sb_window bar) of
         (Some k, Some win) \<Rightarrow> snd (position_secondary_bar_on_monitor env k win (mon_num mon) d)
       | _ \<Rightarrow> d)))"

section \<open>Maximized windows\<close>

definition monitor_rect :: "wm_monitor \<Rightarrow> rect" where
  "monitor_rect mon = rect_new (m_x (mon_geometry mon)) (m_y (mon_geometry mon)) (max (m_w (mon_geometry mon)) 1) (max (m_h (mon_geometry mon)) 1)"

definition monitor_work_rect :: "wm_monitor \<Rightarrow> rect" where
  "monitor_work_rect mon = rect_new (w_x (mon_geometry mon)) (w_y (mon_geometry mon)) (max (w_w (mon_geometry mon)) 1) (max (w_h (mon_geometry mon)) 1)"

definition valid_rect :: "rect \<Rightarrow> rect option" where
  "valid_rect r = (if rect_w r > 0 \<and> rect_h r > 0 then Some r else None)"

definition monitor_migration_areas :: "area_config \<Rightarrow> shell_state \<Rightarrow> wm_state \<Rightarrow> monitor_key \<Rightarrow> (rect \<times> rect) option" where
  "monitor_migration_areas cfg shell s m = (case slot_get (st_monitors s) m of
     None \<Rightarrow> None
   | Some mon \<Rightarrow> Some (monitor_rect mon,
       or_else (Option.bind (monitor_restore_work_area cfg shell s m) valid_rect) (monitor_work_rect mon)))"

definition maximize_work_area :: "area_config \<Rightarrow> shell_state \<Rightarrow> wm_state \<Rightarrow> monitor_key \<Rightarrow> rect option" where
  "maximize_work_area cfg shell s m = map_option snd (monitor_migration_areas cfg shell s m)"

definition set_floating_rect :: "rect \<Rightarrow> client_geometry \<Rightarrow> client_geometry" where
  "set_floating_rect r g = g\<lparr>g_floating_x := rect_x r, g_floating_y := rect_y r, g_floating_w := rect_w r, g_floating_h := rect_h r\<rparr>"

definition refit_candidates :: "wm_state \<Rightarrow> monitor_key \<Rightarrow> client_key list" where
  "refit_candidates s m = filter (\<lambda>k. is_client_visible_on_monitor s k m) (filter (\<lambda>k. case slot_get (st_clients s) k of
     None \<Rightarrow> False
   | Some c \<Rightarrow> is_maximize_realized (c_state c) \<and> \<not> is_hidden (c_state c) \<and> g_hidden_x (c_geometry c) = None \<and> \<not> is_dock (c_state c))
     (or_else (monitor_clients s m) []))"

definition refit_maximized_client :: "show_env \<Rightarrow> rect \<Rightarrow> client_key \<Rightarrow> arranging \<Rightarrow> arranging" where
  "refit_maximized_client env area k a = (case slot_get (st_clients (ar_state a)) k of
     None \<Rightarrow> a
   | Some c \<Rightarrow>
       let live = geometry_rect (c_geometry c);
           axes = maximized_axes (c_state c);
           base = mirror_free_axes (or_else (g_maximize_restore_rect (c_geometry c)) live) live axes
       in case applysizehints (ae_fetch (se_env env)) (se_screen env) (ae_resize_hints (se_env env)) k
              (maximize_target base area axes (g_border_w (c_geometry c))) False (ar_state a, ar_bars a) of
            (Inl _, (s, bars)) \<Rightarrow> (set_ar_state s a)\<lparr>ar_bars := bars\<rparr>
          | (Inr (_, target), (s, bars)) \<Rightarrow>
              let s1 = update_geometry k (\<lambda>g. (if maximize_restore_tiled (c_state c) then g else set_floating_rect base g)\<lparr>g_maximize_restore_rect := Some base\<rparr>) s;
                  a1 = (set_ar_state s1 a)\<lparr>ar_bars := bars\<rparr>
              in if target = live then a1
                 else (case refit_keeping_restore_slot (ae_place (se_env env)) k target (s1, ar_anims a1) of
                     (_, (s2, anims), request) \<Rightarrow>
                       (set_ar_state s2 a1)\<lparr>ar_anims := anims, ar_log := ar_log a1 @ (case request of None \<Rightarrow> [] | Some q \<Rightarrow> [q])\<rparr>))"

definition refit_maximized_clients :: "show_env \<Rightarrow> monitor_key \<Rightarrow> arranging \<Rightarrow> arranging" where
  "refit_maximized_clients env m a =
     (let candidates = refit_candidates (ar_state a) m
      in if candidates = [] then a
         else case maximize_work_area (ae_cfg (se_env env)) (ae_shell (se_env env)) (ar_state a) m of
           None \<Rightarrow> a
         | Some area \<Rightarrow> fold (refit_maximized_client env area) candidates a)"

section \<open>The arrange of the desktop\<close>

definition restack_monitor :: "desktop_env \<Rightarrow> monitor_key \<Rightarrow> desktop \<Rightarrow> desktop" where
  "restack_monitor env m d = (case restack (restacks_windows env) (dt_state d) (Some m) (dt_stacking d) of
     (_, ss, sent) \<Rightarrow> d\<lparr>dt_stacking := ss, dt_restacks := dt_restacks d @ (case sent of None \<Rightarrow> [] | Some ws \<Rightarrow> [ws])\<rparr>)"

definition lay_out_monitor :: "desktop_env \<Rightarrow> monitor_key \<Rightarrow> desktop \<Rightarrow> desktop" where
  "lay_out_monitor env m d = restack_monitor env m (d\<lparr>dt_show := (dt_show d)\<lparr>sw_ar :=
     refit_maximized_clients (de_show env) m (arrangemon (se_env (de_show env)) m (sw_ar (dt_show d)))\<rparr>\<rparr>)"

definition arrange :: "desktop_env \<Rightarrow> monitor_key option \<Rightarrow> desktop \<Rightarrow> desktop" where
  "arrange env m_target d =
     (if ae_adopting (se_env (de_show env)) then d
      else let monitors_to_process = (case m_target of Some m \<Rightarrow> [m] | None \<Rightarrow> monitor_order (dt_state d));
               d1 = fold (\<lambda>m d. d\<lparr>dt_show := showhide_monitor (de_show env) m (dt_show d)\<rparr>) monitors_to_process d;
               d2 = fold (sync_secondary_bar_position env) monitors_to_process d1
           in fold (lay_out_monitor env) monitors_to_process d2)"

section \<open>What showing, hiding and moving leave alone\<close>

text \<open>The part of a client that none of the steps changes.\<close>

definition shape :: "wm_client \<Rightarrow> window_id \<times> monitor_key option \<times> client_state" where
  "shape c = (c_win c, c_mon c, (c_state c)\<lparr>is_fixed := False\<rparr>)"

definition reshapes :: "client_key set \<Rightarrow> wm_state \<Rightarrow> wm_state \<Rightarrow> bool" where
  "reshapes K s s' \<longleftrightarrow> (\<exists>cs. s' = s\<lparr>st_clients := cs\<rparr>) \<and> (\<forall>k. k \<notin> K \<longrightarrow> slot_get (st_clients s') k = slot_get (st_clients s) k) \<and>
     (\<forall>k. map_option shape (slot_get (st_clients s') k) = map_option shape (slot_get (st_clients s) k))"

lemma reshapes_refl [simp]: "reshapes K s s"
  by (auto simp: reshapes_def intro: exI [of _ "st_clients s"])

lemma reshapes_trans: "reshapes K s t \<Longrightarrow> reshapes L t u \<Longrightarrow> reshapes (K \<union> L) s u"
  unfolding reshapes_def by auto

lemma reshapes_same: "reshapes K s t \<Longrightarrow> reshapes K t u \<Longrightarrow> reshapes K s u"
  using reshapes_trans [of K s t K u] by simp

lemma reshapes_mono: "reshapes K s t \<Longrightarrow> K \<subseteq> L \<Longrightarrow> reshapes L s t"
  by (auto simp: reshapes_def)

lemma reshapes_frame:
  assumes "reshapes K s s'"
  shows "st_monitors s' = st_monitors s" "monitor_clients s' = monitor_clients s" "monitor_stack s' = monitor_stack s" "monitor_order s' = monitor_order s"
    "desktop_left_edge s' = desktop_left_edge s"
  using assms by (auto simp: reshapes_def desktop_left_edge_def)

lemma reshapes_client:
  assumes "reshapes K s s'" "slot_get (st_clients s') k = Some c'"
  obtains c where "slot_get (st_clients s) k = Some c" "shape c' = shape c" "k \<notin> K \<Longrightarrow> c' = c"
proof (cases "slot_get (st_clients s) k")
  case None
  have "map_option shape (slot_get (st_clients s') k) = map_option shape (slot_get (st_clients s) k)" using assms(1) by (simp add: reshapes_def)
  then show ?thesis by (simp add: None assms(2))
next
  case (Some c)
  have "map_option shape (slot_get (st_clients s') k) = map_option shape (slot_get (st_clients s) k)"
    "k \<notin> K \<Longrightarrow> slot_get (st_clients s') k = slot_get (st_clients s) k" using assms(1) by (simp_all add: reshapes_def)
  then show ?thesis using that [of c] by (simp add: Some assms(2))
qed

lemma shape_state:
  assumes "shape c' = shape c"
  shows "c_win c' = c_win c" "c_mon c' = c_mon c" "cs_tags (c_state c') = cs_tags (c_state c)" "is_floating (c_state c') = is_floating (c_state c)"
    "is_hidden (c_state c') = is_hidden (c_state c)" "is_swallowed (c_state c') = is_swallowed (c_state c)"
    "is_sticky (c_state c') = is_sticky (c_state c)" "is_dock (c_state c') = is_dock (c_state c)"
proof -
  have "(c_state c')\<lparr>is_fixed := False\<rparr> = (c_state c)\<lparr>is_fixed := False\<rparr>" using assms by (simp add: shape_def)
  then have "f ((c_state c')\<lparr>is_fixed := False\<rparr>) = f ((c_state c)\<lparr>is_fixed := False\<rparr>)" for f :: "client_state \<Rightarrow> 'x" by (rule arg_cong)
  from this [of cs_tags] this [of is_floating] this [of is_hidden] this [of is_swallowed] this [of is_sticky] this [of is_dock]
  show "cs_tags (c_state c') = cs_tags (c_state c)" "is_floating (c_state c') = is_floating (c_state c)"
    "is_hidden (c_state c') = is_hidden (c_state c)" "is_swallowed (c_state c') = is_swallowed (c_state c)"
    "is_sticky (c_state c') = is_sticky (c_state c)" "is_dock (c_state c') = is_dock (c_state c)" by simp_all
qed (use assms in \<open>simp_all add: shape_def\<close>)

lemma reshapes_None: "reshapes K s s' \<Longrightarrow> slot_get (st_clients s') k = None \<longleftrightarrow> slot_get (st_clients s) k = None"
  unfolding reshapes_def by (metis map_option_is_None)

lemma reshapes_visible:
  assumes "reshapes K s s'"
  shows "is_client_visible_on_monitor s' k m = is_client_visible_on_monitor s k m"
proof (cases "slot_get (st_clients s') k")
  case None
  then show ?thesis using reshapes_None [OF assms, of k] by (simp add: is_client_visible_on_monitor_def)
next
  case (Some c')
  then obtain c where "slot_get (st_clients s) k = Some c" "shape c' = shape c" using reshapes_client [OF assms] by metis
  then show ?thesis using Some shape_state [of c' c] reshapes_frame(1) [OF assms] by (simp add: is_client_visible_on_monitor_def split: option.split)
qed

lemma reshapes_lists:
  assumes "reshapes K s s'"
  shows "is_client_floating s' k = is_client_floating s k" "client_mon s' k = client_mon s k" "wf_lists s' = wf_lists s" "tiles s' m = tiles s m"
proof -
  have "is_client_floating s' k = is_client_floating s k \<and> client_mon s' k = client_mon s k" for k
  proof (cases "slot_get (st_clients s') k")
    case None
    then show ?thesis using reshapes_None [OF assms, of k] by (simp add: is_client_floating_def client_mon_def)
  next
    case (Some c')
    then obtain c where "slot_get (st_clients s) k = Some c" "shape c' = shape c" using reshapes_client [OF assms] by metis
    then show ?thesis using Some shape_state [of c' c] by (simp add: is_client_floating_def client_mon_def)
  qed
  then have f: "is_client_floating s' = is_client_floating s" "client_mon s' = client_mon s" by (simp_all add: fun_eq_iff)
  then show "is_client_floating s' k = is_client_floating s k" "client_mon s' k = client_mon s k" by simp_all
  show "wf_lists s' = wf_lists s" unfolding wf_lists_def group_ok_def f reshapes_frame(2,3) [OF assms] ..
  have "is_tile s' m k = is_tile s m k" for k
    using f(1) reshapes_None [OF assms, of k] reshapes_visible [OF assms, of k m]
    by (auto simp: is_tile_def is_client_floating_def fun_eq_iff split: option.splits)
  then show "tiles s' m = tiles s m" by (simp add: tiles_def get_monitor_clients_def reshapes_frame(2) [OF assms] cong: filter_cong)
qed

lemma shape_geometry [simp]: "shape (c\<lparr>c_geometry := g\<rparr>) = shape c" "shape (c\<lparr>c_size_hints := h\<rparr>) = shape c"
  by (simp_all add: shape_def)

lemma reshapes_geometry: "reshapes {k} s (update_geometry k f s)"
  unfolding reshapes_def by (auto simp: update_geometry_def slot_simps option.map_comp comp_def)

lemma refresh_shape: "shape (snd (refresh_client_size_hints fetch c)) = shape c"
  by (auto simp: refresh_client_size_hints_def shape_def split: option.splits)

lemma reshapes_hints: "reshapes {k} (fst sb) (fst (snd (ensure_size_hints_valid fetch k sb)))"
proof -
  have "reshapes {k} (fst sb) (fst (snd (updatesizehints fetch k sb)))"
  proof (cases "slot_get (st_clients (fst sb)) k")
    case (Some c)
    obtain e c' where r: "refresh_client_size_hints fetch c = (e, c')" by fastforce
    have "reshapes {k} (fst sb) ((fst sb)\<lparr>st_clients := slot_update k (\<lambda>_. c') (st_clients (fst sb))\<rparr>)"
      using refresh_shape [of fetch c] Some by (auto simp: r reshapes_def slot_simps)
    then show ?thesis by (cases e) (simp_all add: updatesizehints_def Some r Let_def)
  qed (simp add: updatesizehints_def)
  then show ?thesis by (simp add: ensure_size_hints_valid_def)
qed

lemma applysizehints_state:
  assumes "applysizehints fetch screen rh k r interact sb = (res, sb')"
  shows "fst sb' = fst sb \<or> fst sb' = fst (snd (ensure_size_hints_valid fetch k sb))"
  using assms unfolding applysizehints_def apply_size_hints_constraints_def Let_def
  by (auto split: option.splits sum.splits prod.splits if_splits)

lemma applysizehints_keeps:
  assumes "applysizehints fetch screen rh k r interact sb = (res, sb')"
  shows "reshapes {k} (fst sb) (fst sb')" "keeps {k} (fst sb) (fst sb')"
  using applysizehints_state [OF assms] reshapes_hints [of k sb fetch] keeps_hints [of k "{k}" sb fetch] by auto

lemma update_keeps:
  assumes "\<And>g. g_hidden_x (f g) = g_hidden_x g" "\<And>g. g_hidden_restore_rect (f g) = g_hidden_restore_rect g"
  shows "keeps {k} s (update_geometry k f s)"
  unfolding update_geometry_def using assms by (intro keeps_client) (simp_all add: skeleton_def)

lemma resizeclient_keeps:
  assumes "resizeclient env k r sa = (ok, (s', an), req)"
  shows "reshapes {k} (fst sa) s'" "keeps {k} (fst sa) s'"
proof -
  have "s' = fst sa \<or> s' = update_geometry k (place_geometry r) (fst sa)"
    using resizeclient_state [of env k r "fst sa" "snd sa"] assms by (auto split: option.splits)
  then show "reshapes {k} (fst sa) s'" "keeps {k} (fst sa) s'"
    using reshapes_geometry [of k "fst sa" "place_geometry r"] update_keeps [of "place_geometry r" k "fst sa"] by (auto simp: place_geometry_def)
qed

lemma resize_client_keeps:
  "reshapes {k} (ar_state a) (ar_state (resize_client env k r i a))" "keeps {k} (ar_state a) (ar_state (resize_client env k r i a))"
proof -
  obtain res s bars where h: "applysizehints (ae_fetch (se_env env)) (se_screen env) (ae_resize_hints (se_env env)) k r i (ar_state a, ar_bars a) = (res, s, bars)"
    by (metis surj_pair)
  note hk = applysizehints_keeps [OF h]
  show "reshapes {k} (ar_state a) (ar_state (resize_client env k r i a))" "keeps {k} (ar_state a) (ar_state (resize_client env k r i a))"
  proof (atomize (full), cases res)
    case (Inl e)
    then show "reshapes {k} (ar_state a) (ar_state (resize_client env k r i a)) \<and> keeps {k} (ar_state a) (ar_state (resize_client env k r i a))"
      using hk by (simp add: resize_client_def h set_ar_state_def)
  next
    case (Inr x)
    obtain ok s1 an req where rc: "resizeclient (ae_place (se_env env)) k (snd x) (s, ar_anims a) = (ok, (s1, an), req)" by (metis surj_pair)
    have "ar_state (resize_client env k r i a) = s1" using Inr by (simp add: resize_client_def h rc set_ar_state_def case_prod_unfold)
    then show "reshapes {k} (ar_state a) (ar_state (resize_client env k r i a)) \<and> keeps {k} (ar_state a) (ar_state (resize_client env k r i a))"
      using hk resizeclient_keeps [OF rc] by (auto intro: reshapes_same keeps_trans)
  qed
qed

lemma keeps_skeleton:
  assumes "keeps K s s'" "slot_get (st_clients s') k = Some c'"
  obtains c where "slot_get (st_clients s) k = Some c" "skeleton c' = skeleton c"
proof (cases "slot_get (st_clients s) k")
  case None
  then show ?thesis using keeps_exists [OF assms(1), of k] assms(2) by simp
next
  case (Some c)
  have "map_option skeleton (slot_get (st_clients s') k) = map_option skeleton (slot_get (st_clients s) k)" using assms(1) by (simp add: keeps_def)
  then show ?thesis using that [of c] by (simp add: Some assms(2))
qed

section \<open>Settled windows\<close>

definition slots_free :: "client_geometry \<Rightarrow> bool" where
  "slots_free g \<longleftrightarrow> g_hidden_x g = None \<and> g_hidden_restore_rect g = None"

definition parked_off :: "int \<Rightarrow> wm_client \<Rightarrow> bool" where
  "parked_off left c \<longleftrightarrow> g_hidden_x (c_geometry c) = Some (g_x (c_geometry c)) \<and> g_hidden_restore_rect (c_geometry c) \<noteq> None \<and>
     (2 * max (total_width c) 1 \<le> i32_max \<and> i32_min \<le> left - 2 * max (total_width c) 1 \<and> left \<le> i32_max \<longrightarrow> g_x (c_geometry c) + total_width c \<le> left)"

definition settled :: "int \<Rightarrow> wm_state \<Rightarrow> monitor_key \<Rightarrow> client_key \<Rightarrow> bool" where
  "settled left s m k \<longleftrightarrow> (\<forall>c. slot_get (st_clients s) k = Some c \<longrightarrow> \<not> is_dock (c_state c) \<longrightarrow>
     (if is_client_visible_on_monitor s k m then slots_free (c_geometry c) else parked_off left c))"

lemma skeleton_slots: "skeleton c' = skeleton c \<Longrightarrow> slots_free (c_geometry c') = slots_free (c_geometry c)"
  by (simp add: skeleton_def slots_free_def)

lemma restore_frees: "slots_free (snd (restore_hidden_geometry left x g))"
  by (auto simp: slots_free_def restore_hidden_geometry_def plan_hidden_restore_def Let_def split: if_splits option.splits)

lemma stage_parks:
  "parked_off left (c\<lparr>c_geometry := stage_hidden_geometry r (hidden_x_left_of_desktop left (total_width c)) (c_geometry c)\<rparr>)"
proof -
  have "total_width (c\<lparr>c_geometry := stage_hidden_geometry r x (c_geometry c)\<rparr>) = total_width c" for x
    by (simp add: total_width_def stage_hidden_geometry_def)
  moreover have "hidden_x_left_of_desktop left w + w \<le> left" if "2 * max w 1 \<le> i32_max" "i32_min \<le> left - 2 * max w 1" "left \<le> i32_max" for w
    using that by (auto simp: hidden_x_left_of_desktop_def sat32_def max_def min_def)
  ultimately show ?thesis by (simp add: parked_off_def stage_hidden_geometry_def split: option.split)
qed

lemma show_keeps:
  assumes "b = show_client env k a"
  shows "reshapes {k} (sw_state a) (sw_state b)" "slot_get (st_clients (sw_state b)) k = Some c \<Longrightarrow> slots_free (c_geometry c)"
proof -
  define f where "f = (\<lambda>g. snd (restore_hidden_geometry (desktop_left_edge (sw_state a)) (legacy_fallback (se_env env) k (sw_state a)) g))"
  have "reshapes {k} (sw_state a) (sw_state b) \<and> (\<forall>c. slot_get (st_clients (sw_state b)) k = Some c \<longrightarrow> slots_free (c_geometry c))"
  proof (cases "slot_get (st_clients (sw_state a)) k")
    case None
    then have "sw_state b = update_geometry k f (sw_state a)" by (simp add: assms show_client_def f_def Let_def set_ar_state_def)
    then show ?thesis using None reshapes_geometry by simp
  next
    case (Some c)
    let ?s = "update_geometry k f (sw_state a)"
    obtain t where t: "sw_state b = ?s \<or> (\<exists>r a'. ar_state a' = ?s \<and> sw_state b = ar_state (resize_client env k r False a'))"
      using show_state [OF Some f_def] by (metis assms set_ar_state_simps(1))
    have fr: "slots_free (c_geometry c')" if "slot_get (st_clients ?s) k = Some c'" for c'
      using that Some restore_frees by (auto simp: f_def)
    from t show ?thesis
    proof
      assume "sw_state b = ?s"
      then show ?thesis using fr reshapes_geometry by metis
    next
      assume "\<exists>r a'. ar_state a' = ?s \<and> sw_state b = ar_state (resize_client env k r False a')"
      then have k: "reshapes {k} ?s (sw_state b)" "keeps {k} ?s (sw_state b)" using resize_client_keeps by metis+
      have "slots_free (c_geometry c')" if c': "slot_get (st_clients (sw_state b)) k = Some c'" for c'
        using keeps_skeleton [OF k(2) c'] fr skeleton_slots by metis
      then show ?thesis using reshapes_same [OF reshapes_geometry k(1)] by blast
    qed
  qed
  then show "reshapes {k} (sw_state a) (sw_state b)" "slot_get (st_clients (sw_state b)) k = Some c \<Longrightarrow> slots_free (c_geometry c)" by blast+
qed

lemma hide_keeps:
  assumes "b = hide_client env k a"
  shows "reshapes {k} (sw_state a) (sw_state b)" "slot_get (st_clients (sw_state b)) k = Some c \<Longrightarrow> parked_off (desktop_left_edge (sw_state a)) c"
proof -
  have "reshapes {k} (sw_state a) (sw_state b) \<and> (slot_get (st_clients (sw_state b)) k = Some c \<longrightarrow> parked_off (desktop_left_edge (sw_state a)) c)"
  proof (cases "slot_get (st_clients (sw_state a)) k")
    case None
    then show ?thesis by (simp add: assms hide_client_def)
  next
    case (Some c0)
    have e: "sw_state b = update_geometry k (\<lambda>g. stage_hidden_geometry (geometry_rect g) (park_x (sw_state a) k) g) (sw_state a)"
      using hide_state(1) [OF Some] assms by simp
    show ?thesis unfolding e using reshapes_geometry stage_parks [where left = "desktop_left_edge (sw_state a)" and c = c0 and r = "geometry_rect (c_geometry c0)"] Some
      by (auto simp: park_x_def)
  qed
  then show "reshapes {k} (sw_state a) (sw_state b)" "slot_get (st_clients (sw_state b)) k = Some c \<Longrightarrow> parked_off (desktop_left_edge (sw_state a)) c" by blast+
qed

lemma showhide_settles:
  assumes "b = showhide_client env m k a"
  shows "reshapes {k} (sw_state a) (sw_state b)" "settled (desktop_left_edge (sw_state a)) (sw_state b) m k"
proof -
  have r: "reshapes {k} (sw_state a) (sw_state b)" using assms show_keeps(1) [OF refl] hide_keeps(1) [OF refl] by (auto simp: showhide_client_def)
  then show "reshapes {k} (sw_state a) (sw_state b)" .
  show "settled (desktop_left_edge (sw_state a)) (sw_state b) m k"
    unfolding settled_def reshapes_visible [OF r]
  proof (intro allI impI)
    fix c' assume c': "slot_get (st_clients (sw_state b)) k = Some c'" "\<not> is_dock (c_state c')"
    then obtain c where c: "slot_get (st_clients (sw_state a)) k = Some c" "\<not> is_dock (c_state c)"
      using reshapes_client [OF r c'(1)] shape_state(8) by metis
    then have "b = (if is_client_visible_on_monitor (sw_state a) k m then show_client env k a else hide_client env k a)"
      by (simp add: assms showhide_client_def)
    then show "if is_client_visible_on_monitor (sw_state a) k m then slots_free (c_geometry c') else parked_off (desktop_left_edge (sw_state a)) c'"
      using show_keeps(2) [OF refl] hide_keeps(2) [OF refl] c'(1) by (auto split: if_splits)
  qed
qed

text \<open>What a step does to other windows leaves a settled window settled.\<close>

lemma settled_reshapes:
  assumes "reshapes K s s'" "k \<in> K \<Longrightarrow> \<exists>c. slot_get (st_clients s) k = Some c \<and> is_dock (c_state c)" "settled left s m k"
  shows "settled left s' m k"
  unfolding settled_def reshapes_visible [OF assms(1)]
proof (intro allI impI)
  fix c' assume c': "slot_get (st_clients s') k = Some c'" "\<not> is_dock (c_state c')"
  then obtain c where c: "slot_get (st_clients s) k = Some c" "shape c' = shape c" "k \<notin> K \<Longrightarrow> c' = c" using reshapes_client [OF assms(1)] by metis
  then have "k \<notin> K" using assms(2) c'(2) shape_state(8) [OF c(2)] by auto
  then show "if is_client_visible_on_monitor s k m then slots_free (c_geometry c') else parked_off left c'"
    using assms(3) c c' by (simp add: settled_def)
qed

lemma settled_keeps:
  assumes "keeps K s s'" "k \<in> K \<Longrightarrow> is_client_visible_on_monitor s k m" "settled left s m k"
  shows "settled left s' m k"
  unfolding settled_def keeps_tile(3) [OF assms(1)]
proof (intro allI impI)
  fix c' assume c': "slot_get (st_clients s') k = Some c'" "\<not> is_dock (c_state c')"
  then obtain c where c: "slot_get (st_clients s) k = Some c" "skeleton c' = skeleton c" using keeps_skeleton [OF assms(1)] by metis
  have d: "\<not> is_dock (c_state c)" using c'(2) c(2) by (simp add: skeleton_def)
  show "if is_client_visible_on_monitor s k m then slots_free (c_geometry c') else parked_off left c'"
  proof (cases "is_client_visible_on_monitor s k m")
    case True
    then show ?thesis using assms(3) c d skeleton_slots [OF c(2)] by (simp add: settled_def)
  next
    case False
    then have "slot_get (st_clients s') k = slot_get (st_clients s) k" using assms(1,2) by (auto simp: keeps_def)
    then show ?thesis using False assms(3) c c' by (simp add: settled_def)
  qed
qed

lemma showhide_fold:
  assumes "distinct ks" "b = fold (showhide_client env m) ks a"
  shows "reshapes (set ks) (sw_state a) (sw_state b) \<and> (\<forall>k \<in> set ks. settled (desktop_left_edge (sw_state a)) (sw_state b) m k)"
  using assms
proof (induction ks arbitrary: a)
  case (Cons k ks)
  define a1 where "a1 = showhide_client env m k a"
  note one = showhide_settles [OF a1_def]
  have rest: "reshapes (set ks) (sw_state a1) (sw_state b)" "\<forall>k \<in> set ks. settled (desktop_left_edge (sw_state a1)) (sw_state b) m k"
    using Cons.IH [of a1] Cons.prems by (simp_all add: a1_def)
  have "settled (desktop_left_edge (sw_state a)) (sw_state b) m k"
    by (rule settled_reshapes [OF rest(1) _ one(2)]) (use Cons.prems(1) in simp)
  then show ?case using reshapes_trans [OF one(1) rest(1)] rest(2) reshapes_frame(5) [OF one(1)] by simp
qed simp

section \<open>Bars stay docks\<close>

definition bar_client :: "desktop \<Rightarrow> int \<Rightarrow> client_key option" where
  "bar_client d num = (case slot_get (dt_bars d) num of None \<Rightarrow> None | Some bar \<Rightarrow> sb_client bar)"

definition bars_are_docks :: "desktop \<Rightarrow> bool" where
  "bars_are_docks d \<longleftrightarrow> (\<forall>num k. bar_client d num = Some k \<longrightarrow> (\<exists>c. slot_get (st_clients (dt_state d)) k = Some c \<and> is_dock (c_state c)))"

definition bar_keys :: "desktop \<Rightarrow> client_key set" where
  "bar_keys d = {k. \<exists>num. bar_client d num = Some k}"

lemma dt_simps [simp]:
  "dt_show (set_dt_state s d) = set_sw_state s (dt_show d)" "dt_bars (set_dt_state s d) = dt_bars d"
  by (simp_all add: set_dt_state_def)

lemma move_bar_keeps:
  "reshapes {k} (dt_state d) (dt_state (snd (move_bar env k win r d)))" "dt_bars (snd (move_bar env k win r d)) = dt_bars d"
  "cx_strips (ar_cx (sw_ar (dt_show (snd (move_bar env k win r d))))) = cx_strips (ar_cx (sw_ar (dt_show d)))"
  using reshapes_geometry [of k "dt_state d"] by (auto simp: move_bar_def Let_def set_ar_state_def split: option.split)

lemma publish_keeps:
  "dt_show (snd (publish_strut env win num sh st d)) = dt_show d" "bar_client (snd (publish_strut env win num sh st d)) = bar_client d"
proof -
  show "dt_show (snd (publish_strut env win num sh st d)) = dt_show d" by (simp add: publish_strut_def Let_def)
  have "map_option sb_client (slot_get (dt_bars (snd (publish_strut env win num sh st d))) n) = map_option sb_client (slot_get (dt_bars d) n)" for n
    by (auto simp: publish_strut_def Let_def slot_simps option.map_comp comp_def)
  moreover have "bar_client e n = Option.bind (map_option sb_client (slot_get (dt_bars e) n)) id" for e n
    by (cases "slot_get (dt_bars e) n") (simp_all add: bar_client_def)
  ultimately have "bar_client (snd (publish_strut env win num sh st d)) n = bar_client d n" for n by simp
  then show "bar_client (snd (publish_strut env win num sh st d)) = bar_client d" by (simp add: fun_eq_iff)
qed

lemma position_keeps:
  assumes "d' = snd (position_secondary_bar_on_monitor env k win num d)"
  shows "reshapes {k} (dt_state d) (dt_state d')" "bar_client d' = bar_client d"
    "cx_strips (ar_cx (sw_ar (dt_show d'))) = cx_strips (ar_cx (sw_ar (dt_show d)))"
proof -
  have bc: "dt_bars e' = dt_bars e \<Longrightarrow> bar_client e' = bar_client e" for e e' by (simp add: bar_client_def fun_eq_iff)
  have "reshapes {k} (dt_state d) (dt_state d') \<and> bar_client d' = bar_client d \<and> cx_strips (ar_cx (sw_ar (dt_show d'))) = cx_strips (ar_cx (sw_ar (dt_show d)))"
  proof (cases "Option.bind (get_monitor_by_id (dt_state d) num) (slot_get (st_monitors (dt_state d)))")
    case None
    then have "d' = d" by (auto simp: assms position_secondary_bar_on_monitor_def split: option.splits)
    then show ?thesis by simp
  next
    case (Some mon)
    then obtain m where m: "get_monitor_by_id (dt_state d) num = Some m" "slot_get (st_monitors (dt_state d)) m = Some mon" by (auto simp: bind_eq_Some_conv)
    define t where "t = bar_target (ae_cfg (se_env (de_show env))) (dt_state d) m mon"
    obtain ok d1 where mv: "move_bar env k win t d = (ok, d1)" by fastforce
    note mk = move_bar_keeps [where k = k and d = d and env = env and win = win and r = t, unfolded mv snd_conv]
    have "d' = d1 \<or> (\<exists>sh st. d' = snd (publish_strut env win num sh st d1))"
      unfolding assms position_secondary_bar_on_monitor_def m option.case Let_def t_def [symmetric] mv by (cases ok) auto
    then show ?thesis using mk publish_keeps bc [OF mk(2)] by auto
  qed
  then show "reshapes {k} (dt_state d) (dt_state d')" "bar_client d' = bar_client d"
    "cx_strips (ar_cx (sw_ar (dt_show d'))) = cx_strips (ar_cx (sw_ar (dt_show d)))" by blast+
qed

lemma sync_keeps:
  assumes "d' = sync_secondary_bar_position env m d"
  shows "reshapes (bar_keys d) (dt_state d) (dt_state d') \<and> bar_client d' = bar_client d \<and>
    cx_strips (ar_cx (sw_ar (dt_show d'))) = cx_strips (ar_cx (sw_ar (dt_show d)))"
proof (cases "\<exists>num bar k win. slot_get (dt_bars d) num = Some bar \<and> sb_client bar = Some k \<and> d' = snd (position_secondary_bar_on_monitor env k win num d)")
  case True
  then obtain num bar k win where p: "slot_get (dt_bars d) num = Some bar" "sb_client bar = Some k"
    "d' = snd (position_secondary_bar_on_monitor env k win num d)" by blast
  have "k \<in> bar_keys d" using p(1,2) by (auto simp: bar_keys_def bar_client_def intro!: exI [of _ num])
  then show ?thesis using position_keeps [OF p(3)] by (auto intro: reshapes_mono)
next
  case False
  then have "d' = d" unfolding assms sync_secondary_bar_position_def by (auto split: option.splits)
  then show ?thesis by simp
qed

lemma docks_reshape:
  assumes "bars_are_docks d" "reshapes K (dt_state d) (dt_state d')" "bar_client d' = bar_client d"
  shows "bars_are_docks d'"
  unfolding bars_are_docks_def assms(3)
proof (intro allI impI)
  fix num k assume "bar_client d num = Some k"
  then obtain c where c: "slot_get (st_clients (dt_state d)) k = Some c" "is_dock (c_state c)" using assms(1) unfolding bars_are_docks_def by blast
  then obtain c' where c': "slot_get (st_clients (dt_state d')) k = Some c'" using reshapes_None [OF assms(2), of k] by fastforce
  then have "is_dock (c_state c')" using reshapes_client [OF assms(2) c'] c shape_state(8) by (metis option.inject)
  then show "\<exists>c. slot_get (st_clients (dt_state d')) k = Some c \<and> is_dock (c_state c)" using c' by blast
qed

lemma sync_fold:
  assumes "bars_are_docks d" "d' = fold (sync_secondary_bar_position env) ms d"
  shows "reshapes (bar_keys d) (dt_state d) (dt_state d') \<and> bars_are_docks d' \<and> cx_strips (ar_cx (sw_ar (dt_show d'))) = cx_strips (ar_cx (sw_ar (dt_show d))) \<and>
    (\<forall>left m k. settled left (dt_state d) m k \<longrightarrow> settled left (dt_state d') m k)"
  using assms
proof (induction ms arbitrary: d)
  case (Cons m ms)
  define d1 where "d1 = sync_secondary_bar_position env m d"
  note one = sync_keeps [OF d1_def]
  have k1: "bars_are_docks d1" using docks_reshape [OF Cons.prems(1)] one by blast
  have same: "bar_keys d1 = bar_keys d" using one by (simp add: bar_keys_def)
  note rest = Cons.IH [OF k1, unfolded same]
  have "d' = fold (sync_secondary_bar_position env) ms d1" using Cons.prems(2) by (simp add: d1_def)
  note r = rest [OF this]
  have "settled left (dt_state d1) n k" if "settled left (dt_state d) n k" for left n k
    by (rule settled_reshapes [OF conjunct1 [OF one] _ that]) (use Cons.prems(1) in \<open>auto simp: bars_are_docks_def bar_keys_def\<close>)
  then show ?case using r one reshapes_same by fastforce
qed simp

section \<open>Laying out a monitor\<close>

lemma set_ar_state_strips [simp]: "cx_strips (ar_cx (set_ar_state s a)) = cx_strips (ar_cx a)"
  by (simp add: set_ar_state_def)

lemma apply_one_strips: "cx_strips (ar_cx (apply_one env pre r a)) = cx_strips (ar_cx a)"
  by (auto simp: apply_one_def Let_def split: prod.splits sum.splits)

lemma fold_strips: "(\<And>x a. cx_strips (ar_cx (f x a)) = cx_strips (ar_cx a)) \<Longrightarrow> cx_strips (ar_cx (fold f xs a)) = cx_strips (ar_cx a)"
  by (induction xs arbitrary: a) simp_all

lemma prepare_strips: "cx_strips (ar_cx (snd (prepare_layout_resize env m area gap results a))) = cx_strips (ar_cx a)"
  unfolding prepare_layout_resize_def planned_results_def Let_def
  by (auto simp: update_monitor_def prune_layout_resize_def split: prod.splits option.splits if_splits)

lemma apply_results_strips: "cx_strips (ar_cx (apply_layout_results env m area gap results a)) = cx_strips (ar_cx a)"
  using prepare_strips [of env m area gap results a] by (auto simp: apply_layout_results_def fold_strips apply_one_strips split: prod.splits)

lemma layout_inputs_strips: "cx_strips (ar_cx (snd (layout_inputs env m a))) = cx_strips (ar_cx a)"
  by (auto simp: layout_inputs_def Let_def split: prod.splits)

lemma put_strip_other: "n \<noteq> m \<Longrightarrow> cx_strips (put_strip m st cx) (n, t) = cx_strips cx (n, t)"
  by (auto simp: put_strip_def scrolling_state_key_def split: option.splits)

lemma layouts_strips:
  "cx_strips (ar_cx (tiling_layout_wrapper env m calc a)) = cx_strips (ar_cx a)" "cx_strips (ar_cx (arrange_vstack env m a)) = cx_strips (ar_cx a)"
  "cx_strips (ar_cx (arrange_fullscreen env m a)) = cx_strips (ar_cx a)" "cx_strips (ar_cx (arrange_monocle env m a)) = cx_strips (ar_cx a)"
proof -
  show "cx_strips (ar_cx (tiling_layout_wrapper env m calc a)) = cx_strips (ar_cx a)" "cx_strips (ar_cx (arrange_vstack env m a)) = cx_strips (ar_cx a)"
    using layout_inputs_strips [of env m a] by (auto simp: tiling_layout_wrapper_def arrange_vstack_def Let_def apply_results_strips split: prod.splits option.splits)
  show "cx_strips (ar_cx (arrange_fullscreen env m a)) = cx_strips (ar_cx a)"
    by (auto simp: arrange_fullscreen_def Let_def apply_results_strips split: option.splits)
  show "cx_strips (ar_cx (arrange_monocle env m a)) = cx_strips (ar_cx a)"
    unfolding arrange_monocle_def Let_def by (auto simp: apply_results_strips set_symbol_keeps split: prod.splits)
qed

lemma scrolling_strips:
  assumes "n \<noteq> m"
  shows "cx_strips (ar_cx (arrange_scrolling env m a)) (n, t) = cx_strips (ar_cx a) (n, t)"
  using layout_inputs_strips [of env m a] unfolding arrange_scrolling_def Let_def
  by (auto simp: apply_results_strips put_strip_other [OF assms] split: prod.splits option.splits)

lemma arrangemon_strips:
  assumes "n \<noteq> m"
  shows "cx_strips (ar_cx (arrangemon env m a)) (n, t) = cx_strips (ar_cx a) (n, t)"
proof -
  have "cx_strips (ar_cx (run_layout env m name b)) (n, t) = cx_strips (ar_cx b) (n, t)" for name b
    by (auto simp: run_layout_def layouts_strips scrolling_strips [OF assms] split: option.split)
  then show ?thesis by (auto simp: arrangemon_def Let_def drop_stale_same set_symbol_keeps split: option.split)
qed

lemma arrangemon_keeps:
  assumes "\<not> ae_adopting env" "wf_lists (ar_state a)" "int (length (tiles (ar_state a) m)) \<le> 1073741824"
    "\<And>t st. cx_strips (ar_cx a) (m, t) = Some st \<Longrightarrow> wf_scrolling st"
  shows "keeps (set (tiles (ar_state a) m)) (ar_state a) (ar_state (arrangemon env m a))"
proof (cases "slot_get (st_monitors (ar_state a)) m")
  case None
  then show ?thesis by (simp add: arrangemon_def)
next
  case (Some mon)
  show ?thesis
  proof (cases "layout_name (mon_lt mon) \<in> tiling_names")
    case True
    then show ?thesis using arrangemon_arranges [OF assms(1) Some True assms(2,3,4)] by (simp add: arranges_def)
  next
    case False
    then have n: "run_layout env m (layout_name (mon_lt mon)) b = b" for b
      by (auto simp: run_layout_def wrapped_engine_def tiling_names_def)
    show ?thesis using keeps_trans [OF set_symbol_keeps(1) drop_stale_keeps] set_symbol_keeps(1) by (simp add: arrangemon_def assms(1) Some Let_def n)
  qed
qed

lemma refit_slot_keeps:
  assumes "refit_keeping_restore_slot env k r sa = (ok, (s', an), req)"
  shows "keeps {k} (fst sa) s'"
proof (cases "slot_get (st_clients (fst sa)) k")
  case None
  then show ?thesis using assms resizeclient_keeps(2) by (simp add: refit_keeping_restore_slot_def)
next
  case (Some c)
  obtain ok1 s1 an1 req1 where rc: "resizeclient env k r sa = (ok1, (s1, an1), req1)" by (metis surj_pair)
  have "\<exists>f. s' = update_geometry k f s1 \<and> (\<forall>g. g_hidden_x (f g) = g_hidden_x g \<and> g_hidden_restore_rect (f g) = g_hidden_restore_rect g)"
    using assms rc Some unfolding refit_keeping_restore_slot_def update_geometry_def
    by (auto simp: Let_def intro!: exI [of _ "\<lambda>g. g\<lparr>g_old_x := g_old_x (c_geometry c), g_old_y := g_old_y (c_geometry c),
        g_old_w := g_old_w (c_geometry c), g_old_h := g_old_h (c_geometry c)\<rparr>"])
  then show ?thesis using keeps_trans [OF resizeclient_keeps(2) [OF rc]] update_keeps by metis
qed

lemma refit_one_keeps:
  "keeps {k} (ar_state a) (ar_state (refit_maximized_client env area k a))" "cx_strips (ar_cx (refit_maximized_client env area k a)) = cx_strips (ar_cx a)"
proof -
  show "keeps {k} (ar_state a) (ar_state (refit_maximized_client env area k a))"
  proof (cases "slot_get (st_clients (ar_state a)) k")
    case None
    then show ?thesis by (simp add: refit_maximized_client_def)
  next
    case (Some c)
    define live where "live = geometry_rect (c_geometry c)"
    define base where "base = mirror_free_axes (or_else (g_maximize_restore_rect (c_geometry c)) live) live (maximized_axes (c_state c))"
    obtain res s bars where h: "applysizehints (ae_fetch (se_env env)) (se_screen env) (ae_resize_hints (se_env env)) k
        (maximize_target base area (maximized_axes (c_state c)) (g_border_w (c_geometry c))) False (ar_state a, ar_bars a) = (res, s, bars)" by (metis surj_pair)
    have hk: "keeps {k} (ar_state a) s" using applysizehints_keeps(2) [OF h] by simp
    define s1 where "s1 = update_geometry k (\<lambda>g. (if maximize_restore_tiled (c_state c) then g else set_floating_rect base g)\<lparr>g_maximize_restore_rect := Some base\<rparr>) s"
    have k1: "keeps {k} (ar_state a) s1"
      unfolding s1_def by (rule keeps_trans [OF hk update_keeps]) (simp_all add: set_floating_rect_def)
    note d = refit_maximized_client_def Some option.case Let_def live_def [symmetric] base_def [symmetric] h
    show ?thesis
    proof (cases res)
      case (Inl e)
      then show ?thesis using hk unfolding d by (simp add: set_ar_state_def)
    next
      case (Inr x)
      obtain ok s2 an req where rf: "refit_keeping_restore_slot (ae_place (se_env env)) k (snd x) (s1, ar_anims a) = (ok, (s2, an), req)" by (metis surj_pair)
      have "keeps {k} (ar_state a) s2" using keeps_trans [OF k1] refit_slot_keeps [OF rf] by simp
      then show ?thesis using k1 rf unfolding d Inr by (auto simp: s1_def [symmetric] set_ar_state_def case_prod_unfold)
    qed
  qed
  show "cx_strips (ar_cx (refit_maximized_client env area k a)) = cx_strips (ar_cx a)"
    unfolding refit_maximized_client_def Let_def by (auto split: option.splits prod.splits sum.splits)
qed

lemma refit_keeps:
  "keeps (set (refit_candidates (ar_state a) m)) (ar_state a) (ar_state (refit_maximized_clients env m a)) \<and>
   cx_strips (ar_cx (refit_maximized_clients env m a)) = cx_strips (ar_cx a)"
proof -
  have "keeps (set ks) (ar_state b) (ar_state (fold (refit_maximized_client env area) ks b)) \<and>
      cx_strips (ar_cx (fold (refit_maximized_client env area) ks b)) = cx_strips (ar_cx b)" for ks area b
  proof (induction ks arbitrary: b)
    case (Cons k ks)
    have "keeps (set (k # ks)) (ar_state b) (ar_state (refit_maximized_client env area k b))"
      by (rule keeps_mono [OF refit_one_keeps(1)]) simp
    moreover have "keeps (set (k # ks)) (ar_state (refit_maximized_client env area k b)) (ar_state (fold (refit_maximized_client env area) (k # ks) b))"
      using Cons.IH [of "refit_maximized_client env area k b"] by (auto intro: keeps_mono)
    ultimately show ?case using keeps_trans Cons.IH [of "refit_maximized_client env area k b"] refit_one_keeps(2) by (metis fold_simps(2))
  qed simp
  then show ?thesis by (auto simp: refit_maximized_clients_def Let_def split: option.split)
qed

definition shown_on :: "wm_state \<Rightarrow> monitor_key \<Rightarrow> client_key set" where
  "shown_on s m = {k \<in> set (get_monitor_clients s m). is_client_visible_on_monitor s k m}"

lemma keeps_mon:
  assumes "keeps K s s'"
  shows "client_mon s' k = client_mon s k"
proof (cases "slot_get (st_clients s') k")
  case None
  then show ?thesis using keeps_exists [OF assms, of k] by (simp add: client_mon_def)
next
  case (Some c')
  then obtain c where "slot_get (st_clients s) k = Some c" "skeleton c' = skeleton c" using keeps_skeleton [OF assms] by metis
  then show ?thesis using Some by (simp add: client_mon_def skeleton_def)
qed

lemma keeps_wf: "keeps K s s' \<Longrightarrow> wf_lists s' = wf_lists s"
  using keeps_floating [of K s s'] keeps_mon [of K s s'] by (simp add: wf_lists_def group_ok_def keeps_def)

lemma keeps_shown: "keeps K s s' \<Longrightarrow> shown_on s' = shown_on s"
  by (simp add: shown_on_def keeps_tile fun_eq_iff)

lemma lay_out_keeps:
  assumes "\<not> ae_adopting (se_env (de_show env))" "wf_lists (dt_state d)" "int (length (tiles (dt_state d) m)) \<le> 1073741824"
    "\<And>t st. cx_strips (ar_cx (sw_ar (dt_show d))) (m, t) = Some st \<Longrightarrow> wf_scrolling st" "d' = lay_out_monitor env m d"
  shows "keeps (shown_on (dt_state d) m) (dt_state d) (dt_state d')"
    "n \<noteq> m \<Longrightarrow> cx_strips (ar_cx (sw_ar (dt_show d'))) (n, t) = cx_strips (ar_cx (sw_ar (dt_show d))) (n, t)"
proof -
  define a1 where "a1 = arrangemon (se_env (de_show env)) m (sw_ar (dt_show d))"
  have d': "dt_state d' = ar_state (refit_maximized_clients (de_show env) m a1)" "sw_ar (dt_show d') = refit_maximized_clients (de_show env) m a1"
    by (simp_all add: assms(5) lay_out_monitor_def restack_monitor_def a1_def case_prod_unfold)
  have k1: "keeps (set (tiles (dt_state d) m)) (dt_state d) (ar_state a1)" unfolding a1_def by (rule arrangemon_keeps [OF assms(1-4)])
  have "set (tiles (dt_state d) m) \<subseteq> shown_on (dt_state d) m" by (auto simp: tiles_def shown_on_def is_tile_def split: option.splits)
  moreover have "set (refit_candidates (ar_state a1) m) \<subseteq> shown_on (dt_state d) m"
    unfolding keeps_shown [OF k1, symmetric] by (auto simp: refit_candidates_def shown_on_def get_monitor_clients_def)
  ultimately show "keeps (shown_on (dt_state d) m) (dt_state d) (dt_state d')"
    unfolding d'(1) by (intro keeps_trans [OF keeps_mono [OF k1] keeps_mono [OF conjunct1 [OF refit_keeps]]])
  show "cx_strips (ar_cx (sw_ar (dt_show d'))) (n, t) = cx_strips (ar_cx (sw_ar (dt_show d))) (n, t)" if "n \<noteq> m"
    using arrangemon_strips [OF that, of "se_env (de_show env)" "sw_ar (dt_show d)" t] refit_keeps [of a1 m "de_show env"] by (simp add: d'(2) a1_def [symmetric])
qed

lemma stack_member: "wf_lists s \<Longrightarrow> k \<in> set (or_else (monitor_stack s n) []) \<Longrightarrow> client_mon s k = Some n"
  by (cases "monitor_stack s n") (simp_all add: wf_lists_def or_else_def)

lemma shown_member: "wf_lists s \<Longrightarrow> k \<in> shown_on s m \<Longrightarrow> client_mon s k = Some m \<and> is_client_visible_on_monitor s k m"
  by (cases "monitor_clients s m") (auto simp: shown_on_def get_monitor_clients_def or_else_def wf_lists_def group_ok_def)

lemma lay_out_fold:
  assumes "\<not> ae_adopting (se_env (de_show env))" "wf_lists (dt_state d)" "distinct ms" "\<And>m. m \<in> set ms \<Longrightarrow> int (length (tiles (dt_state d) m)) \<le> 1073741824"
    "\<And>m t st. m \<in> set ms \<Longrightarrow> cx_strips (ar_cx (sw_ar (dt_show d))) (m, t) = Some st \<Longrightarrow> wf_scrolling st" "d' = fold (lay_out_monitor env) ms d"
  shows "keeps (\<Union>m \<in> set ms. shown_on (dt_state d) m) (dt_state d) (dt_state d')"
    "settled left (dt_state d) n k \<Longrightarrow> client_mon (dt_state d) k = Some n \<Longrightarrow> settled left (dt_state d') n k"
proof -
  have "keeps (\<Union>m \<in> set ms. shown_on (dt_state d) m) (dt_state d) (dt_state d') \<and>
    (settled left (dt_state d) n k \<longrightarrow> client_mon (dt_state d) k = Some n \<longrightarrow> settled left (dt_state d') n k)"
    using assms
  proof (induction ms arbitrary: d)
    case (Cons m ms)
    define d1 where "d1 = lay_out_monitor env m d"
    have len: "int (length (tiles (dt_state d) m)) \<le> 1073741824" using Cons.prems(4) [of m] by simp
    have wf: "\<And>t st. cx_strips (ar_cx (sw_ar (dt_show d))) (m, t) = Some st \<Longrightarrow> wf_scrolling st" using Cons.prems(5) [of m] by simp
    have one: "keeps (shown_on (dt_state d) m) (dt_state d) (dt_state d1)" by (rule lay_out_keeps(1) [OF Cons.prems(1,2) len _ d1_def]) (rule wf)
    have other: "cx_strips (ar_cx (sw_ar (dt_show d1))) (x, t) = cx_strips (ar_cx (sw_ar (dt_show d))) (x, t)" if "x \<noteq> m" for x t
      by (rule lay_out_keeps(2) [OF Cons.prems(1,2) len _ d1_def that]) (rule wf)
    have rest: "keeps (\<Union>m \<in> set ms. shown_on (dt_state d1) m) (dt_state d1) (dt_state d') \<and>
      (settled left (dt_state d1) n k \<longrightarrow> client_mon (dt_state d1) k = Some n \<longrightarrow> settled left (dt_state d') n k)"
    proof (rule Cons.IH)
      show "wf_lists (dt_state d1)" using Cons.prems(2) keeps_wf [OF one] by simp
      show "int (length (tiles (dt_state d1) x)) \<le> 1073741824" if "x \<in> set ms" for x using that Cons.prems(4) keeps_tiles [OF one] by simp
      show "wf_scrolling st" if "x \<in> set ms" "cx_strips (ar_cx (sw_ar (dt_show d1))) (x, t) = Some st" for x t st
      proof -
        have "x \<noteq> m" using that(1) Cons.prems(3) by auto
        then show ?thesis using other that Cons.prems(5) [of x t st] by simp
      qed
    qed (use Cons.prems in \<open>simp_all add: d1_def\<close>)
    have "settled left (dt_state d1) n k" if "settled left (dt_state d) n k" "client_mon (dt_state d) k = Some n"
      by (rule settled_keeps [OF one _ that(1)]) (use that(2) shown_member [OF Cons.prems(2), of k m] in auto)
    moreover have "keeps (\<Union>x \<in> set (m # ms). shown_on (dt_state d) x) (dt_state d) (dt_state d')"
      using keeps_trans [OF keeps_mono [OF one] keeps_mono [OF conjunct1 [OF rest]], of "\<Union>x \<in> set (m # ms). shown_on (dt_state d) x"]
      by (auto simp: keeps_shown [OF one])
    ultimately show ?case using rest keeps_mon [OF one, of k] by simp
  qed simp
  then show "keeps (\<Union>m \<in> set ms. shown_on (dt_state d) m) (dt_state d) (dt_state d')"
    "settled left (dt_state d) n k \<Longrightarrow> client_mon (dt_state d) k = Some n \<Longrightarrow> settled left (dt_state d') n k" by blast+
qed

section \<open>The arrange of the desktop\<close>

lemma showhide_strips:
  "cx_strips (ar_cx (sw_ar (dt_show (fold (\<lambda>m d. d\<lparr>dt_show := showhide_monitor env m (dt_show d)\<rparr>) ms d)))) = cx_strips (ar_cx (sw_ar (dt_show d)))"
proof -
  have r: "cx_strips (ar_cx (resize_client env k r i a)) = cx_strips (ar_cx a)" for k r i a
    by (auto simp: resize_client_def split: prod.splits sum.splits)
  have "cx_strips (ar_cx (sw_ar (showhide_client env m k a))) = cx_strips (ar_cx (sw_ar a))" for m k a
    by (auto simp: showhide_client_def show_client_def hide_client_def Let_def r split: option.splits prod.splits)
  then have f: "cx_strips (ar_cx (sw_ar (fold (showhide_client env m) l a))) = cx_strips (ar_cx (sw_ar a))" for m l a
    by (induction l arbitrary: a) simp_all
  have "cx_strips (ar_cx (sw_ar (showhide_monitor env m a))) = cx_strips (ar_cx (sw_ar a))" for m a
    by (simp add: showhide_monitor_def f split: option.split)
  then show ?thesis by (induction ms arbitrary: d) simp_all
qed

lemma showhide_all:
  assumes "wf_lists (dt_state d)" "distinct ms" "d' = fold (\<lambda>m d. d\<lparr>dt_show := showhide_monitor env m (dt_show d)\<rparr>) ms d"
  shows "reshapes {k. \<exists>m \<in> set ms. k \<in> set (or_else (monitor_stack (dt_state d) m) [])} (dt_state d) (dt_state d') \<and> bar_client d' = bar_client d \<and>
    (\<forall>m \<in> set ms. \<forall>k \<in> set (or_else (monitor_stack (dt_state d) m) []). settled (desktop_left_edge (dt_state d)) (dt_state d') m k)"
  using assms
proof (induction ms arbitrary: d)
  case (Cons m ms)
  define d1 where "d1 = d\<lparr>dt_show := showhide_monitor env m (dt_show d)\<rparr>"
  let ?l = "\<lambda>m. set (or_else (monitor_stack (dt_state d) m) [])"
  have one: "reshapes (?l m) (dt_state d) (dt_state d1)" "\<And>k. k \<in> ?l m \<Longrightarrow> settled (desktop_left_edge (dt_state d)) (dt_state d1) m k"
  proof (atomize (full), cases "monitor_stack (dt_state d) m")
    case (Some l)
    then have "distinct l" using Cons.prems(1) by (simp add: wf_lists_def)
    from showhide_fold [where env = env and m = m and a = "dt_show d", OF this refl] Some
    show "reshapes (?l m) (dt_state d) (dt_state d1) \<and> (\<forall>k. k \<in> ?l m \<longrightarrow> settled (desktop_left_edge (dt_state d)) (dt_state d1) m k)"
      by (simp add: d1_def showhide_monitor_def or_else_def)
  qed (simp add: d1_def showhide_monitor_def or_else_def)
  note fr = reshapes_frame [OF one(1)]
  have w: "wf_lists (dt_state d1)" using Cons.prems(1) reshapes_lists(3) [OF one(1)] by simp
  have rest: "reshapes {k. \<exists>x \<in> set ms. k \<in> ?l x} (dt_state d1) (dt_state d')" "bar_client d' = bar_client d1"
    "\<And>x k. x \<in> set ms \<Longrightarrow> k \<in> ?l x \<Longrightarrow> settled (desktop_left_edge (dt_state d)) (dt_state d') x k"
    using Cons.IH [OF w] Cons.prems(2,3) by (simp_all add: fr d1_def [symmetric])
  have "settled (desktop_left_edge (dt_state d)) (dt_state d') m k" if "k \<in> ?l m" for k
  proof (rule settled_reshapes [OF rest(1) _ one(2) [OF that]])
    assume "k \<in> {k. \<exists>x \<in> set ms. k \<in> ?l x}"
    then obtain x where "x \<in> set ms" "k \<in> ?l x" by blast
    then have "client_mon (dt_state d) k = Some x" "client_mon (dt_state d) k = Some m"
      using stack_member [OF Cons.prems(1)] that by blast+
    then show "\<exists>c. slot_get (st_clients (dt_state d1)) k = Some c \<and> is_dock (c_state c)" using \<open>x \<in> set ms\<close> Cons.prems(2) by simp
  qed
  moreover have "reshapes {k. \<exists>x \<in> set (m # ms). k \<in> ?l x} (dt_state d) (dt_state d')"
    by (rule reshapes_mono [OF reshapes_trans [OF one(1) rest(1)]]) auto
  moreover have "bar_client d1 = bar_client d" by (simp add: d1_def bar_client_def fun_eq_iff)
  ultimately show ?case using rest(2,3) by simp
qed simp

text \<open>
  C1. Arranging one monitor or all of them leaves every window where it belongs: a window that its monitor
  shows holds no hidden position any more, and one that it does not show is parked with the rectangle
  it returns to, left of every output when there is room for it; docks are placed by other means. Which windows are visible and the
  lists of the monitors do not change, and no window of another monitor is touched except the bars.
\<close>

theorem arrange_settles_every_window:
  assumes "wf_lists (dt_state d)" "\<not> ae_adopting (se_env (de_show env))" "ms = (case m_target of Some m \<Rightarrow> [m] | None \<Rightarrow> monitor_order (dt_state d))" "distinct ms"
    "\<And>m. m \<in> set ms \<Longrightarrow> int (length (tiles (dt_state d) m)) \<le> 1073741824"
    "\<And>key st. cx_strips (ar_cx (sw_ar (dt_show d))) key = Some st \<Longrightarrow> wf_scrolling st" "bars_are_docks d" "d' = arrange env m_target d"
  shows "(\<forall>m \<in> set ms. \<forall>k \<in> set (or_else (monitor_stack (dt_state d) m) []). \<forall>c. slot_get (st_clients (dt_state d)) k = Some c \<and> \<not> is_dock (c_state c) \<longrightarrow>
       (\<exists>c'. slot_get (st_clients (dt_state d')) k = Some c' \<and>
         (if is_client_visible_on_monitor (dt_state d) k m then slots_free (c_geometry c') else parked_off (desktop_left_edge (dt_state d)) c'))) \<and>
    is_client_visible_on_monitor (dt_state d') = is_client_visible_on_monitor (dt_state d) \<and>
    monitor_clients (dt_state d') = monitor_clients (dt_state d) \<and> monitor_stack (dt_state d') = monitor_stack (dt_state d) \<and>
    (\<forall>k. slot_get (st_clients (dt_state d')) k = None \<longleftrightarrow> slot_get (st_clients (dt_state d)) k = None) \<and>
    (\<forall>k. (\<forall>m \<in> set ms. k \<notin> set (or_else (monitor_stack (dt_state d) m) []) \<and> k \<notin> set (get_monitor_clients (dt_state d) m)) \<and> k \<notin> bar_keys d \<longrightarrow>
       slot_get (st_clients (dt_state d')) k = slot_get (st_clients (dt_state d)) k)"
proof -
  define d1 where "d1 = fold (\<lambda>m d. d\<lparr>dt_show := showhide_monitor (de_show env) m (dt_show d)\<rparr>) ms d"
  define d2 where "d2 = fold (sync_secondary_bar_position env) ms d1"
  have d': "d' = fold (lay_out_monitor env) ms d2" using assms(2) by (simp add: assms(8) arrange_def assms(3) d1_def d2_def Let_def)
  note p1 = showhide_all [OF assms(1,4) d1_def]
  have r1: "reshapes {k. \<exists>m \<in> set ms. k \<in> set (or_else (monitor_stack (dt_state d) m) [])} (dt_state d) (dt_state d1)" using p1 by blast
  have docks: "bars_are_docks d1" "bar_keys d1 = bar_keys d" using docks_reshape [OF assms(7) r1] p1 by (simp_all add: bar_keys_def)
  note p2 = sync_fold [OF docks(1) d2_def, unfolded docks(2)]
  have r: "reshapes ({k. \<exists>m \<in> set ms. k \<in> set (or_else (monitor_stack (dt_state d) m) [])} \<union> bar_keys d) (dt_state d) (dt_state d2)"
    using reshapes_trans [OF r1 conjunct1 [OF p2]] .
  note same = reshapes_frame(2,3) [OF r] reshapes_lists(2,3,4) [OF r] reshapes_visible [OF r]
  have wf2: "wf_lists (dt_state d2)" using assms(1) by (simp add: same)
  have strips: "wf_scrolling st" if "cx_strips (ar_cx (sw_ar (dt_show d2))) key = Some st" for key st
    using that p2 showhide_strips [of "de_show env" ms d] assms(6) [of key st] by (simp add: d1_def)
  have len: "int (length (tiles (dt_state d2) m)) \<le> 1073741824" if "m \<in> set ms" for m using assms(5) [OF that] by (simp add: same)
  note p3 = lay_out_fold [OF assms(2) wf2 assms(4) len _ d']
  have k: "keeps (\<Union>m \<in> set ms. shown_on (dt_state d2) m) (dt_state d2) (dt_state d')" using p3(1) strips by blast
  have vis: "is_client_visible_on_monitor (dt_state d') = is_client_visible_on_monitor (dt_state d)"
    using keeps_tile(3) [OF k] by (simp add: same fun_eq_iff)
  have "settled (desktop_left_edge (dt_state d)) (dt_state d') m k" if "m \<in> set ms" "k \<in> set (or_else (monitor_stack (dt_state d) m) [])" for m k
  proof -
    have "settled (desktop_left_edge (dt_state d)) (dt_state d2) m k" using p1 p2 that by blast
    moreover have "client_mon (dt_state d2) k = Some m"
      using stack_member [OF assms(1) that(2)] by (simp add: same)
    ultimately show ?thesis using p3(2) strips by blast
  qed
  moreover have "\<exists>c'. slot_get (st_clients (dt_state d')) k = Some c' \<and> \<not> is_dock (c_state c')"
    if c: "slot_get (st_clients (dt_state d)) k = Some c" "\<not> is_dock (c_state c)" for k c
  proof -
    obtain c2 where c2: "slot_get (st_clients (dt_state d2)) k = Some c2" using c(1) reshapes_None [OF r, of k] by fastforce
    then obtain c' where c': "slot_get (st_clients (dt_state d')) k = Some c'" using keeps_exists [OF k, of k] by fastforce
    have "is_dock (c_state c2) = is_dock (c_state c)" using reshapes_client [OF r c2] c(1) shape_state(8) by (metis option.inject)
    moreover have "is_dock (c_state c') = is_dock (c_state c2)" using keeps_skeleton [OF k c'] c2 by (auto simp: skeleton_def)
    ultimately show ?thesis using c(2) c' by simp
  qed
  moreover have "slot_get (st_clients (dt_state d')) k = slot_get (st_clients (dt_state d)) k"
    if "\<forall>m \<in> set ms. k \<notin> set (or_else (monitor_stack (dt_state d) m) []) \<and> k \<notin> set (get_monitor_clients (dt_state d) m)" "k \<notin> bar_keys d" for k
  proof -
    have "k \<notin> (\<Union>m \<in> set ms. shown_on (dt_state d2) m)" using that(1) by (auto simp: shown_on_def get_monitor_clients_def same)
    then have "slot_get (st_clients (dt_state d')) k = slot_get (st_clients (dt_state d2)) k" using k by (simp add: keeps_def)
    also have "\<dots> = slot_get (st_clients (dt_state d)) k" using r that by (auto simp: reshapes_def)
    finally show ?thesis .
  qed
  moreover have "monitor_clients (dt_state d') = monitor_clients (dt_state d)" "monitor_stack (dt_state d') = monitor_stack (dt_state d)"
    using k by (simp_all add: keeps_def same)
  moreover have "slot_get (st_clients (dt_state d')) k = None \<longleftrightarrow> slot_get (st_clients (dt_state d)) k = None" for k
    using keeps_exists [OF k] reshapes_None [OF r] by simp
  ultimately show ?thesis using vis unfolding settled_def by (intro conjI ballI allI impI; fastforce)
qed

text \<open>One window on the tag that is viewed and one on another tag.\<close>

definition two_tags :: wm_state where
  "two_tags = tiled_state\<lparr>st_clients := [(1, shown_client False), (2, (shown_client False)\<lparr>c_state := client_state_default\<lparr>cs_tags := 2\<rparr>\<rparr>)],
     monitor_clients := [0 \<mapsto> [1, 2]], monitor_stack := [0 \<mapsto> [1, 2]]\<rparr>"

definition quiet_desktop :: desktop where
  "quiet_desktop = \<lparr>dt_show = \<lparr>sw_ar = set_ar_state two_tags tiled_arranging, sw_moves = []\<rparr>, dt_bars = [], dt_moved_bars = [], dt_struts = [],
     dt_stacking = \<lparr>last_stacking = (\<lambda>_. None), pending_bar_updates = {}\<rparr>, dt_restacks = []\<rparr>"

definition quiet_env :: desktop_env where
  "quiet_env = \<lparr>de_show = \<lparr>se_env = still_env, se_screen = (1920, 1080), se_scratchpads = []\<rparr>,
     moves_bar = (\<lambda>_ _. True), sets_strut = (\<lambda>_ _. True), restacks_windows = (\<lambda>_. True)\<rparr>"

lemma two_tags_simps:
  "slot_get (st_clients two_tags) k = (if k = 1 then Some (shown_client False) else if k = 2 then Some ((shown_client False)\<lparr>c_state := client_state_default\<lparr>cs_tags := 2\<rparr>\<rparr>) else None)"
  "monitor_clients two_tags = [0 \<mapsto> [1, 2]]" "monitor_stack two_tags = [0 \<mapsto> [1, 2]]" "monitor_order two_tags = [0]"
  "st_monitors two_tags = [(0, tiled_monitor)]" "desktop_left_edge two_tags = 0" "get_active_tags tiled_monitor = 1"
  by (simp_all add: two_tags_def slot_get_def tiled_state_def docked_state_def desktop_left_edge_def tiled_monitor_def docked_monitor_def get_active_tags_def
      tag_at_def wm_monitor_new_def)

theorem arrange_settles_every_window_witness:
  "\<exists>c1 c2. slot_get (st_clients (dt_state (arrange quiet_env None quiet_desktop))) 1 = Some c1 \<and> slots_free (c_geometry c1) \<and>
     slot_get (st_clients (dt_state (arrange quiet_env None quiet_desktop))) 2 = Some c2 \<and> parked_off 0 c2"
proof -
  let ?d' = "arrange quiet_env None quiet_desktop"
  have s: "dt_state quiet_desktop = two_tags" "cx_strips (ar_cx (sw_ar (dt_show quiet_desktop))) = (\<lambda>_. None)"
    by (simp_all add: quiet_desktop_def tiled_arranging_simps)
  have f: "is_client_floating two_tags k = False" "client_mon two_tags k = (if k = 1 \<or> k = 2 then Some 0 else None)" for k
    by (auto simp: is_client_floating_def client_mon_def two_tags_simps shown_client_def client_state_default_def)
  have wf: "wf_lists (dt_state quiet_desktop)"
    unfolding s by (auto simp: wf_lists_def group_ok_def tiled_first_def two_tags_simps f split: if_splits)
  have v: "is_client_visible_on_monitor two_tags 1 0" "\<not> is_client_visible_on_monitor two_tags 2 0"
    by (simp_all add: is_client_visible_on_monitor_def two_tags_simps slot_get_def [of "[(0, tiled_monitor)]"] shown_client_def client_state_default_def)
  have len: "int (length (tiles (dt_state quiet_desktop) m)) \<le> 1073741824" for m
    unfolding s tiles_def get_monitor_clients_def by (rule order_trans [of _ 2]) (auto simp: two_tags_simps or_else_def split: option.split)
  have docks: "bars_are_docks quiet_desktop" by (simp add: bars_are_docks_def bar_client_def quiet_desktop_def slot_get_def)
  have a: "\<not> ae_adopting (se_env (de_show quiet_env))" by (simp add: quiet_env_def still_env_def)
  note t = arrange_settles_every_window [of quiet_desktop quiet_env "[0]" None ?d', OF wf a _ _ len _ docks refl, unfolded s two_tags_simps]
  have "\<exists>c'. slot_get (st_clients (dt_state ?d')) k = Some c' \<and> (if is_client_visible_on_monitor two_tags k 0 then slots_free (c_geometry c') else parked_off 0 c')"
    if "k = 1 \<or> k = 2" for k
    using t that by (auto simp: two_tags_simps shown_client_def client_state_default_def or_else_def)
  from this [of 1] this [of 2] v show ?thesis by auto
qed

end
