(* ===== verification/Scratchpads.thy ===== *)
theory Scratchpads
  imports Models "HOL-Library.List_Lexorder" "HOL-Library.Multiset"
begin

text \<open>
  Scratchpads that are still starting, \<open>src/jwm/scratchpad_pending.rs\<close>: a name is bound to the process
  that was spawned for it, for a bounded time, and is claimed by a window of exactly that process.
  Names are lists of Unicode scalar values; an \<open>Instant\<close> is its distance in nanoseconds from the
  origin of the clock, whose seconds are an \<open>i64\<close>; a start time is what the kernel answers for a process.
\<close>

section \<open>Data\<close>

type_synonym pad_name = "nat list"
type_synonym pid = nat

definition MAX_PENDING_SCRATCHPADS :: nat where "MAX_PENDING_SCRATCHPADS = 64"
definition MAX_SCRATCHPAD_NAME_BYTES :: nat where "MAX_SCRATCHPAD_NAME_BYTES = 128"
definition PENDING_SCRATCHPAD_TTL :: nat where "PENDING_SCRATCHPAD_TTL = 30000000000"
definition UNVERIFIED_PENDING_SCRATCHPAD_TTL :: nat where "UNVERIFIED_PENDING_SCRATCHPAD_TTL = 5000000000"

record pending_scratchpad =
  ps_name :: pad_name
  ps_start_time :: "nat option"
  ps_deadline :: nat

record pending_snapshot =
  sn_name :: pad_name
  sn_pid :: pid
  sn_start_time :: "nat option"
  sn_remaining_ms :: nat

type_synonym pending_registry = "(pid, pending_scratchpad) slotmap"

datatype registration_error =
    Invalid_Name | Invalid_Pid | Invalid_Process_Start_Time | Invalid_Lifetime | Duplicate_Name pad_name pid | Duplicate_Pid pid | Full

datatype pending_claim =
    No_Match | Claimed pad_name | Expired pad_name | Process_Identity_Mismatch pad_name nat "nat option"

section \<open>Operations\<close>

definition utf8_bytes :: "nat \<Rightarrow> nat" where
  "utf8_bytes c = (if c < 128 then 1 else if c < 2048 then 2 else if c < 65536 then 3 else 4)"

definition is_control :: "nat \<Rightarrow> bool" where
  "is_control c \<longleftrightarrow> c < 32 \<or> 127 \<le> c \<and> c < 160"

definition valid_scratchpad_name :: "pad_name \<Rightarrow> bool" where
  "valid_scratchpad_name n \<longleftrightarrow> n \<noteq> [] \<and> sum_list (map utf8_bytes n) \<le> MAX_SCRATCHPAD_NAME_BYTES \<and> \<not> list_ex is_control n"

definition instant_checked_add :: "nat \<Rightarrow> nat \<Rightarrow> nat option" where
  "instant_checked_add now d = (if (now + d) div 1000000000 < 2 ^ 63 then Some (now + d) else None)"

definition deadline_from_remaining :: "nat \<Rightarrow> nat \<Rightarrow> registration_error + nat" where
  "deadline_from_remaining now remaining =
     (if remaining = 0 \<or> remaining > PENDING_SCRATCHPAD_TTL then Inl Invalid_Lifetime
      else case instant_checked_add now remaining of None \<Rightarrow> Inl Invalid_Lifetime | Some t \<Rightarrow> Inr t)"

definition pending_next_wakeup :: "nat \<Rightarrow> pending_registry \<Rightarrow> nat option" where
  "pending_next_wakeup now r = (if r = [] then None else Some (Min (set (map (\<lambda>(_, p). ps_deadline p - now) r))))"

definition pending_pid_for_name :: "pad_name \<Rightarrow> pending_registry \<Rightarrow> pid option" where
  "pending_pid_for_name n r = map_option fst (List.find (\<lambda>(_, p). ps_name p = n) r)"

definition contains_pid :: "pid \<Rightarrow> pending_registry \<Rightarrow> bool" where
  "contains_pid pid r \<longleftrightarrow> slot_get r pid \<noteq> None"

definition ensure_name_can_spawn :: "pad_name \<Rightarrow> pending_registry \<Rightarrow> registration_error + unit" where
  "ensure_name_can_spawn n r =
     (if \<not> valid_scratchpad_name n then Inl Invalid_Name
      else case pending_pid_for_name n r of
        Some pid \<Rightarrow> Inl (Duplicate_Name n pid)
      | None \<Rightarrow> if length r \<ge> MAX_PENDING_SCRATCHPADS then Inl Full else Inr ())"

definition lifetime_limit :: "nat option \<Rightarrow> nat" where
  "lifetime_limit start_time = (if start_time \<noteq> None then PENDING_SCRATCHPAD_TTL else UNVERIFIED_PENDING_SCRATCHPAD_TTL)"

definition register_with_remaining :: "pid \<Rightarrow> pad_name \<Rightarrow> nat option \<Rightarrow> nat \<Rightarrow> nat \<Rightarrow> pending_registry \<Rightarrow> (registration_error + unit) \<times> pending_registry" where
  "register_with_remaining pid n start_time now remaining r = (case ensure_name_can_spawn n r of
     Inl e \<Rightarrow> (Inl e, r)
   | Inr _ \<Rightarrow>
       if pid = 0 then (Inl Invalid_Pid, r)
       else if start_time = Some 0 then (Inl Invalid_Process_Start_Time, r)
       else if contains_pid pid r then (Inl (Duplicate_Pid pid), r)
       else if remaining > lifetime_limit start_time then (Inl Invalid_Lifetime, r)
       else (case deadline_from_remaining now remaining of
           Inl e \<Rightarrow> (Inl e, r)
         | Inr t \<Rightarrow> (Inr (), hash_insert pid \<lparr>ps_name = n, ps_start_time = start_time, ps_deadline = t\<rparr> r)))"

definition register_spawned :: "pid \<Rightarrow> pad_name \<Rightarrow> nat option \<Rightarrow> nat \<Rightarrow> pending_registry \<Rightarrow> (registration_error + unit) \<times> pending_registry" where
  "register_spawned pid n start_time now = register_with_remaining pid n start_time now (lifetime_limit start_time)"

definition claim :: "pid \<Rightarrow> nat option \<Rightarrow> nat \<Rightarrow> pending_registry \<Rightarrow> pending_claim \<times> pending_registry" where
  "claim pid observed now r = (case slot_get r pid of
     None \<Rightarrow> (No_Match, r)
   | Some p \<Rightarrow>
       if now \<ge> ps_deadline p then (Expired (ps_name p), hash_remove pid r)
       else case ps_start_time p of
         Some expected \<Rightarrow>
           if observed \<noteq> Some expected then (Process_Identity_Mismatch (ps_name p) expected observed, hash_remove pid r)
           else (Claimed (ps_name p), hash_remove pid r)
       | None \<Rightarrow> (Claimed (ps_name p), hash_remove pid r))"

definition remove_exited :: "pid \<Rightarrow> pending_registry \<Rightarrow> pad_name option \<times> pending_registry" where
  "remove_exited pid r = (map_option ps_name (slot_get r pid), hash_remove pid r)"

definition expire :: "nat \<Rightarrow> pending_registry \<Rightarrow> (pid \<times> pad_name) list \<times> pending_registry" where
  "expire now r =
     (let expired = map (\<lambda>(pid, p). (pid, ps_name p)) (filter (\<lambda>(_, p). now \<ge> ps_deadline p) r)
      in (expired, fold (\<lambda>(pid, _). hash_remove pid) expired r))"

definition snapshot_of :: "nat \<Rightarrow> pid \<times> pending_scratchpad \<Rightarrow> pending_snapshot option" where
  "snapshot_of now e = (case e of (pid, p) \<Rightarrow>
     if ps_deadline p \<le> now then None
     else Some \<lparr>sn_name = ps_name p, sn_pid = pid, sn_start_time = ps_start_time p,
       sn_remaining_ms = max (min ((ps_deadline p - now) div 1000000) (2 ^ 64 - 1)) 1\<rparr>)"

definition snapshots :: "nat \<Rightarrow> pending_registry \<Rightarrow> pending_snapshot list" where
  "snapshots now r = sort_key sn_pid (List.map_filter (snapshot_of now) r)"

section \<open>Claims of the window manager\<close>

text \<open>\<open>process_start\<close> is what \<open>/proc\<close> answers; it is asked only for a process that is registered.\<close>

definition expire_pending_scratchpads :: "nat \<Rightarrow> pending_registry \<Rightarrow> pending_registry" where
  "expire_pending_scratchpads now r = snd (expire now r)"

definition claim_pending_scratchpad :: "(pid \<Rightarrow> nat option) \<Rightarrow> pid \<Rightarrow> nat \<Rightarrow> pending_registry \<Rightarrow> pad_name option \<times> pending_registry" where
  "claim_pending_scratchpad process_start pid now r =
     (if \<not> contains_pid pid r then (None, r)
      else case claim pid (process_start pid) now r of
        (Claimed n, r1) \<Rightarrow> (Some n, r1)
      | (_, r1) \<Rightarrow> (None, r1))"

definition remove_exited_pending_scratchpad :: "pid \<Rightarrow> pending_registry \<Rightarrow> pending_registry" where
  "remove_exited_pending_scratchpad pid r = snd (remove_exited pid r)"

section \<open>The registry stays sound\<close>

definition entry_ok :: "pid \<times> pending_scratchpad \<Rightarrow> bool" where
  "entry_ok e \<longleftrightarrow> 0 < fst e \<and> valid_scratchpad_name (ps_name (snd e)) \<and> ps_start_time (snd e) \<noteq> Some 0"

definition wf_registry :: "pending_registry \<Rightarrow> bool" where
  "wf_registry r \<longleftrightarrow> distinct (map fst r) \<and> distinct (map (ps_name \<circ> snd) r) \<and> length r \<le> MAX_PENDING_SCRATCHPADS \<and> list_all entry_ok r"

lemma hash_remove_filter: "hash_remove pid r = filter (\<lambda>e. fst e \<noteq> pid) r"
  by (simp add: hash_remove_def case_prod_unfold)

lemma distinct_map_filter: "distinct (map f r) \<Longrightarrow> distinct (map f (filter P r))"
  by (induction r) auto

lemma wf_filter: "wf_registry r \<Longrightarrow> wf_registry (filter P r)"
  by (auto simp: wf_registry_def distinct_map_filter list_all_iff intro: le_trans [OF length_filter_le])

lemma wf_remove: "wf_registry r \<Longrightarrow> wf_registry (hash_remove pid r)"
  unfolding hash_remove_filter by (rule wf_filter)

lemma fold_remove: "fold (\<lambda>(pid, _). hash_remove pid) ds r = filter (\<lambda>e. fst e \<notin> fst ` set ds) r"
proof (induction ds arbitrary: r)
  case (Cons d ds)
  have "(\<lambda>e. fst e \<noteq> fst d \<and> fst e \<notin> fst ` set ds) = (\<lambda>e. fst e \<notin> fst ` set (d # ds))" by auto
  then show ?case using Cons.IH [of "hash_remove (fst d) r"] by (cases d) (simp add: hash_remove_filter filter_filter conj_commute)
qed simp

lemma expire_registry:
  assumes "distinct (map fst r)"
  shows "snd (expire now r) = filter (\<lambda>(_, p). now < ps_deadline p) r"
proof -
  have e: "fst e \<notin> fst ` set (filter (\<lambda>e. now \<ge> ps_deadline (snd e)) r) \<longleftrightarrow> now < ps_deadline (snd e)" if "e \<in> set r" for e
  proof
    show "now < ps_deadline (snd e)" if "fst e \<notin> fst ` set (filter (\<lambda>e. now \<ge> ps_deadline (snd e)) r)"
      using that \<open>e \<in> set r\<close> by (auto simp: image_iff not_le)
    assume late: "now < ps_deadline (snd e)"
    have "snd d = snd e" if "d \<in> set r" "fst d = fst e" for d
      using that \<open>e \<in> set r\<close> eq_key_imp_eq_value [OF assms] by (metis prod.collapse)
    with late show "fst e \<notin> fst ` set (filter (\<lambda>e. now \<ge> ps_deadline (snd e)) r)" by fastforce
  qed
  show ?thesis
    unfolding expire_def Let_def snd_conv case_prod_unfold fold_remove [unfolded case_prod_unfold] by (simp add: image_image e [simplified] cong: filter_cong)
qed

lemma pid_for_name_None: "pending_pid_for_name n r = None \<longleftrightarrow> n \<notin> set (map (ps_name \<circ> snd) r)"
  by (simp add: pending_pid_for_name_def find_None_iff image_iff case_prod_unfold) force

text \<open>Every registration that succeeds appends its entry; one that fails leaves the registry alone.\<close>

lemma register_result:
  assumes "register_with_remaining pid n st now remaining r = (res, r')"
  shows "res = Inr () \<longleftrightarrow> valid_scratchpad_name n \<and> n \<notin> set (map (ps_name \<circ> snd) r) \<and> length r < MAX_PENDING_SCRATCHPADS \<and>
      0 < pid \<and> st \<noteq> Some 0 \<and> slot_get r pid = None \<and> 0 < remaining \<and> remaining \<le> lifetime_limit st \<and>
      (now + remaining) div 1000000000 < 2 ^ 63"
    "res = Inr () \<Longrightarrow> r' = r @ [(pid, \<lparr>ps_name = n, ps_start_time = st, ps_deadline = now + remaining\<rparr>)]"
    "res \<noteq> Inr () \<Longrightarrow> r' = r"
proof -
  have l: "lifetime_limit st \<le> PENDING_SCRATCHPAD_TTL"
    by (simp add: lifetime_limit_def PENDING_SCRATCHPAD_TTL_def UNVERIFIED_PENDING_SCRATCHPAD_TTL_def)
  note d = register_with_remaining_def ensure_name_can_spawn_def deadline_from_remaining_def instant_checked_add_def contains_pid_def
  show "res = Inr () \<longleftrightarrow> valid_scratchpad_name n \<and> n \<notin> set (map (ps_name \<circ> snd) r) \<and> length r < MAX_PENDING_SCRATCHPADS \<and>
      0 < pid \<and> st \<noteq> Some 0 \<and> slot_get r pid = None \<and> 0 < remaining \<and> remaining \<le> lifetime_limit st \<and>
      (now + remaining) div 1000000000 < 2 ^ 63"
    using assms l unfolding pid_for_name_None [symmetric]
    by (auto simp: d split: if_splits option.splits)
  show "res = Inr () \<Longrightarrow> r' = r @ [(pid, \<lparr>ps_name = n, ps_start_time = st, ps_deadline = now + remaining\<rparr>)]"
    using assms by (auto simp: d hash_insert_def split: if_splits option.splits)
  show "res \<noteq> Inr () \<Longrightarrow> r' = r"
    using assms by (auto simp: d split: if_splits option.splits)
qed

lemma wf_register:
  assumes "wf_registry r" "register_with_remaining pid n st now remaining r = (res, r')"
  shows "wf_registry r'"
proof (cases "res = Inr ()")
  case True
  then show ?thesis
    using assms(1) register_result [OF assms(2)] slot_get_None_iff [of r pid] by (auto simp: wf_registry_def entry_ok_def)
qed (use assms(1) register_result(3) [OF assms(2)] in simp)

lemma claim_registry: "slot_get r pid \<noteq> None \<Longrightarrow> snd (claim pid obs now r) = hash_remove pid r"
  "slot_get r pid = None \<Longrightarrow> claim pid obs now r = (No_Match, r)"
  by (auto simp: claim_def split: option.splits)

lemma hash_remove_absent: "slot_get r pid = None \<Longrightarrow> hash_remove pid r = r"
  by (auto simp: hash_remove_filter slot_get_None_iff filter_id_conv)

lemma claim_removes: "snd (claim pid obs now r) = hash_remove pid r"
  by (cases "slot_get r pid") (simp_all add: claim_registry hash_remove_absent)

text \<open>
  A session of the registry: what happens to it, and what it did. A registration that was accepted,
  a name that was handed to a window, and a name that was given up are recorded with their process.
\<close>

datatype registry_op =
    Op_Spawned pid pad_name "nat option" nat
  | Op_Register pid pad_name "nat option" nat nat
  | Op_Claim pid "nat option" nat
  | Op_Exited pid
  | Op_Expire nat

datatype registry_event = Registered pid pad_name "nat option" nat | Taken pid pad_name "nat option" nat | Dropped pid pad_name

definition claim_event :: "pid \<Rightarrow> nat option \<Rightarrow> nat \<Rightarrow> pending_claim \<Rightarrow> registry_event list" where
  "claim_event pid obs now c = (case c of No_Match \<Rightarrow> [] | Claimed n \<Rightarrow> [Taken pid n obs now] | Expired n \<Rightarrow> [Dropped pid n]
     | Process_Identity_Mismatch n _ _ \<Rightarrow> [Dropped pid n])"

fun registry_step :: "registry_op \<Rightarrow> registry_event list \<times> pending_registry \<Rightarrow> registry_event list \<times> pending_registry" where
  "registry_step (Op_Spawned pid n st now) (evs, r) = (case register_spawned pid n st now r of
     (Inl _, r1) \<Rightarrow> (evs, r1) | (Inr _, r1) \<Rightarrow> (evs @ [Registered pid n st now], r1))"
| "registry_step (Op_Register pid n st now remaining) (evs, r) = (case register_with_remaining pid n st now remaining r of
     (Inl _, r1) \<Rightarrow> (evs, r1) | (Inr _, r1) \<Rightarrow> (evs @ [Registered pid n st now], r1))"
| "registry_step (Op_Claim pid obs now) (evs, r) = (case claim pid obs now r of (c, r1) \<Rightarrow> (evs @ claim_event pid obs now c, r1))"
| "registry_step (Op_Exited pid) (evs, r) = (case remove_exited pid r of
     (None, r1) \<Rightarrow> (evs, r1) | (Some n, r1) \<Rightarrow> (evs @ [Dropped pid n], r1))"
| "registry_step (Op_Expire now) (evs, r) = (case expire now r of (gone, r1) \<Rightarrow> (evs @ map (\<lambda>(pid, n). Dropped pid n) gone, r1))"

definition run_registry :: "registry_op list \<Rightarrow> registry_event list \<times> pending_registry" where
  "run_registry ops = fold registry_step ops ([], [])"

text \<open>How often a name of a process was accepted, and how often it was settled.\<close>

definition accepted_times :: "pid \<Rightarrow> pad_name \<Rightarrow> registry_event list \<Rightarrow> nat" where
  "accepted_times pid n evs = length (filter (\<lambda>e. \<exists>st t. e = Registered pid n st t) evs)"

definition settled_times :: "pid \<Rightarrow> pad_name \<Rightarrow> registry_event list \<Rightarrow> nat" where
  "settled_times pid n evs = length (filter (\<lambda>e. e = Dropped pid n \<or> (\<exists>obs t. e = Taken pid n obs t)) evs)"

definition pending_times :: "pid \<Rightarrow> pad_name \<Rightarrow> pending_registry \<Rightarrow> nat" where
  "pending_times pid n r = length (filter (\<lambda>e. fst e = pid \<and> ps_name (snd e) = n) r)"

text \<open>Where an entry comes from, and what a claim rests on.\<close>

definition entry_from :: "registry_event list \<Rightarrow> pid \<times> pending_scratchpad \<Rightarrow> bool" where
  "entry_from evs e \<longleftrightarrow> (\<exists>t. Registered (fst e) (ps_name (snd e)) (ps_start_time (snd e)) t \<in> set evs \<and>
     ps_deadline (snd e) \<le> t + lifetime_limit (ps_start_time (snd e)))"

definition claims_justified :: "registry_event list \<Rightarrow> bool" where
  "claims_justified evs \<longleftrightarrow> (\<forall>before after pid n obs now. evs = before @ Taken pid n obs now # after \<longrightarrow>
     (\<exists>st t. Registered pid n st t \<in> set before \<and> now < t + lifetime_limit st \<and> (st = None \<or> st = obs)))"

definition session_ok :: "registry_event list \<times> pending_registry \<Rightarrow> bool" where
  "session_ok er \<longleftrightarrow> wf_registry (snd er) \<and> claims_justified (fst er) \<and> list_all (entry_from (fst er)) (snd er) \<and>
     (\<forall>pid n. accepted_times pid n (fst er) = settled_times pid n (fst er) + pending_times pid n (snd er))"

lemma times_simps [simp]:
  "accepted_times pid n [] = 0" "settled_times pid n [] = 0" "pending_times pid n [] = 0"
  "accepted_times pid n (xs @ ys) = accepted_times pid n xs + accepted_times pid n ys"
  "settled_times pid n (xs @ ys) = settled_times pid n xs + settled_times pid n ys"
  "pending_times pid n (r1 @ r2) = pending_times pid n r1 + pending_times pid n r2"
  by (simp_all add: accepted_times_def settled_times_def pending_times_def)

lemma claims_justified_append:
  assumes "claims_justified evs" "\<And>pid n obs now. Taken pid n obs now \<notin> set evs'"
  shows "claims_justified (evs @ evs')"
  unfolding claims_justified_def
proof (intro allI impI)
  fix before after pid n obs now
  assume e: "evs @ evs' = before @ Taken pid n obs now # after"
  have "\<exists>us. evs = before @ Taken pid n obs now # us"
  proof (cases "length before < length evs")
    case True
    then have "evs ! length before = Taken pid n obs now" "take (length before) evs = before"
      using arg_cong [OF e, of "\<lambda>l. l ! length before"] arg_cong [OF e, of "take (length before)"] by (simp_all add: nth_append)
    then show ?thesis using id_take_nth_drop [OF True] by metis
  next
    case False
    then have "Taken pid n obs now \<in> set (drop (length evs) (before @ Taken pid n obs now # after))" by simp
    then show ?thesis using assms(2) arg_cong [OF e, of "drop (length evs)"] by simp
  qed
  with assms(1) show "\<exists>st t. Registered pid n st t \<in> set before \<and> now < t + lifetime_limit st \<and> (st = None \<or> st = obs)"
    unfolding claims_justified_def by blast
qed

lemma claims_justified_taken:
  assumes "claims_justified evs" "Registered pid n st t \<in> set evs" "now < t + lifetime_limit st" "st = None \<or> st = obs"
  shows "claims_justified (evs @ [Taken pid n obs now])"
  unfolding claims_justified_def
proof (intro allI impI)
  fix before after pid' n' obs' now'
  assume e: "evs @ [Taken pid n obs now] = before @ Taken pid' n' obs' now' # after"
  show "\<exists>st t. Registered pid' n' st t \<in> set before \<and> now' < t + lifetime_limit st \<and> (st = None \<or> st = obs')"
  proof (cases after rule: rev_cases)
    case Nil
    then show ?thesis using e assms(2-4) by auto
  next
    case (snoc us u)
    then have "evs = before @ Taken pid' n' obs' now' # us" using e by simp
    then show ?thesis using assms(1) unfolding claims_justified_def by blast
  qed
qed

lemma entry_from_append: "entry_from evs e \<Longrightarrow> entry_from (evs @ evs') e"
  by (auto simp: entry_from_def)

lemma pending_filter:
  "pending_times pid n (filter P r) + length (filter (\<lambda>e. \<not> P e \<and> fst e = pid \<and> ps_name (snd e) = n) r) = pending_times pid n r"
  by (induction r) (auto simp: pending_times_def)

text \<open>Taking entries out settles exactly them.\<close>

lemma settle_entries:
  assumes "session_ok (evs, r)" "claims_justified (evs @ evs')"
    "\<And>pid n. settled_times pid n evs' = length (filter (\<lambda>e. \<not> P e \<and> fst e = pid \<and> ps_name (snd e) = n) r)"
    "\<And>pid n. accepted_times pid n evs' = 0"
  shows "session_ok (evs @ evs', filter P r)"
  unfolding session_ok_def fst_conv snd_conv
proof (intro conjI allI)
  show "wf_registry (filter P r)" using assms(1) by (simp add: session_ok_def wf_filter)
  show "claims_justified (evs @ evs')" by (rule assms(2))
  show "list_all (entry_from (evs @ evs')) (filter P r)" using assms(1) by (auto simp: session_ok_def list_all_iff intro: entry_from_append)
  fix pid n
  have "accepted_times pid n evs = settled_times pid n evs + pending_times pid n r" using assms(1) by (simp add: session_ok_def)
  then show "accepted_times pid n (evs @ evs') = settled_times pid n (evs @ evs') + pending_times pid n (filter P r)"
    using pending_filter [of pid n P r] assms(3) [of pid n] by (simp add: assms(4))
qed

lemma entry_alone:
  assumes "wf_registry r" "slot_get r pid = Some p"
  shows "filter (\<lambda>e. fst e = pid) r = [(pid, p)]"
proof -
  have "filter (\<lambda>e. fst e = pid) r = [(pid, p)]" if "distinct (map fst r)" "map_of r pid = Some p"
    using that
  proof (induction r)
    case (Cons a r)
    show ?case
    proof (cases "fst a = pid")
      case True
      then have "filter (\<lambda>e. fst e = pid) r = []" using Cons.prems(1) by (metis (mono_tags, lifting) distinct.simps(2) filter_False image_eqI list.map(2) set_map)
      then show ?thesis using True Cons.prems(2) by (cases a) auto
    next
      case False
      then show ?thesis using Cons by (cases a) auto
    qed
  qed simp
  then show ?thesis using assms by (simp add: wf_registry_def slot_get_def)
qed

lemma settle_one:
  assumes "session_ok (evs, r)" "slot_get r pid = Some p" "claims_justified (evs @ [ev])"
    "ev = Dropped pid (ps_name p) \<or> (\<exists>obs t. ev = Taken pid (ps_name p) obs t)"
  shows "session_ok (evs @ [ev], hash_remove pid r)"
  unfolding hash_remove_filter
proof (rule settle_entries [OF assms(1,3)])
  fix q n
  have "filter (\<lambda>e. \<not> fst e \<noteq> pid \<and> fst e = q \<and> ps_name (snd e) = n) r = filter (\<lambda>e. fst e = q \<and> ps_name (snd e) = n) (filter (\<lambda>e. fst e = pid) r)"
    by (simp add: filter_filter conj_commute)
  moreover have "wf_registry r" using assms(1) by (simp add: session_ok_def)
  ultimately show "settled_times q n [ev] = length (filter (\<lambda>e. \<not> fst e \<noteq> pid \<and> fst e = q \<and> ps_name (snd e) = n) r)"
    using assms(4) by (auto simp: settled_times_def entry_alone [OF _ assms(2)])
  show "accepted_times q n [ev] = 0" using assms(4) by (auto simp: accepted_times_def)
qed

lemma step_register:
  assumes "session_ok (evs, r)" "register_with_remaining pid n st now remaining r = (Inr (), r')"
  shows "session_ok (evs @ [Registered pid n st now], r')"
  unfolding session_ok_def fst_conv snd_conv
proof (intro conjI allI)
  note res = register_result [OF assms(2)]
  show "wf_registry r'" using assms(1) wf_register [OF _ assms(2)] by (simp add: session_ok_def)
  show "claims_justified (evs @ [Registered pid n st now])" using assms(1) by (auto simp: session_ok_def intro: claims_justified_append)
  have "entry_from (evs @ [Registered pid n st now]) (pid, \<lparr>ps_name = n, ps_start_time = st, ps_deadline = now + remaining\<rparr>)"
    using res(1) by (auto simp: entry_from_def)
  then show "list_all (entry_from (evs @ [Registered pid n st now])) r'"
    using assms(1) res(2) by (auto simp: session_ok_def list_all_iff intro: entry_from_append)
  fix q m
  show "accepted_times q m (evs @ [Registered pid n st now]) = settled_times q m (evs @ [Registered pid n st now]) + pending_times q m r'"
    using assms(1) res(2) by (auto simp: session_ok_def accepted_times_def settled_times_def pending_times_def)
qed

lemma step_claim:
  assumes "session_ok (evs, r)"
  shows "session_ok (evs @ claim_event pid obs now (fst (claim pid obs now r)), snd (claim pid obs now r))"
proof (cases "slot_get r pid")
  case None
  then show ?thesis using assms by (simp add: claim_registry claim_event_def)
next
  case (Some p)
  have "entry_from evs (pid, p)"
    using assms Some by (auto simp: session_ok_def list_all_iff slot_get_def dest: map_of_SomeD)
  then obtain t where t: "Registered pid (ps_name p) (ps_start_time p) t \<in> set evs" "ps_deadline p \<le> t + lifetime_limit (ps_start_time p)"
    by (auto simp: entry_from_def)
  have d: "session_ok (evs @ [Dropped pid (ps_name p)], hash_remove pid r)"
    using assms by (intro settle_one [OF assms Some]) (auto simp: session_ok_def intro: claims_justified_append)
  have k: "session_ok (evs @ [Taken pid (ps_name p) obs now], hash_remove pid r)"
    if "now < ps_deadline p" "ps_start_time p = None \<or> ps_start_time p = obs"
    using assms t that by (intro settle_one [OF assms Some] claims_justified_taken [OF _ t(1)]) (auto simp: session_ok_def)
  show ?thesis
    unfolding claim_removes using d k by (auto simp: claim_def Some claim_event_def split: option.splits)
qed

lemma step_expire:
  assumes "session_ok (evs, r)"
  shows "session_ok (evs @ map (\<lambda>(pid, n). Dropped pid n) (fst (expire now r)), snd (expire now r))"
proof -
  have w: "distinct (map fst r)" using assms by (simp add: session_ok_def wf_registry_def)
  have l: "length (filter (\<lambda>e. e = Dropped q m \<or> (\<exists>obs t. e = Taken q m obs t)) (map (\<lambda>(pid, n). Dropped pid n) (map (\<lambda>(pid, p). (pid, ps_name p)) (filter Q xs)))) =
      length (filter (\<lambda>e. Q e \<and> fst e = q \<and> ps_name (snd e) = m) xs)" for q m Q and xs :: pending_registry
    by (induction xs) (auto simp: case_prod_unfold)
  show ?thesis unfolding expire_registry [OF w]
  proof (rule settle_entries [OF assms])
    show "claims_justified (evs @ map (\<lambda>(pid, n). Dropped pid n) (fst (expire now r)))"
      using assms by (auto simp: session_ok_def intro!: claims_justified_append)
    show "accepted_times q m (map (\<lambda>(pid, n). Dropped pid n) (fst (expire now r))) = 0" for q m
      by (auto simp: accepted_times_def filter_empty_conv)
    show "settled_times q m (map (\<lambda>(pid, n). Dropped pid n) (fst (expire now r))) =
        length (filter (\<lambda>e. \<not> (case e of (_, p) \<Rightarrow> now < ps_deadline p) \<and> fst e = q \<and> ps_name (snd e) = m) r)" for q m
      unfolding settled_times_def expire_def Let_def fst_conv l by (simp add: case_prod_unfold not_less)
  qed
qed

lemma step_ok:
  assumes "session_ok (evs, r)"
  shows "session_ok (registry_step op' (evs, r))"
proof (cases op')
  case (Op_Spawned pid n st now)
  show ?thesis
    using assms step_register [OF assms, of pid n st now "lifetime_limit st"] register_result(3) [of pid n st now "lifetime_limit st" r]
    by (auto simp: Op_Spawned register_spawned_def split: prod.split sum.split)
next
  case (Op_Register pid n st now remaining)
  show ?thesis
    using assms step_register [OF assms, of pid n st now remaining] register_result(3) [of pid n st now remaining r]
    by (auto simp: Op_Register split: prod.split sum.split)
next
  case (Op_Claim pid obs now)
  then show ?thesis using step_claim [OF assms, of pid obs now] by (simp add: case_prod_unfold)
next
  case (Op_Exited pid)
  have "session_ok (evs @ [Dropped pid (ps_name p)], hash_remove pid r)" if "slot_get r pid = Some p" for p
    using assms that by (intro settle_one [OF assms that]) (auto simp: session_ok_def intro: claims_justified_append)
  then show ?thesis using assms by (cases "slot_get r pid") (simp_all add: Op_Exited remove_exited_def hash_remove_absent)
next
  case (Op_Expire now)
  then show ?thesis using step_expire [OF assms, of now] by (simp add: case_prod_unfold)
qed

lemma run_ok: "session_ok (run_registry ops)"
proof -
  have "session_ok (fold registry_step ops er)" if "session_ok er" for er
    using that step_ok by (induction ops arbitrary: er) (simp_all, metis prod.collapse)
  moreover have "session_ok ([], [])"
    by (simp add: session_ok_def wf_registry_def claims_justified_def)
  ultimately show ?thesis by (simp add: run_registry_def)
qed

text \<open>
  C28. Whatever happens to the registry of starting scratchpads, in any order and at any times: it never
  holds more than 64 entries, two entries never share a process or a name, and every name is well
  formed. Every accepted registration is settled at most once, by one window or by being given up,
  and is still pending otherwise. A window gets a name only if exactly its process was registered
  for it before, less than the lifetime ago, and with the same start time where one was known.
\<close>

theorem pending_names_are_claimed_once:
  assumes "run_registry ops = (evs, r)"
  shows "length r \<le> 64 \<and> distinct (map fst r) \<and> distinct (map (ps_name \<circ> snd) r) \<and> (\<forall>e \<in> set r. 0 < fst e \<and> valid_scratchpad_name (ps_name (snd e))) \<and>
    (\<forall>pid n. accepted_times pid n evs = settled_times pid n evs + (if \<exists>p. (pid, p) \<in> set r \<and> ps_name p = n then 1 else 0)) \<and>
    (\<forall>before after pid n obs now. evs = before @ Taken pid n obs now # after \<longrightarrow>
       (\<exists>st t. Registered pid n st t \<in> set before \<and> now < t + lifetime_limit st \<and> (st = None \<or> st = obs)))"
proof -
  have s: "session_ok (evs, r)" using run_ok [of ops] assms by simp
  then have w: "wf_registry r" by (simp add: session_ok_def)
  have "pending_times pid n r = (if \<exists>p. (pid, p) \<in> set r \<and> ps_name p = n then 1 else 0)" for pid n
  proof (cases "slot_get r pid")
    case None
    then show ?thesis by (auto simp: pending_times_def slot_get_None_iff filter_empty_conv image_iff)
  next
    case (Some p)
    have "pending_times pid n r = length (filter (\<lambda>e. ps_name (snd e) = n) (filter (\<lambda>e. fst e = pid) r))"
      by (simp add: pending_times_def filter_filter conj_commute)
    moreover have "(pid, q) \<in> set r \<longleftrightarrow> q = p" for q
      using Some w eq_key_imp_eq_value [of r] map_of_SomeD [of r pid p] by (auto simp: slot_get_def wf_registry_def)
    ultimately show ?thesis by (simp add: entry_alone [OF w Some])
  qed
  with s show ?thesis by (auto simp: session_ok_def wf_registry_def MAX_PENDING_SCRATCHPADS_def list_all_iff entry_ok_def claims_justified_def)
qed

theorem pending_names_are_claimed_once_witness:
  "run_registry [Op_Spawned 7 [97] (Some 5) 10, Op_Claim 7 (Some 5) 20] = ([Registered 7 [97] (Some 5) 10, Taken 7 [97] (Some 5) 20], []) \<and>
   (\<exists>st t. Registered 7 [97] st t \<in> set [Registered 7 [97] (Some 5) 10] \<and> 20 < t + lifetime_limit st \<and> (st = None \<or> st = Some 5))"
proof
  show e: "run_registry [Op_Spawned 7 [97] (Some 5) 10, Op_Claim 7 (Some 5) 20] = ([Registered 7 [97] (Some 5) 10, Taken 7 [97] (Some 5) 20], [])"
    by (simp add: run_registry_def register_spawned_def register_with_remaining_def ensure_name_can_spawn_def valid_scratchpad_name_def utf8_bytes_def
        is_control_def pending_pid_for_name_def MAX_PENDING_SCRATCHPADS_def MAX_SCRATCHPAD_NAME_BYTES_def contains_pid_def slot_get_def lifetime_limit_def
        deadline_from_remaining_def instant_checked_add_def PENDING_SCRATCHPAD_TTL_def hash_insert_def claim_def claim_event_def hash_remove_def)
  show "\<exists>st t. Registered 7 [97] st t \<in> set [Registered 7 [97] (Some 5) 10] \<and> 20 < t + lifetime_limit st \<and> (st = None \<or> st = Some 5)"
    by (rule pending_names_are_claimed_once [OF e, THEN conjunct2, THEN conjunct2, THEN conjunct2, THEN conjunct2, THEN conjunct2, rule_format, of _ _ _ _ _ "[]"]) simp
qed

end
