(* ===== verification/Scratchpad_Handoff.thy ===== *)
theory Scratchpad_Handoff
  imports Scratchpads
begin

text \<open>
  Carrying scratchpads over a restart, \<open>src/jwm/scratchpad_handoff.rs\<close>: the names of the scratchpads with
  the identities of their windows, and the launches that are still pending, are written into one
  message that the next process reads back and resolves against the windows it adopted. The JSON
  codec, the clock, the processes of the kernel and the window identities of the backend are
  parameters. The messages of the log are left out.
\<close>

section \<open>Data\<close>

definition HANDOFF_VERSION :: nat where "HANDOFF_VERSION = 2"
definition MAX_HANDOFF_BYTES :: nat where "MAX_HANDOFF_BYTES = 32768"
definition MAX_SCRATCHPADS :: nat where "MAX_SCRATCHPADS = 64"
definition MAX_PENDING_REMAINING_MS :: nat where "MAX_PENDING_REMAINING_MS = PENDING_SCRATCHPAD_TTL div 1000000"
definition MAX_UNVERIFIED_PENDING_REMAINING_MS :: nat where
  "MAX_UNVERIFIED_PENDING_REMAINING_MS = UNVERIFIED_PENDING_SCRATCHPAD_TTL div 1000000"

datatype window_identity = X11 nat

record wire_entry =
  we_name :: pad_name
  we_identity :: window_identity
  we_pid :: "pid option"

record wire_pending_entry =
  wp_name :: pad_name
  wp_pid :: pid
  wp_start_time :: "nat option"
  wp_remaining_ms :: nat

record restart_handoff =
  rh_issuer_pid :: pid
  rh_captured_unix_ms :: nat
  rh_entries :: "wire_entry list"
  rh_pending :: "wire_pending_entry list"

record wire_handoff = restart_handoff +
  wh_version :: nat

datatype handoff_error =
    Payload_Too_Large nat
  | Too_Many_Entries nat
  | Too_Many_Pending_Entries nat
  | Invalid_Json
  | Unsupported_Version nat
  | Invalid_Issuer_Pid pid
  | Invalid_Capture_Time
  | Issuer_Pid_Mismatch pid pid
  | Invalid_Entry_Name nat
  | Invalid_Window_Identity nat
  | Invalid_Window_Pid nat
  | Duplicate_Entry_Name pad_name
  | Duplicate_Window_Identity window_identity
  | Missing_Window_Identity pad_name
  | Invalid_Pending_Pid nat
  | Invalid_Pending_Start_Time nat
  | Invalid_Pending_Lifetime nat
  | Duplicate_Pending_Pid pid
  | Missing_Client pad_name

section \<open>Validation\<close>

fun validate_entries :: "nat \<Rightarrow> pad_name set \<Rightarrow> window_identity set \<Rightarrow> wire_entry list \<Rightarrow> handoff_error + pad_name set" where
  "validate_entries i names windows [] = Inr names"
| "validate_entries i names windows (e # es) =
     (if \<not> valid_scratchpad_name (we_name e) then Inl (Invalid_Entry_Name i)
      else if we_identity e = X11 0 then Inl (Invalid_Window_Identity i)
      else if we_pid e = Some 0 then Inl (Invalid_Window_Pid i)
      else if we_name e \<in> names then Inl (Duplicate_Entry_Name (we_name e))
      else if we_identity e \<in> windows then Inl (Duplicate_Window_Identity (we_identity e))
      else validate_entries (i + 1) (insert (we_name e) names) (insert (we_identity e) windows) es)"

definition remaining_limit :: "nat option \<Rightarrow> nat" where
  "remaining_limit start_time = (if start_time \<noteq> None then MAX_PENDING_REMAINING_MS else MAX_UNVERIFIED_PENDING_REMAINING_MS)"

fun validate_pending :: "nat \<Rightarrow> nat \<Rightarrow> pad_name set \<Rightarrow> pid set \<Rightarrow> wire_pending_entry list \<Rightarrow> handoff_error + unit" where
  "validate_pending base i names pids [] = Inr ()"
| "validate_pending base i names pids (e # es) =
     (if \<not> valid_scratchpad_name (wp_name e) then Inl (Invalid_Entry_Name (base + i))
      else if wp_pid e = 0 then Inl (Invalid_Pending_Pid i)
      else if wp_start_time e = Some 0 then Inl (Invalid_Pending_Start_Time i)
      else if wp_remaining_ms e = 0 \<or> wp_remaining_ms e > remaining_limit (wp_start_time e) then Inl (Invalid_Pending_Lifetime i)
      else if wp_name e \<in> names then Inl (Duplicate_Entry_Name (wp_name e))
      else if wp_pid e \<in> pids then Inl (Duplicate_Pending_Pid (wp_pid e))
      else validate_pending base (i + 1) (insert (wp_name e) names) (insert (wp_pid e) pids) es)"

definition validate_wire :: "wire_handoff \<Rightarrow> handoff_error + unit" where
  "validate_wire w =
     (if wh_version w \<noteq> HANDOFF_VERSION then Inl (Unsupported_Version (wh_version w))
      else if rh_issuer_pid w = 0 then Inl (Invalid_Issuer_Pid (rh_issuer_pid w))
      else if rh_captured_unix_ms w = 0 then Inl Invalid_Capture_Time
      else if length (rh_entries w) > MAX_SCRATCHPADS then Inl (Too_Many_Entries (length (rh_entries w)))
      else if length (rh_pending w) > MAX_PENDING_SCRATCHPADS then Inl (Too_Many_Pending_Entries (length (rh_pending w)))
      else case validate_entries 0 {} {} (rh_entries w) of
        Inl e \<Rightarrow> Inl e
      | Inr names \<Rightarrow> validate_pending (length (rh_entries w)) 0 names {} (rh_pending w))"

definition to_wire :: "restart_handoff \<Rightarrow> wire_handoff" where
  "to_wire h = restart_handoff.extend h (wire_handoff.fields HANDOFF_VERSION)"

definition validate :: "restart_handoff \<Rightarrow> handoff_error + unit" where
  "validate h = validate_wire (to_wire h)"

definition unix_time_ms :: "nat option \<Rightarrow> nat" where
  "unix_time_ms clock = max (case clock of None \<Rightarrow> 1 | Some ms \<Rightarrow> if ms < 2 ^ 64 then ms else 1) 1"

section \<open>Capture, encode and decode\<close>

fun collect_results :: "('a \<Rightarrow> 'e + 'b) \<Rightarrow> 'a list \<Rightarrow> 'e + 'b list" where
  "collect_results f [] = Inr []"
| "collect_results f (x # xs) = (case f x of Inl e \<Rightarrow> Inl e
     | Inr y \<Rightarrow> (case collect_results f xs of Inl e \<Rightarrow> Inl e | Inr ys \<Rightarrow> Inr (y # ys)))"

type_synonym scratchpad_table = "(pad_name, client_key) slotmap"

definition capture_entry :: "(window_id \<Rightarrow> window_identity option) \<Rightarrow> wm_state \<Rightarrow> pad_name \<times> client_key \<Rightarrow> handoff_error + wire_entry" where
  "capture_entry identity_for s nk = (case slot_get (st_clients s) (snd nk) of
     None \<Rightarrow> Inl (Missing_Client (fst nk))
   | Some c \<Rightarrow> (case identity_for (c_win c) of
         None \<Rightarrow> Inl (Missing_Window_Identity (fst nk))
       | Some identity \<Rightarrow> Inr \<lparr>we_name = fst nk, we_identity = identity, we_pid = c_pid c\<rparr>))"

definition wire_pending :: "pending_snapshot \<Rightarrow> wire_pending_entry" where
  "wire_pending sn = \<lparr>wp_name = sn_name sn, wp_pid = sn_pid sn, wp_start_time = sn_start_time sn, wp_remaining_ms = sn_remaining_ms sn\<rparr>"

definition capture_with_window_identity :: "scratchpad_table \<Rightarrow> wm_state \<Rightarrow> pending_registry \<Rightarrow> nat \<Rightarrow> nat option \<Rightarrow> pid \<Rightarrow>
    (window_id \<Rightarrow> window_identity option) \<Rightarrow> handoff_error + restart_handoff" where
  "capture_with_window_identity scratchpads s pending now clock issuer identity_for =
     (case collect_results (capture_entry identity_for s) (sort_key fst scratchpads) of
        Inl e \<Rightarrow> Inl e
      | Inr entries \<Rightarrow>
          let h = \<lparr>rh_issuer_pid = issuer, rh_captured_unix_ms = unix_time_ms clock, rh_entries = entries,
                rh_pending = map wire_pending (snapshots now pending)\<rparr>
          in case validate h of Inl e \<Rightarrow> Inl e | Inr _ \<Rightarrow> Inr h)"

definition handoff_encode :: "(wire_handoff \<Rightarrow> string option) \<Rightarrow> restart_handoff \<Rightarrow> handoff_error + string" where
  "handoff_encode to_json h = (case validate h of Inl e \<Rightarrow> Inl e
     | Inr _ \<Rightarrow> (case to_json (to_wire h) of None \<Rightarrow> Inl Invalid_Json
         | Some payload \<Rightarrow> if length payload > MAX_HANDOFF_BYTES then Inl (Payload_Too_Large (length payload)) else Inr payload))"

definition decode_for_pid :: "(string \<Rightarrow> wire_handoff option) \<Rightarrow> string \<Rightarrow> pid \<Rightarrow> handoff_error + restart_handoff" where
  "decode_for_pid from_json payload current_pid =
     (if length payload > MAX_HANDOFF_BYTES then Inl (Payload_Too_Large (length payload))
      else case from_json payload of None \<Rightarrow> Inl Invalid_Json
        | Some w \<Rightarrow> (case validate_wire w of Inl e \<Rightarrow> Inl e
            | Inr _ \<Rightarrow> if rh_issuer_pid w \<noteq> current_pid then Inl (Issuer_Pid_Mismatch current_pid (rh_issuer_pid w))
                else Inr (restart_handoff.truncate w)))"

section \<open>Install and adopt\<close>

record pending_report =
  pr_installed :: nat
  pr_expired :: nat
  pr_identity_mismatches :: nat
  pr_conflicts :: nat

definition install_pending_entry :: "nat \<Rightarrow> nat \<Rightarrow> (pid \<Rightarrow> nat option) \<Rightarrow> wire_pending_entry \<Rightarrow> pending_report \<times> pending_registry \<Rightarrow> pending_report \<times> pending_registry" where
  "install_pending_entry now elapsed_ms process_start e rr = (case rr of (report, r) \<Rightarrow>
     let remaining_ms = wp_remaining_ms e - elapsed_ms in
     if remaining_ms = 0 then (report\<lparr>pr_expired := pr_expired report + 1\<rparr>, r)
     else if (case wp_start_time e of None \<Rightarrow> False | Some expected \<Rightarrow> process_start (wp_pid e) \<noteq> Some expected)
     then (report\<lparr>pr_identity_mismatches := pr_identity_mismatches report + 1\<rparr>, r)
     else (case register_with_remaining (wp_pid e) (wp_name e) (wp_start_time e) now (remaining_ms * 1000000) r of
         (Inr _, r1) \<Rightarrow> (report\<lparr>pr_installed := pr_installed report + 1\<rparr>, r1)
       | (Inl _, r1) \<Rightarrow> (report\<lparr>pr_conflicts := pr_conflicts report + 1\<rparr>, r1)))"

definition install_pending_handoff :: "restart_handoff \<Rightarrow> nat \<Rightarrow> nat \<Rightarrow> (pid \<Rightarrow> nat option) \<Rightarrow> pending_registry \<Rightarrow> pending_report \<times> pending_registry" where
  "install_pending_handoff h now current_unix_ms process_start r =
     fold (install_pending_entry now (current_unix_ms - rh_captured_unix_ms h) process_start) (rh_pending h)
       (\<lparr>pr_installed = 0, pr_expired = 0, pr_identity_mismatches = 0, pr_conflicts = 0\<rparr>, r)"

record adoption_report =
  ad_adopted :: nat
  ad_disappeared :: nat
  ad_pid_mismatches :: nat
  ad_conflicts :: nat

definition adopt_entry :: "wm_state \<Rightarrow> (window_identity \<Rightarrow> window_id option) \<Rightarrow> wire_entry \<Rightarrow> adoption_report \<times> scratchpad_table \<Rightarrow> adoption_report \<times> scratchpad_table" where
  "adopt_entry s resolve_identity e rt = (case rt of (report, table) \<Rightarrow>
     let gone = (report\<lparr>ad_disappeared := ad_disappeared report + 1\<rparr>, table) in
     case resolve_identity (we_identity e) of None \<Rightarrow> gone
   | Some win \<Rightarrow> (case win_to_client s win of None \<Rightarrow> gone
       | Some k \<Rightarrow> (case slot_get (st_clients s) k of None \<Rightarrow> gone
           | Some c \<Rightarrow>
               if c_win c \<noteq> win then gone
               else if (case we_pid e of None \<Rightarrow> False | Some expected \<Rightarrow> c_pid c \<noteq> Some expected)
               then (report\<lparr>ad_pid_mismatches := ad_pid_mismatches report + 1\<rparr>, table)
               else if slot_get table (we_name e) \<noteq> None \<or> k \<in> snd ` set table
               then (report\<lparr>ad_conflicts := ad_conflicts report + 1\<rparr>, table)
               else (report\<lparr>ad_adopted := ad_adopted report + 1\<rparr>, hash_insert (we_name e) k table))))"

definition adopt_handoff_with_window_identity :: "wm_state \<Rightarrow> restart_handoff \<Rightarrow> (window_identity \<Rightarrow> window_id option) \<Rightarrow> scratchpad_table \<Rightarrow>
    adoption_report \<times> scratchpad_table" where
  "adopt_handoff_with_window_identity s h resolve_identity table =
     fold (adopt_entry s resolve_identity) (rh_entries h)
       (\<lparr>ad_adopted = 0, ad_disappeared = 0, ad_pid_mismatches = 0, ad_conflicts = 0\<rparr>, table)"

section \<open>What validation accepts\<close>

definition entry_valid :: "wire_entry \<Rightarrow> bool" where
  "entry_valid e \<longleftrightarrow> valid_scratchpad_name (we_name e) \<and> we_identity e \<noteq> X11 0 \<and> we_pid e \<noteq> Some 0"

definition pending_valid :: "wire_pending_entry \<Rightarrow> bool" where
  "pending_valid e \<longleftrightarrow> valid_scratchpad_name (wp_name e) \<and> 0 < wp_pid e \<and> wp_start_time e \<noteq> Some 0 \<and>
     0 < wp_remaining_ms e \<and> wp_remaining_ms e \<le> remaining_limit (wp_start_time e)"

definition unambiguous :: "wire_entry list \<Rightarrow> wire_pending_entry list \<Rightarrow> bool" where
  "unambiguous es ps \<longleftrightarrow> length es \<le> MAX_SCRATCHPADS \<and> length ps \<le> MAX_PENDING_SCRATCHPADS \<and> list_all entry_valid es \<and> list_all pending_valid ps \<and>
     distinct (map we_name es @ map wp_name ps) \<and> distinct (map we_identity es) \<and> distinct (map wp_pid ps)"

lemma validate_entries_Inr:
  "validate_entries i names windows es = Inr names' \<longleftrightarrow> names' = names \<union> we_name ` set es \<and> list_all entry_valid es \<and>
     distinct (map we_name es) \<and> we_name ` set es \<inter> names = {} \<and> distinct (map we_identity es) \<and> we_identity ` set es \<inter> windows = {}"
  by (induction es arbitrary: i names windows) (auto simp: entry_valid_def)

lemma validate_pending_Inr:
  "validate_pending base i names pids ps = Inr () \<longleftrightarrow> list_all pending_valid ps \<and>
     distinct (map wp_name ps) \<and> wp_name ` set ps \<inter> names = {} \<and> distinct (map wp_pid ps) \<and> wp_pid ` set ps \<inter> pids = {}"
  by (induction ps arbitrary: i names pids) (auto simp: pending_valid_def)

lemma validate_wire_Inr:
  "validate_wire w = Inr () \<longleftrightarrow> wh_version w = HANDOFF_VERSION \<and> 0 < rh_issuer_pid w \<and> 0 < rh_captured_unix_ms w \<and> unambiguous (rh_entries w) (rh_pending w)"
proof -
  have "validate_entries 0 {} {} (rh_entries w) = Inr (we_name ` set (rh_entries w)) \<longleftrightarrow> list_all entry_valid (rh_entries w) \<and>
      distinct (map we_name (rh_entries w)) \<and> distinct (map we_identity (rh_entries w))"
    by (simp add: validate_entries_Inr)
  moreover have "validate_entries 0 {} {} (rh_entries w) = Inr names \<Longrightarrow> names = we_name ` set (rh_entries w)" for names
    by (simp add: validate_entries_Inr)
  ultimately show ?thesis
    by (auto simp: validate_wire_def unambiguous_def validate_pending_Inr split: sum.split if_splits)
qed

lemma to_wire_simps [simp]:
  "wh_version (to_wire h) = HANDOFF_VERSION" "rh_issuer_pid (to_wire h) = rh_issuer_pid h" "rh_captured_unix_ms (to_wire h) = rh_captured_unix_ms h"
  "rh_entries (to_wire h) = rh_entries h" "rh_pending (to_wire h) = rh_pending h" "restart_handoff.truncate (to_wire h) = h"
  by (simp_all add: to_wire_def restart_handoff.defs wire_handoff.defs)

lemma sum_unit_eq: "x = Inr () \<longleftrightarrow> (\<exists>u. x = Inr u)"
  by auto

lemma decode_accepts:
  assumes "decode_for_pid from_json payload pid = Inr h"
  shows "rh_issuer_pid h = pid" "unambiguous (rh_entries h) (rh_pending h)"
proof -
  obtain w where "from_json payload = Some w" "validate_wire w = Inr ()" "rh_issuer_pid w = pid" "h = restart_handoff.truncate w"
    using assms by (auto simp: decode_for_pid_def split: if_splits option.splits sum.splits)
  then show "rh_issuer_pid h = pid" "unambiguous (rh_entries h) (rh_pending h)"
    by (simp_all add: validate_wire_Inr restart_handoff.defs)
qed

section \<open>Adoption\<close>

definition adopts :: "wm_state \<Rightarrow> (window_identity \<Rightarrow> window_id option) \<Rightarrow> wire_entry \<Rightarrow> client_key \<Rightarrow> bool" where
  "adopts s resolve_identity e k \<longleftrightarrow> (\<exists>win c. resolve_identity (we_identity e) = Some win \<and> win_to_client s win = Some k \<and>
     slot_get (st_clients s) k = Some c \<and> c_win c = win \<and> (we_pid e = None \<or> c_pid c = we_pid e))"

definition adoption_total :: "adoption_report \<Rightarrow> nat" where
  "adoption_total r = ad_adopted r + ad_disappeared r + ad_pid_mismatches r + ad_conflicts r"

lemma adopt_entry_cases:
  assumes "adopt_entry s resolve_identity e (report, table) = (report', table')"
  obtains "table' = table" "adoption_total report' = adoption_total report + 1" "ad_adopted report' = ad_adopted report"
      "\<And>k. adopts s resolve_identity e k \<Longrightarrow> slot_get table (we_name e) \<noteq> None \<or> k \<in> snd ` set table"
  | k where "adopts s resolve_identity e k" "slot_get table (we_name e) = None" "k \<notin> snd ` set table" "table' = table @ [(we_name e, k)]"
      "report' = report\<lparr>ad_adopted := ad_adopted report + 1\<rparr>"
proof (cases "\<exists>k. adopts s resolve_identity e k \<and> slot_get table (we_name e) = None \<and> k \<notin> snd ` set table")
  case True
  then obtain k where k: "adopts s resolve_identity e k" "slot_get table (we_name e) = None" "k \<notin> snd ` set table" by blast
  have "table' = table @ [(we_name e, k)]" "report' = report\<lparr>ad_adopted := ad_adopted report + 1\<rparr>"
    using assms k by (auto simp: adopt_entry_def adopts_def Let_def hash_insert_def split: option.splits if_splits)
  then show ?thesis using k that(2) by blast
next
  case False
  have "table' = table" "adoption_total report' = adoption_total report + 1" "ad_adopted report' = ad_adopted report"
    using assms False by (auto simp: adopt_entry_def adopts_def adoption_total_def Let_def split: option.splits if_splits)
  then show ?thesis by (rule that(1)) (use False in auto)
qed

lemma adopt_all:
  assumes "fold (adopt_entry s resolve_identity) es (report, table) = (report', table')" "distinct (map fst table)" "distinct (map snd table)"
  shows "\<exists>new. table' = table @ new \<and> (\<forall>(n, k) \<in> set new. \<exists>e \<in> set es. we_name e = n \<and> adopts s resolve_identity e k) \<and>
    distinct (map fst table') \<and> distinct (map snd table') \<and> adoption_total report' = adoption_total report + length es \<and>
    ad_adopted report' = ad_adopted report + length new"
  using assms
proof (induction es arbitrary: report table)
  case (Cons e es)
  obtain report1 table1 where step: "adopt_entry s resolve_identity e (report, table) = (report1, table1)" by fastforce
  then have rest: "fold (adopt_entry s resolve_identity) es (report1, table1) = (report', table')" using Cons.prems(1) by simp
  from step show ?case
  proof (cases rule: adopt_entry_cases)
    case 1
    then show ?thesis using Cons.IH [OF rest] Cons.prems(2,3) by fastforce
  next
    case (2 k)
    have "distinct (map fst table1)" "distinct (map snd table1)"
      using Cons.prems(2,3) 2 by (auto simp: slot_get_None_iff)
    from Cons.IH [OF rest this] obtain new where new: "table' = table1 @ new"
      "\<forall>(n, k) \<in> set new. \<exists>e \<in> set es. we_name e = n \<and> adopts s resolve_identity e k" "distinct (map fst table')" "distinct (map snd table')"
      "adoption_total report' = adoption_total report1 + length es" "ad_adopted report' = ad_adopted report1 + length new" by blast
    then show ?thesis using 2 by (intro exI [of _ "(we_name e, k) # new"]) (auto simp: adoption_total_def)
  qed
qed simp

text \<open>
  C30. A message that the next process accepts is unambiguous, whatever was written into it: it was
  issued by this process, no name, window or process occurs twice in it, established and pending
  scratchpads share no name, and there are at most 64 of each. Adopting it keeps every scratchpad
  already known, gives each name one client and each client one name, and takes only a client whose
  window has the written identity and, where one was written, the written process.
\<close>

theorem adoption_is_unambiguous:
  assumes "decode_for_pid from_json payload pid = Inr h" "distinct (map fst table)" "distinct (map snd table)"
    "adopt_handoff_with_window_identity s h resolve_identity table = (report, table')"
  shows "rh_issuer_pid h = pid \<and> length (rh_entries h) \<le> 64 \<and> length (rh_pending h) \<le> 64 \<and>
    distinct (map we_name (rh_entries h) @ map wp_name (rh_pending h)) \<and> distinct (map we_identity (rh_entries h)) \<and> distinct (map wp_pid (rh_pending h)) \<and>
    distinct (map fst table') \<and> distinct (map snd table') \<and>
    (\<exists>new. table' = table @ new \<and> length new = ad_adopted report \<and> (\<forall>(n, k) \<in> set new. \<exists>e \<in> set (rh_entries h). we_name e = n \<and>
       (\<exists>win c. resolve_identity (we_identity e) = Some win \<and> slot_get (st_clients s) k = Some c \<and> c_win c = win \<and> (we_pid e = None \<or> c_pid c = we_pid e)))) \<and>
    ad_adopted report + ad_disappeared report + ad_pid_mismatches report + ad_conflicts report = length (rh_entries h)"
proof -
  note d = decode_accepts [OF assms(1)]
  have "\<exists>new. table' = table @ new \<and> (\<forall>(n, k) \<in> set new. \<exists>e \<in> set (rh_entries h). we_name e = n \<and> adopts s resolve_identity e k) \<and>
    distinct (map fst table') \<and> distinct (map snd table') \<and> adoption_total report = length (rh_entries h) \<and> ad_adopted report = length new"
    using adopt_all [OF assms(4) [unfolded adopt_handoff_with_window_identity_def] assms(2,3)] by (simp add: adoption_total_def)
  then obtain new where new: "table' = table @ new" "\<forall>(n, k) \<in> set new. \<exists>e \<in> set (rh_entries h). we_name e = n \<and> adopts s resolve_identity e k"
    "distinct (map fst table')" "distinct (map snd table')" "adoption_total report = length (rh_entries h)" "ad_adopted report = length new" by blast
  have "\<forall>(n, k) \<in> set new. \<exists>e \<in> set (rh_entries h). we_name e = n \<and>
       (\<exists>win c. resolve_identity (we_identity e) = Some win \<and> slot_get (st_clients s) k = Some c \<and> c_win c = win \<and> (we_pid e = None \<or> c_pid c = we_pid e))"
    using new(2) unfolding adopts_def by fastforce
  with d new show ?thesis
    unfolding unambiguous_def MAX_SCRATCHPADS_def MAX_PENDING_SCRATCHPADS_def adoption_total_def by (intro conjI exI [of _ new]) simp_all
qed

section \<open>The round trip of a restart\<close>

lemma collect_results_Inr:
  "collect_results f xs = Inr ys \<longleftrightarrow> list_all2 (\<lambda>x y. f x = Inr y) xs ys"
proof (induction xs arbitrary: ys)
  case (Cons x xs)
  show ?case by (cases "f x"; cases "collect_results f xs") (auto simp: list_all2_Cons1 simp flip: Cons.IH)
qed auto

lemma captured:
  assumes "capture_with_window_identity table s r now clock issuer identity_for = Inr h"
  shows "list_all2 (\<lambda>nk e. capture_entry identity_for s nk = Inr e) (sort_key fst table) (rh_entries h)"
    "rh_pending h = map wire_pending (snapshots now r)" "rh_issuer_pid h = issuer" "rh_captured_unix_ms h = unix_time_ms clock"
    "validate h = Inr ()"
  using assms unfolding capture_with_window_identity_def Let_def collect_results_Inr [symmetric] by (auto split: sum.splits)

lemma capture_entry_Inr:
  "capture_entry identity_for s nk = Inr e \<longleftrightarrow> (\<exists>c identity. slot_get (st_clients s) (snd nk) = Some c \<and> identity_for (c_win c) = Some identity \<and>
     e = \<lparr>we_name = fst nk, we_identity = identity, we_pid = c_pid c\<rparr>)"
  by (auto simp: capture_entry_def split: option.splits)

text \<open>Adopting entries that all resolve, to clients that differ, adopts them in order.\<close>

lemma adopt_in_order:
  assumes "list_all2 (\<lambda>e nk. we_name e = fst nk \<and> adopts s resolve_identity e (snd nk)) es nks"
    "distinct (map fst (table @ nks))" "distinct (map snd (table @ nks))"
  shows "fold (adopt_entry s resolve_identity) es (report, table) = (report\<lparr>ad_adopted := ad_adopted report + length es\<rparr>, table @ nks)"
  using assms
proof (induction es nks arbitrary: report table rule: list_all2_induct)
  case (Cons e es nk nks)
  have new: "slot_get table (we_name e) = None" "snd nk \<notin> snd ` set table"
    using Cons.hyps(1) Cons.prems by (auto simp: slot_get_None_iff)
  obtain c where c: "resolve_identity (we_identity e) = Some (c_win c)" "win_to_client s (c_win c) = Some (snd nk)"
    "slot_get (st_clients s) (snd nk) = Some c" "we_pid e = None \<or> c_pid c = we_pid e" "we_name e = fst nk"
    using Cons.hyps(1) by (auto simp: adopts_def)
  have step: "adopt_entry s resolve_identity e (report, table) = (report\<lparr>ad_adopted := ad_adopted report + 1\<rparr>, table @ [nk])"
    using c(4) new by (cases "we_pid e") (simp_all add: adopt_entry_def c(1,2,3,5) Let_def hash_insert_def)
  show ?case using Cons.IH [of "table @ [nk]" "report\<lparr>ad_adopted := ad_adopted report + 1\<rparr>"] Cons.prems by (simp add: step)
qed simp

text \<open>
  C29. A restart keeps the scratchpads: if the table could be captured and encoded, the codec reads
  back what it wrote, and every scratchpad's window is found again on a client of the same process, then
  the next process accepts the message and its table has the same names, each on the client that
  now owns the window, with nothing rejected.
\<close>

theorem restart_keeps_scratchpads:
  assumes "capture_with_window_identity table s r now clock issuer identity_for = Inr h" "distinct (map fst table)"
    "handoff_encode to_json h = Inr payload" "\<And>w p. to_json w = Some p \<Longrightarrow> from_json p = Some w"
    "\<And>n k c identity. (n, k) \<in> set table \<Longrightarrow> slot_get (st_clients s) k = Some c \<Longrightarrow> identity_for (c_win c) = Some identity \<Longrightarrow>
       \<exists>win c'. resolve_identity identity = Some win \<and> win_to_client s' win = Some (moved k) \<and>
         slot_get (st_clients s') (moved k) = Some c' \<and> c_win c' = win \<and> c_pid c' = c_pid c"
    "distinct (map (moved \<circ> snd) table)"
  shows "decode_for_pid from_json payload issuer = Inr h \<and>
    adopt_handoff_with_window_identity s' h resolve_identity [] =
      (\<lparr>ad_adopted = length table, ad_disappeared = 0, ad_pid_mismatches = 0, ad_conflicts = 0\<rparr>,
       map (\<lambda>(n, k). (n, moved k)) (sort_key fst table))"
proof
  note c = captured [OF assms(1)]
  have p: "to_json (to_wire h) = Some payload" "length payload \<le> MAX_HANDOFF_BYTES"
    using assms(3) by (auto simp: handoff_encode_def split: sum.splits option.splits if_splits)
  show "decode_for_pid from_json payload issuer = Inr h"
    using c(3,5) p(2) assms(4) [OF p(1)] by (simp add: decode_for_pid_def validate_def)
  define xs where "xs = sort_key fst table"
  define nks where "nks = map (\<lambda>(n, k). (n, moved k)) xs"
  have m: "mset xs = mset table" by (simp add: xs_def)
  have "list_all2 (\<lambda>e nk. we_name e = fst nk \<and> adopts s' resolve_identity e (snd nk)) (rh_entries h) nks"
    unfolding nks_def list_all2_map2
  proof (rule list_all2_all_nthI)
    show len: "length (rh_entries h) = length xs" using list_all2_lengthD [OF c(1)] by (simp add: xs_def)
    fix i assume i: "i < length (rh_entries h)"
    obtain n k where nk: "xs ! i = (n, k)" by fastforce
    have t: "(n, k) \<in> set table" using i len nk nth_mem [of i xs] mset_eq_setD [OF m] by simp
    have "capture_entry identity_for s (n, k) = Inr (rh_entries h ! i)"
      using list_all2_nthD2 [OF c(1) i] by (simp add: nk flip: xs_def)
    then obtain c identity where e: "slot_get (st_clients s) k = Some c" "identity_for (c_win c) = Some identity"
      "rh_entries h ! i = \<lparr>we_name = n, we_identity = identity, we_pid = c_pid c\<rparr>" by (auto simp: capture_entry_Inr)
    show "we_name (rh_entries h ! i) = fst (case xs ! i of (n, k) \<Rightarrow> (n, moved k)) \<and>
        adopts s' resolve_identity (rh_entries h ! i) (snd (case xs ! i of (n, k) \<Rightarrow> (n, moved k)))"
      using assms(5) [OF t e(1,2)] by (auto simp: nk e(3) adopts_def)
  qed
  moreover have "map fst nks = map fst xs" "map snd nks = map (moved \<circ> snd) xs" by (auto simp: nks_def)
  then have "distinct (map fst nks)" "distinct (map snd nks)"
    using assms(2,6) mset_eq_imp_distinct_iff [of "map fst xs" "map fst table"] mset_eq_imp_distinct_iff [of "map (moved \<circ> snd) xs" "map (moved \<circ> snd) table"]
    by (simp_all add: m)
  ultimately show "adopt_handoff_with_window_identity s' h resolve_identity [] =
      (\<lparr>ad_adopted = length table, ad_disappeared = 0, ad_pid_mismatches = 0, ad_conflicts = 0\<rparr>, map (\<lambda>(n, k). (n, moved k)) (sort_key fst table))"
    using adopt_in_order [of s' resolve_identity "rh_entries h" nks "[]" "\<lparr>ad_adopted = 0, ad_disappeared = 0, ad_pid_mismatches = 0, ad_conflicts = 0\<rparr>"]
      list_all2_lengthD [OF c(1)] by (simp add: adopt_handoff_with_window_identity_def nks_def xs_def)
qed

section \<open>Pending launches over a restart\<close>

definition still_starting :: "nat \<Rightarrow> (pid \<Rightarrow> nat option) \<Rightarrow> wire_pending_entry \<Rightarrow> bool" where
  "still_starting elapsed_ms process_start e \<longleftrightarrow> elapsed_ms < wp_remaining_ms e \<and> (wp_start_time e = None \<or> process_start (wp_pid e) = wp_start_time e)"

definition installed_entry :: "nat \<Rightarrow> nat \<Rightarrow> wire_pending_entry \<Rightarrow> pid \<times> pending_scratchpad" where
  "installed_entry now elapsed_ms e = (wp_pid e, \<lparr>ps_name = wp_name e, ps_start_time = wp_start_time e,
     ps_deadline = now + (wp_remaining_ms e - elapsed_ms) * 1000000\<rparr>)"

definition pending_total :: "pending_report \<Rightarrow> nat" where
  "pending_total r = pr_installed r + pr_expired r + pr_identity_mismatches r + pr_conflicts r"

lemma limit_ms: "remaining_limit st * 1000000 = lifetime_limit st"
  by (simp add: remaining_limit_def lifetime_limit_def MAX_PENDING_REMAINING_MS_def MAX_UNVERIFIED_PENDING_REMAINING_MS_def
      PENDING_SCRATCHPAD_TTL_def UNVERIFIED_PENDING_SCRATCHPAD_TTL_def)

lemma install_one:
  assumes "pending_valid e" "wp_pid e \<notin> fst ` set r" "wp_name e \<notin> (ps_name \<circ> snd) ` set r" "length r < MAX_PENDING_SCRATCHPADS"
    "(now + PENDING_SCRATCHPAD_TTL) div 1000000000 < 2 ^ 63" "install_pending_entry now elapsed process_start e (report, r) = (report', r')"
  shows "r' = (if still_starting elapsed process_start e then r @ [installed_entry now elapsed e] else r) \<and>
    pending_total report' = pending_total report + 1 \<and> pr_conflicts report' = pr_conflicts report \<and>
    pr_installed report' = pr_installed report + (if still_starting elapsed process_start e then 1 else 0)"
proof (cases "still_starting elapsed process_start e")
  case False
  then show ?thesis using assms(6) by (auto simp: install_pending_entry_def still_starting_def pending_total_def Let_def split: option.splits if_splits)
next
  case True
  define ms where "ms = (wp_remaining_ms e - elapsed) * 1000000"
  have "ms \<le> remaining_limit (wp_start_time e) * 1000000" using assms(1) by (auto simp: ms_def pending_valid_def intro: le_trans [OF diff_le_self])
  then have l: "0 < ms" "ms \<le> lifetime_limit (wp_start_time e)" using True by (simp_all add: ms_def still_starting_def limit_ms)
  moreover have "lifetime_limit (wp_start_time e) \<le> PENDING_SCRATCHPAD_TTL"
    by (simp add: lifetime_limit_def PENDING_SCRATCHPAD_TTL_def UNVERIFIED_PENDING_SCRATCHPAD_TTL_def)
  ultimately have "(now + ms) div 1000000000 \<le> (now + PENDING_SCRATCHPAD_TTL) div 1000000000" by (intro div_le_mono) simp
  then have t: "(now + ms) div 1000000000 < 2 ^ 63" using assms(5) by simp
  obtain res r1 where reg: "register_with_remaining (wp_pid e) (wp_name e) (wp_start_time e) now ms r = (res, r1)" by fastforce
  have "res = Inr ()"
    using register_result(1) [OF reg] assms(1-4) l t by (simp add: pending_valid_def slot_get_None_iff)
  then have reg': "register_with_remaining (wp_pid e) (wp_name e) (wp_start_time e) now ms r = (Inr (), r @ [installed_entry now elapsed e])"
    using register_result(2) [OF reg] reg by (simp add: installed_entry_def ms_def)
  have "install_pending_entry now elapsed process_start e (report, r) = (report\<lparr>pr_installed := pr_installed report + 1\<rparr>, r @ [installed_entry now elapsed e])"
    using True reg' unfolding install_pending_entry_def prod.case Let_def ms_def [symmetric] by (auto simp: still_starting_def split: option.split)
  then show ?thesis using assms(6) True by (auto simp: pending_total_def)
qed

lemma install_all:
  assumes "list_all pending_valid es" "distinct (map fst r @ map wp_pid es)" "distinct (map (ps_name \<circ> snd) r @ map wp_name es)"
    "length r + length es \<le> MAX_PENDING_SCRATCHPADS" "(now + PENDING_SCRATCHPAD_TTL) div 1000000000 < 2 ^ 63"
    "fold (install_pending_entry now elapsed process_start) es (report, r) = (report', r')"
  shows "r' = r @ map (installed_entry now elapsed) (filter (still_starting elapsed process_start) es) \<and>
    pending_total report' = pending_total report + length es \<and> pr_conflicts report' = pr_conflicts report \<and>
    pr_installed report' = pr_installed report + length (filter (still_starting elapsed process_start) es)"
  using assms
proof (induction es arbitrary: report r)
  case (Cons e es)
  obtain report1 r1 where step: "install_pending_entry now elapsed process_start e (report, r) = (report1, r1)" by fastforce
  have "wp_pid e \<notin> fst ` set r" "wp_name e \<notin> (ps_name \<circ> snd) ` set r" using Cons.prems(2,3) by auto
  note one = install_one [OF _ this _ Cons.prems(5) step]
  have s1: "r1 = (if still_starting elapsed process_start e then r @ [installed_entry now elapsed e] else r)"
    "pending_total report1 = pending_total report + 1" "pr_conflicts report1 = pr_conflicts report"
    "pr_installed report1 = pr_installed report + (if still_starting elapsed process_start e then 1 else 0)"
    using one Cons.prems(1,4) by auto
  have "distinct (map fst r1 @ map wp_pid es)" "distinct (map (ps_name \<circ> snd) r1 @ map wp_name es)" "length r1 + length es \<le> MAX_PENDING_SCRATCHPADS"
    using Cons.prems(2,3,4) by (auto simp: s1(1) installed_entry_def comp_def)
  from Cons.IH [OF _ this Cons.prems(5), of report1] Cons.prems(1,6) show ?case by (simp add: step s1)
qed simp

lemma snapshot_pending:
  assumes "e = wire_pending sn" "snapshot_of t (pid, p) = Some sn" "pending_valid e"
  shows "wp_pid e = pid" "wp_name e = ps_name p" "wp_start_time e = ps_start_time p" "t < ps_deadline p"
    "wp_remaining_ms e = max ((ps_deadline p - t) div 1000000) 1"
proof -
  show "wp_pid e = pid" "wp_name e = ps_name p" "wp_start_time e = ps_start_time p" "t < ps_deadline p"
    using assms(1,2) by (auto simp: snapshot_of_def wire_pending_def split: if_splits)
  have "remaining_limit st < 2 ^ 64 - 1" for st
    by (simp add: remaining_limit_def MAX_PENDING_REMAINING_MS_def MAX_UNVERIFIED_PENDING_REMAINING_MS_def PENDING_SCRATCHPAD_TTL_def
        UNVERIFIED_PENDING_SCRATCHPAD_TTL_def)
  then have "wp_remaining_ms e < 2 ^ 64 - 1" using assms(3) le_less_trans by (auto simp: pending_valid_def)
  then show "wp_remaining_ms e = max ((ps_deadline p - t) div 1000000) 1"
    using assms(1,2) by (auto simp: snapshot_of_def wire_pending_def min_def max_def split: if_splits)
qed

lemma set_snapshots: "set (snapshots t r) = {sn. \<exists>e \<in> set r. snapshot_of t e = Some sn}"
  by (force simp: snapshots_def List.map_filter_def)

lemma length_snapshots: "length (snapshots t r) = length (filter (\<lambda>(_, p). t < ps_deadline p) r)"
proof -
  have "length (List.map_filter (snapshot_of t) r) = length (filter (\<lambda>(_, p). t < ps_deadline p) r)"
    by (induction r) (auto simp: map_filter_simps snapshot_of_def)
  then show ?thesis by (simp add: snapshots_def)
qed

text \<open>
  C31. Launches that are pending at a restart are carried over without a conflict: the next registry
  holds exactly the launches that had not expired and whose process is still the same, under the
  same name and process, with the time they had left in whole milliseconds less the time the
  restart took; every other one is reported as expired or as a changed process.
\<close>

theorem pending_launches_survive_restart:
  assumes "capture_with_window_identity table s r t clock issuer identity_for = Inr h" "(now + PENDING_SCRATCHPAD_TTL) div 1000000000 < 2 ^ 63"
    "install_pending_handoff h now current_unix_ms process_start [] = (report, r')" "elapsed = current_unix_ms - unix_time_ms clock"
  shows "pr_conflicts report = 0 \<and> pr_installed report = length r' \<and>
    pr_installed report + pr_expired report + pr_identity_mismatches report = length (filter (\<lambda>(_, p). t < ps_deadline p) r) \<and>
    (\<forall>pid p'. (pid, p') \<in> set r' \<longleftrightarrow> (\<exists>p ms. (pid, p) \<in> set r \<and> t < ps_deadline p \<and> ms = max ((ps_deadline p - t) div 1000000) 1 \<and> elapsed < ms \<and>
       (ps_start_time p = None \<or> process_start pid = ps_start_time p) \<and> p' = p\<lparr>ps_deadline := now + (ms - elapsed) * 1000000\<rparr>))"
proof -
  note c = captured [OF assms(1)]
  have u: "unambiguous (rh_entries h) (rh_pending h)" using c(5) by (simp add: validate_def validate_wire_Inr)
  then have v: "list_all pending_valid (rh_pending h)" by (simp add: unambiguous_def)
  have e: "fold (install_pending_entry now elapsed process_start) (rh_pending h)
      (\<lparr>pr_installed = 0, pr_expired = 0, pr_identity_mismatches = 0, pr_conflicts = 0\<rparr>, []) = (report, r')"
    using assms(3) by (simp add: install_pending_handoff_def c(4) assms(4))
  have a: "r' = map (installed_entry now elapsed) (filter (still_starting elapsed process_start) (rh_pending h))"
    "pending_total report = length (rh_pending h)" "pr_conflicts report = 0" "pr_installed report = length r'"
    using install_all [OF v _ _ _ assms(2) e] u by (simp_all add: unambiguous_def pending_total_def)
  have "(pid, p') \<in> set r' \<longleftrightarrow> (\<exists>p ms. (pid, p) \<in> set r \<and> t < ps_deadline p \<and> ms = max ((ps_deadline p - t) div 1000000) 1 \<and> elapsed < ms \<and>
       (ps_start_time p = None \<or> process_start pid = ps_start_time p) \<and> p' = p\<lparr>ps_deadline := now + (ms - elapsed) * 1000000\<rparr>)" for pid p'
  proof
    assume "(pid, p') \<in> set r'"
    then obtain w where w: "w \<in> set (rh_pending h)" "still_starting elapsed process_start w" "(pid, p') = installed_entry now elapsed w" by (auto simp: a(1))
    then obtain sn q p where sn: "w = wire_pending sn" "(q, p) \<in> set r" "snapshot_of t (q, p) = Some sn" by (auto simp: c(2) set_snapshots)
    have "pending_valid w" using v w(1) by (simp add: list_all_iff)
    note f = snapshot_pending [OF sn(1,3) this]
    show "\<exists>p ms. (pid, p) \<in> set r \<and> t < ps_deadline p \<and> ms = max ((ps_deadline p - t) div 1000000) 1 \<and> elapsed < ms \<and>
       (ps_start_time p = None \<or> process_start pid = ps_start_time p) \<and> p' = p\<lparr>ps_deadline := now + (ms - elapsed) * 1000000\<rparr>"
      using w(2,3) sn(2) f by (intro exI [of _ p] exI [of _ "wp_remaining_ms w"]) (simp add: installed_entry_def still_starting_def)
  next
    assume "\<exists>p ms. (pid, p) \<in> set r \<and> t < ps_deadline p \<and> ms = max ((ps_deadline p - t) div 1000000) 1 \<and> elapsed < ms \<and>
       (ps_start_time p = None \<or> process_start pid = ps_start_time p) \<and> p' = p\<lparr>ps_deadline := now + (ms - elapsed) * 1000000\<rparr>"
    then obtain p where p: "(pid, p) \<in> set r" "t < ps_deadline p" "elapsed < max ((ps_deadline p - t) div 1000000) 1"
      "ps_start_time p = None \<or> process_start pid = ps_start_time p"
      "p' = p\<lparr>ps_deadline := now + (max ((ps_deadline p - t) div 1000000) 1 - elapsed) * 1000000\<rparr>" by blast
    then obtain sn where sn: "snapshot_of t (pid, p) = Some sn" by (simp add: snapshot_of_def)
    then have w: "wire_pending sn \<in> set (rh_pending h)" using p(1) by (auto simp: c(2) set_snapshots)
    then have "pending_valid (wire_pending sn)" using v by (simp add: list_all_iff)
    note f = snapshot_pending [OF refl sn this]
    have "still_starting elapsed process_start (wire_pending sn)" "installed_entry now elapsed (wire_pending sn) = (pid, p')"
      using p f by (simp_all add: still_starting_def installed_entry_def)
    then show "(pid, p') \<in> set r'" using w by (auto simp: a(1) image_iff intro!: bexI [of _ "wire_pending sn"])
  qed
  moreover have "length (rh_pending h) = length (filter (\<lambda>(_, p). t < ps_deadline p) r)" by (simp add: c(2) length_snapshots)
  ultimately show ?thesis using a(2-4) by (simp add: pending_total_def)
qed

text \<open>One scratchpad on window 31 of process 8, and one launch of process 9 that is still starting.\<close>

definition old_session :: wm_state where
  "old_session = wm_state_new\<lparr>st_clients := [(4, (wm_client_new 31)\<lparr>c_pid := Some 8\<rparr>)]\<rparr>"

definition new_session :: wm_state where
  "new_session = wm_state_new\<lparr>st_clients := [(1, (wm_client_new 77)\<lparr>c_pid := Some 8\<rparr>)], win_to_client := [77 \<mapsto> 1]\<rparr>"

definition starting_launch :: pending_registry where
  "starting_launch = [(9, \<lparr>ps_name = [98], ps_start_time = Some 6, ps_deadline = 5000000000\<rparr>)]"

definition carried :: restart_handoff where
  "carried = \<lparr>rh_issuer_pid = 2, rh_captured_unix_ms = 1000, rh_entries = [\<lparr>we_name = [97], we_identity = X11 31, we_pid = Some 8\<rparr>],
     rh_pending = [\<lparr>wp_name = [98], wp_pid = 9, wp_start_time = Some 6, wp_remaining_ms = 3000\<rparr>]\<rparr>"

lemmas handoff_limits = HANDOFF_VERSION_def MAX_HANDOFF_BYTES_def MAX_SCRATCHPADS_def MAX_PENDING_SCRATCHPADS_def MAX_SCRATCHPAD_NAME_BYTES_def
  MAX_PENDING_REMAINING_MS_def MAX_UNVERIFIED_PENDING_REMAINING_MS_def PENDING_SCRATCHPAD_TTL_def UNVERIFIED_PENDING_SCRATCHPAD_TTL_def

lemma carried_valid: "validate_wire (to_wire carried) = Inr ()"
  by (simp add: validate_wire_Inr unambiguous_def carried_def handoff_limits entry_valid_def pending_valid_def valid_scratchpad_name_def utf8_bytes_def
      is_control_def remaining_limit_def)

lemma carried_captured:
  "capture_with_window_identity [([97], 4)] old_session starting_launch 2000000000 (Some 1000) 2 (\<lambda>w. Some (X11 w)) = Inr carried"
proof -
  have "map wire_pending (snapshots 2000000000 starting_launch) = rh_pending carried"
    by (simp add: snapshots_def starting_launch_def carried_def map_filter_simps snapshot_of_def wire_pending_def)
  moreover have "collect_results (capture_entry (\<lambda>w. Some (X11 w)) old_session) (sort_key fst [([97], 4)]) = Inr (rh_entries carried)"
    by (simp add: capture_entry_def old_session_def slot_get_def carried_def wm_client_new_def)
  moreover have "carried = \<lparr>rh_issuer_pid = 2, rh_captured_unix_ms = unix_time_ms (Some 1000), rh_entries = rh_entries carried, rh_pending = rh_pending carried\<rparr>"
    by (simp add: carried_def unix_time_ms_def)
  ultimately show ?thesis using carried_valid by (simp add: capture_with_window_identity_def Let_def validate_def)
qed

theorem adoption_is_unambiguous_witness:
  "decode_for_pid (\<lambda>_. Some (to_wire carried)) [] 2 = Inr carried \<and>
   distinct (map fst (snd (adopt_handoff_with_window_identity new_session carried (\<lambda>_. Some 77) [([99], 5)])))"
proof
  show d: "decode_for_pid (\<lambda>_. Some (to_wire carried)) [] 2 = Inr carried"
    by (simp add: decode_for_pid_def carried_valid) (simp add: carried_def)
  show "distinct (map fst (snd (adopt_handoff_with_window_identity new_session carried (\<lambda>_. Some 77) [([99], 5)])))"
    using adoption_is_unambiguous [OF d _ _ prod.collapse [symmetric], of "[([99], 5)]" new_session "\<lambda>_. Some 77"] by simp
qed

theorem restart_keeps_scratchpads_witness:
  "adopt_handoff_with_window_identity new_session carried (\<lambda>_. Some 77) [] =
     (\<lparr>ad_adopted = 1, ad_disappeared = 0, ad_pid_mismatches = 0, ad_conflicts = 0\<rparr>, [([97], 1)])"
proof -
  have e: "handoff_encode (\<lambda>w. if w = to_wire carried then Some [] else None) carried = Inr []"
    by (simp add: handoff_encode_def validate_def carried_valid)
  have s: "\<exists>win c'. Some 77 = Some win \<and> win_to_client new_session win = Some ((\<lambda>_. 1) k) \<and> slot_get (st_clients new_session) ((\<lambda>_. 1) k) = Some c' \<and>
      c_win c' = win \<and> c_pid c' = c_pid c"
    if "(n, k) \<in> set [([97], 4)]" "slot_get (st_clients old_session) k = Some c" for n k c
    using that by (auto simp: new_session_def old_session_def slot_get_def wm_client_new_def)
  have j: "(if w = to_wire carried then Some [] else None) = Some p \<Longrightarrow> Some (to_wire carried) = Some w" for w and p :: string
    by (simp split: if_splits)
  have "decode_for_pid (\<lambda>_. Some (to_wire carried)) [] 2 = Inr carried \<and> adopt_handoff_with_window_identity new_session carried (\<lambda>_. Some 77) [] =
      (\<lparr>ad_adopted = length [([97 :: nat], 4 :: nat)], ad_disappeared = 0, ad_pid_mismatches = 0, ad_conflicts = 0\<rparr>, map (\<lambda>(n, k). (n, 1)) (sort_key fst [([97], 4 :: nat)]))"
    by (rule restart_keeps_scratchpads [where from_json = "\<lambda>_. Some (to_wire carried)" and moved = "\<lambda>_. 1", OF carried_captured _ e])
      (use j s in simp_all)
  then show ?thesis by simp
qed

theorem pending_launches_survive_restart_witness:
  "(9, \<lparr>ps_name = [98], ps_start_time = Some 6, ps_deadline = 7 + 2500 * 1000000\<rparr>) \<in>
     set (snd (install_pending_handoff carried 7 1500 (\<lambda>_. Some 6) []))"
proof -
  have b: "(7 + PENDING_SCRATCHPAD_TTL) div 1000000000 < 2 ^ 63" by (simp add: PENDING_SCRATCHPAD_TTL_def)
  have "1500 - unix_time_ms (Some 1000) = 500" by (simp add: unix_time_ms_def)
  then show ?thesis
    using pending_launches_survive_restart [OF carried_captured b prod.collapse [symmetric] refl, of 1500 "\<lambda>_. Some 6"]
    by (simp add: starting_launch_def)
qed

end
