(* ===== verification/Config_Reload.thy ===== *)
theory Config_Reload
  imports Prelude
begin

text \<open>
  \<open>ConfigReloadTracker\<close> of \<open>src/jwm/lifecycle.rs\<close> and the reload functions around it: which revision
  of the configuration file was seen, which was loaded, and which waits out its debounce. A revision
  is the modification time of the file, instants and durations are nanoseconds. The file itself, its
  parser and the clock are outside: a stat is an argument (\<open>None\<close> when it fails), and the result of
  a poll says whether the code goes on to reload. The theorems are about a file that the user edits
  and the window manager writes: no edit is swallowed, none is loaded twice, each is loaded in time.
\<close>

type_synonym revision = nat
type_synonym instant = nat

section \<open>The tracker\<close>

definition CONFIG_RELOAD_DEBOUNCE :: nat where "CONFIG_RELOAD_DEBOUNCE = 300 * 1000000"
definition CONFIG_RELOAD_POLL_INTERVAL :: nat where "CONFIG_RELOAD_POLL_INTERVAL = 1000 * 1000000"

record pending_reload =
  pr_revision :: revision
  pr_changed_at :: instant

record reload_tracker =
  last_observed :: "revision option"
  last_attempted :: "revision option"
  rt_pending :: "pending_reload option"
  last_poll_at :: "instant option"

definition tracker_new :: "revision option \<Rightarrow> reload_tracker" where
  "tracker_new initial_revision = \<lparr>last_observed = initial_revision, last_attempted = initial_revision,
     rt_pending = None, last_poll_at = None\<rparr>"

definition should_poll :: "instant \<Rightarrow> reload_tracker \<Rightarrow> bool \<times> reload_tracker" where
  "should_poll now t =
     (if (case last_poll_at t of None \<Rightarrow> False | Some last_poll \<Rightarrow> now - last_poll < CONFIG_RELOAD_POLL_INTERVAL)
      then (False, t) else (True, t\<lparr>last_poll_at := Some now\<rparr>))"

definition observe :: "revision \<Rightarrow> instant \<Rightarrow> reload_tracker \<Rightarrow> bool \<times> reload_tracker" where
  "observe revision now t =
     (if last_observed t = Some revision then (False, t)
      else let t1 = t\<lparr>last_observed := Some revision\<rparr>
           in if last_attempted t1 = Some revision then (False, t1\<lparr>rt_pending := None\<rparr>)
              else (True, t1\<lparr>rt_pending := Some \<lparr>pr_revision = revision, pr_changed_at = now\<rparr>\<rparr>))"

definition pending_is_due :: "instant \<Rightarrow> reload_tracker \<Rightarrow> bool" where
  "pending_is_due now t = (case rt_pending t of None \<Rightarrow> False
     | Some p \<Rightarrow> now - pr_changed_at p \<ge> CONFIG_RELOAD_DEBOUNCE)"

definition take_due_attempt :: "instant \<Rightarrow> reload_tracker \<Rightarrow> revision option \<times> reload_tracker" where
  "take_due_attempt now t = (case rt_pending t of None \<Rightarrow> (None, t)
     | Some p \<Rightarrow> if \<not> pending_is_due now t then (None, t)
         else (Some (pr_revision p), t\<lparr>rt_pending := None, last_attempted := Some (pr_revision p)\<rparr>))"

definition next_wakeup_in :: "instant \<Rightarrow> reload_tracker \<Rightarrow> nat" where
  "next_wakeup_in now t =
     (let poll_in = (case last_poll_at t of None \<Rightarrow> 0 | Some last_poll \<Rightarrow> CONFIG_RELOAD_POLL_INTERVAL - (now - last_poll));
          debounce_in = map_option (\<lambda>p. CONFIG_RELOAD_DEBOUNCE - (now - pr_changed_at p)) (rt_pending t)
      in case debounce_in of None \<Rightarrow> poll_in | Some d \<Rightarrow> min poll_in d)"

definition mark_attempted :: "revision \<Rightarrow> reload_tracker \<Rightarrow> reload_tracker" where
  "mark_attempted revision t = t\<lparr>last_observed := Some revision, last_attempted := Some revision, rt_pending := None\<rparr>"

definition has_pending :: "reload_tracker \<Rightarrow> bool" where
  "has_pending t \<longleftrightarrow> rt_pending t \<noteq> None"

definition settle_own_write :: "revision \<Rightarrow> reload_tracker \<Rightarrow> bool \<times> reload_tracker" where
  "settle_own_write revision t = (if has_pending t then (False, t) else (True, mark_attempted revision t))"

section \<open>Its callers\<close>

record reload_ctx =
  config_reload_tracker :: reload_tracker
  config_last_modified :: "revision option"
  config_reload_debounce :: "instant option"

definition observe_config_reload :: "revision option \<Rightarrow> instant \<Rightarrow> reload_ctx \<Rightarrow> reload_ctx" where
  "observe_config_reload stat now cx = (case stat of None \<Rightarrow> cx
     | Some revision \<Rightarrow>
         let (fresh, t) = observe revision now (config_reload_tracker cx); cx1 = cx\<lparr>config_reload_tracker := t\<rparr>
         in if fresh then cx1\<lparr>config_last_modified := Some revision, config_reload_debounce := Some now\<rparr> else cx1)"

text \<open>A poll stats the file at most once; the flag says that the configuration is reloaded now.\<close>

definition poll_config_reload :: "revision option \<Rightarrow> instant \<Rightarrow> reload_ctx \<Rightarrow> bool \<times> reload_ctx" where
  "poll_config_reload stat now cx =
     (let (polled_now, t) = should_poll now (config_reload_tracker cx);
          cx1 = cx\<lparr>config_reload_tracker := t\<rparr>;
          cx2 = (if polled_now then observe_config_reload stat now cx1 else cx1);
          cx3 = (if \<not> polled_now \<and> pending_is_due now (config_reload_tracker cx2) then observe_config_reload stat now cx2 else cx2);
          (attempt, t3) = take_due_attempt now (config_reload_tracker cx3);
          cx4 = cx3\<lparr>config_reload_tracker := t3\<rparr>
      in case attempt of None \<Rightarrow> (False, cx4) | Some _ \<Rightarrow> (True, cx4\<lparr>config_reload_debounce := None\<rparr>))"

definition config_reload_is_pending :: "reload_ctx \<Rightarrow> bool" where
  "config_reload_is_pending cx = has_pending (config_reload_tracker cx)"

definition note_config_written_by_us :: "revision \<Rightarrow> reload_ctx \<Rightarrow> reload_ctx" where
  "note_config_written_by_us revision cx =
     (let (settled, t) = settle_own_write revision (config_reload_tracker cx); cx1 = cx\<lparr>config_reload_tracker := t\<rparr>
      in if settled then cx1\<lparr>config_last_modified := Some revision\<rparr> else cx1)"

text \<open>An explicit reload settles the revision on disk; it always goes on to reload.\<close>

definition do_config_reload :: "revision option \<Rightarrow> reload_ctx \<Rightarrow> reload_ctx" where
  "do_config_reload stat cx =
     (let cx1 = (case stat of None \<Rightarrow> cx
        | Some revision \<Rightarrow> cx\<lparr>config_reload_tracker := mark_attempted revision (config_reload_tracker cx),
                             config_last_modified := Some revision\<rparr>)
      in cx1\<lparr>config_reload_debounce := None\<rparr>)"

section \<open>The tracker's invariant\<close>

text \<open>
  Either nothing waits and the revision seen is the one attempted, or the revision seen waits and was
  not the last one attempted.
\<close>

definition wf_tracker :: "reload_tracker \<Rightarrow> bool" where
  "wf_tracker t = (case rt_pending t of None \<Rightarrow> last_observed t = last_attempted t
     | Some p \<Rightarrow> last_observed t = Some (pr_revision p) \<and> last_attempted t \<noteq> Some (pr_revision p))"

lemma tracker_new_wf: "wf_tracker (tracker_new r)"
  by (simp add: wf_tracker_def tracker_new_def)

lemma should_poll_wf: "wf_tracker t \<Longrightarrow> wf_tracker (snd (should_poll now t))"
  by (auto simp: wf_tracker_def should_poll_def split: option.splits)

lemma observe_wf: "wf_tracker t \<Longrightarrow> wf_tracker (snd (observe r now t))"
  by (auto simp: wf_tracker_def observe_def Let_def split: option.splits)

lemma take_due_wf: "wf_tracker t \<Longrightarrow> wf_tracker (snd (take_due_attempt now t))"
  by (auto simp: wf_tracker_def take_due_attempt_def split: option.splits)

lemma mark_attempted_wf: "wf_tracker (mark_attempted r t)"
  by (simp add: wf_tracker_def mark_attempted_def)

lemma settle_wf: "wf_tracker t \<Longrightarrow> wf_tracker (snd (settle_own_write r t))"
  by (simp add: settle_own_write_def mark_attempted_wf)

lemma observe_seen: "last_observed (snd (observe r now t)) = Some r"
  by (simp add: observe_def Let_def)

lemmas tracker_wf = tracker_new_wf should_poll_wf observe_wf take_due_wf mark_attempted_wf settle_wf

abbreviation tracker_after :: "revision option \<Rightarrow> instant \<Rightarrow> reload_ctx \<Rightarrow> reload_tracker" where
  "tracker_after stat now cx \<equiv> config_reload_tracker (observe_config_reload stat now cx)"

lemma tracker_after_observe:
  "tracker_after stat now cx = (case stat of None \<Rightarrow> config_reload_tracker cx
     | Some r \<Rightarrow> snd (observe r now (config_reload_tracker cx)))"
  by (auto simp: observe_config_reload_def Let_def split: option.splits prod.splits)

section \<open>A file under edit\<close>

text \<open>
  The world: the file's revision and how many edits of the user it holds, how many of them a load
  has seen, and the clock. Every write of the file gives it a later revision. The window manager's
  own writes keep the user's edits (they rewrite the file they read) and go through the code above:
  a settings write notes its revision, a layout save does so only when no edit is pending.
\<close>

record config_world =
  w_cx :: reload_ctx
  file_rev :: revision
  file_edits :: nat
  loaded_edits :: nat
  w_now :: instant

definition reload_now :: "config_world \<Rightarrow> config_world" where
  "reload_now w = w\<lparr>loaded_edits := file_edits w\<rparr>"

definition tick :: "bool \<Rightarrow> instant \<Rightarrow> config_world \<Rightarrow> config_world" where
  "tick stat_ok now w =
     (let (reload, cx) = poll_config_reload (if stat_ok then Some (file_rev w) else None) now (w_cx w);
          w1 = w\<lparr>w_cx := cx, w_now := now\<rparr>
      in if reload then reload_now w1 else w1)"

inductive config_step :: "config_world \<Rightarrow> config_world \<Rightarrow> bool" where
  user_edit: "r > file_rev w \<Longrightarrow> config_step w (w\<lparr>file_rev := r, file_edits := file_edits w + 1\<rparr>)"
| polled: "now \<ge> w_now w \<Longrightarrow> config_step w (tick stat_ok now w)"
| notified: "now \<ge> w_now w \<Longrightarrow> config_step w
     (w\<lparr>w_cx := observe_config_reload (if stat_ok then Some (file_rev w) else None) now (w_cx w), w_now := now\<rparr>)"
| settings_write: "now \<ge> w_now w \<Longrightarrow> r > file_rev w \<Longrightarrow> cx = observe_config_reload (Some (file_rev w)) now (w_cx w) \<Longrightarrow>
     config_step w (w\<lparr>w_cx := note_config_written_by_us r cx, file_rev := r, w_now := now\<rparr>)"
| layout_save: "now \<ge> w_now w \<Longrightarrow> r > file_rev w \<Longrightarrow> cx = observe_config_reload (Some (file_rev w)) now (w_cx w) \<Longrightarrow>
     config_step w (if config_reload_is_pending cx then w\<lparr>w_cx := cx, w_now := now\<rparr>
       else w\<lparr>w_cx := note_config_written_by_us r cx, file_rev := r, w_now := now\<rparr>)"
| explicit_reload: "config_step w (reload_now (w\<lparr>w_cx := do_config_reload (if stat_ok then Some (file_rev w) else None) (w_cx w)\<rparr>))"

text \<open>What holds of the tracker in every reachable world: \<open>seen\<close> says that every edit of the file was loaded.\<close>

definition ok_tracker :: "revision \<Rightarrow> instant \<Rightarrow> bool \<Rightarrow> reload_tracker \<Rightarrow> bool" where
  "ok_tracker rv now seen t \<longleftrightarrow> wf_tracker t \<and>
     (\<forall>r. last_observed t = Some r \<or> last_attempted t = Some r \<longrightarrow> r \<le> rv) \<and>
     (last_attempted t = Some rv \<longrightarrow> seen) \<and> (\<forall>p. rt_pending t = Some p \<longrightarrow> pr_changed_at p \<le> now)"

definition world_ok :: "config_world \<Rightarrow> bool" where
  "world_ok w \<longleftrightarrow> loaded_edits w \<le> file_edits w \<and>
     ok_tracker (file_rev w) (w_now w) (loaded_edits w = file_edits w) (config_reload_tracker (w_cx w))"

lemma ok_later: "ok_tracker rv now seen t \<Longrightarrow> now \<le> now' \<Longrightarrow> ok_tracker rv now' seen t"
  by (fastforce simp: ok_tracker_def)

lemma ok_observe: "ok_tracker rv now seen t \<Longrightarrow> ok_tracker rv now seen (snd (observe rv now t))"
  by (auto simp: ok_tracker_def observe_wf) (auto simp: observe_def Let_def split: if_splits)

lemma ok_observe_config: "ok_tracker rv now seen (config_reload_tracker cx) \<Longrightarrow>
    ok_tracker rv now seen (tracker_after (if b then Some rv else None) now cx)"
  by (simp add: tracker_after_observe ok_observe)

lemma ok_should_poll: "ok_tracker rv now seen t \<Longrightarrow> ok_tracker rv now seen (snd (should_poll now t))"
  by (auto simp: ok_tracker_def should_poll_wf) (auto simp: should_poll_def split: if_splits)

lemma ok_take_due:
  "ok_tracker rv now seen t \<Longrightarrow> ok_tracker rv now (seen \<or> fst (take_due_attempt now t) \<noteq> None) (snd (take_due_attempt now t))"
  by (auto simp: ok_tracker_def take_due_wf) (auto simp: take_due_attempt_def wf_tracker_def split: if_splits option.splits)

lemma ok_new_revision: "ok_tracker rv now seen t \<Longrightarrow> r > rv \<Longrightarrow> ok_tracker r now seen' t"
  by (fastforce simp: ok_tracker_def)

lemma ok_mark_attempted: "ok_tracker rv now True (mark_attempted rv t)"
  by (simp add: ok_tracker_def mark_attempted_wf) (simp add: mark_attempted_def)

lemma poll_cases:
  obtains t where "config_reload_tracker (snd (poll_config_reload stat now cx)) = snd (take_due_attempt now t)"
    "fst (poll_config_reload stat now cx) \<longleftrightarrow> fst (take_due_attempt now t) \<noteq> None"
    "t = (let u = snd (should_poll now (config_reload_tracker cx)) in
       if fst (should_poll now (config_reload_tracker cx)) \<or> pending_is_due now u
       then case stat of None \<Rightarrow> u | Some r \<Rightarrow> snd (observe r now u) else u)"
proof -
  let ?u = "should_poll now (config_reload_tracker cx)"
  let ?t = "if fst ?u \<or> pending_is_due now (snd ?u) then case stat of None \<Rightarrow> snd ?u | Some r \<Rightarrow> snd (observe r now (snd ?u)) else snd ?u"
  have "config_reload_tracker (snd (poll_config_reload stat now cx)) = snd (take_due_attempt now ?t) \<and>
      (fst (poll_config_reload stat now cx) \<longleftrightarrow> fst (take_due_attempt now ?t) \<noteq> None)"
    by (auto simp: poll_config_reload_def Let_def tracker_after_observe split: prod.splits option.splits)
  then show ?thesis by (intro that [of ?t]) (simp_all add: Let_def)
qed

lemma tick_simps:
  "file_rev (tick b now w) = file_rev w" "file_edits (tick b now w) = file_edits w" "w_now (tick b now w) = now"
  "w_cx (tick b now w) = snd (poll_config_reload (if b then Some (file_rev w) else None) now (w_cx w))"
  "loaded_edits (tick b now w) = (if fst (poll_config_reload (if b then Some (file_rev w) else None) now (w_cx w)) then file_edits w else loaded_edits w)"
  by (auto simp: tick_def reload_now_def Let_def split: prod.splits)

lemma tick_ok: "world_ok w \<Longrightarrow> w_now w \<le> now \<Longrightarrow> world_ok (tick b now w)"
proof -
  assume w: "world_ok w" "w_now w \<le> now"
  let ?seen = "loaded_edits w = file_edits w" and ?stat = "if b then Some (file_rev w) else None"
  obtain t where t: "config_reload_tracker (snd (poll_config_reload ?stat now (w_cx w))) = snd (take_due_attempt now t)"
    "fst (poll_config_reload ?stat now (w_cx w)) \<longleftrightarrow> fst (take_due_attempt now t) \<noteq> None"
    "t = (let u = snd (should_poll now (config_reload_tracker (w_cx w))) in
       if fst (should_poll now (config_reload_tracker (w_cx w))) \<or> pending_is_due now u
       then case ?stat of None \<Rightarrow> u | Some r \<Rightarrow> snd (observe r now u) else u)"
    by (rule poll_cases)
  have "ok_tracker (file_rev w) now ?seen (config_reload_tracker (w_cx w))" using w ok_later by (auto simp: world_ok_def)
  then have "ok_tracker (file_rev w) now ?seen t" unfolding t(3) Let_def by (simp add: ok_should_poll ok_observe)
  from ok_take_due [OF this] w(1) show ?thesis unfolding world_ok_def tick_simps t(1,2) by (auto split: if_splits)
qed

lemma own_write_ok:
  assumes "ok_tracker rv now seen (config_reload_tracker cx)" "last_observed (config_reload_tracker cx) = Some rv" "r > rv"
  shows "ok_tracker r now seen (config_reload_tracker (note_config_written_by_us r cx))"
proof (cases "has_pending (config_reload_tracker cx)")
  case True
  then show ?thesis using ok_new_revision [OF assms(1,3)] by (simp add: note_config_written_by_us_def settle_own_write_def)
next
  case False
  then have "last_attempted (config_reload_tracker cx) = Some rv" using assms(1,2) by (simp add: ok_tracker_def wf_tracker_def has_pending_def)
  then have "seen" using assms(1) by (simp add: ok_tracker_def)
  with False show ?thesis
    by (simp add: note_config_written_by_us_def settle_own_write_def Let_def ok_mark_attempted)
qed

lemma config_step_ok: "config_step w w' \<Longrightarrow> world_ok w \<Longrightarrow> world_ok w'"
proof (induction rule: config_step.induct)
  case (user_edit r w)
  then show ?case by (auto simp: world_ok_def intro: ok_new_revision)
next
  case (polled now w b)
  then show ?case by (simp add: tick_ok)
next
  case (notified now w b)
  then show ?case using ok_observe_config [OF ok_later, of "file_rev w" "w_now w" _ _ now b] by (auto simp: world_ok_def)
next
  case (settings_write now w r cx)
  then have "ok_tracker (file_rev w) now (loaded_edits w = file_edits w) (config_reload_tracker cx)"
    using ok_observe_config [OF ok_later, of "file_rev w" "w_now w" _ _ now True] by (auto simp: world_ok_def)
  with own_write_ok [OF this _ settings_write(2)] settings_write show ?case
    by (simp add: world_ok_def tracker_after_observe observe_seen)
next
  case (layout_save now w r cx)
  then have "ok_tracker (file_rev w) now (loaded_edits w = file_edits w) (config_reload_tracker cx)"
    using ok_observe_config [OF ok_later, of "file_rev w" "w_now w" _ _ now True] by (auto simp: world_ok_def)
  with own_write_ok [OF this _ layout_save(2)] layout_save show ?case
    by (simp add: world_ok_def tracker_after_observe observe_seen)
next
  case (explicit_reload w b)
  then show ?case
    by (auto simp: world_ok_def reload_now_def do_config_reload_def ok_mark_attempted) (simp add: ok_tracker_def)
qed

definition world_new :: "revision \<Rightarrow> nat \<Rightarrow> instant \<Rightarrow> config_world" where
  "world_new rv edits now = \<lparr>w_cx = \<lparr>config_reload_tracker = tracker_new (Some rv), config_last_modified = Some rv,
     config_reload_debounce = None\<rparr>, file_rev = rv, file_edits = edits, loaded_edits = edits, w_now = now\<rparr>"

lemma world_new_ok: "world_ok (world_new rv edits now)"
  by (simp add: world_ok_def world_new_def ok_tracker_def tracker_new_wf) (simp add: tracker_new_def)

lemma reachable_ok: "config_step\<^sup>*\<^sup>* (world_new rv edits now) w \<Longrightarrow> world_ok w"
  by (induction rule: rtranclp_induct) (auto simp: world_new_ok config_step_ok)

lemma observed_after_poll:
  assumes "world_ok w" "now \<ge> w_now w" "fst (should_poll now (config_reload_tracker (w_cx w))) \<or> pending_is_due now (config_reload_tracker (w_cx w))"
  shows "\<exists>t. ok_tracker (file_rev w) now (loaded_edits w = file_edits w) t \<and> last_observed t = Some (file_rev w) \<and>
    config_reload_tracker (w_cx (tick True now w)) = snd (take_due_attempt now t) \<and>
    (loaded_edits (tick True now w) = (if fst (take_due_attempt now t) \<noteq> None then file_edits w else loaded_edits w))"
proof -
  let ?t0 = "config_reload_tracker (w_cx w)"
  obtain t where t: "config_reload_tracker (snd (poll_config_reload (Some (file_rev w)) now (w_cx w))) = snd (take_due_attempt now t)"
    "fst (poll_config_reload (Some (file_rev w)) now (w_cx w)) \<longleftrightarrow> fst (take_due_attempt now t) \<noteq> None"
    "t = (let u = snd (should_poll now ?t0) in if fst (should_poll now ?t0) \<or> pending_is_due now u
       then case Some (file_rev w) of None \<Rightarrow> u | Some r \<Rightarrow> snd (observe r now u) else u)"
    by (rule poll_cases)
  have "pending_is_due now (snd (should_poll now ?t0)) = pending_is_due now ?t0"
    by (simp add: should_poll_def pending_is_due_def)
  with t(3) assms(3) have t': "t = snd (observe (file_rev w) now (snd (should_poll now ?t0)))" by (auto simp: Let_def)
  have "ok_tracker (file_rev w) now (loaded_edits w = file_edits w) t"
    unfolding t' using assms(1,2) ok_later by (auto simp: world_ok_def intro!: ok_observe ok_should_poll)
  moreover have "last_observed t = Some (file_rev w)" unfolding t' by (rule observe_seen)
  ultimately show ?thesis using t(1,2) by (intro exI [of _ t]) (simp add: tick_simps)
qed

lemma due_poll_loads:
  assumes "last_observed (config_reload_tracker (w_cx w)) = Some (file_rev w)" "pending_is_due now (config_reload_tracker (w_cx w))"
  shows "loaded_edits (tick True now w) = file_edits w"
proof -
  let ?t = "config_reload_tracker (w_cx w)" and ?u = "snd (should_poll now (config_reload_tracker (w_cx w)))"
  have u: "rt_pending ?u = rt_pending ?t" "last_observed ?u = Some (file_rev w)" using assms(1) by (simp_all add: should_poll_def)
  obtain v where v: "fst (poll_config_reload (Some (file_rev w)) now (w_cx w)) \<longleftrightarrow> fst (take_due_attempt now v) \<noteq> None"
    "v = (let u = ?u in if fst (should_poll now ?t) \<or> pending_is_due now u
       then case Some (file_rev w) of None \<Rightarrow> u | Some r \<Rightarrow> snd (observe r now u) else u)" by (rule poll_cases)
  have "v = ?u" using v(2) u(2) by (simp add: Let_def observe_def)
  with u(1) assms(2) have "fst (take_due_attempt now v) \<noteq> None"
    by (auto simp: take_due_attempt_def pending_is_due_def split: option.splits)
  with v(1) show ?thesis by (simp add: tick_simps)
qed

text \<open>
  C26. No edit of the configuration is lost or ignored for long. In every world that edits, polls,
  notifications, own writes and explicit reloads lead to, a poll that stats the file followed, at
  least the debounce later, by another poll has every edit loaded, if the file is left alone between
  the two: own writes never hide an edit.
\<close>

theorem config_edits_are_loaded:
  assumes "config_step\<^sup>*\<^sup>* (world_new rv edits start) w" "now1 \<ge> w_now w"
    "fst (should_poll now1 (config_reload_tracker (w_cx w)))" "now2 \<ge> now1 + CONFIG_RELOAD_DEBOUNCE"
  shows "loaded_edits (tick True now2 (tick True now1 w)) = file_edits w"
proof -
  have ok: "world_ok w" using assms(1) by (rule reachable_ok)
  obtain t where t: "ok_tracker (file_rev w) now1 (loaded_edits w = file_edits w) t" "last_observed t = Some (file_rev w)"
    "config_reload_tracker (w_cx (tick True now1 w)) = snd (take_due_attempt now1 t)"
    "loaded_edits (tick True now1 w) = (if fst (take_due_attempt now1 t) \<noteq> None then file_edits w else loaded_edits w)"
    using observed_after_poll [OF ok assms(2)] assms(3) by blast
  let ?w1 = "tick True now1 w"
  have fin: "loaded_edits (tick True now2 ?w1) = file_edits w" if "loaded_edits ?w1 = file_edits w"
    using that by (simp add: tick_simps)
  show ?thesis
  proof (cases "rt_pending t")
    case None
    then have "last_attempted t = Some (file_rev w)" using t(1,2) by (simp add: ok_tracker_def wf_tracker_def)
    then have "loaded_edits w = file_edits w" using t(1) by (simp add: ok_tracker_def)
    then show ?thesis using fin t(4) by auto
  next
    case (Some p)
    show ?thesis
    proof (cases "pending_is_due now1 t")
      case True
      then show ?thesis using fin t(4) Some by (simp add: take_due_attempt_def)
    next
      case False
      then have e: "config_reload_tracker (w_cx ?w1) = t" using t(3) Some by (simp add: take_due_attempt_def)
      have "pr_changed_at p \<le> now1" using t(1) Some by (simp add: ok_tracker_def)
      then have "pending_is_due now2 t" using Some assms(4) by (simp add: pending_is_due_def)
      with e t(2) show ?thesis using due_poll_loads [of ?w1 now2] by (simp add: tick_simps)
    qed
  qed
qed

theorem config_edits_are_loaded_witness:
  "loaded_edits (tick True (1000 * 1000000 + 300 * 1000000) (tick True (1000 * 1000000)
     ((world_new 5 2 0)\<lparr>file_rev := 9, file_edits := 3\<rparr>))) = 3"
proof -
  let ?w = "(world_new 5 2 0)\<lparr>file_rev := 9, file_edits := 3\<rparr>"
  have "config_step (world_new 5 2 0) ?w"
    using user_edit [of "world_new 5 2 0" 9] by (simp add: world_new_def numeral_3_eq_3)
  then have "config_step\<^sup>*\<^sup>* (world_new 5 2 0) ?w" by blast
  moreover have "w_now ?w \<le> 1000 * 1000000" "fst (should_poll (1000 * 1000000) (config_reload_tracker (w_cx ?w)))"
    by (simp_all add: world_new_def tracker_new_def should_poll_def)
  ultimately show ?thesis using config_edits_are_loaded [of 5 2 0 ?w "1000 * 1000000" "1000 * 1000000 + 300 * 1000000"]
    by (simp add: CONFIG_RELOAD_DEBOUNCE_def)
qed

text \<open>
  A revision is not loaded twice in a row, however often it is polled: a poll that reloads
  attempts a revision other than the last one attempted, and polling again without a change of the
  file does not reload. So a malformed file is reported once.
\<close>

theorem revision_attempted_once:
  assumes "config_step\<^sup>*\<^sup>* (world_new rv edits start) w" "poll_config_reload (Some (file_rev w)) now (w_cx w) = (True, cx)"
  shows "last_attempted (config_reload_tracker cx) = Some (file_rev w) \<and>
    last_attempted (config_reload_tracker (w_cx w)) \<noteq> Some (file_rev w) \<and>
    fst (poll_config_reload (Some (file_rev w)) now' cx) = False"
proof -
  let ?t0 = "config_reload_tracker (w_cx w)" and ?r = "file_rev w"
  have ok: "wf_tracker ?t0" using reachable_ok [OF assms(1)] by (simp add: world_ok_def ok_tracker_def)
  obtain t where "config_reload_tracker (snd (poll_config_reload (Some ?r) now (w_cx w))) = snd (take_due_attempt now t)"
    "fst (poll_config_reload (Some ?r) now (w_cx w)) \<longleftrightarrow> fst (take_due_attempt now t) \<noteq> None"
    "t = (let u = snd (should_poll now ?t0) in if fst (should_poll now ?t0) \<or> pending_is_due now u
       then case Some ?r of None \<Rightarrow> u | Some r \<Rightarrow> snd (observe r now u) else u)" by (rule poll_cases)
  note t = this(1,2) [unfolded assms(2) fst_conv snd_conv, simplified] this(3)
  have a: "last_attempted t = last_attempted ?t0" unfolding t(3) by (simp add: Let_def should_poll_def observe_def)
  have wt: "wf_tracker t" unfolding t(3) using ok by (simp add: Let_def should_poll_wf observe_wf)
  obtain p where p: "rt_pending t = Some p" "pending_is_due now t" "config_reload_tracker cx = t\<lparr>rt_pending := None, last_attempted := Some (pr_revision p)\<rparr>"
    using t(1,2) by (auto simp: take_due_attempt_def split: option.splits if_splits)
  have "last_observed t = Some ?r"
  proof -
    have "pending_is_due now (snd (should_poll now ?t0)) \<or> fst (should_poll now ?t0)"
      using p(2) t(3) by (auto simp: Let_def split: if_splits)
    then show ?thesis using t(3) by (auto simp: Let_def observe_seen)
  qed
  with wt p(1) have r: "pr_revision p = ?r" "last_attempted t \<noteq> Some ?r" by (auto simp: wf_tracker_def)
  have obs: "last_observed (config_reload_tracker cx) = Some ?r" "rt_pending (config_reload_tracker cx) = None"
    using p(3) \<open>last_observed t = Some ?r\<close> by simp_all
  obtain v where v: "fst (poll_config_reload (Some ?r) now' cx) \<longleftrightarrow> fst (take_due_attempt now' v) \<noteq> None"
    "v = (let u = snd (should_poll now' (config_reload_tracker cx)) in if fst (should_poll now' (config_reload_tracker cx)) \<or> pending_is_due now' u
       then case Some ?r of None \<Rightarrow> u | Some r \<Rightarrow> snd (observe r now' u) else u)" by (rule poll_cases)
  have "rt_pending v = None" unfolding v(2) using obs by (auto simp: Let_def should_poll_def observe_def)
  then have "fst (poll_config_reload (Some ?r) now' cx) = False" using v(1) by (simp add: take_due_attempt_def)
  with p(3) r a show ?thesis by simp
qed

theorem revision_attempted_once_witness:
  "\<exists>cx. poll_config_reload (Some 9) (301 * 1000000) (observe_config_reload (Some 9) 0 (w_cx (world_new 5 2 0))) = (True, cx) \<and>
     fst (poll_config_reload (Some 9) (9000 * 1000000) cx) = False"
proof -
  let ?w = "(world_new 5 2 0)\<lparr>file_rev := 9, file_edits := 3\<rparr>"
  let ?v = "?w\<lparr>w_cx := observe_config_reload (Some 9) 0 (w_cx ?w), w_now := 0\<rparr>"
  have "config_step (world_new 5 2 0) ?w" using user_edit [of "world_new 5 2 0" 9] by (simp add: world_new_def numeral_3_eq_3)
  moreover have "config_step ?w ?v" using notified [of ?w 0 True] by (simp add: world_new_def)
  ultimately have v: "config_step\<^sup>*\<^sup>* (world_new 5 2 0) ?v" by (meson r_into_rtranclp rtranclp.rtrancl_into_rtrancl)
  have "fst (poll_config_reload (Some 9) (301 * 1000000) (w_cx ?v))" 
    by (simp add: world_new_def tracker_new_def poll_config_reload_def observe_config_reload_def observe_def should_poll_def
        take_due_attempt_def pending_is_due_def CONFIG_RELOAD_DEBOUNCE_def)
  then obtain cx where "poll_config_reload (Some 9) (301 * 1000000) (w_cx ?v) = (True, cx)" by (metis prod.collapse)
  with revision_attempted_once [OF v, of "301 * 1000000" cx "9000 * 1000000"] show ?thesis by (auto simp: world_new_def)
qed

text \<open>The wakeup the code asks for is the moment a poll or a pending reload falls due.\<close>

lemma wait_reaches: "(l::nat) \<le> now \<Longrightarrow> p \<le> now + (p - (now - l)) - l"
  by arith

lemma next_wakeup_reaches_work:
  assumes "\<And>l. last_poll_at t = Some l \<Longrightarrow> l \<le> now" "\<And>p. rt_pending t = Some p \<Longrightarrow> pr_changed_at p \<le> now"
  shows "fst (should_poll (now + next_wakeup_in now t) t) \<or> pending_is_due (now + next_wakeup_in now t) t"
proof (cases "last_poll_at t")
  case None
  then show ?thesis by (simp add: should_poll_def)
next
  case (Some l)
  let ?poll = "CONFIG_RELOAD_POLL_INTERVAL - (now - l)"
  have l: "CONFIG_RELOAD_POLL_INTERVAL \<le> now + ?poll - l" by (rule wait_reaches) (rule assms(1) [OF Some])
  show ?thesis
  proof (cases "next_wakeup_in now t = ?poll")
    case True
    then show ?thesis using l Some by (simp add: should_poll_def)
  next
    case False
    then obtain p where p: "rt_pending t = Some p" "next_wakeup_in now t = CONFIG_RELOAD_DEBOUNCE - (now - pr_changed_at p)"
      using Some by (auto simp: next_wakeup_in_def Let_def min_def split: option.splits if_splits)
    then show ?thesis using wait_reaches [OF assms(2) [OF p(1)]] by (simp add: pending_is_due_def)
  qed
qed

end
