(* ===== verification/Layout_Persist.thy ===== *)
theory Layout_Persist
  imports Layout_Commands Config_Reload "HOL-Library.Product_Lexorder"
begin

text \<open>
  \<open>src/jwm/layout/persist.rs\<close> with the lookups of \<open>src/config.rs\<close> it uses: the per-tag layouts as
  entries of the configuration, their merge with the entries of the file, the debounced save with
  its failures, and the restore of a new monitor. The text edit of the file is an argument, as are
  the identities of the outputs. Saving and restoring is a round trip.
\<close>

section \<open>Entries\<close>

record layout_tag_config =
  lt_tag :: nat
  lt_monitor :: int
  lt_connector :: "string option"
  lt_layout :: string
  lt_alt :: string
  lt_n_master :: "nat option"
  lt_m_fact :: "flt option"
  lt_gap :: "int option"
  lt_show_bar :: "bool option"

text \<open>The fields of the configuration that persistence reads.\<close>

record layout_config =
  cfg_layout_tags :: "layout_tag_config list"
  cfg_tags_length :: nat
  cfg_persist_tags :: bool
  cfg_defaults :: layout_defaults

definition tags_length :: "layout_config \<Rightarrow> nat" where
  "tags_length cfg = max 1 (min (cfg_tags_length cfg) 31)"

definition named :: "string option \<Rightarrow> string option" where
  "named connector = (case connector of Some c \<Rightarrow> if c = [] then None else Some c | None \<Rightarrow> None)"

definition layout_for_tag_on_output :: "layout_config \<Rightarrow> int \<Rightarrow> nat \<Rightarrow> string option \<Rightarrow> layout_tag_config option" where
  "layout_for_tag_on_output cfg monitor tag connector =
     (let entries = filter (\<lambda>e. lt_tag e = tag) (cfg_layout_tags cfg);
          key = named connector;
          by_number = (case find (\<lambda>e. lt_monitor e = monitor \<and>
              (case (lt_connector e, key) of (Some saved, Some live) \<Rightarrow> saved = live | _ \<Rightarrow> True)) entries of
            Some e \<Rightarrow> Some e | None \<Rightarrow> find (\<lambda>e. lt_monitor e < 0) entries)
      in case key of None \<Rightarrow> by_number
         | Some k \<Rightarrow> (case find (\<lambda>e. lt_connector e = Some k) entries of Some e \<Rightarrow> Some e | None \<Rightarrow> by_number))"

definition layout_for_tag :: "layout_config \<Rightarrow> int \<Rightarrow> nat \<Rightarrow> layout_tag_config option" where
  "layout_for_tag cfg monitor tag = layout_for_tag_on_output cfg monitor tag None"

section \<open>Restore\<close>

definition MIN_M_FACT :: flt where "MIN_M_FACT = rnd32 (5 / 100)"
definition MAX_M_FACT :: flt where "MAX_M_FACT = rnd32 (95 / 100)"

text \<open>One turn of the loop of \<open>seed_pertag_from_config\<close>; the vectors of a well-formed block have one length.\<close>

definition seed_slot :: "nat \<Rightarrow> layout_tag_config \<Rightarrow> pertag \<Rightarrow> pertag" where
  "seed_slot tag e p =
     (if length (lts p) \<le> tag then p
      else let p1 = (case layout_from_name (lt_layout e) of Some l \<Rightarrow> p\<lparr>lts := (lts p)[tag := l]\<rparr> | None \<Rightarrow> p);
               p2 = (case layout_from_name (lt_alt e) of Some l \<Rightarrow> p1\<lparr>prev_lts := (prev_lts p1)[tag := l]\<rparr> | None \<Rightarrow> p1);
               p3 = (case lt_n_master e of Some n \<Rightarrow> p2\<lparr>n_masters := (n_masters p2)[tag := min n MAX_N_MASTER]\<rparr> | None \<Rightarrow> p2);
               p4 = (case lt_m_fact e of
                       Some f \<Rightarrow> if is_finite f then p3\<lparr>m_facts := (m_facts p3)[tag := fclamp f MIN_M_FACT MAX_M_FACT]\<rparr> else p3
                     | None \<Rightarrow> p3);
               p5 = (case lt_gap e of Some g \<Rightarrow> p4\<lparr>gaps := (gaps p4)[tag := clamp g 0 MAX_LAYOUT_GAP_PX]\<rparr> | None \<Rightarrow> p4)
           in case lt_show_bar e of Some b \<Rightarrow> p5\<lparr>show_bars := (show_bars p5)[tag := b]\<rparr> | None \<Rightarrow> p5)"

definition seed_pertag_from_config :: "int \<Rightarrow> layout_config \<Rightarrow> string option \<Rightarrow> wm_monitor \<Rightarrow> wm_monitor" where
  "seed_pertag_from_config mon_index cfg connector m =
     (case mon_pertag m of None \<Rightarrow> m
      | Some p \<Rightarrow>
          if cfg_layout_tags cfg = [] then m
          else reload_current_tag_context (m\<lparr>mon_pertag := Some (fold (\<lambda>tag p.
            case layout_for_tag_on_output cfg mon_index tag connector of None \<Rightarrow> p | Some e \<Rightarrow> seed_slot tag e p)
            [0..<tags_length cfg + 1] p)\<rparr>))"

section \<open>Save\<close>

definition unless_default :: "('a \<Rightarrow> 'a \<Rightarrow> bool) \<Rightarrow> 'a \<Rightarrow> 'a option \<Rightarrow> 'a option" where
  "unless_default eq d v = (case v of Some x \<Rightarrow> if eq x d then None else Some x | None \<Rightarrow> None)"

definition tag_entry :: "layout_config \<Rightarrow> string option \<Rightarrow> wm_monitor \<Rightarrow> pertag \<Rightarrow> nat \<Rightarrow> layout_tag_config list" where
  "tag_entry cfg connector m p tag = (case vec_get (lts p) tag of None \<Rightarrow> []
     | Some l \<Rightarrow> [\<lparr>lt_tag = tag, lt_monitor = mon_num m, lt_connector = connector, lt_layout = layout_name l,
         lt_alt = or_else (map_option layout_name (vec_get (prev_lts p) tag)) [],
         lt_n_master = unless_default (=) (ld_n_master (cfg_defaults cfg)) (vec_get (n_masters p) tag),
         lt_m_fact = unless_default flt_eq (ld_m_fact (cfg_defaults cfg)) (vec_get (m_facts p) tag),
         lt_gap = unless_default (=) (ld_gap (cfg_defaults cfg)) (vec_get (gaps p) tag),
         lt_show_bar = vec_get (show_bars p) tag\<rparr>])"

definition monitor_entries :: "layout_config \<Rightarrow> (monitor_key \<Rightarrow> string option) \<Rightarrow> wm_state \<Rightarrow> monitor_key \<Rightarrow> layout_tag_config list" where
  "monitor_entries cfg output_key s mon = (case slot_get (st_monitors s) mon of None \<Rightarrow> []
     | Some m \<Rightarrow> (case mon_pertag m of None \<Rightarrow> []
        | Some p \<Rightarrow> concat (map (tag_entry cfg (output_key mon) m p) [0..<tags_length cfg + 1])))"

definition layout_tag_entries :: "layout_config \<Rightarrow> (monitor_key \<Rightarrow> string option) \<Rightarrow> wm_state \<Rightarrow> layout_tag_config list" where
  "layout_tag_entries cfg output_key s = concat (map (monitor_entries cfg output_key s) (monitor_order s))"

definition entry_is_offline :: "layout_tag_config list \<Rightarrow> layout_tag_config \<Rightarrow> bool" where
  "entry_is_offline live e =
     (if lt_monitor e < 0 then True
      else case named (lt_connector e) of
        Some c \<Rightarrow> Some c \<notin> set (map (\<lambda>l. named (lt_connector l)) live)
      | None \<Rightarrow> lt_monitor e \<notin> set (map lt_monitor live))"

definition merge_layout_tag_entries :: "layout_tag_config list \<Rightarrow> layout_tag_config list \<Rightarrow> layout_tag_config list" where
  "merge_layout_tag_entries existing live =
     sort_key (\<lambda>e. (lt_monitor e, lt_tag e)) (filter (entry_is_offline live) existing @ live)"

section \<open>The pending write\<close>

definition PERSIST_DEBOUNCE :: nat where "PERSIST_DEBOUNCE = 2 * 1000000000"

text \<open>The errors of a write, with the kinds of I/O error the code tells apart.\<close>

datatype io_error_kind = Read_Only_Filesystem | Permission_Denied | Invalid_Data | Other_Kind
datatype config_error = Config_Io io_error_kind | Config_Parse | Config_Serialize | Config_Validation
datatype layout_persist_failure = Retry | Unwritable

definition classify_layout_persist_failure :: "config_error \<Rightarrow> layout_persist_failure" where
  "classify_layout_persist_failure err = (case err of
     Config_Io kind \<Rightarrow> if kind \<in> {Read_Only_Filesystem, Permission_Denied, Invalid_Data} then Unwritable else Retry
   | _ \<Rightarrow> Retry)"

definition settle_layout_persist_dirty :: "instant \<Rightarrow> bool \<Rightarrow> instant option" where
  "settle_layout_persist_dirty retry_at succeeded = (if succeeded then None else Some retry_at)"

definition settle_failed_layout_persist :: "instant \<Rightarrow> config_error \<Rightarrow> layout_persist_failure \<times> instant option" where
  "settle_failed_layout_persist retry_at err =
     (let failure = classify_layout_persist_failure err
      in (failure, case failure of Retry \<Rightarrow> settle_layout_persist_dirty retry_at False | Unwritable \<Rightarrow> None))"

definition settle_layout_persist_exit_flush :: "instant option \<Rightarrow> instant \<Rightarrow> config_error option \<Rightarrow> config_error option \<times> instant option" where
  "settle_layout_persist_exit_flush dirty retry_at result = (case result of None \<Rightarrow> (None, dirty)
     | Some err \<Rightarrow> (case settle_failed_layout_persist retry_at err of
          (Retry, dirty') \<Rightarrow> (Some err, dirty') | (Unwritable, dirty') \<Rightarrow> (None, dirty')))"

definition pending_layout_persist_wakeup :: "instant option \<Rightarrow> bool \<Rightarrow> instant \<Rightarrow> nat option" where
  "pending_layout_persist_wakeup dirty config_reload_pending now = (case dirty of None \<Rightarrow> None
     | Some changed_at \<Rightarrow> if config_reload_pending then None else Some (PERSIST_DEBOUNCE - (now - changed_at)))"

record persist_ctx =
  pc_state :: wm_state
  pc_config :: layout_config
  pc_reload :: reload_ctx
  pc_dirty :: "instant option"

definition layout_persist_next_wakeup :: "instant \<Rightarrow> persist_ctx \<Rightarrow> nat option" where
  "layout_persist_next_wakeup now cx = pending_layout_persist_wakeup (pc_dirty cx) (config_reload_is_pending (pc_reload cx)) now"

definition saved_entries :: "(monitor_key \<Rightarrow> string option) \<Rightarrow> persist_ctx \<Rightarrow> layout_tag_config list" where
  "saved_entries output_key cx =
     merge_layout_tag_entries (cfg_layout_tags (pc_config cx)) (layout_tag_entries (pc_config cx) output_key (pc_state cx))"

text \<open>\<open>write_tags\<close> is \<open>Config::persist_layout_tags\<close>: the new revision of the file, or the error.\<close>

definition save_layout_tags :: "(monitor_key \<Rightarrow> string option) \<Rightarrow> (layout_tag_config list \<Rightarrow> config_error + revision) \<Rightarrow>
    instant \<Rightarrow> persist_ctx \<Rightarrow> config_error option \<times> persist_ctx" where
  "save_layout_tags output_key write_tags now cx =
     (let entries = saved_entries output_key cx
      in case write_tags entries of Inl err \<Rightarrow> (Some err, cx)
         | Inr revision \<Rightarrow> (None, cx\<lparr>pc_config := (pc_config cx)\<lparr>cfg_layout_tags := entries\<rparr>,
              pc_reload := note_config_written_by_us revision (pc_reload cx),
              pc_dirty := settle_layout_persist_dirty now True\<rparr>))"

definition flush_layout_persistence :: "(monitor_key \<Rightarrow> string option) \<Rightarrow> (layout_tag_config list \<Rightarrow> config_error + revision) \<Rightarrow>
    revision option \<Rightarrow> instant \<Rightarrow> persist_ctx \<Rightarrow> persist_ctx" where
  "flush_layout_persistence output_key write_tags stat now cx = (case pc_dirty cx of None \<Rightarrow> cx
     | Some changed_at \<Rightarrow>
         if now - changed_at < PERSIST_DEBOUNCE then cx
         else if \<not> cfg_persist_tags (pc_config cx) then cx\<lparr>pc_dirty := None\<rparr>
         else let cx1 = cx\<lparr>pc_reload := observe_config_reload stat now (pc_reload cx)\<rparr>
              in if config_reload_is_pending (pc_reload cx1) then cx1
                 else case save_layout_tags output_key write_tags now cx1 of
                   (None, cx2) \<Rightarrow> cx2
                 | (Some err, cx2) \<Rightarrow> cx2\<lparr>pc_dirty := snd (settle_failed_layout_persist now err)\<rparr>)"

definition flush_layout_persistence_on_exit :: "(monitor_key \<Rightarrow> string option) \<Rightarrow> (layout_tag_config list \<Rightarrow> config_error + revision) \<Rightarrow>
    revision option \<Rightarrow> instant \<Rightarrow> persist_ctx \<Rightarrow> config_error option \<times> persist_ctx" where
  "flush_layout_persistence_on_exit output_key write_tags stat now cx =
     (if pc_dirty cx = None \<or> \<not> cfg_persist_tags (pc_config cx) then (None, cx)
      else let cx1 = cx\<lparr>pc_reload := observe_config_reload stat now (pc_reload cx)\<rparr>
           in if config_reload_is_pending (pc_reload cx1) then (None, cx1)
              else let (result, cx2) = save_layout_tags output_key write_tags now cx1;
                       (reported, dirty) = settle_layout_persist_exit_flush (pc_dirty cx2) now result
                   in (reported, cx2\<lparr>pc_dirty := dirty\<rparr>))"

section \<open>Saving and restoring\<close>

lemma find_unique:
  assumes "x \<in> set xs" "P x" "\<And>y. y \<in> set xs \<Longrightarrow> P y \<Longrightarrow> y = x"
  shows "find P xs = Some x"
proof (cases "find P xs")
  case None
  then show ?thesis using assms(1,2) by (simp add: find_None_iff)
next
  case (Some y)
  then have "y \<in> set xs" "P y" by (auto simp: find_Some_iff)
  with assms(3) Some show ?thesis by simp
qed

text \<open>The entry of a slot, and where it ends up.\<close>

definition slot_entry :: "layout_config \<Rightarrow> string option \<Rightarrow> wm_monitor \<Rightarrow> pertag \<Rightarrow> nat \<Rightarrow> layout_tag_config" where
  "slot_entry cfg connector m p tag = \<lparr>lt_tag = tag, lt_monitor = mon_num m, lt_connector = connector, lt_layout = layout_name (lts p ! tag),
     lt_alt = layout_name (prev_lts p ! tag),
     lt_n_master = (if n_masters p ! tag = ld_n_master (cfg_defaults cfg) then None else Some (n_masters p ! tag)),
     lt_m_fact = (if flt_eq (m_facts p ! tag) (ld_m_fact (cfg_defaults cfg)) then None else Some (m_facts p ! tag)),
     lt_gap = (if gaps p ! tag = ld_gap (cfg_defaults cfg) then None else Some (gaps p ! tag)),
     lt_show_bar = Some (show_bars p ! tag)\<rparr>"

lemma tag_entry_slot:
  assumes "wf_pertag p" "tag < length (pt_sel p)"
  shows "tag_entry cfg connector m p tag = [slot_entry cfg connector m p tag]"
  using assms by (simp add: tag_entry_def slot_entry_def wf_pertag_def Let_def vec_get_def unless_default_def or_else_def)

lemma tag_entry_fields: "e \<in> set (tag_entry cfg connector m p tag) \<Longrightarrow> lt_tag e = tag \<and> lt_connector e = connector"
  by (auto simp: tag_entry_def split: option.splits)

lemma live_entry_cases:
  assumes "e \<in> set (layout_tag_entries cfg output_key s)"
  obtains mon m p where "mon \<in> set (monitor_order s)" "slot_get (st_monitors s) mon = Some m" "mon_pertag m = Some p"
    "lt_connector e = output_key mon" "e \<in> set (tag_entry cfg (output_key mon) m p (lt_tag e))"
proof -
  from assms obtain mon where mon: "mon \<in> set (monitor_order s)" "e \<in> set (monitor_entries cfg output_key s mon)"
    by (auto simp: layout_tag_entries_def)
  then obtain m p tag where "slot_get (st_monitors s) mon = Some m" "mon_pertag m = Some p" "e \<in> set (tag_entry cfg (output_key mon) m p tag)"
    unfolding monitor_entries_def
    by (cases "slot_get (st_monitors s) mon"; cases "mon_pertag (the (slot_get (st_monitors s) mon))") auto
  with tag_entry_fields mon(1) show ?thesis by (intro that) auto
qed

lemma live_entry_member:
  assumes "mon \<in> set (monitor_order s)" "slot_get (st_monitors s) mon = Some m" "mon_pertag m = Some p"
    "wf_pertag p" "tags_length cfg + 1 = length (pt_sel p)" "tag \<le> tags_length cfg"
  shows "slot_entry cfg (output_key mon) m p tag \<in> set (layout_tag_entries cfg output_key s)"
proof -
  have "slot_entry cfg (output_key mon) m p tag \<in> set (tag_entry cfg (output_key mon) m p tag)"
    using tag_entry_slot [OF assms(4), of tag] assms(5,6) by simp
  moreover have "tag \<in> set [0..<tags_length cfg + 1]" using assms(6) by auto
  ultimately have "slot_entry cfg (output_key mon) m p tag \<in> set (monitor_entries cfg output_key s mon)"
    unfolding monitor_entries_def assms(2) option.case assms(3) set_concat set_map by blast
  with assms(1) show ?thesis unfolding layout_tag_entries_def set_concat set_map by blast
qed

lemma saved_entry_found:
  assumes "mon \<in> set (monitor_order s)" "slot_get (st_monitors s) mon = Some m" "mon_pertag m = Some p"
    "wf_pertag p" "tags_length cfg + 1 = length (pt_sel p)" "tag \<le> tags_length cfg"
    "output_key mon = Some c" "c \<noteq> []" "\<And>mon'. mon' \<in> set (monitor_order s) \<Longrightarrow> output_key mon' = Some c \<Longrightarrow> mon' = mon"
    "\<And>e. e \<in> set existing \<Longrightarrow> lt_monitor e < 0 \<Longrightarrow> lt_connector e \<noteq> Some c"
    "cfg_layout_tags cfg' = merge_layout_tag_entries existing (layout_tag_entries cfg output_key s)"
  shows "layout_for_tag_on_output cfg' n tag (Some c) = Some (slot_entry cfg (Some c) m p tag)"
proof -
  let ?live = "layout_tag_entries cfg output_key s" and ?e = "slot_entry cfg (Some c) m p tag"
  let ?xs = "filter (\<lambda>e. lt_tag e = tag) (cfg_layout_tags cfg')"
  have mem: "?e \<in> set ?live" using live_entry_member [OF assms(1-6), of output_key] assms(7) by simp
  have e: "lt_connector ?e = Some c" "lt_tag ?e = tag" by (simp_all add: slot_entry_def)
  have live: "y = ?e" if "y \<in> set ?live" "lt_tag y = tag" "lt_connector y = Some c" for y
  proof -
    note member = that(1)
    obtain mon' m' p' where y: "mon' \<in> set (monitor_order s)" "slot_get (st_monitors s) mon' = Some m'" "mon_pertag m' = Some p'"
      "lt_connector y = output_key mon'" "y \<in> set (tag_entry cfg (output_key mon') m' p' (lt_tag y))" by (rule live_entry_cases [OF member])
    then have "mon' = mon" using assms(9) that(3) by simp
    with y assms(2,3,7) that(2) have "y \<in> set (tag_entry cfg (Some c) m p tag)" by simp
    then show ?thesis using tag_entry_slot [OF assms(4), of tag] assms(5,6) by simp
  qed
  have old: "\<not> entry_is_offline ?live y" if "y \<in> set existing" "lt_connector y = Some c" for y
  proof -
    have n: "named (Some c) = Some c" using assms(8) by (simp add: named_def)
    have "Some c \<in> set (map (\<lambda>l. named (lt_connector l)) ?live)" using mem e(1) n by (force simp: image_iff)
    moreover have "\<not> lt_monitor y < 0" using assms(10) that by blast
    ultimately show ?thesis using that(2) n by (simp add: entry_is_offline_def)
  qed
  have set: "set ?xs = {y. y \<in> set existing \<and> entry_is_offline ?live y \<and> lt_tag y = tag} \<union> {y. y \<in> set ?live \<and> lt_tag y = tag}"
    by (auto simp: assms(11) merge_layout_tag_entries_def)
  have "find (\<lambda>e. lt_connector e = Some c) ?xs = Some ?e"
  proof (rule find_unique)
    show "?e \<in> set ?xs" unfolding set using mem e(2) by blast
    show "lt_connector ?e = Some c" by (rule e(1))
    show "y = ?e" if "y \<in> set ?xs" "lt_connector y = Some c" for y
      using that(1) live [of y] old [of y] that(2) unfolding set by blast
  qed
  with assms(8) show ?thesis by (simp add: layout_for_tag_on_output_def named_def)
qed

text \<open>The slots before \<open>k\<close> restored, the others as in the new monitor.\<close>

definition restored_upto :: "nat \<Rightarrow> pertag \<Rightarrow> pertag \<Rightarrow> pertag \<Rightarrow> bool" where
  "restored_upto k p q r \<longleftrightarrow> lts r = take k (lts p) @ drop k (lts q) \<and> prev_lts r = take k (prev_lts p) @ drop k (prev_lts q) \<and>
     n_masters r = take k (n_masters p) @ drop k (n_masters q) \<and> m_facts r = take k (m_facts p) @ drop k (m_facts q) \<and>
     gaps r = take k (gaps p) @ drop k (gaps q) \<and> show_bars r = take k (show_bars p) @ drop k (show_bars q)"

definition saved_slots_ok :: "pertag \<Rightarrow> bool" where
  "saved_slots_ok p \<longleftrightarrow> set (lts p) \<subseteq> set layout_cycle \<and> set (prev_lts p) \<subseteq> set layout_cycle \<and>
     (\<forall>n \<in> set (n_masters p). n \<le> MAX_N_MASTER) \<and> (\<forall>g \<in> set (gaps p). 0 \<le> g \<and> g \<le> MAX_LAYOUT_GAP_PX) \<and>
     (\<forall>f \<in> set (m_facts p). flt_leq MIN_M_FACT f \<and> flt_leq f MAX_M_FACT)"

lemma overwrite_next: "k < length a \<Longrightarrow> length b = length a \<Longrightarrow> (take k a @ drop k b)[k := a ! k] = take (Suc k) a @ drop (Suc k) b"
  by (simp add: list_update_append take_Suc_conv_app_nth flip: Cons_nth_drop_Suc)

lemma keep_next: "k < length a \<Longrightarrow> length b = length a \<Longrightarrow> b ! k = a ! k \<Longrightarrow> take k a @ drop k b = take (Suc k) a @ drop (Suc k) b"
  by (simp add: take_Suc_conv_app_nth flip: Cons_nth_drop_Suc)

lemma from_name_cycle: "l \<in> set layout_cycle \<Longrightarrow> layout_from_name (layout_name l) = Some l"
  using cycle_steps by (simp add: list_all_iff)

lemma finite_pair: "is_finite x \<Longrightarrow> is_finite y \<Longrightarrow> flt_leq x y \<Longrightarrow> \<exists>a b. x = Fin a \<and> y = Fin b \<and> a \<le> b"
  by (cases x; cases y) auto

lemma factor_in_range: "flt_leq MIN_M_FACT f \<Longrightarrow> flt_leq f MAX_M_FACT \<Longrightarrow> is_finite f \<and> fclamp f MIN_M_FACT MAX_M_FACT = f"
proof -
  have "is_finite MIN_M_FACT" "is_finite MAX_M_FACT" "flt_leq MIN_M_FACT MAX_M_FACT" by code_simp+
  then obtain a b where ab: "MIN_M_FACT = Fin a" "MAX_M_FACT = Fin b" "a \<le> b" using finite_pair by blast
  assume "flt_leq MIN_M_FACT f" "flt_leq f MAX_M_FACT"
  then show ?thesis unfolding ab(1,2) using ab(3) by (cases f) (auto simp: fclamp_def Let_def)
qed

lemma seed_slot_lists:
  assumes "tag < length (lts q)"
  shows "lts (seed_slot tag e q) = (case layout_from_name (lt_layout e) of Some l \<Rightarrow> (lts q)[tag := l] | None \<Rightarrow> lts q)"
    "prev_lts (seed_slot tag e q) = (case layout_from_name (lt_alt e) of Some l \<Rightarrow> (prev_lts q)[tag := l] | None \<Rightarrow> prev_lts q)"
    "n_masters (seed_slot tag e q) = (case lt_n_master e of Some n \<Rightarrow> (n_masters q)[tag := min n MAX_N_MASTER] | None \<Rightarrow> n_masters q)"
    "m_facts (seed_slot tag e q) = (case lt_m_fact e of
       Some f \<Rightarrow> if is_finite f then (m_facts q)[tag := fclamp f MIN_M_FACT MAX_M_FACT] else m_facts q | None \<Rightarrow> m_facts q)"
    "gaps (seed_slot tag e q) = (case lt_gap e of Some g \<Rightarrow> (gaps q)[tag := clamp g 0 MAX_LAYOUT_GAP_PX] | None \<Rightarrow> gaps q)"
    "show_bars (seed_slot tag e q) = (case lt_show_bar e of Some b \<Rightarrow> (show_bars q)[tag := b] | None \<Rightarrow> show_bars q)"
  using assms by (simp_all add: seed_slot_def Let_def split: option.split)

text \<open>A new monitor has the configured defaults in every slot.\<close>

definition fresh_slots :: "layout_config \<Rightarrow> pertag \<Rightarrow> bool" where
  "fresh_slots cfg q \<longleftrightarrow> (let n = length (pt_sel q); d = cfg_defaults cfg in
     n_masters q = replicate n (ld_n_master d) \<and> m_facts q = replicate n (ld_m_fact d) \<and> gaps q = replicate n (ld_gap d))"

lemma slot_in_range:
  assumes "saved_slots_ok p"
  shows "k < length (lts p) \<Longrightarrow> lts p ! k \<in> set layout_cycle" "k < length (prev_lts p) \<Longrightarrow> prev_lts p ! k \<in> set layout_cycle"
    "k < length (n_masters p) \<Longrightarrow> n_masters p ! k \<le> MAX_N_MASTER"
    "k < length (gaps p) \<Longrightarrow> 0 \<le> gaps p ! k" "k < length (gaps p) \<Longrightarrow> gaps p ! k \<le> MAX_LAYOUT_GAP_PX"
    "k < length (m_facts p) \<Longrightarrow> flt_leq MIN_M_FACT (m_facts p ! k)" "k < length (m_facts p) \<Longrightarrow> flt_leq (m_facts p ! k) MAX_M_FACT"
  using assms unfolding saved_slots_ok_def by (meson nth_mem subsetD)+

lemma restore_step:
  assumes "restored_upto k p q r" "k < length (pt_sel p)" "length (pt_sel q) = length (pt_sel p)" "wf_pertag p" "wf_pertag q"
    "saved_slots_ok p" "fresh_slots cfg q"
  shows "restored_upto (Suc k) p q (seed_slot k (slot_entry cfg c m p k) r)"
proof -
  let ?e = "slot_entry cfg c m p k" and ?r = "seed_slot k (slot_entry cfg c m p k) r"
  note u = assms(1) [unfolded restored_upto_def]
  have l: "length (lts p) = length (pt_sel p)" "length (prev_lts p) = length (pt_sel p)" "length (n_masters p) = length (pt_sel p)"
    "length (m_facts p) = length (pt_sel p)" "length (gaps p) = length (pt_sel p)" "length (show_bars p) = length (pt_sel p)"
    "length (lts q) = length (pt_sel p)" "length (prev_lts q) = length (pt_sel p)" "length (n_masters q) = length (pt_sel p)"
    "length (m_facts q) = length (pt_sel p)" "length (gaps q) = length (pt_sel p)" "length (show_bars q) = length (pt_sel p)"
    using assms(3-5) by (simp_all add: wf_pertag_def Let_def)
  have f: "n_masters q ! k = ld_n_master (cfg_defaults cfg)" "m_facts q ! k = ld_m_fact (cfg_defaults cfg)" "gaps q ! k = ld_gap (cfg_defaults cfg)"
    using assms(2,3,7) by (simp_all add: fresh_slots_def Let_def)
  have s: "lts p ! k \<in> set layout_cycle" "prev_lts p ! k \<in> set layout_cycle" "n_masters p ! k \<le> MAX_N_MASTER"
    "0 \<le> gaps p ! k" "gaps p ! k \<le> MAX_LAYOUT_GAP_PX" "flt_leq MIN_M_FACT (m_facts p ! k)" "flt_leq (m_facts p ! k) MAX_M_FACT"
    using slot_in_range [OF assms(6)] l assms(2) by simp_all
  have v: "n_masters r = take k (n_masters p) @ drop k (n_masters q)" "gaps r = take k (gaps p) @ drop k (gaps q)"
    "m_facts r = take k (m_facts p) @ drop k (m_facts q)" using u by blast+
  have k: "k < length (lts r)" using u [THEN conjunct1] l(1,7) assms(2) by simp
  note d = seed_slot_lists [OF k, of ?e]
  have upd: "xs = take (Suc k) a @ drop (Suc k) b"
    if "ys = take k a @ drop k b" "xs = ys[k := a ! k]" "length a = length (pt_sel p)" "length b = length (pt_sel p)" for xs ys a b :: "'b list"
    unfolding that(2,1) by (rule overwrite_next) (simp_all add: that assms(2))
  have same: "xs[k := a ! k] = xs" if "xs = take k a @ drop k b" "b ! k = a ! k" "length a = length (pt_sel p)" "length b = length (pt_sel p)"
    for xs a b :: "'b list"
    using that assms(2) by (intro nth_equalityI) (auto simp: nth_list_update nth_append)
  have e: "layout_from_name (lt_layout ?e) = Some (lts p ! k)" "layout_from_name (lt_alt ?e) = Some (prev_lts p ! k)"
    "lt_n_master ?e = (if n_masters p ! k = n_masters q ! k then None else Some (n_masters p ! k))"
    "lt_m_fact ?e = (if flt_eq (m_facts p ! k) (m_facts q ! k) then None else Some (m_facts p ! k))"
    "lt_gap ?e = (if gaps p ! k = gaps q ! k then None else Some (gaps p ! k))" "lt_show_bar ?e = Some (show_bars p ! k)"
    using s(1,2) by (simp_all add: slot_entry_def from_name_cycle f)
  have h: "lts ?r = (lts r)[k := lts p ! k]" "prev_lts ?r = (prev_lts r)[k := prev_lts p ! k]" "show_bars ?r = (show_bars r)[k := show_bars p ! k]"
    by (simp_all only: d e option.case)
  have n: "n_masters ?r = (n_masters r)[k := n_masters p ! k]"
    using same [of "n_masters r" "n_masters p" "n_masters q"] v(1) l(3,9) s(3) unfolding d(3) e(3)
    by (cases "n_masters p ! k = n_masters q ! k") (simp_all add: min_absorb1)
  have g: "gaps ?r = (gaps r)[k := gaps p ! k]"
    using same [of "gaps r" "gaps p" "gaps q"] v(2) l(5,11) s(4,5) unfolding d(5) e(5) by (cases "gaps p ! k = gaps q ! k") (simp_all add: clamp_id)
  have m: "m_facts ?r = (m_facts r)[k := m_facts p ! k]"
    using same [of "m_facts r" "m_facts p" "m_facts q"] v(3) l(4,10) factor_in_range [OF s(6,7)] unfolding d(4) e(4)
    by (cases "flt_eq (m_facts p ! k) (m_facts q ! k)") (auto simp: flt_eq_def)
  have w: "lts r = take k (lts p) @ drop k (lts q)" "prev_lts r = take k (prev_lts p) @ drop k (prev_lts q)"
    "show_bars r = take k (show_bars p) @ drop k (show_bars q)" using u by blast+
  show ?thesis unfolding restored_upto_def
    by (intro conjI upd [OF w(1) h(1) l(1,7)] upd [OF w(2) h(2) l(2,8)] upd [OF v(1) n l(3,9)] upd [OF v(3) m l(4,10)]
        upd [OF v(2) g l(5,11)] upd [OF w(3) h(3) l(6,12)])
qed

lemma restore_fold:
  assumes "k \<le> length (pt_sel p)" "length (pt_sel q) = length (pt_sel p)" "wf_pertag p" "wf_pertag q" "saved_slots_ok p" "fresh_slots cfg q"
    "\<And>tag. tag < k \<Longrightarrow> look tag = Some (slot_entry cfg c m p tag)"
  shows "restored_upto k p q (fold (\<lambda>tag p. case look tag of None \<Rightarrow> p | Some e \<Rightarrow> seed_slot tag e p) [0..<k] q)"
  using assms(1,7)
proof (induction k)
  case 0
  then show ?case by (simp add: restored_upto_def)
next
  case (Suc k)
  then have "restored_upto k p q (fold (\<lambda>tag p. case look tag of None \<Rightarrow> p | Some e \<Rightarrow> seed_slot tag e p) [0..<k] q)" by simp
  from restore_step [OF this _ assms(2-6)] Suc.prems show ?case by simp
qed

text \<open>
  C27. What is saved comes back: when the layouts are saved and a new monitor on the same output is
  seeded from the saved configuration, whatever number it has now, every tag has its layout, its
  previous layout, its master count and factor, its gap and its bar again. The output has a name no
  other monitor has, and no wildcard entry claims that name.
\<close>

theorem saved_layouts_come_back:
  assumes "cfg = pc_config cx" "mon \<in> set (monitor_order (pc_state cx))" "slot_get (st_monitors (pc_state cx)) mon = Some m"
    "mon_pertag m = Some p" "wf_pertag p" "tags_length cfg + 1 = length (pt_sel p)" "saved_slots_ok p"
    "output_key mon = Some c" "c \<noteq> []" "\<And>mon'. mon' \<in> set (monitor_order (pc_state cx)) \<Longrightarrow> output_key mon' = Some c \<Longrightarrow> mon' = mon"
    "\<And>e. e \<in> set (cfg_layout_tags cfg) \<Longrightarrow> lt_monitor e < 0 \<Longrightarrow> lt_connector e \<noteq> Some c"
    "save_layout_tags output_key write_tags now cx = (None, cx')"
    "mon_pertag new = Some q" "wf_pertag q" "length (pt_sel q) = length (pt_sel p)" "fresh_slots cfg q"
  shows "\<exists>r. mon_pertag (seed_pertag_from_config n (pc_config cx') (Some c) new) = Some r \<and>
    lts r = lts p \<and> prev_lts r = prev_lts p \<and> n_masters r = n_masters p \<and> m_facts r = m_facts p \<and> gaps r = gaps p \<and>
    show_bars r = show_bars p"
proof -
  let ?cfg = "pc_config cx'" and ?live = "layout_tag_entries cfg output_key (pc_state cx)"
  have cfg': "cfg_layout_tags ?cfg = merge_layout_tag_entries (cfg_layout_tags cfg) ?live" "tags_length ?cfg = tags_length cfg"
    using assms(1,12) by (auto simp: save_layout_tags_def saved_entries_def tags_length_def Let_def split: sum.splits)
  have look: "layout_for_tag_on_output ?cfg n tag (Some c) = Some (slot_entry cfg (Some c) m p tag)" if "tag < length (pt_sel p)" for tag
    by (rule saved_entry_found [OF assms(2-6) _ assms(8-11) cfg'(1)]) (use that assms(6) in auto)
  have "slot_entry cfg (output_key mon) m p 0 \<in> set ?live" by (rule live_entry_member [OF assms(2-6)]) simp
  then have ne: "cfg_layout_tags ?cfg \<noteq> []" by (auto simp: cfg'(1) merge_layout_tag_entries_def simp flip: set_empty)
  let ?r = "fold (\<lambda>tag p. case layout_for_tag_on_output ?cfg n tag (Some c) of None \<Rightarrow> p | Some e \<Rightarrow> seed_slot tag e p) [0..<length (pt_sel p)] q"
  have "restored_upto (length (pt_sel p)) p q ?r" by (rule restore_fold [OF _ assms(15,5,14,7,16)]) (use look in simp_all)
  then have r: "lts ?r = lts p \<and> prev_lts ?r = prev_lts p \<and> n_masters ?r = n_masters p \<and> m_facts ?r = m_facts p \<and> gaps ?r = gaps p \<and>
      show_bars ?r = show_bars p"
    using assms(5,14,15) by (auto simp: restored_upto_def wf_pertag_def Let_def)
  have "seed_pertag_from_config n ?cfg (Some c) new = reload_current_tag_context (new\<lparr>mon_pertag := Some ?r\<rparr>)"
    using assms(13) ne cfg'(2) assms(6) by (simp add: seed_pertag_from_config_def del: fold_append)
  then have "mon_pertag (seed_pertag_from_config n ?cfg (Some c) new) = Some (?r\<lparr>prev_tag := cur_tag ?r, cur_tag := clamp_tag ?r (cur_tag ?r)\<rparr>)"
    by (simp add: reload_current_tag_context_def apply_pertag_context_frame)
  with r show ?thesis by simp
qed

definition sample_config :: layout_config where
  "sample_config = \<lparr>cfg_layout_tags = [], cfg_tags_length = 2, cfg_persist_tags = True,
     cfg_defaults = \<lparr>ld_m_fact = Fin (1 / 2), ld_n_master = 1, ld_gap = 8\<rparr>\<rparr>"

definition default_slots :: pertag where
  "default_slots = (pertag_new True 2)\<lparr>n_masters := replicate 3 1, m_facts := replicate 3 (Fin (1 / 2)), gaps := replicate 3 8\<rparr>"

definition tuned_slots :: pertag where
  "tuned_slots = default_slots\<lparr>n_masters := [1, 3, 1], gaps := [8, 0, 20], lts := [LAYOUT_TILE, LAYOUT_FLOAT, LAYOUT_TILE],
     show_bars := [True, False, True]\<rparr>"

definition sample_persist :: persist_ctx where
  "sample_persist = \<lparr>pc_state = wm_state_new\<lparr>st_monitors := [(7, wm_monitor_new\<lparr>mon_pertag := Some tuned_slots\<rparr>)], monitor_order := [7]\<rparr>,
     pc_config = sample_config, pc_reload = \<lparr>config_reload_tracker = tracker_new None, config_last_modified = None, config_reload_debounce = None\<rparr>,
     pc_dirty = Some 0\<rparr>"

lemma sample_slots_ok: "wf_pertag tuned_slots" "wf_pertag default_slots" "saved_slots_ok tuned_slots" "fresh_slots sample_config default_slots"
proof -
  show "wf_pertag tuned_slots" "wf_pertag default_slots" "fresh_slots sample_config default_slots"
    by (simp_all add: wf_pertag_def fresh_slots_def tuned_slots_def default_slots_def pertag_new_def sample_config_def numeral_3_eq_3)
  have "flt_leq MIN_M_FACT (Fin (1 / 2)) \<and> flt_leq (Fin (1 / 2)) MAX_M_FACT" by code_simp
  moreover have "LAYOUT_TILE \<in> set layout_cycle" "LAYOUT_FLOAT \<in> set layout_cycle" by code_simp+
  ultimately show "saved_slots_ok tuned_slots"
    by (simp add: saved_slots_ok_def tuned_slots_def default_slots_def pertag_new_def MAX_N_MASTER_def MAX_LAYOUT_GAP_PX_def)
qed

theorem saved_layouts_come_back_witness:
  "\<exists>r. mon_pertag (seed_pertag_from_config 3 (pc_config (snd (save_layout_tags (\<lambda>_. Some ''DP-1'') (\<lambda>_. Inr 10) 5 sample_persist)))
     (Some ''DP-1'') (wm_monitor_new\<lparr>mon_pertag := Some default_slots\<rparr>)) = Some r \<and> lts r = lts tuned_slots \<and> gaps r = [8, 0, 20]"
proof -
  let ?cx' = "snd (save_layout_tags (\<lambda>_. Some ''DP-1'') (\<lambda>_. Inr 10) 5 sample_persist)"
  have s: "save_layout_tags (\<lambda>_. Some ''DP-1'') (\<lambda>_. Inr 10) 5 sample_persist = (None, ?cx')" by (simp add: save_layout_tags_def Let_def)
  have m: "7 \<in> set (monitor_order (pc_state sample_persist))"
    "slot_get (st_monitors (pc_state sample_persist)) 7 = Some (wm_monitor_new\<lparr>mon_pertag := Some tuned_slots\<rparr>)"
    by (simp_all add: sample_persist_def slot_get_def)
  have l: "tags_length (pc_config sample_persist) + 1 = length (pt_sel tuned_slots)" "length (pt_sel default_slots) = length (pt_sel tuned_slots)"
    by (simp_all add: sample_persist_def sample_config_def tags_length_def tuned_slots_def default_slots_def pertag_new_def)
  have d: "pc_config sample_persist = sample_config" "cfg_layout_tags sample_config = []" "monitor_order (pc_state sample_persist) = [7]"
    by (simp_all add: sample_persist_def sample_config_def)
  have "\<exists>r. mon_pertag (seed_pertag_from_config 3 (pc_config ?cx') (Some ''DP-1'') (wm_monitor_new\<lparr>mon_pertag := Some default_slots\<rparr>)) = Some r \<and>
      lts r = lts tuned_slots \<and> prev_lts r = prev_lts tuned_slots \<and> n_masters r = n_masters tuned_slots \<and> m_facts r = m_facts tuned_slots \<and>
      gaps r = gaps tuned_slots \<and> show_bars r = show_bars tuned_slots"
    by (rule saved_layouts_come_back [OF refl m, where c = "''DP-1''" and output_key = "\<lambda>_. Some ''DP-1''" and write_tags = "\<lambda>_. Inr 10" and now = 5
          and cx' = ?cx' and q = default_slots]) (use s l d sample_slots_ok in simp_all)
  then show ?thesis by (auto simp: tuned_slots_def)
qed

section \<open>What a save leaves behind\<close>

lemma find_sorted_least:
  assumes "sorted (map f xs)" "find P xs = Some y" "x \<in> set xs" "P x"
  shows "f y \<le> f x"
  using assms by (induction xs) (auto split: if_splits)

text \<open>
  A wildcard entry that names a connector shadows what is saved for that output: the lookup finds
  it first, at every save and restart.
\<close>

lemma named_wildcard_shadows_saved:
  assumes "e \<in> set existing" "lt_monitor e < 0" "lt_connector e = Some c" "c \<noteq> []"
    "cfg_layout_tags cfg = merge_layout_tag_entries existing live"
  shows "\<exists>y. layout_for_tag_on_output cfg n (lt_tag e) (Some c) = Some y \<and> lt_monitor y < 0"
proof -
  let ?xs = "filter (\<lambda>x. lt_tag x = lt_tag e) (cfg_layout_tags cfg)" and ?f = "\<lambda>e. (lt_monitor e, lt_tag e)"
  have "sorted (map ?f (cfg_layout_tags cfg))" unfolding assms(5) merge_layout_tag_entries_def by (rule sorted_sort_key)
  then have s: "sorted (map ?f ?xs)" by (rule sorted_filter)
  have m: "e \<in> set ?xs" using assms(1,2) by (simp add: assms(5) merge_layout_tag_entries_def entry_is_offline_def)
  obtain y where y: "find (\<lambda>e. lt_connector e = Some c) ?xs = Some y"
    using m assms(3) by (cases "find (\<lambda>e. lt_connector e = Some c) ?xs") (auto simp: find_None_iff)
  then have "?f y \<le> ?f e" using find_sorted_least [OF s _ m] assms(3) by simp
  then have "lt_monitor y < 0" using assms(2) by (auto simp: less_eq_prod_def)
  with y assms(4) show ?thesis by (simp add: layout_for_tag_on_output_def named_def)
qed

text \<open>The periodic save is one of the writes that \<open>Config_Reload\<close> accounts for.\<close>

lemma flush_is_config_step:
  assumes "pc_reload cx = w_cx w" "now \<ge> w_now w" "r > file_rev w"
  shows "\<exists>w'. config_step\<^sup>*\<^sup>* w w' \<and> w_cx w' = pc_reload (flush_layout_persistence output_key (\<lambda>_. Inr r) (Some (file_rev w)) now cx)"
proof (cases "pc_dirty cx = None \<or> now - the (pc_dirty cx) < PERSIST_DEBOUNCE \<or> \<not> cfg_persist_tags (pc_config cx)")
  case True
  then have "pc_reload (flush_layout_persistence output_key (\<lambda>_. Inr r) (Some (file_rev w)) now cx) = w_cx w"
    using assms(1) by (auto simp: flush_layout_persistence_def split: option.splits)
  then show ?thesis by (metis rtranclp.rtrancl_refl)
next
  case False
  let ?cx = "observe_config_reload (Some (file_rev w)) now (w_cx w)"
  have "config_step w (if config_reload_is_pending ?cx then w\<lparr>w_cx := ?cx, w_now := now\<rparr>
       else w\<lparr>w_cx := note_config_written_by_us r ?cx, file_rev := r, w_now := now\<rparr>)"
    using layout_save [OF assms(2,3) refl] .
  moreover have "pc_reload (flush_layout_persistence output_key (\<lambda>_. Inr r) (Some (file_rev w)) now cx) =
      (if config_reload_is_pending ?cx then ?cx else note_config_written_by_us r ?cx)"
    using False assms(1) by (auto simp: flush_layout_persistence_def save_layout_tags_def Let_def)
  ultimately show ?thesis by (intro exI [of _ "if config_reload_is_pending ?cx then w\<lparr>w_cx := ?cx, w_now := now\<rparr>
       else w\<lparr>w_cx := note_config_written_by_us r ?cx, file_rev := r, w_now := now\<rparr>"]) auto
qed

text \<open>
  The periodic save: before the layout has held still for the debounce nothing happens. After
  it, with no edit of the file pending, a successful write makes the merged entries the live ones
  and settles the mark; a failed write leaves the entries alone, and the mark is armed again from
  now exactly when another attempt could succeed.
\<close>

theorem layout_flush_outcomes:
  assumes "pc_dirty cx = Some t" "cfg_persist_tags (pc_config cx)"
    "\<not> config_reload_is_pending (observe_config_reload stat now (pc_reload cx))"
    "cx' = flush_layout_persistence output_key write_tags stat now cx"
  shows "pc_state cx' = pc_state cx \<and>
    (if now < t + PERSIST_DEBOUNCE \<and> t \<le> now \<or> now < t then cx' = cx
     else case write_tags (saved_entries output_key cx) of
       Inr r \<Rightarrow> cfg_layout_tags (pc_config cx') = saved_entries output_key cx \<and> pc_dirty cx' = None \<and>
                last_attempted (config_reload_tracker (pc_reload cx')) = Some r
     | Inl err \<Rightarrow> pc_config cx' = pc_config cx \<and>
         pc_dirty cx' = (if err \<in> {Config_Io Read_Only_Filesystem, Config_Io Permission_Denied, Config_Io Invalid_Data} then None else Some now))"
proof -
  let ?cx = "cx\<lparr>pc_reload := observe_config_reload stat now (pc_reload cx)\<rparr>"
  have w: "now - t < PERSIST_DEBOUNCE \<longleftrightarrow> now < t + PERSIST_DEBOUNCE \<and> t \<le> now \<or> now < t" by (auto simp: PERSIST_DEBOUNCE_def)
  have e: "saved_entries output_key ?cx = saved_entries output_key cx" by (simp add: saved_entries_def)
  have p: "\<not> has_pending (config_reload_tracker (observe_config_reload stat now (pc_reload cx)))"
    using assms(3) by (simp add: config_reload_is_pending_def)
  show ?thesis unfolding assms(4) using assms(1-3) p
    by (auto simp: flush_layout_persistence_def w [symmetric] save_layout_tags_def e Let_def settle_layout_persist_dirty_def
        settle_failed_layout_persist_def classify_layout_persist_failure_def note_config_written_by_us_def settle_own_write_def mark_attempted_def
        split: sum.splits config_error.splits)
qed

theorem layout_flush_outcomes_witness:
  "pc_dirty (flush_layout_persistence (\<lambda>_. Some ''DP-1'') (\<lambda>_. Inl (Config_Io Other_Kind)) None (3 * 1000000000) sample_persist) = Some (3 * 1000000000)"
  using layout_flush_outcomes [of sample_persist 0 None "3 * 1000000000" _ "\<lambda>_. Some ''DP-1''" "\<lambda>_. Inl (Config_Io Other_Kind)", OF _ _ _ refl]
  by (simp add: sample_persist_def sample_config_def config_reload_is_pending_def observe_config_reload_def has_pending_def tracker_new_def PERSIST_DEBOUNCE_def)

end
