(* ===== verification/Ring_Queue.thy ===== *)
theory Ring_Queue
  imports Prelude
begin

text \<open>
  The queues of \<open>crates/shared_structures/src/typed_ring_buffer.rs\<close>: two bounded channels in shared
  memory, with 32-bit cursors that only ever count up and wrap around, slots addressed by the low
  bits of a cursor, and a checksum per slot. A payload is the list of its object bytes. Each
  operation is the whole function of the source: the destroyed check, the direction lock, the
  second destroyed check and the critical section. What the operation cannot compute itself is an
  argument: the outcome of the lock acquisition, the destroyed flag seen after it, the clock.
\<close>

unbundle bit_operations_syntax

type_synonym bytes = "8 word list"

section \<open>Checksums\<close>

definition fnv32_str :: "bytes \<Rightarrow> 32 word" where
  "fnv32_str bs = fold (\<lambda>b h. (h XOR ucast b) * 0x01000193) bs 0x811c9dc5"

text \<open>\<open>u64::from_ne_bytes\<close> on the little-endian targets the program supports.\<close>

primrec le_word :: "bytes \<Rightarrow> 64 word" where
  "le_word [] = 0"
| "le_word (b # bs) = ucast b OR push_bit 8 (le_word bs)"

definition checksum_new :: "64 word" where
  "checksum_new = 0xcbf29ce484222325"

definition checksum_mix :: "64 word \<Rightarrow> bytes \<Rightarrow> 64 word" where
  "checksum_mix h chunk = (h XOR le_word chunk) * 0x00000100000001b3"

function checksum_write :: "64 word \<Rightarrow> bytes \<Rightarrow> 64 word" where
  "checksum_write h bs =
     (if length bs \<ge> 8 then checksum_write (checksum_mix h (take 8 bs)) (drop 8 bs)
      else if bs \<noteq> [] then checksum_mix h (bs @ replicate (8 - length bs) 0)
      else h)"
  by pat_completeness auto
termination
  by (relation "measure (length \<circ> snd)") auto

declare checksum_write.simps [simp del]

definition checksum_finish :: "64 word \<Rightarrow> 32 word" where
  "checksum_finish h = ucast (h XOR drop_bit 32 h)"

definition checksum_of :: "bytes \<Rightarrow> 32 word" where
  "checksum_of payload = checksum_finish (checksum_write checksum_new payload)"

section \<open>State\<close>

record slot =
  sl_checksum :: "32 word"
  sl_padding :: "32 word"
  sl_payload :: bytes

text \<open>The two cursors of one direction, the slot array and the capacity the handle keeps.\<close>

record channel =
  ch_write :: "32 word"
  ch_read :: "32 word"
  ch_cap :: "32 word"
  ch_slots :: "slot list"

record ring =
  rg_destroyed :: bool
  rg_last_timestamp :: "64 word"
  rg_messages :: channel
  rg_commands :: channel

datatype error_kind = InvalidData | InvalidInput | BrokenPipe | WouldBlock | Unsupported

type_synonym 'a io_result = "error_kind + 'a"

datatype lock_failure = Lock_Destroyed | Lock_Contended

fun lock_error :: "lock_failure \<Rightarrow> error_kind" where
  "lock_error Lock_Destroyed = BrokenPipe"
| "lock_error Lock_Contended = WouldBlock"

definition channel_new :: "32 word \<Rightarrow> channel" where
  "channel_new cap = \<lparr>ch_write = 0, ch_read = 0, ch_cap = cap,
     ch_slots = replicate (unat cap) \<lparr>sl_checksum = 0, sl_padding = 0, sl_payload = []\<rparr>\<rparr>"

definition ring_new :: "32 word \<Rightarrow> 32 word \<Rightarrow> ring" where
  "ring_new buffer_size command_buffer_size = \<lparr>rg_destroyed = False, rg_last_timestamp = 0,
     rg_messages = channel_new buffer_size, rg_commands = channel_new command_buffer_size\<rparr>"

section \<open>Critical sections\<close>

definition checked_pending :: "32 word \<Rightarrow> 32 word \<Rightarrow> 32 word \<Rightarrow> 32 word io_result" where
  "checked_pending write_idx read_idx capacity =
     (let pending = write_idx - read_idx in if pending > capacity then Inl InvalidData else Inr pending)"

definition slot_index :: "channel \<Rightarrow> 32 word \<Rightarrow> nat" where
  "slot_index ch i = unat (i AND (ch_cap ch - 1))"

definition make_slot :: "bytes \<Rightarrow> slot" where
  "make_slot payload = \<lparr>sl_checksum = checksum_of payload, sl_padding = 0, sl_payload = payload\<rparr>"

definition store_slot :: "slot \<Rightarrow> channel \<Rightarrow> channel" where
  "store_slot slot ch = ch\<lparr>ch_slots := (ch_slots ch)[slot_index ch (ch_write ch) := slot], ch_write := ch_write ch + 1\<rparr>"

text \<open>The critical section shared by \<open>try_write_message\<close> and \<open>try_send_command\<close>.\<close>

definition push_slot :: "slot \<Rightarrow> channel \<Rightarrow> bool io_result \<times> channel" where
  "push_slot slot ch =
     (case checked_pending (ch_write ch) (ch_read ch) (ch_cap ch) of
        Inl e \<Rightarrow> (Inl e, ch)
      | Inr pending \<Rightarrow> if pending = ch_cap ch then (Inr False, ch) else (Inr True, store_slot slot ch))"

definition read_slot :: "channel \<Rightarrow> 32 word \<Rightarrow> slot" where
  "read_slot ch i = ch_slots ch ! slot_index ch i"

definition verify_slot :: "slot \<Rightarrow> bytes option io_result" where
  "verify_slot slot = (if checksum_of (sl_payload slot) \<noteq> sl_checksum slot then Inl InvalidData else Inr (Some (sl_payload slot)))"

definition pop_slot :: "channel \<Rightarrow> bytes option io_result \<times> channel" where
  "pop_slot ch =
     (case checked_pending (ch_write ch) (ch_read ch) (ch_cap ch) of
        Inl e \<Rightarrow> (Inl e, ch)
      | Inr pending \<Rightarrow>
          if pending = 0 then (Inr None, ch)
          else (verify_slot (read_slot ch (ch_read ch)), ch\<lparr>ch_read := ch_read ch + 1\<rparr>))"

section \<open>Operations\<close>

text \<open>
  \<open>lock\<close> is \<open>None\<close> when the direction lock was taken, else why it was not; \<open>late\<close> is the destroyed flag
  read again inside the lock.
\<close>

definition try_write_message :: "lock_failure option \<Rightarrow> bool \<Rightarrow> 64 word \<Rightarrow> bytes \<Rightarrow> ring \<Rightarrow> bool io_result \<times> ring" where
  "try_write_message lock late now payload r =
     (if rg_destroyed r then (Inl BrokenPipe, r)
      else let slot = make_slot payload in
           case lock of
             Some f \<Rightarrow> (Inl (lock_error f), r)
           | None \<Rightarrow>
               if late then (Inl BrokenPipe, r)
               else (case push_slot slot (rg_messages r) of
                       (Inr True, ch) \<Rightarrow> (Inr True, r\<lparr>rg_messages := ch, rg_last_timestamp := now\<rparr>)
                     | (res, ch) \<Rightarrow> (res, r\<lparr>rg_messages := ch\<rparr>)))"

text \<open>
  \<open>read_lock\<close> is the outcome of the nested read lock. The cursors are read once more under it; run
  without interference, as here, they are the ones loaded before.
\<close>

definition write_message_overwrite ::
  "lock_failure option \<Rightarrow> bool \<Rightarrow> lock_failure option \<Rightarrow> 64 word \<Rightarrow> bytes \<Rightarrow> ring \<Rightarrow> unit io_result \<times> ring" where
  "write_message_overwrite lock late read_lock now payload r =
     (if rg_destroyed r then (Inl BrokenPipe, r)
      else let slot = make_slot payload in
           case lock of
             Some f \<Rightarrow> (Inl (lock_error f), r)
           | None \<Rightarrow>
               if late then (Inl BrokenPipe, r)
               else let ch = rg_messages r in
                 case checked_pending (ch_write ch) (ch_read ch) (ch_cap ch) of
                   Inl e \<Rightarrow> (Inl e, r)
                 | Inr pending \<Rightarrow>
                     if pending = ch_cap ch
                     then (case read_lock of
                             Some f \<Rightarrow> (Inl (lock_error f), r)
                           | None \<Rightarrow>
                               (case checked_pending (ch_write ch) (ch_read ch) (ch_cap ch) of
                                  Inl e \<Rightarrow> (Inl e, r)
                                | Inr pending' \<Rightarrow>
                                    let ch1 = (if pending' = ch_cap ch then ch\<lparr>ch_read := ch_read ch + 1\<rparr> else ch)
                                    in (Inr (), r\<lparr>rg_messages := store_slot slot ch1, rg_last_timestamp := now\<rparr>)))
                     else (Inr (), r\<lparr>rg_messages := store_slot slot ch, rg_last_timestamp := now\<rparr>))"

definition read_next_message_until :: "lock_failure option \<Rightarrow> bool \<Rightarrow> ring \<Rightarrow> bytes option io_result \<times> ring" where
  "read_next_message_until lock late r =
     (if rg_destroyed r then (Inr None, r)
      else case lock of
             Some _ \<Rightarrow> (Inr None, r)
           | None \<Rightarrow>
               if late then (Inr None, r)
               else (case pop_slot (rg_messages r) of (res, ch) \<Rightarrow> (res, r\<lparr>rg_messages := ch\<rparr>)))"

definition try_read_latest_message :: "lock_failure option \<Rightarrow> bool \<Rightarrow> ring \<Rightarrow> bytes option io_result \<times> ring" where
  "try_read_latest_message lock late r =
     (if rg_destroyed r then (Inr None, r)
      else case lock of
             Some _ \<Rightarrow> (Inr None, r)
           | None \<Rightarrow>
               if late then (Inr None, r)
               else let ch = rg_messages r in
                 case checked_pending (ch_write ch) (ch_read ch) (ch_cap ch) of
                   Inl e \<Rightarrow> (Inl e, r)
                 | Inr pending \<Rightarrow>
                     if pending = 0 then (Inr None, r)
                     else let newest_idx = ch_write ch - 1
                          in (verify_slot (read_slot ch newest_idx), r\<lparr>rg_messages := ch\<lparr>ch_read := ch_write ch\<rparr>\<rparr>))"

definition try_peek_message :: "lock_failure option \<Rightarrow> bool \<Rightarrow> ring \<Rightarrow> bytes option io_result \<times> ring" where
  "try_peek_message lock late r =
     (if rg_destroyed r then (Inr None, r)
      else case lock of
             Some _ \<Rightarrow> (Inr None, r)
           | None \<Rightarrow>
               if late then (Inr None, r)
               else let ch = rg_messages r in
                 case checked_pending (ch_write ch) (ch_read ch) (ch_cap ch) of
                   Inl e \<Rightarrow> (Inl e, r)
                 | Inr pending \<Rightarrow>
                     if pending = 0 then (Inr None, r) else (verify_slot (read_slot ch (ch_read ch)), r))"

text \<open>The loop of \<open>drain_messages_into_with\<close>: \<open>remaining\<close> slots left, \<open>room\<close> messages still wanted.\<close>

primrec drain_loop :: "nat \<Rightarrow> nat \<Rightarrow> channel \<Rightarrow> bytes list \<times> channel" where
  "drain_loop 0 room ch = ([], ch)"
| "drain_loop (Suc remaining) room ch =
     (if room = 0 then ([], ch)
      else let slot = read_slot ch (ch_read ch);
               ch1 = ch\<lparr>ch_read := ch_read ch + 1\<rparr>
           in if checksum_of (sl_payload slot) = sl_checksum slot
              then (let (out, ch2) = drain_loop remaining (room - 1) ch1 in (sl_payload slot # out, ch2))
              else drain_loop remaining room ch1)"

definition drain_messages :: "lock_failure option \<Rightarrow> bool \<Rightarrow> nat \<Rightarrow> ring \<Rightarrow> bytes list io_result \<times> ring" where
  "drain_messages lock late wanted r =
     (if wanted = 0 \<or> rg_destroyed r then (Inr [], r)
      else case lock of
             Some _ \<Rightarrow> (Inr [], r)
           | None \<Rightarrow>
               if late then (Inr [], r)
               else let ch = rg_messages r in
                 case checked_pending (ch_write ch) (ch_read ch) (ch_cap ch) of
                   Inl e \<Rightarrow> (Inl e, r)
                 | Inr pending \<Rightarrow>
                     (case drain_loop (unat pending) wanted ch of (out, ch') \<Rightarrow> (Inr out, r\<lparr>rg_messages := ch'\<rparr>)))"

definition try_send_command :: "lock_failure option \<Rightarrow> bool \<Rightarrow> bytes \<Rightarrow> ring \<Rightarrow> bool io_result \<times> ring" where
  "try_send_command lock late command r =
     (if rg_destroyed r then (Inl BrokenPipe, r)
      else case lock of
             Some f \<Rightarrow> (Inl (lock_error f), r)
           | None \<Rightarrow>
               if late then (Inl BrokenPipe, r)
               else (case push_slot (make_slot command) (rg_commands r) of (res, ch) \<Rightarrow> (res, r\<lparr>rg_commands := ch\<rparr>)))"

definition receive_command_until :: "lock_failure option \<Rightarrow> bool \<Rightarrow> ring \<Rightarrow> bytes option io_result \<times> ring" where
  "receive_command_until lock late r =
     (if rg_destroyed r then (Inr None, r)
      else case lock of
             Some _ \<Rightarrow> (Inr None, r)
           | None \<Rightarrow>
               if late then (Inr None, r)
               else (case pop_slot (rg_commands r) of (res, ch) \<Rightarrow> (res, r\<lparr>rg_commands := ch\<rparr>)))"

definition ring_destroy :: "ring \<Rightarrow> ring" where
  "ring_destroy r = r\<lparr>rg_destroyed := True\<rparr>"

definition available :: "channel \<Rightarrow> nat" where
  "available ch = unat (min (ch_write ch - ch_read ch) (ch_cap ch))"

definition available_messages :: "ring \<Rightarrow> nat" where
  "available_messages r = (if rg_destroyed r then 0 else available (rg_messages r))"

definition available_commands :: "ring \<Rightarrow> nat" where
  "available_commands r = (if rg_destroyed r then 0 else available (rg_commands r))"

definition has_message :: "ring \<Rightarrow> bool" where
  "has_message r \<longleftrightarrow> \<not> rg_destroyed r \<and> available_messages r > 0"

definition has_command :: "ring \<Rightarrow> bool" where
  "has_command r \<longleftrightarrow> \<not> rg_destroyed r \<and> available_commands r > 0"

end
