(* ===== verification/Ring_Refinement.thy ===== *)
theory Ring_Refinement
  imports Ring_Queue
begin

text \<open>
  The ring of \<open>Ring_Queue\<close> as two bounded queues. A channel with consistent cursors represents the list
  of its pending slots; every operation is shown to be the list operation it stands for, across
  the wrap-around of the cursors, and damage to cursors or slots is shown to be contained.
\<close>

section \<open>The invariant of a channel\<close>

text \<open>The capacity is a power of two that fits the cursors, and the cursors are at most a capacity apart.\<close>

definition wf_channel :: "channel \<Rightarrow> bool" where
  "wf_channel ch \<longleftrightarrow> (\<exists>n < 32. ch_cap ch = 2 ^ n) \<and> length (ch_slots ch) = unat (ch_cap ch) \<and>
     ch_write ch - ch_read ch \<le> ch_cap ch"

definition pending_count :: "channel \<Rightarrow> nat" where
  "pending_count ch = unat (ch_write ch - ch_read ch)"

text \<open>The slots a reader would consume, oldest first.\<close>

definition pending_slots :: "channel \<Rightarrow> slot list" where
  "pending_slots ch = map (\<lambda>i. read_slot ch (ch_read ch + of_nat i)) [0..<pending_count ch]"

definition capacity :: "channel \<Rightarrow> nat" where
  "capacity ch = unat (ch_cap ch)"

lemma unat_exp: "n < 32 \<Longrightarrow> unat ((2 :: 32 word) ^ n) = 2 ^ n"
proof -
  assume "n < 32"
  then have "(2::nat) ^ n < 2 ^ 32" by (intro power_strict_increasing) simp_all
  moreover have "(2 :: 32 word) ^ n = of_nat (2 ^ n)" by simp
  ultimately show ?thesis by (simp only: unat_of_nat) simp
qed

lemma cap_power:
  assumes "wf_channel ch"
  obtains n where "n < 32" "ch_cap ch = 2 ^ n" "capacity ch = 2 ^ n"
proof -
  from assms obtain n where n: "n < 32" "ch_cap ch = 2 ^ n" by (auto simp: wf_channel_def)
  then have "capacity ch = 2 ^ n" by (simp add: capacity_def unat_exp)
  with n that show ?thesis by blast
qed

lemma slot_index_mod:
  assumes "wf_channel ch"
  shows "slot_index ch i = unat i mod capacity ch"
proof -
  from assms obtain n where n: "n < 32" "ch_cap ch = 2 ^ n" "capacity ch = 2 ^ n" by (rule cap_power)
  have "i AND (2 ^ n - 1) = take_bit n i" by (simp add: take_bit_eq_mask mask_eq_exp_minus_1)
  then show ?thesis using n by (simp add: slot_index_def take_bit_eq_mod unat_mod unat_exp)
qed

lemma capacity_pos: "wf_channel ch \<Longrightarrow> 0 < capacity ch"
  by (erule cap_power) simp

lemma slot_index_less: "wf_channel ch \<Longrightarrow> slot_index ch i < length (ch_slots ch)"
  using capacity_pos [of ch] by (simp add: slot_index_mod) (simp add: wf_channel_def capacity_def)

text \<open>Cursors wrap at \<open>2^32\<close>, a multiple of the capacity, so slot numbers do not notice.\<close>

lemma slot_index_add:
  assumes "wf_channel ch"
  shows "slot_index ch (i + of_nat k) = (unat i + k) mod capacity ch"
proof -
  from assms obtain n where n: "n < 32" "capacity ch = 2 ^ n" by (rule cap_power)
  have d: "2 ^ n dvd (2 ^ 32 :: nat)" using n(1) by (intro le_imp_power_dvd) simp
  have "unat (i + of_nat k) = (unat i + k) mod 2 ^ 32"
    by (simp add: unat_word_ariths unat_of_nat mod_simps)
  then show ?thesis using d by (simp add: slot_index_mod [OF assms] n(2) mod_mod_cancel)
qed

lemma mod_inj_window:
  assumes "(a + i) mod n = (a + j) mod n" "i < n" "j < (n::nat)"
  shows "i = j"
proof -
  have "i = j" if "i \<le> j" "(a + j) mod n = (a + i) mod n" "j < n" for i j
  proof -
    have "n dvd (a + j) - (a + i)" using that by (intro mod_eq_dvd_iff_nat [THEN iffD1]) simp_all
    with that show ?thesis using dvd_imp_le [of n "j - i"] by (cases "j - i = 0") auto
  qed
  from this [of i j] this [of j i] assms show ?thesis by (cases "i \<le> j") auto
qed

section \<open>The operations on the queue they represent\<close>

lemma pending_le: "wf_channel ch \<Longrightarrow> pending_count ch \<le> capacity ch"
  by (simp add: wf_channel_def pending_count_def capacity_def word_le_nat_alt)

lemma length_pending [simp]: "length (pending_slots ch) = pending_count ch"
  by (simp add: pending_slots_def)

lemma checked_pending_ok:
  "wf_channel ch \<Longrightarrow> checked_pending (ch_write ch) (ch_read ch) (ch_cap ch) = Inr (ch_write ch - ch_read ch)"
  by (auto simp: checked_pending_def wf_channel_def Let_def not_less)

lemma pending_full: "ch_write ch - ch_read ch = ch_cap ch \<longleftrightarrow> pending_count ch = capacity ch"
  by (simp add: pending_count_def capacity_def word_unat_eq_iff)

lemma pending_zero: "ch_write ch - ch_read ch = 0 \<longleftrightarrow> pending_count ch = 0"
  by (simp add: pending_count_def unat_eq_0)

lemma unat_succ: "unat x + 1 < 2 ^ 32 \<Longrightarrow> unat (x + 1 :: 32 word) = Suc (unat x)"
  by (simp add: unat_word_ariths)

lemma pending_Suc:
  assumes "wf_channel ch" "pending_count ch < capacity ch"
  shows "unat (ch_write ch + 1 - ch_read ch) = Suc (pending_count ch)"
proof -
  from assms(1) obtain n where "n < 32" "capacity ch = 2 ^ n" by (rule cap_power)
  then have "capacity ch < 2 ^ 32" using power_strict_increasing [of n 32 "2::nat"] by simp
  with assms(2) have "pending_count ch + 1 < 2 ^ 32" by simp
  moreover have "ch_write ch + 1 - ch_read ch = (ch_write ch - ch_read ch) + 1" by simp
  ultimately show ?thesis unfolding pending_count_def by (metis unat_succ)
qed

lemma read_slot_pending:
  assumes "wf_channel ch"
  shows "read_slot ch (ch_read ch + of_nat i) = ch_slots ch ! ((unat (ch_read ch) + i) mod capacity ch)"
  by (simp add: read_slot_def slot_index_add [OF assms])

lemma write_cursor: "ch_write ch = ch_read ch + of_nat (pending_count ch)"
  by (simp add: pending_count_def)

lemma store_slot_wf:
  assumes "wf_channel ch" "pending_count ch < capacity ch"
  shows "wf_channel (store_slot s ch)" "pending_slots (store_slot s ch) = pending_slots ch @ [s]"
    "capacity (store_slot s ch) = capacity ch"
proof -
  let ?ch = "store_slot s ch" and ?N = "capacity ch" and ?R = "unat (ch_read ch)"
  have f: "ch_cap ?ch = ch_cap ch" "ch_read ?ch = ch_read ch" "ch_write ?ch = ch_write ch + 1"
    "ch_slots ?ch = (ch_slots ch)[(?R + pending_count ch) mod ?N := s]"
    using slot_index_add [OF assms(1), of "ch_read ch" "pending_count ch"] by (simp_all add: store_slot_def flip: write_cursor)
  have p: "pending_count ?ch = Suc (pending_count ch)"
    using pending_Suc [OF assms] by (simp add: pending_count_def f)
  show c: "capacity ?ch = ?N" by (simp add: capacity_def f)
  show w: "wf_channel ?ch"
    using assms p unfolding wf_channel_def f word_le_nat_alt
    by (simp add: pending_count_def f capacity_def)
  have len: "length (ch_slots ch) = ?N" using assms(1) by (simp add: wf_channel_def capacity_def)
  have pos: "0 < ?N" using assms(2) by simp
  have r: "read_slot ?ch (ch_read ch + of_nat i) = (if i = pending_count ch then s else read_slot ch (ch_read ch + of_nat i))"
    if "i \<le> pending_count ch" for i
  proof -
    have "(?R + pending_count ch) mod ?N = (?R + i) mod ?N \<longleftrightarrow> i = pending_count ch"
      using mod_inj_window [of ?R i ?N "pending_count ch"] that assms(2) by auto
    then show ?thesis
      using read_slot_pending [OF w, of i] read_slot_pending [OF assms(1), of i] pos
      by (simp add: f c len nth_list_update)
  qed
  have "map (\<lambda>i. read_slot ?ch (ch_read ch + of_nat i)) [0..<pending_count ch] = map (\<lambda>i. read_slot ch (ch_read ch + of_nat i)) [0..<pending_count ch]"
    by (rule map_cong) (use r in auto)
  with r [of "pending_count ch"] show "pending_slots ?ch = pending_slots ch @ [s]"
    by (simp add: pending_slots_def p f)
qed

lemma advance_read:
  assumes "wf_channel ch" "0 < pending_count ch"
  shows "wf_channel (ch\<lparr>ch_read := ch_read ch + 1\<rparr>)"
    "pending_slots ch = read_slot ch (ch_read ch) # pending_slots (ch\<lparr>ch_read := ch_read ch + 1\<rparr>)"
    "capacity (ch\<lparr>ch_read := ch_read ch + 1\<rparr>) = capacity ch"
proof -
  let ?ch = "ch\<lparr>ch_read := ch_read ch + 1\<rparr>"
  have nz: "ch_write ch - ch_read ch \<noteq> 0" using assms(2) by (auto simp: pending_count_def)
  have e: "ch_write ch - (ch_read ch + 1) = (ch_write ch - ch_read ch) - 1" by simp
  have p: "pending_count ?ch = pending_count ch - 1"
    using unat_minus_one [OF nz] unfolding e [symmetric] by (simp add: pending_count_def)
  show "capacity ?ch = capacity ch" by (simp add: capacity_def)
  show "wf_channel ?ch" using assms(1) p pending_le [OF assms(1)]
    unfolding wf_channel_def word_le_nat_alt by (auto simp: pending_count_def capacity_def)
  have "read_slot ?ch i = read_slot ch i" for i by (simp add: read_slot_def slot_index_def)
  moreover from assms(2) obtain m where m: "pending_count ch = Suc m" by (cases "pending_count ch") auto
  ultimately show "pending_slots ch = read_slot ch (ch_read ch) # pending_slots ?ch"
    by (simp add: pending_slots_def p upt_rec [of 0] map_Suc_upt [symmetric] del: upt_Suc map_Suc_upt)
      (simp add: comp_def algebra_simps)
qed

section \<open>Bounded queues\<close>

text \<open>
  The contract of one direction: a bounded first-in first-out queue. The client lemma says what a
  sequence of attempts to send and receive delivers, from the laws alone.
\<close>

datatype 'a queue_op = Put 'a | Get

locale bounded_fifo =
  fixes inv :: "'c \<Rightarrow> bool" and contents :: "'c \<Rightarrow> 'a list" and bound :: "'c \<Rightarrow> nat"
    and enq :: "'a \<Rightarrow> 'c \<Rightarrow> bool \<times> 'c" and deq :: "'c \<Rightarrow> 'a option \<times> 'c"
  assumes bounded: "inv c \<Longrightarrow> length (contents c) \<le> bound c"
    and enq_room: "inv c \<Longrightarrow> length (contents c) < bound c \<Longrightarrow> fst (enq x c) \<and> inv (snd (enq x c)) \<and>
      contents (snd (enq x c)) = contents c @ [x] \<and> bound (snd (enq x c)) = bound c"
    and enq_full: "inv c \<Longrightarrow> length (contents c) = bound c \<Longrightarrow> enq x c = (False, c)"
    and deq_some: "inv c \<Longrightarrow> contents c = y # ys \<Longrightarrow> fst (deq c) = Some y \<and> inv (snd (deq c)) \<and>
      contents (snd (deq c)) = ys \<and> bound (snd (deq c)) = bound c"
    and deq_none: "inv c \<Longrightarrow> contents c = [] \<Longrightarrow> deq c = (None, c)"
begin

text \<open>A run returns what was accepted and what was delivered.\<close>

primrec run :: "'a queue_op list \<Rightarrow> 'c \<Rightarrow> 'a list \<times> 'a list \<times> 'c" where
  "run [] c = ([], [], c)"
| "run (op # ops) c =
     (case op of
        Put x \<Rightarrow> (let (ok, c1) = enq x c; (acc, del, c2) = run ops c1 in (if ok then x # acc else acc, del, c2))
      | Get \<Rightarrow> (let (r, c1) = deq c; (acc, del, c2) = run ops c1
                in (acc, case r of Some y \<Rightarrow> y # del | None \<Rightarrow> del, c2)))"

lemma run_fifo:
  "inv c \<Longrightarrow> run ops c = (acc, del, c') \<Longrightarrow>
     inv c' \<and> bound c' = bound c \<and> contents c @ acc = del @ contents c' \<and> length (contents c') \<le> bound c"
proof (induction ops arbitrary: c acc del c')
  case Nil
  then show ?case using bounded by auto
next
  case (Cons op ops)
  show ?case
  proof (cases op)
    case (Put x)
    obtain ok c1 where e: "enq x c = (ok, c1)" by fastforce
    obtain acc1 del1 c2 where r: "run ops c1 = (acc1, del1, c2)" by (metis prod_cases3)
    have out: "acc = (if ok then x # acc1 else acc1)" "del = del1" "c' = c2"
      using Cons.prems(2) Put e r by auto
    show ?thesis
    proof (cases "length (contents c) < bound c")
      case True
      with enq_room [OF Cons.prems(1) True, of x] e Cons.IH [OF _ r] out show ?thesis by auto
    next
      case False
      with bounded [OF Cons.prems(1)] enq_full [OF Cons.prems(1), of x] e have "ok = False" "c1 = c" by auto
      with Cons.IH [OF _ r] Cons.prems(1) out show ?thesis by auto
    qed
  next
    case Get
    obtain r1 c1 where e: "deq c = (r1, c1)" by fastforce
    obtain acc1 del1 c2 where r: "run ops c1 = (acc1, del1, c2)" by (metis prod_cases3)
    have out: "acc = acc1" "del = (case r1 of Some y \<Rightarrow> y # del1 | None \<Rightarrow> del1)" "c' = c2"
      using Cons.prems(2) Get e r by auto
    show ?thesis
    proof (cases "contents c")
      case Nil
      with deq_none [OF Cons.prems(1) Nil] e have "r1 = None" "c1 = c" by auto
      with Cons.IH [OF _ r] Cons.prems(1) out show ?thesis by auto
    next
      case (Cons y ys)
      with deq_some [OF Cons.prems(1) Cons] e Cons.IH [OF _ r] out show ?thesis by auto
    qed
  qed
qed

end

section \<open>A channel is a bounded queue\<close>

definition valid_slot :: "slot \<Rightarrow> bool" where
  "valid_slot s \<longleftrightarrow> checksum_of (sl_payload s) = sl_checksum s"

lemma valid_make_slot [simp]: "valid_slot (make_slot p)" "sl_payload (make_slot p) = p"
  by (simp_all add: valid_slot_def make_slot_def)

text \<open>A healthy channel: consistent cursors, and every pending slot intact.\<close>

definition ok_channel :: "channel \<Rightarrow> bool" where
  "ok_channel ch \<longleftrightarrow> wf_channel ch \<and> list_all valid_slot (pending_slots ch)"

definition queue_of :: "channel \<Rightarrow> bytes list" where
  "queue_of ch = map sl_payload (pending_slots ch)"

definition enqueue :: "bytes \<Rightarrow> channel \<Rightarrow> bool \<times> channel" where
  "enqueue p ch = (case push_slot (make_slot p) ch of (res, ch') \<Rightarrow> (res = Inr True, ch'))"

definition dequeue :: "channel \<Rightarrow> bytes option \<times> channel" where
  "dequeue ch = (case pop_slot ch of (Inr r, ch') \<Rightarrow> (r, ch') | (Inl _, ch') \<Rightarrow> (None, ch'))"

lemma push_slot_room:
  "wf_channel ch \<Longrightarrow> pending_count ch < capacity ch \<Longrightarrow> push_slot s ch = (Inr True, store_slot s ch)"
  using pending_full [of ch] by (simp add: push_slot_def checked_pending_ok)

lemma push_slot_full:
  "wf_channel ch \<Longrightarrow> pending_count ch = capacity ch \<Longrightarrow> push_slot s ch = (Inr False, ch)"
  using pending_full [of ch] by (simp add: push_slot_def checked_pending_ok)

lemma pop_slot_empty: "wf_channel ch \<Longrightarrow> pending_count ch = 0 \<Longrightarrow> pop_slot ch = (Inr None, ch)"
  by (simp only: pop_slot_def checked_pending_ok sum.case pending_zero if_True simp_thms)

lemma pop_slot_some:
  "wf_channel ch \<Longrightarrow> 0 < pending_count ch \<Longrightarrow>
   pop_slot ch = (verify_slot (read_slot ch (ch_read ch)), ch\<lparr>ch_read := ch_read ch + 1\<rparr>)"
  using pending_zero [of ch] by (simp add: pop_slot_def checked_pending_ok)

lemma length_queue_of [simp]: "length (queue_of ch) = pending_count ch"
  by (simp add: queue_of_def)

lemma ok_store:
  assumes "ok_channel ch" "pending_count ch < capacity ch"
  shows "ok_channel (store_slot (make_slot p) ch)" "queue_of (store_slot (make_slot p) ch) = queue_of ch @ [p]"
    "capacity (store_slot (make_slot p) ch) = capacity ch"
  using assms store_slot_wf [of ch "make_slot p"] by (simp_all add: ok_channel_def queue_of_def)

lemma ok_advance:
  assumes "ok_channel ch" "queue_of ch = y # ys"
  shows "ok_channel (ch\<lparr>ch_read := ch_read ch + 1\<rparr>)" "queue_of (ch\<lparr>ch_read := ch_read ch + 1\<rparr>) = ys"
    "verify_slot (read_slot ch (ch_read ch)) = Inr (Some y)" "capacity (ch\<lparr>ch_read := ch_read ch + 1\<rparr>) = capacity ch"
    "0 < pending_count ch"
proof -
  show p: "0 < pending_count ch" using assms(2) length_queue_of [of ch] by simp
  note a = advance_read [OF _ p]
  have w: "wf_channel ch" using assms(1) by (simp add: ok_channel_def)
  show "ok_channel (ch\<lparr>ch_read := ch_read ch + 1\<rparr>)" "queue_of (ch\<lparr>ch_read := ch_read ch + 1\<rparr>) = ys"
    "verify_slot (read_slot ch (ch_read ch)) = Inr (Some y)" "capacity (ch\<lparr>ch_read := ch_read ch + 1\<rparr>) = capacity ch"
    using assms a [OF w] by (simp_all add: ok_channel_def queue_of_def verify_slot_def valid_slot_def)
qed

interpretation fifo: bounded_fifo ok_channel queue_of capacity enqueue dequeue
proof
  fix c x y ys
  assume ok: "ok_channel c"
  then have w: "wf_channel c" by (simp add: ok_channel_def)
  show "length (queue_of c) \<le> capacity c" using pending_le [OF w] by simp
  show "fst (enqueue x c) \<and> ok_channel (snd (enqueue x c)) \<and> queue_of (snd (enqueue x c)) = queue_of c @ [x] \<and>
      capacity (snd (enqueue x c)) = capacity c" if "length (queue_of c) < capacity c"
    using that push_slot_room [OF w] ok_store [OF ok] by (simp add: enqueue_def)
  show "enqueue x c = (False, c)" if "length (queue_of c) = capacity c"
    using that push_slot_full [OF w] by (simp add: enqueue_def)
  show "fst (dequeue c) = Some y \<and> ok_channel (snd (dequeue c)) \<and> queue_of (snd (dequeue c)) = ys \<and>
      capacity (snd (dequeue c)) = capacity c" if "queue_of c = y # ys"
    using ok_advance [OF ok that] pop_slot_some [OF w] by (simp add: dequeue_def)
  show "dequeue c = (None, c)" if "queue_of c = []"
  proof -
    have "pending_count c = 0" using that length_queue_of [of c] by simp
    then show ?thesis using pop_slot_empty [OF w] by (simp add: dequeue_def)
  qed
qed

section \<open>The ring refines two plain queues\<close>

datatype ring_op = Write bytes | Overwrite bytes | Read | Latest | Peek | Drain nat | Send bytes | Receive

datatype ring_reply = Sent "bool io_result" | Wrote "unit io_result" | Got "bytes option io_result" | Many "bytes list io_result"

text \<open>The operations of a live ring whose locks are free.\<close>

fun ring_exec :: "64 word \<Rightarrow> ring_op \<Rightarrow> ring \<Rightarrow> ring_reply \<times> ring" where
  "ring_exec now (Write p) r = (case try_write_message None False now p r of (x, r') \<Rightarrow> (Sent x, r'))"
| "ring_exec now (Overwrite p) r = (case write_message_overwrite None False None now p r of (x, r') \<Rightarrow> (Wrote x, r'))"
| "ring_exec now Read r = (case read_next_message_until None False r of (x, r') \<Rightarrow> (Got x, r'))"
| "ring_exec now Latest r = (case try_read_latest_message None False r of (x, r') \<Rightarrow> (Got x, r'))"
| "ring_exec now Peek r = (case try_peek_message None False r of (x, r') \<Rightarrow> (Got x, r'))"
| "ring_exec now (Drain n) r = (case drain_messages None False n r of (x, r') \<Rightarrow> (Many x, r'))"
| "ring_exec now (Send p) r = (case try_send_command None False p r of (x, r') \<Rightarrow> (Sent x, r'))"
| "ring_exec now Receive r = (case receive_command_until None False r of (x, r') \<Rightarrow> (Got x, r'))"

text \<open>The specification: two lists with bounds.\<close>

definition first_option :: "'a list \<Rightarrow> 'a option" where
  "first_option q = (case q of [] \<Rightarrow> None | x # _ \<Rightarrow> Some x)"

fun queue_spec :: "nat \<Rightarrow> nat \<Rightarrow> ring_op \<Rightarrow> bytes list \<times> bytes list \<Rightarrow> ring_reply \<times> bytes list \<times> bytes list" where
  "queue_spec n k (Write p) (q, c) = (if length q < n then (Sent (Inr True), q @ [p], c) else (Sent (Inr False), q, c))"
| "queue_spec n k (Overwrite p) (q, c) = (Wrote (Inr ()), (if length q < n then q else tl q) @ [p], c)"
| "queue_spec n k Read (q, c) = (Got (Inr (first_option q)), tl q, c)"
| "queue_spec n k Latest (q, c) = (Got (Inr (first_option (rev q))), [], c)"
| "queue_spec n k Peek (q, c) = (Got (Inr (first_option q)), q, c)"
| "queue_spec n k (Drain m) (q, c) = (Many (Inr (take m q)), drop m q, c)"
| "queue_spec n k (Send p) (q, c) = (if length c < k then (Sent (Inr True), q, c @ [p]) else (Sent (Inr False), q, c))"
| "queue_spec n k Receive (q, c) = (Got (Inr (first_option c)), q, tl c)"

definition ok_ring :: "ring \<Rightarrow> bool" where
  "ok_ring r \<longleftrightarrow> \<not> rg_destroyed r \<and> ok_channel (rg_messages r) \<and> ok_channel (rg_commands r)"

definition ring_abs :: "ring \<Rightarrow> bytes list \<times> bytes list" where
  "ring_abs r = (queue_of (rg_messages r), queue_of (rg_commands r))"

definition ring_caps :: "ring \<Rightarrow> nat \<times> nat" where
  "ring_caps r = (capacity (rg_messages r), capacity (rg_commands r))"

lemma queue_cases:
  obtains "queue_of ch = []" "pending_count ch = 0" | y ys where "queue_of ch = y # ys" "0 < pending_count ch"
  using length_queue_of [of ch] by (cases "queue_of ch") auto

lemma pop_slot_spec:
  assumes "ok_channel ch"
  shows "fst (pop_slot ch) = Inr (first_option (queue_of ch))" "ok_channel (snd (pop_slot ch))"
    "queue_of (snd (pop_slot ch)) = tl (queue_of ch)" "capacity (snd (pop_slot ch)) = capacity ch"
proof -
  have w: "wf_channel ch" using assms by (simp add: ok_channel_def)
  have "fst (pop_slot ch) = Inr (first_option (queue_of ch)) \<and> ok_channel (snd (pop_slot ch)) \<and>
    queue_of (snd (pop_slot ch)) = tl (queue_of ch) \<and> capacity (snd (pop_slot ch)) = capacity ch"
  proof (cases rule: queue_cases [of ch])
    case 1
    with assms pop_slot_empty [OF w] show ?thesis by (simp add: first_option_def)
  next
    case (2 y ys)
    with ok_advance [OF assms 2(1)] pop_slot_some [OF w] show ?thesis by (simp add: first_option_def)
  qed
  then show "fst (pop_slot ch) = Inr (first_option (queue_of ch))" "ok_channel (snd (pop_slot ch))"
    "queue_of (snd (pop_slot ch)) = tl (queue_of ch)" "capacity (snd (pop_slot ch)) = capacity ch" by blast+
qed

lemma push_slot_spec:
  assumes "ok_channel ch"
  shows "push_slot (make_slot p) ch = (if length (queue_of ch) < capacity ch then (Inr True, store_slot (make_slot p) ch) else (Inr False, ch))"
  using assms pending_le [of ch] push_slot_room [of ch] push_slot_full [of ch] by (auto simp: ok_channel_def)

text \<open>Draining skips torn slots; what it leaves is what it did not look at.\<close>

lemma drain_loop_slots:
  "wf_channel ch \<Longrightarrow> n \<le> pending_count ch \<Longrightarrow> drain_loop n room ch = (out, ch') \<Longrightarrow>
     wf_channel ch' \<and> capacity ch' = capacity ch \<and>
     (\<exists>used. pending_slots ch = used @ pending_slots ch' \<and> out = map sl_payload (filter valid_slot used) \<and> length out \<le> room \<and>
        (length out = room \<or> length used = n))"
proof (induction n arbitrary: room ch out ch')
  case 0
  then show ?case by auto
next
  case (Suc n)
  show ?case
  proof (cases "room = 0")
    case True
    with Suc.prems show ?thesis by auto
  next
    case False
    let ?ch = "ch\<lparr>ch_read := ch_read ch + 1\<rparr>" and ?s = "read_slot ch (ch_read ch)"
    have p: "0 < pending_count ch" using Suc.prems(2) by simp
    note a = advance_read [OF Suc.prems(1) p]
    have n: "n \<le> pending_count ?ch" using Suc.prems(2) arg_cong [OF a(2), of length] by simp
    show ?thesis
    proof (cases "valid_slot ?s")
      case True
      then obtain out1 where d: "drain_loop n (room - 1) ?ch = (out1, ch')" "out = sl_payload ?s # out1"
        using Suc.prems(3) False by (auto simp: valid_slot_def Let_def split: prod.splits)
      from Suc.IH [OF a(1) n d(1)] a(2,3) obtain used where
        "wf_channel ch'" "capacity ch' = capacity ch" "pending_slots ch = (?s # used) @ pending_slots ch'"
        "out1 = map sl_payload (filter valid_slot used)" "length out1 \<le> room - 1" "length out1 = room - 1 \<or> length used = n" by auto
      with True d(2) False show ?thesis by (intro conjI exI [of _ "?s # used"]) auto
    next
      case inv: False
      then have "drain_loop n room ?ch = (out, ch')"
        using Suc.prems(3) False by (auto simp: valid_slot_def Let_def)
      from Suc.IH [OF a(1) n this] a(2,3) obtain used where
        "wf_channel ch'" "capacity ch' = capacity ch" "pending_slots ch = (?s # used) @ pending_slots ch'"
        "out = map sl_payload (filter valid_slot used)" "length out \<le> room" "length out = room \<or> length used = n" by auto
      with inv show ?thesis by (intro conjI exI [of _ "?s # used"]) auto
    qed
  qed
qed

lemma drain_loop_ok:
  assumes "ok_channel ch" "drain_loop (pending_count ch) room ch = (out, ch')"
  shows "ok_channel ch' \<and> capacity ch' = capacity ch \<and> out = take room (queue_of ch) \<and> queue_of ch' = drop room (queue_of ch)"
proof -
  have w: "wf_channel ch" and v: "list_all valid_slot (pending_slots ch)" using assms(1) by (auto simp: ok_channel_def)
  from drain_loop_slots [OF w order_refl assms(2)] obtain used where u: "wf_channel ch'" "capacity ch' = capacity ch"
    "pending_slots ch = used @ pending_slots ch'" "out = map sl_payload (filter valid_slot used)" "length out \<le> room"
    "length out = room \<or> length used = pending_count ch" by blast
  have "filter valid_slot used = used" using v u(3) by (simp add: filter_id_conv list_all_iff)
  then have o: "out = map sl_payload used" using u(4) by simp
  have q: "queue_of ch = out @ queue_of ch'" by (simp add: queue_of_def u(3) o)
  have "length out = room \<or> queue_of ch' = []" using u(6) o arg_cong [OF q, of length] by (cases "queue_of ch'") auto
  with q u(5) have "out = take room (queue_of ch)" "queue_of ch' = drop room (queue_of ch)" by auto
  with u v show ?thesis by (simp add: ok_channel_def)
qed

lemma latest_spec:
  assumes "ok_channel ch" "0 < pending_count ch"
  shows "verify_slot (read_slot ch (ch_write ch - 1)) = Inr (first_option (rev (queue_of ch)))"
    "ok_channel (ch\<lparr>ch_read := ch_write ch\<rparr>)" "queue_of (ch\<lparr>ch_read := ch_write ch\<rparr>) = []"
    "capacity (ch\<lparr>ch_read := ch_write ch\<rparr>) = capacity ch"
proof -
  from assms(2) obtain m where m: "pending_count ch = Suc m" by (cases "pending_count ch") auto
  have e: "ch_write ch - 1 = ch_read ch + of_nat m" using write_cursor [of ch] m by simp
  have l: "pending_slots ch = map (\<lambda>i. read_slot ch (ch_read ch + of_nat i)) [0..<m] @ [read_slot ch (ch_write ch - 1)]"
    by (simp add: pending_slots_def m e)
  then have "valid_slot (read_slot ch (ch_write ch - 1))" using assms(1) by (simp add: ok_channel_def)
  then show "verify_slot (read_slot ch (ch_write ch - 1)) = Inr (first_option (rev (queue_of ch)))"
    by (simp add: verify_slot_def valid_slot_def queue_of_def l first_option_def)
  show "queue_of (ch\<lparr>ch_read := ch_write ch\<rparr>) = []" by (simp add: queue_of_def pending_slots_def pending_count_def)
  show "ok_channel (ch\<lparr>ch_read := ch_write ch\<rparr>)" using assms(1)
    by (auto simp: ok_channel_def wf_channel_def pending_slots_def pending_count_def)
  show "capacity (ch\<lparr>ch_read := ch_write ch\<rparr>) = capacity ch" by (simp add: capacity_def)
qed

lemma write_refines:
  assumes "ok_ring r"
  shows "\<exists>x r'. try_write_message None False now p r = (x, r') \<and> ok_ring r' \<and> ring_caps r' = ring_caps r \<and>
    queue_spec (fst (ring_caps r)) (snd (ring_caps r)) (Write p) (ring_abs r) = (Sent x, ring_abs r')"
  using assms push_slot_spec [of "rg_messages r" p] ok_store [of "rg_messages r" p]
  by (auto simp: try_write_message_def ok_ring_def ring_caps_def ring_abs_def Let_def)

lemma overwrite_refines:
  assumes "ok_ring r"
  shows "\<exists>x r'. write_message_overwrite None False None now p r = (x, r') \<and> ok_ring r' \<and> ring_caps r' = ring_caps r \<and>
    queue_spec (fst (ring_caps r)) (snd (ring_caps r)) (Overwrite p) (ring_abs r) = (Wrote x, ring_abs r')"
proof -
  let ?ch = "rg_messages r"
  have ok: "ok_channel ?ch" and w: "wf_channel ?ch" using assms by (auto simp: ok_ring_def ok_channel_def)
  show ?thesis
  proof (cases "pending_count ?ch < capacity ?ch")
    case True
    with assms ok_store [OF ok True, of p] pending_full [of ?ch] show ?thesis
      by (simp add: write_message_overwrite_def ok_ring_def ring_caps_def ring_abs_def Let_def checked_pending_ok [OF w])
  next
    case False
    then have f: "pending_count ?ch = capacity ?ch" using pending_le [OF w] by simp
    then obtain y ys where q: "queue_of ?ch = y # ys"
      using capacity_pos [OF w] length_queue_of [of ?ch] by (cases "queue_of ?ch") auto
    note a = ok_advance [OF ok q]
    have "length ys < capacity ?ch" using f q length_queue_of [of ?ch] by simp
    then have "pending_count (?ch\<lparr>ch_read := ch_read ?ch + 1\<rparr>) < capacity (?ch\<lparr>ch_read := ch_read ?ch + 1\<rparr>)"
      using a(2,4) length_queue_of [of "?ch\<lparr>ch_read := ch_read ?ch + 1\<rparr>"] by simp
    note st = ok_store [OF a(1) this, of p]
    have "write_message_overwrite None False None now p r =
        (Inr (), r\<lparr>rg_messages := store_slot (make_slot p) (?ch\<lparr>ch_read := ch_read ?ch + 1\<rparr>), rg_last_timestamp := now\<rparr>)"
      using assms f by (simp add: write_message_overwrite_def ok_ring_def Let_def checked_pending_ok [OF w] pending_full)
    moreover have "Suc (length ys) = capacity ?ch" using f q length_queue_of [of ?ch] by simp
    ultimately show ?thesis using assms st a(2,4) q by (simp add: ok_ring_def ring_caps_def ring_abs_def)
  qed
qed

lemma read_refines:
  assumes "ok_ring r"
  shows "\<exists>x r'. read_next_message_until None False r = (x, r') \<and> ok_ring r' \<and> ring_caps r' = ring_caps r \<and>
    queue_spec (fst (ring_caps r)) (snd (ring_caps r)) Read (ring_abs r) = (Got x, ring_abs r')"
  using assms pop_slot_spec [of "rg_messages r"]
  by (auto simp: read_next_message_until_def ok_ring_def ring_caps_def ring_abs_def case_prod_beta)

lemma peek_refines:
  assumes "ok_ring r"
  shows "\<exists>x r'. try_peek_message None False r = (x, r') \<and> ok_ring r' \<and> ring_caps r' = ring_caps r \<and>
    queue_spec (fst (ring_caps r)) (snd (ring_caps r)) Peek (ring_abs r) = (Got x, ring_abs r')"
proof -
  let ?ch = "rg_messages r"
  have ok: "ok_channel ?ch" and w: "wf_channel ?ch" using assms by (auto simp: ok_ring_def ok_channel_def)
  have "try_peek_message None False r = (if pending_count ?ch = 0 then Inr None else verify_slot (read_slot ?ch (ch_read ?ch)), r)"
    using assms by (simp only: try_peek_message_def ok_ring_def checked_pending_ok [OF w] Let_def sum.case pending_zero) simp
  then show ?thesis using assms ok_advance(3) [OF ok] ok_advance(5) [OF ok]
    by (cases rule: queue_cases [of ?ch]) (simp_all add: ring_abs_def first_option_def)
qed

lemma latest_refines:
  assumes "ok_ring r"
  shows "\<exists>x r'. try_read_latest_message None False r = (x, r') \<and> ok_ring r' \<and> ring_caps r' = ring_caps r \<and>
    queue_spec (fst (ring_caps r)) (snd (ring_caps r)) Latest (ring_abs r) = (Got x, ring_abs r')"
proof -
  let ?ch = "rg_messages r"
  have ok: "ok_channel ?ch" and w: "wf_channel ?ch" using assms by (auto simp: ok_ring_def ok_channel_def)
  have "try_read_latest_message None False r = (if pending_count ?ch = 0 then (Inr None, r)
      else (verify_slot (read_slot ?ch (ch_write ?ch - 1)), r\<lparr>rg_messages := ?ch\<lparr>ch_read := ch_write ?ch\<rparr>\<rparr>))"
    using assms by (simp only: try_read_latest_message_def ok_ring_def checked_pending_ok [OF w] Let_def sum.case pending_zero) simp
  then show ?thesis using assms latest_spec [OF ok]
    by (cases rule: queue_cases [of ?ch]) (simp_all add: ring_abs_def ring_caps_def ok_ring_def first_option_def)
qed

lemma drain_refines:
  assumes "ok_ring r"
  shows "\<exists>x r'. drain_messages None False n r = (x, r') \<and> ok_ring r' \<and> ring_caps r' = ring_caps r \<and>
    queue_spec (fst (ring_caps r)) (snd (ring_caps r)) (Drain n) (ring_abs r) = (Many x, ring_abs r')"
proof -
  let ?ch = "rg_messages r"
  have ok: "ok_channel ?ch" and w: "wf_channel ?ch" using assms by (auto simp: ok_ring_def ok_channel_def)
  obtain out ch' where d: "drain_loop (pending_count ?ch) n ?ch = (out, ch')" by fastforce
  have "drain_messages None False n r = (if n = 0 then (Inr [], r) else (Inr out, r\<lparr>rg_messages := ch'\<rparr>))"
    using assms d by (auto simp: drain_messages_def ok_ring_def checked_pending_ok [OF w] Let_def pending_count_def)
  with assms drain_loop_ok [OF ok d] show ?thesis by (simp add: ok_ring_def ring_caps_def ring_abs_def)
qed

lemma send_refines:
  assumes "ok_ring r"
  shows "\<exists>x r'. try_send_command None False p r = (x, r') \<and> ok_ring r' \<and> ring_caps r' = ring_caps r \<and>
    queue_spec (fst (ring_caps r)) (snd (ring_caps r)) (Send p) (ring_abs r) = (Sent x, ring_abs r')"
  using assms push_slot_spec [of "rg_commands r" p] ok_store [of "rg_commands r" p]
  by (auto simp: try_send_command_def ok_ring_def ring_caps_def ring_abs_def)

lemma receive_refines:
  assumes "ok_ring r"
  shows "\<exists>x r'. receive_command_until None False r = (x, r') \<and> ok_ring r' \<and> ring_caps r' = ring_caps r \<and>
    queue_spec (fst (ring_caps r)) (snd (ring_caps r)) Receive (ring_abs r) = (Got x, ring_abs r')"
  using assms pop_slot_spec [of "rg_commands r"]
  by (auto simp: receive_command_until_def ok_ring_def ring_caps_def ring_abs_def case_prod_beta)

lemma ring_exec_refines:
  assumes "ok_ring r" "ring_exec now op r = (reply, r')"
  shows "ok_ring r' \<and> ring_caps r' = ring_caps r \<and>
    queue_spec (fst (ring_caps r)) (snd (ring_caps r)) op (ring_abs r) = (reply, ring_abs r')"
proof (cases op)
  case (Write p)
  then show ?thesis using write_refines [OF assms(1), of now p] assms(2) by auto
next
  case (Overwrite p)
  then show ?thesis using overwrite_refines [OF assms(1), of now p] assms(2) by auto
next
  case Read
  then show ?thesis using read_refines [OF assms(1)] assms(2) by auto
next
  case Latest
  then show ?thesis using latest_refines [OF assms(1)] assms(2) by auto
next
  case Peek
  then show ?thesis using peek_refines [OF assms(1)] assms(2) by auto
next
  case (Drain n)
  then show ?thesis using drain_refines [OF assms(1), of n] assms(2) by auto
next
  case (Send p)
  then show ?thesis using send_refines [OF assms(1), of p] assms(2) by auto
next
  case Receive
  then show ?thesis using receive_refines [OF assms(1)] assms(2) by auto
qed

primrec ring_run :: "(64 word \<times> ring_op) list \<Rightarrow> ring \<Rightarrow> ring_reply list" where
  "ring_run [] r = []"
| "ring_run (o1 # ops) r = (case ring_exec (fst o1) (snd o1) r of (reply, r') \<Rightarrow> reply # ring_run ops r')"

primrec spec_run :: "nat \<Rightarrow> nat \<Rightarrow> ring_op list \<Rightarrow> bytes list \<times> bytes list \<Rightarrow> ring_reply list" where
  "spec_run n k [] q = []"
| "spec_run n k (op # ops) q = (case queue_spec n k op q of (reply, q') \<Rightarrow> reply # spec_run n k ops q')"

lemma ring_run_refines:
  "ok_ring r \<Longrightarrow> ring_run ops r = spec_run (fst (ring_caps r)) (snd (ring_caps r)) (map snd ops) (ring_abs r)"
proof (induction ops arbitrary: r)
  case (Cons o1 ops)
  obtain reply r' where e: "ring_exec (fst o1) (snd o1) r = (reply, r')" by fastforce
  note x = ring_exec_refines [OF Cons.prems e]
  show ?case using x Cons.IH [of r'] by (simp add: e case_prod_beta)
qed simp

lemma channel_new_ok: "n < 32 \<Longrightarrow> ok_channel (channel_new (2 ^ n)) \<and> queue_of (channel_new (2 ^ n)) = [] \<and> capacity (channel_new (2 ^ n)) = 2 ^ n"
  by (auto simp: ok_channel_def wf_channel_def channel_new_def queue_of_def pending_slots_def pending_count_def capacity_def unat_exp)

text \<open>
  C21. The shared ring is two bounded queues: whatever sequence of writes, overwrites, reads,
  latest-reads, peeks, drains, sends and receives is run on a new ring, and however often its
  32-bit cursors wrap, every reply is the reply of a pair of plain lists with those bounds.
\<close>

theorem ring_refines_queues:
  assumes "n < 32" "k < 32"
  shows "ring_run ops (ring_new (2 ^ n) (2 ^ k)) = spec_run (2 ^ n) (2 ^ k) (map snd ops) ([], [])"
proof -
  have "ok_ring (ring_new (2 ^ n) (2 ^ k))" using assms channel_new_ok by (simp add: ok_ring_def ring_new_def)
  from ring_run_refines [OF this, of ops] show ?thesis
    using assms channel_new_ok by (simp add: ring_caps_def ring_abs_def ring_new_def)
qed

theorem ring_refines_queues_witness:
  "ring_run [(0, Write [1]), (0, Overwrite [2]), (0, Write [3]), (0, Overwrite [4]), (0, Read), (0, Latest)] (ring_new (2 ^ 1) (2 ^ 0)) =
     [Sent (Inr True), Wrote (Inr ()), Sent (Inr False), Wrote (Inr ()), Got (Inr (Some [2])), Got (Inr (Some [4]))]"
  by (subst ring_refines_queues) (simp_all add: first_option_def)

text \<open>
  One direction is first-in first-out and loses nothing: after any run of attempts to enqueue
  and dequeue, the old contents followed by what was accepted are what was delivered followed by
  the new contents, and the contents never exceed the capacity.
\<close>

theorem channel_delivers_in_order:
  assumes "ok_channel ch" "fifo.run ops ch = (accepted, delivered, ch')"
  shows "queue_of ch @ accepted = delivered @ queue_of ch' \<and> ok_channel ch' \<and> length (queue_of ch') \<le> capacity ch"
  using fifo.run_fifo [OF assms] by simp

theorem channel_delivers_in_order_witness:
  "case fifo.run [Put [1], Put [2], Put [3], Get] (channel_new 2) of
     (accepted, delivered, ch') \<Rightarrow> accepted = delivered @ queue_of ch' \<and> length (queue_of ch') \<le> 2"
proof -
  have ok: "ok_channel (channel_new 2)" "queue_of (channel_new 2) = []" "capacity (channel_new 2) = 2"
    using channel_new_ok [of 1] by simp_all
  obtain acc del ch' where r: "fifo.run [Put [1], Put [2], Put [3], Get] (channel_new 2) = (acc, del, ch')" by (metis prod_cases3)
  from channel_delivers_in_order [OF ok(1) r] ok(2,3) show ?thesis unfolding r by simp
qed

section \<open>Damage\<close>

text \<open>
  A peer that corrupts a cursor cannot make an operation touch memory: when the cursors are
  further apart than the capacity, every message operation answers \<open>InvalidData\<close> and leaves the ring
  exactly as it was.
\<close>

theorem bad_cursors_are_rejected:
  assumes "\<not> rg_destroyed r" "ch_cap (rg_messages r) < ch_write (rg_messages r) - ch_read (rg_messages r)" "0 < wanted"
  shows "try_write_message None False now p r = (Inl InvalidData, r) \<and>
    write_message_overwrite None False None now p r = (Inl InvalidData, r) \<and>
    read_next_message_until None False r = (Inl InvalidData, r) \<and>
    try_read_latest_message None False r = (Inl InvalidData, r) \<and>
    try_peek_message None False r = (Inl InvalidData, r) \<and>
    drain_messages None False wanted r = (Inl InvalidData, r)"
  using assms
  by (simp add: try_write_message_def write_message_overwrite_def read_next_message_until_def try_read_latest_message_def
      try_peek_message_def drain_messages_def push_slot_def pop_slot_def checked_pending_def Let_def)

definition damaged_ring :: ring where
  "damaged_ring = (ring_new 2 2)\<lparr>rg_messages := (channel_new 2)\<lparr>ch_write := 7\<rparr>\<rparr>"

theorem bad_cursors_are_rejected_witness:
  "try_read_latest_message None False damaged_ring = (Inl InvalidData, damaged_ring)"
proof -
  have "\<not> rg_destroyed damaged_ring"
    "ch_cap (rg_messages damaged_ring) < ch_write (rg_messages damaged_ring) - ch_read (rg_messages damaged_ring)" by code_simp+
  from bad_cursors_are_rejected [OF this, of 1] show ?thesis by simp
qed

text \<open>
  A torn slot costs one message: reading it reports \<open>InvalidData\<close> and moves past it, peeking
  reports it and moves nothing, and a drain skips it and returns the intact messages that follow.
\<close>

theorem torn_slot_is_skipped:
  assumes "\<not> rg_destroyed r" "wf_channel (rg_messages r)" "pending_slots (rg_messages r) = s # rest" "\<not> valid_slot s" "0 < wanted"
  shows "fst (read_next_message_until None False r) = Inl InvalidData \<and>
    pending_slots (rg_messages (snd (read_next_message_until None False r))) = rest \<and>
    try_peek_message None False r = (Inl InvalidData, r) \<and>
    (\<exists>used left. rest = used @ left \<and> pending_slots (rg_messages (snd (drain_messages None False wanted r))) = left \<and>
       fst (drain_messages None False wanted r) = Inr (map sl_payload (filter valid_slot used)))"
proof -
  let ?ch = "rg_messages r"
  have p: "0 < pending_count ?ch" using assms(3) length_pending [of ?ch] by simp
  note a = advance_read [OF assms(2) p]
  have s: "read_slot ?ch (ch_read ?ch) = s" "pending_slots (?ch\<lparr>ch_read := ch_read ?ch + 1\<rparr>) = rest"
    using a(2) assms(3) by simp_all
  have v: "verify_slot s = Inl InvalidData" using assms(4) by (simp add: verify_slot_def valid_slot_def)
  have read: "read_next_message_until None False r = (Inl InvalidData, r\<lparr>rg_messages := ?ch\<lparr>ch_read := ch_read ?ch + 1\<rparr>\<rparr>)"
    using assms(1) pop_slot_some [OF assms(2) p] s v by (simp add: read_next_message_until_def)
  have peek: "try_peek_message None False r = (Inl InvalidData, r)"
    using assms(1) p s v by (simp only: try_peek_message_def checked_pending_ok [OF assms(2)] Let_def sum.case pending_zero) simp
  obtain out ch' where d: "drain_loop (pending_count ?ch) wanted ?ch = (out, ch')" by fastforce
  have drain: "drain_messages None False wanted r = (Inr out, r\<lparr>rg_messages := ch'\<rparr>)"
    using assms(1,5) d by (auto simp: drain_messages_def checked_pending_ok [OF assms(2)] Let_def pending_count_def)
  from drain_loop_slots [OF assms(2) order_refl d] obtain used where u: "pending_slots ?ch = used @ pending_slots ch'"
    "out = map sl_payload (filter valid_slot used)" "length out = wanted \<or> length used = pending_count ?ch" by blast
  then have "used \<noteq> []" using p assms(5) by auto
  then obtain used' where u': "used = s # used'" using u(1) assms(3) by (cases used) auto
  with u assms(3,4) show ?thesis using read peek drain s by (intro conjI exI [of _ used'] exI [of _ "pending_slots ch'"]) auto
qed

definition torn_ring :: ring where
  "torn_ring = (ring_new 2 2)\<lparr>rg_messages := store_slot (make_slot [9]) (store_slot ((make_slot [5])\<lparr>sl_checksum := 1\<rparr>) (channel_new 2))\<rparr>"

theorem torn_slot_is_skipped_witness:
  "fst (read_next_message_until None False torn_ring) = Inl InvalidData \<and>
   map sl_payload (pending_slots (rg_messages (snd (read_next_message_until None False torn_ring)))) = [[9]]"
proof -
  let ?bad = "(make_slot [5])\<lparr>sl_checksum := 1\<rparr>"
  have c: "wf_channel (channel_new 2)" "pending_slots (channel_new 2) = []" "capacity (channel_new 2) = 2"
    using channel_new_ok [of 1] by (simp_all add: ok_channel_def queue_of_def)
  then have p0: "pending_count (channel_new 2) = 0" using length_pending [of "channel_new 2"] by simp
  note s1 = store_slot_wf [OF c(1), of ?bad, simplified p0 c(2,3), simplified]
  have p1: "pending_count (store_slot ?bad (channel_new 2)) = 1" using arg_cong [OF s1(2), of length] by simp
  note s2 = store_slot_wf [OF s1(1), of "make_slot [9]", simplified p1 s1(2,3), simplified]
  have b: "\<not> valid_slot ?bad" by code_simp
  from torn_slot_is_skipped [of torn_ring ?bad "[make_slot [9]]" 1] s2 b show ?thesis
    by (simp add: torn_ring_def ring_new_def)
qed

end
