(* ===== verification/Ring_Concurrent.thy ===== *)
theory Ring_Concurrent
  imports Ring_Refinement
begin

text \<open>
  The message direction under interleaving. Every load and store of the cursors, the slots and the
  lock words is a step of its own, any number of tasks produce, overwrite and consume, and a task
  may die at any point: inside its critical section, holding one or both locks, in the middle of
  writing a slot. A lock whose holder died is taken over, as \<open>CursorGuard\<close> does. The ghost lists
  record what was published and what was consumed.
\<close>

datatype pc =
    Idle
  | W_Locked bool slot
  | W_Loaded bool slot "32 word" "32 word"
  | W_Ready slot "32 word"
  | W_Stored slot "32 word"
  | W_Unlock
  | O_Locked slot "32 word"
  | O_Loaded slot "32 word" "32 word"
  | O_Release bool slot "32 word"
  | R_Locked
  | R_Loaded "32 word" "32 word"
  | R_Taken "32 word" slot
  | R_Unlock

text \<open>Lock words hold the task identifier of the holder, 0 when free.\<close>

record conc =
  cn_ch :: channel
  cn_wlock :: nat
  cn_rlock :: nat
  cn_pc :: "nat \<Rightarrow> pc"
  cn_dead :: "nat \<Rightarrow> bool"
  cn_published :: "slot list"
  cn_consumed :: "slot list"

definition goto :: "nat \<Rightarrow> pc \<Rightarrow> conc \<Rightarrow> conc" where
  "goto t p c = c\<lparr>cn_pc := (cn_pc c)(t := p)\<rparr>"

definition running :: "conc \<Rightarrow> nat \<Rightarrow> bool" where
  "running c t \<longleftrightarrow> t \<noteq> 0 \<and> \<not> cn_dead c t"

text \<open>A lock can be taken when it is free or when its holder is dead.\<close>

definition takeable :: "conc \<Rightarrow> nat \<Rightarrow> bool" where
  "takeable c l \<longleftrightarrow> l = 0 \<or> cn_dead c l"

definition store_at :: "32 word \<Rightarrow> slot \<Rightarrow> channel \<Rightarrow> channel" where
  "store_at w s ch = ch\<lparr>ch_slots := (ch_slots ch)[slot_index ch w := s]\<rparr>"

inductive cstep :: "conc \<Rightarrow> conc \<Rightarrow> bool" where
  w_lock: "running c t \<Longrightarrow> cn_pc c t = Idle \<Longrightarrow> takeable c (cn_wlock c) \<Longrightarrow>
    cstep c (goto t (W_Locked ovw (make_slot p)) (c\<lparr>cn_wlock := t\<rparr>))"
| w_load: "running c t \<Longrightarrow> cn_pc c t = W_Locked ovw s \<Longrightarrow>
    cstep c (goto t (W_Loaded ovw s (ch_write (cn_ch c)) (ch_read (cn_ch c))) c)"
| w_bad: "running c t \<Longrightarrow> cn_pc c t = W_Loaded ovw s w r \<Longrightarrow> checked_pending w r (ch_cap (cn_ch c)) = Inl e \<Longrightarrow>
    cstep c (goto t W_Unlock c)"
| w_full: "running c t \<Longrightarrow> cn_pc c t = W_Loaded False s w r \<Longrightarrow> checked_pending w r (ch_cap (cn_ch c)) = Inr q \<Longrightarrow>
    q = ch_cap (cn_ch c) \<Longrightarrow> cstep c (goto t W_Unlock c)"
| w_room: "running c t \<Longrightarrow> cn_pc c t = W_Loaded ovw s w r \<Longrightarrow> checked_pending w r (ch_cap (cn_ch c)) = Inr q \<Longrightarrow>
    q \<noteq> ch_cap (cn_ch c) \<Longrightarrow> cstep c (goto t (W_Ready s w) c)"
| o_lock: "running c t \<Longrightarrow> cn_pc c t = W_Loaded True s w r \<Longrightarrow> checked_pending w r (ch_cap (cn_ch c)) = Inr q \<Longrightarrow>
    q = ch_cap (cn_ch c) \<Longrightarrow> takeable c (cn_rlock c) \<Longrightarrow> cstep c (goto t (O_Locked s w) (c\<lparr>cn_rlock := t\<rparr>))"
| o_contended: "running c t \<Longrightarrow> cn_pc c t = W_Loaded True s w r \<Longrightarrow> cstep c (goto t W_Unlock c)"
| o_load: "running c t \<Longrightarrow> cn_pc c t = O_Locked s w \<Longrightarrow>
    cstep c (goto t (O_Loaded s w (ch_read (cn_ch c))) c)"
| o_bad: "running c t \<Longrightarrow> cn_pc c t = O_Loaded s w r \<Longrightarrow> checked_pending w r (ch_cap (cn_ch c)) = Inl e \<Longrightarrow>
    cstep c (goto t (O_Release False s w) c)"
| o_drop: "running c t \<Longrightarrow> cn_pc c t = O_Loaded s w r \<Longrightarrow> checked_pending w r (ch_cap (cn_ch c)) = Inr q \<Longrightarrow>
    q = ch_cap (cn_ch c) \<Longrightarrow>
    cstep c (goto t (O_Release True s w) (c\<lparr>cn_ch := (cn_ch c)\<lparr>ch_read := r + 1\<rparr>,
       cn_consumed := cn_consumed c @ [read_slot (cn_ch c) r]\<rparr>))"
| o_raced: "running c t \<Longrightarrow> cn_pc c t = O_Loaded s w r \<Longrightarrow> checked_pending w r (ch_cap (cn_ch c)) = Inr q \<Longrightarrow>
    q \<noteq> ch_cap (cn_ch c) \<Longrightarrow> cstep c (goto t (O_Release True s w) c)"
| o_release: "running c t \<Longrightarrow> cn_pc c t = O_Release ok s w \<Longrightarrow>
    cstep c (goto t (if ok then W_Ready s w else W_Unlock) (c\<lparr>cn_rlock := 0\<rparr>))"
| w_store: "running c t \<Longrightarrow> cn_pc c t = W_Ready s w \<Longrightarrow>
    cstep c (goto t (W_Stored s w) (c\<lparr>cn_ch := store_at w s (cn_ch c)\<rparr>))"
| w_publish: "running c t \<Longrightarrow> cn_pc c t = W_Stored s w \<Longrightarrow>
    cstep c (goto t W_Unlock (c\<lparr>cn_ch := (cn_ch c)\<lparr>ch_write := w + 1\<rparr>, cn_published := cn_published c @ [s]\<rparr>))"
| w_unlock: "running c t \<Longrightarrow> cn_pc c t = W_Unlock \<Longrightarrow> cstep c (goto t Idle (c\<lparr>cn_wlock := 0\<rparr>))"
| r_lock: "running c t \<Longrightarrow> cn_pc c t = Idle \<Longrightarrow> takeable c (cn_rlock c) \<Longrightarrow>
    cstep c (goto t R_Locked (c\<lparr>cn_rlock := t\<rparr>))"
| r_load: "running c t \<Longrightarrow> cn_pc c t = R_Locked \<Longrightarrow>
    cstep c (goto t (R_Loaded (ch_write (cn_ch c)) (ch_read (cn_ch c))) c)"
| r_empty: "running c t \<Longrightarrow> cn_pc c t = R_Loaded w r \<Longrightarrow>
    (\<exists>e. checked_pending w r (ch_cap (cn_ch c)) = Inl e) \<or> checked_pending w r (ch_cap (cn_ch c)) = Inr 0 \<Longrightarrow>
    cstep c (goto t R_Unlock c)"
| r_take: "running c t \<Longrightarrow> cn_pc c t = R_Loaded w r \<Longrightarrow> checked_pending w r (ch_cap (cn_ch c)) = Inr q \<Longrightarrow> q \<noteq> 0 \<Longrightarrow>
    cstep c (goto t (R_Taken r (read_slot (cn_ch c) r)) c)"
| r_advance: "running c t \<Longrightarrow> cn_pc c t = R_Taken r s \<Longrightarrow>
    cstep c (goto t R_Unlock (c\<lparr>cn_ch := (cn_ch c)\<lparr>ch_read := r + 1\<rparr>, cn_consumed := cn_consumed c @ [s]\<rparr>))"
| r_unlock: "running c t \<Longrightarrow> cn_pc c t = R_Unlock \<Longrightarrow> cstep c (goto t Idle (c\<lparr>cn_rlock := 0\<rparr>))"
| crash: "running c t \<Longrightarrow> cstep c (c\<lparr>cn_dead := (cn_dead c)(t := True)\<rparr>)"
| tear: "running c t \<Longrightarrow> cn_pc c t = W_Ready s w \<Longrightarrow>
    cstep c (c\<lparr>cn_dead := (cn_dead c)(t := True), cn_ch := store_at w garbage (cn_ch c)\<rparr>)"

definition conc_new :: "32 word \<Rightarrow> conc" where
  "conc_new cap = \<lparr>cn_ch = channel_new cap, cn_wlock = 0, cn_rlock = 0, cn_pc = (\<lambda>_. Idle), cn_dead = (\<lambda>_. False),
     cn_published = [], cn_consumed = []\<rparr>"

section \<open>The invariant\<close>

fun holds_w :: "pc \<Rightarrow> bool" where
  "holds_w Idle = False" | "holds_w R_Locked = False" | "holds_w (R_Loaded _ _) = False" | "holds_w (R_Taken _ _) = False"
| "holds_w R_Unlock = False" | "holds_w _ = True"

fun holds_r :: "pc \<Rightarrow> bool" where
  "holds_r (O_Locked _ _) = True" | "holds_r (O_Loaded _ _ _) = True" | "holds_r (O_Release _ _ _) = True"
| "holds_r R_Locked = True" | "holds_r (R_Loaded _ _) = True" | "holds_r (R_Taken _ _) = True" | "holds_r R_Unlock = True"
| "holds_r _ = False"

text \<open>
  What a task knows at each point, in terms of the number \<open>P\<close> of slots ever published and \<open>C\<close> ever
  consumed: the cursors it loaded may be stale, but only in the harmless direction.
\<close>

fun local_ok :: "nat \<Rightarrow> nat \<Rightarrow> slot list \<Rightarrow> slot list \<Rightarrow> pc \<Rightarrow> bool" where
  "local_ok N C pub slots (W_Loaded _ s w r) \<longleftrightarrow>
     w = of_nat (length pub) \<and> (\<exists>r' \<le> C. r = of_nat r' \<and> length pub \<le> r' + N)"
| "local_ok N C pub slots (W_Ready s w) \<longleftrightarrow> w = of_nat (length pub) \<and> length pub < C + N"
| "local_ok N C pub slots (W_Stored s w) \<longleftrightarrow>
     w = of_nat (length pub) \<and> length pub < C + N \<and> slots ! (length pub mod N) = s"
| "local_ok N C pub slots (O_Locked s w) \<longleftrightarrow> w = of_nat (length pub)"
| "local_ok N C pub slots (O_Loaded s w r) \<longleftrightarrow> w = of_nat (length pub) \<and> r = of_nat C"
| "local_ok N C pub slots (O_Release ok s w) \<longleftrightarrow> w = of_nat (length pub) \<and> (ok \<longrightarrow> length pub < C + N)"
| "local_ok N C pub slots (R_Loaded w r) \<longleftrightarrow>
     r = of_nat C \<and> (\<exists>w'. C \<le> w' \<and> w' \<le> length pub \<and> w = of_nat w')"
| "local_ok N C pub slots (R_Taken r s) \<longleftrightarrow> r = of_nat C \<and> C < length pub \<and> s = pub ! C"
| "local_ok N C pub slots _ \<longleftrightarrow> True"

definition data_ok :: "channel \<Rightarrow> slot list \<Rightarrow> slot list \<Rightarrow> bool" where
  "data_ok ch pub con \<longleftrightarrow> (\<exists>n < 32. ch_cap ch = 2 ^ n) \<and> length (ch_slots ch) = capacity ch \<and>
     length con \<le> length pub \<and> length pub \<le> length con + capacity ch \<and> con = take (length con) pub \<and>
     ch_write ch = of_nat (length pub) \<and> ch_read ch = of_nat (length con) \<and>
     (\<forall>i. length con \<le> i \<longrightarrow> i < length pub \<longrightarrow> ch_slots ch ! (i mod capacity ch) = pub ! i)"

definition conc_ok :: "conc \<Rightarrow> bool" where
  "conc_ok c \<longleftrightarrow> data_ok (cn_ch c) (cn_published c) (cn_consumed c) \<and>
     (\<forall>t. \<not> cn_dead c t \<longrightarrow> (holds_w (cn_pc c t) \<longrightarrow> cn_wlock c = t) \<and> (holds_r (cn_pc c t) \<longrightarrow> cn_rlock c = t) \<and>
        (t = 0 \<longrightarrow> cn_pc c t = Idle) \<and>
        local_ok (capacity (cn_ch c)) (length (cn_consumed c)) (cn_published c) (ch_slots (cn_ch c)) (cn_pc c t))"

section \<open>The data\<close>

lemma data_cap:
  assumes "data_ok ch pub con"
  obtains n where "n < 32" "ch_cap ch = 2 ^ n" "capacity ch = 2 ^ n" "0 < capacity ch" "capacity ch < 2 ^ 32" "capacity ch dvd 2 ^ 32"
proof -
  from assms obtain n where n: "n < 32" "ch_cap ch = 2 ^ n" by (auto simp: data_ok_def)
  then have "capacity ch = 2 ^ n" by (simp add: capacity_def unat_exp)
  moreover have "(2::nat) ^ n < 2 ^ 32" using n(1) by (intro power_strict_increasing) simp_all
  moreover have "(2::nat) ^ n dvd 2 ^ 32" using n(1) by (intro le_imp_power_dvd) simp
  ultimately show ?thesis using n that by simp
qed

text \<open>Cursors at most a capacity apart are compared exactly, however far they have counted.\<close>

lemma pending_exact:
  assumes "data_ok ch pub con" "a \<le> b" "b \<le> a + capacity ch"
  shows "checked_pending (of_nat b) (of_nat a) (ch_cap ch) = Inr (of_nat (b - a))"
    "of_nat (b - a) = ch_cap ch \<longleftrightarrow> b = a + capacity ch" "of_nat (b - a) = (0 :: 32 word) \<longleftrightarrow> b = a"
proof -
  from assms(1) obtain n where n: "capacity ch < 2 ^ 32" by (rule data_cap)
  have "b - a < 2 ^ 32" using assms(3) n by linarith
  then have u: "unat (of_nat (b - a) :: 32 word) = b - a" by (subst unat_of_nat) simp
  have d: "of_nat b - of_nat a = (of_nat (b - a) :: 32 word)" using assms(2) by (simp add: of_nat_diff)
  show "checked_pending (of_nat b) (of_nat a) (ch_cap ch) = Inr (of_nat (b - a))"
    using u assms(3) unfolding checked_pending_def Let_def d word_less_nat_alt by (simp add: capacity_def)
  show "of_nat (b - a) = ch_cap ch \<longleftrightarrow> b = a + capacity ch"
    using u assms(2) unfolding word_unat_eq_iff by (auto simp: capacity_def)
  show "of_nat (b - a) = (0 :: 32 word) \<longleftrightarrow> b = a"
    using u assms(2) unfolding word_unat_eq_iff by auto
qed

lemma index_exact:
  assumes "data_ok ch pub con"
  shows "slot_index ch (of_nat i) = i mod capacity ch"
proof -
  from assms obtain n where n: "n < 32" "ch_cap ch = 2 ^ n" "capacity ch = 2 ^ n" "capacity ch dvd 2 ^ 32" by (rule data_cap)
  have "slot_index ch (of_nat i) = unat (of_nat i :: 32 word) mod capacity ch"
    unfolding slot_index_def n(2,3) by (simp add: take_bit_eq_mask [symmetric] take_bit_eq_mod unat_mod unat_exp [OF n(1)] flip: mask_eq_exp_minus_1)
  then show ?thesis using n(4) by (simp add: unat_of_nat mod_mod_cancel)
qed

lemma data_publish:
  assumes "data_ok ch pub con" "length pub < length con + capacity ch" "ch_slots ch ! (length pub mod capacity ch) = s"
  shows "data_ok (ch\<lparr>ch_write := of_nat (length pub) + 1\<rparr>) (pub @ [s]) con"
  using assms by (auto simp: data_ok_def capacity_def nth_append less_Suc_eq)

lemma data_consume:
  assumes "data_ok ch pub con" "length con < length pub"
  shows "data_ok (ch\<lparr>ch_read := of_nat (length con) + 1\<rparr>) pub (con @ [pub ! length con])"
proof -
  have "con @ [pub ! length con] = take (Suc (length con)) pub"
    using assms by (simp add: data_ok_def take_Suc_conv_app_nth)
  with assms show ?thesis by (auto simp: data_ok_def capacity_def)
qed

lemma data_store:
  assumes "data_ok ch pub con" "length pub < length con + capacity ch"
  shows "data_ok (store_at (of_nat (length pub)) g ch) pub con"
    "ch_slots (store_at (of_nat (length pub)) g ch) ! (length pub mod capacity ch) = g"
proof -
  let ?N = "capacity ch"
  have N: "0 < ?N" using assms(1) by (rule data_cap)
  have len: "length (ch_slots ch) = ?N" using assms(1) by (simp add: data_ok_def)
  have "i mod ?N \<noteq> length pub mod ?N" if i: "length con \<le> i" "i < length pub" for i
  proof
    assume e: "i mod ?N = length pub mod ?N"
    obtain x where x: "i = length con + x" using le_Suc_ex [OF i(1)] by blast
    obtain y where y: "length pub = length con + y" using le_Suc_ex [of "length con" "length pub"] i by auto
    have "x < y" "y < ?N" using x y i(2) assms(2) by linarith+
    then show False using mod_inj_window [OF e [unfolded x y]] by simp
  qed
  then have "(ch_slots ch)[length pub mod ?N := g] ! (i mod ?N) = ch_slots ch ! (i mod ?N)" if "length con \<le> i" "i < length pub" for i
    using that by (metis nth_list_update_neq)
  with assms(1) show "data_ok (store_at (of_nat (length pub)) g ch) pub con"
    by (simp add: data_ok_def store_at_def index_exact [OF assms(1)] capacity_def)
  show "ch_slots (store_at (of_nat (length pub)) g ch) ! (length pub mod ?N) = g"
    using N len by (simp add: store_at_def index_exact [OF assms(1)])
qed

lemma data_read:
  "data_ok ch pub con \<Longrightarrow> length con < length pub \<Longrightarrow> read_slot ch (of_nat (length con)) = pub ! length con"
  by (simp add: read_slot_def index_exact) (simp add: data_ok_def)

section \<open>The tasks\<close>

lemma local_consume: "\<not> holds_r p \<Longrightarrow> local_ok N C pub sl p \<Longrightarrow> local_ok N (Suc C) pub sl p"
  by (cases p) (auto intro: le_SucI)

lemma local_publish: "\<not> holds_w p \<Longrightarrow> local_ok N C pub sl p \<Longrightarrow> local_ok N C (pub @ [s]) sl p"
  by (cases p) (auto simp: nth_append intro: le_SucI)

lemma local_store: "\<not> holds_w p \<Longrightarrow> local_ok N C pub sl p \<Longrightarrow> local_ok N C pub sl' p"
  by (cases p) auto

text \<open>
  One task moves: the locks may be taken when free or orphaned and released when held; the others
  keep what they know.
\<close>

lemma conc_move:
  assumes ok: "conc_ok c" and t: "running c t" and pc': "cn_pc c' = (cn_pc c)(t := p)" "cn_dead c' = cn_dead c"
    and data: "data_ok (cn_ch c') (cn_published c') (cn_consumed c')" "capacity (cn_ch c') = capacity (cn_ch c)"
    and w: "cn_wlock c' = cn_wlock c \<or> takeable c (cn_wlock c) \<or> cn_wlock c = t" "holds_w p \<Longrightarrow> cn_wlock c' = t"
    and r: "cn_rlock c' = cn_rlock c \<or> takeable c (cn_rlock c) \<or> cn_rlock c = t" "holds_r p \<Longrightarrow> cn_rlock c' = t"
    and loc: "local_ok (capacity (cn_ch c)) (length (cn_consumed c')) (cn_published c') (ch_slots (cn_ch c')) p"
    and others: "\<And>u. u \<noteq> t \<Longrightarrow> \<not> cn_dead c u \<Longrightarrow>
      local_ok (capacity (cn_ch c)) (length (cn_consumed c)) (cn_published c) (ch_slots (cn_ch c)) (cn_pc c u) \<Longrightarrow>
      local_ok (capacity (cn_ch c)) (length (cn_consumed c')) (cn_published c') (ch_slots (cn_ch c')) (cn_pc c u)"
  shows "conc_ok c'"
proof -
  have t0: "t \<noteq> 0" "\<not> cn_dead c t" using t by (auto simp: running_def)
  have old: "(holds_w (cn_pc c u) \<longrightarrow> cn_wlock c = u) \<and> (holds_r (cn_pc c u) \<longrightarrow> cn_rlock c = u) \<and> (u = 0 \<longrightarrow> cn_pc c u = Idle) \<and>
      local_ok (capacity (cn_ch c)) (length (cn_consumed c)) (cn_published c) (ch_slots (cn_ch c)) (cn_pc c u)" if "\<not> cn_dead c u" for u
    using ok that by (simp add: conc_ok_def)
  have "(holds_w (cn_pc c' u) \<longrightarrow> cn_wlock c' = u) \<and> (holds_r (cn_pc c' u) \<longrightarrow> cn_rlock c' = u) \<and> (u = 0 \<longrightarrow> cn_pc c' u = Idle) \<and>
      local_ok (capacity (cn_ch c)) (length (cn_consumed c')) (cn_published c') (ch_slots (cn_ch c')) (cn_pc c' u)"
    if u: "\<not> cn_dead c u" for u
  proof (cases "u = t")
    case True
    with w r loc t0 pc' show ?thesis by simp
  next
    case False
    have "cn_wlock c' = u" if "holds_w (cn_pc c u)"
      using w(1) old [OF u] that u False by (auto simp: takeable_def)
    moreover have "cn_rlock c' = u" if "holds_r (cn_pc c u)"
      using r(1) old [OF u] that u False by (auto simp: takeable_def)
    ultimately show ?thesis using False old [OF u] others [OF False u] pc' by simp
  qed
  with data pc' show ?thesis by (simp add: conc_ok_def)
qed

lemma conc_okD:
  assumes "conc_ok c" "running c t"
  shows "data_ok (cn_ch c) (cn_published c) (cn_consumed c)" "holds_w (cn_pc c t) \<Longrightarrow> cn_wlock c = t" "holds_r (cn_pc c t) \<Longrightarrow> cn_rlock c = t"
    "local_ok (capacity (cn_ch c)) (length (cn_consumed c)) (cn_published c) (ch_slots (cn_ch c)) (cn_pc c t)"
    "\<And>u. u \<noteq> t \<Longrightarrow> \<not> cn_dead c u \<Longrightarrow> holds_w (cn_pc c t) \<Longrightarrow> \<not> holds_w (cn_pc c u)"
    "\<And>u. u \<noteq> t \<Longrightarrow> \<not> cn_dead c u \<Longrightarrow> holds_r (cn_pc c t) \<Longrightarrow> \<not> holds_r (cn_pc c u)"
  using assms unfolding conc_ok_def running_def by metis+

text \<open>A task that only changes its own program counter.\<close>

lemma conc_goto:
  assumes "conc_ok c" "running c t" "holds_w p \<longrightarrow> holds_w (cn_pc c t)" "holds_r p \<longrightarrow> holds_r (cn_pc c t)"
    "local_ok (capacity (cn_ch c)) (length (cn_consumed c)) (cn_published c) (ch_slots (cn_ch c)) p"
  shows "conc_ok (goto t p c)"
  by (rule conc_move [OF assms(1,2), where p = p]) (use assms conc_okD [OF assms(1,2)] in \<open>auto simp: goto_def\<close>)

lemma data_bounds:
  "data_ok ch pub con \<Longrightarrow> length con \<le> length pub \<and> length pub \<le> length con + capacity ch \<and>
     ch_write ch = of_nat (length pub) \<and> ch_read ch = of_nat (length con)"
  by (auto simp: data_ok_def)

text \<open>Both ways of consuming a slot: a reader advancing and an overwriting writer dropping the oldest.\<close>

lemma conc_consume:
  assumes ok: "conc_ok c" and t: "running c t" and h: "holds_r (cn_pc c t)" "holds_w p \<longrightarrow> holds_w (cn_pc c t)"
    and lt: "length (cn_consumed c) < length (cn_published c)" and r: "r = of_nat (length (cn_consumed c))"
    and s: "s = cn_published c ! length (cn_consumed c)"
    and p: "local_ok (capacity (cn_ch c)) (Suc (length (cn_consumed c))) (cn_published c) (ch_slots (cn_ch c)) p"
  shows "conc_ok (goto t p (c\<lparr>cn_ch := (cn_ch c)\<lparr>ch_read := r + 1\<rparr>, cn_consumed := cn_consumed c @ [s]\<rparr>))"
proof -
  note k = conc_okD [OF ok t]
  note d = data_consume [OF k(1) lt]
  have o: "local_ok N (Suc C) pub sl (cn_pc c u)" if "u \<noteq> t" "\<not> cn_dead c u" "local_ok N C pub sl (cn_pc c u)" for u N C pub sl
    using local_consume [OF k(6) [OF that(1,2) h(1)] that(3)] .
  show ?thesis
    by (rule conc_move [OF ok t, where p = p])
      (use d k(2,3) h o p in \<open>auto simp: goto_def r s capacity_def\<close>)
qed

lemma conc_ok_step: "cstep c c' \<Longrightarrow> conc_ok c \<Longrightarrow> conc_ok c'"
proof (induction rule: cstep.induct)
  case (w_lock c t ovw p)
  show ?case
    by (rule conc_move [OF w_lock.prems w_lock(1), where p = "W_Locked ovw (make_slot p)"])
      (use w_lock conc_okD [OF w_lock.prems w_lock(1)] in \<open>auto simp: goto_def\<close>)
next
  case (w_load c t ovw s)
  then show ?case using conc_okD [OF w_load.prems w_load(1)] data_bounds
    by (intro conc_goto) (auto dest!: data_bounds)
next
  case (w_bad c t ovw s w r e)
  then show ?case by (intro conc_goto) auto
next
  case (w_full c t s w r q)
  then show ?case by (intro conc_goto) auto
next
  case (w_room c t ovw s w r q)
  note k = conc_okD [OF w_room.prems w_room(1)]
  from k(4) w_room(2) obtain r' where r: "w = of_nat (length (cn_published c))" "r' \<le> length (cn_consumed c)" "r = of_nat r'"
    "length (cn_published c) \<le> r' + capacity (cn_ch c)" by auto
  have "r' \<le> length (cn_published c)" using r(2) data_bounds [OF k(1)] by simp
  note pe = pending_exact [OF k(1) this r(4)]
  have "length (cn_published c) \<noteq> r' + capacity (cn_ch c)" using w_room(3,4) pe r by auto
  with r w_room show ?case by (intro conc_goto) auto
next
  case (o_lock c t s w r q)
  note k = conc_okD [OF o_lock.prems o_lock(1)]
  show ?case
    by (rule conc_move [OF o_lock.prems o_lock(1), where p = "O_Locked s w"]) (use o_lock k in \<open>auto simp: goto_def\<close>)
next
  case (o_contended c t s w r)
  then show ?case by (intro conc_goto) auto
next
  case (o_load c t s w)
  note k = conc_okD [OF o_load.prems o_load(1)]
  from o_load k(4) data_bounds [OF k(1)] show ?case by (intro conc_goto) auto
next
  case (o_bad c t s w r e)
  note k = conc_okD [OF o_bad.prems o_bad(1)]
  from o_bad k(4) show ?case by (intro conc_goto) auto
next
  case (o_drop c t s w r q)
  note k = conc_okD [OF o_drop.prems o_drop(1)]
  from k(4) o_drop(2) have e: "w = of_nat (length (cn_published c))" "r = of_nat (length (cn_consumed c))" by auto
  note b = data_bounds [OF k(1)]
  note pe = pending_exact [OF k(1), of "length (cn_consumed c)" "length (cn_published c)"]
  have full: "length (cn_published c) = length (cn_consumed c) + capacity (cn_ch c)" using o_drop(3,4) pe e b by auto
  moreover have "0 < capacity (cn_ch c)" using k(1) by (rule data_cap)
  ultimately have lt: "length (cn_consumed c) < length (cn_published c)" by simp
  show ?case using o_drop(2) full lt e data_read [OF k(1) lt]
    by (intro conc_consume [OF o_drop.prems o_drop(1)]) auto
next
  case (o_raced c t s w r q)
  note k = conc_okD [OF o_raced.prems o_raced(1)]
  from k(4) o_raced(2) have e: "w = of_nat (length (cn_published c))" "r = of_nat (length (cn_consumed c))" by auto
  note b = data_bounds [OF k(1)]
  note pe = pending_exact [OF k(1), of "length (cn_consumed c)" "length (cn_published c)"]
  have "length (cn_published c) \<noteq> length (cn_consumed c) + capacity (cn_ch c)" using o_raced(3,4) pe e b by auto
  with e b o_raced(2) show ?case by (intro conc_goto [OF o_raced.prems o_raced(1)]) auto
next
  case (o_release c t ok s w)
  note k = conc_okD [OF o_release.prems o_release(1)]
  show ?case
    by (rule conc_move [OF o_release.prems o_release(1), where p = "if ok then W_Ready s w else W_Unlock"])
      (use o_release k in \<open>auto simp: goto_def split: if_splits\<close>)
next
  case (w_store c t s w)
  note k = conc_okD [OF w_store.prems w_store(1)]
  have e: "w = of_nat (length (cn_published c))" "length (cn_published c) < length (cn_consumed c) + capacity (cn_ch c)"
    using k(4) w_store(2) by auto
  note d = data_store [OF k(1) e(2), of s, folded e(1)]
  have o: "local_ok N C pub sl' (cn_pc c u)" if "u \<noteq> t" "\<not> cn_dead c u" "local_ok N C pub sl (cn_pc c u)" for u N C pub sl sl'
    using local_store [OF k(5) [OF that(1,2)] that(3)] w_store(2) by simp
  show ?case
    by (rule conc_move [OF w_store.prems w_store(1), where p = "W_Stored s w"])
      (use w_store(2) k(2,3) d e in \<open>simp_all add: goto_def capacity_def store_at_def\<close>, erule (2) o)
next
  case (w_publish c t s w)
  note k = conc_okD [OF w_publish.prems w_publish(1)]
  have e: "w = of_nat (length (cn_published c))" "length (cn_published c) < length (cn_consumed c) + capacity (cn_ch c)"
    "ch_slots (cn_ch c) ! (length (cn_published c) mod capacity (cn_ch c)) = s" using k(4) w_publish(2) by auto
  note d = data_publish [OF k(1) e(2,3), folded e(1)]
  have o: "local_ok N C (pub @ [s]) sl (cn_pc c u)" if "u \<noteq> t" "\<not> cn_dead c u" "local_ok N C pub sl (cn_pc c u)" for u N C pub sl
    using local_publish [OF k(5) [OF that(1,2)] that(3)] w_publish(2) by simp
  show ?case
    by (rule conc_move [OF w_publish.prems w_publish(1), where p = W_Unlock])
      (use w_publish(2) k(2,3) d o in \<open>simp_all add: goto_def capacity_def\<close>)
next
  case (w_unlock c t)
  show ?case
    by (rule conc_move [OF w_unlock.prems w_unlock(1), where p = Idle])
      (use w_unlock conc_okD [OF w_unlock.prems w_unlock(1)] in \<open>auto simp: goto_def\<close>)
next
  case (r_lock c t)
  show ?case
    by (rule conc_move [OF r_lock.prems r_lock(1), where p = R_Locked])
      (use r_lock conc_okD [OF r_lock.prems r_lock(1)] in \<open>auto simp: goto_def\<close>)
next
  case (r_load c t)
  note k = conc_okD [OF r_load.prems r_load(1)]
  from r_load data_bounds [OF k(1)] show ?case by (intro conc_goto) auto
next
  case (r_empty c t w r)
  then show ?case by (intro conc_goto) auto
next
  case (r_take c t w r q)
  note k = conc_okD [OF r_take.prems r_take(1)]
  from k(4) r_take(2) obtain w' where w: "r = of_nat (length (cn_consumed c))" "length (cn_consumed c) \<le> w'"
    "w' \<le> length (cn_published c)" "w = of_nat w'" by auto
  note b = data_bounds [OF k(1)]
  have "w' \<noteq> length (cn_consumed c)"
    using pending_exact [OF k(1) w(2)] r_take(3,4) w b by auto
  then have lt: "length (cn_consumed c) < length (cn_published c)" using w by simp
  show ?case using r_take(2) w lt data_read [OF k(1) lt] by (intro conc_goto [OF r_take.prems r_take(1)]) auto
next
  case (r_advance c t r s)
  note k = conc_okD [OF r_advance.prems r_advance(1)]
  from k(4) r_advance(2) show ?case by (intro conc_consume [OF r_advance.prems r_advance(1)]) auto
next
  case (r_unlock c t)
  show ?case
    by (rule conc_move [OF r_unlock.prems r_unlock(1), where p = Idle])
      (use r_unlock conc_okD [OF r_unlock.prems r_unlock(1)] in \<open>auto simp: goto_def\<close>)
next
  case (crash c t)
  then show ?case by (auto simp: conc_ok_def)
next
  case (tear c t s w g)
  note k = conc_okD [OF tear.prems tear(1)]
  have e: "w = of_nat (length (cn_published c))" "length (cn_published c) < length (cn_consumed c) + capacity (cn_ch c)"
    using k(4) tear(2) by auto
  note d = data_store(1) [OF k(1) e(2), of g, folded e(1)]
  have o: "local_ok N C pub sl' (cn_pc c u)" if "u \<noteq> t" "\<not> cn_dead c u" "local_ok N C pub sl (cn_pc c u)" for u N C pub sl sl'
    using local_store [OF k(5) [OF that(1,2)] that(3)] tear(2) by simp
  have "capacity (store_at w g (cn_ch c)) = capacity (cn_ch c)" by (simp add: capacity_def store_at_def)
  with d o tear.prems show ?case unfolding conc_ok_def by auto
qed

section \<open>What readers get\<close>

fun carries :: "pc \<Rightarrow> slot option" where
  "carries (W_Locked _ s) = Some s" | "carries (W_Loaded _ s _ _) = Some s" | "carries (W_Ready s _) = Some s"
| "carries (W_Stored s _) = Some s" | "carries (O_Locked s _) = Some s" | "carries (O_Loaded s _ _) = Some s"
| "carries (O_Release _ s _) = Some s" | "carries _ = None"

definition intact :: "conc \<Rightarrow> bool" where
  "intact c \<longleftrightarrow> list_all valid_slot (cn_published c) \<and> (\<forall>t s. carries (cn_pc c t) = Some s \<longrightarrow> valid_slot s)"

lemma intact_step: "cstep c c' \<Longrightarrow> intact c \<Longrightarrow> intact c'"
proof (induction rule: cstep.induct)
  case (w_publish c t s w)
  then have "valid_slot s" unfolding intact_def by (metis carries.simps(4))
  with w_publish show ?case by (auto simp: intact_def goto_def split: if_splits)
qed (auto simp: intact_def goto_def split: if_splits, (metis carries.simps)+)

lemma conc_new_ok: "n < 32 \<Longrightarrow> conc_ok (conc_new (2 ^ n)) \<and> intact (conc_new (2 ^ n))"
  by (auto simp: conc_ok_def data_ok_def conc_new_def channel_new_def capacity_def unat_exp intact_def)

lemma data_pending:
  assumes "data_ok ch pub con"
  shows "con @ pending_slots ch = pub"
proof -
  note b = data_bounds [OF assms]
  have k: "of_nat (length pub) - of_nat (length con) = (of_nat (length pub - length con) :: 32 word)"
    using b by (simp add: of_nat_diff)
  have "capacity ch < 2 ^ 32" using assms by (rule data_cap)
  then have "length pub - length con < 2 ^ 32" using b by linarith
  then have c: "pending_count ch = length pub - length con"
    using b unfolding pending_count_def by (simp only: k) (subst unat_of_nat, simp)
  have r: "read_slot ch (ch_read ch + of_nat i) = drop (length con) pub ! i" if "i < length pub - length con" for i
  proof -
    have "ch_read ch + of_nat i = of_nat (length con + i)" using b by simp
    then show ?thesis using that assms index_exact [OF assms, of "length con + i"]
      by (simp add: read_slot_def data_ok_def del: of_nat_add)
  qed
  have "pending_slots ch = drop (length con) pub"
    by (rule nth_equalityI) (simp_all add: pending_slots_def c r)
  moreover have "con = take (length con) pub" using assms by (simp add: data_ok_def)
  ultimately show ?thesis by (metis append_take_drop_id)
qed

text \<open>
  C22. Many producers and consumers, arbitrary interleaving, crashes at any point, torn slot writes
  and takeovers of orphaned locks: in every reachable state what was consumed, followed by what is
  pending, is exactly what was published, in order and intact; no slot is delivered twice or lost,
  the queue never exceeds its capacity, and no two live tasks hold the same direction lock.
\<close>

theorem ring_is_linearizable:
  assumes "cstep\<^sup>*\<^sup>* (conc_new (2 ^ n)) c" "n < 32"
  shows "cn_consumed c @ pending_slots (cn_ch c) = cn_published c \<and> length (pending_slots (cn_ch c)) \<le> capacity (cn_ch c) \<and>
    list_all valid_slot (cn_published c) \<and>
    (\<forall>t u. running c t \<longrightarrow> running c u \<longrightarrow> holds_w (cn_pc c t) \<and> holds_w (cn_pc c u) \<or> holds_r (cn_pc c t) \<and> holds_r (cn_pc c u) \<longrightarrow> t = u)"
proof -
  have ok: "conc_ok c" "intact c"
    using assms conc_new_ok [OF assms(2)] by (induction rule: rtranclp_induct) (auto intro: conc_ok_step intact_step)
  have d: "data_ok (cn_ch c) (cn_published c) (cn_consumed c)" using ok(1) by (simp add: conc_ok_def)
  have "length (pending_slots (cn_ch c)) \<le> capacity (cn_ch c)"
    using data_bounds [OF d] arg_cong [OF data_pending [OF d], of length] by simp
  moreover have "t = u" if "running c t" "running c u"
    "holds_w (cn_pc c t) \<and> holds_w (cn_pc c u) \<or> holds_r (cn_pc c t) \<and> holds_r (cn_pc c u)" for t u
    using conc_okD(2,3) [OF ok(1) that(1)] conc_okD(2,3) [OF ok(1) that(2)] that(3) by auto
  ultimately show ?thesis using data_pending [OF d] ok(2) by (auto simp: intact_def)
qed

text \<open>A writer dies inside its critical section, tearing the slot; another takes the lock over and publishes.\<close>

definition take_over :: conc where
  "take_over = goto 2 (W_Locked False (make_slot [7]))
     ((goto 1 (W_Locked False (make_slot [3])) ((conc_new 2)\<lparr>cn_wlock := 1\<rparr>))\<lparr>cn_dead := (\<lambda>t. t = 1), cn_wlock := 2\<rparr>)"

lemma take_over_reachable: "cstep\<^sup>*\<^sup>* (conc_new 2) take_over"
proof -
  let ?a = "goto 1 (W_Locked False (make_slot [3])) ((conc_new 2)\<lparr>cn_wlock := 1\<rparr>)"
  let ?b = "?a\<lparr>cn_dead := (cn_dead ?a)(1 := True)\<rparr>"
  have 1: "cstep (conc_new 2) ?a" by (rule cstep.w_lock) (simp_all add: conc_new_def running_def takeable_def)
  have 2: "cstep ?a ?b" by (rule cstep.crash) (simp add: conc_new_def running_def goto_def)
  have 3: "cstep ?b (goto 2 (W_Locked False (make_slot [7])) (?b\<lparr>cn_wlock := 2\<rparr>))"
    by (rule cstep.w_lock) (simp_all add: conc_new_def running_def takeable_def goto_def)
  have "?b\<lparr>cn_wlock := 2\<rparr> = ?a\<lparr>cn_dead := (\<lambda>t. t = 1), cn_wlock := 2\<rparr>"
    by (simp add: conc_new_def goto_def fun_eq_iff)
  then have "cstep ?b take_over" using 3 unfolding take_over_def by simp
  with 1 2 show ?thesis by (meson converse_rtranclp_into_rtranclp r_into_rtranclp)
qed

theorem ring_is_linearizable_witness:
  "cn_wlock take_over = 2 \<and> cn_dead take_over 1 \<and> cn_consumed take_over @ pending_slots (cn_ch take_over) = cn_published take_over"
proof -
  have "cn_wlock take_over = 2" "cn_dead take_over 1" by (simp_all add: take_over_def goto_def)
  moreover have "cn_consumed take_over @ pending_slots (cn_ch take_over) = cn_published take_over"
    using ring_is_linearizable [of 1 take_over] take_over_reachable by simp
  ultimately show ?thesis by blast
qed

end
