(* ===== verification/Ring_Layout.thy ===== *)
theory Ring_Layout
  imports Ring_Refinement
begin

text \<open>
  The placement of the ring in its mapping: \<open>checked_align_up\<close>, \<open>BufferLayout::calculate\<close>, the header
  \<open>create_impl\<close> writes and the checks \<open>open_impl\<close> and the stale-mapping probe make before they touch
  it. Sizes are \<open>usize\<close>, 64-bit words with checked arithmetic. What the compiler decides (sizes,
  alignments, type fingerprints) is a record of build constants; the build has all three
  synchronization backends.
\<close>

unbundle bit_operations_syntax

type_synonym usize = "64 word"

section \<open>Checked arithmetic\<close>

definition checked_add :: "usize \<Rightarrow> usize \<Rightarrow> usize option" where
  "checked_add a b = (if unat a + unat b < 2 ^ 64 then Some (a + b) else None)"

definition checked_mul :: "usize \<Rightarrow> usize \<Rightarrow> usize option" where
  "checked_mul a b = (if unat a * unat b < 2 ^ 64 then Some (a * b) else None)"

definition is_power_of_two :: "usize \<Rightarrow> bool" where
  "is_power_of_two a \<longleftrightarrow> list_ex (\<lambda>n. a = 2 ^ n) [0..<64]"

definition fits_u32 :: "usize \<Rightarrow> bool" where
  "fits_u32 a \<longleftrightarrow> unat a < 2 ^ 32"

definition ok_or :: "error_kind \<Rightarrow> 'a option \<Rightarrow> 'a io_result" where
  "ok_or e opt = (case opt of None \<Rightarrow> Inl e | Some v \<Rightarrow> Inr v)"

text \<open>The question mark: stop with the error or go on with the value.\<close>

definition and_then :: "'a io_result \<Rightarrow> ('a \<Rightarrow> 'b io_result) \<Rightarrow> 'b io_result" where
  "and_then r f = (case r of Inl e \<Rightarrow> Inl e | Inr v \<Rightarrow> f v)"

definition require :: "bool \<Rightarrow> error_kind \<Rightarrow> 'a io_result \<Rightarrow> 'a io_result" where
  "require b e rest = (if b then rest else Inl e)"

definition checked_align_up :: "usize \<Rightarrow> usize \<Rightarrow> usize io_result" where
  "checked_align_up v align =
     (if \<not> is_power_of_two align then Inl InvalidInput
      else ok_or InvalidInput (map_option (\<lambda>x. x AND NOT (align - 1)) (checked_add v (align - 1))))"

section \<open>The layout\<close>

datatype sync_strategy = Futex | Semaphore | EventFd | No_Backend

fun strategy_id :: "sync_strategy \<Rightarrow> 32 word" where
  "strategy_id Futex = 1" | "strategy_id Semaphore = 2" | "strategy_id EventFd = 3" | "strategy_id No_Backend = 0"

definition strategy_from_id :: "32 word \<Rightarrow> sync_strategy option" where
  "strategy_from_id i = (if i = 1 then Some Futex else if i = 2 then Some Semaphore else if i = 3 then Some EventFd else None)"

definition is_supported :: "sync_strategy \<Rightarrow> bool" where
  "is_supported s \<longleftrightarrow> s \<noteq> No_Backend"

record build =
  header_size :: usize
  backend_size :: "sync_strategy \<Rightarrow> usize"
  backend_align :: "sync_strategy \<Rightarrow> usize"
  message_slot_bytes :: usize
  message_slot_align :: usize
  command_slot_bytes :: usize
  command_slot_align :: usize
  message_type_id :: "32 word"
  command_type_id :: "32 word"

definition MAX_PAYLOAD_ALIGN :: usize where "MAX_PAYLOAD_ALIGN = 4096"
definition RING_BUFFER_MAGIC :: "64 word" where "RING_BUFFER_MAGIC = 0x52494E4742554646"
definition RING_BUFFER_VERSION :: "64 word" where "RING_BUFFER_VERSION = 14"
definition LAYOUT_MARKER :: "32 word" where "LAYOUT_MARKER = 0x53524234"

record buffer_layout =
  backend_offset :: usize
  messages_offset :: usize
  commands_offset :: usize
  total_size :: usize

definition layout_calculate :: "build \<Rightarrow> sync_strategy \<Rightarrow> usize \<Rightarrow> usize \<Rightarrow> buffer_layout io_result" where
  "layout_calculate b strategy buffer_size command_buffer_size =
     require (is_supported strategy) Unsupported
    (require (buffer_size \<noteq> 0 \<and> is_power_of_two buffer_size) InvalidInput
    (require (command_buffer_size \<noteq> 0 \<and> is_power_of_two command_buffer_size) InvalidInput
    (require (message_slot_align b \<le> MAX_PAYLOAD_ALIGN \<and> command_slot_align b \<le> MAX_PAYLOAD_ALIGN) InvalidInput
    (require (fits_u32 buffer_size \<and> fits_u32 command_buffer_size) InvalidInput
    (require (fits_u32 (message_slot_bytes b) \<and> fits_u32 (command_slot_bytes b)) InvalidInput
    (and_then (checked_align_up (header_size b) (backend_align b strategy)) (\<lambda>backend_off.
     and_then (ok_or InvalidInput (checked_add backend_off (backend_size b strategy))) (\<lambda>after_backend.
     and_then (checked_align_up after_backend (message_slot_align b)) (\<lambda>messages_off.
     and_then (ok_or InvalidInput (checked_mul buffer_size (message_slot_bytes b))) (\<lambda>messages_bytes.
     and_then (ok_or InvalidInput (checked_add messages_off messages_bytes)) (\<lambda>after_messages.
     and_then (checked_align_up after_messages (command_slot_align b)) (\<lambda>commands_off.
     and_then (ok_or InvalidInput (checked_mul command_buffer_size (command_slot_bytes b))) (\<lambda>commands_bytes.
     and_then (ok_or InvalidInput (checked_add commands_off commands_bytes)) (\<lambda>size_all.
       Inr \<lparr>backend_offset = backend_off, messages_offset = messages_off, commands_offset = commands_off,
            total_size = size_all\<rparr>))))))))))))))"

section \<open>The header\<close>

record generic_header =
  hd_magic :: "64 word"
  hd_version :: "64 word"
  hd_total_size :: "64 word"
  hd_buffer_size :: "32 word"
  hd_command_buffer_size :: "32 word"
  hd_backend_id :: "32 word"
  hd_message_slot_size :: "32 word"
  hd_command_slot_size :: "32 word"
  hd_layout_marker :: "32 word"
  hd_is_destroyed :: "32 word"
  hd_creator_pid :: "32 word"
  hd_message_fingerprint :: "32 word"
  hd_command_fingerprint :: "32 word"

text \<open>\<open>create_impl\<close> up to publication: the layout and the header it leaves, magic stored last.\<close>

definition create_header :: "build \<Rightarrow> sync_strategy \<Rightarrow> usize \<Rightarrow> usize \<Rightarrow> 32 word \<Rightarrow> (buffer_layout \<times> generic_header) io_result" where
  "create_header b strategy buffer_size command_buffer_size pid =
     and_then (layout_calculate b strategy buffer_size command_buffer_size) (\<lambda>layout.
       Inr (layout, \<lparr>hd_magic = RING_BUFFER_MAGIC, hd_version = RING_BUFFER_VERSION, hd_total_size = total_size layout,
          hd_buffer_size = ucast buffer_size, hd_command_buffer_size = ucast command_buffer_size,
          hd_backend_id = strategy_id strategy, hd_message_slot_size = ucast (message_slot_bytes b),
          hd_command_slot_size = ucast (command_slot_bytes b), hd_layout_marker = LAYOUT_MARKER, hd_is_destroyed = 0,
          hd_creator_pid = pid, hd_message_fingerprint = message_type_id b, hd_command_fingerprint = command_type_id b\<rparr>))"

text \<open>\<open>map_err\<close> to \<open>InvalidData\<close>.\<close>

definition as_invalid_data :: "'a io_result \<Rightarrow> 'a io_result" where
  "as_invalid_data r = (case r of Inl _ \<Rightarrow> Inl InvalidData | Inr v \<Rightarrow> Inr v)"

definition open_header :: "build \<Rightarrow> sync_strategy option \<Rightarrow> usize \<Rightarrow> bool \<Rightarrow> generic_header \<Rightarrow> (sync_strategy \<times> buffer_layout) io_result" where
  "open_header b expected mapping_len aligned h =
     require (header_size b \<le> mapping_len) InvalidData
    (require aligned InvalidData
    (require (hd_magic h \<noteq> 0) WouldBlock
    (require (hd_magic h = RING_BUFFER_MAGIC) InvalidData
    (require (hd_version h = RING_BUFFER_VERSION) InvalidData
    (require (hd_total_size h = mapping_len) InvalidData
    (require (hd_creator_pid h \<noteq> 0) InvalidData
    (and_then (case strategy_from_id (hd_backend_id h) of
                 Some s \<Rightarrow> Inr s
               | None \<Rightarrow> Inl (if 1 \<le> hd_backend_id h \<and> hd_backend_id h \<le> 3 then Unsupported else InvalidData)) (\<lambda>strategy.
     require (is_supported strategy) Unsupported
    (require (case expected of None \<Rightarrow> True | Some e \<Rightarrow> e = strategy) InvalidData
    (and_then (as_invalid_data (layout_calculate b strategy (ucast (hd_buffer_size h)) (ucast (hd_command_buffer_size h)))) (\<lambda>layout.
     require (ucast (hd_message_slot_size h) = message_slot_bytes b \<and> ucast (hd_command_slot_size h) = command_slot_bytes b \<and>
              hd_layout_marker h = LAYOUT_MARKER \<and> hd_total_size h = total_size layout \<and> mapping_len = total_size layout) InvalidData
    (require (hd_message_fingerprint h = message_type_id b \<and> hd_command_fingerprint h = command_type_id b) InvalidData
    (require (hd_is_destroyed h = 0) BrokenPipe
    (Inr (strategy, layout)))))))))))))))"

text \<open>The probe for stale mappings of the current version: \<open>None\<close> when the mapping is not one.\<close>

definition probe_reclaimable_current_mapping :: "build \<Rightarrow> sync_strategy \<Rightarrow> usize \<Rightarrow> bool \<Rightarrow> generic_header \<Rightarrow> (32 word \<times> buffer_layout) option" where
  "probe_reclaimable_current_mapping b expected mapping_len aligned h =
     (if \<not> header_size b \<le> mapping_len \<or> \<not> aligned \<or> hd_magic h \<noteq> RING_BUFFER_MAGIC \<or> hd_version h \<noteq> RING_BUFFER_VERSION then None
      else case layout_calculate b expected (ucast (hd_buffer_size h)) (ucast (hd_command_buffer_size h)) of
             Inl _ \<Rightarrow> None
           | Inr layout \<Rightarrow>
               if hd_total_size h \<noteq> mapping_len \<or> hd_total_size h \<noteq> total_size layout \<or> hd_backend_id h \<noteq> strategy_id expected \<or>
                  ucast (hd_message_slot_size h) \<noteq> message_slot_bytes b \<or> ucast (hd_command_slot_size h) \<noteq> command_slot_bytes b \<or>
                  hd_layout_marker h \<noteq> LAYOUT_MARKER \<or> hd_creator_pid h = 0 \<or> hd_message_fingerprint h \<noteq> message_type_id b \<or>
                  hd_command_fingerprint h \<noteq> command_type_id b
               then None else Some (hd_creator_pid h, layout))"

section \<open>Alignment\<close>

named_theorems result_simps "unfolding of the error-passing combinators"

lemma and_then_Inr [result_simps]: "and_then r f = Inr v \<longleftrightarrow> (\<exists>x. r = Inr x \<and> f x = Inr v)"
  by (simp add: and_then_def split: sum.splits)

lemma require_Inr [result_simps]: "require b e r = Inr v \<longleftrightarrow> b \<and> r = Inr v"
  by (simp add: require_def)

lemma ok_or_Inr [result_simps]: "ok_or e opt = Inr v \<longleftrightarrow> opt = Some v"
  by (simp add: ok_or_def split: option.splits)

lemma checked_add_Some: "checked_add a b = Some c \<Longrightarrow> unat c = unat a + unat b"
  by (auto simp: checked_add_def unat_word_ariths split: if_splits)

lemma checked_mul_Some: "checked_mul a b = Some c \<Longrightarrow> unat c = unat a * unat b"
  by (auto simp: checked_mul_def unat_word_ariths split: if_splits)

lemma power_of_two_nat:
  assumes "is_power_of_two a"
  obtains n where "n < 64" "a = 2 ^ n" "unat a = 2 ^ n"
proof -
  from assms obtain n where n: "n < 64" "a = 2 ^ n" by (auto simp: is_power_of_two_def list_ex_iff)
  have "(2::nat) ^ n < 2 ^ 64" using n(1) by (intro power_strict_increasing) simp_all
  moreover have "(2 :: 64 word) ^ n = of_nat (2 ^ n)" by simp
  ultimately have "unat a = 2 ^ n" unfolding n(2) by (simp only: unat_of_nat) simp
  with n that show ?thesis by blast
qed

lemma checked_align_up_ok:
  assumes "checked_align_up v a = Inr w"
  shows "unat a dvd unat w" "unat v \<le> unat w" "unat w < unat v + unat a"
proof -
  have p: "is_power_of_two a" using assms by (auto simp: checked_align_up_def split: if_splits)
  then obtain n where n: "n < 64" "a = 2 ^ n" "unat a = 2 ^ n" by (rule power_of_two_nat)
  from assms obtain x where x: "checked_add v (a - 1) = Some x" "w = x AND NOT (a - 1)"
    by (auto simp: checked_align_up_def result_simps split: if_splits)
  have a0: "a \<noteq> 0" using n(3) by auto
  have ux: "unat x = unat v + (2 ^ n - 1)"
    using checked_add_Some [OF x(1)] unat_minus_one [OF a0] n(3) by simp
  have "w = push_bit n (drop_bit n x)"
    unfolding x(2) n(2) by (rule bit_word_eqI) (auto simp: bit_simps bit_mask_iff mask_eq_exp_minus_1 [symmetric])
  then have w: "unat w = 2 ^ n * (unat x div 2 ^ n)"
  proof -
    assume e: "w = push_bit n (drop_bit n x)"
    have "unat w = take_bit 64 (push_bit n (unat (drop_bit n x)))" unfolding e by (simp add: unsigned_push_bit_eq)
    also have "\<dots> = take_bit 64 (2 ^ n * (unat x div 2 ^ n))"
      using n(2,3) by (simp add: push_bit_eq_mult drop_bit_eq_div unat_div ac_simps)
    also have "\<dots> = 2 ^ n * (unat x div 2 ^ n)"
    proof -
      have "2 ^ n * (unat x div 2 ^ n) \<le> unat x" by (metis div_times_less_eq_dividend mult.commute)
      also have "unat x < 2 ^ 64" using unsigned_less [of x] by simp
      finally show ?thesis by (simp add: take_bit_nat_eq_self)
    qed
    finally show ?thesis .
  qed
  show "unat a dvd unat w" using w n(3) by simp
  have pos: "(0::nat) < 2 ^ n" by simp
  have d: "2 ^ n * (unat x div 2 ^ n) + unat x mod 2 ^ n = unat x" by simp
  have m: "unat x mod 2 ^ n < 2 ^ n" by simp
  show "unat v \<le> unat w" using w ux d m by linarith
  show "unat w < unat v + unat a" using w ux d n(3) pos by linarith
qed

section \<open>What a computed layout guarantees\<close>

lemma layout_calculate_regions:
  assumes "layout_calculate b st bs cs = Inr l"
  shows "unat (header_size b) \<le> unat (backend_offset l)"
    "unat (backend_offset l) + unat (backend_size b st) \<le> unat (messages_offset l)"
    "unat (messages_offset l) + unat bs * unat (message_slot_bytes b) \<le> unat (commands_offset l)"
    "unat (commands_offset l) + unat cs * unat (command_slot_bytes b) = unat (total_size l)"
    "unat (backend_align b st) dvd unat (backend_offset l)" "unat (message_slot_align b) dvd unat (messages_offset l)"
    "unat (command_slot_align b) dvd unat (commands_offset l)" "is_power_of_two bs" "is_power_of_two cs" "fits_u32 bs" "fits_u32 cs"
    "fits_u32 (message_slot_bytes b)" "fits_u32 (command_slot_bytes b)" "is_supported st"
proof -
  from assms obtain x1 x2 x3 x4 where
    c: "is_supported st" "is_power_of_two bs" "is_power_of_two cs" "fits_u32 bs" "fits_u32 cs"
      "fits_u32 (message_slot_bytes b)" "fits_u32 (command_slot_bytes b)"
    and a: "checked_align_up (header_size b) (backend_align b st) = Inr (backend_offset l)"
      "checked_align_up x1 (message_slot_align b) = Inr (messages_offset l)"
      "checked_align_up x3 (command_slot_align b) = Inr (commands_offset l)"
    and s: "checked_add (backend_offset l) (backend_size b st) = Some x1"
      "checked_mul bs (message_slot_bytes b) = Some x2" "checked_add (messages_offset l) x2 = Some x3"
      "checked_mul cs (command_slot_bytes b) = Some x4" "checked_add (commands_offset l) x4 = Some (total_size l)"
    unfolding layout_calculate_def result_simps by force
  note al = checked_align_up_ok [OF a(1)] checked_align_up_ok [OF a(2)] checked_align_up_ok [OF a(3)]
  note su = s(1) [THEN checked_add_Some] s(2) [THEN checked_mul_Some] s(3) [THEN checked_add_Some]
    s(4) [THEN checked_mul_Some] s(5) [THEN checked_add_Some]
  show "unat (header_size b) \<le> unat (backend_offset l)"
    "unat (backend_offset l) + unat (backend_size b st) \<le> unat (messages_offset l)"
    "unat (messages_offset l) + unat bs * unat (message_slot_bytes b) \<le> unat (commands_offset l)"
    "unat (commands_offset l) + unat cs * unat (command_slot_bytes b) = unat (total_size l)"
    using al su by linarith+
qed (use assms checked_align_up_ok in \<open>force simp: layout_calculate_def result_simps\<close>)+

lemma fits_u32_power: "is_power_of_two a \<Longrightarrow> fits_u32 a \<Longrightarrow> \<exists>n < 32. (ucast a :: 32 word) = 2 ^ n"
proof -
  assume p: "is_power_of_two a" "fits_u32 a"
  from p(1) obtain n where n: "a = 2 ^ n" "unat a = 2 ^ n" by (rule power_of_two_nat)
  then have "(2::nat) ^ n < 2 ^ 32" using p(2) by (simp only: fits_u32_def)
  then have "n < 32" by (rule power_less_imp_less_exp [rotated]) simp
  moreover have "(ucast a :: 32 word) = of_nat (unat a)" by simp
  ultimately show ?thesis using n(2) by auto
qed

text \<open>
  Every layout the code accepts is safe to use: header, backend area, message slots and
  command slots lie one after the other inside the mapping without overlapping and without an
  overflow, each area is aligned for its type, and both capacities are powers of two that fit the
  32-bit cursors, so the channels built on them are well formed.
\<close>

theorem layout_regions_disjoint:
  assumes "layout_calculate b strategy buffer_size command_buffer_size = Inr l"
  shows "unat (header_size b) \<le> unat (backend_offset l) \<and>
    unat (backend_offset l) + unat (backend_size b strategy) \<le> unat (messages_offset l) \<and>
    unat (messages_offset l) + unat buffer_size * unat (message_slot_bytes b) \<le> unat (commands_offset l) \<and>
    unat (commands_offset l) + unat command_buffer_size * unat (command_slot_bytes b) = unat (total_size l) \<and>
    unat (backend_align b strategy) dvd unat (backend_offset l) \<and> unat (message_slot_align b) dvd unat (messages_offset l) \<and>
    unat (command_slot_align b) dvd unat (commands_offset l) \<and>
    ok_ring (ring_new (ucast buffer_size) (ucast command_buffer_size))"
proof -
  note r = layout_calculate_regions [OF assms]
  obtain n k where "n < 32" "(ucast buffer_size :: 32 word) = 2 ^ n" "k < 32" "(ucast command_buffer_size :: 32 word) = 2 ^ k"
    using fits_u32_power [OF r(8,10)] fits_u32_power [OF r(9,11)] by blast
  then have "ok_ring (ring_new (ucast buffer_size) (ucast command_buffer_size))"
    using channel_new_ok by (simp add: ok_ring_def ring_new_def)
  with r show ?thesis by blast
qed

definition sample_build :: build where
  "sample_build = \<lparr>header_size = 448, backend_size = (\<lambda>_. 64), backend_align = (\<lambda>_. 64), message_slot_bytes = 1040,
     message_slot_align = 8, command_slot_bytes = 72, command_slot_align = 8, message_type_id = 5, command_type_id = 6\<rparr>"

lemma small_powers: "is_power_of_two 8" "is_power_of_two 16" "is_power_of_two 64"
  unfolding is_power_of_two_def list_ex_iff by (rule bexI [of _ 3], simp_all, rule bexI [of _ 4], simp_all, rule bexI [of _ 6], simp_all)

lemmas sample_layout = layout_calculate_def require_def and_then_def ok_or_def checked_align_up_def checked_add_def checked_mul_def
  small_powers sample_build_def is_supported_def fits_u32_def MAX_PAYLOAD_ALIGN_def

theorem layout_regions_disjoint_witness:
  "\<exists>l. layout_calculate sample_build Futex 16 16 = Inr l \<and> unat (commands_offset l) + 16 * 72 = unat (total_size l)"
proof -
  have e: "layout_calculate sample_build Futex 16 16 = Inr \<lparr>backend_offset = 448, messages_offset = 512, commands_offset = 17152, total_size = 18304\<rparr>"
    by (simp add: sample_layout)
  from layout_regions_disjoint [OF e] e show ?thesis by (auto simp: sample_build_def)
qed

section \<open>Creating and opening\<close>

lemma ucast_back: "fits_u32 a \<Longrightarrow> ucast (ucast a :: 32 word) = a"
proof -
  assume "fits_u32 a"
  then have "take_bit 32 (unat a) = unat a" by (simp add: fits_u32_def take_bit_nat_eq_self)
  then have "unat (ucast (ucast a :: 32 word) :: 64 word) = unat a"
    by (simp add: unsigned_ucast_eq take_bit_take_bit unsigned_take_bit_eq)
  then show ?thesis by (simp add: word_unat_eq_iff)
qed

lemma strategy_from_to: "is_supported s \<Longrightarrow> strategy_from_id (strategy_id s) = Some s"
  by (cases s) (simp_all add: strategy_from_id_def is_supported_def)

text \<open>
  A ring that was created can be opened: the header \<open>create_impl\<close> publishes passes every check of
  \<open>open_impl\<close> in a process built with the same types and strategy, which computes the same layout;
  and the probe for stale mappings recognises it and reads its creator.
\<close>

theorem created_ring_opens:
  assumes "create_header b strategy buffer_size command_buffer_size pid = Inr (l, h)" "pid \<noteq> 0"
  shows "open_header b (Some strategy) (total_size l) True h = Inr (strategy, l) \<and>
    open_header b None (total_size l) True h = Inr (strategy, l) \<and>
    probe_reclaimable_current_mapping b strategy (total_size l) True h = Some (pid, l)"
proof -
  from assms(1) have c: "layout_calculate b strategy buffer_size command_buffer_size = Inr l"
    and h: "h = \<lparr>hd_magic = RING_BUFFER_MAGIC, hd_version = RING_BUFFER_VERSION, hd_total_size = total_size l,
          hd_buffer_size = ucast buffer_size, hd_command_buffer_size = ucast command_buffer_size,
          hd_backend_id = strategy_id strategy, hd_message_slot_size = ucast (message_slot_bytes b),
          hd_command_slot_size = ucast (command_slot_bytes b), hd_layout_marker = LAYOUT_MARKER, hd_is_destroyed = 0,
          hd_creator_pid = pid, hd_message_fingerprint = message_type_id b, hd_command_fingerprint = command_type_id b\<rparr>"
    by (auto simp: create_header_def result_simps)
  note r = layout_calculate_regions [OF c]
  have hs: "header_size b \<le> total_size l" using r(1-4) by (simp add: word_le_nat_alt)
  have "RING_BUFFER_MAGIC \<noteq> 0" by (simp add: RING_BUFFER_MAGIC_def)
  with r(8-14) hs c assms(2) show ?thesis
    by (simp add: h open_header_def probe_reclaimable_current_mapping_def require_def and_then_def as_invalid_data_def
        ucast_back strategy_from_to)
qed

theorem created_ring_opens_witness:
  "\<exists>l h. create_header sample_build EventFd 16 8 77 = Inr (l, h) \<and> open_header sample_build None (total_size l) True h = Inr (EventFd, l)"
proof -
  have "(case create_header sample_build EventFd 16 8 77 of Inl _ \<Rightarrow> False | Inr _ \<Rightarrow> True)"
    by (simp add: create_header_def sample_layout)
  then obtain l h where e: "create_header sample_build EventFd 16 8 77 = Inr (l, h)" by (auto split: sum.splits)
  from created_ring_opens [OF e] e show ?thesis by simp
qed

end
