(* ===== verification/Spec2Isabelle.thy ===== *)
theory Spec2Isabelle
  imports Anchors Nav_Session Desktop Scratchpad_Handoff Layout_Persist Ring_Concurrent Ring_Layout
begin

text \<open>
  \<^bold>\<open>A verification library for JWM, a tag-based window manager and compositor.\<close>

  \<^bold>\<open>The program.\<close> \<open>src/core\<close> holds the data model (clients, monitors, per-tag settings) and the pure
  policies (layout engines, master resize, maximize plans, workspace exchange). \<open>src/jwm\<close> is the window manager around
  them: lists of clients per monitor, focus stacks, stacking order, size hints, struts, scrolling
  commands. The backends under \<open>src/backend\<close> talk to X11 or to the kernel and are reached through the trait
  \<open>Backend\<close>. Status bars are separate processes; they receive state and send commands through the
  shared-memory ring buffer of \<open>crates/shared_structures\<close>, and share the catalog of layouts in
  \<open>crates/xbar_core\<close>.

  \<^bold>\<open>How it is modelled.\<close> Structs are records, enums datatypes, fallible functions return options or sums
  whose left side is the error, and a method that mutates \<open>self\<close> takes the state and returns it updated.
  \<open>i32\<close> values are integers: a plain arithmetic operator of the source is wrapped to 32 bits, a
  \<open>saturating_\<close> operation saturates, and intermediate values the source widens to \<open>i64\<close> are plain integers.
  Tag sets, cursors and header fields are words. \<open>f32\<close> and \<open>f64\<close> are rationals with infinities and NaN,
  every operation rounded to nearest even at the width of the format. Slot maps and hash maps are lists of
  entries in iteration order. Answers of the backend, of the clock and of the operating system are
  parameters of the definitions that use them.

  \<^bold>\<open>The theories.\<close>
  \<^item> \<open>Prelude\<close>, \<open>Rects\<close>, \<open>Floats\<close>: machine integers, vectors, slot maps, rectangles and floating point.
  \<^item> \<open>Layout_Catalog\<close>: the catalog of \<open>xbar_core/src/display.rs\<close> and \<open>LayoutEnum\<close>.
  \<^item> \<open>Layout\<close>: every \<open>calculate_\<close> engine of \<open>core/layout.rs\<close>. \<open>Layout_Split\<close> has the lemmas on splitting a
    length, \<open>Layout_Contract\<close> the locale \<open>arranger\<close>, interpreted for every engine of the dispatch table of
    \<open>jwm/layout/drag_attach.rs\<close>; \<open>Layout_Tile\<close> and \<open>Layout_Grid\<close> show that windows stay apart.
  \<^item> \<open>Master_Resize\<close> (\<open>core/master_resize.rs\<close>): resize plans never create an overlap, and the bisection
    returns an exact plan.
  \<^item> \<open>Maximize\<close> (\<open>core/maximize.rs\<close>): admission, plans, the round trip of any sequence of requests.
  \<^item> \<open>Models\<close>, \<open>Monitor\<close> (\<open>core/models.rs\<close>, \<open>core/state.rs\<close>): the data model and the invariant that keeps per-tag
    slots and live values consistent under every monitor command.
  \<^item> \<open>Scrolling_Strip\<close> (\<open>core/models.rs\<close>): the columns of the scrolling layout.
  \<^item> \<open>Client_Stack\<close>, \<open>Client_Lists\<close>, \<open>Anchors\<close> (\<open>jwm/client_stack.rs\<close>, \<open>jwm/maximize.rs\<close>): client lists, focus
    stacks and the anchors of windows that maximize took out of the tiles.
  \<^item> \<open>Stacking\<close> (\<open>jwm/stacking.rs\<close>): the stacking plan as a stable sort, and \<open>restack\<close>.
  \<^item> \<open>Workspace\<close> (\<open>core/workspace.rs\<close>): exchanging two monitors.
  \<^item> \<open>Constraints\<close> (\<open>jwm/geometry.rs\<close>, \<open>jwm/constraints.rs\<close>): size hints and boundaries.
  \<^item> \<open>Struts\<close> (\<open>jwm/strut_manager.rs\<close>): reserved edges and work areas.
  \<^item> \<open>Animation\<close> (\<open>core/animation.rs\<close>, \<open>jwm/positioning.rs\<close>): easing, the animation table, springs and placing
    a client.
  \<^item> \<open>Layout_Commands\<close> (\<open>jwm/layout/scrolling.rs\<close>, \<open>jwm/layout/state.rs\<close>): the commands that rearrange the strip
    and tune a tag, the invariant every session of them keeps, what a rejected command leaves alone, and
    the commands that undo each other.
  \<^item> \<open>Config_Reload\<close> (\<open>jwm/lifecycle.rs\<close>): the tracker of configuration revisions, in a world of edits, polls and
    own writes. \<open>Layout_Persist\<close> (\<open>jwm/layout/persist.rs\<close>): saving and restoring the layouts of the tags.
  \<^item> \<open>Bar_Geometry\<close> (\<open>jwm/bar_geometry.rs\<close>, \<open>xbar_core\<close>): the strip of a bar, the strut it announces, shell panels
    and the timing of their reveal. \<open>Work_Area\<close> (\<open>jwm/layout/helpers.rs\<close>): what docks, bars and the tab strip
    leave for windows. \<open>Window_Tabs\<close> (\<open>jwm/window_tabs.rs\<close>): clicks on tabs and dragging them.
  \<^item> \<open>Arrange\<close> (\<open>jwm/layout/implementations.rs\<close>, \<open>jwm/layout/arrange.rs\<close>, \<open>jwm/layout/resize.rs\<close>): the arrange of a
    monitor, which composes work area, tiles, layout engines, strips, manual sizes, hints and placement.
  \<^item> \<open>Visibility\<close> (\<open>jwm/visibility.rs\<close>): hidden windows are parked off screen and come back as they were.
    \<open>Desktop\<close> (\<open>jwm/layout/arrange.rs\<close>, \<open>jwm/client.rs\<close>, \<open>jwm/maximize.rs\<close>): the whole \<open>arrange\<close> over the monitors, with
    the bar windows, the maximized windows and the restacking.
  \<^item> \<open>Scratchpads\<close> (\<open>jwm/scratchpad_pending.rs\<close>): the registry of scratchpads whose window has not appeared
    yet, under every sequence of its operations; \<open>Scratchpad_Handoff\<close> (\<open>jwm/scratchpad_handoff.rs\<close>): the message
    that carries scratchpads and launches across a restart.
  \<^item> \<open>Focus\<close> (\<open>jwm/focus.rs\<close>, \<open>jwm/focus_manager.rs\<close>), \<open>Navigation\<close> (\<open>jwm/navigation.rs\<close>, \<open>jwm/tag_manager.rs\<close>): which
    window gets the focus, stepping through the windows, moving tiles and viewing tags, as operations that
    may fail at every call to the backend; \<open>Nav_Session\<close> has what every sequence of them keeps.
  \<^item> \<open>Ring_Queue\<close>, \<open>Ring_Refinement\<close>, \<open>Ring_Concurrent\<close>, \<open>Ring_Layout\<close> (\<open>crates/shared_structures\<close>): the ring
    buffer, its refinement of two bounded queues (locale \<open>bounded_fifo\<close>), its behaviour under every
    interleaving with tasks that die, and the memory layout and header checks.

  \<^bold>\<open>Bounds and fuel.\<close> The anchors of promoted windows are followed for as many steps as the client
  list is long, which is the bound the source itself uses and which \<open>resting_anchor_follows_chain\<close> shows to be
  enough; the resting order runs as many passes as there are promoted windows. Layout theorems assume
  screens below 16777216 pixels, where \<open>f32\<close> holds integers exactly. No other definition has fuel.

  \<^bold>\<open>Not modelled.\<close> The backends, the compositor and its renderers, the portal, the remote desktop and
  the assistant are protocol and device code around libraries; the event dispatcher, the IPC handler and
  the configuration loader are glue that ends in calls to them. Flink files, mapping of shared memory and
  blocking waits are operating-system calls. The commands of \<open>Layout_Commands\<close> end in an arrange, a
  focus change or a broadcast; those calls are their result, and \<open>Desktop\<close> and \<open>Focus\<close> model the first two.
  Revealing a scratchpad and sending a window to another output are not modelled.
\<close>

end
